(* ===== verification/Prelude.thy ===== *)
theory Prelude
  imports Main "HOL-Library.Word"
begin

text \<open>
  The vocabulary the components share: Go's fixed-width types, byte slices and
  strings, and the outcome of a Go call.  A call ends in a value, in an error it
  returns, or in a panic; \<open>rbind\<close> is the \<open>if err != nil { return err }\<close> that the
  source writes after almost every call.  The second half holds the facts on byte
  strings and lists that several components use.
\<close>

named_theorems go_simps \<open>unfoldings of the plumbing of the model: binds, wrappers, conversions\<close>
named_theorems codec_simps \<open>round trips of encoders and decoders, used left to right\<close>

type_synonym byte = "8 word"
type_synonym bytes = "8 word list"
type_synonym uint64 = "64 word"

text \<open>
  Errors.  The sentinel values that the source compares with \<open>==\<close> are constructors of
  their own; \<open>ErrMsg\<close> is an \<open>errors.New\<close> or \<open>errors.Errorf\<close> with its message (without the
  formatted operands), and \<open>ErrWrap\<close> is \<open>errors.Wrap\<close>, which keeps the cause.
\<close>

datatype goerr =
    ErrUnexpectedEOF
  | ErrEOF
  | ErrOverflow
  | ErrNotExist
  | ErrUnexpectedEndOfBlockfile
  | ErrNotFoundInIndex
  | ErrAttrNotIndexed
  | ErrNilValue
  | ErrIndexSavePointKeyNotPresent
  | InvalidTxError string
  | ErrMsg string
  | ErrWrap string goerr

datatype 'a result = Ok 'a | Err goerr | Panic string

definition rbind :: "'a result \<Rightarrow> ('a \<Rightarrow> 'b result) \<Rightarrow> 'b result" where
  "rbind m f = (case m of Ok a \<Rightarrow> f a | Err e \<Rightarrow> Err e | Panic p \<Rightarrow> Panic p)"

definition rwrap :: "string \<Rightarrow> 'a result \<Rightarrow> 'a result" where
  "rwrap msg m = (case m of Ok a \<Rightarrow> Ok a | Err e \<Rightarrow> Err (ErrWrap msg e) | Panic p \<Rightarrow> Panic p)"

fun is_panic :: "'a result \<Rightarrow> bool" where
  "is_panic (Panic p) = True"
| "is_panic r = False"

lemma rbind_simps [simp, go_simps]:
  "rbind (Ok a) f = f a"
  "rbind (Err e) f = Err e"
  "rbind (Panic p) f = Panic p"
  by (simp_all add: rbind_def)

lemma rwrap_simps [simp, go_simps]:
  "rwrap msg (Ok a) = Ok a"
  "rwrap msg (Err e) = Err (ErrWrap msg e)"
  "rwrap msg (Panic p) = Panic p"
  by (simp_all add: rwrap_def)

lemma rbind_eq_Ok: "rbind m f = Ok b \<longleftrightarrow> (\<exists>a. m = Ok a \<and> f a = Ok b)"
  by (cases m) auto

lemma rwrap_eq_Ok [simp]: "rwrap msg m = Ok a \<longleftrightarrow> m = Ok a"
  by (cases m) auto

lemma rbind_assoc: "rbind (rbind m f) g = rbind m (\<lambda>a. rbind (f a) g)"
  by (cases m) auto

subsection \<open>Calls that change state\<close>

text \<open>
  A call on a state of type \<open>'s\<close> ends in an outcome and the state it leaves, also when it fails or
  panics.  \<open>io_ignore\<close> is the call whose error the source assigns to the blank identifier.
\<close>

type_synonym ('s, 'a) io = "'s \<Rightarrow> 'a result \<times> 's"

definition io_return :: "'a \<Rightarrow> ('s, 'a) io" where
  "io_return a s = (Ok a, s)"

definition io_lift :: "'a result \<Rightarrow> ('s, 'a) io" where
  "io_lift r s = (r, s)"

definition io_bind :: "('s, 'a) io \<Rightarrow> ('a \<Rightarrow> ('s, 'b) io) \<Rightarrow> ('s, 'b) io" where
  "io_bind m f s =
     (case m s of (Ok a, s') \<Rightarrow> f a s' | (Err e, s') \<Rightarrow> (Err e, s') | (Panic p, s') \<Rightarrow> (Panic p, s'))"

definition io_get :: "('s \<Rightarrow> 'a) \<Rightarrow> ('s, 'a) io" where
  "io_get f s = (Ok (f s), s)"

definition io_modify :: "('s \<Rightarrow> 's) \<Rightarrow> ('s, unit) io" where
  "io_modify f s = (Ok (), f s)"

definition ignore_err :: "'a \<Rightarrow> 'a result \<Rightarrow> 'a result" where
  "ignore_err d r = (case r of Ok a \<Rightarrow> Ok a | Err e \<Rightarrow> Ok d | Panic p \<Rightarrow> Panic p)"

definition io_ignore :: "'a \<Rightarrow> ('s, 'a) io \<Rightarrow> ('s, 'a) io" where
  "io_ignore d m s = (case m s of (r, s') \<Rightarrow> (ignore_err d r, s'))"

text \<open>\<open>if err != nil { panic(...) }\<close>\<close>

definition panic_on_err :: "string \<Rightarrow> 'a result \<Rightarrow> 'a result" where
  "panic_on_err msg r = (case r of Ok a \<Rightarrow> Ok a | Err e \<Rightarrow> Panic msg | Panic p \<Rightarrow> Panic p)"

definition io_panic_on_err :: "string \<Rightarrow> ('s, 'a) io \<Rightarrow> ('s, 'a) io" where
  "io_panic_on_err msg m s = (case m s of (r, s') \<Rightarrow> (panic_on_err msg r, s'))"

definition io_wrap :: "string \<Rightarrow> ('s, 'a) io \<Rightarrow> ('s, 'a) io" where
  "io_wrap msg m s = (case m s of (r, s') \<Rightarrow> (rwrap msg r, s'))"

text \<open>A call on a part of the state.\<close>

definition io_zoom :: "('s \<Rightarrow> 't) \<Rightarrow> ('t \<Rightarrow> 's \<Rightarrow> 's) \<Rightarrow> ('t, 'a) io \<Rightarrow> ('s, 'a) io" where
  "io_zoom get put m s = (case m (get s) of (r, t) \<Rightarrow> (r, put t s))"

lemma io_bind_simps [simp]:
  "m s = (Ok a, s') \<Longrightarrow> io_bind m f s = f a s'"
  "m s = (Err e, s') \<Longrightarrow> io_bind m f s = (Err e, s')"
  "m s = (Panic p, s') \<Longrightarrow> io_bind m f s = (Panic p, s')"
  by (simp_all add: io_bind_def)

lemma io_simps [simp]:
  "io_return a s = (Ok a, s)" "io_lift r s = (r, s)" "io_get g s = (Ok (g s), s)" "io_modify h s = (Ok (), h s)"
  by (simp_all add: io_return_def io_lift_def io_get_def io_modify_def)

lemma ignore_err_simps [simp]:
  "ignore_err d (Ok a) = Ok a" "ignore_err d (Err e) = Ok d" "ignore_err d (Panic p) = Panic p"
  by (simp_all add: ignore_err_def)

lemma panic_on_err_simps [simp]:
  "panic_on_err msg (Ok a) = Ok a" "panic_on_err msg (Err e) = Panic msg" "panic_on_err msg (Panic p) = Panic p"
  by (simp_all add: panic_on_err_def)

lemma io_bind_Ok_iff:
  "io_bind m f s = (Ok b, s'') \<longleftrightarrow> (\<exists>a s'. m s = (Ok a, s') \<and> f a s' = (Ok b, s''))"
  by (auto simp: io_bind_def split: prod.splits result.splits)

lemma io_bind_assoc: "io_bind (io_bind m f) g = io_bind m (\<lambda>a. io_bind (f a) g)"
  by (rule ext) (auto simp: io_bind_def split: prod.splits result.splits)

lemma io_unfold [simp]:
  "m s = (r, s') \<Longrightarrow> io_ignore d m s = (ignore_err d r, s')"
  "m s = (r, s') \<Longrightarrow> io_panic_on_err msg m s = (panic_on_err msg r, s')"
  "m s = (r, s') \<Longrightarrow> io_wrap msg m s = (rwrap msg r, s')"
  "n (get s) = (r, t) \<Longrightarrow> io_zoom get put n s = (r, put t s)"
  by (simp_all add: io_ignore_def io_panic_on_err_def io_wrap_def io_zoom_def)

subsection \<open>Strings and byte slices\<close>

text \<open>
  A Go string is an immutable sequence of bytes; \<open>[]byte(s)\<close> and \<open>string(b)\<close> copy it
  unchanged.  Isabelle's \<open>char\<close> is one byte, so the two conversions are inverse.
\<close>

definition byte_of_char :: "char \<Rightarrow> byte" where
  "byte_of_char c = word_of_nat (of_char c)"

definition char_of_byte :: "byte \<Rightarrow> char" where
  "char_of_byte b = char_of (unat b)"

definition to_bytes :: "string \<Rightarrow> bytes" where
  "to_bytes s = map byte_of_char s"

definition to_string :: "bytes \<Rightarrow> string" where
  "to_string b = map char_of_byte b"

lemma char_of_byte_of_char [simp]: "char_of_byte (byte_of_char c) = c"
proof -
  have "of_char c < (256 :: nat)" by simp
  then show ?thesis
    by (simp add: char_of_byte_def byte_of_char_def unat_of_nat take_bit_eq_mod)
qed

lemma byte_of_char_of_byte [simp]: "byte_of_char (char_of_byte b) = b"
proof -
  have "unat b < 256" using unsigned_less [of b, where ?'a = nat] by simp
  then show ?thesis
    by (simp add: char_of_byte_def byte_of_char_def of_char_of)
qed

lemma to_string_to_bytes [simp, codec_simps]: "to_string (to_bytes s) = s"
  by (simp add: to_string_def to_bytes_def comp_def)

lemma to_bytes_to_string [simp, codec_simps]: "to_bytes (to_string b) = b"
  by (simp add: to_string_def to_bytes_def comp_def)

lemma to_bytes_append [simp]: "to_bytes (s @ t) = to_bytes s @ to_bytes t"
  by (simp add: to_bytes_def)

lemma to_string_append [simp]: "to_string (s @ t) = to_string s @ to_string t"
  by (simp add: to_string_def)

lemma length_to_bytes [simp]: "length (to_bytes s) = length s"
  by (simp add: to_bytes_def)

lemma length_to_string [simp]: "length (to_string b) = length b"
  by (simp add: to_string_def)

lemma to_bytes_inject [simp]: "to_bytes s = to_bytes t \<longleftrightarrow> s = t"
  by (metis to_string_to_bytes)

lemma to_bytes_Nil_iff [simp]: "to_bytes s = [] \<longleftrightarrow> s = []"
  by (simp add: to_bytes_def)

subsection \<open>Machine integers\<close>

text \<open>The values of Go's \<open>int\<close>.\<close>

definition int64_range :: "int \<Rightarrow> bool" where
  "int64_range i = (- (2 ^ 63) \<le> i \<and> i < 2 ^ 63)"

lemma sint_word_of_int: "int64_range i \<Longrightarrow> sint (word_of_int i :: uint64) = i"
  by (simp add: int64_range_def signed_of_int signed_take_bit_int_eq_self)

subsection \<open>Lists\<close>

lemma take_length_append [simp]: "take (length xs) (xs @ ys) = xs"
  by simp

lemma take_drop_middle: "take (length ys) (drop (length xs) (xs @ ys @ zs)) = ys"
  by simp

lemma unat_of_nat_64 [simp]: "n < 2 ^ 64 \<Longrightarrow> unat (word_of_nat n :: uint64) = n"
  by (simp add: unat_of_nat take_bit_eq_mod)

end
