(* ===== verification/GoStd.thy ===== *)
theory GoStd
  imports Prelude
begin

text \<open>
  The parts of Go's standard library that the modelled code calls: positional numerals
  (\<open>strconv\<close>, the \<open>%x\<close> verb, big-endian integers of \<open>encoding/binary\<close> and \<open>math/big\<close>),
  \<open>strings.Split\<close>, \<open>strings.Replace\<close>, \<open>bufio.Reader.ReadLine\<close> and the arithmetic of
  \<open>big.Int\<close>.  Where the source drops an error value, the value that the library returns
  beside the error is modelled too.
\<close>

section \<open>Definitions\<close>

subsection \<open>Positional numerals\<close>

function digits :: "nat \<Rightarrow> nat \<Rightarrow> nat list" where
  "digits base n = (if n < base \<or> base < 2 then [n] else digits base (n div base) @ [n mod base])"
  by pat_completeness auto
termination by (relation "measure snd") auto

declare digits.simps [simp del]

definition from_digits :: "nat \<Rightarrow> nat list \<Rightarrow> nat" where
  "from_digits base ds = foldl (\<lambda>v d. v * base + d) 0 ds"

fun digit_char :: "nat \<Rightarrow> char" where
  "digit_char d = (if d < 10 then char_of (48 + d) else char_of (87 + d))"

definition digit_val :: "char \<Rightarrow> nat option" where
  "digit_val c =
     (let n = of_char c in
      if 48 \<le> n \<and> n \<le> 57 then Some (n - 48)
      else if 97 \<le> n \<and> n \<le> 122 then Some (n - 87)
      else if 65 \<le> n \<and> n \<le> 90 then Some (n - 55)
      else None)"

definition is_digit :: "nat \<Rightarrow> char \<Rightarrow> bool" where
  "is_digit base c = (case digit_val c of None \<Rightarrow> False | Some d \<Rightarrow> d < base)"

definition show_nat :: "nat \<Rightarrow> nat \<Rightarrow> string" where
  "show_nat base n = map digit_char (digits base n)"

definition read_nat :: "nat \<Rightarrow> string \<Rightarrow> nat" where
  "read_nat base s = from_digits base (map (\<lambda>c. case digit_val c of None \<Rightarrow> 0 | Some d \<Rightarrow> d) s)"

subsection \<open>strconv and fmt\<close>

definition FormatUint :: "uint64 \<Rightarrow> string" where
  "FormatUint n = show_nat 10 (unat n)"

definition Itoa :: "int \<Rightarrow> string" where
  "Itoa i = (if i < 0 then CHR ''-'' # show_nat 10 (nat (- i)) else show_nat 10 (nat i))"

definition max_int64 :: int where "max_int64 = 2 ^ 63 - 1"
definition min_int64 :: int where "min_int64 = - (2 ^ 63)"

text \<open>\<open>strconv.Atoi\<close>: the number it returns, and whether it returned an error beside it.\<close>

definition Atoi :: "string \<Rightarrow> int \<times> bool" where
  "Atoi s =
     (let neg = (s \<noteq> [] \<and> hd s = CHR ''-''); pos = (s \<noteq> [] \<and> hd s = CHR ''+'');
          ds = (if neg \<or> pos then tl s else s) in
      if ds = [] \<or> \<not> list_all (is_digit 10) ds then (0, True)
      else
        (let v = int (read_nat 10 ds) in
         if neg then (if - v < min_int64 then (min_int64, True) else (- v, False))
         else (if v > max_int64 then (max_int64, True) else (v, False))))"

definition ParseUint :: "string \<Rightarrow> uint64 result" where
  "ParseUint s =
     (if s = [] \<or> \<not> list_all (is_digit 10) s then Err (ErrMsg ''invalid syntax'')
      else if read_nat 10 s \<ge> 2 ^ 64 then Err (ErrMsg ''value out of range'')
      else Ok (word_of_nat (read_nat 10 s)))"

text \<open>\<open>%06d\<close> of a non-negative number.\<close>

definition pad6 :: "nat \<Rightarrow> string" where
  "pad6 n = (let s = show_nat 10 n in replicate (6 - length s) (CHR ''0'') @ s)"

subsection \<open>strings\<close>

definition HasPrefix :: "string \<Rightarrow> string \<Rightarrow> bool" where
  "HasPrefix s p = (take (length p) s = p)"

definition TrimPrefix :: "string \<Rightarrow> string \<Rightarrow> string" where
  "TrimPrefix s p = (if HasPrefix s p then drop (length p) s else s)"

text \<open>\<open>strings.Split(s, "++")\<close>, the only separator the source splits at.\<close>

fun Split_plusplus :: "string \<Rightarrow> string list" where
  "Split_plusplus [] = [[]]"
| "Split_plusplus [c] = [[c]]"
| "Split_plusplus (c # d # s) =
     (if c = CHR ''+'' \<and> d = CHR ''+'' then [] # Split_plusplus s
      else (case Split_plusplus (d # s) of [] \<Rightarrow> [[c]] | w # ws \<Rightarrow> (c # w) # ws))"

text \<open>\<open>strings.Replace(s, old, new, 1)\<close>: the first occurrence; an empty \<open>old\<close> matches at the start.\<close>

fun Replace1 :: "string \<Rightarrow> string \<Rightarrow> string \<Rightarrow> string" where
  "Replace1 s old new =
     (if HasPrefix s old then new @ drop (length old) s
      else (case s of [] \<Rightarrow> [] | c # s' \<Rightarrow> c # Replace1 s' old new))"

declare Replace1.simps [simp del]

subsection \<open>bufio.Reader.ReadLine\<close>

text \<open>
  On the bytes still unread, \<open>None\<close> at the end of the file.  The reader's buffer holds 4096
  bytes: a longer line comes back in pieces, and a carriage return at the very end of a full
  buffer is left for the next call.
\<close>

definition strip_cr :: "bytes \<Rightarrow> bytes" where
  "strip_cr l = (if l \<noteq> [] \<and> last l = 13 then butlast l else l)"

definition ReadLine :: "bytes \<Rightarrow> (bytes \<times> bytes) option" where
  "ReadLine s =
     (let l = takeWhile (\<lambda>b. b \<noteq> 10) s in
      if s = [] then None
      else if length l < length s \<and> length l < 4096 then Some (strip_cr l, drop (length l + 1) s)
      else if length s < 4096 then Some (s, [])
      else if s ! 4095 = 13 then Some (take 4095 s, drop 4095 s)
      else Some (take 4096 s, drop 4096 s))"

lemma ReadLine_shorter: "ReadLine s = Some (l, rest) \<Longrightarrow> length rest < length s"
  by (auto simp: ReadLine_def Let_def split: if_splits)

function read_lines :: "bytes \<Rightarrow> string list" where
  "read_lines s = (case ReadLine s of None \<Rightarrow> [] | Some (l, rest) \<Rightarrow> to_string l # read_lines rest)"
  by pat_completeness auto
termination by (relation "measure length") (auto dest: ReadLine_shorter)

declare read_lines.simps [simp del]

subsection \<open>encoding/binary, big endian\<close>

definition be_val :: "bytes \<Rightarrow> nat" where
  "be_val bs = from_digits 256 (map unat bs)"

definition PutUint64 :: "uint64 \<Rightarrow> bytes" where
  "PutUint64 v = map (\<lambda>i. ucast (drop_bit i v)) [56, 48, 40, 32, 24, 16, 8, 0]"

definition BigEndian_Uint64 :: "bytes \<Rightarrow> uint64" where
  "BigEndian_Uint64 bs = word_of_nat (be_val bs)"

subsection \<open>math/big\<close>

text \<open>
  \<open>SetString(s, 16)\<close> on a fresh \<open>big.Int\<close>.  The source ignores the success flag: the
  receiver then holds the value of the leading digits, zero when there are none.
\<close>

definition SetString16 :: "string \<Rightarrow> int" where
  "SetString16 s =
     (let neg = (s \<noteq> [] \<and> hd s = CHR ''-''); pos = (s \<noteq> [] \<and> hd s = CHR ''+'');
          v = int (read_nat 16 (takeWhile (is_digit 16) (if neg \<or> pos then tl s else s)))
      in if neg then - v else v)"

definition Sprintf_x :: "int \<Rightarrow> string" where
  "Sprintf_x x = (if x < 0 then CHR ''-'' # show_nat 16 (nat (- x)) else show_nat 16 (nat x))"

definition SetBytes :: "bytes \<Rightarrow> int" where
  "SetBytes bs = int (be_val bs)"

definition big_Bytes :: "int \<Rightarrow> bytes" where
  "big_Bytes x = (if x = 0 then [] else map word_of_nat (digits 256 (nat \<bar>x\<bar>)))"

text \<open>Square and multiply, for the powers modulo \<open>m\<close>.\<close>

function powmod :: "int \<Rightarrow> nat \<Rightarrow> int \<Rightarrow> int" where
  "powmod x n m =
     (if n = 0 then 1 mod m
      else if even n then powmod (x * x mod m) (n div 2) m
      else x * powmod (x * x mod m) (n div 2) m mod m)"
  by pat_completeness auto
termination by (relation "measure (\<lambda>(x, n, m). n)") auto

declare powmod.simps [simp del]

text \<open>
  \<open>z.Exp(x, y, m)\<close> on a fresh \<open>z\<close>: a zero modulus means no reduction; a negative exponent
  needs the inverse of the base, and without one \<open>z\<close> keeps its zero.
\<close>

definition big_Exp :: "int \<Rightarrow> int \<Rightarrow> int \<Rightarrow> int" where
  "big_Exp x y m =
     (if m = 0 then (if y \<le> 0 then 1 else x ^ nat y)
      else if y \<ge> 0 then powmod x (nat y) \<bar>m\<bar>
      else if coprime x m then powmod (fst (bezw (nat (x mod \<bar>m\<bar>)) (nat \<bar>m\<bar>)) mod \<bar>m\<bar>) (nat (- y)) \<bar>m\<bar>
      else 0)"

definition big_Mod :: "int \<Rightarrow> int \<Rightarrow> int result" where
  "big_Mod x y = (if y = 0 then Panic ''division by zero'' else Ok (x mod \<bar>y\<bar>))"

section \<open>Numerals in any radix\<close>

lemma from_digits_append:
  "from_digits b (xs @ ys) = from_digits b xs * b ^ length ys + from_digits b ys"
proof (induction ys rule: rev_induct)
  case Nil
  then show ?case by (simp add: from_digits_def)
next
  case (snoc y ys)
  have snoc': "from_digits b (zs @ [y]) = from_digits b zs * b + y" for zs
    by (simp add: from_digits_def)
  show ?case
    unfolding append_assoc [symmetric] snoc' using snoc.IH by (simp add: algebra_simps)
qed

lemma from_digits_simps [simp]:
  "from_digits b [] = 0" "from_digits b [d] = d"
  "from_digits b (xs @ [d]) = from_digits b xs * b + d"
  by (simp_all add: from_digits_def)

lemma from_digits_Cons: "from_digits b (d # ds) = d * b ^ length ds + from_digits b ds"
  using from_digits_append [of b "[d]" ds] by simp

lemma from_digits_zeros [simp]: "from_digits b (replicate n 0 @ ds) = from_digits b ds"
  by (induction n) (simp_all add: from_digits_Cons)

locale radix =
  fixes base :: nat
  assumes base_ge2: "2 \<le> base"
begin

lemma from_digits_digits [simp]: "from_digits base (digits base n) = n"
proof (induction base n rule: digits.induct)
  case (1 base n)
  show ?case by (subst digits.simps) (use 1 in auto)
qed

lemma digits_less: "d \<in> set (digits base n) \<Longrightarrow> d < base"
proof (induction n rule: less_induct)
  case (less n)
  show ?case
  proof (cases "n < base")
    case True
    with less.prems show ?thesis by (simp add: digits.simps)
  next
    case False
    with base_ge2 have "n div base < n" by simp
    moreover from False base_ge2 less.prems have "d \<in> set (digits base (n div base)) \<or> d = n mod base"
      by (subst (asm) digits.simps) auto
    ultimately show ?thesis using less.IH base_ge2 by auto
  qed
qed

lemma digits_not_Nil [simp]: "digits base n \<noteq> []"
  by (subst digits.simps) simp

lemma hd_digits: "n \<noteq> 0 \<Longrightarrow> hd (digits base n) \<noteq> 0"
proof (induction n rule: less_induct)
  case (less n)
  show ?case
  proof (cases "n < base")
    case True
    with less.prems show ?thesis by (simp add: digits.simps)
  next
    case False
    with base_ge2 have "n div base < n" "n div base \<noteq> 0" by (auto simp: div_eq_0_iff)
    then have "hd (digits base (n div base)) \<noteq> 0" by (rule less.IH)
    moreover have "digits base n = digits base (n div base) @ [n mod base]"
      using False base_ge2 by (subst digits.simps) simp
    ultimately show ?thesis by simp
  qed
qed

lemma from_digits_less: "\<forall>d \<in> set ds. d < base \<Longrightarrow> from_digits base ds < base ^ length ds"
proof (induction ds)
  case (Cons d ds)
  then have "from_digits base ds < base ^ length ds" and "d + 1 \<le> base" by auto
  then have "d * base ^ length ds + from_digits base ds < (d + 1) * base ^ length ds"
    by (simp add: algebra_simps)
  also have "\<dots> \<le> base * base ^ length ds"
    using \<open>d + 1 \<le> base\<close> by (rule mult_le_mono1)
  finally show ?case by (simp add: from_digits_Cons)
qed simp

lemma from_digits_inject:
  assumes "length xs = length ys" "\<forall>d \<in> set xs. d < base" "\<forall>d \<in> set ys. d < base"
    and "from_digits base xs = from_digits base ys"
  shows "xs = ys"
  using assms
proof (induction xs ys rule: rev_induct2)
  case (4 x xs y ys)
  then have e: "from_digits base xs * base + x = from_digits base ys * base + y"
    and xy: "x < base" "y < base" by auto
  have "x = y" using arg_cong [OF e, of "\<lambda>n. n mod base"] xy by simp
  moreover have "from_digits base xs = from_digits base ys"
    using arg_cong [OF e, of "\<lambda>n. n div base"] xy by simp
  ultimately show ?case using 4 by auto
qed auto

lemma digits_inject [simp]: "digits base m = digits base n \<longleftrightarrow> m = n"
  by (metis from_digits_digits)

lemma digits_from_digits:
  assumes "ds \<noteq> []" "\<forall>d \<in> set ds. d < base" "hd ds \<noteq> 0 \<or> length ds = 1"
  shows "digits base (from_digits base ds) = ds"
  using assms
proof (induction ds rule: rev_induct)
  case (snoc d ds)
  show ?case
  proof (cases "ds = []")
    case True
    with snoc.prems show ?thesis by (simp add: digits.simps)
  next
    case False
    with snoc.prems have "hd ds \<noteq> 0" by auto
    then have IH: "digits base (from_digits base ds) = ds"
      using False snoc.prems by (intro snoc.IH) auto
    have "from_digits base ds \<noteq> 0"
    proof
      assume "from_digits base ds = 0"
      with IH base_ge2 have "ds = [0]" by (simp add: digits.simps)
      with \<open>hd ds \<noteq> 0\<close> show False by simp
    qed
    then have "\<not> from_digits base ds * base + d < base" by (simp add: not_less trans_le_add1)
    with snoc.prems(2) base_ge2 IH show ?thesis by (subst digits.simps) simp
  qed
qed simp

end

interpretation dec: radix 10 by unfold_locales simp
interpretation hex: radix 16 by unfold_locales simp
interpretation octet: radix 256 by unfold_locales simp

lemma digit_val_digit_char: "d < 36 \<Longrightarrow> digit_val (digit_char d) = Some d"
  by (auto simp: digit_val_def Let_def)

lemma is_digit_digit_char: "d < base \<Longrightarrow> base \<le> 36 \<Longrightarrow> is_digit base (digit_char d)"
  by (simp add: is_digit_def digit_val_digit_char del: digit_char.simps)

context radix
begin

lemma show_nat_digits:
  assumes "base \<le> 36"
  shows "list_all (is_digit base) (show_nat base n)"
  using assms by (auto simp: show_nat_def list_all_iff is_digit_digit_char digits_less simp del: digit_char.simps)

lemma read_show [simp]: 
  assumes "base \<le> 36"
  shows "read_nat base (show_nat base n) = n"
proof -
  have "map (\<lambda>c. case digit_val c of None \<Rightarrow> 0 | Some d \<Rightarrow> d) (show_nat base n) = digits base n"
    using digit_val_digit_char [OF order_less_le_trans [OF digits_less assms]]
    by (auto simp: show_nat_def simp del: digit_char.simps intro!: map_idI)
  then show ?thesis by (simp add: read_nat_def)
qed

lemma show_nat_not_Nil [simp]: "show_nat base n \<noteq> []"
  by (simp add: show_nat_def)

lemma takeWhile_show [simp]:
  assumes "base \<le> 36"
  shows "takeWhile (is_digit base) (show_nat base n) = show_nat base n"
  using show_nat_digits [OF assms, of n] by (simp add: takeWhile_eq_all_conv list_all_iff)

end


lemma is_digit_sign: "base \<le> 36 \<Longrightarrow> is_digit base c \<Longrightarrow> c \<noteq> CHR ''-'' \<and> c \<noteq> CHR ''+''"
  by (auto simp: is_digit_def digit_val_def Let_def)

context radix
begin

lemma hd_show_nat:
  assumes "base \<le> 36"
  shows "hd (show_nat base n) \<noteq> CHR ''-''" "hd (show_nat base n) \<noteq> CHR ''+''"
  using show_nat_digits [OF assms, of n] is_digit_sign [OF assms]
  by (metis list.pred_set list.set_sel(1) show_nat_not_Nil)+

lemma show_nat_inject [simp]:
  assumes "base \<le> 36"
  shows "show_nat base m = show_nat base n \<longleftrightarrow> m = n"
  using read_show [OF assms] by metis

end

lemma SetString16_Sprintf_x [simp]: "SetString16 (Sprintf_x x) = x"
  using hex.hd_show_nat [of "nat x"] by (simp add: SetString16_def Sprintf_x_def Let_def)

lemma SetBytes_big_Bytes [simp]: "0 \<le> x \<Longrightarrow> SetBytes (big_Bytes x) = x"
proof -
  assume x: "0 \<le> x"
  have "map unat (map word_of_nat (digits 256 (nat x)) :: byte list) = digits 256 (nat x)"
    using octet.digits_less [of _ "nat x"] by (auto simp: unat_of_nat take_bit_eq_mod intro!: map_idI)
  with x show ?thesis by (simp add: SetBytes_def big_Bytes_def be_val_def)
qed

lemma ParseUint_FormatUint [simp]: "ParseUint (FormatUint n) = Ok n"
  using unsigned_less [of n, where ?'a = nat]
  by (simp add: ParseUint_def FormatUint_def dec.show_nat_digits)

lemma Atoi_FormatUint: "unat n < 2 ^ 63 \<Longrightarrow> Atoi (FormatUint n) = (int (unat n), False)"
proof -
  assume "unat n < 2 ^ 63"
  then have "int (unat n) < 2 ^ 63" by (rule of_nat_less_numeral_power_cancel_iff [THEN iffD2])
  then show ?thesis
    using dec.hd_show_nat [of "unat n"]
    by (simp add: Atoi_def FormatUint_def dec.show_nat_digits Let_def max_int64_def)
qed

lemma Atoi_Itoa: "0 \<le> i \<Longrightarrow> i < 2 ^ 63 \<Longrightarrow> Atoi (Itoa i) = (i, False)"
  using dec.hd_show_nat [of "nat i"]
  by (simp add: Atoi_def Itoa_def dec.show_nat_digits Let_def max_int64_def)

lemma powmod_eq: "0 < m \<Longrightarrow> powmod x n m = x ^ n mod m"
proof (induction x n m rule: powmod.induct)
  case (1 x n m)
  consider "n = 0" | "n \<noteq> 0" "even n" | "odd n" by auto
  then show ?case
  proof cases
    case 2
    then have "powmod x n m = (x * x mod m) ^ (n div 2) mod m"
      using 1 by (subst powmod.simps) simp
    also have "\<dots> = (x ^ 2) ^ (n div 2) mod m" by (simp add: power_mod power2_eq_square)
    also have "(x ^ 2) ^ (n div 2) = x ^ n" using 2 by (simp flip: power_mult)
    finally show ?thesis .
  next
    case 3
    then have "n \<noteq> 0" by presburger
    with 3 have "powmod x n m = x * ((x * x mod m) ^ (n div 2) mod m) mod m"
      using 1 by (subst powmod.simps) simp
    also have "\<dots> = x * (x ^ 2) ^ (n div 2) mod m"
      by (metis (no_types) mod_mult_right_eq power2_eq_square power_mod)
    also have "x * (x ^ 2) ^ (n div 2) = x ^ n" using 3 by (simp flip: power_mult power_Suc)
    finally show ?thesis .
  qed (simp add: powmod.simps)
qed

lemma Split_plusplus_plain: "CHR ''+'' \<notin> set s \<Longrightarrow> Split_plusplus s = [s]"
  by (induction s rule: Split_plusplus.induct) auto

lemma Split_plusplus_pair:
  assumes "CHR ''+'' \<notin> set k" 
  shows "Split_plusplus (k @ ''++'' @ v) = k # Split_plusplus v"
  using assms
proof (induction k)
  case (Cons c k)
  then show ?case by (cases k) auto
qed simp

end
