(* ===== verification/Sha256.thy ===== *)
theory Sha256
  imports GoStd
begin

text \<open>
  \<open>crypto/sha256\<close>: the hash that block headers, transaction identifiers and the chameleon
  hash are built on, as FIPS 180-4 defines it, on 32-bit words that wrap around.
\<close>

unbundle bit_operations_syntax

section \<open>Definitions\<close>

type_synonym w32 = "32 word"

definition sha_rotr :: "nat \<Rightarrow> w32 \<Rightarrow> w32" where
  "sha_rotr n x = drop_bit n x OR push_bit (32 - n) x"

definition sha_K :: "w32 list" where
  "sha_K =
    [1116352408, 1899447441, 3049323471, 3921009573, 961987163, 1508970993,
     2453635748, 2870763221, 3624381080, 310598401, 607225278, 1426881987,
     1925078388, 2162078206, 2614888103, 3248222580, 3835390401, 4022224774,
     264347078, 604807628, 770255983, 1249150122, 1555081692, 1996064986,
     2554220882, 2821834349, 2952996808, 3210313671, 3336571891, 3584528711,
     113926993, 338241895, 666307205, 773529912, 1294757372, 1396182291,
     1695183700, 1986661051, 2177026350, 2456956037, 2730485921, 2820302411,
     3259730800, 3345764771, 3516065817, 3600352804, 4094571909, 275423344,
     430227734, 506948616, 659060556, 883997877, 958139571, 1322822218,
     1537002063, 1747873779, 1955562222, 2024104815, 2227730452, 2361852424,
     2428436474, 2756734187, 3204031479, 3329325298]"

definition sha_H0 :: "w32 list" where
  "sha_H0 = [1779033703, 3144134277, 1013904242, 2773480762, 1359893119, 2600822924, 528734635, 1541459225]"

primrec sha_schedule :: "nat \<Rightarrow> w32 list \<Rightarrow> w32 list" where
  "sha_schedule 0 ws = ws"
| "sha_schedule (Suc n) ws =
     (let t = length ws; x = ws ! (t - 15); y = ws ! (t - 2);
          s0 = sha_rotr 7 x XOR sha_rotr 18 x XOR drop_bit 3 x;
          s1 = sha_rotr 17 y XOR sha_rotr 19 y XOR drop_bit 10 y
      in sha_schedule n (ws @ [ws ! (t - 16) + s0 + ws ! (t - 7) + s1]))"

text \<open>One round on the eight working variables, with its constant and schedule word.\<close>

fun sha_round :: "w32 \<times> w32 \<Rightarrow> w32 list \<Rightarrow> w32 list" where
  "sha_round (k, w) [a, b, c, d, e, f, g, h] =
     (let t1 = h + (sha_rotr 6 e XOR sha_rotr 11 e XOR sha_rotr 25 e)
               + ((e AND f) XOR (NOT e AND g)) + k + w;
          t2 = (sha_rotr 2 a XOR sha_rotr 13 a XOR sha_rotr 22 a)
               + ((a AND b) XOR (a AND c) XOR (b AND c))
      in [t1 + t2, a, b, c, d + t1, e, f, g])"
| "sha_round kw vs = vs"

definition sha_compress :: "w32 list \<Rightarrow> w32 list \<Rightarrow> w32 list" where
  "sha_compress hs ws = map2 (+) hs (fold sha_round (zip sha_K (sha_schedule 48 ws)) hs)"

fun sha_words :: "bytes \<Rightarrow> w32 list" where
  "sha_words (a # b # c # d # bs) =
     (push_bit 24 (ucast a) OR push_bit 16 (ucast b) OR push_bit 8 (ucast c) OR ucast d) # sha_words bs"
| "sha_words bs = []"

definition sha_pad :: "bytes \<Rightarrow> bytes" where
  "sha_pad msg =
     msg @ [0x80] @ replicate ((119 - length msg mod 64) mod 64) 0
         @ PutUint64 (word_of_nat (8 * length msg))"

function sha_blocks :: "w32 list \<Rightarrow> w32 list \<Rightarrow> w32 list" where
  "sha_blocks hs ws =
     (if length ws < 16 then hs else sha_blocks (sha_compress hs (take 16 ws)) (drop 16 ws))"
  by pat_completeness auto
termination by (relation "measure (length \<circ> snd)") auto

declare sha_blocks.simps [simp del]

definition sha_out :: "w32 \<Rightarrow> bytes" where
  "sha_out w = [ucast (drop_bit 24 w), ucast (drop_bit 16 w), ucast (drop_bit 8 w), ucast w]"

definition sha256 :: "bytes \<Rightarrow> bytes" where
  "sha256 msg = concat (map sha_out (sha_blocks sha_H0 (sha_words (sha_pad msg))))"

section \<open>Shape of the digest\<close>

lemma length_sha_round: "length vs = 8 \<Longrightarrow> length (sha_round kw vs) = 8"
  by (cases "(kw, vs)" rule: sha_round.cases) (auto simp: Let_def)

lemma length_fold_sha_round: "length vs = 8 \<Longrightarrow> length (fold sha_round kws vs) = 8"
  by (induction kws arbitrary: vs) (auto simp: length_sha_round)

lemma length_sha_compress: "length hs = 8 \<Longrightarrow> length (sha_compress hs ws) = 8"
  by (simp add: sha_compress_def length_fold_sha_round)

lemma length_sha_blocks: "length hs = 8 \<Longrightarrow> length (sha_blocks hs ws) = 8"
proof (induction hs ws rule: sha_blocks.induct)
  case (1 hs ws)
  then show ?case by (subst sha_blocks.simps) (simp add: length_sha_compress)
qed

lemma length_sha256 [simp]: "length (sha256 msg) = 32"
proof -
  have "length (concat (map sha_out ws)) = 4 * length ws" for ws
    by (induction ws) (auto simp: sha_out_def)
  moreover have "length (sha_blocks sha_H0 ws) = 8" for ws
    by (rule length_sha_blocks) (simp add: sha_H0_def)
  ultimately show ?thesis by (simp add: sha256_def)
qed

end
