(* ===== verification/Chameleon.thy ===== *)
theory Chameleon
  imports Sha256
begin

text \<open>
  The chameleon hash that replaces SHA-256 as the hash of a block's data, and the collision
  that the holder of the trapdoor computes for it.  The source has the hash four times
  (\<open>protoutil/blockutils.go\<close>, \<open>common/ledger/blkstorage/blockfile_mgr.go\<close>,
  \<open>orderer/consensus/etcdraft/blockcreator.go\<close>, \<open>core/ledger/kvledger/kv_ledger.go\<close>) and the
  collision three times; the copies used by the peer's block store and by the orderer are
  modelled next to the one of \<open>protoutil\<close>.  All of them take their numbers as hexadecimal text.
\<close>

section \<open>Definitions\<close>

subsection \<open>The hash\<close>

definition chameleonHash ::
  "bytes \<Rightarrow> bytes \<Rightarrow> bytes \<Rightarrow> bytes \<Rightarrow> bytes \<Rightarrow> bytes \<Rightarrow> bytes \<Rightarrow> bytes result" where
  "chameleonHash hk p q g message r s =
     (let pBig = SetString16 (to_string p);
          qBig = SetString16 (to_string q);
          gBig = SetString16 (to_string g);
          hkBig = SetString16 (to_string hk);
          rBig = SetString16 (to_string r);
          sBig = SetString16 (to_string s);
          eBig = SetBytes (sha256 (message @ to_bytes (Sprintf_x rBig)));
          hkeBig = big_Exp hkBig eBig pBig;
          gsBig = big_Exp gBig sBig pBig
      in rbind (big_Mod (hkeBig * gsBig) pBig) (\<lambda>tmpBig.
         rbind (big_Mod (rBig - tmpBig) qBig) (\<lambda>hBig.
         Ok (big_Bytes hBig))))"

definition blkstorage_chameleonHash ::
  "bytes \<Rightarrow> bytes \<Rightarrow> bytes \<Rightarrow> bytes \<Rightarrow> bytes \<Rightarrow> bytes \<Rightarrow> bytes \<Rightarrow> bytes result" where
  "blkstorage_chameleonHash hk p q g message r s =
     (let pBig = SetString16 (to_string p);
          qBig = SetString16 (to_string q);
          gBig = SetString16 (to_string g);
          hkBig = SetString16 (to_string hk);
          rBig = SetString16 (to_string r);
          sBig = SetString16 (to_string s);
          hash = message @ to_bytes (Sprintf_x rBig);
          eBig = SetBytes (sha256 hash);
          hkeBig = big_Exp hkBig eBig pBig;
          gsBig = big_Exp gBig sBig pBig
      in rbind (big_Mod (hkeBig * gsBig) pBig) (\<lambda>tmpBig.
         rbind (big_Mod (rBig - tmpBig) qBig) (\<lambda>hBig.
         Ok (big_Bytes hBig))))"

definition etcdraft_chameleonHash ::
  "bytes \<Rightarrow> bytes \<Rightarrow> bytes \<Rightarrow> bytes \<Rightarrow> bytes \<Rightarrow> bytes \<Rightarrow> bytes \<Rightarrow> bytes result" where
  "etcdraft_chameleonHash hk p q g message r s =
     (let pBig = SetString16 (to_string p);
          qBig = SetString16 (to_string q);
          gBig = SetString16 (to_string g);
          hkBig = SetString16 (to_string hk);
          rBig = SetString16 (to_string r);
          sBig = SetString16 (to_string s);
          hash = message @ to_bytes (Sprintf_x rBig);
          eBig = SetBytes (sha256 hash);
          hkeBig = big_Exp hkBig eBig pBig;
          gsBig = big_Exp gBig sBig pBig
      in rbind (big_Mod (hkeBig * gsBig) pBig) (\<lambda>tmpBig.
         rbind (big_Mod (rBig - tmpBig) qBig) (\<lambda>hBig.
         Ok (big_Bytes hBig))))"

subsection \<open>The collision\<close>

text \<open>
  \<open>k\<close> is what \<open>rand.Int(rand.Reader, qBig)\<close> returned, \<open>None\<close> when the reader failed: the
  source prints a message and goes on with a nil \<open>kBig\<close>, which \<open>Exp\<close> dereferences.
  The result is the pair of texts stored through \<open>r2\<close> and \<open>s2\<close>.
\<close>

definition generateCollision ::
  "bytes \<Rightarrow> bytes \<Rightarrow> bytes \<Rightarrow> bytes \<Rightarrow> bytes \<Rightarrow> bytes \<Rightarrow> bytes \<Rightarrow> bytes \<Rightarrow> bytes \<Rightarrow> int option
    \<Rightarrow> (bytes \<times> bytes) result" where
  "generateCollision hk tk p q g msg1 msg2 r1 s1 k =
     (let pBig = SetString16 (to_string p);
          qBig = SetString16 (to_string q);
          gBig = SetString16 (to_string g);
          tkBig = SetString16 (to_string tk)
      in if qBig \<le> 0 then Panic ''crypto/rand: argument to Int is <= 0''
         else rbind (blkstorage_chameleonHash hk p q g msg1 r1 s1) (\<lambda>hash.
           (let hBig = SetBytes hash in
            case k of
              None \<Rightarrow> Panic ''nil pointer dereference''
            | Some kBig \<Rightarrow>
                (let tmpBig = big_Exp gBig kBig pBig in
                 rbind (big_Mod (hBig + tmpBig) qBig) (\<lambda>r2Big.
                   (let eBig = SetBytes (sha256 (msg2 @ to_bytes (Sprintf_x r2Big))) in
                    rbind (big_Mod (eBig * tkBig) qBig) (\<lambda>tmpBig'.
                    rbind (big_Mod (kBig - tmpBig') qBig) (\<lambda>s2Big.
                    Ok (to_bytes (Sprintf_x r2Big), to_bytes (Sprintf_x s2Big))))))))))"

definition etcdraft_generateCollision ::
  "bytes \<Rightarrow> bytes \<Rightarrow> bytes \<Rightarrow> bytes \<Rightarrow> bytes \<Rightarrow> bytes \<Rightarrow> bytes \<Rightarrow> bytes \<Rightarrow> bytes \<Rightarrow> int option
    \<Rightarrow> (bytes \<times> bytes) result" where
  "etcdraft_generateCollision hk tk p q g msg1 msg2 r1 s1 k =
     (let pBig = SetString16 (to_string p);
          qBig = SetString16 (to_string q);
          gBig = SetString16 (to_string g);
          tkBig = SetString16 (to_string tk)
      in if qBig \<le> 0 then Panic ''crypto/rand: argument to Int is <= 0''
         else rbind (etcdraft_chameleonHash hk p q g msg1 r1 s1) (\<lambda>hash.
           (let hBig = SetBytes hash in
            case k of
              None \<Rightarrow> Panic ''nil pointer dereference''
            | Some kBig \<Rightarrow>
                (let tmpBig = big_Exp gBig kBig pBig in
                 rbind (big_Mod (hBig + tmpBig) qBig) (\<lambda>r2Big.
                   (let eBig = SetBytes (sha256 (msg2 @ to_bytes (Sprintf_x r2Big))) in
                    rbind (big_Mod (eBig * tkBig) qBig) (\<lambda>tmpBig'.
                    rbind (big_Mod (kBig - tmpBig') qBig) (\<lambda>s2Big.
                    Ok (to_bytes (Sprintf_x r2Big), to_bytes (Sprintf_x s2Big))))))))))"

subsection \<open>The parameters compiled into the source\<close>

definition param_p :: bytes where
  "param_p = to_bytes ''ff1547760a78c9a40bae518b3c631bd719803d17c5d39c456f8bbfdc5c850ab1''"

definition param_q :: bytes where
  "param_q = to_bytes ''7f8aa3bb053c64d205d728c59e318deb8cc01e8be2e9ce22b7c5dfee2e428558''"

definition param_g :: bytes where
  "param_g = to_bytes ''56235346c5828425726d2025cf8fb9a884c20510f356d918ee3b35c6de2d128d''"

definition param_hk :: bytes where
  "param_hk = to_bytes ''1b16b424f548fb2b746c2c6c3d7560a9244f0e139e9353f5c0de5dac942aff6a''"

definition param_tk :: bytes where
  "param_tk = to_bytes ''465023c585b2d34fb7fa2358839ba9813de8f07c219e2ec8b701712d4553dab''"

text \<open>
  \<open>GetCollision\<close> declares \<open>r1\<close> and \<open>s1\<close> and never sets them: it hands two nil slices to
  \<open>generateCollision\<close>.
\<close>

definition GetCollision :: "bytes list \<Rightarrow> bytes list \<Rightarrow> int option \<Rightarrow> (bytes \<times> bytes) result" where
  "GetCollision msg1 msg2 k =
     generateCollision param_hk param_tk param_p param_q param_g (concat msg1) (concat msg2) [] [] k"

definition etcdraft_GetCollision :: "bytes list \<Rightarrow> bytes list \<Rightarrow> int option \<Rightarrow> (bytes \<times> bytes) result" where
  "etcdraft_GetCollision msg1 msg2 k =
     etcdraft_generateCollision param_hk param_tk param_p param_q param_g (concat msg1) (concat msg2) [] [] k"

section \<open>The group behind the hash\<close>

text \<open>
  What the collision needs of the parameters: the order of \<open>g\<close> modulo \<open>p\<close> divides \<open>q\<close>, and the
  public key is \<open>g\<close> to the power of the trapdoor.
\<close>

locale trapdoor_group =
  fixes p q g hk tk :: int
  assumes p_pos: "0 < p" and q_pos: "0 < q" and tk_nonneg: "0 \<le> tk"
    and g_order: "g ^ nat q mod p = 1 mod p"
    and hk_tk: "hk mod p = g ^ nat tk mod p"
begin

lemma exp_mod_order: "g ^ (m + nat q * n) mod p = g ^ m mod p"
proof -
  have "g ^ (m + nat q * n) mod p = g ^ m * ((g ^ nat q) ^ n) mod p"
    by (simp add: power_add power_mult)
  also have "\<dots> = g ^ m * ((g ^ nat q mod p) ^ n mod p) mod p"
    by (metis mod_mult_right_eq power_mod)
  also have "\<dots> = g ^ m mod p"
    by (metis g_order mod_mult_right_eq mult.right_neutral power_mod power_one)
  finally show ?thesis .
qed

lemma exp_cong: "a mod nat q = b mod nat q \<Longrightarrow> g ^ a mod p = g ^ b mod p"
  by (metis exp_mod_order mod_mult_div_eq)

lemma hk_exp: "hk ^ e mod p = g ^ (nat tk * e) mod p"
  by (metis hk_tk power_mod power_mult)

text \<open>The response \<open>k - e tk\<close> opens the commitment \<open>g ^ k\<close>.\<close>

lemma response:
  assumes "0 \<le> k" "0 \<le> e"
  shows "hk ^ nat e * g ^ nat ((k - e * tk mod q) mod q) mod p = g ^ nat k mod p"
proof -
  let ?s = "(k - e * tk mod q) mod q"
  have s: "0 \<le> ?s" using q_pos by simp
  have "int ((nat tk * nat e + nat ?s) mod nat q) = (tk * e + ?s) mod q"
    using assms tk_nonneg s q_pos by (simp add: of_nat_mod)
  also have "\<dots> = k mod q"
    by (simp add: mod_simps algebra_simps)
  also have "\<dots> = int (nat k mod nat q)" using assms(1) q_pos by (simp add: of_nat_mod)
  finally have "(nat tk * nat e + nat ?s) mod nat q = nat k mod nat q" by (simp only: of_nat_eq_iff)
  then have "g ^ (nat tk * nat e + nat ?s) mod p = g ^ nat k mod p" by (rule exp_cong)
  moreover have "hk ^ nat e * g ^ nat ?s mod p = g ^ (nat tk * nat e) * g ^ nat ?s mod p"
    by (metis hk_exp mod_mult_left_eq)
  ultimately show ?thesis by (simp add: power_add)
qed

end

lemma big_Exp_nonneg: "0 < m \<Longrightarrow> 0 \<le> y \<Longrightarrow> big_Exp x y m = x ^ nat y mod m"
  by (simp add: big_Exp_def powmod_eq)

lemma SetBytes_nonneg [simp]: "0 \<le> SetBytes b"
  by (simp add: SetBytes_def)

text \<open>The four copies of the hash and the copies of the collision compute the same function.\<close>

lemma chameleonHash_copies:
  "blkstorage_chameleonHash = chameleonHash" "etcdraft_chameleonHash = chameleonHash"
  by (intro ext, simp add: blkstorage_chameleonHash_def etcdraft_chameleonHash_def chameleonHash_def)+

lemma generateCollision_copies: "etcdraft_generateCollision = generateCollision"
  by (intro ext) (simp add: etcdraft_generateCollision_def generateCollision_def chameleonHash_copies Let_def)

text \<open>The hash as a number: what is written into the header is its big-endian text.\<close>

definition chash_num :: "int \<Rightarrow> int \<Rightarrow> int \<Rightarrow> int \<Rightarrow> bytes \<Rightarrow> int \<Rightarrow> int \<Rightarrow> int" where
  "chash_num hk p q g msg r s =
     (r - big_Exp hk (SetBytes (sha256 (msg @ to_bytes (Sprintf_x r)))) p * big_Exp g s p mod p) mod q"

lemma chameleonHash_num:
  assumes "0 < SetString16 (to_string p)" "0 < SetString16 (to_string q)"
  shows "chameleonHash hk p q g msg r s =
    Ok (big_Bytes (chash_num (SetString16 (to_string hk)) (SetString16 (to_string p))
      (SetString16 (to_string q)) (SetString16 (to_string g)) msg
      (SetString16 (to_string r)) (SetString16 (to_string s))))"
  using assms by (simp add: chameleonHash_def chash_num_def big_Mod_def Let_def)



context trapdoor_group
begin

lemma chash_num_collision:
  assumes k: "0 \<le> k"
    and r2: "r2 = (h + g ^ nat k mod p) mod q"
    and e: "e = SetBytes (sha256 (msg @ to_bytes (Sprintf_x r2)))"
    and s2: "s2 = (k - e * tk mod q) mod q"
    and h: "0 \<le> h" "h < q"
  shows "chash_num hk p q g msg r2 s2 = h"
proof -
  have e0: "0 \<le> e" by (simp add: e)
  have s0: "0 \<le> s2" using q_pos by (simp add: s2)
  have "hk ^ nat e mod p * (g ^ nat s2 mod p) mod p = hk ^ nat e * g ^ nat s2 mod p"
    by (simp add: mod_simps)
  also have "\<dots> = g ^ nat k mod p"
    unfolding s2 using k e0 by (rule response)
  finally have "chash_num hk p q g msg r2 s2 = (r2 - g ^ nat k mod p) mod q"
    using p_pos e0 s0 by (simp add: chash_num_def e [symmetric] big_Exp_nonneg)
  also have "\<dots> = h mod q" by (simp add: r2 mod_simps)
  finally show ?thesis using h by simp
qed

end

text \<open>
  The parameters, as the hexadecimal texts the code passes around, denote a trapdoor group.
\<close>

abbreviation good_params :: "bytes \<Rightarrow> bytes \<Rightarrow> bytes \<Rightarrow> bytes \<Rightarrow> bytes \<Rightarrow> bool" where
  "good_params hk tk p q g \<equiv> trapdoor_group (SetString16 (to_string p)) (SetString16 (to_string q))
     (SetString16 (to_string g)) (SetString16 (to_string hk)) (SetString16 (to_string tk))"

lemma generateCollision_collides:
  assumes G: "good_params hk tk p q g" and k: "0 \<le> k"
  shows "\<exists>r2 s2. generateCollision hk tk p q g msg1 msg2 r1 s1 (Some k) = Ok (r2, s2) \<and>
     chameleonHash hk p q g msg2 r2 s2 = chameleonHash hk p q g msg1 r1 s1"
proof -
  let ?P = "SetString16 (to_string p)" and ?Q = "SetString16 (to_string q)"
  let ?G = "SetString16 (to_string g)" and ?HK = "SetString16 (to_string hk)"
  let ?TK = "SetString16 (to_string tk)"
  have pos: "0 < ?P" "0 < ?Q"
    using trapdoor_group.p_pos [OF G] trapdoor_group.q_pos [OF G] by simp_all
  define h where "h = chash_num ?HK ?P ?Q ?G msg1 (SetString16 (to_string r1)) (SetString16 (to_string s1))"
  define r2 where "r2 = (h + ?G ^ nat k mod ?P) mod ?Q"
  define e where "e = SetBytes (sha256 (msg2 @ to_bytes (Sprintf_x r2)))"
  define s2 where "s2 = (k - e * ?TK mod ?Q) mod ?Q"
  have h: "0 \<le> h" "h < ?Q" using pos by (simp_all add: h_def chash_num_def)
  have "chash_num ?HK ?P ?Q ?G msg2 r2 s2 = h"
    using G k r2_def e_def s2_def h by (rule trapdoor_group.chash_num_collision)
  then have "chameleonHash hk p q g msg2 (to_bytes (Sprintf_x r2)) (to_bytes (Sprintf_x s2)) =
      chameleonHash hk p q g msg1 r1 s1"
    by (simp add: chameleonHash_num [OF pos] h_def)
  moreover have "generateCollision hk tk p q g msg1 msg2 r1 s1 (Some k) =
      Ok (to_bytes (Sprintf_x r2), to_bytes (Sprintf_x s2))"
    using pos k h
    by (simp add: generateCollision_def chameleonHash_copies chameleonHash_num [OF pos] h_def [symmetric]
        big_Mod_def big_Exp_nonneg Let_def r2_def [symmetric] e_def [symmetric] s2_def [symmetric])
  ultimately show ?thesis by blast
qed

end
