(* ===== verification/DeployedParams.thy ===== *)
theory DeployedParams
  imports Chameleon
begin

text \<open>
  The parameters compiled into the program form a trapdoor group.  The two modular powers that
  this needs are certified: the repeated squares of \<open>g\<close> are listed with the quotients of their
  reductions, and so are the partial products that make up \<open>g ^ q\<close> and \<open>g ^ tk\<close>, so that each step
  is one identity \<open>x * y = t * p + z\<close> on numerals.
\<close>

section \<open>Certificates for modular powers\<close>

fun sq_chain :: "int \<Rightarrow> int list \<Rightarrow> int list \<Rightarrow> bool" where
  "sq_chain p (x # y # xs) (t # ts) = (x\<^sup>2 = t * p + y \<and> sq_chain p (y # xs) ts)"
| "sq_chain p (x # y # xs) [] = False"
| "sq_chain p [x] ts = True"
| "sq_chain p [] ts = True"

fun mul_chain :: "int \<Rightarrow> int \<Rightarrow> bool list \<Rightarrow> int list \<Rightarrow> (int \<times> int) list \<Rightarrow> int option" where
  "mul_chain p a (True # bs) (x # xs) ((t, y) # cs) =
     (if a * x = t * p + y then mul_chain p y bs xs cs else None)"
| "mul_chain p a (False # bs) (x # xs) cs = mul_chain p a bs xs cs"
| "mul_chain p a [] xs [] = Some a"
| "mul_chain p a bs xs cs = None"

lemma numeral_power2: "(numeral m :: int)\<^sup>2 = numeral (Num.sqr m)"
  by (simp add: power2_eq_square numeral_sqr)

lemmas cert_simps =
  numeral_power2 Num.sqr.simps numeral_times_numeral mult_num_simps add_num_simps numeral_plus_numeral numeral_plus_one
  mult_1 mult_zero_left add_0 refl append.simps simp_thms if_True list.inject

text \<open>\<open>is_power p g n x\<close>: \<open>x\<close> is congruent to the \<open>n\<close>-th power of \<open>g\<close>.\<close>

definition is_power :: "int \<Rightarrow> int \<Rightarrow> nat \<Rightarrow> int \<Rightarrow> bool" where
  "is_power p g n x = (x mod p = g ^ n mod p)"

lemma is_power_mult:
  "is_power p g m x \<Longrightarrow> is_power p g n y \<Longrightarrow> x * y = t * p + z \<Longrightarrow> is_power p g (m + n) z"
  unfolding is_power_def by (metis mod_mult_cong mod_mult_self3 power_add)

lemma sq_chain_power:
  "sq_chain p xs ts \<Longrightarrow> i < length xs \<Longrightarrow> is_power p g n (hd xs) \<Longrightarrow> is_power p g (n * 2 ^ i) (xs ! i)"
proof (induction p xs ts arbitrary: n i rule: sq_chain.induct)
  case (1 p x y xs t ts)
  have "is_power p g (n + n) y"
    using 1 by (intro is_power_mult [of p g n x n x t y]) (simp_all add: power2_eq_square)
  then have y: "is_power p g (n * 2) y" by (simp add: mult_2_right)
  show ?case
  proof (cases i)
    case (Suc j)
    then show ?thesis
      using 1 "1.IH" [of j "n * 2"] y by (simp add: mult.assoc)
  qed (use 1 in simp)
qed simp_all

fun bits_val :: "bool list \<Rightarrow> nat" where
  "bits_val [] = 0"
| "bits_val (b # bs) = (if b then 1 else 0) + 2 * bits_val bs"

lemma mul_chain_power:
  assumes "mul_chain p a bs xs cs = Some y" "is_power p g m a"
    and "\<forall>i < length xs. is_power p g (n * 2 ^ i) (xs ! i)"
  shows "is_power p g (m + n * bits_val bs) y"
  using assms
proof (induction p a bs xs cs arbitrary: m n rule: mul_chain.induct)
  case (1 p a bs x xs t z cs)
  have "is_power p g n x" using "1.prems"(3) by fastforce
  moreover have ax: "a * x = t * p + z" using "1.prems"(1) by (simp split: if_splits)
  ultimately have z: "is_power p g (m + n) z" using "1.prems"(2) by (blast intro: is_power_mult)
  have "\<forall>i < length xs. is_power p g ((n * 2) * 2 ^ i) (xs ! i)"
    using "1.prems"(3) by (fastforce simp: mult.assoc)
  then show ?case using "1.IH" [OF ax _ z, of "n * 2"] "1.prems"(1) ax by (simp add: algebra_simps)
next
  case (2 p a bs x xs cs)
  have "\<forall>i < length xs. is_power p g ((n * 2) * 2 ^ i) (xs ! i)"
    using "2.prems"(3) by (fastforce simp: mult.assoc)
  then show ?case using "2.IH" [of m "n * 2"] "2.prems" by (simp add: algebra_simps)
qed simp_all

text \<open>A block of the certificate: the squares lead to the next block, the products to the next factor.\<close>

lemma block_next:
  assumes "sq_chain p (xs @ [y]) ts" "is_power p g n (hd xs)" "xs \<noteq> []"
  shows "is_power p g (n * 2 ^ length xs) y"
  using sq_chain_power [OF assms(1), of "length xs" g n] assms by simp

lemma block_product:
  assumes "sq_chain p (xs @ ys) ts" "is_power p g n (hd xs)" "xs \<noteq> []"
    and "mul_chain p a bs xs cs = Some y" "is_power p g m a"
  shows "is_power p g (m + n * bits_val bs) y"
proof (rule mul_chain_power [OF assms(4,5)], intro allI impI)
  fix i assume "i < length xs"
  then show "is_power p g (n * 2 ^ i) (xs ! i)"
    using sq_chain_power [OF assms(1), of i g n] assms by (simp add: nth_append)
qed

lemma is_power_1: "is_power p g 0 1"
  by (simp add: is_power_def)

section \<open>The compiled-in parameters\<close>

abbreviation deployed_p :: int where
  "deployed_p \<equiv> 115377373383460416037606518056482924403192064390169691812030803748172660542129"

abbreviation deployed_q :: int where
  "deployed_q \<equiv> 57688686691730208018803259028241462201596032195084845906015401874086330271064"

abbreviation deployed_g :: int where
  "deployed_g \<equiv> 38961319378371415876679471292486639040769165054575615254290059514751887413901"

abbreviation deployed_hk :: int where
  "deployed_hk \<equiv> 12252560857905353415282804501449710333724241022894051760707582868446711054186"

abbreviation deployed_tk :: int where
  "deployed_tk \<equiv> 1987718378270165521247270964520257154022939703199947399530053305447400947115"

subsection \<open>The repeated squares of the generator\<close>

definition squares0 :: "int list" where
  "squares0 =
  [38961319378371415876679471292486639040769165054575615254290059514751887413901,
   60512767116513135155727529190772394634906616409170619083739807711846677508749,
   83549624941298547232354355539756344342251127988755470403526848247215358859182,
   46488601552438514226720703565572605881774168644706838700971982774022067910934,
   60578180778831984848338891964673413102189464573205450709214364601978059652543,
   61763091051902686998791389379157945127923534074710321197033491466414188724617,
   12849468024198350378584010888264642310784704210822447955814391420564257842491,
   48797249317425285993676181144921825178649245603867440011503937003389986067093,
   55239593522409830405808909374609194493585906512942735060625095963021008657468,
   33781166446420151806972833903388861850250423720328653689641557007704438104868,
   42642368491903763032085794819631482712122077005775015766118702953772382087763,
   26013555288509745009907712746940100502968066789768890140066731333419138119504,
   88779579485687674139661784101731781584192512973924532236576503208438334846039,
   17463787084773348867913694978214083530059140847377877414491477298298627490758,
   27554177855620482376787278184498054225599238725922312501410913911265933165122,
   99600082355246357273635058387472015692424819883687662822261789478952255612158,
   20036967065375890423171339010738279345669971272599231411521230116405921310577,
   54420585481907404084111453423879742569478666895157993920900500587936848065305,
   104091516810827469419922007382561148433518227738550702125554496317877113002251,
   83232394979890573937222426184384415736381812393420350894877146355827761920717,
   83213524993078989911249423826695374479522187533292056366458422094977451832149,
   80896993972866901453657764259086970895001938663842900361987177514028193946321,
   52216535798132963020851442716628376807901757420779549466519672574338731107456,
   51060115067115319514756466493832956017476668378078045818246848370208861806666,
   79781581843328808434380040841278372417750330342387325288568859691032963039077,
   30427273062017562722826630927708509683143303010036075256521585895713682850059,
   47635880110201851791271677123784982922372321660999151893589780437335327310934,
   17096540229740951656562172494522112640065871875537560767555192394733092362099,
   1584824723224070288963535957354904948725149278294112207019838789297593928964,
   68216636849210000447822712576941641355188409224001721400358654938461927277378,
   68310443001676794065960998160582279408444287603945774178112739998445663692398,
   91397448077927613455284664451624640684865252096186857703955027114906398335547]"

definition squares1 :: "int list" where
  "squares1 =
  [17928443897876434998388971566808459545369845762207205561946376276613670131755,
   8548908005376465448653331065767045354876735262480150771339625070698486054451,
   31948702041169064752410714383029678811281891464521338263458778544264551294040,
   35081829527938654446173949831606032780760511769981644062865451989920081557242,
   54138143691741069781895649610537278037537262325522824467569315303164506894358,
   113276259937835806496776615054250317284670982415945429375860570328520634119639,
   5603754906769936513315670850524555349077402226318733570257155409609906343701,
   27547347751259567361482680707329207180942742884354013135096759303242778828080,
   105805478506411467246674735596645300300509447421895289044501931452935845583841,
   85440792992296165207302934255097875720791751093489149217571203608109102832511,
   49684039173375367630922778309022889049843132839530884910524304922649932570403,
   8107558360916158540086520017134215526913514418521516389518054167358466283907,
   103572243611658151472918417402798504033548884052650230631042566918620256160675,
   52096600780536178894391517030193493783476724019539445875862115741002436687741,
   12770598009866013662625727199222975126470016999969251594744803937959606246875,
   62241032683457975662576578776002702737680112410420964290448023649351407077863,
   55644316811459530998887598005625397429859482812841973081992403525110534717311,
   72029247676102957276462833719834068309943166087561815622850525715340463606425,
   29541013561051339445109497579749899292603712328216990101022760046288900458987,
   41611395050545319524782318498823417374270080271803121899856205606935701616939,
   37812325286568693810160450719948254677820081178326360895311462773506062346161,
   6086270689298569259746018575839525560940983517167436695176628008305214507668,
   104769735428088085272414841509686516737589476078302704725095872685322540051934,
   7573654935014034372460801607088436184126194679177081269451157395193221673251,
   52942851981292503118824681861956963585923454625267042710194338025815035408448,
   64096854595457285483669799958425790652872844939890034768547270105700607559566,
   102826621824186075026853367679895683867290378542061723226253746327179511243066,
   86396997006524283256433097946829619616631037299987925554324042261453349598899,
   90078938686852505165830435710087609000295804670509132341118555599197395305935,
   50193066148341038175161471310353017084221111998184427850541984560457564755300,
   101506430706778956064997142270482968564180801878461556801001552826793596311317,
   2892323871034054536586988083828734182618969634340035211850490256784714924711]"

definition squares2 :: "int list" where
  "squares2 =
  [28781478803598712111798125138289027356130176704514973192475797473380754020016,
   62161268536671755747007541020417995682313708854442023904735386494703097810368,
   27707872138218395902929447721533106007435769820955624245449972973902632988614,
   84078197062957068165629749580646855642244054854586188311472003324265248018153,
   90206938238428797768299275809731980123988084146376186893990249887279636603523,
   52482224906408550478826511806258907448569665933172174856595318074457012079613,
   32655668021276402039080261132195891713070423148813972065492503709606172578627,
   46979721489303308516972173651114047316774783328281742207758792423953549852990,
   17083584554490615229489580148989777518949633332925645418003858773707924184616,
   47041155193646445344211819989036966672764662445921982299902399266780863523794,
   8308397626838912514057528260079462888567031724446976757411051267680167924047,
   56706260915018042736508216377498030841691386047026487267472257929250933049344,
   95000052257140656228957449524785831155737733058133397473919122974367260598103,
   96651887326177828627833320883229966262259348005349014355632150203039636119819,
   94565360338961095792876321564329589058636770094572947521333107251709324326409,
   55552537297468607556301744419885695399347074431746855954692558209917231582878,
   103559391763864356584843164449268313315566968585617270668125623525492812872509,
   14247364149529581887062247028564928543209212964910155762665777266517600877379,
   7054654250769077314037346085535050902971008651875531138810894527282386694752,
   63029328075839320105770821376787860150007124932750574287189653427386239435990,
   31462430459493285579730034915519196829629513056290187923104530727583647135090,
   105884949811065937788747682064431343632250103511476907405627330912753983018251,
   27748080179270788946153609781816278836154419077562939777263252828136643806272,
   34899743153341394600966797607984076197621887666510441359586839229967248512633,
   79455885288267048467560685148313327103322573464841478789345855650699872509832,
   104051379224072035180999540771562622440355891741738533006801743411421233589627,
   106302789678534086960313738309649078788327279766311504260633684123532678599276,
   50381569101111457086165940356154039620972105540387682437533050490111568229837,
   16662300604109989147220838752015546602725521176239272780470110568931148412184,
   62543214025311341907508373009394411904854652174811736527422406663958805291174,
   39842823870527668700779222792697974398528129644182350772119343513221673813929,
   35058549120733841414274321514940854530786190068962932223915769917739861572194]"

definition squares3 :: "int list" where
  "squares3 =
  [28204474537418068054517410136825849781773029634918801959960387125237873752126,
   28611526447973979110109790110932963846044897022021414389775641476384499044342,
   81808800822617745223749036076964442859477851395872762914428148107597750783637,
   106200345183453603430980423041223341791629827126368147823267222380588605543928,
   24321617079636727153021413079115881699353791372513872387025958403575055216133,
   112574168337261529861431448243362618995971955338664114473978853304014167825370,
   31121170791093315172109106645935322831916452636024126139585640894325610511537,
   18525370520367878880291112086017026820197419055388316675058580632492676615360,
   43161280720639722228451048663541229375926445907552590301375826516035935883559,
   11100728190315436852472646921095337667246435764039768959263555149638068573648,
   51383572946905521308745794453017797417491275354822733970594939436345235851859,
   37197888702097335354776547548446326625122851333622436702996434182481026188895,
   27393415201247111549962653414456066620026947532733376793079993731565436560974,
   62209943121943452556150915554680550993858957852889457191264189492586077229821,
   75939713130538259680745341686982941689686516822733867341384819712442435519400,
   88901086963239819975316865144935162288358113699156295462685599172301248177602,
   74782123529881563830404631762167375311482983915047610066511761036056593485873,
   30382786059289379178901218315025497944019999212508860741095599983609361598543,
   71856008765361259027495491406964041481893338587304604395828960907699574174334,
   100353488514000398159735861078071278020287263044000844710134011609992118929441,
   21726651334655005420081475497081072318473950505382348401510950601734286587236,
   84696365253812340849871619014523093646892880481185445607689015278218677917536,
   74068182440530637016311512317453263241352821731218558210018807526048700419174,
   45604490227816745745733522039386275561373538991543873404925449554954439401496,
   59257517686332254883978399442983310058442655459608466920980484487039171612165,
   71303508953179984392127543479796658949929906669164806315886623523928986036234,
   102271363704707112598767477456892919750366304810062585265509004312484156252606,
   72442931705110230537510283262668004611870913039359066665856290204358044319099,
   65443280542674458636733999358183859630060724686072781644477447654215056336700,
   17106518281966475415640182832306518466847767467619359630278998005863937921604,
   98291736705811359238996626676652158424201875204026231178142450894740030391811,
   88752202056253520308590267381039623647533324219403169558921631709434342164251]"

definition squares4 :: "int list" where
  "squares4 =
  [91224312566561809844889495768599917165352796925260135425004871101468669834702,
   56807395855291878727998875160173115315207081557597900087545248114674800538714,
   31480346803039877980099955854183674334483317250323879115796806032961294009542,
   59718224808756518166556437115537210503255247968966796671862693669577343536092,
   68783049047054694396716502548271657742107647253762535003985597484269694876386,
   7003284559461313125738508225395578135009673352215850856226695436247089579528,
   5634041138735592754386600543766817368204161058251129204384803022709142480862,
   80814310722378001878319066745684485611386972321522769016115013553479519599577,
   52649980494038003429382148271191654616118873709523877224551091408071212382169,
   36824928855707907159560687089035931662604617029041599875237825537961269563506,
   51472131895206337109731308337038052431293812227079993527243201426298752691968,
   30399808176609725351103204161474418621624292619122805540341356999237127938119,
   8225987295772013666933635636931391889833711100083578093427876622516461640180,
   97214658347483527784252502150023198066015028395429483515739656408209946227169,
   40767388051347716745432419699765765294461799677075448121936635461796186730224,
   108495407109085960277924879637145746549256468002252673908843810835221641802866,
   76505713196272569438980745941968838778315535959015781551807589739660428506201,
   88227240421380862207269563196960370061348319114126207331603317024895227668148,
   91482718857706673218526279961376029168408875146120247811655614088508860466066,
   55245087918487525795749902739213449427235153112965865010628806162858501736541,
   26716403211109992596595255515377683644194871536636538256223771134521028935978,
   48758716845752042395970041914376982596273192900023937238621933324066135254212,
   57031909447754521215982468635852501161861038527244730610251718897249689092787,
   29048907641025301938590216665906174213804824015266045855430753923081814243218,
   80001359639149293405133611712203294217555355127210234389688895410793621365138,
   100514855207383658858864158170316562901015427764118791326299161037903735578799,
   34286851230900336054577962374434645107348671189399622065683211623875640932917,
   100242515334241337100439983307710706768664717893362517499123851515543056803019,
   60627138184780801670726876500429815173807603792003819369919924379138332861920,
   18009403690211088110136079546085386402036181423198999922912993709788562390444,
   36451546367352908928959627952698732491129779943676545791205940072744771446901,
   48059895672672562088086349637072890656593970876186936764072713080557072226056]"

definition squares5 :: "int list" where
  "squares5 =
  [112866090070144403861743062902658357957654856718375541553430624905755220136603,
   65597252406855243370804686731318159996698690253142632053403642401309067880101,
   93067388958109831733788930900651345344548347535360146005726993406802101516899,
   12432655655181006993004458030130261834722414705182990583152234123414889186806,
   73482512771865902878241545501152689548496451640601142688328269862457277460715,
   44553638587811040033663707292760373207992353916013796123230552805166289895194,
   45560381316829972096391641451189177213167783372805869068703678125261426667978,
   33819814872967548704054486989902317637525726423876349370137998217316332158932,
   114196259021462193114146717743236539115542466477331127912250885920946742455572,
   110073410359180027223749472786125402807270395542720068091208408418104385999147,
   80074237814718166036912970052786467038415879912949401717245904100734644303954,
   54445840000071206126315239897354130068401523009537082076585673508421349057785,
   62845290978464178945243622072564327248886366971546175860611604340505188392791,
   82623870106916435043052797269396279977233696164998469455328094326194933277646,
   10110268613508928076750975645115198804544025928169073940384854418044647127243,
   95871499153371721340675883901518703445402014784814005931724378805663100849773,
   35791425004610270184698452538369459240335549734151043260222822353033567717109,
   876099031684891967019259184576602760128256557698042699533299621729686687723,
   26875347785561798368612365157275598444068406756689989810988113104356134242073,
   14821204885938343664787967870894431861227926416572724138159896179148772415241,
   18016916881622172449756038650735034865228459545614237498688434619320711780402,
   6855053574250493638096033985583763308088820935253858147177881279381840650124,
   55695974312863836209246586026020542783205194747310087950507604235339762588113,
   74538319137893288725164288057300261048492599730634246673761073789338873685866,
   68633116381066855445011269019780922946748388479863716401545592427412194572215,
   43063009554175620249363295379342575646878468293322920484567309969561434228554,
   68735911240794430456202194565505671460516203489273093502710706291917827968785,
   95911323900762505930355924662641607996835638107318212179556590811195901081046,
   41984299610777196420899330157442213098439708181849700320191736758247621054047,
   94428855687610485490386562139908773750005597841820670641055420319591155194634,
   19450626275332160284885825577963700573583719762934897694116928521589907686433,
   114753309007776967502552772310214940766536724776019154165792371977391195980711]"

definition squares6 :: "int list" where
  "squares6 =
  [61274585165387464933045695893355021841992476677575397430097238612128554221830,
   14230519980865172191325033852990733024992347550544600048606816104641335497898,
   63018705612061791805631422332779318303764781705389477755850445277393569852906,
   93253338095446059948223649627212147777528437735798108495255761809793635153676,
   71076842352669332518992457327575667895925926803859649386196539515001969482842,
   52399483420553076558209453684876267786884607185398220501638878335077237150213,
   10210016516587275386799300966752404374223710244154376991306176892815929684404,
   36554233724555125240941157683399247187581047230940997297373053378609378094611,
   48621887205523996001124880025358645439599739283142438238682262956697668703657,
   8935390889641605979795977336109819364529265454035894735637737753817112676596,
   69115310622541540421866484438451143500693463784002833126280117663473734650454,
   29258293825814736847249008809942123708410427416398059594015362166474860631649,
   30161873729627447849758097728070497701482837662034295900767988735205426314228,
   95795198823398183394767327010604692848429810329757367618752120697370167215759,
   45663065361027923526286270515071918310158537549504163889836422536759852849995,
   14342149249061102763854092530454904619468816073302245124458521867493205761907,
   100394169789171958090504400880419833066387088158235469509936757793761129592682,
   112505625791596289073843690258318804199819509652058612685290013246807430632128,
   80178669497779804838907030698884162232464494788705449938036452662206442667551,
   51989611962849578070074188134119969325535449240739093206966886831924646558308,
   56790027752684720110469721713675697631437110145524577158400373884027753298613,
   13803655484389807510816478361879656246044440009928310525851367183299147436232,
   73974847809295057944197760148338796937635290087948060450859003408726453143375,
   75309672009963931829995299129361720191202944642671610631606230935076956843434,
   7146913177573247174791502307839391103004179317789079159684035104005469096620,
   3085632677719947376517131110732468841766699463283885629743838056524549658348,
   33171543639418921089375500773037473993289060730122008005336844458027141780461,
   68007195359166259486592433821146313871328160628139753186921500503315476574269,
   99918904366049953798636907288408702983960980325825954921578649227149840880269,
   113354125335243281707211715451519340606176103826170311257416260714659201909955,
   54091591609884129988847819383628522262319660512657880723863481750616609578527,
   30069651038998886102464295344659999930012918741430401794023946449289977566405]"

definition squares7 :: "int list" where
  "squares7 =
  [17584496642414625640282719098403962722621371510627034665291928527812842367086,
   47883624204044717690727757574536507437607589378994292931900051809587210318646,
   108968483548057974113163647447489980238758147197894177460998989506441755131319,
   38088523964274840733599896382415428033100782120630137537382203126707113101339,
   9714557130723619093340598685220824986984818565573290316572866618140071302579,
   109308297668145693849387440617366101553420807322428314118291410577229118254635,
   18179728419780319922141495845729281106317895889298333829737619622534721135881,
   108381766387010895534020131768059877758152841490675905840529766991398593578033,
   33809814228124785627268971520829836400177743393024591231266239343222566151356,
   1789828156023458099416584390027792375172500209839421621346028730601133705968,
   62259368300472695530782531803964529904596912446224606906533227184175046677806,
   61754460617643243200606748158587277485978732475438117040934635525712457121940,
   7137438097171503637104077992439668893374673640604442867531232069399568080002,
   25396547278906938152659856877198715179332757376933474231105380032862786293231,
   57804378579947734508923158020709356187456788812044520418902952009944397230440,
   74339143381219378479055364070132860819082857501058765949412544457193066984851,
   62303824811707461073440670668214181010062849434712754445823027790593723266524,
   72943536410878130074100260469874923943981101191076918870359208779357107873576,
   8681142638356947090435653299242297990731530237811051871157584914259813561312,
   7195621610598304926450139757872635324345560644965080349464409398518917378450,
   95308380226495139051887465624700972173735735814200868239312360970159193061081,
   77215908235844160608955599509098708444599857209802939974071542736931190645382,
   9014977226587960358993057404898100789181043443136867769155245126034173250329,
   76519832963601672030201276253763694839469575479855072778519194502237305324125,
   63894059384171476704266849095574406837519329729186253774525657675546375330437,
   66691409493904897705625599537374358486990709553629618916299293707287122121931,
   12088208834679591391837284418565545961816994583962703143244474346025622349160,
   15997679934676241056398408161761474438656715174498246437763377022543443340738,
   41395094018889740335508299744250370198453380442023592642631688460882108432085,
   64403287827944664681339028863461671377177372052718387702654086570533457984515,
   76785878347503488209310944056437955139502829941715077653116219068017357956162]"

lemma squares0_ok:
  "sq_chain deployed_p (squares0 @ [17928443897876434998388971566808459545369845762207205561946376276613670131755])
   [13156690633425931340101555054011210125638749711613720605850903511395236327388,
   31737548504655760018061718898728033117947976965747205822680620405372565205611,
   60501809177364502430487621147801016918413257860214109300611218891495172916110,
   18731489640682006379240042679164539199694164032367043654298403787323526287797,
   31806201500847394768541540447149425491312740230866938405207210724611060338808,
   33062630084387619708925646175697502562418930322994169893360913823008030191862,
   1431032997745158832758868510731448066408817382546439853293595381108666274372,
   20638115352418903146177573285650616817694136479286957278577553488527874325389,
   26447236603138760523341473436179784787267728502752830697166104007566658133164,
   9890736571788965470963563465239088718435831458286417429811773150293938754509,
   15760209625815369098516883757535744399596884350909139897085069213287257345385,
   5865145295857119815597731568146615998720232744244353660944743747712909518713,
   68313339977502122001146762149546353242796472720066544011979049356635370220347,
   2643359355466281458968499670084717106610735914093334375646490059276108455298,
   6580429897427390536820014187473796721939058745391361145972757963697944619494,
   85980258643970261004927027913417040541024702341338501023641236153256871120003,
   3479712160239826656711319914474243808583045202440356397909789500649214499656,
   25668812153927421598306241072880220936647164000531168895610743382960308872006,
   93909607700707143256990708751631905116078810039275262020997536359308856441196,
   60043242196754704935336524765084925706436377656205210863225399474777486339860,
   60016019941449123930803430230444104223423717812886186567672218575850849951720,
   56721031532723434693786671033159116429430010938647543808932183758468193034865,
   23631727181861466863493278915741636991708019453952400718728499688468537236630,
   22596591291796516914029893749362064347021704011929991740777705861798318815151,
   55167669489832772464744723413896330289402567023053235619403164616064345162030,
   8024267833811665528384942908566239929875936153863013168804893449484817889043,
   19667435714035899450241137294154684380222987420677156843860169696164403300033,
   2533353631267977947751226028872959299228896312834972473016472820553736256053,
   21769167815899542528596370113737704252465169565758339960704146947580938542,
   40332947497001052972081263888278041077983683045466005026645437392133840066934,
   40443949157836004124191194255766728534244176752892110727137750134064534697433,
   72401488005749353391268914733519309350761920708875713757751579589226222974926]"
  unfolding squares0_def append.simps
  by (simp only: sq_chain.simps cert_simps)

lemma squares1_ok:
  "sq_chain deployed_p (squares1 @ [28781478803598712111798125138289027356130176704514973192475797473380754020016])
   [2785893725722311348722603430934410471708730950513799052614559393556506943206,
   633432933522358502476333373939277991693077470780473904665620462372871915809,
   8846791465108206517004854187918814478253703117768320462597855000039378116902,
   10667037452282449305894605400964817786423143551098307481091967757900460565614,
   25403062285414788873393851738308864048891997869546739190436080474683968861725,
   111213409433912185376701727898571050818319973496380729691554111116231479134780,
   272168347521505382960408753399548867702249872804653944394441090617683465049,
   6577167999888002001553005058968381398307900325312318096762858311860934846671,
   97027683623585562486491369852477078305968612353847952874922985955067258876130,
   63271756784497002825569791229778418817997582249251940373004253392460114215742,
   21395041993002790766507707526243002232356263969665887802834748591618040774438,
   569717446740596339555547529627235250982988410046777356824924074453455892806,
   92974985754792978776437106433539210178475787118027088308976431374748029571596,
   23523293461243140860841379560140390885519785127462228017036267967262188361614,
   1413519555412004327725159932718516255530505852021027361403168724165668847378,
   33576307346052151412135225458902047262015582203082540785573760118522078598802,
   26836197623631613462625456666590917258034259529130826589401018198600584750824,
   44967330843476492379217153066552851165159984824133896622993971350322991461222,
   7563627569453044876255028137333578057377787683054392946518803190216388293870,
   15007346304355744495586648328013364044084580178983349231766824853958138949640,
   12392134624398053800431565617161049567414730511356305487717348126204397704157,
   321056805308804398364377848008311099953438597231522783749333084184504925010,
   95137349202691312607515832151725584790617103068717090202963665349900294989745,
   497153361985662493736774718960856073363340666559218201508172367868788224857,
   24293719762516759987014241766344167152959347333643435873453218527030293448722,
   35608426925934355715241373700352383818691239785224473725229825736308451236010,
   91641141115541172197462774664782196867826366463915513766168046784540923472833,
   64695883368197814745005204283505301216987787861389556534488068667131297829754,
   70327612399199602318842783224776752765671506118778841936235638259804714413325,
   21835684202990290932775984853297911344305970740146991739704822235386715422827,
   89303085801632173781335474977497392492537378959151299938913782038943143048882,
   72505874675706867332269931216763377498574747938411522949114659745827251345]"
  unfolding squares1_def append.simps
  by (simp only: sq_chain.simps cert_simps)

lemma squares2_ok:
  "sq_chain deployed_p (squares2 @ [28204474537418068054517410136825849781773029634918801959960387125237873752126])
   [7179687817722075151729711304276394133490864288091481544981780219988926705472,
   33490303971871608376603724195048837245041557102067569919385547692582610828890,
   6654044514224609575695487021274110289404635867049698408107853723844374493867,
   61269753453850239886923877026548692185372214579769589587377940544683639639534,
   70527621384716018572561147594166498780787070573257021871816469670487792934604,
   23872825757374162853843408899129078406687185392950275473367345064004334802598,
   9242649773033261171936351533107630831238819287295172242942131162521479029691,
   19129350638596688468723764449053932126062289400194578015842854819157708355996,
   2529515559870315503436718525410954087408397742303031429064913151704383414478,
   19179412887119420665950627260554509242854706361725034148622424333985169303941,
   598292967688220835596931625778008668726536145443527178235249068444957035185,
   27870282817714636864773305576554606238535067317989784960497819314543025062777,
   78221662221972625026405557189681588488872845670140853964021520784943289617510,
   80965505191950488157474979819724191655074009786967715349066188789109976671088,
   77507461938109065920438659939069391093691738736002078598750956112067601817507,
   26747743597264429446085523906201623016067222811268379522719852318041423648375,
   92951913429838252057080467460719554368916720154892552698581454882952294419238,
   1759334428030924871747932355394103763079329297290845763218235534489751784441,
   431351010500890617779816170087518944180757921058528408433445563823687125066,
   34432194815948903785728983657736690418068468999277341590557640844862595644690,
   8579537749819782794173744977891963018208685405932801881037431892563589900681,
   97173494834466059628284607144028677400070255814566801557035936742144971131401,
   6673370445661533751106887559710126628874122960785527553909627771158749128119,
   10556593866296155601274367118408088162757898030202484460446820586794700429433,
   54718161124712062546777455166801517307557709541092605615329183268706595921493,
   93837198758623133898724750475434147483449827131042614251700487672041591546557,
   97941934038330014997329068626557573727780428202074587203517078404975033421491,
   22000002519158922045771241327639381519928920990380557153258941427180768724065,
   2406297294522422066384017956205141261396694017612186775611809623797882428858,
   33903125941473763397652443564969362484418437942056870099119913285552618843243,
   13758768876649203665859330418745662249989737668540140279703626301539230667743,
   10652884793675688646111053521062046872946247869206336227973763252155024273190]"
  unfolding squares2_def append.simps
  by (simp only: sq_chain.simps cert_simps)

lemma squares3_ok:
  "sq_chain deployed_p (squares3 @ [91224312566561809844889495768599917165352796925260135425004871101468669834702])
   [6894700066433472948260147935122786009966562990372815884277122570871354734446,
   7095147182475773750761341324282725552373396551926810775944536490954017268863,
   58006866474515802299169316522262319152682914815779876583328759321649253254929,
   97753250800745781968006532678152885622682749455458713276630409578652839669419,
   5127010955627072616451917991038296307931553938554521982017665034045088368111,
   109839069872973801615215095819344939874839247273979162960453695764121985195747,
   8394429886954248331240931666627044289767875211427914844606494481610207028721,
   2974494416477261872516182340406045409572805959136348683260567841260254146729,
   16146113391353353324587151374866364081290427673741827584549954400257982744177,
   1068027142078522635283343552770787038274729966394991775783840035232210172605,
   22883789874596411321751158507220795146415316812035974741415977118836501227434,
   11992671381891368134106705388090778429141702783232652159424355941991966152419,
   6503867910859267302155570165420165518885649579326738274117922711294228405495,
   33542772813635771219901331411649665335830248621290377856162814118011538622129,
   49982417359963347518529056151319193083841416753375203981980598177366373917662,
   68500460978413105408294879054862076925148108881390768663847450416383105913539,
   48470214181874788818048493328567121927512875849819745614635284477144630022834,
   8000820799209485992880496282409221275778948360333137659628039399948232206035,
   44751287399543468583480372277261202456632541519851581090959514101988774772435,
   87285941442425686203535288764790885151882775793593015777782705612276878887405,
   4091334066418737624288328041986982633600249156416901399818190721821343973040,
   62174012779489420178777173220028398963615820841380765244501676643991463052218,
   47549146675496896829573536641765733824953507429222208772528332912501620255820,
   18025800622335646801703397497180438339823460951226547547766741590576036712619,
   30434506345326059112521343886321329866761574953188121629723017790551898393279,
   44065749114765749650783780797663657125188852507948727317618158360877807945350,
   90654099042957277287169419216624632724189671103373025509266220298019559281753,
   45485333910223800890339803104425577150564426860410572619911725992143619525869,
   37120128865762035742357331090271483384639282796737805656381953864690047523724,
   2536311576089344325124201965013262748680190850040706548114276423353283298845,
   83736223328078522290570674255232663212705029626887846461996404768770302020430,
   68271214180398641988793288672902446200651673374922848377516133521354415940731]"
  unfolding squares3_def append.simps
  by (simp only: sq_chain.simps cert_simps)

lemma squares4_ok:
  "sq_chain deployed_p (squares4 @ [112866090070144403861743062902658357957654856718375541553430624905755220136603])
   [72127445435802622266320705728565187976171955063095928202911343944814441667210,
   27969784102594603826248474960256155955889916467350274846402031351003579864126,
   8589311801595638593531800449485479403773554301320902984946239208657458484168,
   30909581919988604162106969619193901549138476522333357247474428862330654653582,
   41005508250612903531261427689412396869402017342990369771321015256183528466492,
   425091967189990502461791292503683394778141180772888332922035335342352028418,
   275118236982810321999942758875807440650372435338886225310204395871172970523,
   56605143851101793353953709565966819166604119441726504008631521287145642540440,
   24025685147205449213438121138372145323959613970885444920073214081659172757295,
   11753391028594390504293757951823137623012005828227865318036994170255241029892,
   22962737702757511735139438036487808114653889681768072278671603975323586647945,
   8009788315281114561801294282026556836190142608627140407271566326726314576589,
   586482990606048507278336679791362244852371262324749457183866290014895871839,
   81911119316334900933792303892372895300728538267444687297430697873785673963553,
   14404730145879857837795688600881559262938372232918142860150706253312640433390,
   102023932583767188859589017015666299169827557582139386312030932649471377029595,
   50730260015690148897330900182146722780906397149398872931944197802765137230157,
   67465966021791930565119342758378787008065304511572996220612052604325135933022,
   72536647387380428362325933910603911168358600255639554693422194552342553235735,
   26452498003901774534345653949287892912601855232478429643274167732677613872207,
   6186362018888949483364780379830438502052429289846472690174560335279373377568,
   20605534679168133753188342557082225744848843747452367226827420857008631105133,
   28191304758226918252926628481417849850816263814744837746715345697518814405319,
   7313730676917838682958846632660079868439964103967609480860308631533416862034,
   55472033696253219784223072497630427548464256366764387359029500911571186842405,
   87566875732062917074859544557283784671753548992979854549812997723772526941996,
   10189070290435428418141089583779062675168374161973339814810526271313015078030,
   87093002604062501882591308925135612120904909386385993795865062627831282948329,
   31857631844853718399594810899462706288824937181809386330850296164027676809364,
   2811111154342532181826505389647810732131057022383986939131476085240525112715,
   11516254821950671262409730379476111437156468272481550906171763937227924819905,
   20019120771553972540092592606399249242156254152713816331106485104322297927477]"
  unfolding squares4_def append.simps
  by (simp only: sq_chain.simps cert_simps)

lemma squares5_ok:
  "sq_chain deployed_p (squares5 @ [61274585165387464933045695893355021841992476677575397430097238612128554221830])
   [110409466901142645109708056901937108921447022240816834890273835754663229627252,
   37295003319476848639574152181959829203898070977860994473920806616642134375638,
   75071382139140925002234378117616065350318305444962513862513904266824441458755,
   1339698782417093356637978697695626625148926406852044537533711223340258245449,
   46800161287442609905406495582644164571650541971453901894854855346952986537039,
   17204644664738420805687419220446265446911875679501192399377444602560382692602,
   17990948180421243496918802561897564710231367764460474325316697133758277791888,
   9913381146582421786277006831751854644572143284977748909320745032407794051388,
   113027235688191778356994049636984951389405703643948443953032188779538240228853,
   105013273511020288005910509657267383026255376874245600956885921084926343036695,
   55573145527398506379593568493564797882671544490594610371148333170404641367739,
   25692641515258305891353000737177183353645672072001895012553248448166787959546,
   34231413684912369993652862770922222288415636673274356006219420797726701236915,
   59168480883646301907014492875568890677939651427823746133427780231138994625737,
   885940877658745838829366993325014552911360267654951612924774211619375994444,
   79663317688531751698179627491547203427373438882387168627856325600407802412980,
   11102923097435315752386728592070901879733365943637850360897524107917192677102,
   6652513320512418090678662183198821030867742024119299914421075247200021664,
   6260190342471797014389292671422754329534710003283992004257674685288054647272,
   1903909820696719959988687624957304598253419479872267099849001633004507967951,
   2813457131151985795097632653981744555595267641378595765050960534539531144120,
   407287478712709484728589896871458723950831820485917215197115557076293236847,
   26886047616541358307220640779396815868112461052874652486327232650945545980007,
   48154684553591054043548272199792856443818393853334116881874229219336229844029,
   40826936218434732296908165738201477463998757249093091619917063813067511286199,
   16072672981554077189167079692447283294957224829669285434234329294305653007939,
   40949324426028708067260930739016736577415166932383975204304821392761137355451,
   79729515264867956584361571554822520178951213330236607265109747702381286563861,
   15277531132115287483048383079806158561194713409330373026591257838406258659175,
   77283860127724228709397726894754503737310953962175680031305563363560018388787,
   3279038613968618575140817814993328107815293050414563014056894358126148125882,
   114132620132276755083358713599279301437115638998772770444423850613811959519579]"
  unfolding squares5_def append.simps
  by (simp only: sq_chain.simps cert_simps)

lemma squares6_ok:
  "sq_chain deployed_p (squares6 @ [17584496642414625640282719098403962722621371510627034665291928527812842367086])
   [32541690602644171541718710879150015218618155308567326151728955392227815446938,
   1755176885963264580475991499280157996331116130603592722833886049867641441562,
   34420589935088699211340864385700826751580849220686820799788635048032270014040,
   75371667866294028638461622519507806544351665879868897148744499161025852141846,
   43786033350195955758749861172048193510607655301504653963546248552296654864719,
   23797611110589031101587332873248575615811306800756304794538662327305564420085,
   903508497480916095360589881542584660096512256043348425496513453181138511245,
   11581230912134389123147879930770460084193938575850665086938699407357364628416,
   20490047971274018704301352830076921739598324817397588454927395720355670333357,
   692000589104549788783161010438347994379554431225125082690113724512144268378,
   41402625336027849753740255643868842938743374463716598770906132698643988529523,
   7419546246321680944621798043587902540400394758947733555859554686780590127837,
   7884896320688847262352974797779115293000434467832503777404910895259789523025,
   79536566386506857488391898542445081054608224135070520718451949184162245225334,
   18072135610468090377258823001916424602523330711296261353482228425627949770342,
   1782821354397647237473472255706188811505877047359609451962380646354453335023,
   87356723697975354934476983652945302100415818558776309495522238389705764993124,
   109705356115978083750484241200443121751457762219765233463641608856369053296177,
   55718195465141013810253162893922205365134172603490758154377204513397373943917,
   23426774876079308179717059065111248104730886130696387698749308368972986262219,
   27952683941174088858878647633734096527504706519253010721137578287877927604353,
   1651458159811421416181288533098110416033513653833952866760129293133199638081,
   47429387131401174402705662222171654612958286658517905349390613190254897711079,
   49156489976581255482611902616284746669231159715918234884893931428657314016184,
   442706975119025530610994108265888869297146557677732426800233565052161980388,
   82521630910849337068418014055612577632619368615950700444466401097836434067,
   9536976576549553394075015993328450197814860489966974954016178772772942782188,
   40085663982387078910360845362957701228399118152797882794960990893803341161148,
   86531588967018666770349344094800558129944107050379285681124320664671312009414,
   111366356796955788918281603268527629084279150347147089283817331415643948743562,
   25359394108983252634478752798651191470491426408009126389015904243050238912956,
   7836752450604699028881564199551601302314217328174509684761638392952304180891]"
  unfolding squares6_def append.simps
  by (simp only: sq_chain.simps cert_simps)

lemma squares7_ok:
  "sq_chain deployed_p (squares7 @ [])
   [2680027401381437417514590114602253140673905048510240795265946305519288304750,
   19872539993555275956573207869927230350008584344227260315692598341580374556093,
   102915589587044303486554466548146936408875697411881401917394722062745894976918,
   12573831551491228276713075149563780737092948713984924739859239633502909787398,
   817947379790339587593851331637298410831559633596887940308388736033702789214,
   103558467216941855733820008614921226516097575877148737398471764943934581548336,
   2864535009984431361664169168324236671909131370552887097785279630808903680032,
   101810319828727398653539065358465382594175473221913023754958441618526153332277,
   9907519166181464127910831036799679556856838473901469814169904197963587836192,
   27765277836993630275074273312857918863691336842509635421336045812806736242,
   33596092782344183072481644599789355162626585467426186141412220957202420341424,
   33053390750207003984737162554102718522095434653836439303880049218893464580462,
   441533908226913768023719024676949150277166520034925944949351643910726992037,
   5590217516446038947621082148428304311156855094504323118268453507295613037449,
   28960151241343038937251963608489963456678098104598858891900629573042005614781,
   47897677651983197155258579785502840904262161726860055156693426612721943482013,
   33644088718043164236847584558135658905901599030890039250932687605122799761000,
   46116143469841248276394642019255676413726591537550817683373502603761773035616,
   653180387952065722149914481062412023817915437782824016857387353451203246286,
   448761909242177973637776948547743521213396658572398956825555323825265282011,
   78730231717169034556866764352213208363159534504989090160774538565678447967451,
   51676479623699021952914669915216090076569811856588004011391890939403098386555,
   704382601307768623068264985804662258440311598977618970128802103725333816404,
   50748987128674470062858278026150428687834049669005728065662271729628274391172,
   35383461287681375434696212518148226742329485793513828790858063949256649371822,
   38549535059196464562114360012761359710445445213745764284706611447582104006369,
   1266494361465269885563630188690714944834739537761203237613035494809903757278,
   2218162502640490039688285135541925511970196701811586110204202947526792296671,
   14851731830795539843751826977680138696319243876829573823816709837364024595990,
   35949713201251283681853263506691487497467397353012621177032015836735019181047]"
  unfolding squares7_def append.simps
  by (simp only: sq_chain.simps cert_simps)

lemma squares0_head: "is_power deployed_p deployed_g 1 (hd squares0)"
  by (simp add: is_power_def squares0_def)

lemma squares1_head: "is_power deployed_p deployed_g (2 ^ 32) (hd squares1)"
  using block_next [OF squares0_ok squares0_head] by (simp add: squares0_def squares1_def)

lemma squares2_head: "is_power deployed_p deployed_g (2 ^ 64) (hd squares2)"
  using block_next [OF squares1_ok squares1_head] by (simp add: squares1_def squares2_def)

lemma squares3_head: "is_power deployed_p deployed_g (2 ^ 96) (hd squares3)"
  using block_next [OF squares2_ok squares2_head] by (simp add: squares2_def squares3_def)

lemma squares4_head: "is_power deployed_p deployed_g (2 ^ 128) (hd squares4)"
  using block_next [OF squares3_ok squares3_head] by (simp add: squares3_def squares4_def)

lemma squares5_head: "is_power deployed_p deployed_g (2 ^ 160) (hd squares5)"
  using block_next [OF squares4_ok squares4_head] by (simp add: squares4_def squares5_def)

lemma squares6_head: "is_power deployed_p deployed_g (2 ^ 192) (hd squares6)"
  using block_next [OF squares5_ok squares5_head] by (simp add: squares5_def squares6_def)

lemma squares7_head: "is_power deployed_p deployed_g (2 ^ 224) (hd squares7)"
  using block_next [OF squares6_ok squares6_head] by (simp add: squares6_def squares7_def)

subsection \<open>The order of the generator\<close>

lemma q_power0_ok:
  "mul_chain deployed_p
   1
   [False, False, False, True, True, False, True, False, True, False, True, False, False, False, False, True, 
    False, True, False, False, False, False, True, False, False, True, True, True, False, True, False, False]
   squares0
   [(0, 46488601552438514226720703565572605881774168644706838700971982774022067910934),
   (24408554523415913631890679854459300679460891247965228676209358058760177771254, 41446024468949476078034460607862430919815753864460605588558283343327318445396),
   (4615804212962367452496848733067307801129761968215124085990612056163104676591, 84239414352612186947588152720807767591870113873240365361800117363677876519197),
   (40331573435448143980962843641030947595048973463313904460008011420113696714379, 102032862208791194263104429033007970531799831913831287792031652177445689840305),
   (37710365394872384649610189031094698548911613962211579740802875515293716873538, 98657290602481050196427267859682496295673072196729034385522973589027950405313),
   (85166389048350460632579757285009953818578406662926490545760334423377371018359, 50154347475184462069691301264191412175567490698967378990344421284757278649143),
   (23656535714253242505751275381506844767922987456469041800376014024000188904236, 88060129931949707439852286493089112419782904665552278838096225975605221725171),
   (39853524067475890822041224636785992569142154070423262870892907084482475186766, 108968495778991725226341802885883886805034942583306030288163186862795614710162),
   (28737126517910395825231018429119779299977694885022897134214906709734162221869, 92186625061305244247165996088604968444512243964829920473740808033748669980457),
   (38061111034219305534343467394200248172139357545631212403443553457059003815543, 20246474019864710401368847677352470289450881685569587073931567958322245905791),
   (3000108664639115229971961046738022628031124646244962793404581444262868306574, 53480409975319307390552138804893191017115631604658259879348911799456998359263),
   (31620183393394963810689353388165481330789429658633934934457642353162825943029, 64642847146186566199874632622484833695951163192044020088590503751517888283673)] =
   Some 64642847146186566199874632622484833695951163192044020088590503751517888283673"
  unfolding squares0_def
  by (simp only: mul_chain.simps cert_simps)

lemma q_power1_ok:
  "mul_chain deployed_p
   64642847146186566199874632622484833695951163192044020088590503751517888283673
   [False, True, True, True, False, True, True, True, True, True, True, True, True, False, True, True, 
    True, False, True, False, False, False, True, True, True, True, True, False, True, True, False, True]
   squares1
   [(4789723818912847419026731782608859058974209599733398437029003914204051812640, 53582640615495275519913691436962327791732927858237103483025607501326477567963),
   (14837361688881245848605413030875450113708250223252773331918932139610634571053, 78551382620157080046123917870068003803841977920780347894038056335923346448683),
   (23884459608085279100087889046506028779373440343022581950071247962484192994045, 41528812368813657111440288995301850553327964203707609172030950330251711390481),
   (40772539769688563835282816884786094914819509119133293872120384116392653256093, 26350204548752892433032982797225965785110229757609609337561933230449547314362),
   (1279801088413691512635017227501738931238085460457245961786895892363368443944, 51793632337530010384849694586509526102107447129348929204240998407189278616986),
   (12366178562246188121160450438069845215891367694186219140822504773224644897087, 51385773291815980614426480093225198228684209052273528796917756619909428888657),
   (47122725818110524307248056992244028330764118737586938437935098970045407675242, 78349050931109913068779366329471272430183218041200577126706514839980656121319),
   (58020085268360419011072494448275017191247954592332546854863168522757920609392, 56784554398129863269817268027622235150643705162129290552855762373788984326441),
   (24452680299652113654528971907402780940563772186024522573062060780762807890636, 7351929080286974635857619400370038213674950790864868314700171926988064321679),
   (516619440500176749853348295100944325664286028312461093956529562991297027826, 88262325969999366695223448585983047198288824602136229346455235347058230638299),
   (79231541324087838828487000541076284710327141722509816028799486337968689206304, 99939884162957620399863451930087737828961397691838373394739261472032988310609),
   (11061892365636619886171148992265994534939514142526106840120046158673008296153, 62446494641420997195723681190105470726466771199052160359833807470157670467138),
   (33687145061158403792999129531876335156724809867269868777152707199322608418873, 107237682235903842025136438243198765233144708612085027083463734121267053565477),
   (51718698298228593724809930780121680578766408370091135402125374278417973987748, 7164255189401619292210634965372788119298379799344432691087812736505140036855),
   (1834322913571237579549146097663586532810036561445555051752152638134718395640, 12727713489387272269080232775169324696355798395586841695144046014168086048325),
   (11557544913557282541404971310900858843251362076890837530230602739387983671343, 12606558932525728459559941435491766104087254903896921284291320530844192201303),
   (827525575188346844768610696632672689683579760692539852685038427870456719777, 39346461559106025987538345097447271468630980178016790024033213980682826460820),
   (18054786906857982288173982875890578710357374004504832976907285810428564420516, 88057278009072936903304513927432519437884848527216369875624178292037679088796),
   (48919423099195057149279251781875925397266383618236723857355788765215247725000, 102214251778892270492257411463429248971179700510867153061338169724502266697536),
   (91095384688458976886623441564744881338284892213677433100165814608930110864080, 73724834858001037211250994705135408206630953198061133648904964977216566459056),
   (57559421610339854006367476368298394621035122736275492385174609917967041550414, 15510797365142233625220544351278763360202855346653897636045732158868846905954),
   (6747722324849722534545417379432681834716869498480768037086271215241275373766, 28431312348467733838875207028382554503503800524257826442224801016189458668386),
   (712726949650655847293259873788166800017477252239008780187893987615485691230, 54055564417258347726717163722280692767286176556438586304371496406952205057776)] =
   Some 54055564417258347726717163722280692767286176556438586304371496406952205057776"
  unfolding squares1_def
  by (simp only: mul_chain.simps cert_simps)

lemma q_power2_ok:
  "mul_chain deployed_p
   54055564417258347726717163722280692767286176556438586304371496406952205057776
   [False, True, False, False, False, True, False, False, False, True, True, True, False, False, True, True, 
    True, False, False, True, False, True, True, True, False, True, False, False, False, True, True, True]
   squares2
   [(29123235839967915636523727576392586944056733800788756283062994421579414923402, 24966474423795182986666157764872661233776017900888449470715838098418202818710),
   (11356612543734240212488256890708158262392860358661325634303379000283760121355, 45180418086693513398172848707652776331194130895320679493909694564930395894435),
   (18420761338242183382176289124664756790518529740230292192562936134716776362086, 104382945436645882361816649754392777092629400905478177048099874300963373365296),
   (7516681917050879347581394473002322107546948365616251633884320118332197800526, 67842719195597182666458001436161446923043979314474904529501709084671952313058),
   (33343686227834750880284001886920885205870442519881131980610575623314126261124, 64606580492099135822547996666657086447908285239188655285835796045772392640956),
   (52952709750101357765254782774997346761071218663860513285184416938901870861047, 53474861919434850304264247343633311549616152542190056835488817173660237257941),
   (25747372939261582215884156760294726911858763469088922622033692340763524767165, 24405192717666420859608121582442296634884389363250764093685090231626406739913),
   (21905394789336853063840744890288348422453765298804694924060607106992199955511, 13600230082263492523582026102484661553989204892304123474979311638624649528798),
   (7429648800488018004768356874905423998273399395541375758937332272544212144593, 108159822091359637836558833668766423060603594029193361666229638489745666581523),
   (99261206923602710431408173422627478892438061172764251306154103661554601908496, 55848427690788412208698632779756083266428527222558257817073597996919477348289),
   (13431460640898543713749698245237267703024816354069250226109077202529398985480, 64101356261777400897747308424487011107743592644710471652270188921574987381688),
   (19389597836325499683672477341237294654479275534764349104800940460638519242724, 86138336566831867380094362643557712670714058260369248688916819764936682145108),
   (77682585943935273329037581853399031824020015004663240574044395638668751472532, 6318535263223423580091029774573104774434085361259515785731378704419165294088),
   (3425121336233414368110357916992227825058690723693993259706641974379646209098, 65876360256670818362407898094027529566437304225709392207499626457999808689670),
   (22748829705237686412497677041361249699925356430730000734560729420792352230983, 46382135586941063853070830518122825499038178796186643266673710478857473830623),
   (14093667858037872896231385708204861140948933291547613060704161881424584492980, 40662606701118239649511739913075777733618662915517530903550891036451047742442)] =
   Some 40662606701118239649511739913075777733618662915517530903550891036451047742442"
  unfolding squares2_def
  by (simp only: mul_chain.simps cert_simps)

lemma q_power3_ok:
  "mul_chain deployed_p
   40662606701118239649511739913075777733618662915517530903550891036451047742442
   [True, True, False, True, False, False, False, True, False, True, True, True, True, False, False, False, 
    False, False, False, False, False, False, True, True, False, False, True, True, False, False, False, True]
   squares3
   [(9940141829326307985446848376413278652609400005847792788247960760603944753824, 70162815734084172676251399952663996401295213585768320015491801665422912080396),
   (17399124275157475716146333096121590061717554170324637163141991712907867967290, 29514639989972869014368670491762613221465911975697236074326611497104433959022),
   (27167068056602286052983009877484713953507520385950875469577967216126047265315, 112353694704541023380242414050284866953673918683814393420010427183532974962781),
   (18039878727489639878976136854395507400162929340401301895968239880603467059466, 82652082012808741759120783535795279072984378379872063256646556474172011673046),
   (7952151014380560709733694785170940843485814264684189049918772547022634801649, 39478996478246805266924300563811341254302301137921510281997203738568624321087),
   (17582059947478582918724790556006334686517534750170287009863471251570181564487, 67548383975009540872864370599645036048527505804743296573484249060929188077910),
   (21777729856598856220532222204153961162125965288604221550428200443008829277492, 25740718101785499276952062426139349740737705103945137323485037202341539348982),
   (6111477128162365316745942772508922690295338828423436410438148421486154606792, 67863873875310445433150003849765507414893343938231303795406518823463362288300),
   (43566200580869019852019908008540334814659946985303543621215033240744922359217, 97434100192782072384768639410407067052572289370798124850748784009212935911207),
   (38512165252106726444117581531801557828219564941507135621530991725817572097802, 79961647502529765883577206244517523904237901210889427436872166734377349665214),
   (70878600321223029300494858462859018557166140297813981602927844564743641282457, 48684071178151212347318961525209494445782312535877953446147218833608477916731),
   (30567664526076913530580187752502710300195105606461826763233201462370890967212, 79505677759597769363730718808342102425262493126127850375271117330155831271021),
   (61158473019552537528434258109347862432433972095569113329960394120288915960265, 75542795217435065116322585114739914113015459947759009894793725203169755966086)] =
   Some 75542795217435065116322585114739914113015459947759009894793725203169755966086"
  unfolding squares3_def
  by (simp only: mul_chain.simps cert_simps)

lemma q_power4_ok:
  "mul_chain deployed_p
   75542795217435065116322585114739914113015459947759009894793725203169755966086
   [True, True, False, True, False, True, True, True, True, False, True, True, False, False, False, True, 
    True, False, False, False, True, True, False, False, False, True, True, True, True, False, False, True]
   squares4
   [(59728691692117812678939849811048680024490289926012279436524641635905490680326, 48674898169705613875170014090771499846677544491354753394540261236359743462318),
   (23965653987915024679636213084806325488042844254040087811752810390524678955600, 842785883981867679751020432069541264175834724919353380025278899452438706652),
   (436217911791105359872920603915423716632316891811168541775850510462289379663, 40892677754714656956751899543167210066140588222201516042918024032264075161457),
   (2482142298064083650360571558965392096444120210409738783530503335689432695316, 100800873733931343952793290191541093005061716082568877210139280238480602884532),
   (4922249941935956888846280672531709489048130373515169356174520421671634723842, 53892423814494216096267324072200356465052094945628293721331691050234884086966),
   (37748121282426054307090903613248363384314981436192529542441745764706420217630, 94291797350800721097482999360500991556475158126812418388646992834063601279112),
   (43028031802803269548728978403995573782809167418063449252580147274770051685350, 64552013534467182398448031882546922271117161863750095329418905630679853843778),
   (28797932014835980235312383938551618984196628018871172956363123764281057918351, 30639640404860506455949601111160029219970963920165870975570527585337749665825),
   (8072979680447326469074065592240688855327121507188694688979980619893255381151, 87174722814452346007626962950722964272307033204409566684124943479285341072696),
   (81974972769934482295313056453949237138280881962894602304130013965619605354853, 97073119199886726952493283746785605916583786441604986277996564754109406044699),
   (64368324557809177879044329845691097283294290719279091467403375317641266564136, 41491885187104880071728128346247220864777580839575630455659809550997496192955),
   (9607723786219280566332496859833760510767835111620218446844854188566793941931, 97419845071643105859923085132211794271335154494028554553502337998210024523891),
   (41169828205555341768130047033955650527721972818689077498846703132291863625889, 95650208075977907702971588447166112329972587091578548234927604664555172801211),
   (83328875787107001648455464365286792325353096692613164713990696448372979048761, 21378473643630872585097309453924270839989174105316782697231968397052267373420),
   (6353070137302785165747382507278778080828332072985688780064678487445739962699, 104632222843127418060899777220282611139542289120233387676359158048440430819969),
   (90906881438085493087362045591395315031106415550610442074863950474267368623976, 78130925128342039647557310210051545251902664603501412211782410232420977201507),
   (41055314879787282078664948011507273902401981065543519411309799878632607010104, 60093022661516792593876802445411897584447078638089199133289586307373426242024),
   (25031462539621785899608745657742783777223890069852801608068218419894196628197, 11862870102839425520935022079844581091382987260531785522696246022618427165931)] =
   Some 11862870102839425520935022079844581091382987260531785522696246022618427165931"
  unfolding squares4_def
  by (simp only: mul_chain.simps cert_simps)

lemma q_power5_ok:
  "mul_chain deployed_p
   11862870102839425520935022079844581091382987260531785522696246022618427165931
   [True, False, True, False, False, False, True, True, False, False, False, True, False, True, False, False, 
    True, True, True, False, True, False, True, True, True, False, True, False, False, False, False, False]
   squares5
   [(11604664989794560003402455995961058564181712741704652834238584158522296788705, 64644921982978366369318829087135409060711515305545378638310998142374903819448),
   (52144835004702631051750882667543402304648366155181204861706541178668479239408, 24833925983937827865181587129612666953800193954291437832274106792302755832120),
   (9806456016828808282169005489607625169304674648700846964963485155673421140581, 31841758874671151243539636440219478083439692362166415964716978181193365816411),
   (9333566528612126862113090540103230755824947853401630339192711514165286973039, 71250617208275621519904247382367770999292491439079459201048366198165239173021),
   (33622707734341612627120133148454846888134485175277880921082900383054642817421, 103939864139735188669168636670718228039340125872625853209031261165205116389176),
   (74433258287739083864004600713038971913407588147724679818508968182203303318354, 99639780000271534283478179112225768596596411319391307526945451573363881224030),
   (30909437515994051420426439066553702318634739518053520902370496520307635996761, 47123116270981504757198502284584399935584503909144257576643317749366144885101),
   (357821601621758655455701921199127400929256186414043084303730248101982363026, 64652377731338831341931021004344969212249804953214320933487821156401457392669),
   (15059756395375907315296389249758642025990798158433877510662811290075155798804, 79717596240084792356937918950126895562921791897545100596424460459140371749121),
   (12448413959701179194234973495792397446780472625358430901382919997933487898495, 75105422876381006255457827347275692095287546235561013445117078497731165330787),
   (36255546305228544160443312207871156126808249596160155654396115472408446689860, 17093046927682555596553452476519184891219651837984971925570872162665752022991),
   (11042780309273635337293493217039113295637327816585116140952392017070700512686, 61780882141725228397689921586806989275553043957100089731004266924543141796712),
   (36750832072294739878857169720248324988964339208280651171162552438773220760211, 105919323337246805758800747265835471617626436542456210847091270258360561127861),
   (63101290955871869959469444767814586576252975652335351556315291941065015167646, 78420769614757536329609040711783184419441318843607932229888683999124121060551)] =
   Some 78420769614757536329609040711783184419441318843607932229888683999124121060551"
  unfolding squares5_def
  by (simp only: mul_chain.simps cert_simps)

lemma q_power6_ok:
  "mul_chain deployed_p
   78420769614757536329609040711783184419441318843607932229888683999124121060551
   [False, True, False, False, True, False, True, True, False, False, True, False, False, True, True, False, 
    False, False, True, True, True, True, False, False, True, False, True, False, False, False, False, False]
   squares6
   [(9672332591665740327029521282067975358953769746238342001791610914394676774144, 100102466150108379895057513547972741978661240262100675946356896166675461309222),
   (61666919578918206812102923244527363330776948779101878640447152954948157533363, 15722643538136190800651398158685103664543906470687567562451163236796600819097),
   (1391333894170594710901114502653484083060545087181256050886011380675095382684, 749068444455421808561290423685754219654131843509225322924070374778947168952),
   (237322294582913771785239051783462535587129463009297117066951709992236005859, 94934447200950524925298781761049733062888640976144844390617601304073897383861),
   (56869242336327604706524159514249156698454290300553766801893965863171959794856, 10241327728066854692134775080710797916491993331863945752373646152627310434470),
   (8503140582557095695855268612159156795054722894033356361324288127539622007042, 56212329908140964685746961915857630326940390762618646533897667822717745140312),
   (22247232879536722224087980190274811962321258944227212340560932375388832497924, 84356739408996578165080381722826896487979562704016310144718947142203256458244),
   (58621642447217047844119301567765796366255325509462106044080692763937621070907, 99332709455950550066453048137669982050458900456445670337227605929483635499441),
   (44759807476893530281343897434767029897961138849254820648622564372587189882504, 90464475704948546495096872549368888443322142823013097313239893210886855894812),
   (44527622143394788965383925787738954202243790655780922952815003315481059590119, 100187100231087699546658137405419860857945305752870815125249050740115681872405),
   (11986303510079850271516673505677864814550300322178293325353025499370622175817, 68826846009503796639872638780106112065488982517531554313127497054880324483567),
   (4263396524735257591222191005653990578618130744694887127227973040740549592576, 52927869002651763034937359184349793851850227451692128664131401969997291609236),
   (15217014089303180886605110691705424089917841356969509823935902419632792010566, 22191370237507097567215290473120443920698002810422889744328488692255455802782)] =
   Some 22191370237507097567215290473120443920698002810422889744328488692255455802782"
  unfolding squares6_def
  by (simp only: mul_chain.simps cert_simps)

lemma q_power7_ok:
  "mul_chain deployed_p
   22191370237507097567215290473120443920698002810422889744328488692255455802782
   [True, True, False, True, True, True, False, True, True, True, False, False, False, True, False, True, 
    False, True, False, True, False, False, False, True, True, True, True, True, True, True, True]
   squares7
   [(3382154264641656638277646608132788562671000672843618650737475140279503488638, 25055556903990353984756192699137917757013188143164979945215840885991392202950),
   (10398493533271221112471510545359922718081249435249055660745179548482686078103, 111233928232095193413879172112674150688894945876566165140025861998044585304413),
   (36720684627025236035192274168179829365265495937511344061414481068573372157352, 35581869993623995012070345166681944505092745234382072465067046639549219826599),
   (2995926313231465283041167163450614569778404008533980987591483885724594845653, 84700986910958001553349345658214606553141914980979679300149553193608382483584),
   (80245549179540756090164894275441241598718547092203585246332217301137415220165, 101788419450388854825297693150481333878223211054004323838202761652807826580555),
   (95616743337620320569839287900113330702653765810932851652505285610059836941414, 100819794378754168638028032438721997217889455463733354661676375588698501117909),
   (29543908120827977888051541451283330179130611410243672600771142146535119198851, 13131835683767696943553747116566648591004535419687821216989363286619882340825),
   (203711772575768240070584212937170824274018668706376966322560974269787840282, 39687301256907651798896413578166918374594994627783739662001396557348928303222),
   (8735858627960110920131029220267342285857756416514965048858151031526961031722, 102309035315279470977113058473348023245018882722985377886616269638314087674144),
   (65919043071118059281542916417188447222092328073565445547032637794126536798729, 83717615283503831336842862981123472622863692149363108147089261986028174238503),
   (52927699249734794837019541715055722055642464025310586194448626874219465238707, 31849065218194850302490316638472631508043665910254163781347506498808380509525),
   (1986297791679925881810714066374784182022840252402682555664861441570841458676, 27435347543368342842167327740353334150678754580154932924123517581080944175046),
   (18195493186863022843105701513281455848232116387017315707767687154267467004370, 98996405941855619231288226217275283612743244949666704469139734810177954681020),
   (54822553630564891959559399368097325402425966470650775818857890811004356923306, 98193878608298835954750612909771866046640676076017102320798191868084997247266),
   (56758859870176364759098780030581639866160323717540660322098696422253005904009, 21042990704461500717307460977482035104120427932769079939667877445276133895485),
   (2204696282141371670324151979442900684399590965657295807893564907723529036060, 113434482260255501623835174501585256145708489517583185885612087599835227370860),
   (15728287856962228226208993204010028040996729713567467565390560710987826105299, 17070035885418993284559131050556119243952948378480291906858836565870892453109),
   (6124387474433837498372940848191629302840038469362292531335750862919699628044, 19809392929443613511652207019022931780676882882346405238729176007722681736589),
   (11057540981555193778567459858259082943864969401565240871742616538755588775071, 24406902857585210906883663980291641766587126322400552366161120941222170453176),
   (16243266930971147727005415576809233318861714576313696598775100246295288368159, 1)] =
   Some 1"
  unfolding squares7_def
  by (simp only: mul_chain.simps cert_simps)

lemma q_power0: "is_power deployed_p deployed_g 776111448
   64642847146186566199874632622484833695951163192044020088590503751517888283673"
  using block_product [OF squares0_ok squares0_head _ q_power0_ok is_power_1]
  by (simp add: squares0_def)

lemma q_power1: "is_power deployed_p deployed_g 13242236493424133464
   54055564417258347726717163722280692767286176556438586304371496406952205057776"
  using block_product [OF squares1_ok squares1_head _ q_power1_ok q_power0]
  by (simp add: squares1_def)

lemma q_power2: "is_power deployed_p deployed_g 70226265383521200275969967448
   40662606701118239649511739913075777733618662915517530903550891036451047742442"
  using block_product [OF squares2_ok squares2_head _ q_power2_ok q_power1]
  by (simp add: squares2_def)

lemma q_power3: "is_power deployed_p deployed_g 187089459961955873527587687930576143704
   75542795217435065116322585114739914113015459947759009894793725203169755966086"
  using block_product [OF squares3_ok squares3_head _ q_power3_ok q_power2]
  by (simp add: squares3_def)

lemma q_power4: "is_power deployed_p deployed_g 903125641290656709940043944277890987409155458392
   11862870102839425520935022079844581091382987260531785522696246022618427165931"
  using block_product [OF squares4_ok squares4_head _ q_power4_ok q_power3]
  by (simp add: squares4_def)

lemma q_power5: "is_power deployed_p deployed_g 143207806695370954127272052148000018468143073106136827224
   78420769614757536329609040711783184419441318843607932229888683999124121060551"
  using block_product [OF squares5_ok squares5_head _ q_power5_ok q_power4]
  by (simp add: squares5_def)

lemma q_power6: "is_power deployed_p deployed_g 551406038841602161047800232008997461187416135249413944058698696024
   22191370237507097567215290473120443920698002810422889744328488692255455802782"
  using block_product [OF squares6_ok squares6_head _ q_power6_ok q_power5]
  by (simp add: squares6_def)

lemma q_power7: "is_power deployed_p deployed_g 57688686691730208018803259028241462201596032195084845906015401874086330271064
   1"
  using block_product [OF squares7_ok squares7_head _ q_power7_ok q_power6]
  by (simp add: squares7_def)

subsection \<open>The public key\<close>

lemma tk_power0_ok:
  "mul_chain deployed_p
   1
   [True, True, False, True, False, True, False, True, True, False, True, True, True, True, False, False, 
    True, False, True, False, True, False, True, False, False, False, True, False, True, False, True, True]
   squares0
   [(0, 38961319378371415876679471292486639040769165054575615254290059514751887413901),
   (20434312005524081536357553500852706204554228627961284135006828479376221340502, 68387210134826321242315359523734388150085668902556836620819367159852486711091),
   (27555019411601325019151236558941121505161196834914992835744563051295285109000, 44672116331213935834171924775137536153698691162944960643581069171213920907994),
   (23913596813094691868238702621387976863338779710878940769750883844209801060858, 20609723530260385233287337754579697973595967203792272782146965194963858001616),
   (8716594839846573341458592725275252301252438586798989786318499376743474554366, 18044068617772932319300361984002051519975882280034422078067654288392034537074),
   (8639016357423282358864372242934633875828852025715626505993950742970825002469, 78737741088831363735966221003485995740618967322935517364581339582328309452131),
   (29100712481736670511432445118257682139791317939571803513863240461881511838711, 42033573736630747374242833680239148128604817203961645657951435716295620817234),
   (9477098171904148782221425062499389279638379640652017636854289967416551939646, 25496171291862187815291085492711454644657051340329631558387754532529586385602),
   (19618572510431844531226140731193044300324525567277117080570442672385573607077, 81915746673225281562917281940792229996216142646731868224499075448654305283545),
   (12398957584490397930567002925945876015034649733098118337167660341221328131720, 47836799194991670722281973712778542080333940982067046659757388248571135745230),
   (8307559288920782350605353856979232898613775260625860852079866575459749613980, 69451515942230694506003931335967811363926776634929097849589163188747898934290),
   (62657984206411959473289412508253905999350580273769275654418471555135587334133, 29933588214512402639547756409464027993137725695145608189571272057195624897633),
   (21588976399578318027942595343553186613205019483908929157013987485924821605667, 102496762914311652319917310587705019892737851543606409566124283312259944758274),
   (46387135821858858565562196824925990181017720549550340379998457656288608072068, 75097823311172081009370572453632179731998919435514006752778000721467856938172),
   (31005653906669153908783785151179092011342210264645021215908014576794982667897, 103828822872224795843407395342606834491507091604990013291369444874776673239935),
   (1426193721053657922897283098947475384280033364667383109551966557661083143782, 55677653496932144533455416483355570790047421187539709722470961457712342585462),
   (32964567177558179007980780439465087431518274201350906406042919050865880810676, 19472777412474858617242359964506928499112339531972339307263518562916623748672),
   (15425573579098699453115484561280969160976425820123547598110493502788868387008, 56050679973372054225686795734293270350849560274422052746627561029921391383552)] =
   Some 56050679973372054225686795734293270350849560274422052746627561029921391383552"
  unfolding squares0_def
  by (simp only: mul_chain.simps cert_simps)

lemma tk_power1_ok:
  "mul_chain deployed_p
   56050679973372054225686795734293270350849560274422052746627561029921391383552
   [False, True, False, False, True, False, False, False, True, True, True, False, True, False, False, False, 
    False, False, False, False, True, True, True, False, True, True, False, True, False, False, False, True]
   squares1
   [(4153085589308839244247760575581748136731813442648772880006791591268657788172, 96963726306318329997306841759149852861024733254323978071790765573428933891764),
   (45497968914680049347263833182253240250470642641966942510370946866071179821697, 41068433162478491194562191379219249713602308768132140371464999372136577494599),
   (37661329035659227744326375654476706610707537480958116452642669286460817429250, 16132711046751128298007803683747062919054880882592744761844854721745077301509),
   (11946810579305387545104832462097924503927433071435613864858163769817967134441, 98601903072124860453092638380985569838598559524293186625686064991996587194210),
   (42460152031048800279178463824472463482243819125950873768921129820019892856639, 96004919835014810404254273476594374231533790109682067234597658592834842122199),
   (86181931980913676705512836353775250856106824154880285900398848026119230391218, 60888523921018975368026805912140833890245507497283741405904495362968287701203),
   (19954836942497369219225505864997489427868503718400151865412662049224093240888, 13522700553403451306058969191364068199936211589116950347045496026464852761131),
   (713335843977006722657327679717295078315885409485323568487523715750402648929, 96745336120552514938421709236327939590958461861496526592838287736589770622667),
   (87850702195867069441271171219051127750392312848649513046001772644553251819165, 32798986112564858732673271364326605197458906330559154425840371056277325485693),
   (15050367467828978522034387682936335227239281825982676987837224694810574375496, 17947036637619356023862321894801911924565166031263550139794044274819262063480),
   (9970313624297997138048788080046764626526531431668198363777956026881740312540, 78536971185148893847597326113491985328807884091875058335846105769577876252020),
   (58810131184330531613411042493880400340996858987711089741016179675447802834777, 52693983763265360956125539651167157069638427761035198068581280127024603705747),
   (1320952823148782963433656762397191228063589058015114540616691620466323842736, 396302150452213321108010562975698519381462299522706132268753629392404389173)] =
   Some 396302150452213321108010562975698519381462299522706132268753629392404389173"
  unfolding squares1_def
  by (simp only: mul_chain.simps cert_simps)

lemma tk_power2_ok:
  "mul_chain deployed_p
   396302150452213321108010562975698519381462299522706132268753629392404389173
   [False, False, True, True, False, True, True, True, False, True, False, False, False, True, True, True, 
    True, False, False, True, True, False, False, False, False, True, False, False, False, False, True, True]
   squares2
   [(95171947417594971541619404590988251284286902375164490247092235477879961396, 5947467884100367375782332149570379381797468949177116746179754349257182224138),
   (4334059288410551860285789671718070640122721355250519255667703058888117564389, 96496717759427586208375146942165872409638535357058384078072286770093334132933),
   (43893896139834411779873466511558700632828713488864593660049938996944485611144, 32927734616274452230343917683812393503815857693649883737875849393423597309353),
   (9319653748296308715573064734942482917292661943630312022334112881527710264157, 103342723698523253751706784244625302377919212054416370750286222616581617828078),
   (42079415009447798780859451042914627091206200753103247924324125202877552762192, 79583539582600315203469974528262027930802124019019628147341202953267859866452),
   (32447450713949721567029651725728786563041839680598683212017543312615302466975, 77060902566268352311444789966449257834451029341171565109430516045484345669113),
   (64554092831829316968629955317273005220201027018160473897251269557259720566994, 48245539025210433298638842540652339227828720100614345286695904504541291560321),
   (39542907321206687406712260750014755246644030638135793220083878615241661667771, 77654715877673328761397978557348307981612505821900825063836793510430769792830),
   (37389623057038530937094281498608965356155143718469692083054883601937611370062, 22013547231337467559563263042052628414640201755388941581234215817269674822742),
   (19758723005989399704201581800030188214717713270044331197109485262790542550651, 107897579681570777664695331200456330938237914230199922550229956324396317923699),
   (58943203064056190768181260272527796617413503580633987936074320247584871544256, 6675542324450531748518486072268529183474947482504750044409083297163238565986),
   (1820363733401969420284631363385593169913616020679606754689985946179798578784, 6630144192428345482225213342513242099516404947068808903033843373059663457604),
   (5979297564556411568994628238599847402891581594081192797820751540367040701242, 9866183299269617858362109590724791123483659819192748838705661395239205049490),
   (3407051070236030935129910056519108382291380264375999828960435806482120913897, 24360817567788642891487061648757858705399325724347478200090309661338546279497),
   (7402273897179779047051883287779023431173982716066244462656633776544017381235, 61374091301014290192656444428734498365643183835131132353385486736445795957103)] =
   Some 61374091301014290192656444428734498365643183835131132353385486736445795957103"
  unfolding squares2_def
  by (simp only: mul_chain.simps cert_simps)

lemma tk_power3_ok:
  "mul_chain deployed_p
   61374091301014290192656444428734498365643183835131132353385486736445795957103
   [True, True, True, False, False, False, False, False, True, True, True, True, False, False, False, True, 
    False, True, True, True, True, False, True, True, True, True, False, False, True, False, False, False]
   squares3
   [(15003149617590229782093320966917289479748637195476663461019432443361387131598, 113577384213607285842824018828274815179944436427869188844085638098537004958836),
   (28165161305233589292223235775015602603256964928957925991819468674177975646462, 96889607427165211279377217567932274446303839131884427301564038805468887908314),
   (68699974382731551491348466142169910534408862672317840409932987790523595825221, 85057949738913157202799379177218875486900467601112891265032137758468316222509),
   (31819150831263163975543477302705461648880553618436250314835983139818327033749, 8798444550714880657913923193413340696026124301457922827075283137955339517910),
   (846519023538882074196257723150956777964003335046684339111548019099816205973, 30590798188421146117491585565769885058174206246927807515968616416843542099163),
   (13623680832069741385767058465993807025835170905791299116838542715686331825898, 78836633843624192906021794267275547120368001860675280368815953516532233637175),
   (25417083483229310350268125845410245411041514940525280220024232573351072066831, 46070907394459478668102788477673672633834255679579596593851494871625465148426),
   (35498760499061121035729288144393704554561223722295193461610767158247715878486, 26792167279460780130213360192229578608105789757443705733222295947542691017758),
   (7055288768024958209904140523566318302043496821776619608789472246726006146576, 25998095870167471422297521863668188872069471955099427068072535992144082826290),
   (16191384410535167697748303052671444279308797886385712024605204574856442202507, 111735960130664843014022307398039383424461093496136534883921229326522475523457),
   (97186242525268830305924543892689849195642062524900103871322375452868076522411, 63812289789819505446725695775227250534557130780915618640372879365344645244518),
   (12016458084216720006627825051543306477931552455784276637871175168000804493093, 45607916383499175929783180333112911619344658627530754318063151412662541757251),
   (29278665065448093795689907525293926345426968167455285508713953659410946433909, 61620364722233314143238024519621818353830907273548689715170981004695045278413),
   (24356294812414544863085699228572330371700536628636153040079289559229244903817, 104909277902619899757158346249059529157307193946806627104286472726770727299455),
   (53881131182572195812667381134835937944526426129029577426875834154559438913790, 91479900463267526690540381936550279214524455761134695434836012305188781811165),
   (56534810166285793873282458250325445465142801210602259220653768491809545864308, 101716671896744234896404422776112274424012600267239867167327848599539684320878),
   (57694784511016192376063310970729968031347433792187831109400414200830548849150, 25492860792869671149179269273852012659108736189514368741554675975593966782250)] =
   Some 25492860792869671149179269273852012659108736189514368741554675975593966782250"
  unfolding squares3_def
  by (simp only: mul_chain.simps cert_simps)

lemma tk_power4_ok:
  "mul_chain deployed_p
   25492860792869671149179269273852012659108736189514368741554675975593966782250
   [False, False, False, True, True, False, False, True, False, True, False, True, True, True, False, True, 
    True, False, False, True, True, True, False, False, False, False, False, True, False, False, False, True]
   squares4
   [(13194860891721109912437502050145822395764249651786712166890369958000691026432, 63597881948766990082628609345464291639391773713382790654230306619027391413272),
   (37914333678165718869293189996768932265905298057007398819722781955514496172271, 97202117874300593571182186645077113929461779648044709992765188467823642690033),
   (68083731900010626265972380621944714012016987380858562636001209599634266174096, 57155249138929751603688835745619378372099458101376810270515559074645232425657),
   (18242207475777631508515628036819125250848944637561098565880572776689479674005, 87548270031393731242954567774982372541824455634447861181051863279592496616797),
   (23067353130868931284721666504703797470538031382291038429375708682952431907617, 35064891956247451072627764301404790007120859963683253804802023483447007488250),
   (2499999326566908594462985035777870738227439061009280557926668125646854651774, 49038393183670767319793064451235917436008468039816766800308997063372726298154),
   (41318765538334866286426995580846552090654774728473297811441172334960609498468, 6547751581939845316178820489249272894442555269660603952298681613348434387654),
   (6157194887516503109161381433199045519936234960247707844110687529797672091763, 62533616746616021678052059599339901935327989727216700683421727038170276832937),
   (41465486755725144724186125072885911200601755595490535852289846872724288086936, 5696583947364997516046698762006453648691078669991204654356990134274103015593),
   (2727642966539729562749455200752067513088497487628939302929875429657746064340, 90223435792177122193919213984854272853406735146124416324918298724554786303953),
   (20891840566558082671852669761363414899738074771576476635172603961056248745054, 16820300039782482095016465255845570569401748038059667147421928241699337941068),
   (7108293618148132307298217716449800040358186673708019006415378390579800987848, 57249754970226357750639151695957295014647609288475423183744444133863433730024),
   (49739903693345407562833987060512273130799888984704736674288355352490513630211, 110340512155158592690403698676387469492375678521175784360302380382708701483237),
   (45961815104090157650866043520272979551168974152548188931583278801253275497801, 102328590733600723987704716840799629367071747085242553629351835992711551264943)] =
   Some 102328590733600723987704716840799629367071747085242553629351835992711551264943"
  unfolding squares4_def
  by (simp only: mul_chain.simps cert_simps)

lemma tk_power5_ok:
  "mul_chain deployed_p
   102328590733600723987704716840799629367071747085242553629351835992711551264943
   [True, False, True, False, True, True, False, False, False, True, False, False, False, True, False, True, 
    True, True, True, True, True, True, True, False, True, True, False, True, True, True, True, True]
   squares5
   [(100101324894133511280951881377170966958740472992593224388966681219931837331320, 7815781255340913096365944869107961104281662127268149389851162688538113828349),
   (6304480096671971670441054589576483766924510046515191855544366457944475437254, 24083967416579255163094535076697071070494950158713986297492413220261045695985),
   (15338799899735668104447281884554855952954394473377655503917431637009476300298, 18071807974186931489524075950429704895849537906282500373452834136770786474833),
   (6978532943666995994091880604884884831487449291680702475547920855796675726673, 567881941705647321032951874398482899270678664408963714897967498557083145785),
   (541776088082573903201983178727787646989861222020789887344503587033014107361, 46294807848638924934277918927471380120928494148457326137830083690865817133826),
   (33152567770787263433256730748788562082976822978626688737332953396423112508692, 114637493323762206780069391778596364952372360916506377874353403922445651568328),
   (95256704341903756878579401459580657764279699017533719800876710131618753514217, 95833280132364816738631228709990731048531409852288970423299619983035843841551),
   (29728616263464372381100727021050454841413557414762689331119692831170309706781, 73218237989923008643009025053679927253288945092079033033247215893645300319310),
   (555970599117842641753874566875389205906246751538312217095835711902053344339, 95316888495535779606093520834930516889860138411984646719819644979058903673399),
   (22202572766510558176181576218431128932018118696006676149220378791358495759662, 57276550690824571681372643144460406593009788459783552227982265615079786915729),
   (7357660068470903424404522854878979761327424537060620134777521959509346203661, 69104751143215376976980388235866898049671705318932978065452206069177157691420),
   (10791150127282906060373889247269235715877051170184280579008498508806748355685, 94571540098777023466870944511506841347469798272611383543247127978964900397475),
   (5618891771975712606433258831506755660943591688709528670658406246928568419173, 30076311591056826234533939863910580274002417517722150092478810077481310197583),
   (14518700059446171345601154720773557389209718460272228520503112491564146992515, 4971312399627029264690075123714402527921047998383530429726071994894671966444),
   (2957223348777966579123021419696639948552419306412454013991593261962068339902, 88392780314232871231043431634081173997852214723443036168991708281511052022102),
   (32991383245838568997567630658373590976899046138268169961856700387641772382712, 81447322345010671778669466095926206364634521109546683001070612270324140226660),
   (67705827279666225884594354498444638185533337911203874218265082052376246892027, 102922701538794532135228303045847392870693743457575618546290998237456322180877),
   (37452209314853347070566882894559405981185946227931447514953680403890696940745, 57584526403199019643393339254279127303540898743977787244947944410115037713114),
   (47129179440538147485001527016567325118449651189136229120264530462591156201780, 60414137150136341560035572167917153459126592294429616202683345671901609440656),
   (10184776867371594144151823455798102419606702575968143443553349214076622547837, 18816231095022890314838073586824288903201333901704218756211050191690513495075),
   (18714456031449513210715170116482280518816897192428293017163624171827158159130, 32714211882135841486451421756938168911641743246933815390302287495233442510555)] =
   Some 32714211882135841486451421756938168911641743246933815390302287495233442510555"
  unfolding squares5_def
  by (simp only: mul_chain.simps cert_simps)

lemma tk_power6_ok:
  "mul_chain deployed_p
   32714211882135841486451421756938168911641743246933815390302287495233442510555
   [False, False, True, False, True, True, False, False, True, False, True, True, False, True, False, False, 
    True, True, False, True, True, False, True, False, False, False, False, True, True, False, True, False]
   squares6
   [(17868384653541334256965974616503246381315068855831221813877175551832758046858, 72583131213260388628784715280555531566948606995780658036736776050349237342148),
   (44713964475183413685464361267296511072309658770204096640384201300091611186501, 21292752001239058009180967982016981915358694026314546039774318698802582823987),
   (9670260058345343124038668650899935509322862821680677569725474362334201806445, 30109334947231629335541555967327759723593418958432518065371996814372832337826),
   (12688559677746153110310556675844781807558777780587997535661446267568269538933, 101602188685041009531952449357459542055916506930782479006675646271905453421325),
   (60863465902954427937051643881192114874458479282051536140747362580783358365214, 27111168378646131312959678367962813672212893185365688593864345651640849430944),
   (6875061436415716579125849230233698229505096811900771249256079839698276354749, 94217246974044455147086854611453360527500997393012330907748928323145782626035),
   (78226428993794653631131510698031726067100613619619675267029116171613660880101, 16578718678914448148149287202563847544323147523416437990240430488813527410536),
   (14425763467557408032404265395257579985724540477673753239237107233811003522452, 112475184985258018616870267533137613036083077147431457141443405472816931917244),
   (109675672982567639383478656916865486723353780970470536316354193756033501946466, 55700384705039672022502007538611252936268542404990863866626507454665607949118),
   (25098867326196030591109973880442940820114473978108401784852511111491267816599, 42410977932247696147830229256126443531348450138239893129867516308891599173073),
   (20875155527991177835666280734582753117008976852837945723484346122250172948435, 79808646836955297261218018860657734680134608880104568684938819408601375729634),
   (51169759984117233064803880390528506829003249702678888246196371397291114896899, 114683452022122314836536887075164579010492650178590634923984586228644157316779),
   (67598175425703431422486689761100507280483454915115607661042584918937230462479, 82614789139349407991697661155624741067490075977748187697723649291312420081760),
   (71545910373613822092023087832102031639013133175147620067389629307565712866838, 4563398256248125068970026171715248355086736323535580915913665159031484775338),
   (2139427060883465947899497112683956707187293160248087350403323924847873074567, 103603221362394308102651295367379820879460838204365227514644440320861202033983)] =
   Some 103603221362394308102651295367379820879460838204365227514644440320861202033983"
  unfolding squares6_def
  by (simp only: mul_chain.simps cert_simps)

lemma tk_power7_ok:
  "mul_chain deployed_p
   103603221362394308102651295367379820879460838204365227514644440320861202033983
   [False, False, True, True, True, True, False, False, False, True, False, False, False, False, False, False, 
    True, False, True, False, False, True, True, False, False, False, True, False, False, False, False]
   squares7
   [(97848352683787509917844738829480698855534314525001531912224206262088310773267, 71676147993553605109266310668332287855852069515118903191884979590238645148134),
   (23661820341896717117213525719645731219183257902090066011189503989127180625146, 107589279556541562677199569667486022523824886659700047607126673235524318975592),
   (9058814326026655352149441207700238476639797910425236466720209019160124207207, 3794015321513388182280355495982559419386016469926516307514797087721398728065),
   (3594442688023105152516240441752280038742866899936565005334982913647552329167, 79738784109567225344914563405960114074196130303288412949583913316290911854732),
   (1236973218761438294564795609262900935337828733243294317239835625434744148536, 27098399095784923786982513173551312840277893660704089194491022666435355767432),
   (14633145654393462764136272795800084334507059155785232626240786747429861566748, 79776024132668076861062544461450469555350326075895351626927749581658895519876),
   (6002451124580512202888076394165428056598797826294894108014750210339647998585, 56687076522402078806960626891275741099462566710006079336283451248789315749847),
   (37937629975025479755588917836639847849341365699378355853314776297093259953013, 28289419510863546190753348415102059461674329703371779146817017555055550771877),
   (2210385495570545223105233034978858905744523465904951611972777314430429687055, 52797805444800211485270031749409940858975029993604041887431230768989780757438),
   (5531681641844516655446876385191263721689107258923854704431905638383900581286, 12252560857905353415282804501449710333724241022894051760707582868446711054186)] =
   Some 12252560857905353415282804501449710333724241022894051760707582868446711054186"
  unfolding squares7_def
  by (simp only: mul_chain.simps cert_simps)

lemma tk_power0: "is_power deployed_p deployed_g 3562356139
   56050679973372054225686795734293270350849560274422052746627561029921391383552"
  using block_product [OF squares0_ok squares0_head _ tk_power0_ok is_power_1]
  by (simp add: squares0_def)

lemma tk_power1: "is_power deployed_p deployed_g 10047556138302782891
   396302150452213321108010562975698519381462299522706132268753629392404389173"
  using block_product [OF squares1_ok squares1_head _ tk_power1_ok tk_power0]
  by (simp add: squares1_def)

lemma tk_power2: "is_power deployed_p deployed_g 60071386669135595135550438827
   61374091301014290192656444428734498365643183835131132353385486736445795957103"
  using block_product [OF squares2_ok squares2_head _ tk_power2_ok tk_power1]
  by (simp add: squares2_def)

lemma tk_power3: "is_power deployed_p deployed_g 26410922821749979776562687077705399723
   25492860792869671149179269273852012659108736189514368741554675975593966782250"
  using block_product [OF squares3_ok squares3_head _ tk_power3_ok tk_power2]
  by (simp add: squares3_def)

lemma tk_power4: "is_power deployed_p deployed_g 777710141942872423025047801576876798579685277099
   102328590733600723987704716840799629367071747085242553629351835992711551264943"
  using block_product [OF squares4_ok squares4_head _ tk_power4_ok tk_power3]
  by (simp add: squares4_def)

lemma tk_power5: "is_power deployed_p deployed_g 6166726965106232955666891871601373605787098067650211036587
   32714211882135841486451421756938168911641743246933815390302287495233442510555"
  using block_product [OF squares5_ok squares5_head _ tk_power5_ok tk_power4]
  by (simp add: squares5_def)

lemma tk_power6: "is_power deployed_p deployed_g 9304989540300098726651844048488274998768266378435787137728141147563
   103603221362394308102651295367379820879460838204365227514644440320861202033983"
  using block_product [OF squares6_ok squares6_head _ tk_power6_ok tk_power5]
  by (simp add: squares6_def)

lemma tk_power7: "is_power deployed_p deployed_g 1987718378270165521247270964520257154022939703199947399530053305447400947115
   12252560857905353415282804501449710333724241022894051760707582868446711054186"
  using block_product [OF squares7_ok squares7_head _ tk_power7_ok tk_power6]
  by (simp add: squares7_def)

section \<open>The deployed trapdoor group\<close>

lemma SetString16_params:
  "SetString16 (to_string param_p) = deployed_p" "SetString16 (to_string param_q) = deployed_q"
  "SetString16 (to_string param_g) = deployed_g" "SetString16 (to_string param_hk) = deployed_hk"
  "SetString16 (to_string param_tk) = deployed_tk"
  unfolding param_p_def param_q_def param_g_def param_hk_def param_tk_def to_string_to_bytes
  by (simp_all add: SetString16_def read_nat_def is_digit_def digit_val_def from_digits_def)

interpretation deployed: trapdoor_group deployed_p deployed_q deployed_g deployed_hk deployed_tk
proof unfold_locales
  show "deployed_g ^ nat deployed_q mod deployed_p = 1 mod deployed_p"
    using q_power7 unfolding is_power_def nat_numeral by (rule sym)
  show "deployed_hk mod deployed_p = deployed_g ^ nat deployed_tk mod deployed_p"
    using tk_power7 unfolding is_power_def nat_numeral .
qed simp_all

lemma deployed_good_params: "good_params param_hk param_tk param_p param_q param_g"
  unfolding SetString16_params by (rule deployed.trapdoor_group_axioms)

section \<open>Properties\<close>

text \<open>C17. With the parameters compiled into the program, the trapdoor works: whatever random \<open>k\<close> the
  generator drew, \<open>generateCollision\<close> returns a pair \<open>(r2, s2)\<close> under which the new message hashes
  to the same value as the old message under the old pair.\<close>

theorem deployed_collision:
  "\<exists>r2 s2. generateCollision param_hk param_tk param_p param_q param_g msg1 msg2 r1 s1 (Some (int k))
       = Ok (r2, s2) \<and>
     chameleonHash param_hk param_p param_q param_g msg2 r2 s2 =
     chameleonHash param_hk param_p param_q param_g msg1 r1 s1"
  using generateCollision_collides [OF deployed_good_params, of "int k"] by simp

text \<open>C29. \<open>GetCollision\<close>, the entry point of the redaction code in the peer and in the orderer, does
  not know the pair stored for the block: what it preserves is the hash of the old data under an
  empty pair.\<close>

theorem GetCollision_preserves_empty_pair_hash:
  "\<exists>r2 s2. GetCollision msg1 msg2 (Some (int k)) = Ok (r2, s2) \<and>
     etcdraft_GetCollision msg1 msg2 (Some (int k)) = Ok (r2, s2) \<and>
     chameleonHash param_hk param_p param_q param_g (concat msg2) r2 s2 =
     chameleonHash param_hk param_p param_q param_g (concat msg1) [] []"
  using generateCollision_collides [OF deployed_good_params, of "int k" "concat msg1" "concat msg2" "[]" "[]"]
  by (auto simp: GetCollision_def etcdraft_GetCollision_def generateCollision_copies)

end
