(* ===== verification/Sha256Vectors.thy ===== *)
theory Sha256Vectors
  imports Sha256
begin

text \<open>
  A published test vector for the model of SHA-256, evaluated by rewriting.
\<close>

text \<open>The test vector of the standard for the three-byte message.\<close>

lemma sha256_abc:
  "sha256 (to_bytes ''abc'') =
     [186, 120, 22, 191, 143, 1, 207, 234, 65, 65, 64, 222, 93, 174, 34, 35,
      176, 3, 97, 163, 150, 23, 122, 156, 180, 16, 255, 97, 242, 0, 21, 173]"
  by code_simp

end
