(* ===== verification/Proto.thy ===== *)
theory Proto
  imports Sha256
begin

text \<open>
  The protobuf messages the ledger looks into.  Each record has the fields the sources read or
  write; \<open>*_rest\<close> stands for the remaining fields of the message, which the sources carry along.
  A field that is a pointer is an option.  The generated marshalling code is not part of the
  repository's own sources: it is the record \<open>codec\<close> of functions that every operation on messages
  takes as its argument, with \<open>codec_laws\<close> the laws the code relies on.
\<close>

section \<open>Messages\<close>

record Header =
  hdr_ChannelHeader :: bytes
  hdr_SignatureHeader :: bytes

record Envelope =
  env_Payload :: bytes
  env_Signature :: bytes

record Payload =
  pl_Header :: "Header option"
  pl_Data :: bytes

record ChannelHeader =
  ch_Type :: int
  ch_ChannelId :: string
  ch_TxId :: string
  ch_rest :: bytes

record SignatureHeader =
  sh_Creator :: bytes
  sh_Nonce :: bytes

record TransactionAction =
  ta_Header :: bytes
  ta_Payload :: bytes

record Transaction =
  tx_Actions :: "TransactionAction list"

record ChaincodeEndorsedAction =
  cea_ProposalResponsePayload :: bytes
  cea_rest :: bytes

record ChaincodeActionPayload =
  cap_ChaincodeProposalPayload :: bytes
  cap_Action :: "ChaincodeEndorsedAction option"

record ChaincodeProposalPayload =
  cpp_Input :: bytes
  cpp_rest :: bytes

record ChaincodeInput =
  ci_Args :: "bytes list"
  ci_rest :: bytes

record ChaincodeSpec =
  cs_Input :: "ChaincodeInput option"
  cs_rest :: bytes

record ChaincodeInvocationSpec =
  cis_ChaincodeSpec :: "ChaincodeSpec option"

record ProposalResponsePayload =
  prp_ProposalHash :: bytes
  prp_Extension :: bytes

record ChaincodeAction =
  ca_Results :: bytes
  ca_rest :: bytes

record NsReadWriteSet =
  ns_Namespace :: string
  ns_Rwset :: bytes
  ns_rest :: bytes

record TxReadWriteSet =
  trw_NsRwset :: "NsReadWriteSet list"
  trw_rest :: bytes

record KVWrite =
  kw_Key :: string
  kw_Value :: bytes
  kw_rest :: bytes

record KVRWSet =
  krw_Writes :: "KVWrite list"
  krw_rest :: bytes

record Metadata =
  md_Value :: bytes
  md_rest :: bytes

record OrdererBlockMetadata =
  obm_LastConfig :: "uint64 option"
  obm_ConsenterMetadata :: bytes

record TxIDIndexValue =
  tv_BlkLocation :: bytes
  tv_TxLocation :: bytes
  tv_TxValidationCode :: int

record BootstrappingSnapshotInfo =
  bsi_LastBlockNum :: uint64
  bsi_LastBlockHash :: bytes
  bsi_PreviousBlockHash :: bytes

record codec =
  marshal_Envelope :: "Envelope \<Rightarrow> bytes"
  unmarshal_Envelope :: "bytes \<Rightarrow> Envelope option"
  marshal_Payload :: "Payload \<Rightarrow> bytes"
  unmarshal_Payload :: "bytes \<Rightarrow> Payload option"
  marshal_Transaction :: "Transaction \<Rightarrow> bytes"
  unmarshal_Transaction :: "bytes \<Rightarrow> Transaction option"
  marshal_ChaincodeActionPayload :: "ChaincodeActionPayload \<Rightarrow> bytes"
  unmarshal_ChaincodeActionPayload :: "bytes \<Rightarrow> ChaincodeActionPayload option"
  marshal_ChaincodeProposalPayload :: "ChaincodeProposalPayload \<Rightarrow> bytes"
  unmarshal_ChaincodeProposalPayload :: "bytes \<Rightarrow> ChaincodeProposalPayload option"
  marshal_ChaincodeInvocationSpec :: "ChaincodeInvocationSpec \<Rightarrow> bytes"
  unmarshal_ChaincodeInvocationSpec :: "bytes \<Rightarrow> ChaincodeInvocationSpec option"
  marshal_ProposalResponsePayload :: "ProposalResponsePayload \<Rightarrow> bytes"
  unmarshal_ProposalResponsePayload :: "bytes \<Rightarrow> ProposalResponsePayload option"
  marshal_ChaincodeAction :: "ChaincodeAction \<Rightarrow> bytes"
  unmarshal_ChaincodeAction :: "bytes \<Rightarrow> ChaincodeAction option"
  marshal_TxReadWriteSet :: "TxReadWriteSet \<Rightarrow> bytes"
  unmarshal_TxReadWriteSet :: "bytes \<Rightarrow> TxReadWriteSet option"
  marshal_KVRWSet :: "KVRWSet \<Rightarrow> bytes"
  unmarshal_KVRWSet :: "bytes \<Rightarrow> KVRWSet option"
  marshal_TxIDIndexValue :: "TxIDIndexValue \<Rightarrow> bytes"
  unmarshal_TxIDIndexValue :: "bytes \<Rightarrow> TxIDIndexValue option"
  marshal_BootstrappingSnapshotInfo :: "BootstrappingSnapshotInfo \<Rightarrow> bytes"
  unmarshal_BootstrappingSnapshotInfo :: "bytes \<Rightarrow> BootstrappingSnapshotInfo option"
  unmarshal_ChannelHeader :: "bytes \<Rightarrow> ChannelHeader option"
  unmarshal_SignatureHeader :: "bytes \<Rightarrow> SignatureHeader option"
  unmarshal_Metadata :: "bytes \<Rightarrow> Metadata option"
  unmarshal_LastConfig :: "bytes \<Rightarrow> uint64 option"
  unmarshal_OrdererBlockMetadata :: "bytes \<Rightarrow> OrdererBlockMetadata option"

section \<open>The unmarshallers of protoutil\<close>

definition proto_Unmarshal :: "string \<Rightarrow> 'a option \<Rightarrow> 'a result" where
  "proto_Unmarshal msg m = (case m of Some a \<Rightarrow> Ok a | None \<Rightarrow> Err (ErrWrap msg (ErrMsg ''proto'')))"

definition UnmarshalEnvelope :: "codec \<Rightarrow> bytes \<Rightarrow> Envelope result" where
  "UnmarshalEnvelope C b = proto_Unmarshal ''error unmarshaling Envelope'' (unmarshal_Envelope C b)"

definition GetEnvelopeFromBlock :: "codec \<Rightarrow> bytes \<Rightarrow> Envelope result" where
  "GetEnvelopeFromBlock C data = proto_Unmarshal ''error unmarshaling Envelope'' (unmarshal_Envelope C data)"

definition UnmarshalPayload :: "codec \<Rightarrow> bytes \<Rightarrow> Payload result" where
  "UnmarshalPayload C b = proto_Unmarshal ''error unmarshaling Payload'' (unmarshal_Payload C b)"

definition UnmarshalChannelHeader :: "codec \<Rightarrow> bytes \<Rightarrow> ChannelHeader result" where
  "UnmarshalChannelHeader C b = proto_Unmarshal ''error unmarshaling ChannelHeader'' (unmarshal_ChannelHeader C b)"

definition UnmarshalSignatureHeader :: "codec \<Rightarrow> bytes \<Rightarrow> SignatureHeader result" where
  "UnmarshalSignatureHeader C b =
     proto_Unmarshal ''error unmarshaling SignatureHeader'' (unmarshal_SignatureHeader C b)"

definition UnmarshalTransaction :: "codec \<Rightarrow> bytes \<Rightarrow> Transaction result" where
  "UnmarshalTransaction C b = proto_Unmarshal ''error unmarshaling Transaction'' (unmarshal_Transaction C b)"

definition UnmarshalChaincodeActionPayload :: "codec \<Rightarrow> bytes \<Rightarrow> ChaincodeActionPayload result" where
  "UnmarshalChaincodeActionPayload C b =
     proto_Unmarshal ''error unmarshaling ChaincodeActionPayload'' (unmarshal_ChaincodeActionPayload C b)"

definition UnmarshalChaincodeProposalPayload :: "codec \<Rightarrow> bytes \<Rightarrow> ChaincodeProposalPayload result" where
  "UnmarshalChaincodeProposalPayload C b =
     proto_Unmarshal ''error unmarshaling ChaincodeProposalPayload'' (unmarshal_ChaincodeProposalPayload C b)"

definition UnmarshalChaincodeInvocationSpec :: "codec \<Rightarrow> bytes \<Rightarrow> ChaincodeInvocationSpec result" where
  "UnmarshalChaincodeInvocationSpec C b =
     proto_Unmarshal ''error unmarshaling ChaincodeInvocationSpec'' (unmarshal_ChaincodeInvocationSpec C b)"

definition UnmarshalProposalResponsePayload :: "codec \<Rightarrow> bytes \<Rightarrow> ProposalResponsePayload result" where
  "UnmarshalProposalResponsePayload C b =
     proto_Unmarshal ''error unmarshaling ProposalResponsePayload'' (unmarshal_ProposalResponsePayload C b)"

definition UnmarshalChaincodeAction :: "codec \<Rightarrow> bytes \<Rightarrow> ChaincodeAction result" where
  "UnmarshalChaincodeAction C b =
     proto_Unmarshal ''error unmarshaling ChaincodeAction'' (unmarshal_ChaincodeAction C b)"

subsection \<open>Transaction identifiers\<close>

definition hex_EncodeToString :: "bytes \<Rightarrow> string" where
  "hex_EncodeToString b = concat (map (\<lambda>x. [digit_char (unat x div 16), digit_char (unat x mod 16)]) b)"

definition ComputeTxID :: "bytes \<Rightarrow> bytes \<Rightarrow> string" where
  "ComputeTxID nonce creator = hex_EncodeToString (sha256 (nonce @ creator))"

definition CheckTxID :: "string \<Rightarrow> bytes \<Rightarrow> bytes \<Rightarrow> unit result" where
  "CheckTxID txid nonce creator =
     (let computedTxID = ComputeTxID nonce creator in
      if txid \<noteq> computedTxID then Err (ErrMsg ''invalid txid. got [%s], expected [%s]'') else Ok ())"

definition GetOrComputeTxIDFromEnvelope :: "codec \<Rightarrow> bytes \<Rightarrow> string result" where
  "GetOrComputeTxIDFromEnvelope C txEnvelopBytes =
     rbind (rwrap ''error getting txID from envelope'' (UnmarshalEnvelope C txEnvelopBytes)) (\<lambda>txEnvelope.
     rbind (rwrap ''error getting txID from payload'' (UnmarshalPayload C (env_Payload txEnvelope))) (\<lambda>txPayload.
     case pl_Header txPayload of
       None \<Rightarrow> Err (ErrMsg ''error getting txID from header: payload header is nil'')
     | Some hdr \<Rightarrow>
         rbind (rwrap ''error getting txID from channel header''
           (UnmarshalChannelHeader C (hdr_ChannelHeader hdr))) (\<lambda>chdr.
         if ch_TxId chdr \<noteq> '''' then Ok (ch_TxId chdr)
         else
           rbind (rwrap ''error getting nonce and creator for computing txID''
             (UnmarshalSignatureHeader C (hdr_SignatureHeader hdr))) (\<lambda>sighdr.
           Ok (ComputeTxID (sh_Nonce sighdr) (sh_Creator sighdr))))))"

section \<open>What the code relies on\<close>

text \<open>
  Unmarshalling what was marshalled gives the message back, and a message with a field that is not
  empty does not marshal to the empty string.
\<close>

definition codec_laws :: "codec \<Rightarrow> bool" where
  "codec_laws C \<longleftrightarrow>
     (\<forall>e. unmarshal_Envelope C (marshal_Envelope C e) = Some e) \<and>
     (\<forall>pl. unmarshal_Payload C (marshal_Payload C pl) = Some pl) \<and>
     (\<forall>tx. unmarshal_Transaction C (marshal_Transaction C tx) = Some tx) \<and>
     (\<forall>c. unmarshal_ChaincodeActionPayload C (marshal_ChaincodeActionPayload C c) = Some c) \<and>
     (\<forall>c. unmarshal_ChaincodeProposalPayload C (marshal_ChaincodeProposalPayload C c) = Some c) \<and>
     (\<forall>c. unmarshal_ChaincodeInvocationSpec C (marshal_ChaincodeInvocationSpec C c) = Some c) \<and>
     (\<forall>p. unmarshal_ProposalResponsePayload C (marshal_ProposalResponsePayload C p) = Some p) \<and>
     (\<forall>c. unmarshal_ChaincodeAction C (marshal_ChaincodeAction C c) = Some c) \<and>
     (\<forall>t. unmarshal_TxReadWriteSet C (marshal_TxReadWriteSet C t) = Some t) \<and>
     (\<forall>k. unmarshal_KVRWSet C (marshal_KVRWSet C k) = Some k) \<and>
     (\<forall>v. unmarshal_TxIDIndexValue C (marshal_TxIDIndexValue C v) = Some v) \<and>
     (\<forall>i. unmarshal_BootstrappingSnapshotInfo C (marshal_BootstrappingSnapshotInfo C i) = Some i) \<and>
     (\<forall>v. tv_BlkLocation v \<noteq> [] \<longrightarrow> marshal_TxIDIndexValue C v \<noteq> [])"

lemma codec_laws_simps:
  assumes "codec_laws C"
  shows "unmarshal_Envelope C (marshal_Envelope C e) = Some e"
    "unmarshal_Payload C (marshal_Payload C pl) = Some pl"
    "unmarshal_Transaction C (marshal_Transaction C tx) = Some tx"
    "unmarshal_ChaincodeActionPayload C (marshal_ChaincodeActionPayload C cap) = Some cap"
    "unmarshal_ChaincodeProposalPayload C (marshal_ChaincodeProposalPayload C cpp) = Some cpp"
    "unmarshal_ChaincodeInvocationSpec C (marshal_ChaincodeInvocationSpec C cis) = Some cis"
    "unmarshal_ProposalResponsePayload C (marshal_ProposalResponsePayload C prp) = Some prp"
    "unmarshal_ChaincodeAction C (marshal_ChaincodeAction C ca) = Some ca"
    "unmarshal_TxReadWriteSet C (marshal_TxReadWriteSet C trw) = Some trw"
    "unmarshal_KVRWSet C (marshal_KVRWSet C krw) = Some krw"
    "unmarshal_TxIDIndexValue C (marshal_TxIDIndexValue C v) = Some v"
    "unmarshal_BootstrappingSnapshotInfo C (marshal_BootstrappingSnapshotInfo C bsi) = Some bsi"
    "tv_BlkLocation v \<noteq> [] \<Longrightarrow> marshal_TxIDIndexValue C v \<noteq> []"
  using assms by (simp_all add: codec_laws_def)

lemma proto_Unmarshal_Some [simp]: "proto_Unmarshal msg (Some a) = Ok a"
  by (simp add: proto_Unmarshal_def)

lemma proto_Unmarshal_Ok: "proto_Unmarshal msg m = Ok a \<longleftrightarrow> m = Some a"
  by (simp add: proto_Unmarshal_def split: option.split)

text \<open>The empty string is the encoding of the message whose fields all have their zero value.\<close>

definition codec_zero :: "codec \<Rightarrow> bool" where
  "codec_zero C \<longleftrightarrow>
     unmarshal_Envelope C [] = Some \<lparr>env_Payload = [], env_Signature = []\<rparr> \<and>
     unmarshal_Payload C [] = Some \<lparr>pl_Header = None, pl_Data = []\<rparr> \<and>
     unmarshal_Transaction C [] = Some \<lparr>tx_Actions = []\<rparr>"

section \<open>A reference codec\<close>

text \<open>
  A concrete instance of the parameter: each message as a list of byte strings, in which every byte
  is preceded by 1 and every string ends with 0.
\<close>

definition pack1 :: "bytes \<Rightarrow> bytes" where
  "pack1 b = concat (map (\<lambda>x. [1, x]) b) @ [0]"

definition pack :: "bytes list \<Rightarrow> bytes" where
  "pack bs = concat (map pack1 bs)"

fun unpack1 :: "bytes \<Rightarrow> (bytes \<times> bytes) option" where
  "unpack1 [] = None"
| "unpack1 (t # xs) =
     (if t = 0 then Some ([], xs)
      else case xs of [] \<Rightarrow> None
        | x # ys \<Rightarrow> (case unpack1 ys of None \<Rightarrow> None | Some (b, rest) \<Rightarrow> Some (x # b, rest)))"

lemma unpack1_shorter: "unpack1 xs = Some (b, rest) \<Longrightarrow> length rest < length xs"
  by (induction xs arbitrary: b rest rule: unpack1.induct)
     (auto split: if_splits list.splits option.splits simp: less_Suc_eq)

function unpack :: "bytes \<Rightarrow> bytes list option" where
  "unpack xs =
     (if xs = [] then Some []
      else case unpack1 xs of None \<Rightarrow> None
        | Some (b, rest) \<Rightarrow> (case unpack rest of None \<Rightarrow> None | Some bs \<Rightarrow> Some (b # bs)))"
  by pat_completeness auto
termination by (relation "measure length") (auto simp: unpack1_shorter)

declare unpack.simps [simp del]

lemma unpack1_pack1 [simp]: "unpack1 (pack1 b @ rest) = Some (b, rest)"
  by (induction b) (simp_all add: pack1_def)

lemma pack1_not_Nil [simp]: "pack1 b \<noteq> []"
  by (simp add: pack1_def)

lemma unpack_pack [simp]: "unpack (pack bs) = Some bs"
  by (induction bs) (simp_all add: pack_def unpack.simps)

definition pack_option :: "('a \<Rightarrow> bytes) \<Rightarrow> 'a option \<Rightarrow> bytes" where
  "pack_option f m = (case m of None \<Rightarrow> [] | Some a \<Rightarrow> 1 # f a)"

definition unpack_option :: "(bytes \<Rightarrow> 'a option) \<Rightarrow> bytes \<Rightarrow> 'a option option" where
  "unpack_option f b = (case b of [] \<Rightarrow> Some None | x # xs \<Rightarrow> map_option Some (f xs))"

lemma unpack_option_pack [simp]: "(\<And>a. f (g a) = Some a) \<Longrightarrow> unpack_option f (pack_option g m) = Some m"
  by (cases m) (simp_all add: unpack_option_def pack_option_def)

definition unpack_list :: "(bytes \<Rightarrow> 'a option) \<Rightarrow> bytes \<Rightarrow> 'a list option" where
  "unpack_list f b = (case unpack b of None \<Rightarrow> None | Some bs \<Rightarrow> those (map f bs))"

lemma unpack_list_pack [simp]:
  assumes "\<And>a. f (g a) = Some a"
  shows "unpack_list f (pack (map g as)) = Some as"
proof -
  have "those (map (f \<circ> g) as) = Some as" by (induction as) (simp_all add: assms)
  then show ?thesis by (simp add: unpack_list_def)
qed

lemma pack_not_Nil [simp]: "pack (b # bs) \<noteq> []"
  by (simp add: pack_def)

definition unpack2 :: "(bytes \<Rightarrow> bytes \<Rightarrow> 'a option) \<Rightarrow> bytes \<Rightarrow> 'a option" where
  "unpack2 f b = (case (if b = [] then Some [[], []] else unpack b) of Some [x, y] \<Rightarrow> f x y | _ \<Rightarrow> None)"

definition unpack3 :: "(bytes \<Rightarrow> bytes \<Rightarrow> bytes \<Rightarrow> 'a option) \<Rightarrow> bytes \<Rightarrow> 'a option" where
  "unpack3 f b = (case (if b = [] then Some [[], [], []] else unpack b) of Some [x, y, z] \<Rightarrow> f x y z | _ \<Rightarrow> None)"

lemma unpack23 [simp]:
  "unpack2 f (pack [x, y]) = f x y" "unpack3 h (pack [x, y, z]) = h x y z"
  by (simp_all add: unpack2_def unpack3_def)

definition ref_Header :: "Header \<Rightarrow> bytes" where
  "ref_Header h = pack [hdr_ChannelHeader h, hdr_SignatureHeader h]"

definition ref_ChaincodeInput :: "ChaincodeInput \<Rightarrow> bytes" where
  "ref_ChaincodeInput i = pack [pack (ci_Args i), ci_rest i]"

definition ref_ChaincodeSpec :: "ChaincodeSpec \<Rightarrow> bytes" where
  "ref_ChaincodeSpec s = pack [pack_option ref_ChaincodeInput (cs_Input s), cs_rest s]"

definition ref_unHeader :: "bytes \<Rightarrow> Header option" where
  "ref_unHeader = unpack2 (\<lambda>c s. Some \<lparr>hdr_ChannelHeader = c, hdr_SignatureHeader = s\<rparr>)"

definition ref_unChaincodeInput :: "bytes \<Rightarrow> ChaincodeInput option" where
  "ref_unChaincodeInput = unpack2 (\<lambda>a r. map_option (\<lambda>as. \<lparr>ci_Args = as, ci_rest = r\<rparr>) (unpack a))"

definition ref_unChaincodeSpec :: "bytes \<Rightarrow> ChaincodeSpec option" where
  "ref_unChaincodeSpec = unpack2 (\<lambda>i r. map_option (\<lambda>i. \<lparr>cs_Input = i, cs_rest = r\<rparr>)
     (unpack_option ref_unChaincodeInput i))"

lemma ref_round_trips [simp]:
  "ref_unHeader (ref_Header h) = Some h"
  "ref_unChaincodeInput (ref_ChaincodeInput i) = Some i"
  "ref_unChaincodeSpec (ref_ChaincodeSpec s) = Some s"
  by (simp_all add: ref_unHeader_def ref_Header_def ref_unChaincodeInput_def ref_ChaincodeInput_def
      ref_unChaincodeSpec_def ref_ChaincodeSpec_def)

definition ref_int :: "string \<Rightarrow> int" where
  "ref_int s = (if hd s = CHR ''-'' then - int (read_nat 10 (tl s)) else int (read_nat 10 s))"

lemma ref_int_Itoa [simp]: "ref_int (Itoa i) = i"
  by (simp add: ref_int_def Itoa_def dec.hd_show_nat)

definition ref_codec :: codec where
  "ref_codec = \<lparr>
     marshal_Envelope = (\<lambda>e. pack [env_Payload e, env_Signature e]),
     unmarshal_Envelope = unpack2 (\<lambda>p s. Some \<lparr>env_Payload = p, env_Signature = s\<rparr>),
     marshal_Payload = (\<lambda>p. pack [pack_option ref_Header (pl_Header p), pl_Data p]),
     unmarshal_Payload = unpack2 (\<lambda>h d. map_option (\<lambda>h. \<lparr>pl_Header = h, pl_Data = d\<rparr>)
       (unpack_option ref_unHeader h)),
     marshal_Transaction = (\<lambda>t. pack (map (\<lambda>a. pack [ta_Header a, ta_Payload a]) (tx_Actions t))),
     unmarshal_Transaction = (\<lambda>b. map_option (\<lambda>as. \<lparr>tx_Actions = as\<rparr>)
       (unpack_list (unpack2 (\<lambda>h p. Some \<lparr>ta_Header = h, ta_Payload = p\<rparr>)) b)),
     marshal_ChaincodeActionPayload = (\<lambda>c. pack [cap_ChaincodeProposalPayload c,
       pack_option (\<lambda>a. pack [cea_ProposalResponsePayload a, cea_rest a]) (cap_Action c)]),
     unmarshal_ChaincodeActionPayload = unpack2 (\<lambda>p a.
       map_option (\<lambda>a. \<lparr>cap_ChaincodeProposalPayload = p, cap_Action = a\<rparr>)
         (unpack_option (unpack2 (\<lambda>p r. Some \<lparr>cea_ProposalResponsePayload = p, cea_rest = r\<rparr>)) a)),
     marshal_ChaincodeProposalPayload = (\<lambda>c. pack [cpp_Input c, cpp_rest c]),
     unmarshal_ChaincodeProposalPayload = unpack2 (\<lambda>i r. Some \<lparr>cpp_Input = i, cpp_rest = r\<rparr>),
     marshal_ChaincodeInvocationSpec = (\<lambda>c. pack_option ref_ChaincodeSpec (cis_ChaincodeSpec c)),
     unmarshal_ChaincodeInvocationSpec = (\<lambda>b. map_option (\<lambda>s. \<lparr>cis_ChaincodeSpec = s\<rparr>)
       (unpack_option ref_unChaincodeSpec b)),
     marshal_ProposalResponsePayload = (\<lambda>p. pack [prp_ProposalHash p, prp_Extension p]),
     unmarshal_ProposalResponsePayload = unpack2 (\<lambda>h e. Some \<lparr>prp_ProposalHash = h, prp_Extension = e\<rparr>),
     marshal_ChaincodeAction = (\<lambda>c. pack [ca_Results c, ca_rest c]),
     unmarshal_ChaincodeAction = unpack2 (\<lambda>x r. Some \<lparr>ca_Results = x, ca_rest = r\<rparr>),
     marshal_TxReadWriteSet = (\<lambda>t. pack [pack (map (\<lambda>n. pack [to_bytes (ns_Namespace n), ns_Rwset n, ns_rest n])
       (trw_NsRwset t)), trw_rest t]),
     unmarshal_TxReadWriteSet = unpack2 (\<lambda>n r. map_option (\<lambda>ns. \<lparr>trw_NsRwset = ns, trw_rest = r\<rparr>)
       (unpack_list (unpack3 (\<lambda>s w r. Some \<lparr>ns_Namespace = to_string s, ns_Rwset = w, ns_rest = r\<rparr>)) n)),
     marshal_KVRWSet = (\<lambda>k. pack [pack (map (\<lambda>w. pack [to_bytes (kw_Key w), kw_Value w, kw_rest w])
       (krw_Writes k)), krw_rest k]),
     unmarshal_KVRWSet = unpack2 (\<lambda>n r. map_option (\<lambda>ws. \<lparr>krw_Writes = ws, krw_rest = r\<rparr>)
       (unpack_list (unpack3 (\<lambda>s v r. Some \<lparr>kw_Key = to_string s, kw_Value = v, kw_rest = r\<rparr>)) n)),
     marshal_TxIDIndexValue = (\<lambda>v. pack [tv_BlkLocation v, tv_TxLocation v, to_bytes (Itoa (tv_TxValidationCode v))]),
     unmarshal_TxIDIndexValue = unpack3 (\<lambda>b t c. Some \<lparr>tv_BlkLocation = b, tv_TxLocation = t,
       tv_TxValidationCode = ref_int (to_string c)\<rparr>),
     marshal_BootstrappingSnapshotInfo = (\<lambda>i. pack [to_bytes (FormatUint (bsi_LastBlockNum i)), bsi_LastBlockHash i,
       bsi_PreviousBlockHash i]),
     unmarshal_BootstrappingSnapshotInfo = unpack3 (\<lambda>n h p.
       (case ParseUint (to_string n) of
          Ok num \<Rightarrow> Some \<lparr>bsi_LastBlockNum = num, bsi_LastBlockHash = h, bsi_PreviousBlockHash = p\<rparr>
        | _ \<Rightarrow> None)),
     unmarshal_ChannelHeader = unpack3 (\<lambda>c t r. Some \<lparr>ch_Type = 3, ch_ChannelId = to_string c,
       ch_TxId = to_string t, ch_rest = r\<rparr>),
     unmarshal_SignatureHeader = unpack2 (\<lambda>c n. Some \<lparr>sh_Creator = c, sh_Nonce = n\<rparr>),
     unmarshal_Metadata = unpack2 (\<lambda>v r. Some \<lparr>md_Value = v, md_rest = r\<rparr>),
     unmarshal_LastConfig = (\<lambda>b. if b = [] then Some 0 else Some (ucast (hd b))),
     unmarshal_OrdererBlockMetadata = unpack2 (\<lambda>l c. Some
       \<lparr>obm_LastConfig = (if l = [] then None else Some (ucast (hd l))), obm_ConsenterMetadata = c\<rparr>)\<rparr>"

lemma codec_laws_ref: "codec_laws ref_codec"
  by (simp add: codec_laws_def ref_codec_def)

lemma codec_zero_ref: "codec_zero ref_codec"
  by (simp add: codec_zero_def ref_codec_def unpack2_def unpack_option_def unpack_list_def unpack.simps)

end
