(* ===== verification/Varint.thy ===== *)
theory Varint
  imports GoStd
begin

text \<open>
  Variable-length integers.  The first half is the part of the protobuf runtime that the
  block store calls (\<open>vendor/github.com/golang/protobuf/proto/encode.go\<close> and \<open>decode.go\<close>),
  with its optimised decoder next to the reference loop; the second is the position-keeping
  wrapper of \<open>common/ledger/blkstorage/protobuf_util.go\<close> and the order-preserving encoding
  of \<open>common/ledger/util/util.go\<close> that index keys are made of.
\<close>

unbundle bit_operations_syntax

section \<open>Definitions\<close>

subsection \<open>proto.EncodeVarint, proto.DecodeVarint, proto.SizeVarint\<close>

function EncodeVarint :: "uint64 \<Rightarrow> bytes" where
  "EncodeVarint x =
     (if x > 127 then (0x80 OR ucast (x AND 0x7F)) # EncodeVarint (drop_bit 7 x)
      else [ucast x])"
  by pat_completeness auto
termination
proof (relation "measure unat")
  fix x :: uint64
  assume "127 < x"
  then have "127 < unat x" by (simp add: word_less_nat_alt)
  then show "(drop_bit 7 x, x) \<in> measure unat"
    by (simp add: drop_bit_eq_div unat_div)
qed simp

declare EncodeVarint.simps [simp del]

fun DecodeVarint_loop :: "bytes \<Rightarrow> nat \<Rightarrow> uint64 \<Rightarrow> nat \<Rightarrow> uint64 \<times> nat" where
  "DecodeVarint_loop [] shift x n = (0, 0)"
| "DecodeVarint_loop (b # bs) shift x n =
     (if shift < 64 then
        (let b' = ucast b; x' = x OR push_bit shift (b' AND 0x7F)
         in if b' AND 0x80 = 0 then (x', n + 1) else DecodeVarint_loop bs (shift + 7) x' (n + 1))
      else (0, 0))"

definition DecodeVarint :: "bytes \<Rightarrow> uint64 \<times> nat" where
  "DecodeVarint buf = DecodeVarint_loop buf 0 0 0"

definition SizeVarint :: "uint64 \<Rightarrow> nat" where
  "SizeVarint x =
     (if x < 2 ^ 7 then 1 else if x < 2 ^ 14 then 2 else if x < 2 ^ 21 then 3
      else if x < 2 ^ 28 then 4 else if x < 2 ^ 35 then 5 else if x < 2 ^ 42 then 6
      else if x < 2 ^ 49 then 7 else if x < 2 ^ 56 then 8 else if x < 2 ^ 63 then 9 else 10)"

subsection \<open>proto.Buffer\<close>

record proto_buffer =
  pbuf :: bytes
  pindex :: nat

fun decodeVarintSlow_loop :: "bytes \<Rightarrow> nat \<Rightarrow> uint64 \<Rightarrow> nat \<Rightarrow> (uint64 \<times> nat) result" where
  "decodeVarintSlow_loop bs shift x i =
     (if shift < 64 then
        (case bs of
           [] \<Rightarrow> Err ErrUnexpectedEOF
         | b # bs' \<Rightarrow>
             (let x' = x OR push_bit shift (ucast b AND 0x7F)
              in if b < 0x80 then Ok (x', i + 1) else decodeVarintSlow_loop bs' (shift + 7) x' (i + 1)))
      else Err ErrOverflow)"

declare decodeVarintSlow_loop.simps [simp del]

definition decodeVarintSlow :: "proto_buffer \<Rightarrow> (uint64 \<times> proto_buffer) result" where
  "decodeVarintSlow p =
     rbind (decodeVarintSlow_loop (drop (pindex p) (pbuf p)) 0 0 (pindex p))
       (\<lambda>(x, i). Ok (x, p\<lparr>pindex := i\<rparr>))"

text \<open>
  The unrolled decoder reads ten bytes without bounds checks; \<open>shifts\<close> are the shift amounts
  still to come.  Instead of masking, it adds the whole byte and takes the continuation bit
  back off when it goes on.
\<close>

fun decodeVarintFast :: "bytes \<Rightarrow> nat list \<Rightarrow> uint64 \<Rightarrow> nat \<Rightarrow> (uint64 \<times> nat) result" where
  "decodeVarintFast bs [] x i = Err ErrOverflow"
| "decodeVarintFast [] (shift # shifts) x i = Panic ''index out of range''"
| "decodeVarintFast (c # bs) (shift # shifts) x i =
     (let b = ucast c; x' = x + push_bit shift b
      in if b AND 0x80 = 0 then Ok (x', i + 1)
         else decodeVarintFast bs shifts (x' - push_bit shift 0x80) (i + 1))"

definition Buffer_DecodeVarint :: "proto_buffer \<Rightarrow> (uint64 \<times> proto_buffer) result" where
  "Buffer_DecodeVarint p =
     (let i = pindex p; buf = pbuf p in
      if i \<ge> length buf then Err ErrUnexpectedEOF
      else if buf ! i < 0x80 then Ok (ucast (buf ! i), p\<lparr>pindex := i + 1\<rparr>)
      else if length buf - i < 10 then decodeVarintSlow p
      else rbind (decodeVarintFast (drop (i + 1) buf) [7, 14, 21, 28, 35, 42, 49, 56, 63]
                    (ucast (buf ! i) - 0x80) (i + 1))
             (\<lambda>(x, j). Ok (x, p\<lparr>pindex := j\<rparr>)))"

definition Buffer_EncodeVarint :: "uint64 \<Rightarrow> bytes \<Rightarrow> bytes" where
  "Buffer_EncodeVarint x buf = buf @ EncodeVarint x"

definition Buffer_EncodeRawBytes :: "bytes \<Rightarrow> bytes \<Rightarrow> bytes" where
  "Buffer_EncodeRawBytes b buf = Buffer_EncodeVarint (word_of_nat (length b)) buf @ b"

text \<open>\<open>int(n)\<close> of a \<open>uint64\<close> may be negative, and \<open>p.index + nb\<close> may wrap past the largest \<open>int\<close>.\<close>

definition Buffer_DecodeRawBytes :: "proto_buffer \<Rightarrow> (bytes \<times> proto_buffer) result" where
  "Buffer_DecodeRawBytes p =
     rbind (Buffer_DecodeVarint p) (\<lambda>(n, p').
       (let nb = sint n in
        if nb < 0 then Err (ErrMsg ''proto: bad byte length'')
        else
          (let end = sint (word_of_nat (pindex p') + n :: uint64) in
           if end < int (pindex p') \<or> end > int (length (pbuf p')) then Err ErrUnexpectedEOF
           else Ok (take (nat nb) (drop (pindex p') (pbuf p')),
                    p'\<lparr>pindex := pindex p' + nat nb\<rparr>))))"

section \<open>Varint round trip\<close>

lemma low7_mask: "(0x7F :: 'a::len word) = mask 7"
  by (simp add: mask_eq_exp_minus_1)

lemma bit_0x80: "bit (0x80 :: 'a::len word) n \<longleftrightarrow> n = 7 \<and> n < LENGTH('a)"
proof -
  have "(0x80 :: 'a word) = push_bit 7 1" by (simp add: push_bit_eq_mult)
  then show ?thesis by (auto simp only: bit_push_bit_iff bit_1_iff possible_bit_word)
     
qed

lemma cont_low7: "ucast (0x80 OR ucast (x AND 0x7F) :: byte) AND 0x7F = (x AND 0x7F :: uint64)"
  unfolding low7_mask
  by (rule bit_word_eqI) (auto simp: bit_simps bit_0x80 simp del: bit_numeral_word_iff)

lemma cont_high: "ucast (0x80 OR y :: byte) AND 0x80 \<noteq> (0 :: uint64)"
proof -
  have "bit (ucast (0x80 OR y :: byte) AND (0x80 :: uint64)) 7"
    by (simp add: bit_simps bit_0x80 del: bit_numeral_word_iff)
  then show ?thesis by auto
qed

lemma small_ucast: "x \<le> 127 \<Longrightarrow> ucast (ucast x :: byte) = (x :: uint64)"
  by (simp add: word_unat_eq_iff unsigned_ucast_eq unsigned_take_bit_eq take_bit_eq_mod word_le_nat_alt unat_mod)

lemma small_low7: "x \<le> 127 \<Longrightarrow> x AND 0x7F = (x :: uint64)"
  by (simp add: low7_mask flip: take_bit_eq_mask)
     (simp add: word_unat_eq_iff unsigned_take_bit_eq take_bit_eq_mod word_le_nat_alt unat_mod mask_eq_exp_minus_1)

lemma small_high: "x \<le> 127 \<Longrightarrow> x AND 0x80 = (0 :: uint64)"
proof -
  assume "x \<le> 127"
  then have "x AND 0x80 = (x AND 0x7F) AND 0x80" by (simp only: small_low7)
  also have "\<dots> = x AND (0x7F AND 0x80)" by (simp only: and.assoc)
  finally show ?thesis by simp
qed

lemma low7_rest:
  "push_bit s (x AND 0x7F) OR push_bit (s + 7) (drop_bit 7 x) = (push_bit s x :: uint64)"
  unfolding low7_mask
proof (rule bit_word_eqI)
  fix n assume "n < LENGTH(64)"
  show "bit (push_bit s (x AND mask 7) OR push_bit (s + 7) (drop_bit 7 x)) n = bit (push_bit s x) n"
    by (cases "n < s + 7") (auto simp: bit_simps)
qed


lemma EncodeVarint_small: "x \<le> 127 \<Longrightarrow> EncodeVarint x = [ucast x]"
  by (subst EncodeVarint.simps) (simp add: leD)

lemma EncodeVarint_big:
  "127 < x \<Longrightarrow> EncodeVarint x = (0x80 OR ucast (x AND 0x7F)) # EncodeVarint (drop_bit 7 x)"
  by (subst EncodeVarint.simps) simp

lemma EncodeVarint_not_Nil [simp]: "EncodeVarint x \<noteq> []"
  by (subst EncodeVarint.simps) simp

lemma drop_bit_bound:
  "unat (x :: uint64) < 2 ^ (Suc k + 6) \<Longrightarrow> unat (drop_bit 7 x) < 2 ^ k"
  by (simp add: drop_bit_eq_div unat_div less_mult_imp_div_less power_add mult.commute)

lemma shift_room:
  assumes "127 < (x :: uint64)" "unat x < 2 ^ (64 - s)"
  shows "s + 7 < 64" and "unat (drop_bit 7 x) < 2 ^ (64 - (s + 7))"
proof -
  have "127 < unat x" using assms(1) by (simp add: word_less_nat_alt)
  show s: "s + 7 < 64"
  proof (rule ccontr)
    assume "\<not> s + 7 < 64"
    then have "(2::nat) ^ (64 - s) \<le> 2 ^ 7" by (intro power_increasing) auto
    with assms(2) \<open>127 < unat x\<close> show False by simp
  qed
  then have "64 - s = Suc (64 - (s + 7)) + 6" by arith
  with assms(2) have "unat x < 2 ^ (Suc (64 - (s + 7)) + 6)" by metis
  then show "unat (drop_bit 7 x) < 2 ^ (64 - (s + 7))" by (rule drop_bit_bound)
qed

lemma DecodeVarint_loop_EncodeVarint:
  assumes "unat x < 2 ^ (64 - s)" "s < 64"
  shows "DecodeVarint_loop (EncodeVarint x @ rest) s acc n =
     (acc OR push_bit s x, n + length (EncodeVarint x))"
  using assms
proof (induction x arbitrary: s acc n rule: EncodeVarint.induct)
  case (1 x)
  show ?case
  proof (cases "127 < x")
    case True
    note room = shift_room [OF True "1.prems"(1)]
    show ?thesis
      using "1.IH" [OF True room(2,1)] "1.prems"(2)
      by (simp add: EncodeVarint_big [OF True] Let_def cont_low7 cont_high or.assoc low7_rest
          del: push_bit_and)
  next
    case False
    with "1.prems"(2) show ?thesis
      by (simp add: EncodeVarint_small small_ucast small_low7 small_high Let_def del: push_bit_and)
  qed
qed

theorem DecodeVarint_EncodeVarint:
  "DecodeVarint (EncodeVarint x @ rest) = (x, length (EncodeVarint x))"
  using DecodeVarint_loop_EncodeVarint [of x 0 rest 0 0] unsigned_less [of x, where ?'a = nat]
  by (simp add: DecodeVarint_def)

lemma byte_high_iff: "b < 0x80 \<longleftrightarrow> ucast (b :: byte) AND 0x80 = (0 :: uint64)"
proof
  assume "b < 0x80"
  then have "(ucast b :: uint64) \<le> 127"
    by (simp add: word_le_nat_alt word_less_nat_alt unsigned_ucast_eq take_bit_eq_mod)
  then show "ucast b AND 0x80 = (0 :: uint64)" by (rule small_high)
next
  assume a: "ucast b AND 0x80 = (0 :: uint64)"
  have "\<not> bit b 7"
  proof
    assume "bit b 7"
    then have "bit (ucast b AND 0x80 :: uint64) 7" by (simp add: bit_simps)
    with a show False by simp
  qed
  then have "b = take_bit 7 b"
    by (intro bit_word_eqI) (auto simp: bit_simps less_Suc_eq numeral_eq_Suc)
  then have "unat b = unat b mod 2 ^ 7"
    by (metis take_bit_eq_mod unsigned_take_bit_eq)
  then show "b < 0x80" by (simp add: word_less_nat_alt) 
qed

section \<open>The unrolled decoder\<close>

lemma or_shift_add:
  assumes "take_bit s x = x"
  shows "x OR push_bit s y = x + push_bit s (y :: uint64)"
proof -
  have "\<not> (bit x n \<and> bit (push_bit s y) n)" for n
  proof
    assume "bit x n \<and> bit (push_bit s y) n"
    then have "bit (take_bit s x) n" "s \<le> n" using assms by (auto simp: bit_simps)
    then show False by (simp add: bit_simps)
  qed
  then show ?thesis by (simp add: bit_simps disjunctive_add_eq_or bit_eq_iff)
qed

lemma byte_split_high:
  assumes "ucast (c :: byte) AND 0x80 \<noteq> (0 :: uint64)"
  shows "ucast c AND 0x7F = (ucast c - 0x80 :: uint64)"
proof -
  have h: "bit c 7"
  proof (rule ccontr)
    assume "\<not> bit c 7"
    then have "ucast c AND 0x80 = (0 :: uint64)"
      by (intro bit_word_eqI) (auto simp: bit_simps bit_0x80 simp del: bit_numeral_word_iff)
    with assms show False ..
  qed
  have "ucast c AND 0x7F = ucast c AND NOT (0x80 :: uint64)"
    unfolding low7_mask
  proof (rule bit_word_eqI)
    fix n
    assume "n < LENGTH(64)"
    have "bit c n \<Longrightarrow> n < 8" by (drule bit_imp_le_length) simp
    then show "bit (ucast c AND mask 7 :: uint64) n = bit (ucast c AND NOT (0x80 :: uint64)) n"
      by (auto simp: bit_simps bit_0x80 simp del: bit_numeral_word_iff)
  qed
  also have "\<dots> = ucast c - 0x80"
  proof (rule disjunctive_diff_eq_and_not [symmetric])
    show "NOT (ucast c) AND (0x80 :: uint64) = 0"
      using h by (intro bit_word_eqI) (auto simp: bit_simps bit_0x80 simp del: bit_numeral_word_iff)
  qed
  finally show ?thesis .
qed

lemma take_bit_or_low7:
  assumes "take_bit s x = x"
  shows "take_bit (s + 7) (x OR push_bit s (y AND 0x7F)) = x OR push_bit s (y AND (0x7F :: uint64))"
proof (rule bit_word_eqI)
  fix n
  have "bit x n \<Longrightarrow> n < s" using assms by (metis bit_take_bit_iff)
  then show "bit (take_bit (s + 7) (x OR push_bit s (y AND 0x7F))) n = bit (x OR push_bit s (y AND 0x7F)) n"
    unfolding low7_mask by (auto simp: bit_simps)
qed

lemma decodeVarintFast_slow:
  assumes "k \<le> 10" "10 \<le> k + length bs" "take_bit (7 * k) x = x"
  shows "decodeVarintFast bs (map ((*) 7) [k..<10]) x i = decodeVarintSlow_loop bs (7 * k) x i"
  using assms
proof (induction "10 - k" arbitrary: k bs x i)
  case 0
  then show ?case by (simp add: decodeVarintSlow_loop.simps)
next
  case (Suc m)
  then have k: "k < 10" by simp
  with Suc.prems obtain c bs' where bs: "bs = c # bs'" by (cases bs) auto
  have upt: "map ((*) 7) [k..<10] = 7 * k # map ((*) 7) [Suc k..<10]"
    using k by (simp add: upt_rec)
  let ?b = "ucast c :: uint64"
  show ?case
  proof (cases "?b AND 0x80 = 0")
    case True
    then have "?b AND 0x7F = ?b"
      using byte_high_iff [of c] by (intro small_low7)
        (simp add: word_le_nat_alt word_less_nat_alt unsigned_ucast_eq take_bit_eq_mod)
    with True k show ?thesis
      by (simp add: bs upt decodeVarintSlow_loop.simps [of "c # bs'"] Let_def byte_high_iff
          or_shift_add [OF Suc.prems(3)] del: push_bit_and)
  next
    case False
    have e: "x + push_bit (7 * k) ?b - push_bit (7 * k) 0x80 = x OR push_bit (7 * k) (?b AND 0x7F)"
      by (simp only: or_shift_add [OF Suc.prems(3)] byte_split_high [OF False])
         (simp add: push_bit_eq_mult algebra_simps)
    have "take_bit (7 * Suc k) (x OR push_bit (7 * k) (?b AND 0x7F)) = x OR push_bit (7 * k) (?b AND 0x7F)"
      using take_bit_or_low7 [OF Suc.prems(3), of ?b] by (simp add: add.commute)
    then have "decodeVarintFast bs' (map ((*) 7) [Suc k..<10]) (x OR push_bit (7 * k) (?b AND 0x7F)) (i + 1) =
        decodeVarintSlow_loop bs' (7 * Suc k) (x OR push_bit (7 * k) (?b AND 0x7F)) (i + 1)"
      using Suc.hyps Suc.prems k bs by (intro Suc.hyps(1)) auto
    with False k show ?thesis
      by (simp only: bs upt decodeVarintFast.simps Let_def e if_False)
         (simp add: decodeVarintSlow_loop.simps [of "c # bs'"] Let_def byte_high_iff add.commute del: push_bit_and)
  qed
qed

text \<open>The unrolled decoder and the reference loop agree on every buffer.\<close>

theorem Buffer_DecodeVarint_slow: "Buffer_DecodeVarint p = decodeVarintSlow p"
proof -
  consider (eof) "length (pbuf p) \<le> pindex p"
    | (short) "pindex p < length (pbuf p)" "pbuf p ! pindex p < 0x80"
    | (slow) "pindex p < length (pbuf p)" "\<not> pbuf p ! pindex p < 0x80" "length (pbuf p) - pindex p < 10"
    | (fast) "pindex p < length (pbuf p)" "\<not> pbuf p ! pindex p < 0x80" "10 \<le> length (pbuf p) - pindex p"
    by linarith
  then show ?thesis
  proof cases
    case eof
    then show ?thesis
      by (simp add: Buffer_DecodeVarint_def decodeVarintSlow_def decodeVarintSlow_loop.simps)
  next
    case short
    then have "(ucast (pbuf p ! pindex p) :: uint64) AND 0x7F = ucast (pbuf p ! pindex p)"
      by (intro small_low7) (simp add: word_le_nat_alt word_less_nat_alt unsigned_ucast_eq take_bit_eq_mod)
    with short show ?thesis
      by (simp add: Buffer_DecodeVarint_def decodeVarintSlow_def decodeVarintSlow_loop.simps
          Cons_nth_drop_Suc [symmetric] Let_def)
  next
    case slow
    then show ?thesis by (simp add: Buffer_DecodeVarint_def Let_def)
  next
    case fast
    let ?c = "pbuf p ! pindex p"
    have hi: "ucast ?c AND 0x80 \<noteq> (0 :: uint64)" using fast(2) by (simp add: byte_high_iff)
    have sh: "[7, 14, 21, 28, 35, 42, 49, 56, 63] = map ((*) 7) [1..<10]" by (simp add: upt_rec)
    have tb: "take_bit (7 * 1) (ucast ?c AND 0x7F :: uint64) = ucast ?c AND 0x7F"
      unfolding low7_mask by (rule bit_word_eqI) (auto simp: bit_simps)
    have "decodeVarintFast (drop (pindex p + 1) (pbuf p)) [7, 14, 21, 28, 35, 42, 49, 56, 63]
        (ucast ?c - 0x80) (pindex p + 1) =
      decodeVarintSlow_loop (drop (pindex p + 1) (pbuf p)) (7 * 1) (ucast ?c AND 0x7F) (pindex p + 1)"
      unfolding sh byte_split_high [OF hi, symmetric]
      using fast(3) by (intro decodeVarintFast_slow tb) auto
    with fast show ?thesis
      by (simp add: Buffer_DecodeVarint_def decodeVarintSlow_def Let_def Cons_nth_drop_Suc [symmetric]
          decodeVarintSlow_loop.simps [of "?c # _"])
  qed
qed

section \<open>Sizes\<close>

lemma SizeVarint_big: "127 < x \<Longrightarrow> SizeVarint x = Suc (SizeVarint (drop_bit 7 x))"
  using unsigned_less [of x, where ?'a = nat]
  by (simp add: SizeVarint_def drop_bit_eq_div word_less_nat_alt unat_div div_less_iff_less_mult)

lemma length_EncodeVarint: "length (EncodeVarint x) = SizeVarint x"
proof (induction x rule: EncodeVarint.induct)
  case (1 x)
  show ?case
  proof (cases "127 < x")
    case True
    with 1 show ?thesis by (simp add: EncodeVarint_big SizeVarint_big)
  next
    case False
    then have "x < 128" by (simp add: word_less_nat_alt)
    with False show ?thesis by (simp add: EncodeVarint_small SizeVarint_def)
  qed
qed

lemma SizeVarint_bounds: "1 \<le> SizeVarint x" "SizeVarint x \<le> 10"
  by (simp_all add: SizeVarint_def)

section \<open>Reading an encoded prefix\<close>

lemma decodeVarintSlow_EncodeVarint:
  assumes "unat x < 2 ^ (64 - s)" "s < 64"
  shows "decodeVarintSlow_loop (EncodeVarint x @ rest) s acc i =
     Ok (acc OR push_bit s x, i + length (EncodeVarint x))"
  using assms
proof (induction x arbitrary: s acc i rule: EncodeVarint.induct)
  case (1 x)
  show ?case
  proof (cases "127 < x")
    case True
    note room = shift_room [OF True "1.prems"(1)]
    show ?thesis
      using "1.IH" [OF True room(2,1)] "1.prems"(2)
      by (subst decodeVarintSlow_loop.simps)
        (simp add: EncodeVarint_big [OF True] Let_def cont_low7 cont_high byte_high_iff or.assoc low7_rest
          del: push_bit_and)
  next
    case False
    with "1.prems"(2) show ?thesis
      by (subst decodeVarintSlow_loop.simps)
        (simp add: EncodeVarint_small small_ucast small_low7 small_high byte_high_iff Let_def del: push_bit_and)
  qed
qed

definition proto_at :: "bytes \<Rightarrow> bytes \<Rightarrow> proto_buffer" where
  "proto_at pre rest = \<lparr>pbuf = pre @ rest, pindex = length pre\<rparr>"

lemma Buffer_DecodeVarint_EncodeVarint [codec_simps]:
  "Buffer_DecodeVarint (proto_at pre (EncodeVarint x @ rest)) = Ok (x, proto_at (pre @ EncodeVarint x) rest)"
  using decodeVarintSlow_EncodeVarint [of x 0 rest 0 "length pre"] unsigned_less [of x, where ?'a = nat]
  by (simp add: Buffer_DecodeVarint_slow decodeVarintSlow_def proto_at_def)

lemma sint_small: "n < 2 ^ 63 \<Longrightarrow> sint (word_of_nat n :: uint64) = int n"
  by (simp add: signed_of_nat signed_take_bit_int_eq_self)

lemma Buffer_DecodeRawBytes_EncodeRawBytes [codec_simps]:
  assumes "length pre + length (EncodeVarint (word_of_nat (length b))) + length b + length rest < 2 ^ 63"
  shows "Buffer_DecodeRawBytes (proto_at pre (Buffer_EncodeRawBytes b [] @ rest)) =
     Ok (b, proto_at (pre @ Buffer_EncodeRawBytes b []) rest)"
proof -
  let ?e = "EncodeVarint (word_of_nat (length b))"
  have l: "length b < 2 ^ 63" "length (pre @ ?e) + length b < 2 ^ 63" using assms by simp_all
  have s: "sint (word_of_nat (length b) :: uint64) = int (length b)" using l(1) by (rule sint_small)
  have "word_of_nat (length (pre @ ?e)) + word_of_nat (length b) = (word_of_nat (length (pre @ ?e) + length b) :: uint64)"
    by simp
  then have e: "sint (word_of_nat (length (pre @ ?e)) + word_of_nat (length b) :: uint64) =
      int (length (pre @ ?e) + length b)"
    using l(2) by (simp only: sint_small)
  have "Buffer_DecodeVarint (proto_at pre (Buffer_EncodeRawBytes b [] @ rest)) =
      Ok (word_of_nat (length b), proto_at (pre @ ?e) (b @ rest))"
    using Buffer_DecodeVarint_EncodeVarint [of pre "word_of_nat (length b)" "b @ rest"]
    by (simp add: Buffer_EncodeRawBytes_def Buffer_EncodeVarint_def)
  then show ?thesis
    using s e by (simp add: Buffer_DecodeRawBytes_def proto_at_def Let_def Buffer_EncodeRawBytes_def
        Buffer_EncodeVarint_def)
qed

section \<open>The position-keeping buffer\<close>

text \<open>\<open>buffer\<close> of \<open>protobuf_util.go\<close>: a \<open>proto.Buffer\<close> and the position reached in it.\<close>

record buffer =
  bbuf :: proto_buffer
  position :: nat

definition newBuffer :: "bytes \<Rightarrow> buffer" where
  "newBuffer b = \<lparr>bbuf = \<lparr>pbuf = b, pindex = 0\<rparr>, position = 0\<rparr>"

definition buffer_DecodeVarint :: "buffer \<Rightarrow> (uint64 \<times> buffer) result" where
  "buffer_DecodeVarint b =
     rbind (rwrap ''error decoding varint with proto.Buffer'' (Buffer_DecodeVarint (bbuf b)))
       (\<lambda>(val, p). Ok (val, b\<lparr>bbuf := p, position := position b + SizeVarint val\<rparr>))"

definition buffer_DecodeRawBytes :: "buffer \<Rightarrow> (bytes \<times> buffer) result" where
  "buffer_DecodeRawBytes b =
     rbind (rwrap ''error decoding raw bytes with proto.Buffer'' (Buffer_DecodeRawBytes (bbuf b)))
       (\<lambda>(val, p). Ok (val, b\<lparr>bbuf := p,
          position := position b + (SizeVarint (word_of_nat (length val)) + length val)\<rparr>))"

definition GetBytesConsumed :: "buffer \<Rightarrow> nat" where
  "GetBytesConsumed b = position b"

text \<open>A decoding loop: \<open>n\<close> values one after another.\<close>

primrec dec_many :: "('b \<Rightarrow> ('a \<times> 'b) result) \<Rightarrow> nat \<Rightarrow> 'b \<Rightarrow> ('a list \<times> 'b) result" where
  "dec_many dec 0 b = Ok ([], b)"
| "dec_many dec (Suc n) b =
     rbind (dec b) (\<lambda>(a, b'). rbind (dec_many dec n b') (\<lambda>(as, b''). Ok (a # as, b'')))"

text \<open>
  A buffer that has read \<open>pre\<close> and has \<open>rest\<close> before it, its recorded position in step with
  the index of the underlying \<open>proto.Buffer\<close>.
\<close>

definition buffer_at :: "bytes \<Rightarrow> bytes \<Rightarrow> buffer" where
  "buffer_at pre rest = \<lparr>bbuf = proto_at pre rest, position = length pre\<rparr>"

lemma newBuffer_at: "newBuffer b = buffer_at [] b"
  by (simp add: newBuffer_def buffer_at_def proto_at_def)

lemma GetBytesConsumed_at [simp]: "GetBytesConsumed (buffer_at pre rest) = length pre"
  by (simp add: GetBytesConsumed_def buffer_at_def)

text \<open>
  The contract between a field's encoder and its decoder: wherever the encoding stands in a
  slice, the decoder reads the value back and stops, with its position, right behind it.
  (No Go slice is longer than the largest \<open>int\<close>.)
\<close>

locale field_codec =
  fixes enc :: "'a \<Rightarrow> bytes"
    and dec :: "buffer \<Rightarrow> ('a \<times> buffer) result"
  assumes dec_enc: "length pre + length (enc a) + length rest < 2 ^ 63 \<Longrightarrow>
    dec (buffer_at pre (enc a @ rest)) = Ok (a, buffer_at (pre @ enc a) rest)"
begin

lemma dec_many_enc:
  "length pre + length (concat (map enc as)) + length rest < 2 ^ 63 \<Longrightarrow>
   dec_many dec (length as) (buffer_at pre (concat (map enc as) @ rest)) =
     Ok (as, buffer_at (pre @ concat (map enc as)) rest)"
proof (induction as arbitrary: pre)
  case (Cons a as)
  have "dec (buffer_at pre (enc a @ concat (map enc as) @ rest)) =
      Ok (a, buffer_at (pre @ enc a) (concat (map enc as) @ rest))"
    using Cons.prems by (intro dec_enc) simp
  moreover have "dec_many dec (length as) (buffer_at (pre @ enc a) (concat (map enc as) @ rest)) =
      Ok (as, buffer_at ((pre @ enc a) @ concat (map enc as)) rest)"
    using Cons.prems by (intro Cons.IH) simp
  ultimately show ?case by simp
qed simp

end

interpretation varint_field: field_codec EncodeVarint buffer_DecodeVarint
  by unfold_locales
    (simp add: buffer_DecodeVarint_def buffer_at_def Buffer_DecodeVarint_EncodeVarint length_EncodeVarint)

interpretation raw_field: field_codec "\<lambda>b. Buffer_EncodeRawBytes b []" buffer_DecodeRawBytes
proof unfold_locales
  fix pre b rest :: bytes
  assume "length pre + length (Buffer_EncodeRawBytes b []) + length rest < 2 ^ 63"
  then have "length pre + length (EncodeVarint (word_of_nat (length b))) + length b + length rest < 2 ^ 63"
    by (simp add: Buffer_EncodeRawBytes_def Buffer_EncodeVarint_def)
  then have "Buffer_DecodeRawBytes (proto_at pre (Buffer_EncodeRawBytes b [] @ rest)) =
      Ok (b, proto_at (pre @ Buffer_EncodeRawBytes b []) rest)"
    by (rule Buffer_DecodeRawBytes_EncodeRawBytes)
  then show "buffer_DecodeRawBytes (buffer_at pre (Buffer_EncodeRawBytes b [] @ rest)) =
      Ok (b, buffer_at (pre @ Buffer_EncodeRawBytes b []) rest)"
    by (simp add: buffer_DecodeRawBytes_def buffer_at_def Buffer_EncodeRawBytes_def
        Buffer_EncodeVarint_def length_EncodeVarint)
qed

text \<open>C23. The unrolled varint decoder gives the same value, the same position and the same error as the
  byte-by-byte loop on every buffer, truncated and overlong encodings included; and it inverts the
  encoder, whose output has the length \<open>SizeVarint\<close> predicts, between 1 and 10 bytes.\<close>

theorem varint_decoders_agree:
  "Buffer_DecodeVarint p = decodeVarintSlow p \<and>
   Buffer_DecodeVarint (proto_at pre (EncodeVarint x @ rest)) = Ok (x, proto_at (pre @ EncodeVarint x) rest) \<and>
   length (EncodeVarint x) = SizeVarint x \<and> 1 \<le> SizeVarint x \<and> SizeVarint x \<le> 10"
  using SizeVarint_bounds
  by (simp add: Buffer_DecodeVarint_slow [symmetric] Buffer_DecodeVarint_EncodeVarint length_EncodeVarint)

end
