(* ===== verification/KeyEncoding.thy ===== *)
theory KeyEncoding
  imports Varint "HOL-Library.List_Lexorder"
begin

text \<open>
  \<open>common/ledger/util/util.go\<close>: the encoding of block and transaction numbers inside index
  keys.  It keeps the numeric order under the database's byte order, and it is
  self-delimiting, so that keys made of several fields can be told apart.
\<close>

section \<open>Definitions\<close>

definition EncodeOrderPreservingVarUint64 :: "uint64 \<Rightarrow> bytes" where
  "EncodeOrderPreservingVarUint64 number =
     (let bytes = PutUint64 number;
          i = length (takeWhile (\<lambda>b. b = 0) bytes);
          startingIndex = (if i < 8 then i else 0);
          size = (if i < 8 then 8 - i else 0);
          sizeBytes = EncodeVarint (word_of_nat size)
      in hd sizeBytes # take size (drop startingIndex bytes))"

text \<open>The same function with the check that panics when the size takes more than one byte.\<close>

definition EncodeOrderPreservingVarUint64_guarded :: "uint64 \<Rightarrow> bytes result" where
  "EncodeOrderPreservingVarUint64_guarded number =
     (let i = length (takeWhile (\<lambda>b. b = 0) (PutUint64 number));
          size = (if i < 8 then 8 - i else 0)
      in if length (EncodeVarint (word_of_nat size)) > 1
         then Panic ''[]sizeBytes should not be more than one byte''
         else Ok (EncodeOrderPreservingVarUint64 number))"

definition DecodeOrderPreservingVarUint64 :: "bytes \<Rightarrow> (uint64 \<times> nat) result" where
  "DecodeOrderPreservingVarUint64 bytes =
     (case DecodeVarint bytes of (s, numBytes) \<Rightarrow>
        if numBytes \<noteq> 1 then Err (ErrMsg ''number of consumed bytes from DecodeVarint is invalid'')
        else if s > 8 then Err (ErrMsg ''decoded size from DecodeVarint is invalid'')
        else if int (unat s) > int (length bytes) - 1
          then Err (ErrMsg ''decoded size from DecodeVarint is more than available bytes'')
        else
          (let size = unat s; decodedBytes = replicate (8 - size) 0 @ take size (drop 1 bytes)
           in Ok (BigEndian_Uint64 decodedBytes, size + 1)))"

section \<open>Big-endian numbers\<close>

lemma be_val_Cons: "be_val (b # bs) = unat b * 256 ^ length bs + be_val bs"
  by (simp add: be_val_def from_digits_Cons)

lemma be_val_Nil [simp]: "be_val [] = 0"
  by (simp add: be_val_def)

lemma be_val_zeros [simp]: "be_val (replicate n 0 @ bs) = be_val bs"
  by (simp add: be_val_def)

lemma be_val_less: "be_val bs < 256 ^ length bs"
proof -
  have "\<forall>d \<in> set (map unat bs). d < 256"
    using unsigned_less [where ?'a = nat and ?'b = 8] by (auto simp: less_eq_Suc_le)
  from octet.from_digits_less [OF this] show ?thesis by (simp add: be_val_def)
qed

lemma from_digits_powers:
  "from_digits b (map (\<lambda>k. n div b ^ k mod b) (rev [0..<m])) = n mod b ^ m"
proof (induction m)
  case (Suc m)
  have "n mod (b ^ m * b) = b ^ m * (n div b ^ m mod b) + n mod b ^ m"
    by (simp add: mod_mult2_eq)
  with Suc show ?case by (simp add: from_digits_Cons ac_simps)
qed simp

lemma be_val_PutUint64 [simp]: "be_val (PutUint64 v) = unat v"
proof -
  have u: "unat (ucast (drop_bit (8 * k) v) :: byte) = unat v div 256 ^ k mod 256" for k
  proof -
    have "unat (drop_bit (8 * k) v) = unat v div 2 ^ (8 * k)"
      unfolding unat_drop_bit_eq by (simp add: drop_bit_eq_div)
    then show ?thesis by (simp add: unsigned_ucast_eq take_bit_eq_mod power_mult)
  qed
  have "PutUint64 v = map (\<lambda>k. ucast (drop_bit (8 * k) v)) (rev [0..<8])"
    by (simp add: PutUint64_def upt_rec)
  then have "map unat (PutUint64 v) = map (\<lambda>k. unat v div 256 ^ k mod 256) (rev [0..<8])"
    by (simp only: map_map comp_def u)
  then show ?thesis
    using unsigned_less [of v, where ?'a = nat] by (simp add: be_val_def from_digits_powers)
qed

lemma BigEndian_PutUint64 [simp, codec_simps]: "BigEndian_Uint64 (PutUint64 v) = v"
  by (simp add: BigEndian_Uint64_def)

lemma length_PutUint64 [simp]: "length (PutUint64 v) = 8"
  by (simp add: PutUint64_def)

lemma be_val_less_iff:
  "length xs = length ys \<Longrightarrow> xs < ys \<longleftrightarrow> be_val xs < be_val ys"
proof (induction xs ys rule: list_induct2)
  case (Cons x xs y ys)
  let ?B = "256 ^ length ys :: nat"
  have small: "be_val xs < ?B" "be_val ys < ?B"
    using be_val_less [of xs] be_val_less [of ys] Cons.hyps by auto
  consider "x < y" | "x = y" | "y < x" by (rule linorder_cases)
  then show ?case
  proof cases
    case 1
    then have "unat x + 1 \<le> unat y" by (simp add: word_less_nat_alt)
    then have "(unat x + 1) * ?B \<le> unat y * ?B" by (rule mult_le_mono1)
    with small 1 Cons.hyps show ?thesis by (simp add: be_val_Cons)
  next
    case 2
    with Cons show ?thesis by (simp add: be_val_Cons)
  next
    case 3
    then have "unat y + 1 \<le> unat x" by (simp add: word_less_nat_alt)
    then have "(unat y + 1) * ?B \<le> unat x * ?B" by (rule mult_le_mono1)
    with small 3 Cons.hyps show ?thesis by (auto simp: be_val_Cons)
  qed
qed simp

section \<open>The significant bytes of a number\<close>

definition significant :: "uint64 \<Rightarrow> bytes" where
  "significant v = dropWhile (\<lambda>b. b = 0) (PutUint64 v)"

lemma be_val_dropWhile: "be_val (dropWhile (\<lambda>b. b = 0) bs) = be_val bs"
  by (induction bs) (auto simp: be_val_Cons)

lemma significant_props:
  shows "be_val (significant v) = unat v"
    and "length (significant v) \<le> 8"
    and "significant v \<noteq> [] \<Longrightarrow> hd (significant v) \<noteq> 0"
  using length_dropWhile_le [of "\<lambda>b. b = 0" "PutUint64 v"] hd_dropWhile [of "\<lambda>b. b = 0" "PutUint64 v"]
  by (auto simp: significant_def be_val_dropWhile)

lemma Encode_significant:
  "EncodeOrderPreservingVarUint64 v = word_of_nat (length (significant v)) # significant v"
proof -
  let ?i = "length (takeWhile (\<lambda>b. b = 0) (PutUint64 v))"
  have sp: "drop ?i (PutUint64 v) = significant v"
    by (simp add: significant_def dropWhile_eq_drop)
  have le: "?i \<le> 8" using length_takeWhile_le [of "\<lambda>b. b = 0" "PutUint64 v"] by simp
  have len: "length (significant v) = 8 - ?i" using sp by (metis length_drop length_PutUint64)
  have small: "hd (EncodeVarint (word_of_nat n)) = (word_of_nat n :: byte)" if "n \<le> 8" for n
  proof -
    from that have "(word_of_nat n :: uint64) \<le> 127" by (simp add: word_le_nat_alt)
    with that show ?thesis
      by (simp add: EncodeVarint_small word_unat_eq_iff unsigned_ucast_eq take_bit_eq_mod unat_of_nat)
  qed
  show ?thesis
  proof (cases "?i < 8")
    case True
    with small [of "8 - ?i"] len sp show ?thesis
      by (simp add: EncodeOrderPreservingVarUint64_def Let_def)
  next
    case False
    with le have "?i = 8" by simp
    with len sp small [of 0] show ?thesis by (simp add: EncodeOrderPreservingVarUint64_def Let_def)
  qed
qed

lemma Decode_Encode_prefix [codec_simps]:
  "DecodeOrderPreservingVarUint64 (EncodeOrderPreservingVarUint64 v @ rest) =
     Ok (v, length (EncodeOrderPreservingVarUint64 v))"
proof -
  let ?n = "length (significant v)"
  have n: "?n \<le> 8" by (rule significant_props)
  then have s: "(word_of_nat ?n :: uint64) \<le> 127" by (simp add: word_le_nat_alt)
  have e: "EncodeVarint (word_of_nat ?n) = [word_of_nat ?n]"
    using n s by (simp add: EncodeVarint_small word_unat_eq_iff unsigned_ucast_eq take_bit_eq_mod unat_of_nat)
  have d: "DecodeVarint (EncodeOrderPreservingVarUint64 v @ rest) = (word_of_nat ?n, 1)"
    using DecodeVarint_EncodeVarint [of "word_of_nat ?n" "significant v @ rest"] e
    by (simp add: Encode_significant)
  have "\<not> 8 < (word_of_nat ?n :: uint64)" using n by (simp add: word_less_nat_alt)
  with d n show ?thesis
    by (simp add: DecodeOrderPreservingVarUint64_def Encode_significant BigEndian_Uint64_def
        significant_props(1))
qed

text \<open>Encodings that a longer byte string can be split after in one way only.\<close>

locale self_delimiting =
  fixes enc :: "'a \<Rightarrow> 'b list"
  assumes split_unique: "enc a @ xs = enc b @ ys \<Longrightarrow> a = b"
begin

lemma enc_append_iff: "enc a @ xs = enc b @ ys \<longleftrightarrow> a = b \<and> xs = ys"
  using split_unique by auto

lemma enc_inject: "enc a = enc b \<longleftrightarrow> a = b"
  using split_unique [of a "[]" b "[]"] by auto

end

interpretation opv: self_delimiting EncodeOrderPreservingVarUint64
proof
  fix a b :: uint64 and xs ys
  assume "EncodeOrderPreservingVarUint64 a @ xs = EncodeOrderPreservingVarUint64 b @ ys"
  then show "a = b"
    using Decode_Encode_prefix [of a xs] Decode_Encode_prefix [of b ys] by simp
qed

interpretation varint: self_delimiting EncodeVarint
proof
  fix a b :: uint64 and xs ys
  assume "EncodeVarint a @ xs = EncodeVarint b @ ys"
  then show "a = b"
    using DecodeVarint_EncodeVarint [of a xs] DecodeVarint_EncodeVarint [of b ys] by simp
qed

lemma Encode_guarded_total:
  "EncodeOrderPreservingVarUint64_guarded v = Ok (EncodeOrderPreservingVarUint64 v)"
proof -
  let ?i = "length (takeWhile (\<lambda>b. b = 0) (PutUint64 v))"
  have small: "n \<le> 8 \<Longrightarrow> (word_of_nat n :: uint64) < 2 ^ 7" for n
    by (simp add: word_less_nat_alt)
  have "(word_of_nat (if ?i < 8 then 8 - ?i else 0) :: uint64) < 2 ^ 7"
    by (rule small) simp
  then show ?thesis
    by (simp add: EncodeOrderPreservingVarUint64_guarded_def Let_def length_EncodeVarint SizeVarint_def)
qed

lemma Encode_less_iff:
  "EncodeOrderPreservingVarUint64 m < EncodeOrderPreservingVarUint64 n \<longleftrightarrow> m < n"
proof -
  have short: "m < n"
    if "length (significant m) < length (significant n)" for m n
  proof -
    let ?s = "significant n"
    from that have ne: "?s \<noteq> []" by auto
    then obtain b bs where s: "?s = b # bs" by (cases ?s) auto
    with significant_props(3) [OF ne] have b: "1 \<le> unat b" by (simp add: unat_gt_0 Suc_le_eq)
    have "unat m < 256 ^ length (significant m)"
      using be_val_less [of "significant m"] by (simp add: significant_props(1))
    also have "\<dots> \<le> 256 ^ length bs" using that s by (intro power_increasing) auto
    also have "\<dots> \<le> unat b * 256 ^ length bs" using b by simp
    also have "\<dots> \<le> unat n" using significant_props(1) [of n] s by (simp add: be_val_Cons)
    finally show ?thesis by (simp add: word_less_nat_alt)
  qed
  have hd_less: "(word_of_nat (length (significant m)) :: byte) < word_of_nat (length (significant n)) \<longleftrightarrow>
      length (significant m) < length (significant n)" for m n
    using significant_props(2) [of m] significant_props(2) [of n]
    by (simp add: word_less_nat_alt unat_of_nat take_bit_eq_mod)
  consider "length (significant m) < length (significant n)"
    | "length (significant m) = length (significant n)"
    | "length (significant n) < length (significant m)" by linarith
  then show ?thesis
  proof cases
    case 1
    then show ?thesis using short [OF 1] hd_less [of m n] by (simp add: Encode_significant)
  next
    case 2
    then show ?thesis
      using be_val_less_iff [OF 2] by (simp add: Encode_significant significant_props(1) word_less_nat_alt)
  next
    case 3
    with short [OF 3] hd_less [of n m] show ?thesis
      by (auto simp: Encode_significant dest: less_imp_not_less)
  qed
qed

text \<open>C21. The key encoding of integers is order preserving: the encodings compare like the numbers, an
  encoding at the front of a key decodes to its number and its length, the guards of the encoder
  never fail, and an encoding has between 1 and 9 bytes.\<close>

theorem order_preserving_encoding:
  "(EncodeOrderPreservingVarUint64 m < EncodeOrderPreservingVarUint64 n \<longleftrightarrow> m < n) \<and>
   EncodeOrderPreservingVarUint64_guarded m = Ok (EncodeOrderPreservingVarUint64 m) \<and>
   DecodeOrderPreservingVarUint64 (EncodeOrderPreservingVarUint64 m @ rest) =
     Ok (m, length (EncodeOrderPreservingVarUint64 m)) \<and>
   length (EncodeOrderPreservingVarUint64 m) \<in> {1..9}"
proof -
  have "length (EncodeOrderPreservingVarUint64 m) \<in> {1..9}"
    using significant_props(2) [of m] by (simp add: Encode_significant)
  then show ?thesis using Encode_less_iff Encode_guarded_total Decode_Encode_prefix by blast
qed

end
