(* ===== verification/Stores.thy ===== *)
theory Stores
  imports KeyEncoding
begin

text \<open>
  The two places where the program keeps bytes: files and leveldb databases.  Both are maps with an
  update and a delete; \<open>key_store\<close> is that interface, and what a sequence of writes does to a lookup
  is proved once from it.  The contents of a leveldb are a list of entries in key order, which is
  what its iterators walk over; the contents of the file system are an association list of paths.
\<close>

section \<open>The interface\<close>

datatype ('k, 'v) kv_op = OpPut 'k 'v | OpDelete 'k

primrec op_key :: "('k, 'v) kv_op \<Rightarrow> 'k" where
  "op_key (OpPut k v) = k"
| "op_key (OpDelete k) = k"

primrec op_val :: "('k, 'v) kv_op \<Rightarrow> 'v option" where
  "op_val (OpPut k v) = Some v"
| "op_val (OpDelete k) = None"

text \<open>What the last operation of a sequence on a key leaves there; the outer \<open>None\<close>: nothing touched it.\<close>

fun last_op :: "('k, 'v) kv_op list \<Rightarrow> 'k \<Rightarrow> 'v option option" where
  "last_op [] k = None"
| "last_op (x # xs) k =
     (case last_op xs k of Some r \<Rightarrow> Some r | None \<Rightarrow> if op_key x = k then Some (op_val x) else None)"

primrec kv_apply :: "('k \<Rightarrow> 'v \<Rightarrow> 's \<Rightarrow> 's) \<Rightarrow> ('k \<Rightarrow> 's \<Rightarrow> 's) \<Rightarrow> ('k, 'v) kv_op \<Rightarrow> 's \<Rightarrow> 's" where
  "kv_apply put del (OpPut k v) s = put k v s"
| "kv_apply put del (OpDelete k) s = del k s"

locale key_store =
  fixes get :: "'s \<Rightarrow> 'k \<Rightarrow> 'v option"
    and put :: "'k \<Rightarrow> 'v \<Rightarrow> 's \<Rightarrow> 's"
    and del :: "'k \<Rightarrow> 's \<Rightarrow> 's"
  assumes get_put: "get (put k v s) k' = (if k = k' then Some v else get s k')"
    and get_del: "get (del k s) k' = (if k = k' then None else get s k')"
begin

lemma get_step: "get (kv_apply put del x s) k = (if op_key x = k then op_val x else get s k)"
  by (cases x) (simp_all add: get_put get_del)

lemma get_steps: "get (fold (kv_apply put del) xs s) k = (case last_op xs k of Some r \<Rightarrow> r | None \<Rightarrow> get s k)"
  by (induction xs arbitrary: s) (simp_all add: get_step split: option.split)

end

lemma last_op_append:
  "last_op (xs @ ys) k = (case last_op ys k of Some r \<Rightarrow> Some r | None \<Rightarrow> last_op xs k)"
  by (induction xs) (auto split: option.split)

lemma last_op_None: "last_op xs k = None \<longleftrightarrow> k \<notin> op_key ` set xs"
  by (induction xs) (auto split: option.split)

lemma last_op_deletes: "last_op (map OpDelete ks) k = (if k \<in> set ks then Some None else None)"
  by (induction ks) (auto split: option.split)

lemma last_op_puts:
  "distinct (map fst kvs) \<Longrightarrow> last_op (map (\<lambda>(k, v). OpPut k v) kvs) k = map_option Some (map_of kvs k)"
proof (induction kvs)
  case (Cons a kvs)
  then show ?case
    by (cases a) (auto split: option.split simp: map_of_eq_None_iff dest!: map_of_SomeD
        intro: rev_image_eqI)
qed simp

section \<open>Contents in key order\<close>

fun sput :: "'k::linorder \<Rightarrow> 'v \<Rightarrow> ('k \<times> 'v) list \<Rightarrow> ('k \<times> 'v) list" where
  "sput k v [] = [(k, v)]"
| "sput k v ((k', v') # kvs) =
     (if k < k' then (k, v) # (k', v') # kvs
      else if k = k' then (k, v) # kvs
      else (k', v') # sput k v kvs)"

definition sdel :: "'k \<Rightarrow> ('k \<times> 'v) list \<Rightarrow> ('k \<times> 'v) list" where
  "sdel k kvs = filter (\<lambda>kv. fst kv \<noteq> k) kvs"

lemma map_of_sput: "map_of (sput k v s) k' = (if k = k' then Some v else map_of s k')"
  by (induction k v s rule: sput.induct) auto

lemma map_of_sdel: "map_of (sdel k s) k' = (if k = k' then None else map_of s k')"
  by (induction s) (auto simp: sdel_def)

interpretation contents: key_store map_of sput sdel
  by unfold_locales (simp_all add: map_of_sput map_of_sdel)

abbreviation in_key_order :: "('k::linorder \<times> 'v) list \<Rightarrow> bool" where
  "in_key_order kvs \<equiv> sorted_wrt (<) (map fst kvs)"

lemma set_sput: "set (sput k v s) \<subseteq> insert (k, v) (set s)"
  by (induction k v s rule: sput.induct) auto

lemma in_key_order_sput [simp]: "in_key_order s \<Longrightarrow> in_key_order (sput k v s)"
proof (induction k v s rule: sput.induct)
  case (2 k v k' v' kvs)
  then show ?case using set_sput [of k v kvs] by fastforce
qed simp

lemma in_key_order_filter [simp]: "in_key_order s \<Longrightarrow> in_key_order (filter P s)"
  by (induction s) auto

lemma in_key_order_sdel [simp]: "in_key_order s \<Longrightarrow> in_key_order (sdel k s)"
  by (simp add: sdel_def)

lemma in_key_order_steps: "in_key_order s \<Longrightarrow> in_key_order (fold (kv_apply sput sdel) xs s)"
proof (induction xs arbitrary: s)
  case (Cons x xs)
  then show ?case by (cases x) simp_all
qed simp

lemma in_key_order_distinct: "in_key_order s \<Longrightarrow> distinct (map fst s)"
  by (auto simp: strict_sorted_iff)

lemma fold_deletes:
  "fold (kv_apply sput sdel) (map OpDelete ks) s = filter (\<lambda>kv. fst kv \<notin> set ks) s"
  by (induction ks arbitrary: s) (auto simp: sdel_def intro: filter_cong)

section \<open>Paths\<close>

definition fput :: "'k \<Rightarrow> 'v \<Rightarrow> ('k \<times> 'v) list \<Rightarrow> ('k \<times> 'v) list" where
  "fput k v kvs = (k, v) # filter (\<lambda>kv. fst kv \<noteq> k) kvs"

lemma map_of_fput: "map_of (fput k v s) k' = (if k = k' then Some v else map_of s k')"
  using map_of_sdel [of k s k'] by (auto simp: fput_def sdel_def)

interpretation paths: key_store map_of fput sdel
  by unfold_locales (simp_all add: map_of_fput map_of_sdel)

end
