(* ===== verification/FileSystem.thy ===== *)
theory FileSystem
  imports Stores
begin

text \<open>
  The files of the machine, as the ledger uses them, and the block file writer and reader of
  \<open>common/ledger/blkstorage/blockfile_rw.go\<close>.  A write to a block file may fail: \<open>faults\<close> is the
  schedule of the outcomes of the coming system calls (an exhausted schedule means success), and a
  failing write leaves a prefix of its bytes in the file.
\<close>

section \<open>Files\<close>

datatype fault = Succeed | FailAfter nat

record os =
  files :: "(string \<times> bytes) list"
  dirs :: "string list"
  faults :: "fault list"

definition os_read :: "os \<Rightarrow> string \<Rightarrow> bytes option" where
  "os_read fs path = map_of (files fs) path"

definition os_write :: "string \<Rightarrow> bytes \<Rightarrow> os \<Rightarrow> os" where
  "os_write path b fs = fs\<lparr>files := fput path b (files fs)\<rparr>"

definition os_remove :: "string \<Rightarrow> os \<Rightarrow> os" where
  "os_remove path fs = fs\<lparr>files := sdel path (files fs)\<rparr>"

definition os_exists :: "os \<Rightarrow> string \<Rightarrow> bool" where
  "os_exists fs path = (os_read fs path \<noteq> None \<or> path \<in> set (dirs fs))"

text \<open>\<open>os.OpenFile\<close> with \<open>O_CREATE\<close>, and a write at the end of a file opened with \<open>O_APPEND\<close>.\<close>

definition os_create :: "string \<Rightarrow> os \<Rightarrow> os" where
  "os_create path fs = (case os_read fs path of Some b \<Rightarrow> fs | None \<Rightarrow> os_write path [] fs)"

definition os_content :: "os \<Rightarrow> string \<Rightarrow> bytes" where
  "os_content fs path = (case os_read fs path of Some b \<Rightarrow> b | None \<Rightarrow> [])"

definition os_append :: "string \<Rightarrow> bytes \<Rightarrow> os \<Rightarrow> os" where
  "os_append path b fs = os_write path (os_content fs path @ b) fs"

text \<open>\<open>WriteAt\<close>: the bytes go to the given offset; a gap before it is filled with zeros.\<close>

definition overlay :: "bytes \<Rightarrow> nat \<Rightarrow> bytes \<Rightarrow> bytes" where
  "overlay c off b = take off (c @ replicate (off - length c) 0) @ b @ drop (off + length b) c"

definition next_fault :: "os \<Rightarrow> fault \<times> os" where
  "next_fault fs = (case faults fs of [] \<Rightarrow> (Succeed, fs) | f # rest \<Rightarrow> (f, fs\<lparr>faults := rest\<rparr>))"

section \<open>Block file writer and reader\<close>

record blockfileWriter =
  filePath :: string

definition newBlockfileWriter :: "string \<Rightarrow> os \<Rightarrow> blockfileWriter result \<times> os" where
  "newBlockfileWriter path fs =
     (case next_fault fs of
        (Succeed, fs') \<Rightarrow> (Ok \<lparr>filePath = path\<rparr>, os_create path fs')
      | (FailAfter n, fs') \<Rightarrow>
          (Err (ErrWrap ''error opening block file writer for file %s'' (ErrMsg ''open'')), fs'))"

text \<open>The result of \<open>Truncate\<close> itself is ignored by the source.\<close>

definition truncateFile :: "blockfileWriter \<Rightarrow> nat \<Rightarrow> os \<Rightarrow> unit result \<times> os" where
  "truncateFile w targetSize fs =
     (case next_fault fs of
        (FailAfter n, fs') \<Rightarrow>
          (Err (ErrWrap ''error truncating the file [%s] to size [%d]'' (ErrMsg ''stat'')), fs')
      | (Succeed, fs') \<Rightarrow>
          if length (os_content fs' (filePath w)) > targetSize then
            (case next_fault fs' of
               (Succeed, fs'') \<Rightarrow>
                 (Ok (), os_write (filePath w) (take targetSize (os_content fs' (filePath w))) fs'')
             | (FailAfter n, fs'') \<Rightarrow> (Ok (), fs''))
          else (Ok (), fs'))"

definition file_Sync :: "bool \<Rightarrow> os \<Rightarrow> unit result \<times> os" where
  "file_Sync sync fs =
     (if sync then
        (case next_fault fs of
           (Succeed, fs') \<Rightarrow> (Ok (), fs')
         | (FailAfter n, fs') \<Rightarrow> (Err (ErrMsg ''sync''), fs'))
      else (Ok (), fs))"

definition writer_writeat :: "blockfileWriter \<Rightarrow> bytes \<Rightarrow> int \<Rightarrow> bool \<Rightarrow> os \<Rightarrow> unit result \<times> os" where
  "writer_writeat w b off sync fs =
     (if off < 0 then (Err (ErrMsg ''negative offset''), fs)
      else case next_fault fs of
        (FailAfter n, fs') \<Rightarrow>
          (Err (ErrMsg ''write''),
           os_write (filePath w) (overlay (os_content fs (filePath w)) (nat off) (take n b)) fs')
      | (Succeed, fs') \<Rightarrow>
          file_Sync sync
            (os_write (filePath w) (overlay (os_content fs (filePath w)) (nat off) b) fs'))"

definition writer_append :: "blockfileWriter \<Rightarrow> bytes \<Rightarrow> bool \<Rightarrow> os \<Rightarrow> unit result \<times> os" where
  "writer_append w b sync fs =
     (case next_fault fs of
        (FailAfter n, fs') \<Rightarrow>
          (Err (ErrMsg ''write''), os_write (filePath w) (os_content fs (filePath w) @ take n b) fs')
      | (Succeed, fs') \<Rightarrow>
          file_Sync sync (os_write (filePath w) (os_content fs (filePath w) @ b) fs'))"

definition newBlockfileReader :: "string \<Rightarrow> os \<Rightarrow> bytes result" where
  "newBlockfileReader path fs =
     (case os_read fs path of
        None \<Rightarrow> Err (ErrWrap ''error opening block file reader for file %s'' ErrNotExist)
      | Some c \<Rightarrow> Ok c)"

text \<open>A reader is the contents of the open file; \<open>ReadAt\<close> reports \<open>EOF\<close> unless it fills its buffer.\<close>

definition reader_read :: "bytes \<Rightarrow> int \<Rightarrow> int \<Rightarrow> bytes result" where
  "reader_read c off len =
     (if len < 0 then Panic ''makeslice: len out of range''
      else if off < 0 then
        Err (ErrWrap ''error reading block file for offset %d and length %d'' (ErrMsg ''negative offset''))
      else if len = 0 \<or> nat off + nat len \<le> length c then Ok (take (nat len) (drop (nat off) c))
      else Err (ErrWrap ''error reading block file for offset %d and length %d'' ErrEOF))"

section \<open>Facts\<close>

lemma os_read_write: "os_read (os_write p b fs) q = (if p = q then Some b else os_read fs q)"
  by (simp add: os_read_def os_write_def map_of_fput)

lemma os_read_remove: "os_read (os_remove p fs) q = (if p = q then None else os_read fs q)"
  by (simp add: os_read_def os_remove_def map_of_sdel)

interpretation filesystem: key_store os_read os_write os_remove
  by unfold_locales (simp_all add: os_read_write os_read_remove)

lemma os_select_write [simp]:
  "dirs (os_write p b fs) = dirs fs" "faults (os_write p b fs) = faults fs"
  "dirs (os_remove p fs) = dirs fs" "faults (os_remove p fs) = faults fs"
  by (simp_all add: os_write_def os_remove_def)

lemma os_content_write [simp]: "os_content (os_write p b fs) q = (if p = q then b else os_content fs q)"
  by (simp add: os_content_def os_read_write)

lemma os_read_faults [simp]:
  "os_read (fs\<lparr>faults := l\<rparr>) p = os_read fs p" "os_content (fs\<lparr>faults := l\<rparr>) p = os_content fs p"
  "os_exists (fs\<lparr>faults := l\<rparr>) p = os_exists fs p"
  by (simp_all add: os_read_def os_content_def os_exists_def)

lemma next_fault_read [simp]:
  "next_fault fs = (f, fs') \<Longrightarrow> os_read fs' p = os_read fs p"
  "next_fault fs = (f, fs') \<Longrightarrow> os_content fs' p = os_content fs p"
  by (auto simp: next_fault_def split: list.splits)

lemma next_fault_none [simp]: "faults fs = [] \<Longrightarrow> next_fault fs = (Succeed, fs)"
  by (simp add: next_fault_def)

lemma overlay_at_end [simp]: "overlay c (length c) b = c @ b"
  by (simp add: overlay_def)

lemma overlay_inside: "off + length b \<le> length c \<Longrightarrow> overlay c off b = take off c @ b @ drop (off + length b) c"
  by (simp add: overlay_def)

text \<open>Without faults \<open>append\<close> is a write at the end of the file.\<close>

lemma writer_append_ok [simp]:
  "faults fs = [] \<Longrightarrow> writer_append w b sync fs = (Ok (), os_append (filePath w) b fs)"
  by (simp add: writer_append_def file_Sync_def os_append_def)

lemma writer_append_writeat:
  "writer_append w b sync fs =
     writer_writeat w b (int (length (os_content fs (filePath w)))) sync fs"
  unfolding writer_append_def writer_writeat_def nat_int overlay_at_end by simp

text \<open>Whatever happens, an append changes its own file only, and only after its old contents.\<close>

lemma writer_append_effect:
  assumes "writer_append w b sync fs = (r, fs')"
  obtains n where "\<And>q. os_read fs' q =
      (if q = filePath w then Some (os_content fs (filePath w) @ take n b) else os_read fs q)"
    and "r = Ok () \<Longrightarrow> n = length b"
proof -
  have "\<exists>n. (\<forall>q. os_read fs' q =
      (if q = filePath w then Some (os_content fs (filePath w) @ take n b) else os_read fs q)) \<and>
      (r = Ok () \<longrightarrow> n = length b)"
    using assms
    by (auto simp: writer_append_def file_Sync_def os_read_write split: prod.splits fault.splits if_splits
        intro: exI [of _ "length b"])
  then show ?thesis using that by blast
qed

lemma reader_read_inside:
  "reader_read (pre @ b @ post) (int (length pre)) (int (length b)) = Ok b"
  by (simp add: reader_read_def)

end
