(* ===== verification/BlockUtils.thy ===== *)
theory BlockUtils
  imports Chameleon Proto FileSystem
begin

text \<open>
  \<open>protoutil/blockutils.go\<close>: blocks, the bytes and the hash of a header, the hash of the data with
  the random pair kept in a file per block number, and the accessors of the metadata.  A block's
  header and data are never nil here; the metadata pointer may be.
\<close>

section \<open>Blocks\<close>

record BlockHeader =
  Number :: uint64
  PreviousHash :: bytes
  DataHash :: bytes

record Block =
  BHeader :: BlockHeader
  BData :: "bytes list"
  BMetadata :: "bytes list option"

text \<open>\<open>len(cb.BlockMetadataIndex_name)\<close> and the positions in the metadata.\<close>

definition BlockMetadataIndex_count :: nat where "BlockMetadataIndex_count = 5"
definition BlockMetadataIndex_SIGNATURES :: nat where "BlockMetadataIndex_SIGNATURES = 0"
definition BlockMetadataIndex_LAST_CONFIG :: nat where "BlockMetadataIndex_LAST_CONFIG = 1"
definition BlockMetadataIndex_TRANSACTIONS_FILTER :: nat where "BlockMetadataIndex_TRANSACTIONS_FILTER = 2"
definition BlockMetadataIndex_ORDERER :: nat where "BlockMetadataIndex_ORDERER = 3"
definition BlockMetadataIndex_COMMIT_HASH :: nat where "BlockMetadataIndex_COMMIT_HASH = 4"

definition NewBlock :: "uint64 \<Rightarrow> bytes \<Rightarrow> Block" where
  "NewBlock seqNum previousHash =
     \<lparr>BHeader = \<lparr>Number = seqNum, PreviousHash = previousHash, DataHash = []\<rparr>,
      BData = [],
      BMetadata = Some (map (\<lambda>i. []) [0..<BlockMetadataIndex_count])\<rparr>"

section \<open>The header\<close>

text \<open>
  \<open>asn1.Marshal\<close> of the structure \<open>asn1Header\<close>: a DER sequence of an integer and two octet strings.
\<close>

definition der_length :: "nat \<Rightarrow> bytes" where
  "der_length n =
     (if n < 128 then [word_of_nat n]
      else (let ds = digits 256 n in word_of_nat (128 + length ds) # map word_of_nat ds))"

definition der_tlv :: "byte \<Rightarrow> bytes \<Rightarrow> bytes" where
  "der_tlv tag content = tag # der_length (length content) @ content"

definition der_integer :: "uint64 \<Rightarrow> bytes" where
  "der_integer n =
     (let b = map word_of_nat (digits 256 (unat n))
      in der_tlv 0x02 (if hd b \<ge> 0x80 then 0 # b else b))"

definition BlockHeaderBytes :: "BlockHeader \<Rightarrow> bytes" where
  "BlockHeaderBytes b =
     der_tlv 0x30 (der_integer (Number b) @ der_tlv 0x04 (PreviousHash b) @ der_tlv 0x04 (DataHash b))"

definition BlockHeaderHash :: "BlockHeader \<Rightarrow> bytes" where
  "BlockHeaderHash b = sha256 (BlockHeaderBytes b)"

section \<open>The data hash\<close>

definition PathExists :: "string \<Rightarrow> os \<Rightarrow> bool" where
  "PathExists path fs = os_exists fs path"

definition default_r :: bytes where
  "default_r = to_bytes ''ff6a035ee82ebb3a88a59e8de2a3caa4722156ac54041a3e542c8adba1a6be8''"

definition default_s :: bytes where
  "default_s = to_bytes ''7c0ad2936ff5254a1b4ac1a016671bf18a7ad8bd1e7c8ce3f7241664db500704''"

definition crlf :: bytes where
  "crlf = [13, 10]"

definition blockfile_path :: "uint64 \<Rightarrow> string" where
  "blockfile_path num = ''/opt/gopath/blockfile'' @ FormatUint num"

text \<open>
  When the file of the pair exists it must have two lines, otherwise it is created with the default
  pair.  The result is the hash with the file system as the call leaves it.
\<close>

definition BlockDataHash :: "bytes list \<Rightarrow> uint64 \<Rightarrow> os \<Rightarrow> bytes result \<times> os" where
  "BlockDataHash data num fs =
     (let path = blockfile_path num;
          msg = concat data
      in if PathExists path fs then
           (case os_read fs path of
              None \<Rightarrow> (Panic ''read'', fs)
            | Some c \<Rightarrow>
                (let message = read_lines c in
                 if length message < 2 then (Panic ''index out of range'', fs)
                 else (chameleonHash param_hk param_p param_q param_g msg
                         (to_bytes (message ! 0)) (to_bytes (message ! 1)), fs)))
         else
           (let fs' = os_append path (default_s @ crlf) (os_append path (default_r @ crlf) fs)
            in (chameleonHash param_hk param_p param_q param_g msg default_r default_s, fs')))"

section \<open>Channel and metadata\<close>

definition GetChannelIDFromBlock :: "codec \<Rightarrow> Block \<Rightarrow> string result" where
  "GetChannelIDFromBlock C block =
     (case BData block of
        [] \<Rightarrow> Err (ErrMsg ''failed to retrieve channel id - block is empty'')
      | d # _ \<Rightarrow>
          rbind (GetEnvelopeFromBlock C d) (\<lambda>envelope.
          rbind (UnmarshalPayload C (env_Payload envelope)) (\<lambda>payload.
          case pl_Header payload of
            None \<Rightarrow> Err (ErrMsg ''failed to retrieve channel id - payload header is empty'')
          | Some hdr \<Rightarrow>
              rbind (UnmarshalChannelHeader C (hdr_ChannelHeader hdr)) (\<lambda>chdr. Ok (ch_ChannelId chdr)))))"

definition GetMetadataFromBlock :: "codec \<Rightarrow> Block \<Rightarrow> nat \<Rightarrow> Metadata result" where
  "GetMetadataFromBlock C block index =
     (case BMetadata block of
        None \<Rightarrow> Err (ErrMsg ''no metadata in block'')
      | Some md \<Rightarrow>
          if length md \<le> index then Err (ErrMsg ''no metadata at index [%s]'')
          else proto_Unmarshal ''error unmarshaling metadata at index [%s]'' (unmarshal_Metadata C (md ! index)))"

definition or_panic :: "'a result \<Rightarrow> 'a result" where
  "or_panic r = (case r of Ok a \<Rightarrow> Ok a | Err e \<Rightarrow> Panic ''panic(err)'' | Panic p \<Rightarrow> Panic p)"

definition GetMetadataFromBlockOrPanic :: "codec \<Rightarrow> Block \<Rightarrow> nat \<Rightarrow> Metadata result" where
  "GetMetadataFromBlockOrPanic C block index = or_panic (GetMetadataFromBlock C block index)"

definition GetConsenterMetadataFromBlock :: "codec \<Rightarrow> Block \<Rightarrow> Metadata result" where
  "GetConsenterMetadataFromBlock C block =
     rbind (rwrap ''failed to retrieve metadata'' (GetMetadataFromBlock C block BlockMetadataIndex_SIGNATURES)) (\<lambda>m.
     if md_Value m = [] then GetMetadataFromBlock C block BlockMetadataIndex_ORDERER
     else
       rbind (proto_Unmarshal ''failed to unmarshal orderer block metadata''
         (unmarshal_OrdererBlockMetadata C (md_Value m))) (\<lambda>obm.
       proto_Unmarshal ''failed to unmarshal consenter metadata''
         (unmarshal_Metadata C (obm_ConsenterMetadata obm))))"

text \<open>\<open>obm.LastConfig.Index\<close> dereferences a pointer that may be nil.\<close>

definition GetLastConfigIndexFromBlock :: "codec \<Rightarrow> Block \<Rightarrow> uint64 result" where
  "GetLastConfigIndexFromBlock C block =
     rbind (rwrap ''failed to retrieve metadata'' (GetMetadataFromBlock C block BlockMetadataIndex_SIGNATURES)) (\<lambda>m.
     if md_Value m = [] then
       rbind (rwrap ''failed to retrieve metadata''
         (GetMetadataFromBlock C block BlockMetadataIndex_LAST_CONFIG)) (\<lambda>m'.
       proto_Unmarshal ''error unmarshaling LastConfig'' (unmarshal_LastConfig C (md_Value m')))
     else
       rbind (proto_Unmarshal ''failed to unmarshal orderer block metadata''
         (unmarshal_OrdererBlockMetadata C (md_Value m))) (\<lambda>obm.
       case obm_LastConfig obm of None \<Rightarrow> Panic ''nil pointer dereference'' | Some i \<Rightarrow> Ok i))"

definition GetLastConfigIndexFromBlockOrPanic :: "codec \<Rightarrow> Block \<Rightarrow> uint64 result" where
  "GetLastConfigIndexFromBlockOrPanic C block = or_panic (GetLastConfigIndexFromBlock C block)"

definition InitBlockMetadata :: "Block \<Rightarrow> Block" where
  "InitBlockMetadata block =
     (case BMetadata block of
        None \<Rightarrow> block\<lparr>BMetadata := Some [[], [], [], [], []]\<rparr>
      | Some md \<Rightarrow>
          if length md < BlockMetadataIndex_COMMIT_HASH + 1 then
            block\<lparr>BMetadata := Some (md @ map (\<lambda>i. []) [length md..<Suc BlockMetadataIndex_COMMIT_HASH])\<rparr>
          else block)"

text \<open>
  The destination gets the metadata object of the source, so the padding shows in both blocks;
  the result is the pair (source, destination) after the call.
\<close>

definition CopyBlockMetadata :: "Block \<Rightarrow> Block \<Rightarrow> Block \<times> Block" where
  "CopyBlockMetadata src dst =
     (let dst' = InitBlockMetadata (dst\<lparr>BMetadata := BMetadata src\<rparr>)
      in (case BMetadata src of None \<Rightarrow> src | Some _ \<Rightarrow> src\<lparr>BMetadata := BMetadata dst'\<rparr>, dst'))"

section \<open>The header bytes determine the header\<close>

lemma length_digits_256: "n < 256 ^ Suc k \<Longrightarrow> length (digits 256 n) \<le> Suc k"
proof (induction k arbitrary: n)
  case 0
  then show ?case by (simp add: digits.simps)
next
  case (Suc k)
  have "n div 256 < 256 ^ Suc k" using Suc.prems by (simp add: less_mult_imp_div_less mult.commute)
  then have "length (digits 256 (n div 256)) \<le> Suc k" by (rule Suc.IH)
  then show ?case by (subst digits.simps) simp
qed

lemma byte_nat_inject: "m < 256 \<Longrightarrow> n < 256 \<Longrightarrow> (word_of_nat m :: byte) = word_of_nat n \<longleftrightarrow> m = n"
  by (simp add: word_of_nat_eq_iff take_bit_eq_mod)

lemma map_byte_nat_inject:
  "\<forall>x \<in> set xs \<union> set ys. x < 256 \<Longrightarrow> map (word_of_nat :: nat \<Rightarrow> byte) xs = map word_of_nat ys \<longleftrightarrow> xs = ys"
proof (induction xs arbitrary: ys)
  case (Cons x xs)
  then show ?case by (cases ys) (auto simp: byte_nat_inject)
qed auto

lemma digits_bytes_inject:
  "map (word_of_nat :: nat \<Rightarrow> byte) (digits 256 m) = map word_of_nat (digits 256 n) \<longleftrightarrow> m = n"
  by (subst map_byte_nat_inject) (auto dest: octet.digits_less)

lemma der_length_split:
  assumes m: "m < 2 ^ 64" and n: "n < 2 ^ 64" and eq: "der_length m @ xs = der_length n @ ys"
  shows "m = n \<and> xs = ys"
proof -
  have len: "length (digits 256 k) \<le> 8" if "k < 2 ^ 64" for k
    using length_digits_256 [of k 7] that by simp
  have hd: "hd (der_length k) = word_of_nat (if k < 128 then k else 128 + length (digits 256 k))" for k
    by (simp add: der_length_def Let_def del: of_nat_add)
  have "hd (der_length m) = hd (der_length n)"
    using arg_cong [OF eq, of hd] by (simp add: der_length_def Let_def split: if_splits)
  then have *: "(if m < 128 then m else 128 + length (digits 256 m)) =
      (if n < 128 then n else 128 + length (digits 256 n))"
    unfolding hd using len [OF m] len [OF n] by (subst (asm) byte_nat_inject) (auto simp del: of_nat_add)
  show ?thesis
  proof (cases "m < 128")
    case False
    then have "\<not> n < 128" "length (digits 256 m) = length (digits 256 n)" using * by (auto split: if_splits)
    then show ?thesis using False eq digits_bytes_inject by (simp add: der_length_def Let_def)
  qed (use * eq in \<open>auto simp: der_length_def Let_def split: if_splits\<close>)
qed

lemma der_tlv_split:
  "length c < 2 ^ 64 \<Longrightarrow> length c' < 2 ^ 64 \<Longrightarrow> der_tlv t c @ xs = der_tlv t' c' @ ys \<Longrightarrow>
     t = t' \<and> c = c' \<and> xs = ys"
  unfolding der_tlv_def using der_length_split [of "length c" "length c'" "c @ xs" "c' @ ys"] by auto

lemma map_unat_bytes: "\<forall>d \<in> set ds. d < 256 \<Longrightarrow> map (\<lambda>d. unat (word_of_nat d :: byte)) ds = ds"
  by (induction ds) (simp_all add: unat_of_nat take_bit_eq_mod)

definition der_integer_content :: "uint64 \<Rightarrow> bytes" where
  "der_integer_content n =
     (let b = map word_of_nat (digits 256 (unat n)) in if hd b \<ge> 0x80 then 0 # b else b)"

lemma be_val_der_integer_content: "be_val (der_integer_content n) = unat n"
proof -
  have "be_val (map word_of_nat (digits 256 (unat n))) = unat n"
    by (simp add: be_val_def comp_def map_unat_bytes octet.digits_less)
  then show ?thesis using be_val_zeros [of 1] by (simp add: der_integer_content_def Let_def)
qed

lemma length_der_integer_content: "length (der_integer_content n) \<le> 9"
  using length_digits_256 [of "unat n" 7] unsigned_less [of n, where ?'a = nat]
  by (simp add: der_integer_content_def Let_def)

lemma der_integer_alt: "der_integer n = der_tlv 2 (der_integer_content n)"
  by (simp add: der_integer_def der_integer_content_def Let_def)

lemma der_integer_split:
  assumes "der_integer m @ xs = der_integer n @ ys"
  shows "m = n \<and> xs = ys"
proof -
  have "der_integer_content m = der_integer_content n \<and> xs = ys"
    using der_tlv_split [of "der_integer_content m" "der_integer_content n" 2 xs 2 ys]
      length_der_integer_content [of m] length_der_integer_content [of n] assms
    by (simp add: der_integer_alt)
  then show ?thesis by (metis be_val_der_integer_content unsigned_word_eqI)
qed

text \<open>Slices of a size that exists in memory.\<close>

definition header_fits :: "BlockHeader \<Rightarrow> bool" where
  "header_fits h = (length (PreviousHash h) < 2 ^ 62 \<and> length (DataHash h) < 2 ^ 62)"

lemma length_der_length: "n < 2 ^ 64 \<Longrightarrow> length (der_length n) \<le> 9"
  using length_digits_256 [of n 7] by (simp add: der_length_def Let_def)

lemma length_header_content:
  assumes "header_fits h"
  shows "length (der_integer (Number h) @ der_tlv 0x04 (PreviousHash h) @ der_tlv 0x04 (DataHash h)) < 2 ^ 64"
proof -
  have tlv: "length (der_tlv t c) \<le> 10 + length c" if "length c < 2 ^ 62" for t c
    using length_der_length [of "length c"] that by (simp add: der_tlv_def)
  have "length (der_integer (Number h)) \<le> 19"
    using tlv [of "der_integer_content (Number h)" 2] length_der_integer_content [of "Number h"]
    by (simp add: der_integer_alt)
  moreover have "length (der_tlv 4 (PreviousHash h)) \<le> 10 + length (PreviousHash h)"
      "length (der_tlv 4 (DataHash h)) \<le> 10 + length (DataHash h)"
    using assms by (simp_all add: tlv header_fits_def)
  ultimately show ?thesis using assms by (simp add: header_fits_def)
qed

lemma BlockHeaderBytes_inject:
  assumes "header_fits h" "header_fits h'" "BlockHeaderBytes h = BlockHeaderBytes h'"
  shows "h = h'"
proof -
  have "der_integer (Number h) @ der_tlv 4 (PreviousHash h) @ der_tlv 4 (DataHash h) =
      der_integer (Number h') @ der_tlv 4 (PreviousHash h') @ der_tlv 4 (DataHash h')"
    using der_tlv_split [OF length_header_content [OF assms(1)] length_header_content [OF assms(2)],
        of 48 "[]" 48 "[]"] assms(3)
    by (simp add: BlockHeaderBytes_def)
  then have n: "Number h = Number h'" and
    r: "der_tlv 4 (PreviousHash h) @ der_tlv 4 (DataHash h) = der_tlv 4 (PreviousHash h') @ der_tlv 4 (DataHash h')"
    by (auto dest: der_integer_split)
  have "PreviousHash h = PreviousHash h' \<and> der_tlv 4 (DataHash h) = der_tlv 4 (DataHash h')"
    using der_tlv_split [OF _ _ r] assms(1,2) by (simp add: header_fits_def)
  moreover from this have "DataHash h = DataHash h'"
    using der_tlv_split [of "DataHash h" "DataHash h'" 4 "[]" 4 "[]"] assms(1,2) by (simp add: header_fits_def)
  ultimately show ?thesis using n by simp
qed

section \<open>The pair file\<close>

text \<open>Texts that \<open>ReadLine\<close> returns whole.\<close>

definition line_ok :: "bytes \<Rightarrow> bool" where
  "line_ok l = (10 \<notin> set l \<and> length l < 4095)"

lemma ReadLine_crlf: "line_ok l \<Longrightarrow> ReadLine (l @ crlf @ rest) = Some (l, rest)"
  by (simp add: ReadLine_def Let_def crlf_def line_ok_def takeWhile_append strip_cr_def)

lemma read_lines_Nil [simp]: "read_lines [] = []"
  by (subst read_lines.simps) (simp add: ReadLine_def)

lemma read_lines_crlf: "line_ok l \<Longrightarrow> read_lines (l @ crlf @ rest) = to_string l # read_lines rest"
  by (subst read_lines.simps) (simp add: ReadLine_crlf)

text \<open>Hexadecimal texts of reasonable size are such lines.\<close>

lemma byte_of_char_10: "byte_of_char c = 10 \<longleftrightarrow> c = CHR 0x0A"
proof -
  have "byte_of_char (CHR 0x0A) = 10" by (simp add: byte_of_char_def of_char_def)
  then show ?thesis by (metis char_of_byte_of_char)
qed

lemma line_ok_to_bytes: "line_ok (to_bytes s) \<longleftrightarrow> CHR 0x0A \<notin> set s \<and> length s < 4095"
  using byte_of_char_10 by (auto simp: line_ok_def to_bytes_def image_iff)

lemma line_ok_default: "line_ok default_r" "line_ok default_s"
  by (simp_all add: default_r_def default_s_def line_ok_to_bytes)

definition pair_file :: "bytes \<Rightarrow> bytes \<Rightarrow> bytes" where
  "pair_file r s = r @ crlf @ s @ crlf"

lemma read_lines_pair_file:
  "line_ok r \<Longrightarrow> line_ok s \<Longrightarrow> read_lines (pair_file r s) = [to_string r, to_string s]"
  using read_lines_crlf [of s "[]"] by (simp add: pair_file_def read_lines_crlf)

abbreviation deployed_hash :: "bytes \<Rightarrow> bytes \<Rightarrow> bytes \<Rightarrow> bytes result" where
  "deployed_hash msg r s \<equiv> chameleonHash param_hk param_p param_q param_g msg r s"

lemma BlockDataHash_pair:
  assumes "os_read fs (blockfile_path num) = Some (pair_file r s)" "line_ok r" "line_ok s"
  shows "BlockDataHash data num fs = (deployed_hash (concat data) r s, fs)"
  using assms by (simp add: BlockDataHash_def PathExists_def os_exists_def read_lines_pair_file)

lemma BlockDataHash_fresh:
  assumes "\<not> os_exists fs (blockfile_path num)"
  shows "BlockDataHash data num fs = (deployed_hash (concat data) default_r default_s,
     os_write (blockfile_path num) (pair_file default_r default_s)
       (os_write (blockfile_path num) (default_r @ crlf) fs))"
  using assms
  by (simp add: BlockDataHash_def PathExists_def os_exists_def os_append_def pair_file_def os_content_def
      os_read_write Let_def)

text \<open>A file with a single line is the case in which the second index is out of range.\<close>

lemma ReadLine_one:
  assumes "line_ok l" "l \<noteq> []"
  shows "ReadLine l = Some (l, [])"
proof -
  have tw: "takeWhile (\<lambda>b. b \<noteq> 10) l = l" using assms by (auto simp: line_ok_def)
  show ?thesis unfolding ReadLine_def Let_def tw using assms by (simp add: line_ok_def)
qed

lemma BlockDataHash_one_line:
  assumes "os_read fs (blockfile_path num) = Some l" "line_ok l" "l \<noteq> []"
  shows "BlockDataHash data num fs = (Panic ''index out of range'', fs)"
proof -
  have "read_lines l = [to_string l]" using assms by (subst read_lines.simps) (simp add: ReadLine_one)
  then show ?thesis using assms(1) by (simp add: BlockDataHash_def PathExists_def os_exists_def)
qed

section \<open>Metadata\<close>

lemma InitBlockMetadata_length:
  "\<exists>md. BMetadata (InitBlockMetadata b) = Some md \<and> BlockMetadataIndex_COMMIT_HASH < length md"
  by (auto simp: InitBlockMetadata_def BlockMetadataIndex_COMMIT_HASH_def split: option.split)

lemma InitBlockMetadata_idem [simp]: "InitBlockMetadata (InitBlockMetadata b) = InitBlockMetadata b"
  by (auto simp: InitBlockMetadata_def BlockMetadataIndex_COMMIT_HASH_def split: option.split)

lemma InitBlockMetadata_keeps:
  "BMetadata b = Some md \<Longrightarrow> i < length md \<Longrightarrow>
     \<exists>md'. BMetadata (InitBlockMetadata b) = Some md' \<and> i < length md' \<and> md' ! i = md ! i"
  by (auto simp: InitBlockMetadata_def nth_append)

section \<open>Properties\<close>



text \<open>The data hash is reproducible: the pair that the first call drew from the defaults and wrote
  to the file of the block number is read back by every later call, so hashing the same data for
  the same number again gives the same hash and leaves the files alone.\<close>

theorem BlockDataHash_reproducible:
  assumes "BlockDataHash data num fs = (h, fs')"
  shows "BlockDataHash data num fs' = (h, fs')"
proof (cases "os_exists fs (blockfile_path num)")
  case True
  then show ?thesis using assms
    by (auto simp: BlockDataHash_def PathExists_def Let_def split: if_splits option.splits)
next
  case False
  from BlockDataHash_fresh [OF this, of data] assms
  have h: "h = deployed_hash (concat data) default_r default_s"
    and fs': "fs' = os_write (blockfile_path num) (pair_file default_r default_s)
       (os_write (blockfile_path num) (default_r @ crlf) fs)" by simp_all
  show ?thesis
    unfolding h fs' by (rule BlockDataHash_pair) (simp_all add: os_read_write line_ok_default)
qed

theorem BlockDataHash_reproducible_witness:
  "BlockDataHash [[1], [2]] 7 (snd (BlockDataHash [[1], [2]] 7 \<lparr>files = [], dirs = [], faults = []\<rparr>)) =
   BlockDataHash [[1], [2]] 7 \<lparr>files = [], dirs = [], faults = []\<rparr>"
  using BlockDataHash_reproducible [of "[[1], [2]]" 7 "\<lparr>files = [], dirs = [], faults = []\<rparr>"]
  by (metis prod.collapse)

end
