(* ===== verification/Serialization.thy ===== *)
theory Serialization
  imports BlockUtils
begin

text \<open>
  \<open>common/ledger/blkstorage/block_serialization.go\<close>: the layout of a block in a block file and the
  positions of its transactions.
\<close>

section \<open>Definitions\<close>

record locPointer =
  lp_offset :: int
  lp_bytesLength :: int

record txindexInfo =
  ti_txID :: string
  ti_loc :: locPointer

record serializedBlockInfo =
  si_blockHeader :: BlockHeader
  si_txOffsets :: "txindexInfo list"
  si_metadata :: "bytes list option"

definition addHeaderBytes :: "BlockHeader \<Rightarrow> bytes \<Rightarrow> bytes" where
  "addHeaderBytes blockHeader buf =
     Buffer_EncodeRawBytes (PreviousHash blockHeader)
       (Buffer_EncodeRawBytes (DataHash blockHeader)
         (Buffer_EncodeVarint (Number blockHeader) buf))"

text \<open>A transaction whose identifier cannot be extracted is indexed under the empty identifier.\<close>

definition txid_or_empty :: "codec \<Rightarrow> bytes \<Rightarrow> string" where
  "txid_or_empty C txEnvelopeBytes =
     (case GetOrComputeTxIDFromEnvelope C txEnvelopeBytes of Ok txid \<Rightarrow> txid | _ \<Rightarrow> '''')"

fun addDataBytes_loop :: "codec \<Rightarrow> bytes list \<Rightarrow> bytes \<Rightarrow> txindexInfo list \<Rightarrow> txindexInfo list \<times> bytes" where
  "addDataBytes_loop C [] buf txOffsets = (txOffsets, buf)"
| "addDataBytes_loop C (txEnvelopeBytes # data) buf txOffsets =
     (let offset = length buf;
          txid = txid_or_empty C txEnvelopeBytes;
          buf' = Buffer_EncodeRawBytes txEnvelopeBytes buf;
          idxInfo = \<lparr>ti_txID = txid,
            ti_loc = \<lparr>lp_offset = int offset, lp_bytesLength = int (length buf') - int offset\<rparr>\<rparr>
      in addDataBytes_loop C data buf' (txOffsets @ [idxInfo]))"

definition addDataBytesAndConstructTxIndexInfo :: "codec \<Rightarrow> bytes list \<Rightarrow> bytes \<Rightarrow> txindexInfo list \<times> bytes" where
  "addDataBytesAndConstructTxIndexInfo C blockData buf =
     addDataBytes_loop C blockData (Buffer_EncodeVarint (word_of_nat (length blockData)) buf) []"

text \<open>The loop ranges over a field of the metadata even when the pointer is nil.\<close>

definition addMetadataBytes :: "bytes list option \<Rightarrow> bytes \<Rightarrow> bytes result" where
  "addMetadataBytes blockMetadata buf =
     (let numItems = (case blockMetadata of None \<Rightarrow> 0 | Some md \<Rightarrow> word_of_nat (length md));
          buf' = Buffer_EncodeVarint numItems buf
      in case blockMetadata of
           None \<Rightarrow> Panic ''nil pointer dereference''
         | Some md \<Rightarrow> Ok (fold Buffer_EncodeRawBytes md buf'))"

definition serializeBlock :: "codec \<Rightarrow> Block \<Rightarrow> (bytes \<times> serializedBlockInfo) result" where
  "serializeBlock C block =
     (let buf1 = addHeaderBytes (BHeader block) [];
          (txOffsets, buf2) = addDataBytesAndConstructTxIndexInfo C (BData block) buf1
      in rbind (addMetadataBytes (BMetadata block) buf2) (\<lambda>buf3.
         Ok (buf3, \<lparr>si_blockHeader = BHeader block, si_txOffsets = txOffsets, si_metadata = BMetadata block\<rparr>)))"

definition SerializeBlock :: "codec \<Rightarrow> Block \<Rightarrow> (bytes \<times> serializedBlockInfo) result" where
  "SerializeBlock C block =
     (let buf1 = addHeaderBytes (BHeader block) [];
          (txOffsets, buf2) = addDataBytesAndConstructTxIndexInfo C (BData block) buf1
      in rbind (addMetadataBytes (BMetadata block) buf2) (\<lambda>buf3.
         Ok (buf3, \<lparr>si_blockHeader = BHeader block, si_txOffsets = txOffsets, si_metadata = BMetadata block\<rparr>)))"

definition extractHeader :: "buffer \<Rightarrow> (BlockHeader \<times> buffer) result" where
  "extractHeader buf =
     rbind (rwrap ''error decoding the block number'' (buffer_DecodeVarint buf)) (\<lambda>(number, buf1).
     rbind (rwrap ''error decoding the data hash'' (buffer_DecodeRawBytes buf1)) (\<lambda>(dataHash, buf2).
     rbind (rwrap ''error decoding the previous hash'' (buffer_DecodeRawBytes buf2)) (\<lambda>(previousHash, buf3).
     Ok (\<lparr>Number = number, PreviousHash = previousHash, DataHash = dataHash\<rparr>, buf3))))"

text \<open>One round of the loop of \<open>extractData\<close>: the transaction and its index entry.\<close>

definition extractTx :: "codec \<Rightarrow> buffer \<Rightarrow> ((bytes \<times> txindexInfo) \<times> buffer) result" where
  "extractTx C buf =
     (let txOffset = GetBytesConsumed buf
      in rbind (rwrap ''error decoding the transaction envelope'' (buffer_DecodeRawBytes buf)) (\<lambda>(txEnvBytes, buf').
         Ok ((txEnvBytes,
              \<lparr>ti_txID = txid_or_empty C txEnvBytes,
               ti_loc = \<lparr>lp_offset = int txOffset,
                        lp_bytesLength = int (GetBytesConsumed buf') - int txOffset\<rparr>\<rparr>), buf')))"

definition extractData :: "codec \<Rightarrow> buffer \<Rightarrow> ((bytes list \<times> txindexInfo list) \<times> buffer) result" where
  "extractData C buf =
     rbind (rwrap ''error decoding the length of block data'' (buffer_DecodeVarint buf)) (\<lambda>(numItems, buf1).
     rbind (dec_many (extractTx C) (unat numItems) buf1) (\<lambda>(items, buf2).
     Ok ((map fst items, map snd items), buf2)))"

definition extractMetadata :: "buffer \<Rightarrow> (bytes list \<times> buffer) result" where
  "extractMetadata buf =
     rbind (rwrap ''error decoding the length of block metadata'' (buffer_DecodeVarint buf)) (\<lambda>(numItems, buf1).
     dec_many (\<lambda>b. rwrap ''error decoding the block metadata'' (buffer_DecodeRawBytes b)) (unat numItems) buf1)"

definition deserializeBlock :: "codec \<Rightarrow> bytes \<Rightarrow> Block result" where
  "deserializeBlock C serializedBlockBytes =
     rbind (extractHeader (newBuffer serializedBlockBytes)) (\<lambda>(header, b1).
     rbind (extractData C b1) (\<lambda>((data, _), b2).
     rbind (extractMetadata b2) (\<lambda>(metadata, b3).
     Ok \<lparr>BHeader = header, BData = data, BMetadata = Some metadata\<rparr>)))"

definition DeserializeBlock :: "codec \<Rightarrow> bytes \<Rightarrow> Block result" where
  "DeserializeBlock C serializedBlockBytes =
     rbind (extractHeader (newBuffer serializedBlockBytes)) (\<lambda>(header, b1).
     rbind (extractData C b1) (\<lambda>((data, _), b2).
     rbind (extractMetadata b2) (\<lambda>(metadata, b3).
     Ok \<lparr>BHeader = header, BData = data, BMetadata = Some metadata\<rparr>)))"

definition extractSerializedBlockInfo :: "codec \<Rightarrow> bytes \<Rightarrow> serializedBlockInfo result" where
  "extractSerializedBlockInfo C serializedBlockBytes =
     rbind (extractHeader (newBuffer serializedBlockBytes)) (\<lambda>(header, b1).
     rbind (extractData C b1) (\<lambda>((_, txOffsets), b2).
     rbind (extractMetadata b2) (\<lambda>(metadata, b3).
     Ok \<lparr>si_blockHeader = header, si_txOffsets = txOffsets, si_metadata = Some metadata\<rparr>)))"

section \<open>The layout\<close>

abbreviation raw :: "bytes \<Rightarrow> bytes" where
  "raw b \<equiv> Buffer_EncodeRawBytes b []"

lemma Buffer_EncodeRawBytes_append: "Buffer_EncodeRawBytes b buf = buf @ raw b"
  by (simp add: Buffer_EncodeRawBytes_def Buffer_EncodeVarint_def)

definition header_layout :: "BlockHeader \<Rightarrow> bytes" where
  "header_layout h = EncodeVarint (Number h) @ raw (DataHash h) @ raw (PreviousHash h)"

definition list_layout :: "bytes list \<Rightarrow> bytes" where
  "list_layout xs = EncodeVarint (word_of_nat (length xs)) @ concat (map raw xs)"

definition block_layout :: "Block \<Rightarrow> bytes" where
  "block_layout b =
     header_layout (BHeader b) @ list_layout (BData b) @ list_layout (the (BMetadata b))"

text \<open>The index entries of a block whose first transaction is at \<open>off\<close>.\<close>

fun tx_layout :: "codec \<Rightarrow> nat \<Rightarrow> bytes list \<Rightarrow> txindexInfo list" where
  "tx_layout C off [] = []"
| "tx_layout C off (d # ds) =
     \<lparr>ti_txID = txid_or_empty C d, ti_loc = \<lparr>lp_offset = int off, lp_bytesLength = int (length (raw d))\<rparr>\<rparr>
     # tx_layout C (off + length (raw d)) ds"

definition data_start :: "Block \<Rightarrow> nat" where
  "data_start b = length (header_layout (BHeader b) @ EncodeVarint (word_of_nat (length (BData b))))"

lemma addHeaderBytes_layout: "addHeaderBytes h buf = buf @ header_layout h"
  unfolding addHeaderBytes_def header_layout_def Buffer_EncodeVarint_def
  by (subst (1 2) Buffer_EncodeRawBytes_append) simp

lemma addDataBytes_loop_layout:
  "addDataBytes_loop C ds buf acc = (acc @ tx_layout C (length buf) ds, buf @ concat (map raw ds))"
proof (induction ds arbitrary: buf acc)
  case (Cons d ds)
  show ?case
    by (simp add: Let_def Cons.IH Buffer_EncodeRawBytes_append [of d buf])
qed simp

lemma fold_raw: "fold Buffer_EncodeRawBytes md buf = buf @ concat (map raw md)"
proof (induction md arbitrary: buf)
  case (Cons d md)
  show ?case by (simp add: Cons.IH Buffer_EncodeRawBytes_append [of d buf])
qed simp

lemma serializeBlock_layout:
  "serializeBlock C b =
     (case BMetadata b of
        None \<Rightarrow> Panic ''nil pointer dereference''
      | Some md \<Rightarrow> Ok (block_layout b,
          \<lparr>si_blockHeader = BHeader b, si_txOffsets = tx_layout C (data_start b) (BData b),
           si_metadata = Some md\<rparr>))"
  by (simp add: serializeBlock_def addHeaderBytes_layout addDataBytesAndConstructTxIndexInfo_def
      addDataBytes_loop_layout addMetadataBytes_def fold_raw Buffer_EncodeVarint_def block_layout_def
      list_layout_def data_start_def Let_def split: option.split)

lemma SerializeBlock_copy: "SerializeBlock = serializeBlock"
  by (intro ext) (simp add: SerializeBlock_def serializeBlock_def)

lemma DeserializeBlock_copy: "DeserializeBlock = deserializeBlock"
  by (intro ext) (simp add: DeserializeBlock_def deserializeBlock_def)

section \<open>Reading back\<close>

text \<open>No Go slice is longer than the largest \<open>int\<close>.\<close>

lemma unat_length: "length xs < 2 ^ 63 \<Longrightarrow> unat (word_of_nat (length xs) :: uint64) = length xs"
  by simp

lemma extractHeader_layout:
  assumes "length pre + length (header_layout h) + length rest < 2 ^ 63"
  shows "extractHeader (buffer_at pre (header_layout h @ rest)) = Ok (h, buffer_at (pre @ header_layout h) rest)"
proof -
  let ?n = "EncodeVarint (Number h)" and ?d = "raw (DataHash h)" and ?p = "raw (PreviousHash h)"
  have 1: "buffer_DecodeVarint (buffer_at pre (?n @ ?d @ ?p @ rest)) = Ok (Number h, buffer_at (pre @ ?n) (?d @ ?p @ rest))"
    using assms by (intro varint_field.dec_enc) (simp add: header_layout_def)
  have 2: "buffer_DecodeRawBytes (buffer_at (pre @ ?n) (?d @ ?p @ rest)) =
      Ok (DataHash h, buffer_at ((pre @ ?n) @ ?d) (?p @ rest))"
    using assms by (intro raw_field.dec_enc) (simp add: header_layout_def)
  have 3: "buffer_DecodeRawBytes (buffer_at ((pre @ ?n) @ ?d) (?p @ rest)) =
      Ok (PreviousHash h, buffer_at (((pre @ ?n) @ ?d) @ ?p) rest)"
    using assms by (intro raw_field.dec_enc) (simp add: header_layout_def)
  show ?thesis using 1 2 3 by (simp add: extractHeader_def header_layout_def)
qed

lemma dec_many_extractTx:
  assumes "length pre + length (concat (map raw ds)) + length rest < 2 ^ 63"
  shows "dec_many (extractTx C) (length ds) (buffer_at pre (concat (map raw ds) @ rest)) =
     Ok (zip ds (tx_layout C (length pre) ds), buffer_at (pre @ concat (map raw ds)) rest)"
  using assms
proof (induction ds arbitrary: pre)
  case (Cons d ds)
  have "buffer_DecodeRawBytes (buffer_at pre (raw d @ concat (map raw ds) @ rest)) =
      Ok (d, buffer_at (pre @ raw d) (concat (map raw ds) @ rest))"
    using Cons.prems by (intro raw_field.dec_enc) simp
  then have "extractTx C (buffer_at pre (raw d @ concat (map raw ds) @ rest)) =
      Ok ((d, hd (tx_layout C (length pre) (d # ds))), buffer_at (pre @ raw d) (concat (map raw ds) @ rest))"
    by (simp add: extractTx_def)
  moreover have "dec_many (extractTx C) (length ds) (buffer_at (pre @ raw d) (concat (map raw ds) @ rest)) =
      Ok (zip ds (tx_layout C (length (pre @ raw d)) ds), buffer_at ((pre @ raw d) @ concat (map raw ds)) rest)"
    using Cons.prems by (intro Cons.IH) simp
  ultimately show ?case by simp
qed simp

lemma length_tx_layout [simp]: "length (tx_layout C off ds) = length ds"
  by (induction ds arbitrary: off) simp_all

lemma length_raw_ge: "length xs \<le> length (concat (map raw xs))"
proof (induction xs)
  case (Cons x xs)
  have "raw x \<noteq> []" by (simp add: Buffer_EncodeRawBytes_def Buffer_EncodeVarint_def)
  then have "Suc 0 \<le> length (raw x)" by (cases "raw x") simp_all
  then show ?case using Cons by simp
qed simp

lemma extractData_layout:
  assumes "length pre + length (list_layout ds) + length rest < 2 ^ 63"
  shows "extractData C (buffer_at pre (list_layout ds @ rest)) =
     Ok ((ds, tx_layout C (length (pre @ EncodeVarint (word_of_nat (length ds)))) ds), buffer_at (pre @ list_layout ds) rest)"
proof -
  let ?n = "EncodeVarint (word_of_nat (length ds))"
  have "buffer_DecodeVarint (buffer_at pre (?n @ concat (map raw ds) @ rest)) =
      Ok (word_of_nat (length ds), buffer_at (pre @ ?n) (concat (map raw ds) @ rest))"
    using assms by (intro varint_field.dec_enc) (simp add: list_layout_def)
  moreover have "unat (word_of_nat (length ds) :: uint64) = length ds"
    using assms length_raw_ge [of ds] by (intro unat_length) (simp add: list_layout_def)
  moreover have "dec_many (extractTx C) (length ds) (buffer_at (pre @ ?n) (concat (map raw ds) @ rest)) =
      Ok (zip ds (tx_layout C (length (pre @ ?n)) ds), buffer_at ((pre @ ?n) @ concat (map raw ds)) rest)"
    using assms by (intro dec_many_extractTx) (simp add: list_layout_def)
  ultimately show ?thesis by (simp add: extractData_def list_layout_def)
qed

lemma dec_many_rwrap:
  "dec_many dec n b = Ok r \<Longrightarrow> dec_many (\<lambda>b. rwrap msg (dec b)) n b = Ok r"
proof (induction n arbitrary: b r)
  case (Suc n)
  then show ?case by (fastforce simp: rbind_eq_Ok)
qed simp

lemma extractMetadata_layout:
  assumes "length pre + length (list_layout md) + length rest < 2 ^ 63"
  shows "extractMetadata (buffer_at pre (list_layout md @ rest)) = Ok (md, buffer_at (pre @ list_layout md) rest)"
proof -
  let ?n = "EncodeVarint (word_of_nat (length md))"
  have "buffer_DecodeVarint (buffer_at pre (?n @ concat (map raw md) @ rest)) =
      Ok (word_of_nat (length md), buffer_at (pre @ ?n) (concat (map raw md) @ rest))"
    using assms by (intro varint_field.dec_enc) (simp add: list_layout_def)
  moreover have "unat (word_of_nat (length md) :: uint64) = length md"
    using assms length_raw_ge [of md] by (intro unat_length) (simp add: list_layout_def)
  moreover have "dec_many buffer_DecodeRawBytes (length md) (buffer_at (pre @ ?n) (concat (map raw md) @ rest)) =
      Ok (md, buffer_at ((pre @ ?n) @ concat (map raw md)) rest)"
    using assms by (intro raw_field.dec_many_enc) (simp add: list_layout_def)
  ultimately show ?thesis
    by (simp add: extractMetadata_def list_layout_def dec_many_rwrap)
qed

lemma block_layout_extract:
  assumes "length (block_layout b) < 2 ^ 63" "BMetadata b = Some md"
  shows "\<exists>b1 b2 b3. extractHeader (newBuffer (block_layout b)) = Ok (BHeader b, b1) \<and>
     extractData C b1 = Ok ((BData b, tx_layout C (data_start b) (BData b)), b2) \<and>
     extractMetadata b2 = Ok (md, b3)"
proof -
  let ?h = "header_layout (BHeader b)" and ?d = "list_layout (BData b)" and ?m = "list_layout md"
  have l: "length ?h + length ?d + length ?m < 2 ^ 63" using assms by (simp add: block_layout_def)
  have "extractHeader (buffer_at [] (?h @ ?d @ ?m)) = Ok (BHeader b, buffer_at ([] @ ?h) (?d @ ?m))"
    using l by (intro extractHeader_layout) simp
  moreover have "extractData C (buffer_at ?h (?d @ ?m)) =
      Ok ((BData b, tx_layout C (length (?h @ EncodeVarint (word_of_nat (length (BData b))))) (BData b)),
          buffer_at (?h @ ?d) ?m)"
    using l by (intro extractData_layout) simp
  moreover have "extractMetadata (buffer_at (?h @ ?d) (?m @ [])) = Ok (md, buffer_at ((?h @ ?d) @ ?m) [])"
    using l by (intro extractMetadata_layout) simp
  ultimately show ?thesis
    by (simp add: newBuffer_at block_layout_def assms(2) data_start_def)
qed

lemma deserializeBlock_layout:
  assumes "length (block_layout b) < 2 ^ 63" "BMetadata b = Some md"
  shows "deserializeBlock C (block_layout b) = Ok b"
  using block_layout_extract [OF assms, of C] assms(2) by (auto simp: deserializeBlock_def)

lemma extractSerializedBlockInfo_layout:
  assumes "length (block_layout b) < 2 ^ 63" "BMetadata b = Some md"
  shows "extractSerializedBlockInfo C (block_layout b) =
     Ok \<lparr>si_blockHeader = BHeader b, si_txOffsets = tx_layout C (data_start b) (BData b), si_metadata = Some md\<rparr>"
  using block_layout_extract [OF assms, of C] by (auto simp: extractSerializedBlockInfo_def)

text \<open>The bytes an index entry points at are the encoded transaction.\<close>

lemma tx_layout_bytes:
  assumes "i < length ds"
  shows "take (nat (lp_bytesLength (ti_loc (tx_layout C (length pre) ds ! i))))
     (drop (nat (lp_offset (ti_loc (tx_layout C (length pre) ds ! i)))) (pre @ concat (map raw ds) @ post)) = raw (ds ! i)"
  using assms
proof (induction ds arbitrary: pre i)
  case (Cons d ds)
  show ?case
  proof (cases i)
    case (Suc j)
    then show ?thesis using Cons.IH [of j "pre @ raw d"] Cons.prems by simp
  qed simp
qed simp

lemma tx_layout_bytes_block:
  assumes "i < length (BData b)" "BMetadata b = Some md"
  shows "take (nat (lp_bytesLength (ti_loc (tx_layout C (data_start b) (BData b) ! i))))
     (drop (nat (lp_offset (ti_loc (tx_layout C (data_start b) (BData b) ! i)))) (block_layout b)) = raw (BData b ! i)"
  using tx_layout_bytes [OF assms(1), of C "header_layout (BHeader b) @ EncodeVarint (word_of_nat (length (BData b)))"
      "list_layout md"]
  by (simp add: data_start_def block_layout_def list_layout_def assms(2))

lemma tx_layout_loc:
  "i < length ds \<Longrightarrow> tx_layout C off ds ! i =
     \<lparr>ti_txID = txid_or_empty C (ds ! i),
      ti_loc = \<lparr>lp_offset = int (off + length (concat (map raw (take i ds)))), lp_bytesLength = int (length (raw (ds ! i)))\<rparr>\<rparr>"
proof (induction ds arbitrary: i off)
  case (Cons d ds)
  then show ?case by (cases i) simp_all
qed simp

section \<open>Properties\<close>


definition sample_block :: Block where
  "sample_block = \<lparr>BHeader = \<lparr>Number = 3, PreviousHash = [1, 2], DataHash = [4]\<rparr>,
     BData = [[5, 6], [], [7]], BMetadata = Some [[], [9]]\<rparr>"

lemma length_sample_block: "length (block_layout sample_block) < 2 ^ 63"
  by (simp add: sample_block_def block_layout_def header_layout_def list_layout_def
      Buffer_EncodeRawBytes_def Buffer_EncodeVarint_def length_EncodeVarint SizeVarint_def)


text \<open>C30. The transaction index is right: the slice of the serialised block that the \<open>i\<close>-th entry
  names starts with the varint of the transaction's length, and the rest of the slice is the
  transaction.\<close>

theorem txOffsets_locate_transactions:
  assumes "serializeBlock C b = Ok (bs, info)" "length bs < 2 ^ 63" "i < length (BData b)"
  shows "length (si_txOffsets info) = length (BData b) \<and>
     (let loc = ti_loc (si_txOffsets info ! i);
          rawBytes = take (nat (lp_bytesLength loc)) (drop (nat (lp_offset loc)) bs);
          (len, n) = DecodeVarint rawBytes
      in len = word_of_nat (length (BData b ! i)) \<and> drop n rawBytes = BData b ! i)"
proof -
  obtain md where md: "BMetadata b = Some md" and bs: "bs = block_layout b"
    and info: "si_txOffsets info = tx_layout C (data_start b) (BData b)"
    using assms(1) by (auto simp: serializeBlock_layout split: option.splits)
  have "take (nat (lp_bytesLength (ti_loc (si_txOffsets info ! i))))
      (drop (nat (lp_offset (ti_loc (si_txOffsets info ! i)))) bs) = raw (BData b ! i)"
    unfolding info bs using assms(3) md by (rule tx_layout_bytes_block)
  moreover have "DecodeVarint (raw (BData b ! i)) =
      (word_of_nat (length (BData b ! i)), length (EncodeVarint (word_of_nat (length (BData b ! i)))))"
    by (simp add: Buffer_EncodeRawBytes_def Buffer_EncodeVarint_def DecodeVarint_EncodeVarint)
  ultimately show ?thesis
    by (simp add: info Let_def) (simp add: Buffer_EncodeRawBytes_def Buffer_EncodeVarint_def)
qed

theorem txOffsets_locate_transactions_witness:
  "\<exists>bs info. serializeBlock ref_codec sample_block = Ok (bs, info) \<and>
     length (si_txOffsets info) = 3 \<and>
     (let loc = ti_loc (si_txOffsets info ! 2);
          rawBytes = take (nat (lp_bytesLength loc)) (drop (nat (lp_offset loc)) bs);
          (len, n) = DecodeVarint rawBytes
      in len = 1 \<and> drop n rawBytes = [7])"
proof -
  obtain info where s: "serializeBlock ref_codec sample_block = Ok (block_layout sample_block, info)"
    by (simp add: serializeBlock_layout sample_block_def)
  have d: "length (BData sample_block) = 3" "BData sample_block ! 2 = [7]" by (simp_all add: sample_block_def)
  show ?thesis
    using s txOffsets_locate_transactions [OF s length_sample_block, of 2] unfolding d by auto
qed

end
