(* ===== verification/BlockStream.thy ===== *)
theory BlockStream
  imports Serialization
begin

text \<open>
  \<open>common/ledger/blkstorage/block_stream.go\<close>: reading the blocks of one file, and of a sequence of
  files, in the order they were written.  A stream keeps its offset; every call reads the file as
  it is at that moment.  The scans for the last complete block (\<open>blockfile_mgr.go\<close>) follow.
\<close>

section \<open>Definitions\<close>

definition blockfilePrefix :: string where "blockfilePrefix = ''blockfile_''"

text \<open>\<open>fmt.Sprintf("%06d", n)\<close>\<close>

definition Sprintf_06d :: "int \<Rightarrow> string" where
  "Sprintf_06d n =
     (if 0 \<le> n then pad6 (nat n)
      else ''-'' @ replicate (5 - length (show_nat 10 (nat (- n)))) CHR ''0'' @ show_nat 10 (nat (- n)))"

definition deriveBlockfilePath :: "string \<Rightarrow> int \<Rightarrow> string" where
  "deriveBlockfilePath rootDir suffixNum = rootDir @ ''/'' @ blockfilePrefix @ Sprintf_06d suffixNum"

record blockfileStream =
  fs_fileNum :: int
  fs_file :: string
  fs_currentOffset :: int

record blockStream =
  bs_rootDir :: string
  bs_currentFileNum :: int
  bs_endFileNum :: int
  bs_currentFileStream :: blockfileStream

record blockPlacementInfo =
  bp_fileNum :: int
  bp_blockStartOffset :: int
  bp_blockBytesOffset :: int

definition newBlockfileStream :: "string \<Rightarrow> int \<Rightarrow> int \<Rightarrow> os \<Rightarrow> blockfileStream result" where
  "newBlockfileStream rootDir fileNum startOffset fs =
     (let filePath = deriveBlockfilePath rootDir fileNum in
      case os_read fs filePath of
        None \<Rightarrow> Err (ErrWrap ''error opening block file %s'' ErrNotExist)
      | Some c \<Rightarrow>
          if startOffset < 0 then
            Err (ErrWrap ''error seeking block file [%s] to startOffset [%d]'' (ErrMsg ''invalid argument''))
          else Ok \<lparr>fs_fileNum = fileNum, fs_file = filePath, fs_currentOffset = startOffset\<rparr>)"

text \<open>The result is \<open>None\<close> when the source returns three nils: the file is exhausted.\<close>

definition stream_nextBlockBytesAndPlacementInfo ::
  "blockfileStream \<Rightarrow> os \<Rightarrow> ((bytes \<times> blockPlacementInfo) option \<times> blockfileStream) result" where
  "stream_nextBlockBytesAndPlacementInfo s fs =
     (let content = os_content fs (fs_file s);
          size = int (length content)
      in if fs_currentOffset s = size then Ok (None, s)
         else
           (let remainingBytes = size - fs_currentOffset s;
                moreContentAvailable = (\<not> remainingBytes < 8);
                peekBytes = (if remainingBytes < 8 then remainingBytes else 8)
            in if peekBytes < 0 then
                 Err (ErrWrap ''error peeking [%d] bytes from block file'' (ErrMsg ''bufio: negative count''))
               else
                 (let rest = drop (nat (fs_currentOffset s)) content;
                      lenBytes = take (nat peekBytes) rest;
                      (length, n) = DecodeVarint lenBytes
                  in if n = 0 then
                       (if \<not> moreContentAvailable then Err ErrUnexpectedEndOfBlockfile
                        else Panic ''Error in decoding varint bytes [%#v]'')
                     else
                       (let bytesExpected = sint (word_of_nat n + length :: uint64)
                        in if bytesExpected > remainingBytes then Err ErrUnexpectedEndOfBlockfile
                           else Ok (Some (take (unat length) (drop n rest),
                                \<lparr>bp_fileNum = fs_fileNum s, bp_blockStartOffset = fs_currentOffset s,
                                 bp_blockBytesOffset = fs_currentOffset s + int n\<rparr>),
                                s\<lparr>fs_currentOffset := fs_currentOffset s + (int n + int (unat length))\<rparr>)))))"

definition stream_nextBlockBytes :: "blockfileStream \<Rightarrow> os \<Rightarrow> (bytes option \<times> blockfileStream) result" where
  "stream_nextBlockBytes s fs =
     rbind (stream_nextBlockBytesAndPlacementInfo s fs) (\<lambda>(r, s'). Ok (map_option fst r, s'))"

section \<open>Progress\<close>

lemma DecodeVarint_loop_bound:
  "DecodeVarint_loop buf shift x n = (y, m) \<Longrightarrow> m = 0 \<or> n < m \<and> m \<le> n + length buf"
proof (induction buf arbitrary: shift x n)
  case (Cons b bs)
  show ?case
  proof (cases "shift < 64 \<and> ucast b AND 0x80 \<noteq> (0 :: uint64)")
    case True
    then show ?thesis
      using Cons.prems Cons.IH [of "shift + 7" "x OR push_bit shift (ucast b AND 0x7F)" "n + 1"]
      by (auto simp: Let_def simp del: push_bit_and)
  next
    case False
    then show ?thesis using Cons.prems by (auto simp: Let_def split: if_splits)
  qed
qed simp

lemma stream_next_progress:
  assumes "stream_nextBlockBytesAndPlacementInfo s fs = Ok (Some r, s')"
  shows "fs_file s' = fs_file s \<and> fs_fileNum s' = fs_fileNum s \<and>
    fs_currentOffset s < fs_currentOffset s' \<and>
    fs_currentOffset s < int (length (os_content fs (fs_file s)))"
proof -
  define peek where "peek = (let rem = int (length (os_content fs (fs_file s))) - fs_currentOffset s
    in if rem < 8 then rem else 8)"
  define d where "d = DecodeVarint (take (nat peek) (drop (nat (fs_currentOffset s)) (os_content fs (fs_file s))))"
  have "\<not> peek < 0" "fs_currentOffset s \<noteq> int (length (os_content fs (fs_file s)))" "snd d \<noteq> 0"
    and "s' = s\<lparr>fs_currentOffset := fs_currentOffset s + (int (snd d) + int (unat (fst d)))\<rparr>"
    using assms
    by (simp_all add: stream_nextBlockBytesAndPlacementInfo_def Let_def d_def peek_def split_beta split: if_splits)
  moreover from this have "0 < int (snd d) + int (unat (fst d))" by linarith
  ultimately show ?thesis by (auto simp: peek_def Let_def split: if_splits)
qed

lemma stream_nextBlockBytes_progress:
  "stream_nextBlockBytes s fs = Ok (Some b, s') \<Longrightarrow>
     fs_file s' = fs_file s \<and> fs_currentOffset s < fs_currentOffset s' \<and>
     fs_currentOffset s < int (length (os_content fs (fs_file s)))"
  by (auto simp: stream_nextBlockBytes_def rbind_eq_Ok dest: stream_next_progress)

section \<open>Scanning\<close>

text \<open>
  The loop of \<open>scanForLastCompleteBlock\<close>: the last block, the stream, the number of blocks and the
  error that ended the loop, if any.
\<close>

function scan_loop ::
  "os \<Rightarrow> blockfileStream \<Rightarrow> bytes option \<Rightarrow> nat
    \<Rightarrow> (bytes option \<times> blockfileStream \<times> nat \<times> goerr option) result" where
  "scan_loop fs s lastBlockBytes numBlocks =
     (case stream_nextBlockBytes s fs of
        Panic p \<Rightarrow> Panic p
      | Err e \<Rightarrow> Ok (lastBlockBytes, s, numBlocks, Some e)
      | Ok (None, s') \<Rightarrow> Ok (lastBlockBytes, s', numBlocks, None)
      | Ok (Some blockBytes, s') \<Rightarrow> scan_loop fs s' (Some blockBytes) (numBlocks + 1))"
  by pat_completeness auto
termination
  by (relation "measure (\<lambda>(fs, s, _). nat (int (length (os_content fs (fs_file s))) - fs_currentOffset s))")
     (auto dest!: stream_nextBlockBytes_progress)

declare scan_loop.simps [simp del]

definition scanForLastCompleteBlock :: "string \<Rightarrow> int \<Rightarrow> int \<Rightarrow> os \<Rightarrow> (bytes option \<times> int \<times> nat) result" where
  "scanForLastCompleteBlock rootDir fileNum startingOffset fs =
     rbind (newBlockfileStream rootDir fileNum startingOffset fs) (\<lambda>s.
     rbind (scan_loop fs s None 0) (\<lambda>(lastBlockBytes, s', numBlocks, errRead).
     case errRead of
       None \<Rightarrow> Ok (lastBlockBytes, fs_currentOffset s', numBlocks)
     | Some e \<Rightarrow>
         if e = ErrUnexpectedEndOfBlockfile then Ok (lastBlockBytes, fs_currentOffset s', numBlocks)
         else Err e))"

text \<open>
  The exported variant leaves the loop after the first block.  Its callers ignore the error, so the
  result keeps the values that come back with it.
\<close>

definition ScanForLastCompleteBlock ::
  "string \<Rightarrow> int \<Rightarrow> int \<Rightarrow> os \<Rightarrow> (bytes option \<times> int \<times> nat \<times> goerr option) result" where
  "ScanForLastCompleteBlock rootDir fileNum startingOffset fs =
     (case newBlockfileStream rootDir fileNum startingOffset fs of
        Panic p \<Rightarrow> Panic p
      | Err e \<Rightarrow> Ok (None, 0, 0, Some e)
      | Ok s \<Rightarrow>
          (case stream_nextBlockBytes s fs of
             Panic p \<Rightarrow> Panic p
           | Err e \<Rightarrow> Ok (None, fs_currentOffset s, 0, if e = ErrUnexpectedEndOfBlockfile then None else Some e)
           | Ok (None, s') \<Rightarrow> Ok (None, fs_currentOffset s', 0, None)
           | Ok (Some blockBytes, s') \<Rightarrow> Ok (Some blockBytes, fs_currentOffset s', 1, None)))"

section \<open>Frames\<close>

text \<open>
  A block file is a sequence of frames: the length of the block as a varint, then its bytes.  The
  reader looks at eight bytes for the length, so a frame it can read is shorter than \<open>2 ^ 56\<close>.
\<close>

definition frame_fits :: "bytes \<Rightarrow> bool" where
  "frame_fits b = (length b < 2 ^ 56)"

lemma length_varint_frame: "frame_fits b \<Longrightarrow> length (EncodeVarint (word_of_nat (length b))) \<le> 8"
proof -
  assume "frame_fits b"
  then have "(word_of_nat (length b) :: uint64) < 2 ^ 56"
    by (simp add: frame_fits_def word_less_nat_alt)
  then show ?thesis by (simp add: length_EncodeVarint SizeVarint_def)
qed

lemma raw_frame: "raw b = EncodeVarint (word_of_nat (length b)) @ b"
  by (simp add: Buffer_EncodeRawBytes_def Buffer_EncodeVarint_def)

definition stream_at :: "string \<Rightarrow> int \<Rightarrow> nat \<Rightarrow> blockfileStream" where
  "stream_at path num off = \<lparr>fs_fileNum = num, fs_file = path, fs_currentOffset = int off\<rparr>"

text \<open>What a call reads from the bytes that are left: the block, and the sizes of its length and body.\<close>

definition next_frame :: "bytes \<Rightarrow> (bytes \<times> nat \<times> nat) result" where
  "next_frame rest =
     (let (l, n) = DecodeVarint (take 8 rest)
      in if n = 0 then
           (if List.length rest < 8 then Err ErrUnexpectedEndOfBlockfile
            else Panic ''Error in decoding varint bytes [%#v]'')
         else if sint (word_of_nat n + l :: uint64) > int (List.length rest) then Err ErrUnexpectedEndOfBlockfile
         else Ok (take (unat l) (drop n rest), n, unat l))"

lemma stream_next_frame_eq:
  assumes c: "os_content fs path = pre @ rest"
  shows "stream_nextBlockBytesAndPlacementInfo (stream_at path num (length pre)) fs =
     (if rest = [] then Ok (None, stream_at path num (length pre))
      else rbind (next_frame rest) (\<lambda>(b, n, l).
        Ok (Some (b, \<lparr>bp_fileNum = num, bp_blockStartOffset = int (length pre),
                      bp_blockBytesOffset = int (length pre + n)\<rparr>),
            stream_at path num (length pre + n + l))))"
proof (cases "rest = []")
  case False
  have peek: "take (nat (if int (length rest) < 8 then int (length rest) else 8)) rest = take 8 rest"
    by auto
  have p0: "\<not> (if int (length rest) < 8 then int (length rest) else 8) < 0" by simp
  obtain l n where d: "DecodeVarint (take 8 rest) = (l, n)" by fastforce
  have "stream_nextBlockBytesAndPlacementInfo (stream_at path num (length pre)) fs =
      (if n = 0 then
         (if length rest < 8 then Err ErrUnexpectedEndOfBlockfile
          else Panic ''Error in decoding varint bytes [%#v]'')
       else if sint (word_of_nat n + l :: uint64) > int (length rest) then Err ErrUnexpectedEndOfBlockfile
       else Ok (Some (take (unat l) (drop n rest),
              \<lparr>bp_fileNum = num, bp_blockStartOffset = int (length pre), bp_blockBytesOffset = int (length pre) + int n\<rparr>),
            stream_at path num (length pre + n + unat l)))"
    using False peek p0 d
    by (simp add: stream_nextBlockBytesAndPlacementInfo_def Let_def stream_at_def c)
  then show ?thesis using False by (simp add: next_frame_def d)
qed (simp add: stream_nextBlockBytesAndPlacementInfo_def stream_at_def c)

lemma next_frame_raw:
  assumes "frame_fits b"
  shows "next_frame (raw b @ rest) = Ok (b, length (EncodeVarint (word_of_nat (length b))), length b)"
proof -
  let ?e = "EncodeVarint (word_of_nat (length b))"
  have e8: "length ?e \<le> 8" using assms by (rule length_varint_frame)
  have len: "length b < 2 ^ 56" using assms by (simp add: frame_fits_def)
  have "take 8 (raw b @ rest) = ?e @ take (8 - length ?e) (b @ rest)" using e8 by (simp add: raw_frame)
  then have d: "DecodeVarint (take 8 (raw b @ rest)) = (word_of_nat (length b), length ?e)"
    by (simp only: DecodeVarint_EncodeVarint)
  have s: "sint (word_of_nat (length ?e) + word_of_nat (length b) :: uint64) = int (length ?e + length b)"
    using sint_small [of "length ?e + length b"] e8 len by simp
  have u: "unat (word_of_nat (length b) :: uint64) = length b" using len by simp
  show ?thesis
    unfolding next_frame_def d Let_def prod.case s u by (simp add: raw_frame)
qed

text \<open>A frame that was cut off is reported as such.\<close>

lemma DecodeVarint_loop_cut:
  "k < length (EncodeVarint x) \<Longrightarrow> DecodeVarint_loop (take k (EncodeVarint x)) shift y n = (0, 0)"
proof (induction x arbitrary: k shift y n rule: EncodeVarint.induct)
  case (1 x)
  show ?case
  proof (cases "x > 127")
    case False
    then show ?thesis using "1.prems" by (simp add: EncodeVarint_small)
  next
    case True
    note e = EncodeVarint_big [OF True]
    show ?thesis
    proof (cases k)
      case (Suc j)
      then have "j < length (EncodeVarint (drop_bit 7 x))" using "1.prems" unfolding e by simp
      then have "DecodeVarint_loop (take j (EncodeVarint (drop_bit 7 x))) s z m = (0, 0)" for s z m
        by (rule "1.IH" [OF True])
      then show ?thesis
        unfolding e Suc take_Suc_Cons DecodeVarint_loop.simps Let_def using cont_high by simp
    qed simp
  qed
qed

lemma next_frame_cut:
  assumes "frame_fits b" "k < length (raw b)"
  shows "next_frame (take k (raw b)) = Err ErrUnexpectedEndOfBlockfile"
proof -
  let ?e = "EncodeVarint (word_of_nat (length b))"
  have e8: "length ?e \<le> 8" using assms(1) by (rule length_varint_frame)
  have len: "length b < 2 ^ 56" using assms(1) by (simp add: frame_fits_def)
  show ?thesis
  proof (cases "k < length ?e")
    case True
    then have t: "take 8 (take k (raw b)) = take k ?e" using e8 by (simp add: raw_frame min_def)
    have "DecodeVarint (take k ?e) = (0, 0)"
      unfolding DecodeVarint_def using True by (rule DecodeVarint_loop_cut)
    moreover have "length (take k (raw b)) < 8" using True e8 by simp
    ultimately show ?thesis unfolding next_frame_def t by simp
  next
    case False
    then obtain j where k: "k = length ?e + j" using le_Suc_ex not_less by blast
    have r: "take k (raw b) = ?e @ take j b" by (simp add: k raw_frame)
    have t: "take 8 (take k (raw b)) = ?e @ take (8 - length ?e) (take j b)" unfolding r using e8 by simp
    have d: "DecodeVarint (take 8 (take k (raw b))) = (word_of_nat (length b), length ?e)"
      unfolding t by (rule DecodeVarint_EncodeVarint)
    have s: "sint (word_of_nat (length ?e) + word_of_nat (length b) :: uint64) = int (length ?e + length b)"
      using sint_small [of "length ?e + length b"] e8 len by simp
    have l: "length (take k (raw b)) < length ?e + length b" using assms(2) by (simp add: raw_frame)
    show ?thesis unfolding next_frame_def d Let_def prod.case s using l by simp
  qed
qed

text \<open>What a crash while a frame was written may leave at the end of a file: a proper prefix of it.\<close>

definition torn_frame :: "bytes \<Rightarrow> bool" where
  "torn_frame t = (\<exists>b k. frame_fits b \<and> k < length (raw b) \<and> t = take k (raw b))"

lemma torn_frame_Nil [simp]: "torn_frame []"
proof -
  have "frame_fits []" "0 < length (raw [])" by (simp_all add: frame_fits_def raw_frame)
  then show ?thesis unfolding torn_frame_def by (metis take0)
qed

definition frames :: "bytes list \<Rightarrow> bytes" where
  "frames bs = concat (map raw bs)"

lemma frames_simps [simp]:
  "frames [] = []" "frames (b # bs) = raw b @ frames bs" "frames (bs @ cs) = frames bs @ frames cs"
  by (simp_all add: frames_def)

lemma stream_nextBlockBytes_raw:
  assumes "os_content fs path = pre @ raw b @ rest" "frame_fits b"
  shows "stream_nextBlockBytes (stream_at path num (length pre)) fs =
     Ok (Some b, stream_at path num (length (pre @ raw b)))"
  unfolding stream_nextBlockBytes_def stream_next_frame_eq [OF assms(1)]
  using next_frame_raw [OF assms(2), of rest] by (simp add: raw_frame add.assoc)

lemma stream_nextBlockBytes_end:
  assumes "os_content fs path = pre @ t" "torn_frame t"
  shows "stream_nextBlockBytes (stream_at path num (length pre)) fs =
     (if t = [] then Ok (None, stream_at path num (length pre)) else Err ErrUnexpectedEndOfBlockfile)"
proof -
  have "t \<noteq> [] \<Longrightarrow> next_frame t = Err ErrUnexpectedEndOfBlockfile"
    using assms(2) by (auto simp: torn_frame_def next_frame_cut)
  then show ?thesis
    unfolding stream_nextBlockBytes_def stream_next_frame_eq [OF assms(1)] by simp
qed

lemma scan_loop_frames:
  assumes "os_content fs path = pre @ frames bs @ t" "torn_frame t" "\<forall>b \<in> set bs. frame_fits b"
  shows "scan_loop fs (stream_at path num (length pre)) lb n =
     Ok (if bs = [] then lb else Some (last bs), stream_at path num (length (pre @ frames bs)), n + length bs,
         if t = [] then None else Some ErrUnexpectedEndOfBlockfile)"
  using assms
proof (induction bs arbitrary: pre lb n)
  case Nil
  then show ?case
    by (subst scan_loop.simps) (simp add: stream_nextBlockBytes_end)
next
  case (Cons b bs)
  have "stream_nextBlockBytes (stream_at path num (length pre)) fs =
      Ok (Some b, stream_at path num (length (pre @ raw b)))"
    using Cons.prems by (intro stream_nextBlockBytes_raw) simp_all
  moreover have "scan_loop fs (stream_at path num (length (pre @ raw b))) (Some b) (n + 1) =
     Ok (if bs = [] then Some b else Some (last bs), stream_at path num (length ((pre @ raw b) @ frames bs)),
         (n + 1) + length bs, if t = [] then None else Some ErrUnexpectedEndOfBlockfile)"
    using Cons.prems by (intro Cons.IH) simp_all
  ultimately show ?case by (subst scan_loop.simps) simp
qed

lemma scanForLastCompleteBlock_frames:
  assumes "os_read fs (deriveBlockfilePath rootDir num) = Some (pre @ frames bs @ t)"
    and "torn_frame t" "\<forall>b \<in> set bs. frame_fits b"
  shows "scanForLastCompleteBlock rootDir num (int (length pre)) fs =
     Ok (if bs = [] then None else Some (last bs), int (length (pre @ frames bs)), length bs)"
proof -
  let ?path = "deriveBlockfilePath rootDir num"
  have c: "os_content fs ?path = pre @ frames bs @ t" using assms(1) by (simp add: os_content_def)
  have "newBlockfileStream rootDir num (int (length pre)) fs = Ok (stream_at ?path num (length pre))"
    using assms(1) by (simp add: newBlockfileStream_def stream_at_def Let_def)
  then show ?thesis
    using scan_loop_frames [OF c assms(2,3), of num None 0]
    by (simp add: scanForLastCompleteBlock_def stream_at_def)
qed

section \<open>Streams over several files\<close>

subsection \<open>File names\<close>

lemma digit_val_0: "digit_val (CHR ''0'') = Some 0"
  by (simp add: digit_val_def)

lemma read_nat_zeros: "read_nat 10 (replicate k (CHR ''0'') @ show_nat 10 n) = n"
  using dec.read_show [of n] by (simp add: read_nat_def digit_val_0 from_digits_zeros)

lemma read_nat_pad6 [simp]: "read_nat 10 (pad6 n) = n"
  by (simp add: pad6_def Let_def read_nat_zeros)

lemma hd_pad6: "pad6 n \<noteq> [] \<and> hd (pad6 n) \<noteq> CHR ''-''"
  using dec.hd_show_nat [of n] by (simp add: pad6_def Let_def hd_append)

lemma Sprintf_06d_inject: "Sprintf_06d m = Sprintf_06d n \<longleftrightarrow> m = n"
proof
  assume eq: "Sprintf_06d m = Sprintf_06d n"
  have neg: "hd (Sprintf_06d k) = CHR ''-'' \<longleftrightarrow> k < 0" for k
    using hd_pad6 [of "nat k"] by (simp add: Sprintf_06d_def)
  have val: "read_nat 10 (if k < 0 then tl (Sprintf_06d k) else Sprintf_06d k) = nat \<bar>k\<bar>" for k
    by (simp add: Sprintf_06d_def read_nat_zeros)
  have "m < 0 \<longleftrightarrow> n < 0" using neg eq by metis
  moreover have "nat \<bar>m\<bar> = nat \<bar>n\<bar>" using val [of m] val [of n] eq calculation by (simp split: if_splits)
  ultimately show "m = n" by auto
qed simp

lemma deriveBlockfilePath_inject [simp]:
  "deriveBlockfilePath root m = deriveBlockfilePath root n \<longleftrightarrow> m = n"
  by (simp add: deriveBlockfilePath_def Sprintf_06d_inject)

definition later_files :: "os \<Rightarrow> string \<Rightarrow> int \<Rightarrow> int set" where
  "later_files fs root cur = {n. cur < n \<and> os_read fs (deriveBlockfilePath root n) \<noteq> None}"

lemma finite_later_files: "finite (later_files fs root cur)"
proof -
  have "later_files fs root cur \<subseteq> deriveBlockfilePath root -` (fst ` set (files fs))"
    by (force simp: later_files_def os_read_def dest!: map_of_SomeD)
  moreover have "finite (deriveBlockfilePath root -` (fst ` set (files fs)))"
    by (rule finite_vimageI) (auto simp: inj_def)
  ultimately show ?thesis by (rule finite_subset)
qed

lemma newBlockfileStream_Ok:
  "newBlockfileStream root num off fs = Ok s \<longleftrightarrow>
     os_read fs (deriveBlockfilePath root num) \<noteq> None \<and> 0 \<le> off \<and>
     s = \<lparr>fs_fileNum = num, fs_file = deriveBlockfilePath root num, fs_currentOffset = off\<rparr>"
  by (auto simp: newBlockfileStream_def Let_def split: option.splits)

lemma later_files_step:
  assumes "newBlockfileStream root (cur + 1) 0 fs = Ok s"
  shows "card (later_files fs root (cur + 1)) < card (later_files fs root cur)"
proof (rule psubset_card_mono [OF finite_later_files])
  have "cur + 1 \<in> later_files fs root cur"
    using assms by (simp add: newBlockfileStream_Ok later_files_def)
  moreover have "cur + 1 \<notin> later_files fs root (cur + 1)" by (simp add: later_files_def)
  moreover have "later_files fs root (cur + 1) \<subseteq> later_files fs root cur" by (auto simp: later_files_def)
  ultimately show "later_files fs root (cur + 1) \<subset> later_files fs root cur" by blast
qed

subsection \<open>Operations\<close>

definition newBlockStream :: "string \<Rightarrow> int \<Rightarrow> int \<Rightarrow> int \<Rightarrow> os \<Rightarrow> blockStream result" where
  "newBlockStream rootDir startFileNum startOffset endFileNum fs =
     rbind (newBlockfileStream rootDir startFileNum startOffset fs) (\<lambda>s.
     Ok \<lparr>bs_rootDir = rootDir, bs_currentFileNum = startFileNum, bs_endFileNum = endFileNum,
         bs_currentFileStream = s\<rparr>)"

definition moveToNextBlockfileStream :: "blockStream \<Rightarrow> os \<Rightarrow> blockStream result" where
  "moveToNextBlockfileStream s fs =
     rbind (newBlockfileStream (bs_rootDir s) (bs_currentFileNum s + 1) 0 fs) (\<lambda>cs.
     Ok (s\<lparr>bs_currentFileNum := bs_currentFileNum s + 1, bs_currentFileStream := cs\<rparr>))"

function nextBlockBytesAndPlacementInfo ::
  "blockStream \<Rightarrow> os \<Rightarrow> ((bytes \<times> blockPlacementInfo) option \<times> blockStream) result" where
  "nextBlockBytesAndPlacementInfo s fs =
     (case stream_nextBlockBytesAndPlacementInfo (bs_currentFileStream s) fs of
        Panic p \<Rightarrow> Panic p
      | Err e \<Rightarrow> Err e
      | Ok (r, cs) \<Rightarrow>
          (let s1 = s\<lparr>bs_currentFileStream := cs\<rparr>
           in if r = None \<and> (bs_currentFileNum s < bs_endFileNum s \<or> bs_endFileNum s < 0) then
                (case moveToNextBlockfileStream s1 fs of
                   Panic p \<Rightarrow> Panic p
                 | Err e \<Rightarrow> Err e
                 | Ok s2 \<Rightarrow> nextBlockBytesAndPlacementInfo s2 fs)
              else Ok (r, s1)))"
  by pat_completeness auto
termination
proof (relation "measure (\<lambda>(s, fs). card (later_files fs (bs_rootDir s) (bs_currentFileNum s)))", goal_cases)
  case (2 s fs a r cs s1 s2)
  then have "bs_rootDir s2 = bs_rootDir s" "bs_currentFileNum s2 = bs_currentFileNum s + 1"
    and "\<exists>x. newBlockfileStream (bs_rootDir s) (bs_currentFileNum s + 1) 0 fs = Ok x"
    by (auto simp: moveToNextBlockfileStream_def rbind_eq_Ok)
  then show ?case using later_files_step by auto
qed simp

declare nextBlockBytesAndPlacementInfo.simps [simp del]

definition nextBlockBytes :: "blockStream \<Rightarrow> os \<Rightarrow> (bytes option \<times> blockStream) result" where
  "nextBlockBytes s fs = rbind (nextBlockBytesAndPlacementInfo s fs) (\<lambda>(r, s'). Ok (map_option fst r, s'))"

subsection \<open>The blocks of a directory, in order\<close>

text \<open>
  The block files of a directory hold the lists of blocks \<open>bss\<close>; a stream at \<open>(i, k)\<close> has read \<open>k\<close>
  blocks of file \<open>i\<close> and all earlier files.
\<close>

definition files_hold :: "string \<Rightarrow> bytes list list \<Rightarrow> os \<Rightarrow> bool" where
  "files_hold root bss fs \<longleftrightarrow>
     (\<forall>i < length bss. os_read fs (deriveBlockfilePath root (int i)) = Some (frames (bss ! i)) \<and>
        (\<forall>b \<in> set (bss ! i). frame_fits b))"

definition stream_pos :: "string \<Rightarrow> bytes list list \<Rightarrow> nat \<Rightarrow> nat \<Rightarrow> blockStream" where
  "stream_pos root bss i k =
     \<lparr>bs_rootDir = root, bs_currentFileNum = int i, bs_endFileNum = int (length bss) - 1,
      bs_currentFileStream =
        stream_at (deriveBlockfilePath root (int i)) (int i) (length (frames (take k (bss ! i))))\<rparr>"

definition left_to_read :: "bytes list list \<Rightarrow> nat \<Rightarrow> nat \<Rightarrow> bytes list" where
  "left_to_read bss i k = drop k (bss ! i) @ concat (drop (Suc i) bss)"

definition frame_place :: "bytes list list \<Rightarrow> nat \<Rightarrow> nat \<Rightarrow> blockPlacementInfo" where
  "frame_place bss i k =
     \<lparr>bp_fileNum = int i, bp_blockStartOffset = int (length (frames (take k (bss ! i)))),
      bp_blockBytesOffset = int (length (frames (take k (bss ! i))) +
        length (EncodeVarint (word_of_nat (length (bss ! i ! k)))))\<rparr>"

lemma stream_next_placed:
  assumes "files_hold root bss fs" "i < length bss" "k < length (bss ! i)"
  shows "nextBlockBytesAndPlacementInfo ((stream_pos root bss i k)\<lparr>bs_endFileNum := e\<rparr>) fs =
     Ok (Some (bss ! i ! k, frame_place bss i k), (stream_pos root bss i (Suc k))\<lparr>bs_endFileNum := e\<rparr>)"
proof -
  let ?path = "deriveBlockfilePath root (int i)" and ?b = "bss ! i ! k"
  have "bss ! i = take k (bss ! i) @ ?b # drop (Suc k) (bss ! i)" using assms(3) by (rule id_take_nth_drop)
  then have "frames (bss ! i) = frames (take k (bss ! i)) @ raw ?b @ frames (drop (Suc k) (bss ! i))"
    by (metis frames_simps(2,3))
  then have c: "os_content fs ?path = frames (take k (bss ! i)) @ raw ?b @ frames (drop (Suc k) (bss ! i))"
    using assms by (simp add: files_hold_def os_content_def)
  have "frame_fits ?b" using assms by (simp add: files_hold_def)
  then show ?thesis
    using assms(3) next_frame_raw [of ?b "frames (drop (Suc k) (bss ! i))"]
    by (subst nextBlockBytesAndPlacementInfo.simps)
       (simp add: stream_pos_def frame_place_def stream_next_frame_eq [OF c] take_Suc_conv_app_nth raw_frame add.assoc)
qed

lemma stream_pos_end [simp]: "(stream_pos root bss i k)\<lparr>bs_endFileNum := int (length bss) - 1\<rparr> = stream_pos root bss i k"
  by (simp add: stream_pos_def)

lemma stream_next_within:
  assumes "files_hold root bss fs" "i < length bss" "k < length (bss ! i)"
  shows "nextBlockBytesAndPlacementInfo (stream_pos root bss i k) fs =
     Ok (Some (bss ! i ! k, frame_place bss i k), stream_pos root bss i (Suc k))"
  using stream_next_placed [OF assms, of "int (length bss) - 1"] by simp

lemma stream_next_exhausted:
  assumes "files_hold root bss fs" "i < length bss" "k = length (bss ! i)"
  shows "nextBlockBytesAndPlacementInfo (stream_pos root bss i k) fs =
     (if Suc i < length bss then nextBlockBytesAndPlacementInfo (stream_pos root bss (Suc i) 0) fs
      else Ok (None, stream_pos root bss i k))"
proof -
  let ?path = "deriveBlockfilePath root (int i)"
  have c: "os_content fs ?path = frames (take k (bss ! i)) @ []"
    using assms by (simp add: files_hold_def os_content_def)
  have n: "stream_nextBlockBytesAndPlacementInfo (bs_currentFileStream (stream_pos root bss i k)) fs =
      Ok (None, bs_currentFileStream (stream_pos root bss i k))"
    unfolding stream_pos_def by (simp add: stream_next_frame_eq [OF c])
  have m: "moveToNextBlockfileStream (stream_pos root bss i k) fs = Ok (stream_pos root bss (Suc i) 0)"
    if "Suc i < length bss"
  proof -
    have "newBlockfileStream root (int i + 1) 0 fs =
        Ok (stream_at (deriveBlockfilePath root (int (Suc i))) (int (Suc i)) 0)"
      using assms(1) that by (auto simp: newBlockfileStream_Ok files_hold_def stream_at_def add.commute)
    then show ?thesis by (simp add: moveToNextBlockfileStream_def stream_pos_def add.commute)
  qed
  have u: "(stream_pos root bss i k)\<lparr>bs_currentFileStream := bs_currentFileStream (stream_pos root bss i k)\<rparr> =
      stream_pos root bss i k" by simp
  show ?thesis
  proof (cases "Suc i < length bss")
    case True
    then show ?thesis
      using n m [OF True] u
      by (subst nextBlockBytesAndPlacementInfo.simps) (simp add: stream_pos_def)
  next
    case False
    then show ?thesis
      using n u assms(2)
      by (subst nextBlockBytesAndPlacementInfo.simps) (auto simp: stream_pos_def Let_def)
  qed
qed

lemma stream_reads_in_order:
  assumes "files_hold root bss fs" "i < length bss" "k \<le> length (bss ! i)"
  shows "case left_to_read bss i k of
       [] \<Rightarrow> \<exists>s. nextBlockBytesAndPlacementInfo (stream_pos root bss i k) fs = Ok (None, s)
     | b # rest \<Rightarrow> \<exists>p i' k'. nextBlockBytesAndPlacementInfo (stream_pos root bss i k) fs =
           Ok (Some (b, p), stream_pos root bss i' k') \<and>
         i' < length bss \<and> k' \<le> length (bss ! i') \<and> left_to_read bss i' k' = rest"
  using assms(2,3)
proof (induction "length bss - i" arbitrary: i k)
  case (Suc n)
  show ?case
  proof (cases "k < length (bss ! i)")
    case True
    then have l: "left_to_read bss i k = bss ! i ! k # left_to_read bss i (Suc k)"
      by (simp add: left_to_read_def Cons_nth_drop_Suc flip: append_Cons)
    from True stream_next_within [OF assms(1) Suc.prems(1) True] Suc.prems(1) show ?thesis
      unfolding l list.case by (metis Suc_leI)
  next
    case False
    then have k: "k = length (bss ! i)" using Suc.prems by simp
    show ?thesis
    proof (cases "Suc i < length bss")
      case True
      have "left_to_read bss i k = left_to_read bss (Suc i) 0"
        using True by (simp add: left_to_read_def k flip: Cons_nth_drop_Suc)
      moreover have "n = length bss - Suc i" using Suc.hyps(2) by simp
      ultimately show ?thesis
        using stream_next_exhausted [OF assms(1) Suc.prems(1) k] True Suc.hyps(1) [of "Suc i" 0]
        by (simp split: list.splits)
    next
      case False
      then have "left_to_read bss i k = []" by (simp add: left_to_read_def k)
      then show ?thesis using stream_next_exhausted [OF assms(1) Suc.prems(1) k] False by simp
    qed
  qed
qed simp

section \<open>Properties\<close>

text \<open>C18. Recovery after a crash: when a block file holds complete blocks followed by the beginning of
  one more (a crash during the last append, possibly of nothing), scanning from the end of any
  prefix returns the last complete block, the offset right behind it and the number of complete
  blocks, without an error.\<close>

theorem scan_finds_complete_blocks:
  assumes "os_read fs (deriveBlockfilePath rootDir num) = Some (pre @ frames bs @ t)"
    and "torn_frame t" "\<forall>b \<in> set bs. frame_fits b"
  shows "scanForLastCompleteBlock rootDir num (int (length pre)) fs =
     Ok (if bs = [] then None else Some (last bs), int (length pre + length (frames bs)), length bs)"
  using scanForLastCompleteBlock_frames [OF assms] by simp

theorem scan_finds_complete_blocks_witness:
  "scanForLastCompleteBlock ''r'' 0 0
     \<lparr>files = [(deriveBlockfilePath ''r'' 0, frames [[1, 2], [3]] @ [5, 7])], dirs = [], faults = []\<rparr> =
   Ok (Some [3], int (length (frames [[1, 2], [3]])), 2)"
proof -
  let ?fs = "\<lparr>files = [(deriveBlockfilePath ''r'' 0, frames [[1, 2], [3]] @ [5, 7])], dirs = [], faults = []\<rparr>"
  have "raw [7, 7, 7, 7, 7] = [5, 7, 7, 7, 7, 7]" by (simp add: raw_frame EncodeVarint_small)
  then have "frame_fits [7, 7, 7, 7, 7] \<and> 2 < length (raw [7, 7, 7, 7, 7]) \<and> [5, 7] = take 2 (raw [7, 7, 7, 7, 7])"
    by (simp add: frame_fits_def)
  then have "torn_frame [5, 7]" unfolding torn_frame_def by blast
  moreover have "\<forall>b \<in> set [[1, 2], [3]]. frame_fits b" by (simp add: frame_fits_def)
  moreover have "os_read ?fs (deriveBlockfilePath ''r'' 0) = Some ([] @ frames [[1, 2], [3]] @ [5, 7])"
    by (simp add: os_read_def)
  ultimately show ?thesis using scan_finds_complete_blocks [of ?fs "''r''" 0 "[]" "[[1, 2], [3]]" "[5, 7]"] by simp
qed

text \<open>C31. A stream over a sequence of files returns the blocks of all files, in the order they were
  written, crossing from file to file (also over files that hold no block), and then reports the
  end.\<close>

theorem blockStream_reads_in_order:
  assumes "files_hold root bss fs" "i < length bss" "k \<le> length (bss ! i)"
  shows "case left_to_read bss i k of
       [] \<Rightarrow> \<exists>s. nextBlockBytesAndPlacementInfo (stream_pos root bss i k) fs = Ok (None, s)
     | b # rest \<Rightarrow> \<exists>p i' k'. nextBlockBytesAndPlacementInfo (stream_pos root bss i k) fs =
           Ok (Some (b, p), stream_pos root bss i' k') \<and>
         i' < length bss \<and> k' \<le> length (bss ! i') \<and> left_to_read bss i' k' = rest"
  using assms by (rule stream_reads_in_order)

theorem blockStream_reads_in_order_witness:
  "\<exists>p i' k'. nextBlockBytesAndPlacementInfo (stream_pos ''r'' [[[1]], [], [[2], [3]]] 0 1)
      \<lparr>files = [(deriveBlockfilePath ''r'' 0, frames [[1]]), (deriveBlockfilePath ''r'' 1, frames []),
               (deriveBlockfilePath ''r'' 2, frames [[2], [3]])], dirs = [], faults = []\<rparr> =
     Ok (Some ([2], p), stream_pos ''r'' [[[1]], [], [[2], [3]]] i' k') \<and>
     left_to_read [[[1]], [], [[2], [3]]] i' k' = [[3]]"
proof -
  let ?bss = "[[[1]], [], [[2], [3]]] :: bytes list list"
  let ?fs = "\<lparr>files = [(deriveBlockfilePath ''r'' 0, frames [[1]]), (deriveBlockfilePath ''r'' 1, frames []),
               (deriveBlockfilePath ''r'' 2, frames [[2], [3]])], dirs = [], faults = []\<rparr>"
  have "frame_fits [1]" "frame_fits [2]" "frame_fits [3]" by (simp_all add: frame_fits_def)
  then have "files_hold ''r'' ?bss ?fs"
    by (auto simp: files_hold_def os_read_def less_Suc_eq numeral_2_eq_2 numeral_3_eq_3)
  moreover have "left_to_read ?bss 0 1 = [[2], [3]]" by (simp add: left_to_read_def)
  ultimately show ?thesis using blockStream_reads_in_order [of "''r''" ?bss ?fs 0 1] by auto
qed

end
