(* ===== verification/FileUtil.thy ===== *)
theory FileUtil
  imports FileSystem GoStd
begin

text \<open>
  Directories, and the helpers of \<open>internal/fileutil/fileutil.go\<close>.  Paths are the cleaned rooted paths
  that the ledger builds with \<open>filepath.Join\<close>.  A directory operation fails only for a path that is
  missing or of the wrong kind; the injected faults of the file system concern the block files.
\<close>

section \<open>Paths and directories\<close>

definition path_Join :: "string \<Rightarrow> string \<Rightarrow> string" where
  "path_Join dir name = dir @ ''/'' @ name"

definition path_Dir :: "string \<Rightarrow> string" where
  "path_Dir path =
     (let q = rev (tl (dropWhile (\<lambda>c. c \<noteq> CHR ''/'') (rev path))) in if q = '''' then ''/'' else q)"

definition os_is_dir :: "os \<Rightarrow> string \<Rightarrow> bool" where
  "os_is_dir fs path = (path = ''/'' \<or> path \<in> set (dirs fs))"

text \<open>The name under which a path is an entry of a directory.\<close>

definition child_name :: "string \<Rightarrow> string \<Rightarrow> string option" where
  "child_name dir path =
     (let d = dir @ ''/''; name = drop (length d) path
      in if HasPrefix path d \<and> name \<noteq> '''' \<and> CHR ''/'' \<notin> set name then Some name else None)"

text \<open>\<open>ioutil.ReadDir\<close>: the entries in the order of their names, each with whether it is a directory.\<close>

definition os_ReadDir :: "string \<Rightarrow> os \<Rightarrow> (string \<times> bool) list result" where
  "os_ReadDir dir fs =
     (if os_is_dir fs dir then
        Ok (sort_key (\<lambda>e. to_bytes (fst e))
          (map (\<lambda>n. (n, False)) (List.map_filter (child_name dir) (map fst (files fs))) @
           map (\<lambda>n. (n, True)) (List.map_filter (child_name dir) (remdups (dirs fs)))))
      else if os_read fs dir = None then Err ErrNotExist else Err (ErrMsg ''not a directory''))"

definition path_prefixes :: "string \<Rightarrow> string list" where
  "path_prefixes path = [take i path. i \<leftarrow> [1..<length path], path ! i = CHR ''/'']"

definition os_MkdirAll :: "string \<Rightarrow> (os, unit) io" where
  "os_MkdirAll path fs =
     (if list_all (\<lambda>q. os_read fs q = None) (path_prefixes path @ [path]) then
        (Ok (), fs\<lparr>dirs := fold List.insert (path_prefixes path @ [path]) (dirs fs)\<rparr>)
      else (Err (ErrMsg ''not a directory''), fs))"

definition below :: "string \<Rightarrow> string \<Rightarrow> bool" where
  "below dir path = (path = dir \<or> HasPrefix path (dir @ ''/''))"

definition os_RemoveAll :: "string \<Rightarrow> os \<Rightarrow> os" where
  "os_RemoveAll path fs =
     fs\<lparr>files := filter (\<lambda>(p, _). \<not> below path p) (files fs), dirs := filter (\<lambda>p. \<not> below path p) (dirs fs)\<rparr>"

definition os_Rename :: "string \<Rightarrow> string \<Rightarrow> (os, unit) io" where
  "os_Rename old new fs =
     (case os_read fs old of None \<Rightarrow> (Err ErrNotExist, fs) | Some c \<Rightarrow> (Ok (), os_write new c (os_remove old fs)))"

definition os_Remove :: "string \<Rightarrow> (os, unit) io" where
  "os_Remove path fs = (if os_read fs path = None then (Err ErrNotExist, fs) else (Ok (), os_remove path fs))"

definition os_Truncate :: "string \<Rightarrow> nat \<Rightarrow> (os, unit) io" where
  "os_Truncate path newSize fs =
     (case os_read fs path of
        None \<Rightarrow> (Err ErrNotExist, fs)
      | Some c \<Rightarrow> (Ok (), os_write path (take newSize c @ replicate (newSize - length c) 0) fs))"

definition ioutil_ReadFile :: "string \<Rightarrow> os \<Rightarrow> bytes result" where
  "ioutil_ReadFile path fs = (case os_read fs path of None \<Rightarrow> Err ErrNotExist | Some c \<Rightarrow> Ok c)"

section \<open>The helpers\<close>

definition CreateAndSyncFile :: "string \<Rightarrow> bytes \<Rightarrow> (os, unit) io" where
  "CreateAndSyncFile path content fs =
     (if os_exists fs path then (Err (ErrWrap ''error while creating file:%s'' (ErrMsg ''file exists'')), fs)
      else (Ok (), os_write path content fs))"

definition CreateAndSyncFileAtomically :: "string \<Rightarrow> string \<Rightarrow> string \<Rightarrow> bytes \<Rightarrow> (os, unit) io" where
  "CreateAndSyncFileAtomically dir tmpFile finalFile content =
     io_bind (CreateAndSyncFile (path_Join dir tmpFile) content) (\<lambda>_.
     os_Rename (path_Join dir tmpFile) (path_Join dir finalFile))"

definition SyncDir :: "string \<Rightarrow> os \<Rightarrow> unit result" where
  "SyncDir dirPath fs =
     (if os_is_dir fs dirPath \<or> os_read fs dirPath \<noteq> None then Ok ()
      else Err (ErrWrap ''error while opening dir:%s'' ErrNotExist))"

definition SyncParentDir :: "string \<Rightarrow> os \<Rightarrow> unit result" where
  "SyncParentDir path fs = SyncDir (path_Dir path) fs"

definition DirEmpty :: "string \<Rightarrow> os \<Rightarrow> bool result" where
  "DirEmpty dirPath fs =
     (case os_ReadDir dirPath fs of
        Ok entries \<Rightarrow> Ok (entries = [])
      | Err e \<Rightarrow> Err (ErrWrap ''error opening dir [%s]'' e)
      | Panic p \<Rightarrow> Panic p)"

definition CreateDirIfMissing :: "string \<Rightarrow> (os, bool) io" where
  "CreateDirIfMissing dirPath =
     io_bind (io_wrap ''error while creating dir: %s'' (os_MkdirAll dirPath)) (\<lambda>_.
     io_bind (\<lambda>fs. (SyncParentDir dirPath fs, fs)) (\<lambda>_.
     (\<lambda>fs. (DirEmpty dirPath fs, fs))))"

definition FileExists :: "string \<Rightarrow> os \<Rightarrow> (bool \<times> nat) result" where
  "FileExists path fs =
     (if os_is_dir fs path then Err (ErrMsg ''the supplied path [%s] is a dir'')
      else case os_read fs path of None \<Rightarrow> Ok (False, 0) | Some c \<Rightarrow> Ok (True, length c))"

definition DirExists :: "string \<Rightarrow> os \<Rightarrow> bool result" where
  "DirExists path fs =
     (if os_is_dir fs path then Ok True
      else if os_read fs path = None then Ok False
      else Err (ErrMsg ''the supplied path [%s] exists but is not a dir''))"

definition ListSubdirs :: "string \<Rightarrow> os \<Rightarrow> string list result" where
  "ListSubdirs dirPath fs =
     rbind (rwrap ''error reading dir %s'' (os_ReadDir dirPath fs)) (\<lambda>entries. Ok (map fst (filter snd entries)))"

definition RemoveContents :: "string \<Rightarrow> (os, unit) io" where
  "RemoveContents dir fs =
     (case os_ReadDir dir fs of
        Ok contents \<Rightarrow>
          (let fs' = fold (\<lambda>c. os_RemoveAll (path_Join dir (fst c))) contents fs in (SyncDir dir fs', fs'))
      | Err e \<Rightarrow> if e = ErrNotExist then (Ok (), fs) else (Err (ErrWrap ''error reading directory %s'' e), fs)
      | Panic p \<Rightarrow> (Panic p, fs))"

section \<open>Facts\<close>

lemma HasPrefix_iff: "HasPrefix s p \<longleftrightarrow> (\<exists>r. s = p @ r)"
  unfolding HasPrefix_def by (metis append_eq_conv_conj append_take_drop_id)

lemma child_name_iff:
  "child_name dir path = Some name \<longleftrightarrow> path = path_Join dir name \<and> name \<noteq> '''' \<and> CHR ''/'' \<notin> set name"
  by (auto simp: child_name_def path_Join_def Let_def HasPrefix_iff)

lemma set_map_filter_child: "n \<in> set (List.map_filter (child_name dir) ps) \<longleftrightarrow>
   path_Join dir n \<in> set ps \<and> n \<noteq> '''' \<and> CHR ''/'' \<notin> set n"
proof -
  have "n \<in> set (List.map_filter (child_name dir) ps) \<longleftrightarrow> (\<exists>p \<in> set ps. child_name dir p = Some n)"
    by (auto simp: List.map_filter_def) force+
  then show ?thesis by (auto simp: child_name_iff)
qed

text \<open>The entries of a directory are the files and directories directly in it.\<close>

lemma os_ReadDir_entries:
  assumes "os_ReadDir dir fs = Ok entries"
  shows "(n, d) \<in> set entries \<longleftrightarrow> n \<noteq> '''' \<and> CHR ''/'' \<notin> set n \<and>
     (if d then path_Join dir n \<in> set (dirs fs) else os_read fs (path_Join dir n) \<noteq> None)"
proof -
  have "(n, d) \<in> set entries \<longleftrightarrow>
      (if d then n \<in> set (List.map_filter (child_name dir) (remdups (dirs fs)))
       else n \<in> set (List.map_filter (child_name dir) (map fst (files fs))))"
    using assms by (auto simp: os_ReadDir_def split: if_splits)
  then show ?thesis unfolding set_map_filter_child by (auto simp: os_read_def map_of_eq_None_iff)
qed

lemma map_of_filter_paths: "map_of (filter (\<lambda>(p, _). P p) xs) q = (if P q then map_of xs q else None)"
  by (induction xs) auto

lemma os_read_RemoveAll: "os_read (os_RemoveAll p fs) q = (if below p q then None else os_read fs q)"
  by (simp add: os_read_def os_RemoveAll_def map_of_filter_paths [where P = "\<lambda>q. \<not> below p q", simplified])

lemma os_MkdirAll_dirs:
  assumes "os_MkdirAll p fs = (Ok (), fs')"
  shows "os_is_dir fs' p" "files fs' = files fs" "faults fs' = faults fs" "os_is_dir fs q \<Longrightarrow> os_is_dir fs' q"
proof -
  have "set (fold List.insert xs ds) = set xs \<union> set ds" for xs ds :: "string list"
    by (induction xs arbitrary: ds) auto
  then show "os_is_dir fs' p" "files fs' = files fs" "faults fs' = faults fs" "os_is_dir fs q \<Longrightarrow> os_is_dir fs' q"
    using assms by (auto simp: os_MkdirAll_def os_is_dir_def split: if_splits)
qed

text \<open>
  An atomically created file has its full contents at the final path, the temporary file is gone, and
  no other file changed.
\<close>

lemma CreateAndSyncFileAtomically_effect:
  assumes "\<not> os_exists fs (path_Join dir tmp)" "tmp \<noteq> final"
    and "CreateAndSyncFileAtomically dir tmp final content fs = (r, fs')"
  shows "r = Ok () \<and> os_read fs' q = (if q = path_Join dir final then Some content else os_read fs q)"
  using assms
  by (auto simp: CreateAndSyncFileAtomically_def CreateAndSyncFile_def os_Rename_def os_read_write os_read_remove
      os_exists_def path_Join_def)

end
