(* ===== verification/BlockfileHelper.thy ===== *)
theory BlockfileHelper
  imports BlockStream FileUtil
begin

text \<open>
  \<open>common/ledger/blkstorage/blockfile_helper.go\<close>: what can be learnt about the blocks from the files
  alone, and the summary of the block files (\<open>blockfilesInfo\<close> in \<open>blockfile_mgr.go\<close>) with its codec.
\<close>

section \<open>The summary of the block files\<close>

record blockfilesInfo =
  latestFileNumber :: int
  latestFileSize :: int
  noBlockFiles :: bool
  lastPersistedBlock :: uint64

definition bfi_marshal :: "blockfilesInfo \<Rightarrow> bytes" where
  "bfi_marshal i =
     Buffer_EncodeVarint (if noBlockFiles i then 1 else 0)
       (Buffer_EncodeVarint (lastPersistedBlock i)
         (Buffer_EncodeVarint (word_of_int (latestFileSize i))
           (Buffer_EncodeVarint (word_of_int (latestFileNumber i)) [])))"

definition bfi_unmarshal :: "bytes \<Rightarrow> blockfilesInfo result" where
  "bfi_unmarshal b =
     rbind (Buffer_DecodeVarint \<lparr>pbuf = b, pindex = 0\<rparr>) (\<lambda>(num, p1).
     rbind (Buffer_DecodeVarint p1) (\<lambda>(sz, p2).
     rbind (Buffer_DecodeVarint p2) (\<lambda>(last, p3).
     rbind (Buffer_DecodeVarint p3) (\<lambda>(noBlockFilesMarker, p4).
     Ok \<lparr>latestFileNumber = sint num, latestFileSize = sint sz, noBlockFiles = (noBlockFilesMarker = 1),
         lastPersistedBlock = last\<rparr>))))"

section \<open>Looking at the files\<close>

definition isBlockFileName :: "string \<Rightarrow> bool" where
  "isBlockFileName name = HasPrefix name blockfilePrefix"

fun lastFileSuffix_loop :: "(string \<times> bool) list \<Rightarrow> int \<Rightarrow> int result" where
  "lastFileSuffix_loop [] biggestFileNum = Ok biggestFileNum"
| "lastFileSuffix_loop ((name, isDir) # filesInfo) biggestFileNum =
     (if isDir \<or> \<not> isBlockFileName name then lastFileSuffix_loop filesInfo biggestFileNum
      else
        (let (fileNum, err) = Atoi (TrimPrefix name blockfilePrefix)
         in if err then Err (ErrMsg ''strconv.Atoi'')
            else lastFileSuffix_loop filesInfo (if fileNum > biggestFileNum then fileNum else biggestFileNum)))"

definition retrieveLastFileSuffix :: "string \<Rightarrow> os \<Rightarrow> int result" where
  "retrieveLastFileSuffix rootDir fs =
     rbind (rwrap ''error reading dir %s'' (os_ReadDir rootDir fs)) (\<lambda>filesInfo. lastFileSuffix_loop filesInfo (- 1))"

definition getFileInfoOrPanic :: "string \<Rightarrow> int \<Rightarrow> os \<Rightarrow> nat result" where
  "getFileInfoOrPanic rootDir fileNum fs =
     (case os_read fs (deriveBlockfilePath rootDir fileNum) of
        None \<Rightarrow> Panic ''error retrieving file info for file number %d'' | Some c \<Rightarrow> Ok (length c))"

definition constructBlockfilesInfo :: "codec \<Rightarrow> string \<Rightarrow> os \<Rightarrow> blockfilesInfo result" where
  "constructBlockfilesInfo C rootDir fs =
     rbind (retrieveLastFileSuffix rootDir fs) (\<lambda>lastFileNum.
     if lastFileNum = - 1 then
       Ok \<lparr>latestFileNumber = 0, latestFileSize = 0, noBlockFiles = True, lastPersistedBlock = 0\<rparr>
     else
       rbind (getFileInfoOrPanic rootDir lastFileNum fs) (\<lambda>_.
       rbind (scanForLastCompleteBlock rootDir lastFileNum 0 fs) (\<lambda>(lastBlockBytes, endOffsetLastBlock, numBlocksInFile).
       rbind
         (if numBlocksInFile = 0 \<and> lastFileNum > 0 then
            rbind (getFileInfoOrPanic rootDir (lastFileNum - 1) fs) (\<lambda>_.
            rbind (scanForLastCompleteBlock rootDir (lastFileNum - 1) 0 fs) (\<lambda>(b, _, _). Ok b))
          else Ok lastBlockBytes) (\<lambda>lastBlockBytes'.
       rbind
         (case lastBlockBytes' of
            None \<Rightarrow> Ok 0
          | Some b \<Rightarrow> rbind (DeserializeBlock C b) (\<lambda>lastBlock. Ok (Number (BHeader lastBlock)))) (\<lambda>lastBlockNumber.
       Ok \<lparr>latestFileNumber = lastFileNum, latestFileSize = endOffsetLastBlock,
           noBlockFiles = (lastFileNum = 0 \<and> numBlocksInFile = 0), lastPersistedBlock = lastBlockNumber\<rparr>)))))"

text \<open>A nil slice, from a file without blocks, is handed to the decoder as the empty slice.\<close>

definition retrieveFirstBlockNumFromFile :: "codec \<Rightarrow> string \<Rightarrow> int \<Rightarrow> os \<Rightarrow> uint64 result" where
  "retrieveFirstBlockNumFromFile C rootDir fileNum fs =
     rbind (newBlockfileStream rootDir fileNum 0 fs) (\<lambda>s.
     rbind (stream_nextBlockBytes s fs) (\<lambda>(bb, _).
     rbind (extractSerializedBlockInfo C (case bb of None \<Rightarrow> [] | Some b \<Rightarrow> b)) (\<lambda>blockInfo.
     Ok (Number (si_blockHeader blockInfo)))))"

text \<open>The interval of the search never becomes empty, so its end is never before its beginning.\<close>

function binarySearch_loop :: "(int \<Rightarrow> uint64 result) \<Rightarrow> uint64 \<Rightarrow> int \<Rightarrow> int \<Rightarrow> int result" where
  "binarySearch_loop firstBlockNum blockNum beginFile endFile =
     (if endFile \<le> beginFile then Ok beginFile
      else
        (let searchFile = beginFile + (endFile - beginFile) div 2 + 1
         in rbind (firstBlockNum searchFile) (\<lambda>n.
            if n = blockNum then Ok searchFile
            else if n > blockNum then binarySearch_loop firstBlockNum blockNum beginFile (searchFile - 1)
            else binarySearch_loop firstBlockNum blockNum searchFile endFile)))"
  by pat_completeness auto
termination
  by (relation "measure (\<lambda>(_, _, b, e). nat (e - b))") auto

declare binarySearch_loop.simps [simp del]

definition binarySearchFileNumForBlock :: "codec \<Rightarrow> string \<Rightarrow> uint64 \<Rightarrow> os \<Rightarrow> int result" where
  "binarySearchFileNumForBlock C rootDir blockNum fs =
     rbind (constructBlockfilesInfo C rootDir fs) (\<lambda>blkfilesInfo.
     binarySearch_loop (\<lambda>searchFile. retrieveFirstBlockNumFromFile C rootDir searchFile fs) blockNum 0
       (latestFileNumber blkfilesInfo))"

section \<open>Ledgers that started from a snapshot\<close>

definition bootstrappingSnapshotInfoFile :: string where
  "bootstrappingSnapshotInfoFile = ''bootstrappingSnapshot.info''"

definition ChainsDir :: string where "ChainsDir = ''chains''"

definition loadBootstrappingSnapshotInfo :: "codec \<Rightarrow> string \<Rightarrow> os \<Rightarrow> BootstrappingSnapshotInfo option result" where
  "loadBootstrappingSnapshotInfo C rootDir fs =
     (case os_read fs (path_Join rootDir bootstrappingSnapshotInfoFile) of
        None \<Rightarrow> Ok None
      | Some bsiBytes \<Rightarrow>
          rbind (proto_Unmarshal ''error while unmarshalling bootstrappingSnapshotInfo''
            (unmarshal_BootstrappingSnapshotInfo C bsiBytes)) (\<lambda>bsi. Ok (Some bsi)))"

definition IsBootstrappedFromSnapshot :: "string \<Rightarrow> string \<Rightarrow> os \<Rightarrow> bool result" where
  "IsBootstrappedFromSnapshot blockStorageDir ledgerID fs =
     (let ledgerDir = path_Join (path_Join blockStorageDir ChainsDir) ledgerID
      in Ok (os_exists fs (path_Join ledgerDir bootstrappingSnapshotInfoFile)))"

fun bootstrapped_loop :: "string \<Rightarrow> os \<Rightarrow> string list \<Rightarrow> string list \<Rightarrow> string list result" where
  "bootstrapped_loop blockStorageDir fs [] ledgersFromSnapshot = Ok ledgersFromSnapshot"
| "bootstrapped_loop blockStorageDir fs (ledgerID # ledgerIDs) ledgersFromSnapshot =
     rbind (IsBootstrappedFromSnapshot blockStorageDir ledgerID fs) (\<lambda>isFromSnapshot.
     bootstrapped_loop blockStorageDir fs ledgerIDs
       (if isFromSnapshot then ledgersFromSnapshot @ [ledgerID] else ledgersFromSnapshot))"

definition GetLedgersBootstrappedFromSnapshot :: "string \<Rightarrow> os \<Rightarrow> string list result" where
  "GetLedgersBootstrappedFromSnapshot blockStorageDir fs =
     rbind (ListSubdirs (path_Join blockStorageDir ChainsDir) fs) (\<lambda>ledgerIDs.
     bootstrapped_loop blockStorageDir fs ledgerIDs [])"

section \<open>Facts\<close>

lemma unat_of_nat64: "n < 2 ^ 64 \<Longrightarrow> unat (word_of_nat n :: uint64) = n"
  by (simp add: unsigned_of_nat take_bit_nat_eq_self)

definition bfi_in_range :: "blockfilesInfo \<Rightarrow> bool" where
  "bfi_in_range i = (int64_range (latestFileNumber i) \<and> int64_range (latestFileSize i))"

lemma bfi_round_trip:
  assumes "bfi_in_range i"
  shows "bfi_unmarshal (bfi_marshal i) = Ok i"
proof -
  let ?a = "word_of_int (latestFileNumber i) :: uint64" and ?b = "word_of_int (latestFileSize i) :: uint64"
    and ?c = "lastPersistedBlock i" and ?d = "(if noBlockFiles i then 1 else 0) :: uint64"
  let ?ea = "EncodeVarint ?a" and ?eb = "EncodeVarint ?b" and ?ec = "EncodeVarint ?c" and ?ed = "EncodeVarint ?d"
  have "bfi_marshal i = ?ea @ ?eb @ ?ec @ ?ed" by (simp add: bfi_marshal_def Buffer_EncodeVarint_def)
  then show ?thesis
    using Buffer_DecodeVarint_EncodeVarint [of "[]" ?a "?eb @ ?ec @ ?ed"]
      Buffer_DecodeVarint_EncodeVarint [of ?ea ?b "?ec @ ?ed"]
      Buffer_DecodeVarint_EncodeVarint [of "?ea @ ?eb" ?c ?ed]
      Buffer_DecodeVarint_EncodeVarint [of "?ea @ ?eb @ ?ec" ?d "[]"] assms
    by (simp add: bfi_unmarshal_def proto_at_def sint_word_of_int bfi_in_range_def)
qed

subsection \<open>The last file\<close>

text \<open>The block files of a directory are numbered from 0 to \<open>n - 1\<close>.\<close>

definition block_file_names :: "string \<Rightarrow> nat \<Rightarrow> os \<Rightarrow> bool" where
  "block_file_names root n fs \<longleftrightarrow> os_is_dir fs root \<and> int n < 2 ^ 63 \<and>
     (\<forall>name. os_read fs (path_Join root name) \<noteq> None \<and> isBlockFileName name \<and> CHR ''/'' \<notin> set name \<longleftrightarrow>
        (\<exists>i < n. name = blockfilePrefix @ Sprintf_06d (int i)))"

lemma pad6_digits: "list_all (is_digit 10) (pad6 i)"
proof -
  have "is_digit 10 (CHR ''0'')" by (simp add: is_digit_def digit_val_def)
  then have "list_all (is_digit 10) (replicate k (CHR ''0''))" for k by (simp add: list_all_iff)
  then show ?thesis by (simp add: pad6_def Let_def dec.show_nat_digits)
qed

lemma Atoi_pad6: "int i < 2 ^ 63 \<Longrightarrow> Atoi (Sprintf_06d (int i)) = (int i, False)"
proof -
  assume i: "int i < 2 ^ 63"
  have "hd (pad6 i) \<noteq> CHR ''+''"
    using hd_pad6 [of i] pad6_digits [of i] by (cases "pad6 i") (auto simp: is_digit_def digit_val_def)
  then show ?thesis
    using i pad6_digits hd_pad6 [of i] by (simp add: Atoi_def Sprintf_06d_def Let_def max_int64_def)
qed

abbreviation block_file_name :: "nat \<Rightarrow> string" where
  "block_file_name i \<equiv> blockfilePrefix @ Sprintf_06d (int i)"

lemma deriveBlockfilePath_Join: "deriveBlockfilePath root (int i) = path_Join root (block_file_name i)"
  by (simp add: deriveBlockfilePath_def path_Join_def)

lemma block_file_name_no_slash [simp]: "CHR ''/'' \<notin> set (block_file_name i)"
  using pad6_digits [of i] by (auto simp: blockfilePrefix_def Sprintf_06d_def list_all_iff is_digit_def digit_val_def)

lemma TrimPrefix_block_file_name [simp]: "TrimPrefix (block_file_name i) blockfilePrefix = Sprintf_06d (int i)"
  by (simp add: TrimPrefix_def HasPrefix_def)

lemma isBlockFileName_block_file_name [simp]: "isBlockFileName (block_file_name i)"
  by (simp add: isBlockFileName_def HasPrefix_def)

lemma lastFileSuffix_loop_max:
  assumes "\<And>name. (name, False) \<in> set es \<Longrightarrow> isBlockFileName name \<Longrightarrow> \<exists>i < n. name = block_file_name i"
    and "int n < 2 ^ 63"
  shows "\<exists>m. lastFileSuffix_loop es b = Ok m \<and> b \<le> m \<and> (\<forall>i. (block_file_name i, False) \<in> set es \<longrightarrow> int i \<le> m) \<and>
     (m = b \<or> (\<exists>i. (block_file_name i, False) \<in> set es \<and> m = int i))"
  using assms(1)
proof (induction es arbitrary: b)
  case (Cons e es)
  obtain name isDir where e: "e = (name, isDir)" by fastforce
  show ?case
  proof (cases "isDir \<or> \<not> isBlockFileName name")
    case True
    then show ?thesis using Cons.IH [of b] Cons.prems by (auto simp: e)
  next
    case False
    then obtain j where j: "j < n" "name = block_file_name j" using Cons.prems [of name] by (auto simp: e)
    then have a: "Atoi (Sprintf_06d (int j)) = (int j, False)" using assms(2) by (intro Atoi_pad6) simp
    obtain m where "lastFileSuffix_loop es (if int j > b then int j else b) = Ok m" "max (int j) b \<le> m"
      "\<forall>i. (block_file_name i, False) \<in> set es \<longrightarrow> int i \<le> m"
      "m = max (int j) b \<or> (\<exists>i. (block_file_name i, False) \<in> set es \<and> m = int i)"
      using Cons.IH [of "if int j > b then int j else b"] Cons.prems by (auto simp: max_def split: if_splits)
    then show ?thesis using False a by (auto simp: e j Sprintf_06d_inject)
  qed
qed simp

lemma retrieveLastFileSuffix_names:
  assumes "block_file_names root n fs"
  shows "retrieveLastFileSuffix root fs = Ok (int n - 1)"
proof -
  obtain es where es: "os_ReadDir root fs = Ok es" using assms by (auto simp: block_file_names_def os_ReadDir_def)
  have n: "int n < 2 ^ 63" using assms by (simp add: block_file_names_def)
  have names: "(name, False) \<in> set es \<Longrightarrow> isBlockFileName name \<Longrightarrow> \<exists>i < n. name = block_file_name i" for name
    using assms unfolding os_ReadDir_entries [OF es] by (auto simp: block_file_names_def)
  have mem: "(block_file_name i, False) \<in> set es \<longleftrightarrow> i < n" for i
  proof
    assume "i < n"
    then have "os_read fs (path_Join root (block_file_name i)) \<noteq> None \<and> CHR ''/'' \<notin> set (block_file_name i)"
      using assms unfolding block_file_names_def by blast
    then show "(block_file_name i, False) \<in> set es" by (simp add: os_ReadDir_entries [OF es] blockfilePrefix_def)
  next
    assume "(block_file_name i, False) \<in> set es"
    then show "i < n" using names [of "block_file_name i"] by (auto simp: Sprintf_06d_inject)
  qed
  obtain m where m: "lastFileSuffix_loop es (- 1) = Ok m" "- 1 \<le> m" "\<forall>i < n. int i \<le> m" "m = - 1 \<or> (\<exists>i < n. m = int i)"
    using lastFileSuffix_loop_max [where es = es and n = n and b = "- 1"] names n mem by auto
  have "m = int n - 1"
  proof (cases n)
    case 0
    then show ?thesis using m(4) by simp
  next
    case (Suc k)
    then show ?thesis using m(3,4) by force
  qed
  then show ?thesis using es m(1) by (simp add: retrieveLastFileSuffix_def)
qed

subsection \<open>The chain in the files\<close>

text \<open>
  The block files of a directory hold the blocks \<open>bss\<close>, file by file; the last file may end in the
  torn frame \<open>t\<close> of a block whose append was cut off.
\<close>

definition stored_block :: "Block \<Rightarrow> bool" where
  "stored_block b \<longleftrightarrow> frame_fits (block_layout b) \<and> BMetadata b \<noteq> None"

definition file_bytes :: "Block list \<Rightarrow> bytes" where
  "file_bytes bs = frames (map block_layout bs)"

definition chain_files :: "string \<Rightarrow> Block list list \<Rightarrow> bytes \<Rightarrow> os \<Rightarrow> bool" where
  "chain_files root bss t fs \<longleftrightarrow>
     block_file_names root (length bss) fs \<and> torn_frame t \<and> (\<forall>b \<in> set (concat bss). stored_block b) \<and>
     (\<forall>i < length bss. os_read fs (deriveBlockfilePath root (int i)) =
        Some (file_bytes (bss ! i) @ (if Suc i = length bss then t else [])))"

lemma chain_files_stored:
  "chain_files root bss t fs \<Longrightarrow> i < length bss \<Longrightarrow> b \<in> set (bss ! i) \<Longrightarrow> stored_block b"
  by (auto simp: chain_files_def)

lemma stored_block_codec:
  assumes "stored_block b"
  shows "DeserializeBlock C (block_layout b) = Ok b"
    and "\<exists>txs md. extractSerializedBlockInfo C (block_layout b) = Ok \<lparr>si_blockHeader = BHeader b, si_txOffsets = txs, si_metadata = md\<rparr>"
  using assms
  by (auto simp: stored_block_def frame_fits_def DeserializeBlock_copy deserializeBlock_layout extractSerializedBlockInfo_layout)

lemma chain_files_scan:
  assumes "chain_files root bss t fs" "i < length bss"
  shows "scanForLastCompleteBlock root (int i) 0 fs =
     Ok (if bss ! i = [] then None else Some (block_layout (last (bss ! i))), int (length (file_bytes (bss ! i))), length (bss ! i))"
proof -
  let ?t = "if Suc i = length bss then t else []"
  have "os_read fs (deriveBlockfilePath root (int i)) = Some ([] @ frames (map block_layout (bss ! i)) @ ?t)"
    using assms by (simp add: chain_files_def file_bytes_def)
  moreover have "torn_frame ?t" using assms by (simp add: chain_files_def)
  moreover have "\<forall>b \<in> set (map block_layout (bss ! i)). frame_fits b"
    using chain_files_stored [OF assms] by (auto simp: stored_block_def)
  ultimately show ?thesis
    using scanForLastCompleteBlock_frames [where pre = "[]"] by (simp add: file_bytes_def last_map)
qed

text \<open>The number of the last block, when only the last file may be without blocks.\<close>

definition last_number :: "Block list list \<Rightarrow> uint64" where
  "last_number bss = (if concat bss = [] then 0 else Number (BHeader (last (concat bss))))"

lemma last_concat_snoc: "last (concat (xss @ [xs])) = (if xs = [] then last (concat xss) else last xs)"
  by simp

lemma constructBlockfilesInfo_chain:
  assumes ch: "chain_files root bss t fs" and ne: "bss \<noteq> []"
    and full: "length bss \<ge> 2 \<Longrightarrow> last bss = [] \<Longrightarrow> bss ! (length bss - 2) \<noteq> [] \<or> concat bss = []"
  shows "constructBlockfilesInfo C root fs = Ok \<lparr>latestFileNumber = int (length bss) - 1,
     latestFileSize = int (length (file_bytes (last bss))), noBlockFiles = (length bss = 1 \<and> last bss = []),
     lastPersistedBlock = last_number bss\<rparr>"
proof -
  obtain front bs where bss: "bss = front @ [bs]" using ne by (metis append_butlast_last_id)
  let ?n = "length front"
  have suffix: "retrieveLastFileSuffix root fs = Ok (int ?n)"
    using ch retrieveLastFileSuffix_names [of root "length bss" fs] by (simp add: chain_files_def bss)
  have there: "i < length bss \<Longrightarrow> \<exists>c. getFileInfoOrPanic root (int i) fs = Ok c" for i
    using ch by (auto simp: chain_files_def getFileInfoOrPanic_def)
  obtain c where info: "getFileInfoOrPanic root (int ?n) fs = Ok c" using there [of ?n] by (auto simp: bss)
  note scan = chain_files_scan [OF ch, of ?n, unfolded bss, simplified]
  show ?thesis
  proof (cases "bs = [] \<and> front \<noteq> []")
    case False
    have "bs \<noteq> [] \<Longrightarrow> stored_block (last bs)" using chain_files_stored [OF ch, of ?n "last bs"] by (simp add: bss)
    then show ?thesis
      using False suffix info scan stored_block_codec
      by (auto simp: constructBlockfilesInfo_def bss last_number_def)
  next
    case True
    then obtain front' bs' where front: "front = front' @ [bs']" by (metis append_butlast_last_id)
    obtain c' where info': "getFileInfoOrPanic root (int ?n - 1) fs = Ok c'" using there [of "length front'"] by (auto simp: bss front)
    note scan' = chain_files_scan [OF ch, of "length front'", unfolded bss front, simplified]
    have full': "bs' \<noteq> [] \<or> concat front' = []" using full True by (auto simp: bss front nth_append)
    have "bs' \<noteq> [] \<Longrightarrow> stored_block (last bs')"
      using chain_files_stored [OF ch, of "length front'" "last bs'"] by (simp add: bss front nth_append)
    then show ?thesis
      using True suffix info scan info' scan' stored_block_codec full'
      by (auto simp: constructBlockfilesInfo_def bss front last_number_def nth_append)
  qed
qed

lemma constructBlockfilesInfo_no_files:
  assumes "block_file_names root 0 fs"
  shows "constructBlockfilesInfo C root fs =
     Ok \<lparr>latestFileNumber = 0, latestFileSize = 0, noBlockFiles = True, lastPersistedBlock = 0\<rparr>"
  using retrieveLastFileSuffix_names [OF assms] by (simp add: constructBlockfilesInfo_def)

subsection \<open>Binary search\<close>

text \<open>
  On file numbers with increasing first block numbers the loop finds the last file whose first block
  number is not beyond the block searched for.
\<close>

lemma binarySearch_loop_correct:
  assumes "b \<le> e" "\<And>i. b < i \<Longrightarrow> i \<le> e \<Longrightarrow> f i = Ok (F i)"
    and "\<And>i j. b < i \<Longrightarrow> i < j \<Longrightarrow> j \<le> e \<Longrightarrow> F i < F j"
  shows "\<exists>r. binarySearch_loop f n b e = Ok r \<and> b \<le> r \<and> r \<le> e \<and> (\<forall>i. b < i \<and> i \<le> e \<longrightarrow> (F i \<le> n \<longleftrightarrow> i \<le> r))"
  using assms
proof (induction "nat (e - b)" arbitrary: b e rule: less_induct)
  case less
  define s where "s = b + (e - b) div 2 + 1"
  show ?case
  proof (cases "e \<le> b")
    case True
    then show ?thesis using less.prems(1) by (subst binarySearch_loop.simps) auto
  next
    case False
    then have s: "b < s" "s \<le> e" unfolding s_def by linarith+
    have fs: "f s = Ok (F s)" using less.prems(2) s by blast
    have mono: "F i < F j" if "b < i" "i < j" "j \<le> e" for i j using less.prems(3) that by blast
    have step: "binarySearch_loop f n b e =
        (if F s = n then Ok s else if F s > n then binarySearch_loop f n b (s - 1) else binarySearch_loop f n s e)"
      using False fs by (subst binarySearch_loop.simps) (simp add: Let_def s_def)
    consider "F s = n" | "n < F s" | "F s < n" by fastforce
    then show ?thesis
    proof cases
      case 1
      have "F i \<le> n \<longleftrightarrow> i \<le> s" if "b < i" "i \<le> e" for i
        using mono [of i s] mono [of s i] that s 1 by (cases i s rule: linorder_cases) auto
      then show ?thesis unfolding step using 1 s by auto
    next
      case 2
      obtain r where r: "binarySearch_loop f n b (s - 1) = Ok r" "b \<le> r" "r \<le> s - 1"
          "\<And>i. b < i \<Longrightarrow> i \<le> s - 1 \<Longrightarrow> F i \<le> n \<longleftrightarrow> i \<le> r"
        using less.hyps [of "s - 1" b] less.prems s by auto
      have "n < F i" if "s \<le> i" "i \<le> e" for i
        using mono [of s i] that s 2 by (cases "i = s") auto
      then have "F i \<le> n \<longleftrightarrow> i \<le> r" if "b < i" "i \<le> e" for i
        using r(3,4) that by (cases "i \<le> s - 1") (auto simp: not_le [symmetric])
      then show ?thesis unfolding step using 2 r s by auto
    next
      case 3
      obtain r where r: "binarySearch_loop f n s e = Ok r" "s \<le> r" "r \<le> e"
          "\<And>i. s < i \<Longrightarrow> i \<le> e \<Longrightarrow> F i \<le> n \<longleftrightarrow> i \<le> r"
        using less.hyps [of e s] less.prems s by auto
      have "F i \<le> n" if "b < i" "i \<le> s" for i
        using mono [of i s] that s 3 by (cases "i = s") auto
      then have "F i \<le> n \<longleftrightarrow> i \<le> r" if "b < i" "i \<le> e" for i
        using r(2,4) that by (cases "i \<le> s") auto
      then show ?thesis unfolding step using 3 r s by auto
    qed
  qed
qed

subsection \<open>The file of a block\<close>

text \<open>The blocks of a chain are numbered from \<open>base\<close> on, without wrapping around.\<close>

definition numbered :: "nat \<Rightarrow> Block list \<Rightarrow> bool" where
  "numbered base bs \<longleftrightarrow> base + length bs \<le> 2 ^ 64 \<and>
     (\<forall>j < length bs. Number (BHeader (bs ! j)) = word_of_nat (base + j))"

lemma numbered_less:
  assumes "numbered base bs" "i < length bs" "j < length bs"
  shows "Number (BHeader (bs ! i)) < Number (BHeader (bs ! j)) \<longleftrightarrow> i < j"
    and "unat (Number (BHeader (bs ! i))) = base + i"
proof -
  have u: "unat (Number (BHeader (bs ! k))) = base + k" if "k < length bs" for k
    using assms(1) that unat_of_nat64 [of "base + k"] unfolding numbered_def by (metis add_less_cancel_left less_le_trans)
  show "Number (BHeader (bs ! i)) < Number (BHeader (bs ! j)) \<longleftrightarrow> i < j" "unat (Number (BHeader (bs ! i))) = base + i"
    using u assms(2,3) by (simp_all add: word_less_nat_alt)
qed

text \<open>The position in the chain of the first block of file \<open>i\<close>.\<close>

definition file_start :: "Block list list \<Rightarrow> nat \<Rightarrow> nat" where
  "file_start bss i = length (concat (take i bss))"

lemma file_start_Suc: "i < length bss \<Longrightarrow> file_start bss (Suc i) = file_start bss i + length (bss ! i)"
  by (simp add: file_start_def take_Suc_conv_app_nth)

lemma file_start_mono: "i \<le> j \<Longrightarrow> file_start bss i \<le> file_start bss j"
proof -
  assume "i \<le> j"
  then obtain k where "j = i + k" using le_Suc_ex by blast
  then show ?thesis by (simp add: file_start_def take_add)
qed

lemma file_start_length [simp]: "file_start bss (length bss) = length (concat bss)" "file_start bss 0 = 0"
  by (simp_all add: file_start_def)

lemma nth_concat_file:
  assumes "i < length bss" "k < length (bss ! i)"
  shows "concat bss ! (file_start bss i + k) = bss ! i ! k" "file_start bss i + k < length (concat bss)"
proof -
  have "concat bss = concat (take i bss) @ bss ! i @ concat (drop (Suc i) bss)"
    using id_take_nth_drop [OF assms(1)] by (metis concat.simps(2) concat_append)
  then show "concat bss ! (file_start bss i + k) = bss ! i ! k" "file_start bss i + k < length (concat bss)"
    using assms(2) by (simp_all add: file_start_def nth_append)
qed

lemma retrieveFirstBlockNum_chain:
  assumes ch: "chain_files root bss t fs" "numbered base (concat bss)" and i: "i < length bss" "bss ! i \<noteq> []"
  shows "retrieveFirstBlockNumFromFile C root (int i) fs = Ok (word_of_nat (base + file_start bss i))"
proof -
  let ?path = "deriveBlockfilePath root (int i)"
  obtain b bs where b: "bss ! i = b # bs" using i(2) by (cases "bss ! i") auto
  have st: "stored_block b" using chain_files_stored [OF ch(1) i(1)] b by simp
  have r: "os_read fs ?path = Some ([] @ raw (block_layout b) @ file_bytes bs @ (if Suc i = length bss then t else []))"
    using ch(1) i(1) b by (simp add: chain_files_def file_bytes_def)
  then have c: "os_content fs ?path = [] @ raw (block_layout b) @ file_bytes bs @ (if Suc i = length bss then t else [])"
    by (simp add: os_content_def)
  have n: "stream_nextBlockBytes (stream_at ?path (int i) 0) fs =
      Ok (Some (block_layout b), stream_at ?path (int i) (length (raw (block_layout b))))"
    using stream_nextBlockBytes_raw [OF c, of "int i"] st by (simp add: stored_block_def)
  have s: "newBlockfileStream root (int i) 0 fs = Ok (stream_at ?path (int i) 0)"
    using r by (simp add: newBlockfileStream_Ok stream_at_def)
  have "b = concat bss ! (file_start bss i + 0)" "file_start bss i + 0 < length (concat bss)"
    using nth_concat_file [OF i(1), of 0] b by simp_all
  then have "Number (BHeader b) = word_of_nat (base + file_start bss i)" using ch(2) by (simp add: numbered_def)
  then show ?thesis
    using s n stored_block_codec(2) [OF st, of C] by (auto simp: retrieveFirstBlockNumFromFile_def)
qed

lemma binarySearch_chain:
  assumes ch: "chain_files root bss t fs" "numbered base (concat bss)" and ne: "bss \<noteq> []"
    and full: "\<And>i. 0 < i \<Longrightarrow> i < length bss \<Longrightarrow> bss ! i \<noteq> []"
    and j: "j < length (concat bss)"
  shows "\<exists>i < length bss. binarySearchFileNumForBlock C root (word_of_nat (base + j)) fs = Ok (int i) \<and>
     file_start bss i \<le> j \<and> j < file_start bss (Suc i)"
proof -
  let ?n = "word_of_nat (base + j) :: uint64"
  define F where "F i = (word_of_nat (base + file_start bss (nat i)) :: uint64)" for i
  have lt: "base + length (concat bss) \<le> 2 ^ 64" using ch(2) by (simp add: numbered_def)
  have start: "file_start bss k < file_start bss l" if "0 < k" "k < l" "l < length bss" for k l
  proof -
    have "file_start bss k < file_start bss (Suc k)" using full [of k] that by (simp add: file_start_Suc)
    also have "\<dots> \<le> file_start bss l" using that by (intro file_start_mono) simp
    finally show ?thesis .
  qed
  have pos: "file_start bss k < length (concat bss)" if "0 < k" "k < length bss" for k
    using nth_concat_file(2) [of k bss 0] full [of k] that by simp
  have uF: "unat (F i) = base + file_start bss (nat i)" if "0 < i" "i \<le> int (length bss) - 1" for i
  proof -
    have "file_start bss (nat i) < length (concat bss)" using that by (intro pos) simp_all
    then show ?thesis unfolding F_def using lt by (intro unat_of_nat64) simp
  qed
  have un: "unat ?n = base + j" using j lt by (intro unat_of_nat64) simp
  have info: "\<exists>info. constructBlockfilesInfo C root fs = Ok info \<and> latestFileNumber info = int (length bss) - 1"
    by (subst constructBlockfilesInfo_chain [OF ch(1) ne]) (use full [of "length bss - 1"] ne in \<open>auto simp: last_conv_nth\<close>)
  have first: "retrieveFirstBlockNumFromFile C root i fs = Ok (F i)" if "0 < i" "i \<le> int (length bss) - 1" for i
    using retrieveFirstBlockNum_chain [OF ch, of "nat i" C] full [of "nat i"] that by (simp add: F_def)
  have mono: "F i < F k" if "0 < i" "i < k" "k \<le> int (length bss) - 1" for i k
    using start [of "nat i" "nat k"] that by (simp add: word_less_nat_alt uF)
  obtain r where r: "binarySearch_loop (\<lambda>i. retrieveFirstBlockNumFromFile C root i fs) ?n 0 (int (length bss) - 1) = Ok r"
      "0 \<le> r" "r \<le> int (length bss) - 1" "\<And>i. 0 < i \<Longrightarrow> i \<le> int (length bss) - 1 \<Longrightarrow> F i \<le> ?n \<longleftrightarrow> i \<le> r"
    using binarySearch_loop_correct [of 0 "int (length bss) - 1" "\<lambda>i. retrieveFirstBlockNumFromFile C root i fs" F ?n]
      first mono ne by (auto simp: Suc_le_eq)
  let ?i = "nat r"
  have i: "?i < length bss" using r(2,3) ne by (cases bss) auto
  have "file_start bss ?i \<le> j"
  proof (cases "?i = 0")
    case False
    then have "F r \<le> ?n" using r(2,3) r(4) [of r] by simp
    then show ?thesis using uF [of r] r(3) False un by (simp add: word_le_nat_alt)
  qed simp
  moreover have "j < file_start bss (Suc ?i)"
  proof (cases "Suc ?i = length bss")
    case False
    then have "\<not> F (r + 1) \<le> ?n" using r(2) r(4) [of "r + 1"] i by simp
    then show ?thesis using uF [of "r + 1"] r(2) i False un by (simp add: word_le_nat_alt nat_add_distrib)
  qed (use j in simp)
  ultimately show ?thesis
    using i r(1,2) info by (intro exI [of _ ?i]) (auto simp: binarySearchFileNumForBlock_def)
qed

section \<open>A sample directory\<close>

definition small_block :: "uint64 \<Rightarrow> Block" where
  "small_block n = \<lparr>BHeader = \<lparr>Number = n, PreviousHash = [], DataHash = []\<rparr>, BData = [], BMetadata = Some []\<rparr>"

lemma stored_small_block: "stored_block (small_block n)"
proof -
  have "length (EncodeVarint n) \<le> 10" "length (EncodeVarint 0) \<le> 10" by (simp_all add: length_EncodeVarint SizeVarint_def)
  then show ?thesis
    by (simp add: stored_block_def small_block_def frame_fits_def block_layout_def header_layout_def list_layout_def raw_frame)
qed

definition two_files :: "bytes \<Rightarrow> os" where
  "two_files t = \<lparr>files = [(deriveBlockfilePath ''/r'' 0, file_bytes [small_block 0]),
      (deriveBlockfilePath ''/r'' 1, file_bytes [small_block 1] @ t)], dirs = [''/r''], faults = []\<rparr>"

lemma ex_less_2: "(\<exists>i < 2. Q i) \<longleftrightarrow> Q 0 \<or> Q (1 :: nat)"
  by (auto simp: numeral_2_eq_2 less_Suc_eq)

lemma two_files_names: "block_file_names ''/r'' 2 (two_files t)"
proof -
  have 1: "os_read (two_files t) (path_Join ''/r'' name) \<noteq> None \<longleftrightarrow> (\<exists>i < 2. name = block_file_name i)" for name
  proof -
    have "os_read (two_files t) (path_Join ''/r'' name) \<noteq> None \<longleftrightarrow> name = block_file_name 0 \<or> name = block_file_name 1"
      by (auto simp: two_files_def os_read_def path_Join_def deriveBlockfilePath_def)
    then show ?thesis unfolding ex_less_2 .
  qed
  show ?thesis
    unfolding block_file_names_def
  proof (intro conjI allI)
    fix name
    show "os_read (two_files t) (path_Join ''/r'' name) \<noteq> None \<and> isBlockFileName name \<and> CHR ''/'' \<notin> set name \<longleftrightarrow>
        (\<exists>i < 2. name = block_file_name i)"
      unfolding 1 using isBlockFileName_block_file_name block_file_name_no_slash by blast
  qed (simp_all add: two_files_def os_is_dir_def)
qed

lemma two_files_chain: "torn_frame t \<Longrightarrow> chain_files ''/r'' [[small_block 0], [small_block 1]] t (two_files t)"
  using two_files_names [of t] stored_small_block
  by (auto simp: chain_files_def numeral_2_eq_2 less_Suc_eq two_files_def os_read_def)

lemma two_files_numbered: "numbered 0 (concat [[small_block 0], [small_block 1]])"
  by (auto simp: numbered_def less_Suc_eq small_block_def)

section \<open>Properties\<close>

text \<open>The summary of the block files survives the database: what \<open>saveBlkfilesInfo\<close> stores is what
  \<open>loadBlkfilesInfo\<close> reads, for every summary whose numbers fit the machine's \<open>int\<close>.\<close>

theorem blockfilesInfo_round_trip:
  assumes "bfi_in_range i"
  shows "bfi_unmarshal (bfi_marshal i) = Ok i"
  using assms by (rule bfi_round_trip)

theorem blockfilesInfo_round_trip_witness:
  "bfi_unmarshal (bfi_marshal \<lparr>latestFileNumber = 3, latestFileSize = 70000, noBlockFiles = False, lastPersistedBlock = 12\<rparr>) =
   Ok \<lparr>latestFileNumber = 3, latestFileSize = 70000, noBlockFiles = False, lastPersistedBlock = 12\<rparr>"
  by (rule blockfilesInfo_round_trip) (simp add: bfi_in_range_def int64_range_def)

text \<open>C36. The summary can be rebuilt from the files: when the files hold a chain, the last of them
  possibly ending in the torn frame of a crash, \<open>constructBlockfilesInfo\<close> finds the number of the last
  file, the end of its last complete block and the number of the last block.  Only the last file
  may be without blocks, unless there are none at all.\<close>

theorem constructBlockfilesInfo_from_files:
  assumes "chain_files root bss t fs" "bss \<noteq> []"
    and "length bss \<ge> 2 \<Longrightarrow> last bss = [] \<Longrightarrow> bss ! (length bss - 2) \<noteq> [] \<or> concat bss = []"
  shows "constructBlockfilesInfo C root fs = Ok \<lparr>latestFileNumber = int (length bss) - 1,
     latestFileSize = int (length (file_bytes (last bss))), noBlockFiles = (length bss = 1 \<and> last bss = []),
     lastPersistedBlock = last_number bss\<rparr>"
  using assms by (rule constructBlockfilesInfo_chain)

theorem constructBlockfilesInfo_from_files_witness:
  "constructBlockfilesInfo ref_codec ''/r'' (two_files [5, 7]) = Ok \<lparr>latestFileNumber = 1,
     latestFileSize = int (length (file_bytes [small_block 1])), noBlockFiles = False, lastPersistedBlock = 1\<rparr>"
proof -
  have "raw [7, 7, 7, 7, 7] = [5, 7, 7, 7, 7, 7]" by (simp add: raw_frame EncodeVarint_small)
  then have "frame_fits [7, 7, 7, 7, 7] \<and> 2 < length (raw [7, 7, 7, 7, 7]) \<and> [5, 7] = take 2 (raw [7, 7, 7, 7, 7])"
    by (simp add: frame_fits_def)
  then have "torn_frame [5, 7]" unfolding torn_frame_def by blast
  then show ?thesis
    using constructBlockfilesInfo_from_files [OF two_files_chain] by (simp add: last_number_def small_block_def)
qed

text \<open>C20. The binary search over the first block numbers of the files finds the file that holds a
  block, when no file but the first is without blocks.\<close>

theorem binary_search_finds_file:
  assumes "chain_files root bss t fs" "numbered base (concat bss)" "bss \<noteq> []"
    and "\<And>i. 0 < i \<Longrightarrow> i < length bss \<Longrightarrow> bss ! i \<noteq> []" and "j < length (concat bss)"
  shows "\<exists>i < length bss. binarySearchFileNumForBlock C root (word_of_nat (base + j)) fs = Ok (int i) \<and>
     concat bss ! j \<in> set (bss ! i)"
proof -
  obtain i where i: "i < length bss" "binarySearchFileNumForBlock C root (word_of_nat (base + j)) fs = Ok (int i)"
      "file_start bss i \<le> j" "j < file_start bss (Suc i)" using binarySearch_chain [OF assms] by blast
  then have "concat bss ! j = bss ! i ! (j - file_start bss i)" "j - file_start bss i < length (bss ! i)"
    using nth_concat_file(1) [of i bss "j - file_start bss i"] by (simp_all add: file_start_Suc)
  then show ?thesis using i(1,2) by auto
qed

theorem binary_search_finds_file_witness:
  "binarySearchFileNumForBlock ref_codec ''/r'' 1 (two_files []) = Ok 1"
proof -
  have "small_block 1 \<noteq> small_block 0" by (simp add: small_block_def)
  then show ?thesis
    using binary_search_finds_file [OF two_files_chain two_files_numbered, of "[]" 1 ref_codec]
    by (auto simp: less_Suc_eq)
qed

end
