(* ===== verification/LevelDB.thy ===== *)
theory LevelDB
  imports Stores
begin

text \<open>
  \<open>common/ledger/util/leveldbhelper\<close>: one leveldb shared by many named databases.  A handle prefixes
  every key with its name and a zero byte.  The engine itself is represented by its contents in key
  order; a write either happens as a whole or fails, as the schedule \<open>db_faults\<close> says
  (\<open>True\<close>: the write fails).
\<close>

section \<open>DB\<close>

record DB =
  entries :: "(bytes \<times> bytes) list"
  db_faults :: "bool list"

type_synonym batch = "(bytes, bytes) kv_op list"

definition db_fault :: "DB \<Rightarrow> bool \<times> DB" where
  "db_fault db = (case db_faults db of [] \<Rightarrow> (False, db) | f # fs \<Rightarrow> (f, db\<lparr>db_faults := fs\<rparr>))"

definition DB_IsEmpty :: "DB \<Rightarrow> bool" where
  "DB_IsEmpty db = (entries db = [])"

definition DB_Get :: "DB \<Rightarrow> bytes \<Rightarrow> bytes option" where
  "DB_Get db key = map_of (entries db) key"

definition DB_Put :: "bytes \<Rightarrow> bytes \<Rightarrow> bool \<Rightarrow> DB \<Rightarrow> unit result \<times> DB" where
  "DB_Put key value sync db =
     (case db_fault db of
        (True, db') \<Rightarrow> (Err (ErrWrap ''error writing leveldb key [%#v]'' (ErrMsg ''leveldb'')), db')
      | (False, db') \<Rightarrow> (Ok (), db'\<lparr>entries := sput key value (entries db')\<rparr>))"

definition DB_Delete :: "bytes \<Rightarrow> bool \<Rightarrow> DB \<Rightarrow> unit result \<times> DB" where
  "DB_Delete key sync db =
     (case db_fault db of
        (True, db') \<Rightarrow> (Err (ErrWrap ''error deleting leveldb key [%#v]'' (ErrMsg ''leveldb'')), db')
      | (False, db') \<Rightarrow> (Ok (), db'\<lparr>entries := sdel key (entries db')\<rparr>))"

definition DB_GetIterator :: "DB \<Rightarrow> bytes \<Rightarrow> bytes \<Rightarrow> (bytes \<times> bytes) list" where
  "DB_GetIterator db startKey endKey =
     filter (\<lambda>kv. startKey \<le> fst kv \<and> fst kv < endKey) (entries db)"

definition DB_WriteBatch :: "batch \<Rightarrow> bool \<Rightarrow> DB \<Rightarrow> unit result \<times> DB" where
  "DB_WriteBatch batch sync db =
     (case db_fault db of
        (True, db') \<Rightarrow> (Err (ErrWrap ''error writing batch to leveldb'' (ErrMsg ''leveldb'')), db')
      | (False, db') \<Rightarrow> (Ok (), db'\<lparr>entries := fold (kv_apply sput sdel) batch (entries db')\<rparr>))"

section \<open>Named databases\<close>

definition maxBatchSize :: nat where "maxBatchSize = 1000000"

definition formatVersionKey :: bytes where "formatVersionKey = to_bytes ''f''"

definition internalDBName :: string where "internalDBName = ''_''"

definition constructLevelKey :: "string \<Rightarrow> bytes \<Rightarrow> bytes" where
  "constructLevelKey dbName key = to_bytes dbName @ [0] @ key"

text \<open>\<open>bytes.SplitN(levelKey, dbNameKeySep, 2)[1]\<close>: the index is out of range without a separator.\<close>

definition retrieveAppKey :: "bytes \<Rightarrow> bytes result" where
  "retrieveAppKey levelKey =
     (if 0 \<in> set levelKey then Ok (tl (dropWhile (\<lambda>b. b \<noteq> 0) levelKey))
      else Panic ''index out of range'')"

definition DBHandle_Get :: "string \<Rightarrow> bytes \<Rightarrow> DB \<Rightarrow> bytes option" where
  "DBHandle_Get dbName key db = DB_Get db (constructLevelKey dbName key)"

definition DBHandle_Put :: "string \<Rightarrow> bytes \<Rightarrow> bytes \<Rightarrow> bool \<Rightarrow> DB \<Rightarrow> unit result \<times> DB" where
  "DBHandle_Put dbName key value sync db = DB_Put (constructLevelKey dbName key) value sync db"

definition DBHandle_Delete :: "string \<Rightarrow> bytes \<Rightarrow> bool \<Rightarrow> DB \<Rightarrow> unit result \<times> DB" where
  "DBHandle_Delete dbName key sync db = DB_Delete (constructLevelKey dbName key) sync db"

text \<open>
  \<open>GetIterator\<close>; a nil end key is \<open>None\<close>.  The entries are the underlying ones; \<open>Iterator_Key\<close> is
  the key the wrapped iterator shows.
\<close>

definition DBHandle_GetIterator :: "string \<Rightarrow> bytes \<Rightarrow> bytes option \<Rightarrow> DB \<Rightarrow> (bytes \<times> bytes) list" where
  "DBHandle_GetIterator dbName startKey endKey db =
     (let sKey = constructLevelKey dbName startKey;
          eKey = (case endKey of
              None \<Rightarrow> butlast (constructLevelKey dbName []) @ [1]
            | Some k \<Rightarrow> constructLevelKey dbName k)
      in DB_GetIterator db sKey eKey)"

definition Iterator_Key :: "bytes \<times> bytes \<Rightarrow> bytes result" where
  "Iterator_Key kv = retrieveAppKey (fst kv)"

definition Iterator_Seek :: "string \<Rightarrow> bytes \<Rightarrow> (bytes \<times> bytes) list \<Rightarrow> (bytes \<times> bytes) list" where
  "Iterator_Seek dbName key itr = dropWhile (\<lambda>kv. fst kv < constructLevelKey dbName key) itr"

definition DBHandle_IsEmpty :: "string \<Rightarrow> DB \<Rightarrow> bool" where
  "DBHandle_IsEmpty dbName db = (DBHandle_GetIterator dbName [] None db = [])"

text \<open>The loop of \<open>deleteAll\<close> over the keys of the iterator, with the pending batch and its size.\<close>

fun deleteAll_loop :: "bytes list \<Rightarrow> batch \<Rightarrow> nat \<Rightarrow> DB \<Rightarrow> unit result \<times> DB" where
  "deleteAll_loop [] batch batchSize db =
     (if length batch > 0 then DB_WriteBatch batch True db else (Ok (), db))"
| "deleteAll_loop (key # keys) batch batchSize db =
     (let batchSize' = batchSize + length key;
          batch' = batch @ [OpDelete key]
      in if batchSize' \<ge> maxBatchSize then
           (case DB_WriteBatch batch' True db of
              (Ok _, db') \<Rightarrow> deleteAll_loop keys [] 0 db'
            | (Err e, db') \<Rightarrow> (Err e, db')
            | (Panic p, db') \<Rightarrow> (Panic p, db'))
         else deleteAll_loop keys batch' batchSize' db)"

definition DBHandle_deleteAll :: "string \<Rightarrow> DB \<Rightarrow> unit result \<times> DB" where
  "DBHandle_deleteAll dbName db = deleteAll_loop (map fst (DBHandle_GetIterator dbName [] None db)) [] 0 db"

record UpdateBatch =
  ub_batch :: batch
  ub_dbName :: string

definition NewUpdateBatch :: "string \<Rightarrow> UpdateBatch" where
  "NewUpdateBatch dbName = \<lparr>ub_batch = [], ub_dbName = dbName\<rparr>"

definition UpdateBatch_Put :: "bytes \<Rightarrow> bytes option \<Rightarrow> UpdateBatch \<Rightarrow> UpdateBatch result" where
  "UpdateBatch_Put key value b =
     (case value of
        None \<Rightarrow> Panic ''Nil value not allowed''
      | Some v \<Rightarrow> Ok (b\<lparr>ub_batch := ub_batch b @ [OpPut (constructLevelKey (ub_dbName b) key) v]\<rparr>))"

definition UpdateBatch_Delete :: "bytes \<Rightarrow> UpdateBatch \<Rightarrow> UpdateBatch" where
  "UpdateBatch_Delete key b =
     b\<lparr>ub_batch := ub_batch b @ [OpDelete (constructLevelKey (ub_dbName b) key)]\<rparr>"

definition DBHandle_WriteBatch :: "UpdateBatch \<Rightarrow> bool \<Rightarrow> DB \<Rightarrow> unit result \<times> DB" where
  "DBHandle_WriteBatch batch sync db =
     (if length (ub_batch batch) = 0 then (Ok (), db)
      else DB_WriteBatch (ub_batch batch) sync db)"

section \<open>Provider\<close>

record Provider =
  pr_db :: DB
  pr_dbHandles :: "string list"

definition openDBAndCheckFormat :: "string \<Rightarrow> DB \<Rightarrow> unit result \<times> DB" where
  "openDBAndCheckFormat ExpectedFormat db =
     (if DB_IsEmpty db \<and> ExpectedFormat \<noteq> '''' then
        DBHandle_Put internalDBName formatVersionKey (to_bytes ExpectedFormat) True db
      else
        (let formatVersion = (case DBHandle_Get internalDBName formatVersionKey db of None \<Rightarrow> [] | Some v \<Rightarrow> v)
         in if formatVersion \<noteq> to_bytes ExpectedFormat then (Err (ErrMsg ''ErrFormatMismatch''), db)
            else (Ok (), db)))"

definition NewProvider :: "string \<Rightarrow> DB \<Rightarrow> Provider result \<times> DB" where
  "NewProvider ExpectedFormat db =
     (case openDBAndCheckFormat ExpectedFormat db of
        (Ok _, db') \<Rightarrow> (Ok \<lparr>pr_db = db', pr_dbHandles = []\<rparr>, db')
      | (Err e, db') \<Rightarrow> (Err e, db')
      | (Panic p, db') \<Rightarrow> (Panic p, db'))"

definition GetDataFormat :: "Provider \<Rightarrow> string" where
  "GetDataFormat p =
     to_string (case DBHandle_Get internalDBName formatVersionKey (pr_db p) of None \<Rightarrow> [] | Some v \<Rightarrow> v)"

definition GetDBHandle :: "string \<Rightarrow> Provider \<Rightarrow> Provider" where
  "GetDBHandle dbName p =
     (if dbName \<in> set (pr_dbHandles p) then p else p\<lparr>pr_dbHandles := dbName # pr_dbHandles p\<rparr>)"

definition Provider_Drop :: "string \<Rightarrow> Provider \<Rightarrow> unit result \<times> Provider" where
  "Provider_Drop dbName p =
     (let p1 = GetDBHandle dbName p;
          (r, db') = DBHandle_deleteAll dbName (pr_db p1)
      in (r, p1\<lparr>pr_db := db', pr_dbHandles := removeAll dbName (pr_dbHandles p1)\<rparr>))"

section \<open>Key ranges\<close>

text \<open>A database name has no zero byte.\<close>

definition db_name_ok :: "string \<Rightarrow> bool" where
  "db_name_ok n = (0 \<notin> set (to_bytes n))"

definition owns :: "string \<Rightarrow> bytes \<Rightarrow> bool" where
  "owns n k = (take (Suc (length n)) k = to_bytes n @ [0])"

lemma owns_constructLevelKey [simp]: "owns n (constructLevelKey n k)"
  by (simp add: owns_def constructLevelKey_def)

lemma owns_iff: "owns n k \<longleftrightarrow> (\<exists>k'. k = constructLevelKey n k')"
  by (metis append.assoc append_take_drop_id constructLevelKey_def owns_constructLevelKey owns_def)

lemma constructLevelKey_inject [simp]: "constructLevelKey n k = constructLevelKey n k' \<longleftrightarrow> k = k'"
  by (simp add: constructLevelKey_def)

lemma takeWhile_levelKey:
  "db_name_ok n \<Longrightarrow> takeWhile (\<lambda>b. b \<noteq> 0) (constructLevelKey n k) = to_bytes n"
  by (simp add: db_name_ok_def constructLevelKey_def takeWhile_append)

lemma constructLevelKey_inject2:
  "db_name_ok m \<Longrightarrow> db_name_ok n \<Longrightarrow>
     constructLevelKey m k = constructLevelKey n k' \<longleftrightarrow> m = n \<and> k = k'"
  by (metis constructLevelKey_inject takeWhile_levelKey to_bytes_inject)

lemma owns_unique: "db_name_ok m \<Longrightarrow> db_name_ok n \<Longrightarrow> owns m k \<Longrightarrow> owns n k \<Longrightarrow> m = n"
  by (metis constructLevelKey_inject2 owns_iff)

lemma retrieveAppKey_levelKey [simp]:
  assumes "db_name_ok n"
  shows "retrieveAppKey (constructLevelKey n k) = Ok k"
proof -
  have "dropWhile (\<lambda>b. b \<noteq> 0) (to_bytes n @ 0 # k) = 0 # k"
    using assms by (subst dropWhile_append2) (auto simp: db_name_ok_def)
  then show ?thesis by (simp add: retrieveAppKey_def constructLevelKey_def)
qed

text \<open>The keys between \<open>name 00\<close> and \<open>name 01\<close> are those that start with \<open>name 00\<close>.\<close>

lemma between_separators:
  fixes p k :: bytes
  shows "p @ [0] \<le> k \<and> k < p @ [1] \<longleftrightarrow> take (Suc (length p)) k = p @ [0]"
proof (induction p arbitrary: k)
  case Nil
  have "b < 1 \<longleftrightarrow> b = (0 :: byte)" for b by (metis word_less_1)
  then show ?case by (cases k) (auto simp: le_less dest!: not_sym [THEN neq_Nil_conv [THEN iffD1]])
next
  case (Cons a p)
  show ?case
  proof (cases k)
    case (Cons b k')
    then show ?thesis using Cons.IH [of k'] by auto
  qed simp
qed

lemma in_range_all:
  "constructLevelKey n [] \<le> k \<and> k < butlast (constructLevelKey n []) @ [1] \<longleftrightarrow> owns n k"
  using between_separators [of "to_bytes n" k] by (simp add: constructLevelKey_def owns_def)

lemma GetIterator_all:
  "DBHandle_GetIterator n [] None db = filter (\<lambda>kv. owns n (fst kv)) (entries db)"
  unfolding DBHandle_GetIterator_def Let_def DB_GetIterator_def option.case in_range_all ..

lemma levelKey_less [simp]:
  "constructLevelKey n k \<le> constructLevelKey n k' \<longleftrightarrow> k \<le> k'"
  "constructLevelKey n k < constructLevelKey n k' \<longleftrightarrow> k < k'"
proof -
  have "p @ a < p @ b \<longleftrightarrow> a < b" for p a b :: bytes by (induction p) auto
  then have *: "constructLevelKey n k < constructLevelKey n k' \<longleftrightarrow> k < k'" for k k'
    unfolding constructLevelKey_def by simp
  show "constructLevelKey n k < constructLevelKey n k' \<longleftrightarrow> k < k'" by (rule *)
  show "constructLevelKey n k \<le> constructLevelKey n k' \<longleftrightarrow> k \<le> k'" by (simp add: le_less *)
qed

section \<open>Writes\<close>

lemma db_fault_entries [simp]: "db_fault db = (f, db') \<Longrightarrow> entries db' = entries db"
  by (auto simp: db_fault_def split: list.splits)

lemma db_fault_none [simp]: "db_faults db = [] \<Longrightarrow> db_fault db = (False, db)"
  by (simp add: db_fault_def)

text \<open>A batch is written as a whole or not at all.\<close>

lemma DB_WriteBatch_atomic:
  assumes "DB_WriteBatch b sync db = (r, db')"
  shows "r = Ok () \<and> entries db' = fold (kv_apply sput sdel) b (entries db) \<or>
     r \<noteq> Ok () \<and> entries db' = entries db"
  using assms by (auto simp: DB_WriteBatch_def split: prod.splits bool.splits)

lemma DB_WriteBatch_not_panic [simp]: "DB_WriteBatch b sync db \<noteq> (Panic p, db')"
  by (auto simp: DB_WriteBatch_def split: prod.splits bool.splits)

lemma DB_WriteBatch_ok [simp]:
  "db_faults db = [] \<Longrightarrow> DB_WriteBatch b sync db =
     (Ok (), db\<lparr>entries := fold (kv_apply sput sdel) b (entries db)\<rparr>)"
  by (simp add: DB_WriteBatch_def)

lemma DB_Get_batch:
  "map_of (fold (kv_apply sput sdel) b (entries db)) k =
     (case last_op b k of Some r \<Rightarrow> r | None \<Rightarrow> DB_Get db k)"
  unfolding contents.get_steps DB_Get_def ..

text \<open>The operations of an update batch touch keys of its own database only.\<close>

definition batch_owned :: "UpdateBatch \<Rightarrow> bool" where
  "batch_owned b = (\<forall>x \<in> set (ub_batch b). owns (ub_dbName b) (op_key x))"

lemma batch_owned_new [simp]: "batch_owned (NewUpdateBatch n)"
  by (simp add: batch_owned_def NewUpdateBatch_def)

lemma batch_owned_put: "UpdateBatch_Put k v b = Ok b' \<Longrightarrow> batch_owned b \<Longrightarrow> batch_owned b' \<and> ub_dbName b' = ub_dbName b"
  by (auto simp: UpdateBatch_Put_def batch_owned_def split: option.splits)

lemma batch_owned_delete: "batch_owned b \<Longrightarrow> batch_owned (UpdateBatch_Delete k b)"
  by (auto simp: UpdateBatch_Delete_def batch_owned_def)

text \<open>Two databases in one leveldb do not see each other's writes.\<close>

lemma DBHandle_WriteBatch_isolated:
  assumes "batch_owned b" "db_name_ok (ub_dbName b)" "db_name_ok n" "n \<noteq> ub_dbName b"
    and W: "DBHandle_WriteBatch b sync db = (r, db')"
  shows "DBHandle_Get n k db' = DBHandle_Get n k db"
proof -
  have "constructLevelKey n k \<notin> op_key ` set (ub_batch b)"
    using assms(1-4) unfolding batch_owned_def by (metis imageE owns_constructLevelKey owns_unique)
  then have "last_op (ub_batch b) (constructLevelKey n k) = None"
    by (simp add: last_op_None)
  then show ?thesis
    using W DB_WriteBatch_atomic [of "ub_batch b" sync db r db']
    by (auto simp: DBHandle_WriteBatch_def DBHandle_Get_def DB_Get_def contents.get_steps split: if_splits)
qed

section \<open>Dropping a database\<close>

text \<open>However the deletions are cut into batches, together they delete the pending and the remaining keys.\<close>

lemma deleteAll_loop_Ok:
  assumes "deleteAll_loop keys (map OpDelete ks) n db = (Ok (), db')"
  shows "entries db' = filter (\<lambda>kv. fst kv \<notin> set ks \<union> set keys) (entries db)"
  using assms
proof (induction keys arbitrary: ks n db)
  case Nil
  then show ?case
    using DB_WriteBatch_atomic [of "map OpDelete ks" True db "Ok ()" db']
    by (cases ks) (auto simp: fold_deletes simp del: fold_simps list.map)
next
  case (Cons key keys)
  show ?case
  proof (cases "n + length key \<ge> maxBatchSize")
    case True
    obtain db1 where db1: "DB_WriteBatch (map OpDelete (ks @ [key])) True db = (Ok (), db1)"
        and rest: "deleteAll_loop keys (map OpDelete []) 0 db1 = (Ok (), db')"
      using Cons.prems True by (auto simp: Let_def split: prod.splits result.splits)
    have "entries db1 = filter (\<lambda>kv. fst kv \<notin> set (ks @ [key])) (entries db)"
      using DB_WriteBatch_atomic [OF db1] unfolding fold_deletes by simp
    then show ?thesis using Cons.IH [OF rest] by (auto intro: filter_cong)
  next
    case False
    then show ?thesis using Cons.prems Cons.IH [of "ks @ [key]"] by (auto simp: Let_def intro: filter_cong)
  qed
qed

lemma deleteAll_loop_total: "db_faults db = [] \<Longrightarrow> \<exists>db'. deleteAll_loop keys b n db = (Ok (), db') \<and> db_faults db' = []"
proof (induction keys arbitrary: b n db)
  case (Cons key keys)
  show ?case
  proof (cases "n + length key \<ge> maxBatchSize")
    case True
    then show ?thesis using Cons.IH Cons.prems by (simp add: Let_def)
  next
    case False
    then show ?thesis using Cons.IH Cons.prems by (simp add: Let_def)
  qed
qed simp

lemma deleteAll_Ok:
  assumes "DBHandle_deleteAll n db = (Ok (), db')"
  shows "entries db' = filter (\<lambda>kv. \<not> owns n (fst kv)) (entries db)"
  using deleteAll_loop_Ok [of _ "[]" 0 db db'] assms
  by (auto simp: DBHandle_deleteAll_def GetIterator_all intro!: filter_cong)

section \<open>Properties\<close>

lemma map_of_filter_keys: "map_of (filter (\<lambda>kv. P (fst kv)) xs) k = (if P k then map_of xs k else None)"
  by (induction xs) auto





end
