(* ===== verification/BlockIndex.thy ===== *)
theory BlockIndex
  imports Serialization LevelDB
begin

text \<open>
  \<open>common/ledger/blkstorage/blockindex.go\<close>: the index of a ledger's blocks and transactions in a named
  leveldb database, with the layout of its keys.
\<close>

section \<open>Keys\<close>

definition blockNumIdxKeyPrefix :: byte where "blockNumIdxKeyPrefix = 110"
definition blockHashIdxKeyPrefix :: byte where "blockHashIdxKeyPrefix = 104"
definition txIDIdxKeyPrefix :: byte where "txIDIdxKeyPrefix = 116"
definition blockNumTranNumIdxKeyPrefix :: byte where "blockNumTranNumIdxKeyPrefix = 97"
definition indexSavePointKey :: bytes where "indexSavePointKey = to_bytes ''indexCheckpointKey''"

definition constructBlockNumKey :: "uint64 \<Rightarrow> bytes" where
  "constructBlockNumKey blockNum = [blockNumIdxKeyPrefix] @ EncodeOrderPreservingVarUint64 blockNum"

definition constructBlockHashKey :: "bytes \<Rightarrow> bytes" where
  "constructBlockHashKey blockHash = [blockHashIdxKeyPrefix] @ blockHash"

definition constructTxIDKey :: "string \<Rightarrow> uint64 \<Rightarrow> uint64 \<Rightarrow> bytes" where
  "constructTxIDKey txID blkNum txNum =
     [txIDIdxKeyPrefix] @ EncodeOrderPreservingVarUint64 (word_of_nat (length txID)) @ to_bytes txID @
     EncodeOrderPreservingVarUint64 blkNum @ EncodeOrderPreservingVarUint64 txNum"

definition retrieveTxID :: "bytes \<Rightarrow> string result" where
  "retrieveTxID encodedTxIDKey =
     (if length encodedTxIDKey = 0 then Err (ErrMsg ''invalid txIDKey - zero-length slice'')
      else if hd encodedTxIDKey \<noteq> txIDIdxKeyPrefix then Err (ErrMsg ''invalid txIDKey {%x} - unexpected prefix'')
      else
        (let remainingBytes = tl encodedTxIDKey in
         rbind (rwrap ''invalid txIDKey {%x}'' (DecodeOrderPreservingVarUint64 remainingBytes)) (\<lambda>(txIDLen, n).
         let remainingBytes' = drop n remainingBytes in
         if int (length remainingBytes') \<le> sint txIDLen then Err (ErrMsg ''invalid txIDKey {%x}, fewer bytes present'')
         else if sint txIDLen < 0 then Panic ''slice bounds out of range''
         else Ok (to_string (take (nat (sint txIDLen)) remainingBytes')))))"

record rangeScan =
  startKey :: bytes
  stopKey :: bytes

definition constructTxIDRangeScan :: "string \<Rightarrow> rangeScan" where
  "constructTxIDRangeScan txID =
     (let sk = [txIDIdxKeyPrefix] @ EncodeOrderPreservingVarUint64 (word_of_nat (length txID)) @ to_bytes txID
      in \<lparr>startKey = sk, stopKey = sk @ [0xff]\<rparr>)"

definition constructBlockNumTranNumKey :: "uint64 \<Rightarrow> uint64 \<Rightarrow> bytes" where
  "constructBlockNumTranNumKey blockNum txNum =
     [blockNumTranNumIdxKeyPrefix] @ EncodeOrderPreservingVarUint64 blockNum @ EncodeOrderPreservingVarUint64 txNum"

definition encodeBlockNum :: "uint64 \<Rightarrow> bytes" where
  "encodeBlockNum blockNum = EncodeVarint blockNum"

definition decodeBlockNum :: "bytes \<Rightarrow> uint64" where
  "decodeBlockNum blockNumBytes = fst (DecodeVarint blockNumBytes)"

section \<open>Locations\<close>

record fileLocPointer =
  fileSuffixNum :: int
  flp_loc :: locPointer

definition newFileLocationPointer :: "int \<Rightarrow> int \<Rightarrow> locPointer \<Rightarrow> fileLocPointer" where
  "newFileLocationPointer suffixNum beginningOffset relativeLP =
     \<lparr>fileSuffixNum = suffixNum,
      flp_loc = \<lparr>lp_offset = beginningOffset + lp_offset relativeLP, lp_bytesLength = lp_bytesLength relativeLP\<rparr>\<rparr>"

definition flp_marshal :: "fileLocPointer \<Rightarrow> bytes" where
  "flp_marshal flp =
     Buffer_EncodeVarint (word_of_int (lp_bytesLength (flp_loc flp)))
       (Buffer_EncodeVarint (word_of_int (lp_offset (flp_loc flp)))
         (Buffer_EncodeVarint (word_of_int (fileSuffixNum flp)) []))"

definition flp_unmarshal :: "bytes \<Rightarrow> fileLocPointer result" where
  "flp_unmarshal b =
     (let wrap = rwrap ''unexpected error while unmarshaling bytes [%#v] into fileLocPointer'' in
      rbind (wrap (Buffer_DecodeVarint \<lparr>pbuf = b, pindex = 0\<rparr>)) (\<lambda>(i, p1).
      rbind (wrap (Buffer_DecodeVarint p1)) (\<lambda>(j, p2).
      rbind (wrap (Buffer_DecodeVarint p2)) (\<lambda>(k, p3).
      Ok \<lparr>fileSuffixNum = sint i, flp_loc = \<lparr>lp_offset = sint j, lp_bytesLength = sint k\<rparr>\<rparr>))))"

section \<open>The index\<close>

datatype IndexableAttr =
    IndexableAttrBlockNum
  | IndexableAttrBlockHash
  | IndexableAttrTxID
  | IndexableAttrBlockNumTranNum

record blockIdxInfo =
  ii_blockNum :: uint64
  ii_blockHash :: bytes
  ii_flp :: fileLocPointer
  ii_txOffsets :: "txindexInfo list"
  ii_metadata :: "bytes list option"

record blockIndex =
  indexItems :: "IndexableAttr list"
  idx_db :: string

definition newBlockIndex :: "IndexableAttr list \<Rightarrow> string \<Rightarrow> blockIndex" where
  "newBlockIndex attrsToIndex db = \<lparr>indexItems = remdups attrsToIndex, idx_db = db\<rparr>"

definition isAttributeIndexed :: "blockIndex \<Rightarrow> IndexableAttr \<Rightarrow> bool" where
  "isAttributeIndexed index attribute = (attribute \<in> set (indexItems index))"

definition getLastBlockIndexed :: "blockIndex \<Rightarrow> DB \<Rightarrow> uint64 result" where
  "getLastBlockIndexed index db =
     (case DBHandle_Get (idx_db index) indexSavePointKey db of
        None \<Rightarrow> Err ErrIndexSavePointKeyNotPresent
      | Some blockNumBytes \<Rightarrow> Ok (decodeBlockNum blockNumBytes))"

text \<open>\<open>txsfltr.Flag(i)\<close>: the validation code of a transaction in the block's metadata.\<close>

definition ValidationFlags_Flag :: "bytes \<Rightarrow> nat \<Rightarrow> int result" where
  "ValidationFlags_Flag flags txIndex =
     (if txIndex < length flags then Ok (uint (flags ! txIndex)) else Panic ''index out of range'')"

fun index_txids :: "codec \<Rightarrow> fileLocPointer \<Rightarrow> bytes \<Rightarrow> uint64 \<Rightarrow> nat \<Rightarrow> txindexInfo list \<Rightarrow> UpdateBatch \<Rightarrow> UpdateBatch result" where
  "index_txids C flp txsfltr blkNum i [] batch = Ok batch"
| "index_txids C flp txsfltr blkNum i (txoffset # rest) batch =
     (let txFlp = newFileLocationPointer (fileSuffixNum flp) (lp_offset (flp_loc flp)) (ti_loc txoffset) in
      rbind (ValidationFlags_Flag txsfltr i) (\<lambda>code.
      let indexVal = \<lparr>tv_BlkLocation = flp_marshal flp, tv_TxLocation = flp_marshal txFlp, tv_TxValidationCode = code\<rparr> in
      rbind (UpdateBatch_Put (constructTxIDKey (ti_txID txoffset) blkNum (word_of_nat i))
        (Some (marshal_TxIDIndexValue C indexVal)) batch) (\<lambda>batch'.
      index_txids C flp txsfltr blkNum (i + 1) rest batch')))"

fun index_txnums :: "fileLocPointer \<Rightarrow> uint64 \<Rightarrow> nat \<Rightarrow> txindexInfo list \<Rightarrow> UpdateBatch \<Rightarrow> UpdateBatch result" where
  "index_txnums flp blkNum i [] batch = Ok batch"
| "index_txnums flp blkNum i (txoffset # rest) batch =
     (let txFlp = newFileLocationPointer (fileSuffixNum flp) (lp_offset (flp_loc flp)) (ti_loc txoffset) in
      rbind (UpdateBatch_Put (constructBlockNumTranNumKey blkNum (word_of_nat i)) (Some (flp_marshal txFlp)) batch) (\<lambda>batch'.
      index_txnums flp blkNum (i + 1) rest batch'))"

text \<open>The batch that \<open>indexBlock\<close> collects.\<close>

definition index_batch :: "codec \<Rightarrow> blockIndex \<Rightarrow> blockIdxInfo \<Rightarrow> UpdateBatch result" where
  "index_batch C index info =
     (let flp = ii_flp info; txOffsets = ii_txOffsets info; blkNum = ii_blockNum info; flpBytes = flp_marshal flp in
      case ii_metadata info of
        None \<Rightarrow> Panic ''nil pointer dereference''
      | Some md \<Rightarrow>
          if length md \<le> BlockMetadataIndex_TRANSACTIONS_FILTER then Panic ''index out of range''
          else
            (let txsfltr = md ! BlockMetadataIndex_TRANSACTIONS_FILTER in
             rbind (if isAttributeIndexed index IndexableAttrBlockHash
                    then UpdateBatch_Put (constructBlockHashKey (ii_blockHash info)) (Some flpBytes) (NewUpdateBatch (idx_db index))
                    else Ok (NewUpdateBatch (idx_db index))) (\<lambda>b1.
             rbind (if isAttributeIndexed index IndexableAttrBlockNum
                    then UpdateBatch_Put (constructBlockNumKey blkNum) (Some flpBytes) b1 else Ok b1) (\<lambda>b2.
             rbind (if isAttributeIndexed index IndexableAttrTxID
                    then index_txids C flp txsfltr blkNum 0 txOffsets b2 else Ok b2) (\<lambda>b3.
             rbind (if isAttributeIndexed index IndexableAttrBlockNumTranNum
                    then index_txnums flp blkNum 0 txOffsets b3 else Ok b3) (\<lambda>b4.
             UpdateBatch_Put indexSavePointKey (Some (encodeBlockNum blkNum)) b4))))))"

definition indexBlock :: "codec \<Rightarrow> blockIndex \<Rightarrow> blockIdxInfo \<Rightarrow> DB \<Rightarrow> unit result \<times> DB" where
  "indexBlock C index info db =
     (if length (indexItems index) = 0 then (Ok (), db)
      else
        (case index_batch C index info of
           Panic p \<Rightarrow> (Panic p, db)
         | Err e \<Rightarrow> (Err e, db)
         | Ok batch \<Rightarrow> DBHandle_WriteBatch batch True db))"

text \<open>
  The error of \<open>unmarshal\<close> is ignored by the lookups of block locations: a value that does not decode
  leaves the zero location, or its first fields.
\<close>

definition zero_flp :: fileLocPointer where
  "zero_flp = \<lparr>fileSuffixNum = 0, flp_loc = \<lparr>lp_offset = 0, lp_bytesLength = 0\<rparr>\<rparr>"

definition flp_unmarshal_ignoring :: "bytes \<Rightarrow> fileLocPointer" where
  "flp_unmarshal_ignoring b =
     (case Buffer_DecodeVarint \<lparr>pbuf = b, pindex = 0\<rparr> of
        Ok (i, p1) \<Rightarrow>
          (case Buffer_DecodeVarint p1 of
             Ok (j, p2) \<Rightarrow>
               (case Buffer_DecodeVarint p2 of
                  Ok (k, p3) \<Rightarrow> \<lparr>fileSuffixNum = sint i, flp_loc = \<lparr>lp_offset = sint j, lp_bytesLength = sint k\<rparr>\<rparr>
                | _ \<Rightarrow> \<lparr>fileSuffixNum = sint i, flp_loc = \<lparr>lp_offset = sint j, lp_bytesLength = 0\<rparr>\<rparr>)
           | _ \<Rightarrow> \<lparr>fileSuffixNum = sint i, flp_loc = \<lparr>lp_offset = 0, lp_bytesLength = 0\<rparr>\<rparr>)
      | _ \<Rightarrow> zero_flp)"

definition getBlockLocByHash :: "blockIndex \<Rightarrow> bytes \<Rightarrow> DB \<Rightarrow> fileLocPointer result" where
  "getBlockLocByHash index blockHash db =
     (if \<not> isAttributeIndexed index IndexableAttrBlockHash then Err ErrAttrNotIndexed
      else case DBHandle_Get (idx_db index) (constructBlockHashKey blockHash) db of
        None \<Rightarrow> Err ErrNotFoundInIndex
      | Some b \<Rightarrow> Ok (flp_unmarshal_ignoring b))"

definition getBlockLocByBlockNum :: "blockIndex \<Rightarrow> uint64 \<Rightarrow> DB \<Rightarrow> fileLocPointer result" where
  "getBlockLocByBlockNum index blockNum db =
     (if \<not> isAttributeIndexed index IndexableAttrBlockNum then Err ErrAttrNotIndexed
      else case DBHandle_Get (idx_db index) (constructBlockNumKey blockNum) db of
        None \<Rightarrow> Err ErrNotFoundInIndex
      | Some b \<Rightarrow> Ok (flp_unmarshal_ignoring b))"

definition getTxIDVal :: "codec \<Rightarrow> blockIndex \<Rightarrow> string \<Rightarrow> DB \<Rightarrow> TxIDIndexValue result" where
  "getTxIDVal C index txID db =
     (if \<not> isAttributeIndexed index IndexableAttrTxID then Err ErrAttrNotIndexed
      else
        (let scan = constructTxIDRangeScan txID
         in case DBHandle_GetIterator (idx_db index) (startKey scan) (Some (stopKey scan)) db of
              [] \<Rightarrow> Err ErrNotFoundInIndex
            | (_, valBytes) # _ \<Rightarrow>
                if length valBytes = 0 then Err ErrNilValue
                else proto_Unmarshal ''unexpected error while unmarshaling bytes [%#v] into TxIDIndexValProto''
                       (unmarshal_TxIDIndexValue C valBytes)))"

definition getTxLoc :: "codec \<Rightarrow> blockIndex \<Rightarrow> string \<Rightarrow> DB \<Rightarrow> fileLocPointer result" where
  "getTxLoc C index txID db = rbind (getTxIDVal C index txID db) (\<lambda>v. flp_unmarshal (tv_TxLocation v))"

definition getBlockLocByTxID :: "codec \<Rightarrow> blockIndex \<Rightarrow> string \<Rightarrow> DB \<Rightarrow> fileLocPointer result" where
  "getBlockLocByTxID C index txID db = rbind (getTxIDVal C index txID db) (\<lambda>v. flp_unmarshal (tv_BlkLocation v))"

definition getTxValidationCodeByTxID :: "codec \<Rightarrow> blockIndex \<Rightarrow> string \<Rightarrow> DB \<Rightarrow> int result" where
  "getTxValidationCodeByTxID C index txID db =
     rbind (getTxIDVal C index txID db) (\<lambda>v. Ok (tv_TxValidationCode v))"

definition index_txIDExists :: "blockIndex \<Rightarrow> string \<Rightarrow> DB \<Rightarrow> bool result" where
  "index_txIDExists index txID db =
     (if \<not> isAttributeIndexed index IndexableAttrTxID then Err ErrAttrNotIndexed
      else
        (let scan = constructTxIDRangeScan txID
         in Ok (DBHandle_GetIterator (idx_db index) (startKey scan) (Some (stopKey scan)) db \<noteq> [])))"

definition getTXLocByBlockNumTranNum :: "blockIndex \<Rightarrow> uint64 \<Rightarrow> uint64 \<Rightarrow> DB \<Rightarrow> fileLocPointer result" where
  "getTXLocByBlockNumTranNum index blockNum tranNum db =
     (if \<not> isAttributeIndexed index IndexableAttrBlockNumTranNum then Err ErrAttrNotIndexed
      else case DBHandle_Get (idx_db index) (constructBlockNumTranNumKey blockNum tranNum) db of
        None \<Rightarrow> Err ErrNotFoundInIndex
      | Some b \<Rightarrow> Ok (flp_unmarshal_ignoring b))"

section \<open>Locations read back\<close>

definition flp_in_range :: "fileLocPointer \<Rightarrow> bool" where
  "flp_in_range flp = (int64_range (fileSuffixNum flp) \<and> int64_range (lp_offset (flp_loc flp)) \<and>
     int64_range (lp_bytesLength (flp_loc flp)))"

lemma flp_decode_steps:
  fixes a b c :: uint64
  defines "buf \<equiv> EncodeVarint a @ EncodeVarint b @ EncodeVarint c"
  shows "\<exists>p1 p2 p3. Buffer_DecodeVarint \<lparr>pbuf = buf, pindex = 0\<rparr> = Ok (a, p1) \<and>
     Buffer_DecodeVarint p1 = Ok (b, p2) \<and> Buffer_DecodeVarint p2 = Ok (c, p3)"
  using Buffer_DecodeVarint_EncodeVarint [of "[]" a "EncodeVarint b @ EncodeVarint c"]
    Buffer_DecodeVarint_EncodeVarint [of "EncodeVarint a" b "EncodeVarint c"]
    Buffer_DecodeVarint_EncodeVarint [of "EncodeVarint a @ EncodeVarint b" c "[]"]
  by (simp add: buf_def proto_at_def)

lemma flp_round_trip [simp]:
  assumes "flp_in_range flp"
  shows "flp_unmarshal (flp_marshal flp) = Ok flp" "flp_unmarshal_ignoring (flp_marshal flp) = flp"
  using flp_decode_steps [of "word_of_int (fileSuffixNum flp)" "word_of_int (lp_offset (flp_loc flp))"
      "word_of_int (lp_bytesLength (flp_loc flp))"] assms
  by (auto simp: flp_unmarshal_def flp_unmarshal_ignoring_def flp_marshal_def Buffer_EncodeVarint_def
      flp_in_range_def sint_word_of_int Let_def)

lemma flp_marshal_not_Nil [simp]: "flp_marshal flp \<noteq> []"
  by (simp add: flp_marshal_def Buffer_EncodeVarint_def)

lemma decode_encodeBlockNum [simp]: "decodeBlockNum (encodeBlockNum n) = n"
  using DecodeVarint_EncodeVarint [of n "[]"] by (simp add: decodeBlockNum_def encodeBlockNum_def)

section \<open>Keys are different\<close>

lemma index_key_inject [simp]:
  "constructBlockNumKey m = constructBlockNumKey n \<longleftrightarrow> m = n"
  "constructBlockHashKey h = constructBlockHashKey h' \<longleftrightarrow> h = h'"
  "constructBlockNumTranNumKey m i = constructBlockNumTranNumKey n j \<longleftrightarrow> m = n \<and> i = j"
  by (auto simp: constructBlockNumKey_def constructBlockHashKey_def constructBlockNumTranNumKey_def
      opv.enc_append_iff opv.enc_inject)

lemma indexSavePointKey_Cons: "indexSavePointKey = 105 # to_bytes ''ndexCheckpointKey''"
  by (simp add: indexSavePointKey_def to_bytes_def byte_of_char_def of_char_def)

lemmas index_key_defs = constructBlockNumKey_def constructBlockHashKey_def constructBlockNumTranNumKey_def
  constructTxIDKey_def indexSavePointKey_Cons blockNumIdxKeyPrefix_def blockHashIdxKeyPrefix_def
  txIDIdxKeyPrefix_def blockNumTranNumIdxKeyPrefix_def

lemma index_key_distinct [simp]:
  "constructBlockNumKey m \<noteq> constructBlockHashKey h" "constructBlockHashKey h \<noteq> constructBlockNumKey m"
  "constructBlockNumKey m \<noteq> constructBlockNumTranNumKey n i" "constructBlockNumTranNumKey n i \<noteq> constructBlockNumKey m"
  "constructBlockNumKey m \<noteq> constructTxIDKey t n i" "constructTxIDKey t n i \<noteq> constructBlockNumKey m"
  "constructBlockNumKey m \<noteq> indexSavePointKey" "indexSavePointKey \<noteq> constructBlockNumKey m"
  "constructBlockHashKey h \<noteq> constructBlockNumTranNumKey n i" "constructBlockNumTranNumKey n i \<noteq> constructBlockHashKey h"
  "constructBlockHashKey h \<noteq> constructTxIDKey t n i" "constructTxIDKey t n i \<noteq> constructBlockHashKey h"
  "constructBlockHashKey h \<noteq> indexSavePointKey" "indexSavePointKey \<noteq> constructBlockHashKey h"
  "constructBlockNumTranNumKey n i \<noteq> constructTxIDKey t m j" "constructTxIDKey t m j \<noteq> constructBlockNumTranNumKey n i"
  "constructBlockNumTranNumKey n i \<noteq> indexSavePointKey" "indexSavePointKey \<noteq> constructBlockNumTranNumKey n i"
  "constructTxIDKey t n i \<noteq> indexSavePointKey" "indexSavePointKey \<noteq> constructTxIDKey t n i"
  by (simp_all add: index_key_defs)

section \<open>The range of a transaction identifier\<close>

definition txid_fits :: "string \<Rightarrow> bool" where
  "txid_fits t = (length t < 2 ^ 63)"

definition txid_prefix :: "string \<Rightarrow> bytes" where
  "txid_prefix t = txIDIdxKeyPrefix # EncodeOrderPreservingVarUint64 (word_of_nat (length t)) @ to_bytes t"

lemma constructTxIDKey_prefix:
  "constructTxIDKey t b n = txid_prefix t @ EncodeOrderPreservingVarUint64 b @ EncodeOrderPreservingVarUint64 n"
  by (simp add: constructTxIDKey_def txid_prefix_def)

lemma txid_prefix_split:
  assumes "txid_fits t" "txid_fits t'" "txid_prefix t @ xs = txid_prefix t' @ ys"
  shows "t = t' \<and> xs = ys"
proof -
  have e: "EncodeOrderPreservingVarUint64 (word_of_nat (length t)) @ to_bytes t @ xs =
      EncodeOrderPreservingVarUint64 (word_of_nat (length t')) @ to_bytes t' @ ys"
    using assms(3) by (simp add: txid_prefix_def)
  then have "(word_of_nat (length t) :: uint64) = word_of_nat (length t')" and r: "to_bytes t @ xs = to_bytes t' @ ys"
    unfolding opv.enc_append_iff by simp_all
  then have "length t = length t'" using assms(1,2) by (metis txid_fits_def sint_small of_nat_eq_iff)
  then show ?thesis using r by simp
qed

lemma constructTxIDKey_inject:
  "txid_fits t \<Longrightarrow> txid_fits t' \<Longrightarrow>
     constructTxIDKey t b n = constructTxIDKey t' b' n' \<longleftrightarrow> t = t' \<and> b = b' \<and> n = n'"
  unfolding constructTxIDKey_prefix by (metis opv.enc_append_iff opv.enc_inject txid_prefix_split)

text \<open>Between \<open>s\<close> and \<open>s ff\<close> there are the extensions of \<open>s\<close> whose next byte is not \<open>ff\<close>.\<close>

lemma in_scan_iff:
  fixes s k :: bytes
  shows "s \<le> k \<and> k < s @ [0xff] \<longleftrightarrow> (\<exists>r. k = s @ r \<and> (r = [] \<or> hd r < 0xff))"
proof (induction s arbitrary: k)
  case Nil
  have "\<not> 255 < b" for b :: byte using unsigned_less [of b, where ?'a = nat] by (simp add: word_less_nat_alt)
  then show ?case by (cases k) auto
next
  case (Cons a s)
  show ?case
  proof (cases k)
    case (Cons b k')
    then show ?thesis using Cons.IH [of k'] by auto
  qed simp
qed

lemma hd_Encode_op: "hd (EncodeOrderPreservingVarUint64 v @ xs) < 0xff" "EncodeOrderPreservingVarUint64 v \<noteq> []"
proof -
  have "length (significant v) \<le> 8" by (rule significant_props)
  moreover have "EncodeOrderPreservingVarUint64 v = word_of_nat (length (significant v)) # significant v"
    by (rule Encode_significant)
  ultimately show "hd (EncodeOrderPreservingVarUint64 v @ xs) < 0xff" "EncodeOrderPreservingVarUint64 v \<noteq> []"
    by (simp_all add: word_less_nat_alt unat_of_nat take_bit_eq_mod)
qed

definition in_txid_scan :: "string \<Rightarrow> bytes \<Rightarrow> bool" where
  "in_txid_scan t k = (startKey (constructTxIDRangeScan t) \<le> k \<and> k < stopKey (constructTxIDRangeScan t))"

lemma in_txid_scan_iff: "in_txid_scan t k \<longleftrightarrow> (\<exists>r. k = txid_prefix t @ r \<and> (r = [] \<or> hd r < 0xff))"
  unfolding in_txid_scan_def in_scan_iff [symmetric]
  by (simp add: constructTxIDRangeScan_def txid_prefix_def Let_def)

lemma in_txid_scan_key:
  assumes "txid_fits t" "txid_fits t'"
  shows "in_txid_scan t (constructTxIDKey t' b n) \<longleftrightarrow> t = t'"
proof
  assume "in_txid_scan t (constructTxIDKey t' b n)"
  then obtain r where "txid_prefix t' @ EncodeOrderPreservingVarUint64 b @ EncodeOrderPreservingVarUint64 n = txid_prefix t @ r"
    by (auto simp: in_txid_scan_iff constructTxIDKey_prefix)
  then show "t = t'" using txid_prefix_split assms by metis
next
  assume "t = t'"
  then show "in_txid_scan t (constructTxIDKey t' b n)"
    using hd_Encode_op by (auto simp: in_txid_scan_iff constructTxIDKey_prefix)
qed

lemma in_txid_scan_other [simp]:
  "\<not> in_txid_scan t (constructBlockNumKey m)" "\<not> in_txid_scan t (constructBlockHashKey h)"
  "\<not> in_txid_scan t (constructBlockNumTranNumKey m n)" "\<not> in_txid_scan t indexSavePointKey"
  by (simp_all add: in_txid_scan_iff txid_prefix_def index_key_defs)

lemma constructTxIDKey_less:
  "constructTxIDKey t b n < constructTxIDKey t b' n' \<longleftrightarrow> b < b' \<or> b = b' \<and> n < n'"
proof -
  have app: "p @ xs < p @ ys \<longleftrightarrow> xs < ys" for p xs ys :: bytes by (induction p) auto
  have "EncodeOrderPreservingVarUint64 b @ xs < EncodeOrderPreservingVarUint64 b' @ ys \<longleftrightarrow>
      b < b' \<or> b = b' \<and> xs < ys" for xs ys
  proof (cases "b = b'")
    case False
    have d: "p @ xs < q @ ys \<longleftrightarrow> p < q" if "\<forall>zs. q \<noteq> p @ zs" "\<forall>zs. p \<noteq> q @ zs" for p q :: bytes
      using that
    proof (induction p arbitrary: q)
      case (Cons a p)
      then show ?case by (cases q) auto
    qed simp
    have "\<forall>zs. EncodeOrderPreservingVarUint64 b' \<noteq> EncodeOrderPreservingVarUint64 b @ zs"
      "\<forall>zs. EncodeOrderPreservingVarUint64 b \<noteq> EncodeOrderPreservingVarUint64 b' @ zs"
      using False opv.split_unique [of b' "[]" b] opv.split_unique [of b "[]" b'] by auto
    then show ?thesis using False by (simp add: d Encode_less_iff)
  qed (simp add: app)
  then show ?thesis unfolding constructTxIDKey_prefix app by (simp add: Encode_less_iff)
qed

lemma retrieveTxID_key [simp]:
  assumes "txid_fits t"
  shows "retrieveTxID (constructTxIDKey t b n) = Ok t"
proof -
  let ?rest = "to_bytes t @ EncodeOrderPreservingVarUint64 b @ EncodeOrderPreservingVarUint64 n"
  have "sint (word_of_nat (length t) :: uint64) = int (length t)" using assms by (simp add: txid_fits_def sint_small)
  moreover have "length t < length ?rest" using hd_Encode_op(2) by simp
  ultimately show ?thesis
    by (simp add: retrieveTxID_def constructTxIDKey_prefix txid_prefix_def Decode_Encode_prefix Let_def)
qed

section \<open>The batch of a block\<close>

definition tx_location :: "fileLocPointer \<Rightarrow> txindexInfo \<Rightarrow> fileLocPointer" where
  "tx_location flp ti = newFileLocationPointer (fileSuffixNum flp) (lp_offset (flp_loc flp)) (ti_loc ti)"

definition txid_value :: "fileLocPointer \<Rightarrow> bytes \<Rightarrow> txindexInfo list \<Rightarrow> nat \<Rightarrow> TxIDIndexValue" where
  "txid_value flp flags txs i =
     \<lparr>tv_BlkLocation = flp_marshal flp, tv_TxLocation = flp_marshal (tx_location flp (txs ! i)),
      tv_TxValidationCode = uint (flags ! i)\<rparr>"

definition txid_puts :: "codec \<Rightarrow> blockIdxInfo \<Rightarrow> bytes \<Rightarrow> (bytes \<times> bytes) list" where
  "txid_puts C info flags =
     map (\<lambda>i. (constructTxIDKey (ti_txID (ii_txOffsets info ! i)) (ii_blockNum info) (word_of_nat i),
               marshal_TxIDIndexValue C (txid_value (ii_flp info) flags (ii_txOffsets info) i)))
       [0..<length (ii_txOffsets info)]"

definition txnum_puts :: "blockIdxInfo \<Rightarrow> (bytes \<times> bytes) list" where
  "txnum_puts info =
     map (\<lambda>i. (constructBlockNumTranNumKey (ii_blockNum info) (word_of_nat i),
               flp_marshal (tx_location (ii_flp info) (ii_txOffsets info ! i))))
       [0..<length (ii_txOffsets info)]"

definition index_puts :: "codec \<Rightarrow> blockIndex \<Rightarrow> blockIdxInfo \<Rightarrow> bytes \<Rightarrow> (bytes \<times> bytes) list" where
  "index_puts C index info flags =
     (if isAttributeIndexed index IndexableAttrBlockHash
      then [(constructBlockHashKey (ii_blockHash info), flp_marshal (ii_flp info))] else []) @
     (if isAttributeIndexed index IndexableAttrBlockNum
      then [(constructBlockNumKey (ii_blockNum info), flp_marshal (ii_flp info))] else []) @
     (if isAttributeIndexed index IndexableAttrTxID then txid_puts C info flags else []) @
     (if isAttributeIndexed index IndexableAttrBlockNumTranNum then txnum_puts info else []) @
     [(indexSavePointKey, encodeBlockNum (ii_blockNum info))]"

definition puts_batch :: "string \<Rightarrow> (bytes \<times> bytes) list \<Rightarrow> UpdateBatch" where
  "puts_batch db kvs = \<lparr>ub_batch = map (\<lambda>(k, v). OpPut (constructLevelKey db k) v) kvs, ub_dbName = db\<rparr>"

lemma UpdateBatch_Put_puts [simp]: "UpdateBatch_Put k (Some v) (puts_batch db kvs) = Ok (puts_batch db (kvs @ [(k, v)]))"
  by (simp add: UpdateBatch_Put_def puts_batch_def)

lemma NewUpdateBatch_puts: "NewUpdateBatch db = puts_batch db []"
  by (simp add: NewUpdateBatch_def puts_batch_def)

lemma index_txids_puts:
  assumes "length txs \<le> length flags" "k \<le> length txs"
  shows "index_txids C flp flags blk k (drop k txs) (puts_batch db kvs) =
     Ok (puts_batch db (kvs @ map (\<lambda>i. (constructTxIDKey (ti_txID (txs ! i)) blk (word_of_nat i),
           marshal_TxIDIndexValue C (txid_value flp flags txs i))) [k..<length txs]))"
  using assms(2)
proof (induction "length txs - k" arbitrary: k kvs)
  case (Suc n)
  then have k: "k < length txs" by simp
  then have d: "drop k txs = txs ! k # drop (Suc k) txs" by (simp add: Cons_nth_drop_Suc)
  have u: "[k..<length txs] = k # [Suc k..<length txs]" using k by (simp add: upt_conv_Cons)
  have "n = length txs - Suc k" "Suc k \<le> length txs" using Suc.hyps(2) k by simp_all
  from Suc.hyps(1) [OF this] show ?case
    using k assms(1) unfolding d u
    by (simp add: ValidationFlags_Flag_def txid_value_def tx_location_def Let_def)
qed simp

lemma index_txnums_puts:
  assumes "k \<le> length txs"
  shows "index_txnums flp blk k (drop k txs) (puts_batch db kvs) =
     Ok (puts_batch db (kvs @ map (\<lambda>i. (constructBlockNumTranNumKey blk (word_of_nat i),
           flp_marshal (tx_location flp (txs ! i)))) [k..<length txs]))"
  using assms
proof (induction "length txs - k" arbitrary: k kvs)
  case (Suc n)
  then have k: "k < length txs" by simp
  then have d: "drop k txs = txs ! k # drop (Suc k) txs" by (simp add: Cons_nth_drop_Suc)
  have u: "[k..<length txs] = k # [Suc k..<length txs]" using k by (simp add: upt_conv_Cons)
  have "n = length txs - Suc k" "Suc k \<le> length txs" using Suc.hyps(2) k by simp_all
  from Suc.hyps(1) [OF this] show ?case
    unfolding d u by (simp add: tx_location_def Let_def)
qed simp

text \<open>The metadata that indexing needs: a validation flag for every transaction.\<close>

definition flags_ok :: "bytes list option \<Rightarrow> nat \<Rightarrow> bool" where
  "flags_ok md n = (case md of None \<Rightarrow> False
     | Some m \<Rightarrow> BlockMetadataIndex_TRANSACTIONS_FILTER < length m \<and>
         n \<le> length (m ! BlockMetadataIndex_TRANSACTIONS_FILTER))"

abbreviation flags_of :: "bytes list option \<Rightarrow> bytes" where
  "flags_of md \<equiv> the md ! BlockMetadataIndex_TRANSACTIONS_FILTER"

lemma index_batch_puts:
  assumes "flags_ok (ii_metadata info) (length (ii_txOffsets info))"
  shows "index_batch C index info = Ok (puts_batch (idx_db index) (index_puts C index info (flags_of (ii_metadata info))))"
proof -
  obtain m where m: "ii_metadata info = Some m" "\<not> length m \<le> BlockMetadataIndex_TRANSACTIONS_FILTER"
    and l: "length (ii_txOffsets info) \<le> length (m ! BlockMetadataIndex_TRANSACTIONS_FILTER)"
    using assms by (auto simp: flags_ok_def split: option.splits)
  show ?thesis
    using index_txids_puts [OF l, of 0] index_txnums_puts [of 0 "ii_txOffsets info"] m
    by (simp add: index_batch_def NewUpdateBatch_puts index_puts_def txid_puts_def txnum_puts_def Let_def)
qed

section \<open>Lookups after indexing\<close>

lemma last_op_level_puts:
  "last_op (map (\<lambda>(k, v). OpPut (constructLevelKey n k) v) kvs) (constructLevelKey n k) =
     map_option Some (map_of (rev kvs) k)"
proof (induction kvs rule: rev_induct)
  case (snoc kv kvs)
  then show ?case by (cases kv) (auto simp: last_op_append)
qed simp

lemma DBHandle_Get_puts:
  assumes "DBHandle_WriteBatch (puts_batch n kvs) sync db = (Ok (), db')"
  shows "DBHandle_Get n k db' = (case map_of (rev kvs) k of Some v \<Rightarrow> Some v | None \<Rightarrow> DBHandle_Get n k db)"
proof (cases "kvs = []")
  case True
  then show ?thesis using assms by (simp add: DBHandle_WriteBatch_def puts_batch_def)
next
  case False
  have "entries db' = fold (kv_apply sput sdel) (ub_batch (puts_batch n kvs)) (entries db)"
    using assms False DB_WriteBatch_atomic [of "ub_batch (puts_batch n kvs)" sync db "Ok ()" db']
    by (simp add: DBHandle_WriteBatch_def puts_batch_def)
  then have "DBHandle_Get n k db' =
      (case last_op (ub_batch (puts_batch n kvs)) (constructLevelKey n k) of Some r \<Rightarrow> r
       | None \<Rightarrow> DB_Get db (constructLevelKey n k))"
    unfolding DBHandle_Get_def DB_Get_def by (simp only: contents.get_steps)
  then show ?thesis
    by (simp add: puts_batch_def last_op_level_puts DBHandle_Get_def split: option.split)
qed

lemma map_of_unique:
  assumes "(k, v) \<in> set kvs" "\<And>v'. (k, v') \<in> set kvs \<Longrightarrow> v' = v"
  shows "map_of (rev kvs) k = Some v"
proof -
  have "map_of (rev kvs) k \<noteq> None" using assms(1)
    by (metis fst_conv image_eqI map_of_eq_None_iff set_rev)
  then obtain y where y: "map_of (rev kvs) k = Some y" by blast
  then have "y = v" using assms(2) [of y] map_of_SomeD [OF y] by simp
  then show ?thesis using y by simp
qed

lemma map_of_absent: "k \<notin> fst ` set kvs \<Longrightarrow> map_of (rev kvs) k = None"
  by (auto simp: map_of_eq_None_iff)

text \<open>A successful \<open>indexBlock\<close>, with the entries it wrote.\<close>

definition indexed :: "codec \<Rightarrow> blockIndex \<Rightarrow> blockIdxInfo \<Rightarrow> DB \<Rightarrow> DB \<Rightarrow> bool" where
  "indexed C index info db db' \<longleftrightarrow> indexItems index \<noteq> [] \<and>
     flags_ok (ii_metadata info) (length (ii_txOffsets info)) \<and> length (ii_txOffsets info) < 2 ^ 63 \<and>
     indexBlock C index info db = (Ok (), db')"

lemma indexed_write:
  assumes "indexed C index info db db'"
  shows "DBHandle_WriteBatch (puts_batch (idx_db index) (index_puts C index info (flags_of (ii_metadata info)))) True db = (Ok (), db')"
  using assms index_batch_puts [of info C index] by (auto simp: indexed_def indexBlock_def)

lemmas indexed_get = DBHandle_Get_puts [OF indexed_write]

lemma word_of_nat_inject_63:
  "m < 2 ^ 63 \<Longrightarrow> n < 2 ^ 63 \<Longrightarrow> (word_of_nat m :: uint64) = word_of_nat n \<longleftrightarrow> m = n"
  by (metis of_nat_eq_iff sint_small)

lemma getLastBlockIndexed_indexed:
  assumes "indexed C index info db db'"
  shows "getLastBlockIndexed index db' = Ok (ii_blockNum info)"
proof -
  have "map_of (rev (index_puts C index info fl)) indexSavePointKey = Some (encodeBlockNum (ii_blockNum info))" for fl
    by (simp add: index_puts_def)
  then show ?thesis by (simp add: getLastBlockIndexed_def indexed_get [OF assms])
qed

lemma getBlockLocByBlockNum_indexed:
  assumes "indexed C index info db db'" "isAttributeIndexed index IndexableAttrBlockNum" "flp_in_range (ii_flp info)"
  shows "getBlockLocByBlockNum index n db' =
     (if n = ii_blockNum info then Ok (ii_flp info) else getBlockLocByBlockNum index n db)"
proof -
  have "map_of (rev (index_puts C index info fl)) (constructBlockNumKey n) =
      (if n = ii_blockNum info then Some (flp_marshal (ii_flp info)) else None)" for fl
  proof (cases "n = ii_blockNum info")
    case True
    have "map_of (rev (index_puts C index info fl)) (constructBlockNumKey n) = Some (flp_marshal (ii_flp info))"
      using True assms(2)
      by (intro map_of_unique) (auto simp: index_puts_def txid_puts_def txnum_puts_def split: if_splits)
    then show ?thesis using True by simp
  next
    case False
    then have "constructBlockNumKey n \<notin> fst ` set (index_puts C index info fl)"
      by (auto simp: index_puts_def txid_puts_def txnum_puts_def)
    then show ?thesis using False by (simp add: map_of_absent)
  qed
  then show ?thesis using assms(2,3) by (simp add: getBlockLocByBlockNum_def indexed_get [OF assms(1)])
qed

lemma getBlockLocByHash_indexed:
  assumes "indexed C index info db db'" "isAttributeIndexed index IndexableAttrBlockHash" "flp_in_range (ii_flp info)"
  shows "getBlockLocByHash index h db' =
     (if h = ii_blockHash info then Ok (ii_flp info) else getBlockLocByHash index h db)"
proof -
  have "map_of (rev (index_puts C index info fl)) (constructBlockHashKey h) =
      (if h = ii_blockHash info then Some (flp_marshal (ii_flp info)) else None)" for fl
  proof (cases "h = ii_blockHash info")
    case True
    have "map_of (rev (index_puts C index info fl)) (constructBlockHashKey h) = Some (flp_marshal (ii_flp info))"
      using True assms(2)
      by (intro map_of_unique) (auto simp: index_puts_def txid_puts_def txnum_puts_def split: if_splits)
    then show ?thesis using True by simp
  next
    case False
    then have "constructBlockHashKey h \<notin> fst ` set (index_puts C index info fl)"
      by (auto simp: index_puts_def txid_puts_def txnum_puts_def)
    then show ?thesis using False by (simp add: map_of_absent)
  qed
  then show ?thesis using assms(2,3) by (simp add: getBlockLocByHash_def indexed_get [OF assms(1)])
qed

lemma getTXLocByBlockNumTranNum_indexed:
  assumes "indexed C index info db db'" "isAttributeIndexed index IndexableAttrBlockNumTranNum"
    and "i < length (ii_txOffsets info)" "flp_in_range (tx_location (ii_flp info) (ii_txOffsets info ! i))"
  shows "getTXLocByBlockNumTranNum index (ii_blockNum info) (word_of_nat i) db' =
     Ok (tx_location (ii_flp info) (ii_txOffsets info ! i))"
proof -
  have l: "length (ii_txOffsets info) < 2 ^ 63" using assms(1) by (simp add: indexed_def)
  have "map_of (rev (index_puts C index info fl)) (constructBlockNumTranNumKey (ii_blockNum info) (word_of_nat i)) =
      Some (flp_marshal (tx_location (ii_flp info) (ii_txOffsets info ! i)))" for fl
    using assms(2,3) l
    by (intro map_of_unique)
       (auto simp: index_puts_def txid_puts_def txnum_puts_def word_of_nat_inject_63 split: if_splits)
  then show ?thesis using assms(2,4) by (simp add: getTXLocByBlockNumTranNum_def indexed_get [OF assms(1)])
qed

lemma getBlockLoc_other_block:
  assumes "indexed C index info db db'" "n \<noteq> ii_blockNum info"
  shows "getTXLocByBlockNumTranNum index n j db' = getTXLocByBlockNumTranNum index n j db"
proof -
  have "constructBlockNumTranNumKey n j \<notin> fst ` set (index_puts C index info fl)" for fl
    using assms(2) by (auto simp: index_puts_def txid_puts_def txnum_puts_def)
  then show ?thesis by (simp add: getTXLocByBlockNumTranNum_def indexed_get [OF assms(1)] map_of_absent)
qed

section \<open>Transactions by identifier\<close>

lemma filter_sput_out:
  "\<not> P k \<Longrightarrow> filter (\<lambda>kv. P (fst kv)) (sput k v s) = filter (\<lambda>kv. P (fst kv)) s"
  by (induction k v s rule: sput.induct) auto

lemma filter_sput_last:
  "P k \<Longrightarrow> \<forall>kv \<in> set s. P (fst kv) \<longrightarrow> fst kv < k \<Longrightarrow> in_key_order s \<Longrightarrow>
     filter (\<lambda>kv. P (fst kv)) (sput k v s) = filter (\<lambda>kv. P (fst kv)) s @ [(k, v)]"
proof (induction k v s rule: sput.induct)
  case (2 k v k' v' kvs)
  show ?case
  proof (cases "k < k'")
    case True
    then have "\<forall>kv \<in> set ((k', v') # kvs). \<not> P (fst kv)" using "2.prems" by force
    then have "filter (\<lambda>kv. P (fst kv)) ((k', v') # kvs) = []" by (simp add: filter_empty_conv)
    then show ?thesis using True "2.prems"(1) by simp
  next
    case False
    then show ?thesis using 2 by auto
  qed
qed simp

lemma filter_fold_puts:
  assumes "in_key_order s" "sorted_wrt (<) (filter P (map fst kvs))"
    and "\<forall>kv \<in> set s. \<forall>x \<in> set kvs. P (fst kv) \<longrightarrow> P (fst x) \<longrightarrow> fst kv < fst x"
  shows "filter (\<lambda>kv. P (fst kv)) (fold (\<lambda>(k, v). sput k v) kvs s) =
     filter (\<lambda>kv. P (fst kv)) s @ filter (\<lambda>kv. P (fst kv)) kvs"
  using assms
proof (induction kvs arbitrary: s)
  case (Cons kv kvs)
  obtain k v where kv: "kv = (k, v)" by fastforce
  have s': "in_key_order (sput k v s)" using Cons.prems by simp
  have "sorted_wrt (<) (filter P (map fst kvs))" using Cons.prems by (simp split: if_splits)
  moreover have "\<forall>x \<in> set (sput k v s). \<forall>y \<in> set kvs. P (fst x) \<longrightarrow> P (fst y) \<longrightarrow> fst x < fst y"
    using Cons.prems(2,3) set_sput [of k v s] by (fastforce simp: kv)
  ultimately have IH: "filter (\<lambda>kv. P (fst kv)) (fold (\<lambda>(k, v). sput k v) kvs (sput k v s)) =
      filter (\<lambda>kv. P (fst kv)) (sput k v s) @ filter (\<lambda>kv. P (fst kv)) kvs"
    using s' by (intro Cons.IH)
  show ?case
  proof (cases "P k")
    case True
    then have "filter (\<lambda>kv. P (fst kv)) (sput k v s) = filter (\<lambda>kv. P (fst kv)) s @ [(k, v)]"
      using Cons.prems by (intro filter_sput_last) (auto simp: kv)
    then show ?thesis using IH True by (simp add: kv)
  qed (use IH in \<open>simp add: kv filter_sput_out\<close>)
qed simp

abbreviation txid_iterator :: "blockIndex \<Rightarrow> string \<Rightarrow> DB \<Rightarrow> (bytes \<times> bytes) list" where
  "txid_iterator index t db \<equiv> DBHandle_GetIterator (idx_db index) (startKey (constructTxIDRangeScan t))
     (Some (stopKey (constructTxIDRangeScan t))) db"

definition in_level_scan :: "string \<Rightarrow> string \<Rightarrow> bytes \<Rightarrow> bool" where
  "in_level_scan n t k = (constructLevelKey n (startKey (constructTxIDRangeScan t)) \<le> k \<and>
     k < constructLevelKey n (stopKey (constructTxIDRangeScan t)))"

lemma txid_iterator_filter: "txid_iterator index t db = filter (\<lambda>kv. in_level_scan (idx_db index) t (fst kv)) (entries db)"
  by (simp add: DBHandle_GetIterator_def DB_GetIterator_def in_level_scan_def)

lemma in_level_scan_key [simp]: "in_level_scan n t (constructLevelKey n k) = in_txid_scan t k"
  by (simp add: in_level_scan_def in_txid_scan_def)

text \<open>All entries for an identifier belong to blocks below a given number.\<close>

definition txids_below :: "blockIndex \<Rightarrow> nat \<Rightarrow> DB \<Rightarrow> bool" where
  "txids_below index h db \<longleftrightarrow>
     (\<forall>kv \<in> set (entries db). \<forall>t. txid_fits t \<longrightarrow> in_level_scan (idx_db index) t (fst kv) \<longrightarrow>
        (\<exists>b n. fst kv = constructLevelKey (idx_db index) (constructTxIDKey t b n) \<and> unat b < h))"

lemma fold_puts_batch:
  "fold (kv_apply sput sdel) (ub_batch (puts_batch n kvs)) s =
     fold (\<lambda>(k, v). sput k v) (map (\<lambda>(k, v). (constructLevelKey n k, v)) kvs) s"
  by (induction kvs arbitrary: s) (auto simp: puts_batch_def)

lemma indexed_entries:
  assumes "indexed C index info db db'"
  shows "entries db' = fold (\<lambda>(k, v). sput k v)
     (map (\<lambda>(k, v). (constructLevelKey (idx_db index) k, v)) (index_puts C index info (flags_of (ii_metadata info)))) (entries db)"
proof -
  let ?kvs = "index_puts C index info (flags_of (ii_metadata info))"
  have "?kvs \<noteq> []" by (simp add: index_puts_def)
  then have "DB_WriteBatch (ub_batch (puts_batch (idx_db index) ?kvs)) True db = (Ok (), db')"
    using indexed_write [OF assms] by (simp add: DBHandle_WriteBatch_def puts_batch_def)
  then show ?thesis using DB_WriteBatch_atomic fold_puts_batch by metis
qed

text \<open>The new entries for an identifier, in the order of the transactions in the block.\<close>

definition txid_new :: "codec \<Rightarrow> blockIdxInfo \<Rightarrow> string \<Rightarrow> (bytes \<times> bytes) list" where
  "txid_new C info t = filter (\<lambda>kv. in_txid_scan t (fst kv)) (txid_puts C info (flags_of (ii_metadata info)))"

definition txids_fit :: "blockIdxInfo \<Rightarrow> bool" where
  "txids_fit info = (\<forall>x \<in> set (ii_txOffsets info). txid_fits (ti_txID x))"

lemma txid_new_keys:
  assumes "(k, v) \<in> set (txid_new C info t)" "txid_fits t" "txids_fit info"
  obtains i where "i < length (ii_txOffsets info)" "ti_txID (ii_txOffsets info ! i) = t"
    "k = constructTxIDKey t (ii_blockNum info) (word_of_nat i)"
    "v = marshal_TxIDIndexValue C (txid_value (ii_flp info) (flags_of (ii_metadata info)) (ii_txOffsets info) i)"
  using assms by (auto simp: txid_new_def txid_puts_def txids_fit_def in_txid_scan_key)

lemma sorted_txid_puts:
  assumes "length (ii_txOffsets info) < 2 ^ 63" "txid_fits t" "txids_fit info"
  shows "sorted_wrt (<) (filter (in_txid_scan t) (map fst (txid_puts C info fl)))"
proof -
  let ?key = "\<lambda>i. constructTxIDKey (ti_txID (ii_txOffsets info ! i)) (ii_blockNum info) (word_of_nat i)"
  let ?is = "filter (\<lambda>i. ti_txID (ii_txOffsets info ! i) = t) [0..<length (ii_txOffsets info)]"
  have "filter (\<lambda>i. in_txid_scan t (?key i)) [0..<length (ii_txOffsets info)] = ?is"
    using assms(2,3) by (intro filter_cong) (auto simp: txids_fit_def in_txid_scan_key)
  then have "filter (in_txid_scan t) (map fst (txid_puts C info fl)) = map ?key ?is"
    by (simp add: txid_puts_def filter_map comp_def)
  moreover have "sorted_wrt (<) (map ?key ?is)"
    unfolding sorted_wrt_map
  proof (rule sorted_wrt_mono_rel [of _ "(<)"])
    fix i j assume "i \<in> set ?is" "j \<in> set ?is" "i < j"
    moreover from this assms(1) have "(word_of_nat i :: uint64) < word_of_nat j" by (simp add: word_less_nat_alt)
    ultimately show "?key i < ?key j" by (simp add: constructTxIDKey_less)
  qed (simp add: sorted_wrt_filter)
  ultimately show ?thesis by simp
qed

lemma filter_index_puts:
  "filter (\<lambda>kv. in_txid_scan t (fst kv)) (index_puts C index info fl) =
     (if isAttributeIndexed index IndexableAttrTxID
      then filter (\<lambda>kv. in_txid_scan t (fst kv)) (txid_puts C info fl) else [])"
  by (auto simp: index_puts_def txnum_puts_def filter_empty_conv)

lemma unat_below: "unat b < unat (w :: uint64) \<longleftrightarrow> b < w"
  by (simp add: word_less_nat_alt)

text \<open>Indexing a block appends its entries to what a scan for an identifier returns.\<close>

lemma txid_iterator_indexed:
  assumes I: "indexed C index info db db'" and T: "isAttributeIndexed index IndexableAttrTxID"
    and o: "in_key_order (entries db)" and b: "txids_below index (unat (ii_blockNum info)) db"
    and f: "txid_fits t" "txids_fit info"
  shows "txid_iterator index t db' = txid_iterator index t db @
     map (\<lambda>(k, v). (constructLevelKey (idx_db index) k, v)) (txid_new C info t)"
proof -
  let ?fl = "flags_of (ii_metadata info)" and ?n = "idx_db index"
  let ?puts = "index_puts C index info ?fl"
  let ?kvs = "map (\<lambda>(k, v). (constructLevelKey ?n k, v)) ?puts"
  let ?P = "in_level_scan ?n t"
  have new: "filter (\<lambda>kv. in_txid_scan t (fst kv)) ?puts = txid_new C info t"
    using T by (simp add: filter_index_puts txid_new_def)
  have kvs: "filter (\<lambda>kv. ?P (fst kv)) ?kvs = map (\<lambda>(k, v). (constructLevelKey ?n k, v)) (txid_new C info t)"
    unfolding new [symmetric] by (simp add: filter_map comp_def split_beta)
  have "filter ?P (map fst ?kvs) = map (constructLevelKey ?n) (map fst (txid_new C info t))"
    unfolding new [symmetric] by (simp add: filter_map comp_def split_beta)
  moreover have "sorted_wrt (<) (map fst (txid_new C info t))"
    using sorted_txid_puts [of info t C ?fl] I f by (simp add: txid_new_def indexed_def filter_map comp_def)
  ultimately have sorted: "sorted_wrt (<) (filter ?P (map fst ?kvs))"
    by (simp add: sorted_wrt_map)
  have below: "\<forall>kv \<in> set (entries db). \<forall>x \<in> set ?kvs. ?P (fst kv) \<longrightarrow> ?P (fst x) \<longrightarrow> fst kv < fst x"
  proof (intro ballI impI)
    fix kv x assume kv: "kv \<in> set (entries db)" "?P (fst kv)" and x: "x \<in> set ?kvs" "?P (fst x)"
    obtain c n where c: "fst kv = constructLevelKey ?n (constructTxIDKey t c n)" "unat c < unat (ii_blockNum info)"
      using b kv f(1) unfolding txids_below_def by blast
    from x have "x \<in> set (filter (\<lambda>kv. ?P (fst kv)) ?kvs)" by simp
    then obtain k v where "(k, v) \<in> set (txid_new C info t)" "fst x = constructLevelKey ?n k" unfolding kvs by auto
    then show "fst kv < fst x"
      using c f by (auto elim!: txid_new_keys simp: constructTxIDKey_less unat_below)
  qed
  show ?thesis
    unfolding txid_iterator_filter indexed_entries [OF I] filter_fold_puts [OF o sorted below] kvs ..
qed

lemma txids_below_indexed:
  assumes I: "indexed C index info db db'" and b: "txids_below index (unat (ii_blockNum info)) db"
    and f: "txids_fit info"
  shows "txids_below index (Suc (unat (ii_blockNum info))) db'"
  unfolding txids_below_def
proof (intro ballI allI impI)
  fix kv t assume kv: "kv \<in> set (entries db')" and t: "txid_fits t" "in_level_scan (idx_db index) t (fst kv)"
  have sub: "set (fold (\<lambda>(k, v). sput k v) kvs s) \<subseteq> set kvs \<union> set s" for kvs and s :: "(bytes \<times> bytes) list"
    by (induction kvs arbitrary: s) (use set_sput in fastforce)+
  from kv indexed_entries [OF I] sub
  consider "kv \<in> set (entries db)"
    | k v where "(k, v) \<in> set (index_puts C index info (flags_of (ii_metadata info)))" "kv = (constructLevelKey (idx_db index) k, v)"
    by fastforce
  then show "\<exists>b n. fst kv = constructLevelKey (idx_db index) (constructTxIDKey t b n) \<and> unat b < Suc (unat (ii_blockNum info))"
  proof cases
    case 1
    then show ?thesis using b t unfolding txids_below_def by (meson less_SucI)
  next
    case 2
    then have s: "in_txid_scan t k" using t by simp
    then have "(k, v) \<in> set (txid_new C info t)"
      using 2 by (auto simp: index_puts_def txid_new_def txnum_puts_def split: if_splits)
    then show ?thesis using 2 t f by (auto elim!: txid_new_keys)
  qed
qed

lemma in_key_order_indexed:
  assumes "indexed C index info db db'" "in_key_order (entries db)"
  shows "in_key_order (entries db')"
proof -
  have "in_key_order (fold (\<lambda>(k, v). sput k v) kvs s)" if "in_key_order s" for kvs and s :: "(bytes \<times> bytes) list"
    using that by (induction kvs arbitrary: s) auto
  then show ?thesis using indexed_entries [OF assms(1)] assms(2) by simp
qed

lemma indexed_no_faults:
  assumes "db_faults db = []" "indexItems index \<noteq> []" "length (ii_txOffsets info) < 2 ^ 63"
    and "flags_ok (ii_metadata info) (length (ii_txOffsets info))"
  shows "\<exists>db'. indexed C index info db db' \<and> db_faults db' = []"
  using assms index_batch_puts [OF assms(4), of C index]
  by (auto simp: indexed_def indexBlock_def DBHandle_WriteBatch_def)

lemma hd_filter_find: "filter P xs = [] \<longleftrightarrow> find P xs = None" "find P xs = Some x \<Longrightarrow> hd (filter P xs) = x"
  by (induction xs) auto

lemma txid_new_find:
  assumes "txid_fits t" "txids_fit info"
  shows "case find (\<lambda>i. ti_txID (ii_txOffsets info ! i) = t) [0..<length (ii_txOffsets info)] of
      None \<Rightarrow> txid_new C info t = []
    | Some i \<Rightarrow> \<exists>k rest. txid_new C info t =
        (k, marshal_TxIDIndexValue C (txid_value (ii_flp info) (flags_of (ii_metadata info)) (ii_txOffsets info) i)) # rest"
proof -
  let ?is = "[0..<length (ii_txOffsets info)]" and ?P = "\<lambda>i. ti_txID (ii_txOffsets info ! i) = t"
  let ?f = "\<lambda>i. (constructTxIDKey (ti_txID (ii_txOffsets info ! i)) (ii_blockNum info) (word_of_nat i),
               marshal_TxIDIndexValue C (txid_value (ii_flp info) (flags_of (ii_metadata info)) (ii_txOffsets info) i))"
  have "filter (\<lambda>i. in_txid_scan t (fst (?f i))) ?is = filter ?P ?is"
    using assms by (intro filter_cong) (auto simp: txids_fit_def in_txid_scan_key)
  then have n: "txid_new C info t = map ?f (filter ?P ?is)"
    by (simp add: txid_new_def txid_puts_def filter_map comp_def)
  show ?thesis
  proof (cases "find ?P ?is")
    case None
    then have "filter ?P ?is = []" using hd_filter_find(1) by blast
    then show ?thesis unfolding None option.case n by simp
  next
    case (Some i)
    then have ne: "filter ?P ?is \<noteq> []" using hd_filter_find(1) [of ?P ?is] by (simp only: option.distinct not_False_eq_True)
    have hd: "hd (filter ?P ?is) = i" using Some by (rule hd_filter_find(2))
    obtain js where "filter ?P ?is = i # js" using ne hd by (cases "filter ?P ?is") (simp_all only: list.sel list.simps simp_thms)
    then have "txid_new C info t = ?f i # map ?f js" unfolding n by (simp only: list.map)
    then show ?thesis unfolding Some option.case by blast
  qed
qed

lemma getTxIDVal_indexed:
  assumes "codec_laws C" "indexed C index info db db'" "isAttributeIndexed index IndexableAttrTxID"
    and "in_key_order (entries db)" "txids_below index (unat (ii_blockNum info)) db"
    and "txid_fits t" "txids_fit info"
  shows "getTxIDVal C index t db' =
     (if index_txIDExists index t db = Ok True then getTxIDVal C index t db
      else case find (\<lambda>i. ti_txID (ii_txOffsets info ! i) = t) [0..<length (ii_txOffsets info)] of
             None \<Rightarrow> Err ErrNotFoundInIndex
           | Some i \<Rightarrow> Ok (txid_value (ii_flp info) (flags_of (ii_metadata info)) (ii_txOffsets info) i))"
proof -
  have it: "txid_iterator index t db' = txid_iterator index t db @
     map (\<lambda>(k, v). (constructLevelKey (idx_db index) k, v)) (txid_new C info t)"
    using assms by (intro txid_iterator_indexed)
  show ?thesis
  proof (cases "txid_iterator index t db")
    case Nil
    have "marshal_TxIDIndexValue C (txid_value (ii_flp info) fl txs i) \<noteq> []" for fl txs i
      using codec_laws_simps(13) [OF assms(1)] by (simp add: txid_value_def)
    then show ?thesis
      using Nil it assms(3) codec_laws_simps(11) [OF assms(1)] txid_new_find [OF assms(6,7), of C]
      by (auto simp: getTxIDVal_def index_txIDExists_def Let_def split: option.splits)
  next
    case (Cons kv kvs)
    then show ?thesis
      using it assms(3) by (cases kv) (simp add: getTxIDVal_def index_txIDExists_def Let_def)
  qed
qed

section \<open>Properties\<close>

text \<open>C32. Indexing a block makes exactly that block reachable: afterwards its number and its hash lead
  to its location, every other number and hash to what they led to before, each of its
  transactions is found by block and transaction number, and the save point names the block.\<close>

theorem indexBlock_lookups:
  assumes "indexed C index info db db'"
    and "\<forall>a. isAttributeIndexed index a" "flp_in_range (ii_flp info)"
    and "i < length (ii_txOffsets info)" "flp_in_range (tx_location (ii_flp info) (ii_txOffsets info ! i))"
  shows "getLastBlockIndexed index db' = Ok (ii_blockNum info) \<and>
     getBlockLocByBlockNum index n db' =
       (if n = ii_blockNum info then Ok (ii_flp info) else getBlockLocByBlockNum index n db) \<and>
     getBlockLocByHash index h db' =
       (if h = ii_blockHash info then Ok (ii_flp info) else getBlockLocByHash index h db) \<and>
     getTXLocByBlockNumTranNum index (ii_blockNum info) (word_of_nat i) db' =
       Ok (tx_location (ii_flp info) (ii_txOffsets info ! i))"
  using assms
  by (simp add: getLastBlockIndexed_indexed [OF assms(1)] getBlockLocByBlockNum_indexed [OF assms(1)]
      getBlockLocByHash_indexed [OF assms(1)] getTXLocByBlockNumTranNum_indexed [OF assms(1)])

definition sample_index :: blockIndex where
  "sample_index = \<lparr>indexItems = [IndexableAttrBlockNum, IndexableAttrBlockHash, IndexableAttrTxID,
     IndexableAttrBlockNumTranNum], idx_db = ''ch''\<rparr>"

definition sample_info :: blockIdxInfo where
  "sample_info = \<lparr>ii_blockNum = 7, ii_blockHash = [1, 2],
     ii_flp = \<lparr>fileSuffixNum = 0, flp_loc = \<lparr>lp_offset = 20, lp_bytesLength = 0\<rparr>\<rparr>,
     ii_txOffsets = [\<lparr>ti_txID = ''x'', ti_loc = \<lparr>lp_offset = 5, lp_bytesLength = 6\<rparr>\<rparr>,
                     \<lparr>ti_txID = ''x'', ti_loc = \<lparr>lp_offset = 11, lp_bytesLength = 6\<rparr>\<rparr>],
     ii_metadata = Some [[], [], [0, 11]]\<rparr>"

lemma sample_index_all: "\<forall>a. isAttributeIndexed sample_index a"
proof
  fix a show "isAttributeIndexed sample_index a"
    by (cases a) (simp_all add: isAttributeIndexed_def sample_index_def)
qed

lemma sample_indexed: "\<exists>db'. indexed ref_codec sample_index sample_info \<lparr>entries = [], db_faults = []\<rparr> db'"
  using indexed_no_faults [of "\<lparr>entries = [], db_faults = []\<rparr>" sample_index sample_info ref_codec]
  by (auto simp: sample_index_def sample_info_def flags_ok_def BlockMetadataIndex_TRANSACTIONS_FILTER_def)

theorem indexBlock_lookups_witness:
  "\<exists>db'. indexed ref_codec sample_index sample_info \<lparr>entries = [], db_faults = []\<rparr> db' \<and>
     getLastBlockIndexed sample_index db' = Ok 7 \<and>
     getBlockLocByBlockNum sample_index 7 db' = Ok (ii_flp sample_info)"
proof -
  obtain db' where db': "indexed ref_codec sample_index sample_info \<lparr>entries = [], db_faults = []\<rparr> db'"
    using sample_indexed by blast
  have "flp_in_range (ii_flp sample_info)" "1 < length (ii_txOffsets sample_info)"
      "flp_in_range (tx_location (ii_flp sample_info) (ii_txOffsets sample_info ! 1))" "ii_blockNum sample_info = 7"
    by (simp_all add: sample_info_def flp_in_range_def int64_range_def tx_location_def newFileLocationPointer_def)
  then show ?thesis using indexBlock_lookups [OF db' sample_index_all, of 1 7] db' by auto
qed

text \<open>C19. A transaction identifier leads to the first transaction committed under it: when blocks are
  indexed in the order of their numbers, a later transaction with the same identifier never
  changes what the lookup returns, and within one block the one with the lowest number wins.\<close>

theorem txid_lookup_first_wins:
  assumes "codec_laws C" "indexed C index info db db'" "isAttributeIndexed index IndexableAttrTxID"
    and "in_key_order (entries db)" "txids_below index (unat (ii_blockNum info)) db"
    and "txid_fits t" "txids_fit info"
  shows "getTxIDVal C index t db' =
     (if index_txIDExists index t db = Ok True then getTxIDVal C index t db
      else case find (\<lambda>i. ti_txID (ii_txOffsets info ! i) = t) [0..<length (ii_txOffsets info)] of
             None \<Rightarrow> Err ErrNotFoundInIndex
           | Some i \<Rightarrow> Ok (txid_value (ii_flp info) (flags_of (ii_metadata info)) (ii_txOffsets info) i))"
  using assms by (rule getTxIDVal_indexed)

theorem txid_lookup_first_wins_witness:
  "\<exists>db'. indexed ref_codec sample_index sample_info \<lparr>entries = [], db_faults = []\<rparr> db' \<and>
     getTxIDVal ref_codec sample_index ''x'' db' =
       Ok (txid_value (ii_flp sample_info) [0, 11] (ii_txOffsets sample_info) 0)"
proof -
  obtain db' where db': "indexed ref_codec sample_index sample_info \<lparr>entries = [], db_faults = []\<rparr> db'"
    using sample_indexed by blast
  have "txid_fits ''x''" "txids_fit sample_info" "txids_below sample_index k \<lparr>entries = [], db_faults = []\<rparr>" for k
    by (simp_all add: txid_fits_def txids_fit_def sample_info_def txids_below_def)
  then have "getTxIDVal ref_codec sample_index ''x'' db' =
      (case find (\<lambda>i. ti_txID (ii_txOffsets sample_info ! i) = ''x'') [0..<length (ii_txOffsets sample_info)] of
             None \<Rightarrow> Err ErrNotFoundInIndex
           | Some i \<Rightarrow> Ok (txid_value (ii_flp sample_info) (flags_of (ii_metadata sample_info)) (ii_txOffsets sample_info) i))"
    using txid_lookup_first_wins [OF codec_laws_ref db' sample_index_all [rule_format], of "''x''"]
    by (simp add: index_txIDExists_def sample_index_all DBHandle_GetIterator_def DB_GetIterator_def Let_def)
  moreover have "find (\<lambda>i. ti_txID (ii_txOffsets sample_info ! i) = ''x'') [0..<length (ii_txOffsets sample_info)] = Some 0"
    by (simp add: sample_info_def upt_conv_Cons)
  moreover have "flags_of (ii_metadata sample_info) = [0, 11]"
    by (simp add: sample_info_def BlockMetadataIndex_TRANSACTIONS_FILTER_def)
  ultimately show ?thesis using db' by auto
qed

end
