(* ===== verification/CertArgs.thy ===== *)
theory CertArgs
  imports BlockUtils
begin

text \<open>
  The functions that look into the first transaction of a block for the arguments of the chaincode
  call and for the written value, and put others in their place.  The peer's copies are in
  \<open>common/ledger/blkstorage/blockfile_mgr.go\<close>, the orderer's in
  \<open>orderer/consensus/etcdraft/blockcreator.go\<close>; \<open>ValidateAnalysis2\<close> of
  \<open>core/ledger/kvledger/kv_ledger.go\<close> goes over all transactions.  The functions that change a block
  change it in place: the block they return is the block they were given.
\<close>

section \<open>Unpacking the first transaction\<close>

text \<open>\<open>tx.Actions[0]\<close> and \<open>block.Data.Data[0]\<close> panic on an empty slice.\<close>

definition first_elem :: "'a list \<Rightarrow> 'a result" where
  "first_elem xs = (case xs of [] \<Rightarrow> Panic ''index out of range'' | x # _ \<Rightarrow> Ok x)"

record unpacked =
  up_env :: Envelope
  up_payl :: Payload
  up_tx :: Transaction
  up_cap :: ChaincodeActionPayload

text \<open>The part the functions share: envelope, payload, transaction, action payload.\<close>

definition unpack_tx :: "codec \<Rightarrow> bytes \<Rightarrow> unpacked result" where
  "unpack_tx C data =
     rbind (GetEnvelopeFromBlock C data) (\<lambda>env.
     rbind (UnmarshalPayload C (env_Payload env)) (\<lambda>payl.
     rbind (UnmarshalTransaction C (pl_Data payl)) (\<lambda>tx.
     rbind (first_elem (tx_Actions tx)) (\<lambda>action.
     rbind (UnmarshalChaincodeActionPayload C (ta_Payload action)) (\<lambda>cap.
     Ok \<lparr>up_env = env, up_payl = payl, up_tx = tx, up_cap = cap\<rparr>)))))"

definition unpack_invocation :: "codec \<Rightarrow> unpacked \<Rightarrow> (ChaincodeProposalPayload \<times> ChaincodeInvocationSpec) result" where
  "unpack_invocation C u =
     rbind (UnmarshalChaincodeProposalPayload C (cap_ChaincodeProposalPayload (up_cap u))) (\<lambda>proposalPayload.
     rbind (UnmarshalChaincodeInvocationSpec C (cpp_Input proposalPayload)) (\<lambda>spec.
     Ok (proposalPayload, spec)))"

text \<open>Marshalling back, from the action payload to the envelope in the block.\<close>

definition repack_tx :: "codec \<Rightarrow> unpacked \<Rightarrow> ChaincodeActionPayload \<Rightarrow> bytes" where
  "repack_tx C u cap =
     (let actions = tx_Actions (up_tx u);
          tx = (up_tx u)\<lparr>tx_Actions := (hd actions)\<lparr>ta_Payload := marshal_ChaincodeActionPayload C cap\<rparr> # tl actions\<rparr>;
          payl = (up_payl u)\<lparr>pl_Data := marshal_Transaction C tx\<rparr>;
          env = (up_env u)\<lparr>env_Payload := marshal_Payload C payl\<rparr>
      in marshal_Envelope C env)"

definition spec_args :: "ChaincodeInvocationSpec \<Rightarrow> string list" where
  "spec_args spec =
     (case cis_ChaincodeSpec spec of
        None \<Rightarrow> []
      | Some cs \<Rightarrow> (case cs_Input cs of None \<Rightarrow> [] | Some input \<Rightarrow> map to_string (ci_Args input)))"

section \<open>Reading the arguments\<close>

definition ValidateAnalysis :: "codec \<Rightarrow> Block \<Rightarrow> string list result" where
  "ValidateAnalysis C block =
     (case BData block of
        [] \<Rightarrow> Ok []
      | d # _ \<Rightarrow>
          rbind (unpack_tx C d) (\<lambda>u.
          rbind (unpack_invocation C u) (\<lambda>(_, spec). Ok (spec_args spec))))"

definition GetArgsFromBlock :: "codec \<Rightarrow> Block \<Rightarrow> string list result" where
  "GetArgsFromBlock C block =
     rbind (first_elem (BData block)) (\<lambda>d.
     rbind (unpack_tx C d) (\<lambda>u.
     rbind (unpack_invocation C u) (\<lambda>(_, spec). Ok (spec_args spec))))"

definition etcdraft_ValidateAnalysis :: "codec \<Rightarrow> Block \<Rightarrow> string list result" where
  "etcdraft_ValidateAnalysis C block =
     rbind (first_elem (BData block)) (\<lambda>d.
     rbind (unpack_tx C d) (\<lambda>u.
     rbind (unpack_invocation C u) (\<lambda>(_, spec). Ok (spec_args spec))))"

definition etcdraft_GetArgsFromBlock :: "codec \<Rightarrow> Block \<Rightarrow> string list result" where
  "etcdraft_GetArgsFromBlock C block =
     rbind (first_elem (BData block)) (\<lambda>d.
     rbind (unpack_tx C d) (\<lambda>u.
     rbind (unpack_invocation C u) (\<lambda>(_, spec). Ok (spec_args spec))))"

text \<open>
  The loop over the transactions: \<open>args\<close> is declared outside of it, so the arguments of one
  transaction follow those of the transactions before it.
\<close>

fun ValidateAnalysis2_loop :: "codec \<Rightarrow> string \<Rightarrow> bytes list \<Rightarrow> string list \<Rightarrow> nat result" where
  "ValidateAnalysis2_loop C cert [] args = Ok 0"
| "ValidateAnalysis2_loop C cert (d # ds) args =
     rbind (GetEnvelopeFromBlock C d) (\<lambda>env.
     rbind (UnmarshalPayload C (env_Payload env)) (\<lambda>payl.
     rbind (UnmarshalTransaction C (pl_Data payl)) (\<lambda>tx.
     case tx_Actions tx of
       [] \<Rightarrow> Ok 0
     | action # _ \<Rightarrow>
         rbind (UnmarshalChaincodeActionPayload C (ta_Payload action)) (\<lambda>cap.
         rbind (UnmarshalChaincodeProposalPayload C (cap_ChaincodeProposalPayload cap)) (\<lambda>proposalPayload.
         rbind (UnmarshalChaincodeInvocationSpec C (cpp_Input proposalPayload)) (\<lambda>spec.
         case cis_ChaincodeSpec spec of
           None \<Rightarrow> ValidateAnalysis2_loop C cert ds args
         | Some cs \<Rightarrow>
             (case cs_Input cs of
                None \<Rightarrow> ValidateAnalysis2_loop C cert ds args
              | Some input \<Rightarrow>
                  (let args' = args @ map to_string (ci_Args input)
                   in if length args' < 2 then Panic ''index out of range''
                      else if args' ! 1 = cert then Ok 1
                      else ValidateAnalysis2_loop C cert ds args'))))))))"

definition ValidateAnalysis2 :: "codec \<Rightarrow> string \<Rightarrow> Block \<Rightarrow> nat result" where
  "ValidateAnalysis2 C cert block = ValidateAnalysis2_loop C cert (BData block) []"

section \<open>Writing the arguments\<close>

definition put_args :: "string list \<Rightarrow> ChaincodeInvocationSpec \<Rightarrow> ChaincodeInvocationSpec result" where
  "put_args args spec =
     (case cis_ChaincodeSpec spec of
        None \<Rightarrow> Panic ''nil pointer dereference''
      | Some cs \<Rightarrow>
          (case cs_Input cs of
             None \<Rightarrow> Panic ''nil pointer dereference''
           | Some input \<Rightarrow>
               Ok (spec\<lparr>cis_ChaincodeSpec := Some (cs\<lparr>cs_Input := Some (input\<lparr>ci_Args := map to_bytes args\<rparr>)\<rparr>)\<rparr>)))"

definition PutArgsInBlock :: "codec \<Rightarrow> string list \<Rightarrow> Block \<Rightarrow> Block result" where
  "PutArgsInBlock C args block =
     rbind (first_elem (BData block)) (\<lambda>d.
     rbind (unpack_tx C d) (\<lambda>u.
     rbind (unpack_invocation C u) (\<lambda>(proposalPayload, spec).
     rbind (put_args args spec) (\<lambda>spec'.
     let proposalPayload' = proposalPayload\<lparr>cpp_Input := marshal_ChaincodeInvocationSpec C spec'\<rparr>;
         cap' = (up_cap u)\<lparr>cap_ChaincodeProposalPayload := marshal_ChaincodeProposalPayload C proposalPayload'\<rparr>
     in Ok (block\<lparr>BData := repack_tx C u cap' # tl (BData block)\<rparr>)))))"

definition etcdraft_PutArgsInBlock :: "codec \<Rightarrow> string list \<Rightarrow> Block \<Rightarrow> Block result" where
  "etcdraft_PutArgsInBlock C args block =
     rbind (first_elem (BData block)) (\<lambda>d.
     rbind (unpack_tx C d) (\<lambda>u.
     rbind (unpack_invocation C u) (\<lambda>(proposalPayload, spec).
     rbind (put_args args spec) (\<lambda>spec'.
     let proposalPayload' = proposalPayload\<lparr>cpp_Input := marshal_ChaincodeInvocationSpec C spec'\<rparr>;
         cap' = (up_cap u)\<lparr>cap_ChaincodeProposalPayload := marshal_ChaincodeProposalPayload C proposalPayload'\<rparr>
     in Ok (block\<lparr>BData := repack_tx C u cap' # tl (BData block)\<rparr>)))))"

section \<open>The read-write set\<close>

text \<open>\<open>txReadWriteSet.NsRwset[1]\<close>: the second namespace of the transaction's read-write set.\<close>

definition second_elem :: "'a list \<Rightarrow> 'a result" where
  "second_elem xs = (case xs of x # y # _ \<Rightarrow> Ok y | _ \<Rightarrow> Panic ''index out of range'')"

definition unpack_rwset ::
  "codec \<Rightarrow> unpacked \<Rightarrow> (ChaincodeEndorsedAction \<times> ProposalResponsePayload \<times> ChaincodeAction \<times> TxReadWriteSet \<times> KVRWSet) result" where
  "unpack_rwset C u =
     (let msg = ''error unmarshal chaincode action for block event'' in
      case cap_Action (up_cap u) of
        None \<Rightarrow> Panic ''nil pointer dereference''
      | Some action \<Rightarrow>
          rbind (rwrap ''error unmarshal proposal response payload for block event''
            (UnmarshalProposalResponsePayload C (cea_ProposalResponsePayload action))) (\<lambda>prp.
          rbind (rwrap msg (UnmarshalChaincodeAction C (prp_Extension prp))) (\<lambda>ca.
          rbind (proto_Unmarshal msg (unmarshal_TxReadWriteSet C (ca_Results ca))) (\<lambda>trw.
          rbind (second_elem (trw_NsRwset trw)) (\<lambda>ns.
          rbind (proto_Unmarshal msg (unmarshal_KVRWSet C (ns_Rwset ns))) (\<lambda>krw.
          Ok (action, prp, ca, trw, krw)))))))"

definition GetRwsetFromBlock :: "codec \<Rightarrow> Block \<Rightarrow> string result" where
  "GetRwsetFromBlock C block =
     rbind (first_elem (BData block)) (\<lambda>d.
     rbind (unpack_tx C d) (\<lambda>u.
     rbind (unpack_rwset C u) (\<lambda>(_, _, _, _, krw).
     case krw_Writes krw of [] \<Rightarrow> Ok '''' | w # _ \<Rightarrow> Ok (to_string (kw_Value w)))))"

definition put_value :: "string \<Rightarrow> KVRWSet \<Rightarrow> KVRWSet result" where
  "put_value v krw =
     (case krw_Writes krw of
        [] \<Rightarrow> Panic ''index out of range''
      | w # ws \<Rightarrow> Ok (krw\<lparr>krw_Writes := w\<lparr>kw_Value := to_bytes v\<rparr> # ws\<rparr>))"

definition PutRwsetInBlock :: "codec \<Rightarrow> string \<Rightarrow> Block \<Rightarrow> Block result" where
  "PutRwsetInBlock C oldvalues block =
     rbind (first_elem (BData block)) (\<lambda>d.
     rbind (unpack_tx C d) (\<lambda>u.
     rbind (unpack_rwset C u) (\<lambda>(action, prp, ca, trw, krw).
     rbind (put_value oldvalues krw) (\<lambda>krw'.
     let nss = trw_NsRwset trw;
         trw' = trw\<lparr>trw_NsRwset := nss[1 := (nss ! 1)\<lparr>ns_Rwset := marshal_KVRWSet C krw'\<rparr>]\<rparr>;
         ca' = ca\<lparr>ca_Results := marshal_TxReadWriteSet C trw'\<rparr>;
         prp' = prp\<lparr>prp_Extension := marshal_ChaincodeAction C ca'\<rparr>;
         action' = action\<lparr>cea_ProposalResponsePayload := marshal_ProposalResponsePayload C prp'\<rparr>;
         cap' = (up_cap u)\<lparr>cap_Action := Some action'\<rparr>
     in Ok (block\<lparr>BData := repack_tx C u cap' # tl (BData block)\<rparr>)))))"

section \<open>Facts\<close>

lemma first_elem_Ok: "first_elem xs = Ok x \<longleftrightarrow> (\<exists>ys. xs = x # ys)"
  by (auto simp: first_elem_def split: list.splits)

lemma second_elem_Ok: "second_elem xs = Ok y \<longleftrightarrow> (\<exists>x zs. xs = x # y # zs)"
  by (auto simp: second_elem_def split: list.splits)

text \<open>The copies agree, except that the orderer's \<open>ValidateAnalysis\<close> does not check for an empty block.\<close>

lemma args_copies:
  "etcdraft_GetArgsFromBlock = GetArgsFromBlock" "etcdraft_PutArgsInBlock = PutArgsInBlock"
  "etcdraft_ValidateAnalysis = GetArgsFromBlock"
  "BData b \<noteq> [] \<Longrightarrow> ValidateAnalysis C b = GetArgsFromBlock C b"
  by (intro ext, simp add: etcdraft_GetArgsFromBlock_def GetArgsFromBlock_def etcdraft_PutArgsInBlock_def
      PutArgsInBlock_def etcdraft_ValidateAnalysis_def)+
     (simp add: ValidateAnalysis_def GetArgsFromBlock_def first_elem_def split: list.split)

lemma GetEnvelopeFromBlock_marshal:
  "codec_laws C \<Longrightarrow> GetEnvelopeFromBlock C (marshal_Envelope C env) = Ok env"
  by (simp add: GetEnvelopeFromBlock_def codec_laws_simps)

lemma unpack_repack:
  assumes "codec_laws C" "unpack_tx C d = Ok u"
  shows "\<exists>u'. unpack_tx C (repack_tx C u cap) = Ok u' \<and> up_cap u' = cap \<and>
     env_Signature (up_env u') = env_Signature (up_env u) \<and> pl_Header (up_payl u') = pl_Header (up_payl u)"
proof -
  obtain a as where "tx_Actions (up_tx u) = a # as"
    using assms(2) by (auto simp: unpack_tx_def rbind_eq_Ok first_elem_Ok)
  then show ?thesis
    using codec_laws_simps [OF assms(1)]
    by (simp add: unpack_tx_def repack_tx_def GetEnvelopeFromBlock_def UnmarshalPayload_def
        UnmarshalTransaction_def UnmarshalChaincodeActionPayload_def first_elem_def Let_def)
qed

lemma put_args_spec:
  assumes "put_args args spec = Ok spec'"
  shows "spec_args spec' = args"
  using assms
  by (auto simp: put_args_def spec_args_def comp_def split: option.splits)

lemma PutArgs_then_Get:
  assumes "codec_laws C" "PutArgsInBlock C args b = Ok b'"
  shows "GetArgsFromBlock C b' = Ok args \<and> BHeader b' = BHeader b \<and> BMetadata b' = BMetadata b \<and>
     tl (BData b') = tl (BData b)"
proof -
  obtain d u pp spec spec' where d: "first_elem (BData b) = Ok d" and u: "unpack_tx C d = Ok u"
    and i: "unpack_invocation C u = Ok (pp, spec)" and s: "put_args args spec = Ok spec'"
    and b': "b' = b\<lparr>BData := repack_tx C u ((up_cap u)\<lparr>cap_ChaincodeProposalPayload :=
        marshal_ChaincodeProposalPayload C (pp\<lparr>cpp_Input := marshal_ChaincodeInvocationSpec C spec'\<rparr>)\<rparr>) # tl (BData b)\<rparr>"
    using assms(2) by (auto simp: PutArgsInBlock_def rbind_eq_Ok Let_def)
  let ?cap = "(up_cap u)\<lparr>cap_ChaincodeProposalPayload :=
        marshal_ChaincodeProposalPayload C (pp\<lparr>cpp_Input := marshal_ChaincodeInvocationSpec C spec'\<rparr>)\<rparr>"
  obtain u' where u': "unpack_tx C (repack_tx C u ?cap) = Ok u'" "up_cap u' = ?cap"
    using unpack_repack [OF assms(1) u] by blast
  have "unpack_invocation C u' = Ok (pp\<lparr>cpp_Input := marshal_ChaincodeInvocationSpec C spec'\<rparr>, spec')"
    using codec_laws_simps [OF assms(1)]
    by (simp add: unpack_invocation_def u' UnmarshalChaincodeProposalPayload_def UnmarshalChaincodeInvocationSpec_def)
  then show ?thesis
    using u' put_args_spec [OF s] by (simp add: GetArgsFromBlock_def b' first_elem_def)
qed

lemma unpack_rwset_Ok:
  "unpack_rwset C u = Ok (action, prp, ca, trw, krw) \<longleftrightarrow>
     cap_Action (up_cap u) = Some action \<and>
     UnmarshalProposalResponsePayload C (cea_ProposalResponsePayload action) = Ok prp \<and>
     UnmarshalChaincodeAction C (prp_Extension prp) = Ok ca \<and>
     unmarshal_TxReadWriteSet C (ca_Results ca) = Some trw \<and>
     (\<exists>x ns rest. trw_NsRwset trw = x # ns # rest \<and> unmarshal_KVRWSet C (ns_Rwset ns) = Some krw)"
  by (auto simp: unpack_rwset_def Let_def rbind_eq_Ok second_elem_Ok proto_Unmarshal_Ok split: option.splits)

lemma PutRwset_then_Get:
  assumes C: "codec_laws C" and put: "PutRwsetInBlock C v b = Ok b'"
  shows "GetRwsetFromBlock C b' = Ok v \<and> BHeader b' = BHeader b \<and> BMetadata b' = BMetadata b \<and>
     tl (BData b') = tl (BData b)"
proof -
  obtain d u action prp ca trw krw krw' where u: "unpack_tx C d = Ok u"
    and r: "unpack_rwset C u = Ok (action, prp, ca, trw, krw)" and w: "put_value v krw = Ok krw'"
    and b': "b' = b\<lparr>BData := repack_tx C u ((up_cap u)\<lparr>cap_Action := Some (action\<lparr>cea_ProposalResponsePayload :=
        marshal_ProposalResponsePayload C (prp\<lparr>prp_Extension := marshal_ChaincodeAction C (ca\<lparr>ca_Results :=
        marshal_TxReadWriteSet C (trw\<lparr>trw_NsRwset := (trw_NsRwset trw)[1 := (trw_NsRwset trw ! 1)\<lparr>ns_Rwset :=
        marshal_KVRWSet C krw'\<rparr>]\<rparr>)\<rparr>)\<rparr>)\<rparr>)\<rparr>) # tl (BData b)\<rparr>"
    using put by (auto simp: PutRwsetInBlock_def rbind_eq_Ok Let_def)
  let ?trw = "trw\<lparr>trw_NsRwset := (trw_NsRwset trw)[1 := (trw_NsRwset trw ! 1)\<lparr>ns_Rwset := marshal_KVRWSet C krw'\<rparr>]\<rparr>"
  let ?ca = "ca\<lparr>ca_Results := marshal_TxReadWriteSet C ?trw\<rparr>"
  let ?prp = "prp\<lparr>prp_Extension := marshal_ChaincodeAction C ?ca\<rparr>"
  let ?action = "action\<lparr>cea_ProposalResponsePayload := marshal_ProposalResponsePayload C ?prp\<rparr>"
  let ?cap = "(up_cap u)\<lparr>cap_Action := Some ?action\<rparr>"
  obtain u' where u': "unpack_tx C (repack_tx C u ?cap) = Ok u'" "up_cap u' = ?cap"
    using unpack_repack [OF C u] by blast
  obtain x ns rest where ns: "trw_NsRwset trw = x # ns # rest" using r by (auto simp: unpack_rwset_Ok)
  have "unpack_rwset C u' = Ok (?action, ?prp, ?ca, ?trw, krw')"
    using codec_laws_simps [OF C]
    by (simp add: unpack_rwset_Ok u' ns UnmarshalProposalResponsePayload_def UnmarshalChaincodeAction_def)
  moreover obtain w ws where "krw_Writes krw' = w\<lparr>kw_Value := to_bytes v\<rparr> # ws"
    using w by (auto simp: put_value_def split: list.splits)
  ultimately show ?thesis using u' by (simp add: GetRwsetFromBlock_def b' first_elem_def)
qed

text \<open>A transaction that was blanked has no actions, and looking for them panics.\<close>

lemma unpack_blank_tx:
  "codec_zero C \<Longrightarrow> unpack_tx C [] = Panic ''index out of range''"
  by (simp add: codec_zero_def unpack_tx_def GetEnvelopeFromBlock_def UnmarshalPayload_def
      UnmarshalTransaction_def first_elem_def)

lemma ValidateAnalysis_blank:
  "codec_zero C \<Longrightarrow> ValidateAnalysis C (b\<lparr>BData := [] # ds\<rparr>) = Panic ''index out of range''"
  by (simp add: ValidateAnalysis_def unpack_blank_tx)

section \<open>A sample transaction\<close>

text \<open>A chaincode call with the given arguments and one written value, marshalled by a codec.\<close>

definition sample_spec :: "string list \<Rightarrow> ChaincodeInvocationSpec" where
  "sample_spec args = \<lparr>cis_ChaincodeSpec = Some \<lparr>cs_Input = Some \<lparr>ci_Args = map to_bytes args, ci_rest = []\<rparr>, cs_rest = []\<rparr>\<rparr>"

definition sample_rwset :: "codec \<Rightarrow> string \<Rightarrow> bytes" where
  "sample_rwset C v =
     marshal_TxReadWriteSet C \<lparr>trw_NsRwset =
       [\<lparr>ns_Namespace = ''lscc'', ns_Rwset = [], ns_rest = []\<rparr>,
        \<lparr>ns_Namespace = ''cert'', ns_Rwset = marshal_KVRWSet C
           \<lparr>krw_Writes = [\<lparr>kw_Key = ''k'', kw_Value = to_bytes v, kw_rest = []\<rparr>], krw_rest = []\<rparr>, ns_rest = []\<rparr>],
       trw_rest = []\<rparr>"

definition sample_cap :: "codec \<Rightarrow> string list \<Rightarrow> string \<Rightarrow> ChaincodeActionPayload" where
  "sample_cap C args v =
     \<lparr>cap_ChaincodeProposalPayload = marshal_ChaincodeProposalPayload C
        \<lparr>cpp_Input = marshal_ChaincodeInvocationSpec C (sample_spec args), cpp_rest = []\<rparr>,
      cap_Action = Some \<lparr>cea_ProposalResponsePayload = marshal_ProposalResponsePayload C
        \<lparr>prp_ProposalHash = [], prp_Extension = marshal_ChaincodeAction C
           \<lparr>ca_Results = sample_rwset C v, ca_rest = []\<rparr>\<rparr>, cea_rest = []\<rparr>\<rparr>"

definition sample_tx :: "codec \<Rightarrow> string list \<Rightarrow> string \<Rightarrow> bytes" where
  "sample_tx C args v =
     marshal_Envelope C \<lparr>env_Payload = marshal_Payload C \<lparr>pl_Header = None, pl_Data = marshal_Transaction C
        \<lparr>tx_Actions = [\<lparr>ta_Header = [], ta_Payload = marshal_ChaincodeActionPayload C (sample_cap C args v)\<rparr>]\<rparr>\<rparr>,
      env_Signature = [9]\<rparr>"

lemma unpack_sample_tx:
  assumes "codec_laws C"
  shows "\<exists>u. unpack_tx C (sample_tx C args v) = Ok u \<and> up_cap u = sample_cap C args v"
  using codec_laws_simps [OF assms]
  by (simp add: unpack_tx_def sample_tx_def GetEnvelopeFromBlock_def UnmarshalPayload_def
      UnmarshalTransaction_def UnmarshalChaincodeActionPayload_def first_elem_def)

lemma unpack_sample_invocation:
  assumes "codec_laws C" "up_cap u = sample_cap C args v"
  shows "\<exists>pp. unpack_invocation C u = Ok (pp, sample_spec args)"
  using codec_laws_simps [OF assms(1)] assms(2)
  by (simp add: unpack_invocation_def sample_cap_def UnmarshalChaincodeProposalPayload_def
      UnmarshalChaincodeInvocationSpec_def)

lemma GetArgs_sample:
  assumes "codec_laws C"
  shows "GetArgsFromBlock C (b\<lparr>BData := sample_tx C args v # ds\<rparr>) = Ok args"
proof -
  obtain u where u: "unpack_tx C (sample_tx C args v) = Ok u" "up_cap u = sample_cap C args v"
    using unpack_sample_tx [OF assms] by blast
  then obtain pp where "unpack_invocation C u = Ok (pp, sample_spec args)"
    using unpack_sample_invocation [OF assms] by blast
  then show ?thesis using u
    by (simp add: GetArgsFromBlock_def first_elem_def spec_args_def sample_spec_def comp_def)
qed

lemma PutArgs_sample:
  assumes "codec_laws C"
  shows "\<exists>b'. PutArgsInBlock C args' (b\<lparr>BData := sample_tx C args v # ds\<rparr>) = Ok b'"
proof -
  obtain u where u: "unpack_tx C (sample_tx C args v) = Ok u" "up_cap u = sample_cap C args v"
    using unpack_sample_tx [OF assms] by blast
  then obtain pp where "unpack_invocation C u = Ok (pp, sample_spec args)"
    using unpack_sample_invocation [OF assms] by blast
  then show ?thesis using u
    by (simp add: PutArgsInBlock_def first_elem_def put_args_def sample_spec_def)
qed

lemma PutRwset_sample:
  assumes "codec_laws C"
  shows "\<exists>b'. PutRwsetInBlock C v' (b\<lparr>BData := sample_tx C args v # ds\<rparr>) = Ok b'"
proof -
  obtain u where u: "unpack_tx C (sample_tx C args v) = Ok u" "up_cap u = sample_cap C args v"
    using unpack_sample_tx [OF assms] by blast
  then have "\<exists>action prp ca trw. unpack_rwset C u = Ok (action, prp, ca, trw,
      \<lparr>krw_Writes = [\<lparr>kw_Key = ''k'', kw_Value = to_bytes v, kw_rest = []\<rparr>], krw_rest = []\<rparr>)"
    using codec_laws_simps [OF assms]
    by (simp add: unpack_rwset_Ok sample_cap_def sample_rwset_def UnmarshalProposalResponsePayload_def
        UnmarshalChaincodeAction_def)
  then show ?thesis using u by (auto simp: PutRwsetInBlock_def first_elem_def put_value_def Let_def)
qed

section \<open>Properties\<close>

text \<open>Redacting the arguments of a block's first transaction does that and no more: reading the
  arguments back gives the new ones, and the header, the metadata and the other transactions are
  the old ones.\<close>

theorem PutArgsInBlock_replaces_args:
  assumes "codec_laws C" "PutArgsInBlock C args b = Ok b'"
  shows "GetArgsFromBlock C b' = Ok args \<and> BHeader b' = BHeader b \<and> BMetadata b' = BMetadata b \<and>
     tl (BData b') = tl (BData b)"
  using assms by (rule PutArgs_then_Get)

theorem PutArgsInBlock_replaces_args_witness:
  "\<exists>b'. PutArgsInBlock ref_codec [''new''] ((NewBlock 3 [])\<lparr>BData := [sample_tx ref_codec [''old''] ''v'', [7]]\<rparr>) = Ok b' \<and>
     GetArgsFromBlock ref_codec b' = Ok [''new''] \<and> tl (BData b') = [[7]]"
  using PutArgs_sample [OF codec_laws_ref, where args' = "[''new'']" and b = "NewBlock 3 []" and args = "[''old'']"
      and v = "''v''" and ds = "[[7]]"]
    PutArgsInBlock_replaces_args [OF codec_laws_ref] by fastforce

text \<open>Likewise for the value in the read-write set: reading it back gives the new one, and the rest
  of the block is unchanged.\<close>

theorem PutRwsetInBlock_replaces_value:
  assumes "codec_laws C" "PutRwsetInBlock C v b = Ok b'"
  shows "GetRwsetFromBlock C b' = Ok v \<and> BHeader b' = BHeader b \<and> BMetadata b' = BMetadata b \<and>
     tl (BData b') = tl (BData b)"
  using assms by (rule PutRwset_then_Get)

theorem PutRwsetInBlock_replaces_value_witness:
  "\<exists>b'. PutRwsetInBlock ref_codec ''w'' ((NewBlock 3 [])\<lparr>BData := [sample_tx ref_codec [''old''] ''v'', [7]]\<rparr>) = Ok b' \<and>
     GetRwsetFromBlock ref_codec b' = Ok ''w'' \<and> tl (BData b') = [[7]]"
  using PutRwset_sample [OF codec_laws_ref, where v' = "''w''" and b = "NewBlock 3 []" and args = "[''old'']"
      and v = "''v''" and ds = "[[7]]"]
    PutRwsetInBlock_replaces_value [OF codec_laws_ref] by fastforce

end
