(* ===== verification/Redaction.thy ===== *)
theory Redaction
  imports CertArgs BlockStream
begin

text \<open>
  What the fork adds to the peer's \<open>addBlock\<close> (\<open>common/ledger/blkstorage/blockfile_mgr.go\<close>): the files
  that map a certificate to its block and a block to its offset, the redaction of a stored block when
  a \<open>ChangeCert\<close> transaction arrives, and the lock files of the time and hash locks.  The
  directories of these files exist, and operations on these files (as opposed to the block files)
  succeed.
\<close>

section \<open>Certificate and offset files\<close>

definition certinfo_path :: string where
  "certinfo_path = ''/var/hyperledger/production/certinfo_000000''"

definition blockinfo_path :: string where
  "blockinfo_path = ''/var/blockinfo_000000''"

definition field1 :: "string list \<Rightarrow> string result" where
  "field1 certinfo = (if length certinfo < 2 then Panic ''index out of range'' else Ok (certinfo ! 1))"

fun find_certkey :: "string \<Rightarrow> string list \<Rightarrow> string result" where
  "find_certkey certkey [] = Err ErrEOF"
| "find_certkey certkey (line # lines) =
     (let certinfo = Split_plusplus line
      in if certinfo ! 0 = certkey then field1 certinfo else find_certkey certkey lines)"

definition GetBlockNumberFromFile :: "string \<Rightarrow> os \<Rightarrow> string result" where
  "GetBlockNumberFromFile certkey fs =
     (case os_read fs certinfo_path of None \<Rightarrow> Err ErrNotExist | Some c \<Rightarrow> find_certkey certkey (read_lines c))"

text \<open>This loop looks at the empty line that comes back with the end of the file.\<close>

fun find_blocknum :: "string \<Rightarrow> string list \<Rightarrow> string result" where
  "find_blocknum blocknum [] =
     (let certinfo = Split_plusplus '''' in if certinfo ! 0 = blocknum then field1 certinfo else Ok '''')"
| "find_blocknum blocknum (line # lines) =
     (let certinfo = Split_plusplus line
      in if certinfo ! 0 = blocknum then field1 certinfo else find_blocknum blocknum lines)"

definition GetBlockOffsetFromFile :: "string \<Rightarrow> os \<Rightarrow> string result" where
  "GetBlockOffsetFromFile blocknum fs =
     (case os_read fs blockinfo_path of None \<Rightarrow> Err ErrNotExist | Some c \<Rightarrow> find_blocknum blocknum (read_lines c))"

definition etcdraft_GetBlockNumberFromFile :: "string \<Rightarrow> os \<Rightarrow> string result" where
  "etcdraft_GetBlockNumberFromFile certkey fs =
     (case os_read fs certinfo_path of None \<Rightarrow> Err ErrNotExist | Some c \<Rightarrow> find_certkey certkey (read_lines c))"

definition etcdraft_GetBlockOffsetFromFile :: "string \<Rightarrow> os \<Rightarrow> string result" where
  "etcdraft_GetBlockOffsetFromFile blocknum fs =
     (case os_read fs blockinfo_path of None \<Rightarrow> Err ErrNotExist | Some c \<Rightarrow> find_blocknum blocknum (read_lines c))"

definition pathExists2 :: "string \<Rightarrow> os \<Rightarrow> bool" where
  "pathExists2 path fs = os_exists fs path"

section \<open>Redaction\<close>

definition peer_rootDir :: string where
  "peer_rootDir = ''/var/hyperledger/production/ledgersData/chains/chains/mychannel''"

text \<open>
  The scan ignores its error, and a nil slice is what is deserialised when it found no block.  The
  bytes also go to a file for debugging.
\<close>

definition getBlock :: "codec \<Rightarrow> string \<Rightarrow> (os, Block) io" where
  "getBlock C offset fs =
     (let offsetint = fst (Atoi offset) in
      case ScanForLastCompleteBlock peer_rootDir 0 offsetint fs of
        Panic p \<Rightarrow> (Panic p, fs)
      | Err e \<Rightarrow> (Err e, fs)
      | Ok (blockBytes, _) \<Rightarrow>
          (let b = (case blockBytes of None \<Rightarrow> [] | Some x \<Rightarrow> x)
           in (panic_on_err ''error Deserialize the new block'' (DeserializeBlock C b),
               os_append ''/var/error4.txt'' b fs)))"

definition nth_arg :: "string list \<Rightarrow> nat \<Rightarrow> string result" where
  "nth_arg args i = (if i < length args then Ok (args ! i) else Panic ''index out of range'')"

text \<open>
  The new contents of an old block.  \<open>PutArgsInBlock\<close> works in place, so from here on the variable
  \<open>oldblock\<close> of the source names the redacted block too.  A nil block, from an error of
  \<open>PutRwsetInBlock\<close> that is ignored, makes \<open>SerializeBlock\<close> dereference it.
\<close>

definition redacted_block :: "codec \<Rightarrow> string list \<Rightarrow> Block \<Rightarrow> Block result" where
  "redacted_block C certkey oldblock =
     rbind (ignore_err [] (GetArgsFromBlock C oldblock)) (\<lambda>args.
     rbind (ignore_err '''' (GetRwsetFromBlock C oldblock)) (\<lambda>oldvalues.
     rbind (nth_arg args 11) (\<lambda>oldcert.
     rbind (nth_arg certkey 2) (\<lambda>newcert.
     let oldvalues' = Replace1 oldvalues oldcert newcert; args' = args[11 := newcert] in
     rbind (panic_on_err ''error get the new block is error'' (PutArgsInBlock C args' oldblock)) (\<lambda>newblock.
     panic_on_err ''nil pointer dereference'' (PutRwsetInBlock C oldvalues' newblock))))))"

text \<open>\<open>WriteString\<close> twice on a file opened without truncation: the texts go over the old contents.\<close>

definition write_pair :: "uint64 \<Rightarrow> bytes \<Rightarrow> bytes \<Rightarrow> os \<Rightarrow> os" where
  "write_pair num r2 s2 fs =
     (let path = blockfile_path num; c = os_content fs path
      in os_write path (overlay (overlay c 0 (r2 @ crlf)) (length (r2 @ crlf)) (s2 @ crlf)) fs)"

text \<open>The branch for \<open>ChangeCert\<close>; \<open>k\<close> is the random number drawn for the collision.\<close>

definition redact_ChangeCert :: "codec \<Rightarrow> blockfileWriter \<Rightarrow> int option \<Rightarrow> string list \<Rightarrow> (os, unit) io" where
  "redact_ChangeCert C w k certkey =
     io_bind (io_lift (nth_arg certkey 1)) (\<lambda>cert.
     io_bind (\<lambda>fs. (ignore_err '''' (GetBlockNumberFromFile cert fs), fs)) (\<lambda>blocknumstr.
     if blocknumstr = '''' then io_return ()
     else
       io_bind (io_get (GetBlockOffsetFromFile blocknumstr)) (\<lambda>offset_r.
       io_bind (io_lift (ignore_err '''' offset_r)) (\<lambda>offsetstr.
       io_bind (getBlock C offsetstr) (\<lambda>oldblock.
       io_bind (io_lift (panic_on_err ''error find old block in the blockfile'' offset_r)) (\<lambda>_.
       io_bind (io_lift (redacted_block C certkey oldblock)) (\<lambda>newblock.
       io_bind (io_lift (panic_on_err ''error serialize the new block'' (SerializeBlock C newblock))) (\<lambda>(newblockBytes, _).
       io_bind (io_modify (os_append ''/var/error3.txt'' newblockBytes)) (\<lambda>_.
       io_bind (if offsetstr \<noteq> '''' then io_ignore () (writer_writeat w newblockBytes (fst (Atoi offsetstr)) True)
                else io_return ()) (\<lambda>_.
       io_bind (io_lift (GetCollision (BData newblock) (BData newblock) k)) (\<lambda>(r2, s2).
       io_modify (write_pair (Number (BHeader newblock)) r2 s2))))))))))))"

section \<open>Locks\<close>

definition plusplus :: string where "plusplus = ''++''"

text \<open>The text of a lock: certificate, hash, start time, end time.\<close>

definition lock_record :: "string list \<Rightarrow> string result" where
  "lock_record a =
     rbind (nth_arg a 2) (\<lambda>a2. rbind (nth_arg a 3) (\<lambda>a3. rbind (nth_arg a 4) (\<lambda>a4. rbind (nth_arg a 5) (\<lambda>a5.
     Ok (a2 @ plusplus @ a3 @ plusplus @ a4 @ plusplus @ a5)))))"

definition append_text :: "string \<Rightarrow> string \<Rightarrow> (os, unit) io" where
  "append_text path s = io_modify (os_append path (to_bytes s))"

definition step_CreatCert :: "string list \<Rightarrow> uint64 \<Rightarrow> (os, unit) io" where
  "step_CreatCert a num =
     io_bind (io_lift (nth_arg a 2)) (\<lambda>ca. append_text (''/var/'' @ ca) (FormatUint num @ plusplus))"

definition step_Creatdelhashtimelock :: "string list \<Rightarrow> (os, unit) io" where
  "step_Creatdelhashtimelock a =
     io_bind (io_lift (nth_arg a 2)) (\<lambda>cert.
     io_bind (io_modify (os_create (''/var/del'' @ cert))) (\<lambda>_.
     io_bind (io_lift (lock_record a)) (\<lambda>rec. append_text (''/var/del'' @ cert) rec)))"

definition step_CreatTimeHashlock :: "string list \<Rightarrow> (os, unit) io" where
  "step_CreatTimeHashlock a =
     io_bind (io_lift (nth_arg a 2)) (\<lambda>cert.
     io_bind (io_modify (os_create (''/var/bugu'' @ cert))) (\<lambda>_.
     io_bind (io_lift (lock_record a)) (\<lambda>rec. append_text (''/var/bugu'' @ cert) rec)))"

text \<open>The checks of an execution: the times panic or are only logged, the hash is only logged.\<close>

definition lock_times :: "string list \<Rightarrow> (int \<times> int) result" where
  "lock_times a =
     rbind (nth_arg a 5) (\<lambda>end_time. rbind (nth_arg a 4) (\<lambda>start_time.
     Ok (fst (Atoi end_time), fst (Atoi start_time))))"

definition lock_hash_logged :: "string list \<Rightarrow> unit result" where
  "lock_hash_logged a = rbind (nth_arg a 3) (\<lambda>_. rbind (nth_arg a 6) (\<lambda>_. Ok ()))"

definition step_ExeTimeHashlock :: "string list \<Rightarrow> (os, unit) io" where
  "step_ExeTimeHashlock a =
     io_bind (io_lift (nth_arg a 2)) (\<lambda>cert.
     io_bind (io_get (\<lambda>fs. os_read fs (''/var/bugu'' @ cert))) (\<lambda>file.
     case file of
       None \<Rightarrow> io_return ()
     | Some _ \<Rightarrow>
         io_bind (io_lift (lock_times a)) (\<lambda>(time1, time2).
         if time1 > time2 then io_lift (Panic ''error, the time of time_hash lock is error'')
         else
           io_bind (io_lift (lock_hash_logged a)) (\<lambda>_.
           io_modify (os_remove (''/var/bugu'' @ cert))))))"

definition step_ExedelTimeHashlock :: "string list \<Rightarrow> (os, unit) io" where
  "step_ExedelTimeHashlock a =
     io_bind (io_lift (nth_arg a 2)) (\<lambda>cert.
     io_bind (io_get (\<lambda>fs. os_read fs (''/var/del'' @ cert))) (\<lambda>file.
     case file of
       None \<Rightarrow> io_return ()
     | Some c \<Rightarrow>
         if ReadLine c = None then io_lift (Err ErrEOF)
         else
           io_bind (io_lift (lock_times a)) (\<lambda>_.
           io_bind (io_lift (lock_hash_logged a)) (\<lambda>_.
           io_modify (os_remove (''/var/del'' @ cert))))))"

text \<open>\<open>DelCert\<close> and \<open>ChangeCert\<close> look whether the lock file can be opened, and log it.\<close>

definition step_DelCert :: "string list \<Rightarrow> (os, unit) io" where
  "step_DelCert a = io_bind (io_lift (nth_arg a 1)) (\<lambda>cert. io_bind (io_get (\<lambda>fs. os_read fs (''/var/del'' @ cert))) (\<lambda>_. io_return ()))"

definition step_ChangeCert :: "string list \<Rightarrow> (os, unit) io" where
  "step_ChangeCert a = io_bind (io_lift (nth_arg a 1)) (\<lambda>cert. io_bind (io_get (\<lambda>fs. os_read fs (''/var/bugu'' @ cert))) (\<lambda>_. io_return ()))"

text \<open>The line of the offset file for a block.\<close>

definition record_offset :: "uint64 \<Rightarrow> int \<Rightarrow> (os, unit) io" where
  "record_offset num currentOffset =
     append_text blockinfo_path (FormatUint num @ plusplus @ Itoa currentOffset @ to_string crlf)"

definition record_and_locks :: "codec \<Rightarrow> Block \<Rightarrow> int \<Rightarrow> (os, unit) io" where
  "record_and_locks C block currentOffset =
     io_bind (record_offset (Number (BHeader block)) currentOffset) (\<lambda>_.
     io_bind (io_lift (ignore_err [] (ValidateAnalysis C block))) (\<lambda>stringnum.
     if stringnum = [] then io_return ()
     else if stringnum ! 0 = ''CreatCert'' then step_CreatCert stringnum (Number (BHeader block))
     else if stringnum ! 0 = ''Creatdelhashtimelock'' then step_Creatdelhashtimelock stringnum
     else if stringnum ! 0 = ''CreatTimeHashlock'' then step_CreatTimeHashlock stringnum
     else if stringnum ! 0 = ''ExeTimeHashlock'' then step_ExeTimeHashlock stringnum
     else if stringnum ! 0 = ''ExedelTimeHashlock'' then step_ExedelTimeHashlock stringnum
     else if stringnum ! 0 = ''DelCert'' then step_DelCert stringnum
     else if stringnum ! 0 = ''ChangeCert'' then step_ChangeCert stringnum
     else io_return ()))"

section \<open>Facts\<close>

lemma file_copies:
  "etcdraft_GetBlockNumberFromFile = GetBlockNumberFromFile"
  "etcdraft_GetBlockOffsetFromFile = GetBlockOffsetFromFile"
  by (intro ext, simp add: etcdraft_GetBlockNumberFromFile_def GetBlockNumberFromFile_def
      etcdraft_GetBlockOffsetFromFile_def GetBlockOffsetFromFile_def)+

lemma nth_arg_Ok [simp]: "i < length a \<Longrightarrow> nth_arg a i = Ok (a ! i)"
  by (simp add: nth_arg_def)

text \<open>Looking up the offset of the empty block number runs into the end of the file and panics there.\<close>

lemma Split_plusplus_not_Nil [simp]: "Split_plusplus s \<noteq> []"
  by (induction s rule: Split_plusplus.induct) (auto split: list.splits)

lemma find_blocknum_empty: "is_panic (find_blocknum '''' lines) \<or> (\<exists>l \<in> set lines. hd (Split_plusplus l) = '''')"
proof (induction lines)
  case (Cons l lines)
  then show ?case by (auto simp: Let_def field1_def hd_conv_nth)
qed (simp add: field1_def)

subsection \<open>The offset file\<close>

text \<open>A line that \<open>addBlock\<close> writes, and reading it back.\<close>

definition offset_line :: "uint64 \<Rightarrow> int \<Rightarrow> bytes" where
  "offset_line num off = to_bytes (FormatUint num @ plusplus @ Itoa off @ to_string crlf)"

lemma show_nat_chars: "c \<in> set (show_nat 10 n) \<Longrightarrow> is_digit 10 c"
  using dec.show_nat_digits [of n] by (auto simp: list_all_iff)

lemma digit_not_plus: "is_digit 10 c \<Longrightarrow> c \<noteq> CHR ''+'' \<and> c \<noteq> CHR ''-'' \<and> c \<noteq> CHR 0x0A \<and> c \<noteq> CHR 0x0D"
  by (auto simp: is_digit_def digit_val_def)

lemma FormatUint_chars: "CHR ''+'' \<notin> set (FormatUint n)" "CHR 0x0A \<notin> set (FormatUint n)" "FormatUint n \<noteq> ''''"
  unfolding FormatUint_def using show_nat_chars digit_not_plus by (auto dest!: show_nat_chars digit_not_plus)

lemma Itoa_chars: "0 \<le> i \<Longrightarrow> CHR ''+'' \<notin> set (Itoa i)" "0 \<le> i \<Longrightarrow> CHR 0x0A \<notin> set (Itoa i)"
  unfolding Itoa_def by (auto dest!: show_nat_chars digit_not_plus)

lemma FormatUint_inject [simp]: "FormatUint m = FormatUint n \<longleftrightarrow> m = n"
  by (metis ParseUint_FormatUint result.inject(1))

lemma length_digits_bound: "n < 10 ^ Suc k \<Longrightarrow> length (digits 10 n) \<le> Suc k"
proof (induction k arbitrary: n)
  case 0
  then show ?case by (simp add: digits.simps)
next
  case (Suc k)
  have "n div 10 < 10 ^ Suc k" using Suc.prems by (simp add: less_mult_imp_div_less mult.commute)
  then have "length (digits 10 (n div 10)) \<le> Suc k" by (rule Suc.IH)
  then show ?case by (subst digits.simps) simp
qed

lemma length_FormatUint: "length (FormatUint n) \<le> 20"
  using length_digits_bound [of "unat n" 19] unsigned_less [of n, where ?'a = nat]
  by (simp add: FormatUint_def show_nat_def)

lemma length_Itoa: "0 \<le> i \<Longrightarrow> i < 2 ^ 63 \<Longrightarrow> length (Itoa i) \<le> 20"
  using length_digits_bound [of "nat i" 19] by (simp add: Itoa_def show_nat_def)

definition offset_text :: "uint64 \<Rightarrow> int \<Rightarrow> string" where
  "offset_text num off = FormatUint num @ ''++'' @ Itoa off"

lemma offset_line_text: "offset_line num off = to_bytes (offset_text num off) @ crlf"
  unfolding offset_line_def offset_text_def plusplus_def to_bytes_append to_bytes_to_string append_assoc ..

lemma offset_line_ok:
  assumes "0 \<le> off" "off < 2 ^ 63"
  shows "line_ok (to_bytes (offset_text num off))"
  using FormatUint_chars [of num] Itoa_chars [OF assms(1)] length_FormatUint [of num] length_Itoa [OF assms]
  unfolding line_ok_to_bytes offset_text_def by auto

lemma Split_offset_text:
  assumes "0 \<le> off"
  shows "Split_plusplus (offset_text num off) = [FormatUint num, Itoa off]"
  using FormatUint_chars(1) [of num] Itoa_chars(1) [OF assms]
  unfolding offset_text_def by (simp add: Split_plusplus_pair [unfolded append.simps] Split_plusplus_plain)

definition offset_file :: "(uint64 \<times> int) list \<Rightarrow> bytes" where
  "offset_file es = concat (map (\<lambda>(n, off). offset_line n off) es)"

definition offsets_ok :: "(uint64 \<times> int) list \<Rightarrow> bool" where
  "offsets_ok es = (\<forall>(n, off) \<in> set es. 0 \<le> off \<and> off < 2 ^ 63)"

lemma read_lines_offset_file:
  "offsets_ok es \<Longrightarrow> read_lines (offset_file es) = map (\<lambda>(n, off). offset_text n off) es"
proof (induction es)
  case (Cons e es)
  obtain n off where e: "e = (n, off)" by fastforce
  have "line_ok (to_bytes (offset_text n off))" using Cons.prems by (auto simp: e offsets_ok_def offset_line_ok)
  then show ?case
    using Cons by (simp add: e offset_file_def offset_line_text read_lines_crlf offsets_ok_def)
qed (simp add: offset_file_def)

lemma find_blocknum_offsets:
  "offsets_ok es \<Longrightarrow> find_blocknum (FormatUint n) (map (\<lambda>(n, off). offset_text n off) es) =
     Ok (case map_of es n of Some off \<Rightarrow> Itoa off | None \<Rightarrow> '''')"
proof (induction es)
  case Nil
  then show ?case using FormatUint_chars(3) [of n] by simp
next
  case (Cons e es)
  obtain m off where e: "e = (m, off)" by fastforce
  have "0 \<le> off" using Cons.prems by (auto simp: e offsets_ok_def)
  then show ?case
    using Cons by (simp add: e Split_offset_text field1_def offsets_ok_def)
qed

lemma GetBlockOffsetFromFile_offsets:
  assumes "os_read fs blockinfo_path = Some (offset_file es)" "offsets_ok es"
  shows "GetBlockOffsetFromFile (FormatUint n) fs = Ok (case map_of es n of Some off \<Rightarrow> Itoa off | None \<Rightarrow> '''')"
  using assms by (simp add: GetBlockOffsetFromFile_def read_lines_offset_file find_blocknum_offsets)

subsection \<open>Writing a block over a frame\<close>

lemma writer_writeat_ok:
  "faults fs = [] \<Longrightarrow> 0 \<le> off \<Longrightarrow> writer_writeat w b off sync fs =
     (Ok (), os_write (filePath w) (overlay (os_content fs (filePath w)) (nat off) b) fs)"
  by (simp add: writer_writeat_def file_Sync_def)

lemma overlay_pre: "overlay (pre @ rest) (length pre) b = pre @ b @ drop (length b) rest"
  by (simp add: overlay_def)

text \<open>
  The bytes of a block start with its number, so where a reader expects the length of a frame it
  finds the block number.
\<close>

lemma next_frame_unframed:
  assumes "unat (Number (BHeader nb)) + 8 \<le> length (block_layout nb @ rest)"
    and "unat (Number (BHeader nb)) < 2 ^ 56"
  shows "\<exists>b n. next_frame (block_layout nb @ rest) = Ok (b, n, unat (Number (BHeader nb))) \<and>
     length b = unat (Number (BHeader nb))"
proof -
  let ?N = "Number (BHeader nb)"
  let ?e = "EncodeVarint ?N"
  obtain tail where t: "block_layout nb @ rest = ?e @ tail"
    by (auto simp: block_layout_def header_layout_def)
  have lt: "?N < 2 ^ 56" using assms(2) by (simp add: word_less_nat_alt)
  have e8: "length ?e \<le> 8" using lt by (simp add: length_EncodeVarint SizeVarint_def)
  have "take 8 (block_layout nb @ rest) = ?e @ take (8 - length ?e) tail" unfolding t using e8 by simp
  then have d: "DecodeVarint (take 8 (block_layout nb @ rest)) = (?N, length ?e)"
    by (simp only: DecodeVarint_EncodeVarint)
  have "(word_of_nat (length ?e) + ?N :: uint64) = word_of_nat (length ?e + unat ?N)" by simp
  then have s: "sint (word_of_nat (length ?e) + ?N :: uint64) = int (length ?e + unat ?N)"
    using sint_small [of "length ?e + unat ?N"] e8 assms(2) by simp
  have "length ?e + unat ?N \<le> length (?e @ tail)" using assms(1) e8 unfolding t by linarith
  then have "int (length ?e + unat ?N) \<le> int (length (?e @ tail))" and tl: "unat ?N \<le> length tail"
    by (linarith, simp)
  then show ?thesis
    unfolding next_frame_def d Let_def prod.case s unfolding t using tl by simp
qed

lemma unframed_read:
  assumes c: "os_content fs path = pre @ block_layout nb @ rest"
    and n: "unat (Number (BHeader nb)) + 8 \<le> length (block_layout nb)" "unat (Number (BHeader nb)) < 2 ^ 56"
  shows "\<exists>b s. stream_nextBlockBytes (stream_at path num (length pre)) fs = Ok (Some b, s) \<and>
     length b = unat (Number (BHeader nb)) \<and> b \<noteq> block_layout nb"
proof -
  obtain b k where b: "next_frame (block_layout nb @ rest) = Ok (b, k, unat (Number (BHeader nb)))"
    "length b = unat (Number (BHeader nb))" using next_frame_unframed [of nb rest] n by auto
  have "block_layout nb \<noteq> []" by (simp add: block_layout_def header_layout_def)
  then show ?thesis
    unfolding stream_nextBlockBytes_def stream_next_frame_eq [OF c] using b n by auto
qed

subsection \<open>The effect of a redaction\<close>

lemma params_positive: "0 < SetString16 (to_string param_q)" "0 < SetString16 (to_string param_p)"
  unfolding param_p_def param_q_def to_string_to_bytes
  by (simp_all add: SetString16_def read_nat_def is_digit_def digit_val_def from_digits_def)

lemma GetCollision_Ok: "\<exists>r2 s2. GetCollision m1 m2 (Some k) = Ok (r2, s2)"
  using params_positive
  by (auto simp: GetCollision_def generateCollision_def blkstorage_chameleonHash_def Let_def big_Mod_def)

abbreviation peer_file :: string where
  "peer_file \<equiv> deriveBlockfilePath peer_rootDir 0"

lemma peer_file_other [simp]:
  "peer_file \<noteq> ''/var/error3.txt''" "peer_file \<noteq> ''/var/error4.txt''" "peer_file \<noteq> blockfile_path n"
  by (simp_all add: deriveBlockfilePath_def peer_rootDir_def blockfile_path_def)

lemmas peer_file_other_sym [simp] = peer_file_other [symmetric]

lemma os_append_simps [simp]:
  "faults (os_append p b fs) = faults fs"
  "os_content (os_append p b fs) q = (if p = q then os_content fs p @ b else os_content fs q)"
  "os_read (os_append p b fs) q = (if p = q then Some (os_content fs p @ b) else os_read fs q)"
  by (simp_all add: os_append_def os_read_write)

lemma getBlock_at_frame:
  assumes r: "os_read fs peer_file = Some (pre @ raw (block_layout ob) @ post)" and fits: "frame_fits (block_layout ob)"
    and "length pre < 2 ^ 63" "BMetadata ob = Some md"
  shows "getBlock C (Itoa (int (length pre))) fs = (Ok ob, os_append ''/var/error4.txt'' (block_layout ob) fs)"
proof -
  have "newBlockfileStream peer_rootDir 0 (int (length pre)) fs = Ok (stream_at peer_file 0 (length pre))"
    using r by (simp add: newBlockfileStream_Ok stream_at_def)
  moreover have "os_content fs peer_file = pre @ raw (block_layout ob) @ post" using r by (simp add: os_content_def)
  ultimately have "ScanForLastCompleteBlock peer_rootDir 0 (int (length pre)) fs =
      Ok (Some (block_layout ob), int (length (pre @ raw (block_layout ob))), 1, None)"
    by (simp add: ScanForLastCompleteBlock_def stream_nextBlockBytes_raw [OF _ fits]) (simp add: stream_at_def)
  moreover have "DeserializeBlock C (block_layout ob) = Ok ob"
    using assms(4) fits by (simp add: DeserializeBlock_copy deserializeBlock_layout frame_fits_def)
  ultimately show ?thesis
    using assms(3) by (simp add: getBlock_def Atoi_Itoa panic_on_err_def)
qed

lemma SerializeBlock_ignored:
  "BMetadata nb = Some md \<Longrightarrow> \<exists>info. SerializeBlock C nb = Ok (block_layout nb, info)"
  by (simp add: SerializeBlock_copy serializeBlock_layout)

lemma redact_ChangeCert_effect:
  assumes r: "os_read fs peer_file = Some (pre @ raw (block_layout ob) @ post)" "frame_fits (block_layout ob)"
      "length pre < 2 ^ 63" "BMetadata ob = Some md"
    and f: "faults fs = []" "filePath w = peer_file"
    and c: "1 < length certkey" "GetBlockNumberFromFile (certkey ! 1) fs = Ok num" "num \<noteq> ''''"
      "GetBlockOffsetFromFile num fs = Ok (Itoa (int (length pre)))"
    and nb: "redacted_block C certkey ob = Ok nb" "BMetadata nb = Some md'"
    and col: "GetCollision (BData nb) (BData nb) k = Ok (r2, s2)"
  shows "redact_ChangeCert C w k certkey fs =
     (Ok (), write_pair (Number (BHeader nb)) r2 s2
        (os_write peer_file (overlay (pre @ raw (block_layout ob) @ post) (length pre) (block_layout nb))
        (os_append ''/var/error3.txt'' (block_layout nb)
        (os_append ''/var/error4.txt'' (block_layout ob) fs))))"
proof -
  obtain info where s: "SerializeBlock C nb = Ok (block_layout nb, info)" using SerializeBlock_ignored [OF nb(2)] by blast
  have "Itoa (int (length pre)) \<noteq> ''''" by (simp add: Itoa_def)
  moreover have "os_content fs peer_file = pre @ raw (block_layout ob) @ post" using r(1) by (simp add: os_content_def)
  ultimately show ?thesis
    using c nb(1) col f getBlock_at_frame [OF r] r s
    by (simp add: redact_ChangeCert_def panic_on_err_def ignore_err_def writer_writeat_ok Atoi_Itoa)
qed

subsection \<open>The contents of a redacted block\<close>

lemma panic_on_err_Ok: "panic_on_err m r = Ok x \<longleftrightarrow> r = Ok x"
  by (cases r) (simp_all add: panic_on_err_def)

lemma nth_arg_eq_Ok: "nth_arg a i = Ok x \<longleftrightarrow> i < length a \<and> x = a ! i"
  by (auto simp: nth_arg_def)

lemma PutRwset_keeps_args:
  assumes C: "codec_laws C" and put: "PutRwsetInBlock C v b = Ok b'"
  shows "GetArgsFromBlock C b' = GetArgsFromBlock C b"
proof -
  obtain d u action where d: "first_elem (BData b) = Ok d" and u: "unpack_tx C d = Ok u"
    and b': "b' = b\<lparr>BData := repack_tx C u ((up_cap u)\<lparr>cap_Action := Some action\<rparr>) # tl (BData b)\<rparr>"
    using put by (auto simp: PutRwsetInBlock_def rbind_eq_Ok Let_def)
  let ?cap = "(up_cap u)\<lparr>cap_Action := Some action\<rparr>"
  obtain u' where u': "unpack_tx C (repack_tx C u ?cap) = Ok u'" "up_cap u' = ?cap"
    using unpack_repack [OF C u] by blast
  have "unpack_invocation C u' = unpack_invocation C u" by (simp add: unpack_invocation_def u')
  then show ?thesis using d u u' by (simp add: GetArgsFromBlock_def b' first_elem_def)
qed

lemma redacted_block_contents:
  assumes C: "codec_laws C" and nb: "redacted_block C certkey ob = Ok nb"
  shows "\<exists>args v. GetArgsFromBlock C ob = Ok args \<and> 11 < length args \<and> 2 < length certkey \<and>
     ignore_err '''' (GetRwsetFromBlock C ob) = Ok v \<and>
     GetArgsFromBlock C nb = Ok (args[11 := certkey ! 2]) \<and>
     GetRwsetFromBlock C nb = Ok (Replace1 v (args ! 11) (certkey ! 2)) \<and>
     BHeader nb = BHeader ob \<and> BMetadata nb = BMetadata ob \<and> tl (BData nb) = tl (BData ob)"
proof -
  obtain args v mid where "ignore_err [] (GetArgsFromBlock C ob) = Ok args"
    and v: "ignore_err '''' (GetRwsetFromBlock C ob) = Ok v"
    and len: "11 < length args" "2 < length certkey"
    and mid: "PutArgsInBlock C (args[11 := certkey ! 2]) ob = Ok mid"
    and nb: "PutRwsetInBlock C (Replace1 v (args ! 11) (certkey ! 2)) mid = Ok nb"
    using nb by (auto simp: redacted_block_def rbind_eq_Ok Let_def nth_arg_eq_Ok panic_on_err_Ok)
  then have "GetArgsFromBlock C ob = Ok args" by (auto simp: ignore_err_def split: result.splits)
  then show ?thesis
    using PutArgs_then_Get [OF C mid] PutRwset_then_Get [OF C nb] PutRwset_keeps_args [OF C nb] v len by auto
qed

subsection \<open>Redacting the sample transaction\<close>

definition cert_block :: "codec \<Rightarrow> uint64 \<Rightarrow> string list \<Rightarrow> string \<Rightarrow> Block" where
  "cert_block C num args v =
     \<lparr>BHeader = \<lparr>Number = num, PreviousHash = [], DataHash = replicate 32 7\<rparr>, BData = [sample_tx C args v], BMetadata = Some [[]]\<rparr>"

lemma PutArgs_cert_block:
  assumes "codec_laws C"
  shows "PutArgsInBlock C args' (cert_block C num args v) = Ok (cert_block C num args' v)"
  using codec_laws_simps [OF assms]
  by (simp add: PutArgsInBlock_def cert_block_def sample_tx_def unpack_tx_def GetEnvelopeFromBlock_def UnmarshalPayload_def
      UnmarshalTransaction_def UnmarshalChaincodeActionPayload_def first_elem_def unpack_invocation_def sample_cap_def
      UnmarshalChaincodeProposalPayload_def UnmarshalChaincodeInvocationSpec_def put_args_def sample_spec_def
      repack_tx_def Let_def)

lemma PutRwset_cert_block:
  assumes "codec_laws C"
  shows "PutRwsetInBlock C v' (cert_block C num args v) = Ok (cert_block C num args v')"
    and "GetRwsetFromBlock C (cert_block C num args v) = Ok v"
    and "GetArgsFromBlock C (cert_block C num args v) = Ok args"
  using codec_laws_simps [OF assms]
  by (simp_all add: PutRwsetInBlock_def GetRwsetFromBlock_def GetArgsFromBlock_def cert_block_def sample_tx_def unpack_tx_def
      GetEnvelopeFromBlock_def UnmarshalPayload_def UnmarshalTransaction_def UnmarshalChaincodeActionPayload_def
      first_elem_def second_elem_def unpack_rwset_def sample_cap_def sample_rwset_def UnmarshalProposalResponsePayload_def
      UnmarshalChaincodeAction_def put_value_def repack_tx_def Let_def unpack_invocation_def
      UnmarshalChaincodeProposalPayload_def UnmarshalChaincodeInvocationSpec_def spec_args_def sample_spec_def comp_def)

lemma redacted_cert_block:
  assumes "codec_laws C" "11 < length args" "2 < length certkey"
  shows "redacted_block C certkey (cert_block C num args v) =
     Ok (cert_block C num (args[11 := certkey ! 2]) (Replace1 v (args ! 11) (certkey ! 2)))"
  using assms by (simp add: redacted_block_def PutArgs_cert_block PutRwset_cert_block ignore_err_def panic_on_err_def)

section \<open>Properties\<close>


definition sample_args :: "string list" where
  "sample_args = [''CreatCert'', ''id'', ''ca'', ''3'', ''4'', ''5'', ''6'', ''7'', ''8'', ''9'', ''10'', ''old'']"

abbreviation sample_old :: Block where
  "sample_old \<equiv> cert_block ref_codec 1 sample_args ''cert=old''"

abbreviation sample_new :: Block where
  "sample_new \<equiv> cert_block ref_codec 1 (sample_args[11 := ''new'']) ''cert=new''"

definition sample_change :: "string list" where
  "sample_change = [''ChangeCert'', ''id'', ''new'']"

lemma redacted_sample: "redacted_block ref_codec sample_change sample_old = Ok sample_new"
  by (subst redacted_cert_block)
     (simp_all add: codec_laws_ref sample_args_def sample_change_def HasPrefix_def Replace1.simps)


text \<open>C38. The redacted block is written at the offset of the old block without the length in front of
  it.  It overwrites the frame there: who then reads a block at this offset takes the block number for
  the length and gets other bytes than the redacted block.\<close>

theorem redaction_destroys_frame:
  assumes "os_read fs peer_file = Some (pre @ raw (block_layout ob) @ post)" "frame_fits (block_layout ob)"
    and "length pre < 2 ^ 63" "BMetadata ob = Some md" "faults fs = []" "filePath w = peer_file"
    and "1 < length certkey" "GetBlockNumberFromFile (certkey ! 1) fs = Ok num" "num \<noteq> ''''"
    and "GetBlockOffsetFromFile num fs = Ok (Itoa (int (length pre)))"
    and "redacted_block C certkey ob = Ok nb" "BMetadata nb = Some md'"
    and "unat (Number (BHeader nb)) + 8 \<le> length (block_layout nb)" "unat (Number (BHeader nb)) < 2 ^ 56"
  shows "\<exists>fs'. redact_ChangeCert C w (Some k) certkey fs = (Ok (), fs') \<and>
     os_content fs' peer_file = pre @ block_layout nb @ drop (length (block_layout nb)) (raw (block_layout ob) @ post) \<and>
     (\<exists>b s. stream_nextBlockBytes (stream_at peer_file 0 (length pre)) fs' = Ok (Some b, s) \<and>
        length b = unat (Number (BHeader nb)) \<and> b \<noteq> block_layout nb)"
proof -
  let ?rest = "drop (length (block_layout nb)) (raw (block_layout ob) @ post)"
  obtain r2 s2 where col: "GetCollision (BData nb) (BData nb) (Some k) = Ok (r2, s2)" using GetCollision_Ok by blast
  obtain fs' where run: "redact_ChangeCert C w (Some k) certkey fs = (Ok (), fs')"
    and c: "os_content fs' peer_file = pre @ block_layout nb @ ?rest"
    using redact_ChangeCert_effect [OF assms(1-12) col] by (simp add: write_pair_def Let_def overlay_pre)
  have "\<exists>b s. stream_nextBlockBytes (stream_at peer_file 0 (length pre)) fs' = Ok (Some b, s) \<and>
     length b = unat (Number (BHeader nb)) \<and> b \<noteq> block_layout nb"
    using unframed_read [OF c] assms(13,14) by blast
  with run c show ?thesis by blast
qed

definition sample_fs :: os where
  "sample_fs = \<lparr>files = [(certinfo_path, to_bytes ''id++1'' @ crlf), (blockinfo_path, offset_file [(1, 0)]),
      (peer_file, raw (block_layout sample_old))], dirs = [], faults = []\<rparr>"

lemma sample_fs_files:
  "os_read sample_fs certinfo_path = Some (to_bytes ''id++1'' @ crlf)"
  "os_read sample_fs blockinfo_path = Some (offset_file [(1, 0)])"
  "os_read sample_fs peer_file = Some ([] @ raw (block_layout sample_old) @ [])"
  by (simp_all add: sample_fs_def os_read_def certinfo_path_def blockinfo_path_def deriveBlockfilePath_def peer_rootDir_def)

lemma sample_fs_faults: "faults sample_fs = []"
  by (simp add: sample_fs_def)

lemma sample_certinfo: "GetBlockNumberFromFile (sample_change ! 1) sample_fs = Ok ''1''"
  using read_lines_crlf [of "to_bytes ''id++1''" "[]"]
  by (simp add: GetBlockNumberFromFile_def sample_fs_files line_ok_to_bytes sample_change_def field1_def)

lemma sample_offset: "GetBlockOffsetFromFile ''1'' sample_fs = Ok (Itoa (int (length ([] :: bytes))))"
proof -
  have "FormatUint 1 = ''1''" by code_simp
  then show ?thesis
    using GetBlockOffsetFromFile_offsets [OF sample_fs_files(2), of 1] by (simp add: offsets_ok_def)
qed

lemma length_raw_le: "length (raw b) \<le> length b + 10"
  by (simp add: raw_frame length_EncodeVarint SizeVarint_def)

lemma length_cert_block:
  "32 \<le> length (block_layout (cert_block C num args v))"
  "length (block_layout (cert_block C num args v)) \<le> length (sample_tx C args v) + 102"
proof -
  let ?h = "EncodeVarint num" and ?d = "replicate 32 7 :: bytes" and ?t = "sample_tx C args v"
  have e: "length (EncodeVarint x) \<le> 10" for x by (simp add: length_EncodeVarint SizeVarint_def)
  have l: "length (block_layout (cert_block C num args v)) =
      length ?h + (length (raw []) + length (raw ?d)) + (length (EncodeVarint 1) + length (raw ?t)) +
      (length (EncodeVarint 1) + length (raw []))"
    by (simp add: block_layout_def cert_block_def header_layout_def list_layout_def)
  show "32 \<le> length (block_layout (cert_block C num args v))"
    unfolding l by (simp add: raw_frame)
  show "length (block_layout (cert_block C num args v)) \<le> length ?t + 102"
    unfolding l using e [of num] e [of 1] length_raw_le [of ?d] length_raw_le [of ?t] length_raw_le [of "[]"] by simp
qed

lemma length_pack [simp]:
  "length (pack1 b) = 2 * length b + 1" "length (pack []) = 0" "length (pack (b # bs)) = length (pack1 b) + length (pack bs)"
  by (simp_all add: pack1_def pack_def length_concat comp_def sum_list_triv)

lemma sample_sizes:
  "frame_fits (block_layout sample_old)"
  "unat (Number (BHeader sample_new)) + 8 \<le> length (block_layout sample_new)"
  "unat (Number (BHeader sample_new)) < 2 ^ 56"
proof -
  have "length (sample_tx ref_codec sample_args ''cert=old'') < 2 ^ 40"
    by (simp add: sample_tx_def sample_cap_def sample_spec_def sample_rwset_def ref_codec_def sample_args_def
        pack_option_def ref_ChaincodeSpec_def ref_ChaincodeInput_def)
  then show "frame_fits (block_layout sample_old)"
    using length_cert_block(2) [of ref_codec 1 sample_args "''cert=old''"] by (simp add: frame_fits_def)
  show "unat (Number (BHeader sample_new)) + 8 \<le> length (block_layout sample_new)"
    using length_cert_block(1) [of ref_codec 1 "sample_args[11 := ''new'']" "''cert=new''"] by (simp add: cert_block_def)
qed (simp add: cert_block_def)

theorem redaction_destroys_frame_witness:
  "\<exists>fs'. redact_ChangeCert ref_codec \<lparr>filePath = peer_file\<rparr> (Some 5) sample_change sample_fs = (Ok (), fs') \<and>
     (\<exists>b s. stream_nextBlockBytes (stream_at peer_file 0 0) fs' = Ok (Some b, s) \<and> length b = 1 \<and> b \<noteq> block_layout sample_new)"
  using redaction_destroys_frame [OF sample_fs_files(3) sample_sizes(1) _ _ _ _ _ sample_certinfo _ sample_offset redacted_sample _
      sample_sizes(2,3), of "[[]]" "\<lparr>filePath = peer_file\<rparr>" "[[]]" 5]
  by (auto simp: cert_block_def sample_change_def sample_fs_faults)

text \<open>C39. The offset file: after the line of a block was appended, looking up its number gives the
  offset, and the other blocks keep theirs.\<close>

theorem offset_file_lookup:
  assumes "os_read fs blockinfo_path = Some (offset_file es)" "offsets_ok es"
    and "0 \<le> off" "off < 2 ^ 63" "num \<notin> fst ` set es"
    and "record_offset num off fs = (r, fs')"
  shows "GetBlockOffsetFromFile (FormatUint num) fs' = Ok (Itoa off) \<and>
     (\<forall>n. n \<noteq> num \<longrightarrow> GetBlockOffsetFromFile (FormatUint n) fs' = GetBlockOffsetFromFile (FormatUint n) fs)"
proof -
  have "os_read fs' blockinfo_path = Some (offset_file (es @ [(num, off)]))"
    using assms(1,6) by (auto simp: record_offset_def append_text_def offset_file_def offset_line_def os_content_def)
  moreover have "offsets_ok (es @ [(num, off)])" using assms(2-4) by (auto simp: offsets_ok_def)
  ultimately have new: "GetBlockOffsetFromFile (FormatUint n) fs' =
      Ok (case map_of (es @ [(num, off)]) n of Some off \<Rightarrow> Itoa off | None \<Rightarrow> '''')" for n
    by (rule GetBlockOffsetFromFile_offsets)
  have "map_of es num = None" using assms(5) by (simp add: map_of_eq_None_iff)
  then show ?thesis
    using new GetBlockOffsetFromFile_offsets [OF assms(1,2)]
    by (auto simp: map_add_def split: option.splits)
qed

theorem offset_file_lookup_witness:
  "GetBlockOffsetFromFile (FormatUint 2) (snd (record_offset 2 700 sample_fs)) = Ok (Itoa 700)"
  using offset_file_lookup [OF sample_fs_files(2), of 700 2 "fst (record_offset 2 700 sample_fs)" "snd (record_offset 2 700 sample_fs)"]
  by (simp add: offsets_ok_def)



text \<open>Executing a lock removes it whenever it is there and the arguments are complete: the hash
  in the fourth argument need not match the one in the seventh.  When the end time is later than the
  start time, the normal case, the peer panics instead.\<close>

theorem ExeTimeHashlock_outcome:
  assumes "6 < length a" "os_read fs (''/var/bugu'' @ a ! 2) = Some lock"
  shows "step_ExeTimeHashlock a fs =
     (if fst (Atoi (a ! 5)) > fst (Atoi (a ! 4)) then (Panic ''error, the time of time_hash lock is error'', fs)
      else (Ok (), os_remove (''/var/bugu'' @ a ! 2) fs))"
  using assms by (simp add: step_ExeTimeHashlock_def lock_times_def lock_hash_logged_def)

definition sample_unlock :: "string list" where
  "sample_unlock = [''ExeTimeHashlock'', ''x'', ''id'', ''h1'', ''20'', ''10'', ''h2'']"

theorem ExeTimeHashlock_outcome_witness:
  "(let fs = os_write ''/var/buguid'' [1] sample_fs in
    step_ExeTimeHashlock sample_unlock fs = (Ok (), os_remove ''/var/buguid'' fs) \<and>
    step_ExeTimeHashlock (sample_unlock[5 := ''30'']) fs = (Panic ''error, the time of time_hash lock is error'', fs))"
proof -
  let ?fs = "os_write ''/var/buguid'' [1] sample_fs"
  have t: "fst (Atoi ''20'') = 20" "fst (Atoi ''10'') = 10" "fst (Atoi ''30'') = 30" by code_simp+
  show ?thesis
    using ExeTimeHashlock_outcome [of sample_unlock ?fs "[1]"] ExeTimeHashlock_outcome [of "sample_unlock[5 := ''30'']" ?fs "[1]"]
    by (simp add: sample_unlock_def os_read_write t)
qed

end
