(* ===== verification/BlockfileMgr.thy ===== *)
theory BlockfileMgr
  imports BlockfileHelper BlockIndex Redaction
begin

text \<open>
  The block file manager of \<open>common/ledger/blkstorage/blockfile_mgr.go\<close>: starting it on the files and
  the database it finds, adding blocks, and the lookups.  The state of the machine is the files and the
  database; the manager's own fields are added to it while a manager is open.  The locks and condition
  variables around the fields are not modelled: an operation runs without interference.
\<close>

section \<open>State\<close>

record BlockchainInfo =
  Height :: uint64
  CurrentBlockHash :: bytes
  PreviousBlockHash :: bytes
  LastBlockInSnapshot :: "uint64 option"

record blockfileMgr =
  bm_rootDir :: string
  bm_maxBlockfileSize :: int
  bm_index :: blockIndex
  bm_blockfilesInfo :: blockfilesInfo
  bm_bootstrappingSnapshotInfo :: "BootstrappingSnapshotInfo option"
  bm_currentFileWriter :: blockfileWriter
  bm_bcInfo :: BlockchainInfo

record machine =
  m_os :: os
  m_db :: DB

record store = machine +
  m_mgr :: blockfileMgr

definition on_os :: "(os, 'a) io \<Rightarrow> ('b machine_scheme, 'a) io" where
  "on_os = io_zoom m_os (\<lambda>x s. s\<lparr>m_os := x\<rparr>)"

definition on_db :: "(DB, 'a) io \<Rightarrow> ('b machine_scheme, 'a) io" where
  "on_db = io_zoom m_db (\<lambda>x s. s\<lparr>m_db := x\<rparr>)"

section \<open>The saved summary\<close>

definition blkMgrInfoKey :: bytes where "blkMgrInfoKey = to_bytes ''blkMgrInfo''"

definition loadBlkfilesInfo :: "string \<Rightarrow> DB \<Rightarrow> blockfilesInfo option result" where
  "loadBlkfilesInfo db d =
     (case DBHandle_Get db blkMgrInfoKey d of
        None \<Rightarrow> Ok None
      | Some b \<Rightarrow> rbind (bfi_unmarshal b) (\<lambda>i. Ok (Some i)))"

definition saveBlkfilesInfo :: "string \<Rightarrow> blockfilesInfo \<Rightarrow> bool \<Rightarrow> DB \<Rightarrow> unit result \<times> DB" where
  "saveBlkfilesInfo db i sync d = DBHandle_Put db blkMgrInfoKey (bfi_marshal i) sync d"

section \<open>Adding a block\<close>

definition updateBlockfilesInfo :: "blockfilesInfo \<Rightarrow> (store, unit) io" where
  "updateBlockfilesInfo i = io_modify (\<lambda>s. s\<lparr>m_mgr := (m_mgr s)\<lparr>bm_blockfilesInfo := i\<rparr>\<rparr>)"

definition updateBlockchainInfo :: "bytes \<Rightarrow> Block \<Rightarrow> (store, unit) io" where
  "updateBlockchainInfo latestBlockHash latestBlock =
     io_modify (\<lambda>s.
       (let currentBCInfo = bm_bcInfo (m_mgr s)
        in s\<lparr>m_mgr := (m_mgr s)\<lparr>bm_bcInfo := \<lparr>Height = Height currentBCInfo + 1, CurrentBlockHash = latestBlockHash,
             PreviousBlockHash = PreviousHash (BHeader latestBlock),
             LastBlockInSnapshot = LastBlockInSnapshot currentBCInfo\<rparr>\<rparr>\<rparr>))"

definition moveToNextFile :: "(store, unit) io" where
  "moveToNextFile =
     io_bind (io_get m_mgr) (\<lambda>mgr.
     let cur = bm_blockfilesInfo mgr;
         blkfilesInfo = \<lparr>latestFileNumber = latestFileNumber cur + 1, latestFileSize = 0, noBlockFiles = False,
                         lastPersistedBlock = lastPersistedBlock cur\<rparr> in
     io_bind (io_panic_on_err ''Could not open writer to next file: %s''
       (on_os (newBlockfileWriter (deriveBlockfilePath (bm_rootDir mgr) (latestFileNumber blkfilesInfo))))) (\<lambda>nextFileWriter.
     io_bind (io_panic_on_err ''Could not save next block file info to db: %s''
       (on_db (saveBlkfilesInfo (idx_db (bm_index mgr)) blkfilesInfo True))) (\<lambda>_.
     io_bind (io_modify (\<lambda>s. s\<lparr>m_mgr := (m_mgr s)\<lparr>bm_currentFileWriter := nextFileWriter\<rparr>\<rparr>)) (\<lambda>_.
     updateBlockfilesInfo blkfilesInfo))))"

text \<open>The clean-up after a failed step: the file goes back to its known size, or the peer panics.\<close>

definition truncate_and_fail :: "blockfileWriter \<Rightarrow> int \<Rightarrow> string \<Rightarrow> string \<Rightarrow> goerr \<Rightarrow> (os, 'a) io" where
  "truncate_and_fail w targetSize panic_msg err_msg e fs =
     (case truncateFile w (nat targetSize) fs of
        (Ok _, fs') \<Rightarrow> (Err (ErrWrap err_msg e), fs')
      | (Err _, fs') \<Rightarrow> (Panic panic_msg, fs')
      | (Panic p, fs') \<Rightarrow> (Panic p, fs'))"

definition append_frame :: "blockfileWriter \<Rightarrow> int \<Rightarrow> bytes \<Rightarrow> bytes \<Rightarrow> (os, unit) io" where
  "append_frame w knownSize blockBytesEncodedLen blockBytes fs =
     (case io_bind (writer_append w blockBytesEncodedLen False) (\<lambda>_. writer_append w blockBytes True) fs of
        (Err e, fs') \<Rightarrow>
          truncate_and_fail w knownSize
            ''Could not truncate current file to known size after an error during block append: %s''
            ''error appending block to file'' e fs'
      | r \<Rightarrow> r)"

text \<open>The frame is appended to the current file, and the new summary is saved.\<close>

definition append_and_save :: "bytes \<Rightarrow> uint64 \<Rightarrow> (store, blockfilesInfo) io" where
  "append_and_save blockBytes num =
     (let blockBytesEncodedLen = EncodeVarint (word_of_nat (length blockBytes));
          totalBytesToAppend = int (length blockBytes + length blockBytesEncodedLen) in
      io_bind (io_get m_mgr) (\<lambda>mgr.
      let w = bm_currentFileWriter mgr; cur = bm_blockfilesInfo mgr in
      io_bind (on_os (append_frame w (latestFileSize cur) blockBytesEncodedLen blockBytes)) (\<lambda>_.
      let new = \<lparr>latestFileNumber = latestFileNumber cur, latestFileSize = latestFileSize cur + totalBytesToAppend,
                 noBlockFiles = False, lastPersistedBlock = num\<rparr> in
      io_bind (\<lambda>s.
        (case on_db (saveBlkfilesInfo (idx_db (bm_index mgr)) new False) s of
           (Err e, s') \<Rightarrow>
             on_os (truncate_and_fail w (latestFileSize cur)
               ''Error in truncating current file to known size after an error in saving blockfiles info: %s''
               ''error saving blockfiles file info to db'' e) s'
         | r \<Rightarrow> r)) (\<lambda>_.
      io_return new))))"

text \<open>The part of \<open>addBlock\<close> that writes the block; it returns the offset of the block and the new summary.\<close>

definition write_block :: "bytes \<Rightarrow> uint64 \<Rightarrow> (store, int \<times> blockfilesInfo) io" where
  "write_block blockBytes num =
     (let blockBytesEncodedLen = EncodeVarint (word_of_nat (length blockBytes));
          totalBytesToAppend = int (length blockBytes + length blockBytesEncodedLen) in
      io_bind (io_get m_mgr) (\<lambda>mgr.
      let latest = latestFileSize (bm_blockfilesInfo mgr);
          full = (latest + totalBytesToAppend > bm_maxBlockfileSize mgr);
          currentOffset = (if full then 0 else latest) in
      io_bind (if full then moveToNextFile else io_return ()) (\<lambda>_.
      io_bind (append_and_save blockBytes num) (\<lambda>new.
      io_return (currentOffset, new)))))"

text \<open>
  The redaction at the beginning of \<open>addBlock\<close>, on a peer.  The block that is being added loses its
  first transaction; \<open>block\<close> is the object of the caller, so the caller sees that too.
\<close>

definition redaction_step :: "codec \<Rightarrow> int option \<Rightarrow> Block \<Rightarrow> (store, Block) io" where
  "redaction_step C k block =
     io_bind (io_lift (ignore_err [] (ValidateAnalysis C block))) (\<lambda>certkey.
     io_bind (io_get m_os) (\<lambda>fs.
     if pathExists2 peer_rootDir fs \<and> certkey \<noteq> [] \<and> certkey ! 0 = ''ChangeCert'' then
       io_bind (io_get m_mgr) (\<lambda>mgr.
       io_bind (on_os (redact_ChangeCert C (bm_currentFileWriter mgr) k certkey)) (\<lambda>_.
       io_return (block\<lparr>BData := [] # tl (BData block)\<rparr>)))
     else io_return block))"

definition shift_txOffset :: "int \<Rightarrow> txindexInfo \<Rightarrow> txindexInfo" where
  "shift_txOffset n t = t\<lparr>ti_loc := (ti_loc t)\<lparr>lp_offset := lp_offset (ti_loc t) + n\<rparr>\<rparr>"

text \<open>What \<open>addBlock\<close> hands to the index; \<open>blockBytes\<close> are the bytes it wrote.\<close>

definition idx_info :: "Block \<Rightarrow> bytes \<Rightarrow> serializedBlockInfo \<Rightarrow> int \<Rightarrow> int \<Rightarrow> blockIdxInfo" where
  "idx_info block blockBytes info fileNum offset =
     \<lparr>ii_blockNum = Number (BHeader block), ii_blockHash = BlockHeaderHash (BHeader block),
      ii_flp = \<lparr>fileSuffixNum = fileNum, flp_loc = \<lparr>lp_offset = offset, lp_bytesLength = 0\<rparr>\<rparr>,
      ii_txOffsets = map (shift_txOffset (int (length (EncodeVarint (word_of_nat (length blockBytes)))))) (si_txOffsets info),
      ii_metadata = BMetadata block\<rparr>"

definition addBlock :: "codec \<Rightarrow> int option \<Rightarrow> Block \<Rightarrow> (store, Block) io" where
  "addBlock C k block0 =
     io_bind (io_get (\<lambda>s. bm_bcInfo (m_mgr s))) (\<lambda>bcInfo.
     if Number (BHeader block0) \<noteq> Height bcInfo then
       io_lift (Err (ErrMsg ''block number should have been %d but was %d''))
     else
       io_bind (redaction_step C k block0) (\<lambda>block.
       if PreviousHash (BHeader block) \<noteq> CurrentBlockHash bcInfo then
         io_lift (Err (ErrMsg ''unexpected Previous block hash. Expected PreviousHash = [%x], PreviousHash referred in the latest block= [%x]''))
       else
         io_bind (io_lift (rwrap ''error serializing block'' (SerializeBlock C block))) (\<lambda>(blockBytes, info).
         io_bind (write_block blockBytes (Number (BHeader block))) (\<lambda>(currentOffset, new).
         io_bind (on_os (record_and_locks C block currentOffset)) (\<lambda>_.
         io_bind (io_get m_mgr) (\<lambda>mgr.
         io_bind (on_db (indexBlock C (bm_index mgr) (idx_info block blockBytes info (latestFileNumber new) currentOffset))) (\<lambda>_.
         io_bind (updateBlockfilesInfo new) (\<lambda>_.
         io_bind (updateBlockchainInfo (BlockHeaderHash (BHeader block)) block) (\<lambda>_.
         io_return block)))))))))"

section \<open>Lookups\<close>

definition firstPossibleBlockNumberInBlockFiles :: "blockfileMgr \<Rightarrow> uint64" where
  "firstPossibleBlockNumberInBlockFiles mgr =
     (case bm_bootstrappingSnapshotInfo mgr of None \<Rightarrow> 0 | Some bsi \<Rightarrow> bsi_LastBlockNum bsi + 1)"

definition bootstrappedFromSnapshot :: "blockfileMgr \<Rightarrow> bool" where
  "bootstrappedFromSnapshot mgr = (firstPossibleBlockNumberInBlockFiles mgr > 0)"

definition fetchBlockBytes :: "blockfileMgr \<Rightarrow> fileLocPointer \<Rightarrow> os \<Rightarrow> bytes result" where
  "fetchBlockBytes mgr lp fs =
     rbind (newBlockfileStream (bm_rootDir mgr) (fileSuffixNum lp) (lp_offset (flp_loc lp)) fs) (\<lambda>stream.
     rbind (stream_nextBlockBytes stream fs) (\<lambda>(b, _).
     Ok (case b of None \<Rightarrow> [] | Some x \<Rightarrow> x)))"

definition fetchBlock :: "codec \<Rightarrow> blockfileMgr \<Rightarrow> fileLocPointer \<Rightarrow> os \<Rightarrow> Block result" where
  "fetchBlock C mgr lp fs = rbind (fetchBlockBytes mgr lp fs) (\<lambda>blockBytes. DeserializeBlock C blockBytes)"

definition fetchRawBytes :: "blockfileMgr \<Rightarrow> fileLocPointer \<Rightarrow> os \<Rightarrow> bytes result" where
  "fetchRawBytes mgr lp fs =
     rbind (newBlockfileReader (deriveBlockfilePath (bm_rootDir mgr) (fileSuffixNum lp)) fs) (\<lambda>reader.
     reader_read reader (lp_offset (flp_loc lp)) (lp_bytesLength (flp_loc lp)))"

definition fetchTransactionEnvelope :: "codec \<Rightarrow> blockfileMgr \<Rightarrow> fileLocPointer \<Rightarrow> os \<Rightarrow> Envelope result" where
  "fetchTransactionEnvelope C mgr lp fs =
     rbind (fetchRawBytes mgr lp fs) (\<lambda>txEnvelopeBytes.
     let (_, n) = DecodeVarint txEnvelopeBytes in GetEnvelopeFromBlock C (drop n txEnvelopeBytes))"

definition retrieveBlockByHash :: "codec \<Rightarrow> bytes \<Rightarrow> store \<Rightarrow> Block result" where
  "retrieveBlockByHash C blockHash s =
     rbind (getBlockLocByHash (bm_index (m_mgr s)) blockHash (m_db s)) (\<lambda>loc. fetchBlock C (m_mgr s) loc (m_os s))"

abbreviation snapshot_block_err :: goerr where
  "snapshot_block_err \<equiv> ErrMsg ''cannot serve block [%d]. The ledger is bootstrapped from a snapshot. First available block = [%d]''"

abbreviation snapshot_tx_err :: goerr where
  "snapshot_tx_err \<equiv> ErrMsg ''details for the TXID [%s] not available. Ledger bootstrapped from a snapshot. First available block = [%d]''"

definition retrieveBlockByNumber :: "codec \<Rightarrow> uint64 \<Rightarrow> store \<Rightarrow> Block result" where
  "retrieveBlockByNumber C num s =
     (let blockNum = (if num = - 1 then Height (bm_bcInfo (m_mgr s)) - 1 else num) in
      if blockNum < firstPossibleBlockNumberInBlockFiles (m_mgr s) then Err snapshot_block_err
      else rbind (getBlockLocByBlockNum (bm_index (m_mgr s)) blockNum (m_db s)) (\<lambda>loc.
        fetchBlock C (m_mgr s) loc (m_os s)))"

definition nil_value_err :: "'a result \<Rightarrow> 'a result" where
  "nil_value_err r = (if r = Err ErrNilValue then Err snapshot_tx_err else r)"

definition retrieveBlockByTxID :: "codec \<Rightarrow> string \<Rightarrow> store \<Rightarrow> Block result" where
  "retrieveBlockByTxID C txID s =
     rbind (nil_value_err (getBlockLocByTxID C (bm_index (m_mgr s)) txID (m_db s))) (\<lambda>loc.
     fetchBlock C (m_mgr s) loc (m_os s))"

definition retrieveTxValidationCodeByTxID :: "codec \<Rightarrow> string \<Rightarrow> store \<Rightarrow> int result" where
  "retrieveTxValidationCodeByTxID C txID s =
     nil_value_err (getTxValidationCodeByTxID C (bm_index (m_mgr s)) txID (m_db s))"

definition header_at :: "codec \<Rightarrow> blockfileMgr \<Rightarrow> uint64 \<Rightarrow> os \<Rightarrow> DB \<Rightarrow> BlockHeader result" where
  "header_at C mgr blockNum fs db =
     (if blockNum < firstPossibleBlockNumberInBlockFiles mgr then Err snapshot_block_err
      else rbind (getBlockLocByBlockNum (bm_index mgr) blockNum db) (\<lambda>loc.
        rbind (fetchBlockBytes mgr loc fs) (\<lambda>blockBytes.
        rbind (extractSerializedBlockInfo C blockBytes) (\<lambda>info. Ok (si_blockHeader info)))))"

definition retrieveBlockHeaderByNumber :: "codec \<Rightarrow> uint64 \<Rightarrow> store \<Rightarrow> BlockHeader result" where
  "retrieveBlockHeaderByNumber C blockNum s = header_at C (m_mgr s) blockNum (m_os s) (m_db s)"

definition txIDExists :: "string \<Rightarrow> store \<Rightarrow> bool result" where
  "txIDExists txID s = index_txIDExists (bm_index (m_mgr s)) txID (m_db s)"

definition retrieveTransactionByID :: "codec \<Rightarrow> string \<Rightarrow> store \<Rightarrow> Envelope result" where
  "retrieveTransactionByID C txID s =
     rbind (nil_value_err (getTxLoc C (bm_index (m_mgr s)) txID (m_db s))) (\<lambda>loc.
     fetchTransactionEnvelope C (m_mgr s) loc (m_os s))"

definition retrieveTransactionByBlockNumTranNum :: "codec \<Rightarrow> uint64 \<Rightarrow> uint64 \<Rightarrow> store \<Rightarrow> Envelope result" where
  "retrieveTransactionByBlockNumTranNum C blockNum tranNum s =
     (if blockNum < firstPossibleBlockNumberInBlockFiles (m_mgr s) then Err snapshot_block_err
      else rbind (getTXLocByBlockNumTranNum (bm_index (m_mgr s)) blockNum tranNum (m_db s)) (\<lambda>loc.
        fetchTransactionEnvelope C (m_mgr s) loc (m_os s)))"

section \<open>Starting a manager\<close>

text \<open>The summary from the database is brought up to date with the file it names.\<close>

definition syncBlockfilesInfoFromFS :: "string \<Rightarrow> blockfilesInfo \<Rightarrow> os \<Rightarrow> blockfilesInfo result" where
  "syncBlockfilesInfoFromFS rootDir i fs =
     rbind (panic_on_err ''Error in checking whether file [%s] exists: %s''
       (FileExists (deriveBlockfilePath rootDir (latestFileNumber i)) fs)) (\<lambda>(exists, fsize).
     if \<not> exists \<or> int fsize = latestFileSize i then Ok i
     else
       rbind (panic_on_err ''Could not open current file for detecting last block in the file: %s''
         (scanForLastCompleteBlock rootDir (latestFileNumber i) (latestFileSize i) fs)) (\<lambda>(_, endOffsetLastBlock, numBlocks).
       if numBlocks = 0 then Ok (i\<lparr>latestFileSize := endOffsetLastBlock\<rparr>)
       else
         Ok \<lparr>latestFileNumber = latestFileNumber i, latestFileSize = endOffsetLastBlock, noBlockFiles = False,
             lastPersistedBlock =
               (if noBlockFiles i then word_of_nat (numBlocks - 1) else lastPersistedBlock i + word_of_nat numBlocks)\<rparr>))"

text \<open>Every block a stream returns moves it forward, within its file or to a later one.\<close>

lemma nextBlock_progress:
  assumes "nextBlockBytesAndPlacementInfo s fs = Ok (Some r, s')"
  shows "bs_rootDir s' = bs_rootDir s \<and>
    (card (later_files fs (bs_rootDir s) (bs_currentFileNum s')) < card (later_files fs (bs_rootDir s) (bs_currentFileNum s)) \<or>
     bs_currentFileNum s' = bs_currentFileNum s \<and> fs_file (bs_currentFileStream s') = fs_file (bs_currentFileStream s) \<and>
     fs_currentOffset (bs_currentFileStream s) < fs_currentOffset (bs_currentFileStream s') \<and>
     fs_currentOffset (bs_currentFileStream s) < int (length (os_content fs (fs_file (bs_currentFileStream s)))))"
  using assms
proof (induction s fs rule: nextBlockBytesAndPlacementInfo.induct)
  case (1 s fs)
  obtain r0 cs where c: "stream_nextBlockBytesAndPlacementInfo (bs_currentFileStream s) fs = Ok (r0, cs)"
    using "1.prems" by (cases "stream_nextBlockBytesAndPlacementInfo (bs_currentFileStream s) fs")
      (auto simp: nextBlockBytesAndPlacementInfo.simps [of s fs])
  show ?case
  proof (cases "r0 = None \<and> (bs_currentFileNum s < bs_endFileNum s \<or> bs_endFileNum s < 0)")
    case False
    then have "r0 = Some r" "s' = s\<lparr>bs_currentFileStream := cs\<rparr>"
      using "1.prems" c by (auto simp: nextBlockBytesAndPlacementInfo.simps [of s fs] Let_def)
    then show ?thesis using stream_next_progress [of "bs_currentFileStream s" fs r cs] c by simp
  next
    case True
    then obtain s2 where m: "moveToNextBlockfileStream (s\<lparr>bs_currentFileStream := cs\<rparr>) fs = Ok s2"
      and n: "nextBlockBytesAndPlacementInfo s2 fs = Ok (Some r, s')"
      using "1.prems" c by (auto simp: nextBlockBytesAndPlacementInfo.simps [of s fs] Let_def split: result.splits)
    have s2: "bs_rootDir s2 = bs_rootDir s" "bs_currentFileNum s2 = bs_currentFileNum s + 1"
      "\<exists>x. newBlockfileStream (bs_rootDir s) (bs_currentFileNum s + 1) 0 fs = Ok x"
      using m by (auto simp: moveToNextBlockfileStream_def rbind_eq_Ok)
    then have "card (later_files fs (bs_rootDir s) (bs_currentFileNum s2)) < card (later_files fs (bs_rootDir s) (bs_currentFileNum s))"
      using later_files_step by auto
    moreover have "bs_rootDir s' = bs_rootDir s2 \<and>
      (card (later_files fs (bs_rootDir s2) (bs_currentFileNum s')) < card (later_files fs (bs_rootDir s2) (bs_currentFileNum s2)) \<or>
       bs_currentFileNum s' = bs_currentFileNum s2)"
      using "1.IH" [OF c _ refl True m n] by blast
    ultimately show ?thesis using s2(1) by auto
  qed
qed

text \<open>What \<open>syncIndex\<close> hands to the index for a block found in the files.\<close>

definition placed_idx_info :: "serializedBlockInfo \<Rightarrow> blockPlacementInfo \<Rightarrow> blockIdxInfo" where
  "placed_idx_info info p =
     \<lparr>ii_blockNum = Number (si_blockHeader info), ii_blockHash = BlockHeaderHash (si_blockHeader info),
      ii_flp = \<lparr>fileSuffixNum = bp_fileNum p, flp_loc = \<lparr>lp_offset = bp_blockStartOffset p, lp_bytesLength = 0\<rparr>\<rparr>,
      ii_txOffsets = map (shift_txOffset (bp_blockBytesOffset p - bp_blockStartOffset p)) (si_txOffsets info),
      ii_metadata = si_metadata info\<rparr>"

function sync_loop :: "codec \<Rightarrow> blockIndex \<Rightarrow> os \<Rightarrow> blockStream \<Rightarrow> DB \<Rightarrow> unit result \<times> DB" where
  "sync_loop C index fs stream db =
     (case nextBlockBytesAndPlacementInfo stream fs of
        Panic p \<Rightarrow> (Panic p, db)
      | Err e \<Rightarrow> (Err e, db)
      | Ok (None, _) \<Rightarrow> (Ok (), db)
      | Ok (Some (blockBytes, p), stream') \<Rightarrow>
          (case extractSerializedBlockInfo C blockBytes of
             Panic q \<Rightarrow> (Panic q, db)
           | Err e \<Rightarrow> (Err e, db)
           | Ok info \<Rightarrow>
               (case indexBlock C index (placed_idx_info info p) db of
                  (Panic q, db') \<Rightarrow> (Panic q, db')
                | (Err e, db') \<Rightarrow> (Err e, db')
                | (Ok _, db') \<Rightarrow> sync_loop C index fs stream' db')))"
  by pat_completeness auto
termination
  by (relation "inv_image (less_than <*lex*> less_than) (\<lambda>(C, index, fs, s, db).
        (card (later_files fs (bs_rootDir s) (bs_currentFileNum s)),
         nat (int (length (os_content fs (fs_file (bs_currentFileStream s)))) - fs_currentOffset (bs_currentFileStream s))))")
     (auto dest!: nextBlock_progress)

declare sync_loop.simps [simp del]

definition sync_from :: "codec \<Rightarrow> blockfileMgr \<Rightarrow> uint64 \<Rightarrow> uint64 \<Rightarrow> os \<Rightarrow> (DB, unit) io" where
  "sync_from C mgr lastBlockIndexed nextIndexableBlock fs =
     io_bind (io_lift (retrieveFirstBlockNumFromFile C (bm_rootDir mgr) 0 fs)) (\<lambda>firstAvailableBlkNum.
     io_bind
       (if nextIndexableBlock > firstAvailableBlkNum then
          io_bind (\<lambda>db. (getBlockLocByBlockNum (bm_index mgr) lastBlockIndexed db, db)) (\<lambda>flp.
          io_return (fileSuffixNum flp, lp_offset (flp_loc flp), True))
        else io_return (0, 0, False)) (\<lambda>(startFileNum, startOffset, skipFirstBlock).
     io_bind (io_lift (newBlockStream (bm_rootDir mgr) startFileNum startOffset
       (latestFileNumber (bm_blockfilesInfo mgr)) fs)) (\<lambda>stream.
     io_bind
       (if skipFirstBlock then
          io_bind (io_lift (nextBlockBytesAndPlacementInfo stream fs)) (\<lambda>(r, stream').
          if r = None then
            io_lift (Err (ErrMsg ''block bytes for block num = [%d] should not be nil here. The indexes for the block are already present''))
          else io_return stream')
        else io_return stream) (\<lambda>stream.
     sync_loop C (bm_index mgr) fs stream))))"

definition syncIndex :: "codec \<Rightarrow> blockfileMgr \<Rightarrow> os \<Rightarrow> (DB, unit) io" where
  "syncIndex C mgr fs =
     io_bind (\<lambda>db.
       ((case getLastBlockIndexed (bm_index mgr) db of
           Ok lastBlockIndexed \<Rightarrow> Ok (lastBlockIndexed, lastBlockIndexed + 1)
         | Err e \<Rightarrow> if e = ErrIndexSavePointKeyNotPresent then Ok (0, 0) else Err e
         | Panic p \<Rightarrow> Panic p), db)) (\<lambda>(lastBlockIndexed, nextIndexableBlock).
     if nextIndexableBlock = 0 \<and> bootstrappedFromSnapshot mgr then
       io_lift (Err (ErrMsg ''cannot sync index with block files. blockstore is bootstrapped from a snapshot and first available block=[%d]''))
     else if noBlockFiles (bm_blockfilesInfo mgr) then io_return ()
     else if nextIndexableBlock = lastPersistedBlock (bm_blockfilesInfo mgr) + 1 then io_return ()
     else sync_from C mgr lastBlockIndexed nextIndexableBlock fs)"

record Conf =
  blockStorageDir :: string
  maxBlockfileSize :: int

definition defaultMaxBlockfileSize :: int where "defaultMaxBlockfileSize = 64 * 1024 * 1024"

definition NewConf :: "string \<Rightarrow> int \<Rightarrow> Conf" where
  "NewConf dir sz = \<lparr>blockStorageDir = dir, maxBlockfileSize = (if sz \<le> 0 then defaultMaxBlockfileSize else sz)\<rparr>"

definition getIndexDir :: "Conf \<Rightarrow> string" where
  "getIndexDir conf = path_Join (blockStorageDir conf) ''index''"

definition getChainsDir :: "Conf \<Rightarrow> string" where
  "getChainsDir conf = path_Join (blockStorageDir conf) ChainsDir"

definition getLedgerBlockDir :: "Conf \<Rightarrow> string \<Rightarrow> string" where
  "getLedgerBlockDir conf ledgerid = path_Join (getChainsDir conf) ledgerid"

text \<open>The information for the APIs: from the snapshot, if there is one, and from the last block, if there is one.\<close>

definition initial_bcInfo :: "codec \<Rightarrow> blockfileMgr \<Rightarrow> os \<Rightarrow> DB \<Rightarrow> BlockchainInfo result" where
  "initial_bcInfo C mgr fs db =
     (let i = bm_blockfilesInfo mgr;
          bcInfo = (case bm_bootstrappingSnapshotInfo mgr of
              None \<Rightarrow> \<lparr>Height = 0, CurrentBlockHash = [], PreviousBlockHash = [], LastBlockInSnapshot = None\<rparr>
            | Some bsi \<Rightarrow> \<lparr>Height = bsi_LastBlockNum bsi + 1, CurrentBlockHash = bsi_LastBlockHash bsi,
                PreviousBlockHash = bsi_PreviousBlockHash bsi, LastBlockInSnapshot = Some (bsi_LastBlockNum bsi)\<rparr>) in
      if noBlockFiles i then Ok bcInfo
      else
        rbind (panic_on_err ''Could not retrieve header of the last block form file: %s''
          (header_at C mgr (lastPersistedBlock i) fs db)) (\<lambda>lastBlockHeader.
        Ok (bcInfo\<lparr>Height := lastPersistedBlock i + 1, CurrentBlockHash := BlockHeaderHash lastBlockHeader,
                   PreviousBlockHash := PreviousHash lastBlockHeader\<rparr>)))"

definition newBlockfileMgr :: "codec \<Rightarrow> string \<Rightarrow> Conf \<Rightarrow> IndexableAttr list \<Rightarrow> string \<Rightarrow> (machine, blockfileMgr) io" where
  "newBlockfileMgr C ledgerid conf attrsToIndex indexStore =
     (let rootDir = getLedgerBlockDir conf ledgerid in
      io_bind (io_panic_on_err ''Error creating block storage root dir [%s]: %s'' (on_os (CreateDirIfMissing rootDir))) (\<lambda>_.
      io_bind (io_get (\<lambda>s. (m_os s, m_db s))) (\<lambda>(fs, db).
      io_bind (io_lift (panic_on_err ''Could not get block file info for current block file from db: %s''
        (loadBlkfilesInfo indexStore db))) (\<lambda>loaded.
      io_bind (io_lift
        (case loaded of
           None \<Rightarrow> panic_on_err ''Could not build blockfilesInfo info from block files: %s'' (constructBlockfilesInfo C rootDir fs)
         | Some i \<Rightarrow> syncBlockfilesInfoFromFS rootDir i fs)) (\<lambda>info.
      io_bind (io_panic_on_err ''Could not save next block file info to db: %s'' (on_db (saveBlkfilesInfo indexStore info True))) (\<lambda>_.
      io_bind (io_panic_on_err ''Could not open writer to current file: %s''
        (on_os (newBlockfileWriter (deriveBlockfilePath rootDir (latestFileNumber info))))) (\<lambda>currentFileWriter.
      io_bind (io_panic_on_err ''Could not truncate current file to known size in db: %s''
        (on_os (truncateFile currentFileWriter (nat (latestFileSize info))))) (\<lambda>_.
      io_bind (io_get m_os) (\<lambda>fs.
      io_bind (io_lift (loadBootstrappingSnapshotInfo C rootDir fs)) (\<lambda>bsi.
      let mgr = \<lparr>bm_rootDir = rootDir, bm_maxBlockfileSize = maxBlockfileSize conf,
                 bm_index = newBlockIndex attrsToIndex indexStore, bm_blockfilesInfo = info,
                 bm_bootstrappingSnapshotInfo = bsi, bm_currentFileWriter = currentFileWriter,
                 bm_bcInfo = \<lparr>Height = 0, CurrentBlockHash = [], PreviousBlockHash = [], LastBlockInSnapshot = None\<rparr>\<rparr> in
      io_bind (on_db (syncIndex C mgr fs)) (\<lambda>_.
      io_bind (io_get m_db) (\<lambda>db.
      io_bind (io_lift (initial_bcInfo C mgr fs db)) (\<lambda>bcInfo.
      io_return (mgr\<lparr>bm_bcInfo := bcInfo\<rparr>))))))))))))))"

section \<open>Iterating over the blocks\<close>

text \<open>
  \<open>blocks_itr.go\<close>.  An iterator that is at the end of the chain waits for the next block to be added;
  a call that has to wait is \<open>None\<close>, to be repeated after the next block.
\<close>

record blocksItr =
  itr_maxBlockNumAvailable :: uint64
  itr_blockNumToRetrieve :: uint64
  itr_stream :: "blockStream option"
  itr_closeMarker :: bool

definition newBlockItr :: "uint64 \<Rightarrow> store \<Rightarrow> blocksItr" where
  "newBlockItr startBlockNum s =
     \<lparr>itr_maxBlockNumAvailable = lastPersistedBlock (bm_blockfilesInfo (m_mgr s)), itr_blockNumToRetrieve = startBlockNum,
      itr_stream = None, itr_closeMarker = False\<rparr>"

definition waitForBlock :: "blocksItr \<Rightarrow> uint64 \<Rightarrow> store \<Rightarrow> uint64 option" where
  "waitForBlock itr blockNum s =
     (let lastBlock = lastPersistedBlock (bm_blockfilesInfo (m_mgr s))
      in if lastBlock < blockNum \<and> \<not> itr_closeMarker itr then None else Some lastBlock)"

definition initStream :: "blocksItr \<Rightarrow> store \<Rightarrow> blockStream result" where
  "initStream itr s =
     rbind (getBlockLocByBlockNum (bm_index (m_mgr s)) (itr_blockNumToRetrieve itr) (m_db s)) (\<lambda>lp.
     newBlockStream (bm_rootDir (m_mgr s)) (fileSuffixNum lp) (lp_offset (flp_loc lp)) (- 1) (m_os s))"

text \<open>The block and the iterator after the call; the block is \<open>None\<close> for a closed iterator.\<close>

definition itr_Next :: "codec \<Rightarrow> blocksItr \<Rightarrow> store \<Rightarrow> (Block option \<times> blocksItr) result option" where
  "itr_Next C itr0 s =
     (case (if itr_maxBlockNumAvailable itr0 < itr_blockNumToRetrieve itr0
            then waitForBlock itr0 (itr_blockNumToRetrieve itr0) s else Some (itr_maxBlockNumAvailable itr0)) of
        None \<Rightarrow> None
      | Some available \<Rightarrow>
          (let itr = itr0\<lparr>itr_maxBlockNumAvailable := available\<rparr> in
           Some
             (if itr_closeMarker itr then Ok (None, itr)
              else
                rbind (case itr_stream itr of None \<Rightarrow> initStream itr s | Some stream \<Rightarrow> Ok stream) (\<lambda>stream.
                rbind (nextBlockBytes stream (m_os s)) (\<lambda>(nextBlockBytes, stream').
                rbind (DeserializeBlock C (case nextBlockBytes of None \<Rightarrow> [] | Some b \<Rightarrow> b)) (\<lambda>block.
                Ok (Some block, itr\<lparr>itr_blockNumToRetrieve := itr_blockNumToRetrieve itr + 1, itr_stream := Some stream'\<rparr>)))))))"

definition itr_Close :: "blocksItr \<Rightarrow> blocksItr" where
  "itr_Close itr = itr\<lparr>itr_closeMarker := True\<rparr>"

definition retrieveBlocks :: "uint64 \<Rightarrow> store \<Rightarrow> blocksItr result" where
  "retrieveBlocks startNum s =
     (if startNum < firstPossibleBlockNumberInBlockFiles (m_mgr s) then Err snapshot_block_err
      else Ok (newBlockItr startNum s))"

end
