(* ===== verification/ChainIndex.thy ===== *)
theory ChainIndex
  imports BlockfileMgr
begin

text \<open>
  The index as a view of the chain.  A placed block is a block with the number of its file and the
  offset of its frame; the index of a chain is what indexing its placed blocks one after the other gives.
  The lemmas say how the view grows with a block and that the other key the manager keeps in the
  same database does not disturb it.
\<close>

section \<open>Placed blocks\<close>

type_synonym placed_block = "Block \<times> nat \<times> nat"

definition p_loc :: "placed_block \<Rightarrow> fileLocPointer" where
  "p_loc p = (case p of (b, i, off) \<Rightarrow> \<lparr>fileSuffixNum = int i, flp_loc = \<lparr>lp_offset = int off, lp_bytesLength = 0\<rparr>\<rparr>)"

definition len_bytes :: "Block \<Rightarrow> bytes" where
  "len_bytes b = EncodeVarint (word_of_nat (length (block_layout b)))"

definition p_txs :: "codec \<Rightarrow> placed_block \<Rightarrow> txindexInfo list" where
  "p_txs C p = map (shift_txOffset (int (length (len_bytes (fst p))))) (tx_layout C (data_start (fst p)) (BData (fst p)))"

definition p_info :: "codec \<Rightarrow> placed_block \<Rightarrow> blockIdxInfo" where
  "p_info C p =
     \<lparr>ii_blockNum = Number (BHeader (fst p)), ii_blockHash = BlockHeaderHash (BHeader (fst p)), ii_flp = p_loc p,
      ii_txOffsets = p_txs C p, ii_metadata = BMetadata (fst p)\<rparr>"

definition p_txids :: "codec \<Rightarrow> placed_block \<Rightarrow> (string \<times> TxIDIndexValue) list" where
  "p_txids C p = map (\<lambda>x. (ti_txID (p_txs C p ! x), txid_value (p_loc p) (flags_of (BMetadata (fst p))) (p_txs C p) x))
     [0..<length (p_txs C p)]"

definition p_hash :: "placed_block \<Rightarrow> bytes \<times> fileLocPointer" where
  "p_hash p = (BlockHeaderHash (BHeader (fst p)), p_loc p)"

text \<open>What the store needs of a block, and of the place it has.\<close>

definition block_ok :: "codec \<Rightarrow> Block \<Rightarrow> bool" where
  "block_ok C b \<longleftrightarrow> stored_block b \<and> flags_ok (BMetadata b) (length (BData b)) \<and> length (BData b) < 2 ^ 63 \<and>
     (\<forall>d \<in> set (BData b). txid_fits (txid_or_empty C d))"

definition place_ok :: "placed_block \<Rightarrow> bool" where
  "place_ok p = (case p of (b, i, off) \<Rightarrow> int i < 2 ^ 63 \<and> off + length (raw (block_layout b)) < 2 ^ 63)"

text \<open>The block number \<open>n\<close> as the ledger stores it.\<close>

definition num64 :: "nat \<Rightarrow> uint64" where
  "num64 n = word_of_nat n"

text \<open>The entries that indexing the placed blocks writes, the later ones first.\<close>

definition p_puts :: "codec \<Rightarrow> blockIndex \<Rightarrow> placed_block \<Rightarrow> (bytes \<times> bytes) list" where
  "p_puts C idx p = index_puts C idx (p_info C p) (flags_of (BMetadata (fst p)))"

definition idx_map :: "codec \<Rightarrow> blockIndex \<Rightarrow> placed_block list \<Rightarrow> bytes \<Rightarrow> bytes option" where
  "idx_map C idx ps k = map_of (rev (concat (map (p_puts C idx) ps))) k"

definition idx_view :: "codec \<Rightarrow> blockIndex \<Rightarrow> nat \<Rightarrow> placed_block list \<Rightarrow> DB \<Rightarrow> bool" where
  "idx_view C idx base ps db \<longleftrightarrow>
     in_key_order (entries db) \<and> txids_below idx (base + length ps) db \<and>
     getLastBlockIndexed idx db =
       (if base + length ps = 0 then Err ErrIndexSavePointKeyNotPresent else Ok (num64 (base + length ps - 1))) \<and>
     (\<forall>j < length ps. getBlockLocByBlockNum idx (num64 (base + j)) db = Ok (p_loc (ps ! j))) \<and>
     (\<forall>num. base + length ps \<le> unat num \<longrightarrow> getBlockLocByBlockNum idx num db = Err ErrNotFoundInIndex) \<and>
     (isAttributeIndexed idx IndexableAttrBlockNumTranNum \<longrightarrow>
       (\<forall>j < length ps. \<forall>x < length (p_txs C (ps ! j)).
         getTXLocByBlockNumTranNum idx (num64 (base + j)) (word_of_nat x) db =
           Ok (tx_location (p_loc (ps ! j)) (p_txs C (ps ! j) ! x)))) \<and>
     (isAttributeIndexed idx IndexableAttrBlockHash \<longrightarrow>
       (\<forall>h l. map_of (rev (map p_hash ps)) h = Some l \<longrightarrow> getBlockLocByHash idx h db = Ok l)) \<and>
     (isAttributeIndexed idx IndexableAttrTxID \<longrightarrow> base = 0 \<longrightarrow>
       (\<forall>t. txid_fits t \<longrightarrow> getTxIDVal C idx t db =
         (case map_of (concat (map (p_txids C) ps)) t of None \<Rightarrow> Err ErrNotFoundInIndex | Some v \<Rightarrow> Ok v))) \<and>
     (base = 0 \<longrightarrow> (\<forall>k. k \<noteq> blkMgrInfoKey \<longrightarrow> DBHandle_Get (idx_db idx) k db = idx_map C idx ps k))"

section \<open>Facts\<close>

lemma unat_num64: "n < 2 ^ 64 \<Longrightarrow> unat (num64 n) = n"
  unfolding num64_def by (rule unat_of_nat64)

lemma num64_inject: "m < 2 ^ 64 \<Longrightarrow> n < 2 ^ 64 \<Longrightarrow> num64 m = num64 n \<longleftrightarrow> m = n"
  using unat_num64 by metis

lemma length_p_txs [simp]: "length (p_txs C p) = length (BData (fst p))"
  by (simp add: p_txs_def)

lemma p_info_simps [simp]:
  "ii_blockNum (p_info C p) = Number (BHeader (fst p))" "ii_blockHash (p_info C p) = BlockHeaderHash (BHeader (fst p))"
  "ii_flp (p_info C p) = p_loc p" "ii_txOffsets (p_info C p) = p_txs C p" "ii_metadata (p_info C p) = BMetadata (fst p)"
  by (simp_all add: p_info_def)

lemma raw_len_bytes: "raw (block_layout b) = len_bytes b @ block_layout b"
  by (simp add: Buffer_EncodeRawBytes_def Buffer_EncodeVarint_def len_bytes_def)

lemma p_txs_nth:
  assumes "x < length (BData (fst p))"
  shows "p_txs C p ! x =
     \<lparr>ti_txID = txid_or_empty C (BData (fst p) ! x),
      ti_loc = \<lparr>lp_offset = int (data_start (fst p) + length (concat (map raw (take x (BData (fst p))))) + length (len_bytes (fst p))),
        lp_bytesLength = int (length (raw (BData (fst p) ! x)))\<rparr>\<rparr>"
  using assms by (simp add: p_txs_def tx_layout_loc shift_txOffset_def)

lemma p_loc_in_range: "place_ok p \<Longrightarrow> flp_in_range (p_loc p)"
  by (auto simp: place_ok_def p_loc_def flp_in_range_def int64_range_def split: prod.splits)

lemma length_take_concat: "x < length ds \<Longrightarrow>
    length (concat (map f (take x ds))) + length (f (ds ! x)) \<le> length (concat (map f ds))"
proof (induction ds arbitrary: x)
  case (Cons d ds)
  then show ?case by (cases x) auto
qed simp

lemma tx_location_in_range:
  assumes "place_ok p" "x < length (BData (fst p))"
  shows "flp_in_range (tx_location (p_loc p) (p_txs C p ! x))"
proof -
  obtain b i off where p: "p = (b, i, off)" by (cases p)
  have "length (concat (map raw (take x (BData b)))) + length (raw (BData b ! x)) \<le> length (concat (map raw (BData b)))"
    using assms(2) by (intro length_take_concat) (simp add: p)
  then have "data_start b + length (concat (map raw (take x (BData b)))) + length (raw (BData b ! x)) \<le> length (block_layout b)"
    by (simp add: data_start_def block_layout_def list_layout_def)
  then show ?thesis using assms
    by (simp add: p tx_location_def newFileLocationPointer_def p_loc_def p_txs_nth place_ok_def flp_in_range_def
        int64_range_def raw_len_bytes)
qed

lemma txids_fit_p_info: "block_ok C (fst p) \<Longrightarrow> txids_fit (p_info C p)"
  by (auto simp: txids_fit_def block_ok_def in_set_conv_nth [of _ "p_txs C p"] p_txs_nth)

lemma txIDExists_iff_found:
  "isAttributeIndexed idx IndexableAttrTxID \<Longrightarrow>
     index_txIDExists idx t db = Ok True \<longleftrightarrow> getTxIDVal C idx t db \<noteq> Err ErrNotFoundInIndex"
  by (auto simp: index_txIDExists_def getTxIDVal_def Let_def proto_Unmarshal_def split: list.splits option.splits)

lemma map_of_p_txids:
  "map_of (p_txids C p) t =
     (case find (\<lambda>i. ti_txID (p_txs C p ! i) = t) [0..<length (p_txs C p)] of
        None \<Rightarrow> None | Some i \<Rightarrow> Some (txid_value (p_loc p) (flags_of (BMetadata (fst p))) (p_txs C p) i))"
proof -
  have "map_of (map (\<lambda>x. (f x, g x)) xs) t = (case find (\<lambda>i. f i = t) xs of None \<Rightarrow> None | Some i \<Rightarrow> Some (g i))" for f :: "nat \<Rightarrow> string" and g :: "nat \<Rightarrow> TxIDIndexValue" and xs
    by (induction xs) auto
  then show ?thesis unfolding p_txids_def .
qed

lemma idx_view_snoc:
  assumes v: "idx_view C idx base ps db" and C: "codec_laws C"
    and I: "indexed C idx (p_info C p) db db'" "isAttributeIndexed idx IndexableAttrBlockNum"
    and num: "Number (BHeader (fst p)) = num64 (base + length ps)" "base + length ps < 2 ^ 64 - 1"
    and b: "block_ok C (fst p)" "place_ok p"
  shows "idx_view C idx base (ps @ [p]) db'"
proof -
  let ?n = "base + length ps"
  have un: "unat (num64 ?n) = ?n" using num(2) by (intro unat_num64) simp
  have neq: "num64 (base + j) \<noteq> num64 ?n" if "j < length ps" for j
    using that num(2) by (simp add: num64_inject)
  have order: "in_key_order (entries db')" "txids_below idx (Suc ?n) db'"
    using v txids_below_indexed [OF I(1)] in_key_order_indexed [OF I(1)] txids_fit_p_info [OF b(1)]
    by (simp_all add: idx_view_def num un)
  have save: "getLastBlockIndexed idx db' = Ok (num64 ?n)"
    using getLastBlockIndexed_indexed [OF I(1)] num by simp
  have byNum: "getBlockLocByBlockNum idx m db' = (if m = num64 ?n then Ok (p_loc p) else getBlockLocByBlockNum idx m db)" for m
    using getBlockLocByBlockNum_indexed [OF I] p_loc_in_range [OF b(2)] num by simp
  have "getBlockLocByBlockNum idx (num64 (base + j)) db' = Ok (p_loc ((ps @ [p]) ! j))" if "j < Suc (length ps)" for j
    using that v neq [of j] byNum by (cases "j = length ps") (auto simp: idx_view_def nth_append)
  moreover have "getBlockLocByBlockNum idx m db' = Err ErrNotFoundInIndex" if "Suc ?n \<le> unat m" for m
    using that v byNum [of m] un by (auto simp: idx_view_def)
  moreover have "getTXLocByBlockNumTranNum idx (num64 (base + j)) (word_of_nat x) db' =
      Ok (tx_location (p_loc ((ps @ [p]) ! j)) (p_txs C ((ps @ [p]) ! j) ! x))"
    if "isAttributeIndexed idx IndexableAttrBlockNumTranNum" "j < Suc (length ps)" "x < length (p_txs C ((ps @ [p]) ! j))" for j x
  proof (cases "j = length ps")
    case True
    then show ?thesis
      using getTXLocByBlockNumTranNum_indexed [OF I(1) that(1), of x] that(3) tx_location_in_range [OF b(2), of x C] num
      by simp
  next
    case False
    then show ?thesis
      using that v neq [of j] getBlockLoc_other_block [OF I(1), of "num64 (base + j)" "word_of_nat x"] num
      by (auto simp: idx_view_def nth_append)
  qed
  moreover have "getBlockLocByHash idx h db' = Ok l"
    if "isAttributeIndexed idx IndexableAttrBlockHash" "map_of (rev (map p_hash (ps @ [p]))) h = Some l" for h l
    using that v getBlockLocByHash_indexed [OF I(1) that(1), of h] p_loc_in_range [OF b(2)]
    by (auto simp: idx_view_def p_hash_def split: if_splits)
  moreover have "getTxIDVal C idx t db' =
      (case map_of (concat (map (p_txids C) (ps @ [p]))) t of None \<Rightarrow> Err ErrNotFoundInIndex | Some v \<Rightarrow> Ok v)"
    if t: "isAttributeIndexed idx IndexableAttrTxID" "base = 0" "txid_fits t" for t
  proof -
    have "txids_below idx (unat (ii_blockNum (p_info C p))) db" using v un num by (simp add: idx_view_def)
    then show ?thesis
      using getTxIDVal_indexed [OF C I(1) t(1) _ _ t(3) txids_fit_p_info [OF b(1)]] v t txIDExists_iff_found [OF t(1), of t db C]
        map_of_p_txids [of C p t]
      by (auto simp: idx_view_def map_add_def split: option.splits)
  qed
  moreover have "DBHandle_Get (idx_db idx) k db' = idx_map C idx (ps @ [p]) k" if "base = 0" "k \<noteq> blkMgrInfoKey" for k
    using that v indexed_get [OF I(1), of k]
    by (auto simp: idx_view_def idx_map_def p_puts_def map_add_def split: option.splits)
  ultimately show ?thesis using order save by (simp add: idx_view_def)
qed

text \<open>The index does not depend on the record of the block files, which the manager keeps in the
  same database under a key of its own.\<close>

lemma blkMgrInfoKey_Cons: "blkMgrInfoKey = 98 # to_bytes ''lkMgrInfo''"
  by (simp add: blkMgrInfoKey_def to_bytes_def byte_of_char_def)

lemma blkMgrInfoKey_distinct [simp]:
  "blkMgrInfoKey \<noteq> constructBlockNumKey n" "blkMgrInfoKey \<noteq> constructBlockHashKey h"
  "blkMgrInfoKey \<noteq> constructBlockNumTranNumKey n m" "blkMgrInfoKey \<noteq> indexSavePointKey"
  "constructBlockNumKey n \<noteq> blkMgrInfoKey" "constructBlockHashKey h \<noteq> blkMgrInfoKey"
  "constructBlockNumTranNumKey n m \<noteq> blkMgrInfoKey" "indexSavePointKey \<noteq> blkMgrInfoKey"
  by (simp_all add: blkMgrInfoKey_Cons indexSavePointKey_Cons index_key_defs)

lemma in_txid_scan_blkMgrInfoKey [simp]: "\<not> in_txid_scan t blkMgrInfoKey"
  by (simp add: in_txid_scan_iff txid_prefix_def blkMgrInfoKey_Cons index_key_defs)

lemma DBHandle_Put_outcome:
  assumes "DBHandle_Put n k v sync db = (r, db')"
  shows "(r = Ok () \<and> entries db' = sput (constructLevelKey n k) v (entries db)) \<or> (\<exists>e. r = Err e \<and> entries db' = entries db)"
proof (cases "db_faults db")
  case Nil
  then show ?thesis using assms by (auto simp: DBHandle_Put_def DB_Put_def db_fault_def)
next
  case (Cons f fs)
  then show ?thesis using assms by (cases f) (auto simp: DBHandle_Put_def DB_Put_def db_fault_def)
qed

lemma DBHandle_Put_cases:
  assumes "DBHandle_Put n k v sync db = (r, db')"
  obtains (ok) "r = Ok ()" "entries db' = sput (constructLevelKey n k) v (entries db)"
    | (fail) e where "r = Err e" "entries db' = entries db"
  using DBHandle_Put_outcome [OF assms] by blast

lemma idx_view_cong:
  assumes v: "idx_view C idx base ps db" and o: "in_key_order (entries db')" "\<And>h. txids_below idx h db \<Longrightarrow> txids_below idx h db'"
    and g: "\<And>k. k \<noteq> blkMgrInfoKey \<Longrightarrow> DBHandle_Get (idx_db idx) k db' = DBHandle_Get (idx_db idx) k db"
    and i: "\<And>t. txid_iterator idx t db' = txid_iterator idx t db"
  shows "idx_view C idx base ps db'"
proof -
  have "getLastBlockIndexed idx db' = getLastBlockIndexed idx db" by (simp add: getLastBlockIndexed_def g)
  moreover have "getBlockLocByBlockNum idx n db' = getBlockLocByBlockNum idx n db" for n by (simp add: getBlockLocByBlockNum_def g)
  moreover have "getTXLocByBlockNumTranNum idx n m db' = getTXLocByBlockNumTranNum idx n m db" for n m
    by (simp add: getTXLocByBlockNumTranNum_def g)
  moreover have "getBlockLocByHash idx h db' = getBlockLocByHash idx h db" for h by (simp add: getBlockLocByHash_def g)
  moreover have "getTxIDVal C idx t db' = getTxIDVal C idx t db" for t by (simp only: getTxIDVal_def i Let_def)
  ultimately show ?thesis using v o g unfolding idx_view_def by simp
qed

lemma idx_view_entries: "entries db' = entries db \<Longrightarrow> idx_view C idx base ps db \<Longrightarrow> idx_view C idx base ps db'"
  by (rule idx_view_cong) (simp_all add: idx_view_def txids_below_def DBHandle_Get_def DB_Get_def DBHandle_GetIterator_def DB_GetIterator_def)

lemma idx_view_saved:
  assumes v: "idx_view C idx base ps db" and put: "DBHandle_Put (idx_db idx) blkMgrInfoKey x sync db = (r, db')"
  shows "idx_view C idx base ps db'"
  using put
proof (cases rule: DBHandle_Put_cases)
  case ok
  show ?thesis
  proof (rule idx_view_cong [OF v])
    show "in_key_order (entries db')" using v by (simp add: ok(2) idx_view_def)
    show "txids_below idx h db'" if "txids_below idx h db" for h
      unfolding txids_below_def
    proof (intro ballI allI impI)
      fix kv t assume "kv \<in> set (entries db')" and t: "txid_fits t" "in_level_scan (idx_db idx) t (fst kv)"
      then have "kv \<in> set (entries db)"
        using set_sput [of "constructLevelKey (idx_db idx) blkMgrInfoKey" x "entries db"] by (auto simp: ok(2))
      then show "\<exists>b n. fst kv = constructLevelKey (idx_db idx) (constructTxIDKey t b n) \<and> unat b < h"
        using that t unfolding txids_below_def by blast
    qed
    show "DBHandle_Get (idx_db idx) k db' = DBHandle_Get (idx_db idx) k db" if "k \<noteq> blkMgrInfoKey" for k
      using that by (simp add: ok(2) DBHandle_Get_def DB_Get_def map_of_sput)
    show "txid_iterator idx t db' = txid_iterator idx t db" for t
      unfolding txid_iterator_filter ok(2) by (rule filter_sput_out) simp
  qed
qed (use v idx_view_entries in blast)

text \<open>An empty database is the index of the empty chain.\<close>

lemma idx_view_empty: "entries db = [] \<Longrightarrow> isAttributeIndexed idx IndexableAttrBlockNum \<Longrightarrow> idx_view C idx 0 [] db"
  by (simp add: idx_view_def txids_below_def getLastBlockIndexed_def getBlockLocByBlockNum_def DBHandle_Get_def DB_Get_def
      getTxIDVal_def txid_iterator_filter idx_map_def)

text \<open>The record of the block files itself.\<close>

lemma DBHandle_Get_saved:
  "saveBlkfilesInfo n i sync db = (Ok (), db') \<Longrightarrow>
     DBHandle_Get n k db' = (if k = blkMgrInfoKey then Some (bfi_marshal i) else DBHandle_Get n k db)"
  by (auto simp: saveBlkfilesInfo_def DBHandle_Get_def DB_Get_def map_of_sput elim: DBHandle_Put_cases)

lemma DBHandle_Get_indexed_info:
  assumes "indexed C idx info db db'"
  shows "DBHandle_Get (idx_db idx) blkMgrInfoKey db' = DBHandle_Get (idx_db idx) blkMgrInfoKey db"
proof -
  have "blkMgrInfoKey \<noteq> constructTxIDKey t n m" for t n m by (simp add: blkMgrInfoKey_Cons index_key_defs)
  then have "blkMgrInfoKey \<notin> fst ` set (index_puts C idx info fl)" for fl
    by (auto simp: index_puts_def txid_puts_def txnum_puts_def)
  then show ?thesis by (simp add: indexed_get [OF assms] map_of_absent)
qed

section \<open>The entries determine the view\<close>

lemma in_level_scan_level: "in_level_scan n t k \<Longrightarrow> \<exists>k'. k = constructLevelKey n k' \<and> in_txid_scan t k'"
proof -
  assume k: "in_level_scan n t k"
  have "stopKey (constructTxIDRangeScan t) = startKey (constructTxIDRangeScan t) @ [0xff]"
    by (simp add: constructTxIDRangeScan_def Let_def)
  then have "constructLevelKey n (startKey (constructTxIDRangeScan t)) \<le> k \<and> k < constructLevelKey n (startKey (constructTxIDRangeScan t)) @ [0xff]"
    using k by (simp add: in_level_scan_def constructLevelKey_def)
  then obtain r where "k = constructLevelKey n (startKey (constructTxIDRangeScan t) @ r)"
    unfolding in_scan_iff by (auto simp: constructLevelKey_def)
  then show ?thesis using k by auto
qed

lemma in_key_order_unique:
  fixes xs ys :: "('k::linorder \<times> 'v) list"
  assumes "in_key_order xs" "in_key_order ys" "\<And>k. map_of xs k = map_of ys k"
  shows "xs = ys"
proof -
  have d: "distinct (map fst xs)" "distinct (map fst ys)" using assms(1,2) in_key_order_distinct by blast+
  have "set xs = set ys" using assms(3) d by (simp add: map_of_inject_set [symmetric] ext)
  moreover have "sorted (map fst xs)" "sorted (map fst ys)" using assms(1,2) by (simp_all add: strict_sorted_iff)
  ultimately show ?thesis using d map_sorted_distinct_set_unique [of fst xs ys] by (metis distinct_map inj_on_Un sup.idem)
qed

text \<open>Indexing the blocks from an empty database.\<close>

definition indexable :: "codec \<Rightarrow> placed_block list \<Rightarrow> bool" where
  "indexable C ps \<longleftrightarrow> length ps < 2 ^ 64 - 1 \<and>
     (\<forall>j < length ps. Number (BHeader (fst (ps ! j))) = num64 j \<and> block_ok C (fst (ps ! j)) \<and> place_ok (ps ! j))"

lemma indexed_exists:
  assumes "block_ok C (fst p)" "isAttributeIndexed idx a" "db_faults db = []"
  shows "\<exists>db'. indexed C idx (p_info C p) db db' \<and> db_faults db' = []"
proof -
  have i: "indexItems idx \<noteq> []" using assms(2) by (auto simp: isAttributeIndexed_def)
  have f: "flags_ok (ii_metadata (p_info C p)) (length (ii_txOffsets (p_info C p)))" using assms(1) by (simp add: block_ok_def)
  have "\<exists>db'. DBHandle_WriteBatch u True db = (Ok (), db') \<and> db_faults db' = []" for u
    using assms(3) by (cases "ub_batch u") (simp_all add: DBHandle_WriteBatch_def DB_WriteBatch_def db_fault_def)
  then obtain db' where "DBHandle_WriteBatch (puts_batch (idx_db idx) (p_puts C idx p)) True db = (Ok (), db')" "db_faults db' = []"
    by blast
  then have "indexed C idx (p_info C p) db db'"
    using i f index_batch_puts [OF f, of C idx] assms(1) by (simp add: indexed_def indexBlock_def p_puts_def block_ok_def)
  then show ?thesis using \<open>db_faults db' = []\<close> by blast
qed

lemma idx_view_build:
  assumes C: "codec_laws C" and a: "isAttributeIndexed idx IndexableAttrBlockNum" and ps: "indexable C ps"
  shows "\<exists>db. db_faults db = [] \<and> idx_view C idx 0 ps db"
  using ps
proof (induction ps rule: rev_induct)
  case Nil
  show ?case using idx_view_empty [OF _ a, of "\<lparr>entries = [], db_faults = []\<rparr>" C] by (intro exI) auto
next
  case (snoc p ps)
  have "indexable C ps"
    unfolding indexable_def
  proof (intro conjI allI impI)
    fix j assume "j < length ps"
    then show "Number (BHeader (fst (ps ! j))) = num64 j" "block_ok C (fst (ps ! j))" "place_ok (ps ! j)"
      using snoc.prems unfolding indexable_def by (metis length_append_singleton less_SucI nth_append)+
  qed (use snoc.prems in \<open>simp add: indexable_def\<close>)
  then obtain db where db: "db_faults db = []" "idx_view C idx 0 ps db" using snoc.IH by blast
  have p: "Number (BHeader (fst p)) = num64 (0 + length ps)" "block_ok C (fst p)" "place_ok p" "0 + length ps < 2 ^ 64 - 1"
    using snoc.prems by (auto simp: indexable_def nth_append)
  obtain db' where "indexed C idx (p_info C p) db db'" "db_faults db' = []" using indexed_exists [OF p(2) a db(1)] by blast
  then show ?case using idx_view_snoc [OF db(2) C _ a p(1,4,2,3)] by blast
qed

lemma idx_view_exact:
  assumes C: "codec_laws C" and a: "isAttributeIndexed idx IndexableAttrBlockNum" and ps: "indexable C ps"
    and db: "in_key_order (entries db)" "\<And>k. k \<noteq> blkMgrInfoKey \<Longrightarrow> DBHandle_Get (idx_db idx) k db = idx_map C idx ps k"
  shows "idx_view C idx 0 ps db"
proof -
  obtain db0 where v: "idx_view C idx 0 ps db0" using idx_view_build [OF C a ps] by blast
  have g: "DBHandle_Get (idx_db idx) k db = DBHandle_Get (idx_db idx) k db0" if "k \<noteq> blkMgrInfoKey" for k
    using v db(2) [OF that] that by (simp add: idx_view_def)
  have o: "in_key_order (entries db0)" using v by (simp add: idx_view_def)
  have same: "map_of (entries db) k = map_of (entries db0) k" if scan: "in_level_scan (idx_db idx) t k" for t k
  proof -
    obtain k' where k: "k = constructLevelKey (idx_db idx) k'" "in_txid_scan t k'" using in_level_scan_level scan by blast
    then have "k' \<noteq> blkMgrInfoKey" by auto
    then show ?thesis using g [of k'] by (simp add: DBHandle_Get_def DB_Get_def k(1))
  qed
  have scan: "txid_iterator idx t db = txid_iterator idx t db0" for t
    unfolding txid_iterator_filter
    using db(1) o same [of t] by (intro in_key_order_unique) (simp_all add: map_of_filter_keys)
  have "txids_below idx h db" if h: "txids_below idx h db0" for h
    unfolding txids_below_def
  proof (intro ballI allI impI)
    fix kv t assume kv: "kv \<in> set (entries db)" and t: "txid_fits t" "in_level_scan (idx_db idx) t (fst kv)"
    have "kv \<in> set (txid_iterator idx t db)" using kv t(2) unfolding txid_iterator_filter by simp
    then have "kv \<in> set (txid_iterator idx t db0)" by (simp only: scan)
    then have "kv \<in> set (entries db0)" unfolding txid_iterator_filter by simp
    then show "\<exists>b n. fst kv = constructLevelKey (idx_db idx) (constructTxIDKey t b n) \<and> unat b < h"
      using h t unfolding txids_below_def by blast
  qed
  then show ?thesis using idx_view_cong [OF v db(1) _ g scan] by blast
qed

end
