(* ===== verification/ChainStore.thy ===== *)
theory ChainStore
  imports ChainIndex
begin

text \<open>
  The block file manager as a chain of blocks.  \<open>store_inv\<close> relates the state of a manager, its files,
  its database and its own fields, to the blocks \<open>bss\<close> in its files: \<open>concat bss\<close> is the abstract
  state, \<open>addBlock\<close> appends to it, the lookups read from it, and starting a manager after a crash
  finds it again.
\<close>

section \<open>The places of the blocks\<close>

definition place_file :: "nat \<Rightarrow> Block list \<Rightarrow> placed_block list" where
  "place_file i bs = map (\<lambda>k. (bs ! k, i, length (file_bytes (take k bs)))) [0..<length bs]"

definition placed :: "Block list list \<Rightarrow> placed_block list" where
  "placed bss = concat (map (\<lambda>i. place_file i (bss ! i)) [0..<length bss])"

lemma length_place_file [simp]: "length (place_file i bs) = length bs"
  by (simp add: place_file_def)

lemma nth_place_file: "k < length bs \<Longrightarrow> place_file i bs ! k = (bs ! k, i, length (file_bytes (take k bs)))"
  by (simp add: place_file_def)

lemma map_fst_place_file [simp]: "map fst (place_file i bs) = bs"
  by (simp add: place_file_def comp_def map_nth)

lemma place_file_snoc: "place_file i (bs @ [b]) = place_file i bs @ [(b, i, length (file_bytes bs))]"
  by (rule nth_equalityI) (auto simp: nth_place_file nth_append less_Suc_eq)

lemma placed_snoc: "placed (bss @ [bs]) = placed bss @ place_file (length bss) bs"
proof -
  have "map (\<lambda>i. place_file i ((bss @ [bs]) ! i)) [0..<length bss] = map (\<lambda>i. place_file i (bss ! i)) [0..<length bss]"
    by (simp add: nth_append)
  then show ?thesis unfolding placed_def by (simp del: map_eq_conv)
qed

lemma placed_Nil [simp]: "placed [] = []"
  by (simp add: placed_def)

lemma map_fst_placed [simp]: "map fst (placed bss) = concat bss"
  by (induction bss rule: rev_induct) (simp_all add: placed_snoc)

lemma length_placed [simp]: "length (placed bss) = length (concat bss)"
  using map_fst_placed length_map by metis

lemma fst_nth_placed [simp]: "j < length (concat bss) \<Longrightarrow> fst (placed bss ! j) = concat bss ! j"
  using nth_map [of j "placed bss" fst] by simp

lemma in_set_placed:
  "(b, i, off) \<in> set (placed bss) \<longleftrightarrow>
     (\<exists>k. i < length bss \<and> k < length (bss ! i) \<and> b = bss ! i ! k \<and> off = length (file_bytes (take k (bss ! i))))"
proof
  assume "(b, i, off) \<in> set (placed bss)"
  then show "\<exists>k. i < length bss \<and> k < length (bss ! i) \<and> b = bss ! i ! k \<and> off = length (file_bytes (take k (bss ! i)))"
    by (auto simp: placed_def place_file_def)
next
  assume "\<exists>k. i < length bss \<and> k < length (bss ! i) \<and> b = bss ! i ! k \<and> off = length (file_bytes (take k (bss ! i)))"
  then obtain k where k: "i < length bss" "k < length (bss ! i)" "b = bss ! i ! k" "off = length (file_bytes (take k (bss ! i)))"
    by blast
  then have "(b, i, off) \<in> set (place_file i (bss ! i))" by (force simp: place_file_def)
  then show "(b, i, off) \<in> set (placed bss)" using k(1) by (auto simp: placed_def)
qed

lemma nth_placed:
  assumes "i < length bss" "k < length (bss ! i)"
  shows "placed bss ! (file_start bss i + k) = (bss ! i ! k, i, length (file_bytes (take k (bss ! i))))"
proof -
  have "bss = take i bss @ [bss ! i] @ drop (Suc i) bss" using id_take_nth_drop [OF assms(1)] by simp
  moreover have "\<exists>qs. placed (xs @ ys) = placed xs @ qs" for xs ys
  proof (induction ys rule: rev_induct)
    case (snoc y ys)
    then obtain qs where "placed (xs @ ys) = placed xs @ qs" by blast
    then have "placed (xs @ ys @ [y]) = placed xs @ qs @ place_file (length (xs @ ys)) y"
      using placed_snoc [of "xs @ ys" y] by simp
    then show ?case by blast
  qed simp
  ultimately obtain qs where "placed bss = placed (take i bss @ [bss ! i]) @ qs" by (metis append.assoc)
  then show ?thesis
    using assms by (simp add: placed_snoc nth_append file_start_def nth_place_file)
qed

lemma file_bytes_simps [simp]: "file_bytes [] = []" "file_bytes (b # bs) = raw (block_layout b) @ file_bytes bs"
  "file_bytes (bs @ cs) = file_bytes bs @ file_bytes cs"
  by (simp_all add: file_bytes_def)

lemma file_bytes_at:
  assumes "k < length bs"
  shows "file_bytes bs = file_bytes (take k bs) @ raw (block_layout (bs ! k)) @ file_bytes (drop (Suc k) bs)"
  using id_take_nth_drop [OF assms] by (metis file_bytes_simps(2,3))

section \<open>Reading at a place\<close>

lemma chain_files_at:
  assumes "chain_files root bss t fs" "(b, i, off) \<in> set (placed bss)"
  obtains pre post where "os_read fs (deriveBlockfilePath root (int i)) = Some (pre @ raw (block_layout b) @ post)"
    "length pre = off" "stored_block b"
proof -
  obtain k where k: "i < length bss" "k < length (bss ! i)" "b = bss ! i ! k" "off = length (file_bytes (take k (bss ! i)))"
    using assms(2) by (auto simp: in_set_placed)
  then show ?thesis
    using assms(1) file_bytes_at [OF k(2)] chain_files_stored [OF assms(1) k(1)]
    by (intro that [of "file_bytes (take k (bss ! i))" "file_bytes (drop (Suc k) (bss ! i)) @ (if Suc i = length bss then t else [])"])
       (auto simp: chain_files_def)
qed

lemma fetchBlockBytes_placed:
  assumes "chain_files (bm_rootDir mgr) bss t fs" "p \<in> set (placed bss)"
  shows "fetchBlockBytes mgr (p_loc p) fs = Ok (block_layout (fst p))"
proof -
  obtain b i off where p: "p = (b, i, off)" by (cases p)
  obtain pre post where r: "os_read fs (deriveBlockfilePath (bm_rootDir mgr) (int i)) = Some (pre @ raw (block_layout b) @ post)"
    "length pre = off" "stored_block b"
    using chain_files_at assms p by blast
  then have "newBlockfileStream (bm_rootDir mgr) (int i) (int off) fs =
      Ok (stream_at (deriveBlockfilePath (bm_rootDir mgr) (int i)) (int i) (length pre))"
    by (simp add: newBlockfileStream_Ok stream_at_def)
  moreover have "os_content fs (deriveBlockfilePath (bm_rootDir mgr) (int i)) = pre @ raw (block_layout b) @ post"
    using r by (simp add: os_content_def)
  ultimately show ?thesis
    using r(3) by (simp add: fetchBlockBytes_def p p_loc_def stream_nextBlockBytes_raw stored_block_def)
qed

lemma fetchBlock_placed:
  assumes "chain_files (bm_rootDir mgr) bss t fs" "p \<in> set (placed bss)"
  shows "fetchBlock C mgr (p_loc p) fs = Ok (fst p)"
proof -
  obtain b i off where p: "p = (b, i, off)" by (cases p)
  have "stored_block b" using chain_files_at assms p by blast
  then show ?thesis using fetchBlockBytes_placed [OF assms] by (simp add: fetchBlock_def stored_block_codec p)
qed

lemma fetchTransactionEnvelope_placed:
  assumes "chain_files (bm_rootDir mgr) bss t fs" "p \<in> set (placed bss)" "x < length (BData (fst p))"
  shows "fetchTransactionEnvelope C mgr (tx_location (p_loc p) (p_txs C p ! x)) fs = GetEnvelopeFromBlock C (BData (fst p) ! x)"
proof -
  obtain b i off where p: "p = (b, i, off)" by (cases p)
  obtain pre post where r: "os_read fs (deriveBlockfilePath (bm_rootDir mgr) (int i)) = Some (pre @ raw (block_layout b) @ post)"
    "length pre = off" "stored_block b"
    using chain_files_at assms p by blast
  let ?d = "BData b ! x"
  let ?o = "data_start b + length (concat (map raw (take x (BData b))))"
  obtain md where md: "BMetadata b = Some md" using r(3) by (auto simp: stored_block_def)
  have x: "x < length (BData b)" using assms(3) p by simp
  let ?q1 = "header_layout (BHeader b) @ EncodeVarint (word_of_nat (length (BData b))) @ concat (map raw (take x (BData b)))"
  let ?q2 = "concat (map raw (drop (Suc x) (BData b))) @ list_layout md"
  have "BData b = take x (BData b) @ ?d # drop (Suc x) (BData b)" using x by (rule id_take_nth_drop)
  then have "concat (map raw (BData b)) = concat (map raw (take x (BData b) @ ?d # drop (Suc x) (BData b)))" by (rule arg_cong)
  then have "block_layout b = ?q1 @ raw ?d @ ?q2" "length ?q1 = ?o"
    by (simp_all add: block_layout_def data_start_def list_layout_def md)
  then obtain q1 q2 where q: "block_layout b = q1 @ raw ?d @ q2" "length q1 = ?o" by blast
  have loc: "tx_location (p_loc p) (p_txs C p ! x) = \<lparr>fileSuffixNum = int i, flp_loc =
      \<lparr>lp_offset = int (length (pre @ len_bytes b @ q1)), lp_bytesLength = int (length (raw ?d))\<rparr>\<rparr>"
    using r(2) x q(2) by (simp add: tx_location_def newFileLocationPointer_def p p_loc_def p_txs_nth)
  have "pre @ raw (block_layout b) @ post = (pre @ len_bytes b @ q1) @ raw ?d @ q2 @ post"
    unfolding raw_len_bytes by (simp add: q(1))
  then have "fetchRawBytes mgr (tx_location (p_loc p) (p_txs C p ! x)) fs = Ok (raw ?d)"
    unfolding loc fetchRawBytes_def newBlockfileReader_def fileLocPointer.select_convs locPointer.select_convs r(1)
    by (simp only: option.case rbind_simps reader_read_inside)
  moreover have "DecodeVarint (raw ?d) = (word_of_nat (length ?d), length (EncodeVarint (word_of_nat (length ?d))))"
    by (simp add: raw_frame DecodeVarint_EncodeVarint)
  ultimately show ?thesis by (simp add: fetchTransactionEnvelope_def raw_frame p)
qed

section \<open>The invariant\<close>

definition prev_hash :: "bytes \<Rightarrow> Block list \<Rightarrow> bytes" where
  "prev_hash h0 bs = (if bs = [] then h0 else BlockHeaderHash (BHeader (last bs)))"

definition linked :: "bytes \<Rightarrow> Block list \<Rightarrow> bool" where
  "linked h0 bs = (\<forall>j < length bs. PreviousHash (BHeader (bs ! j)) = prev_hash h0 (take j bs))"

text \<open>\<open>noBlockFiles\<close> is also reset when a first block is too long for its file.\<close>

definition info_ok :: "Block list list \<Rightarrow> blockfilesInfo \<Rightarrow> bool" where
  "info_ok bss i \<longleftrightarrow> latestFileNumber i = int (length bss) - 1 \<and> latestFileSize i = int (length (file_bytes (last bss))) \<and>
     lastPersistedBlock i = last_number bss \<and> (concat bss \<noteq> [] \<longrightarrow> \<not> noBlockFiles i)"

definition chain_ok :: "codec \<Rightarrow> nat \<Rightarrow> bytes \<Rightarrow> Block list list \<Rightarrow> bool" where
  "chain_ok C base h0 bss \<longleftrightarrow> bss \<noteq> [] \<and> (\<forall>b \<in> set (concat bss). block_ok C b) \<and> (\<forall>p \<in> set (placed bss). place_ok p) \<and>
     numbered base (concat bss) \<and> base + length (concat bss) < 2 ^ 64 - 1 \<and> linked h0 (concat bss)"

definition store_inv :: "codec \<Rightarrow> nat \<Rightarrow> bytes \<Rightarrow> Block list list \<Rightarrow> store \<Rightarrow> bool" where
  "store_inv C base h0 bss s \<longleftrightarrow>
     (let mgr = m_mgr s; root = bm_rootDir mgr; chain = concat bss in
      chain_ok C base h0 bss \<and> chain_files root bss [] (m_os s) \<and>
      info_ok bss (bm_blockfilesInfo mgr) \<and>
      loadBlkfilesInfo (idx_db (bm_index mgr)) (m_db s) = Ok (Some (bm_blockfilesInfo mgr)) \<and>
      filePath (bm_currentFileWriter mgr) = deriveBlockfilePath root (int (length bss) - 1) \<and>
      Height (bm_bcInfo mgr) = num64 (base + length chain) \<and> CurrentBlockHash (bm_bcInfo mgr) = prev_hash h0 chain \<and>
      isAttributeIndexed (bm_index mgr) IndexableAttrBlockNum \<and> idx_view C (bm_index mgr) base (placed bss) (m_db s) \<and>
      firstPossibleBlockNumberInBlockFiles mgr = num64 base)"

lemma store_invD:
  assumes "store_inv C base h0 bss s"
  shows "chain_ok C base h0 bss" "chain_files (bm_rootDir (m_mgr s)) bss [] (m_os s)"
    "info_ok bss (bm_blockfilesInfo (m_mgr s))"
    "loadBlkfilesInfo (idx_db (bm_index (m_mgr s))) (m_db s) = Ok (Some (bm_blockfilesInfo (m_mgr s)))"
    "filePath (bm_currentFileWriter (m_mgr s)) = deriveBlockfilePath (bm_rootDir (m_mgr s)) (int (length bss) - 1)"
    "Height (bm_bcInfo (m_mgr s)) = num64 (base + length (concat bss))"
    "CurrentBlockHash (bm_bcInfo (m_mgr s)) = prev_hash h0 (concat bss)"
    "isAttributeIndexed (bm_index (m_mgr s)) IndexableAttrBlockNum"
    "idx_view C (bm_index (m_mgr s)) base (placed bss) (m_db s)"
    "firstPossibleBlockNumberInBlockFiles (m_mgr s) = num64 base"
  using assms by (simp_all add: store_inv_def Let_def)

section \<open>Lookups\<close>

lemma num64_less: "m < 2 ^ 64 \<Longrightarrow> n < 2 ^ 64 \<Longrightarrow> num64 m < num64 n \<longleftrightarrow> m < n"
  by (simp add: word_less_nat_alt unat_num64)

lemma num64_unat [simp]: "num64 (unat n) = n"
  by (simp add: num64_def)

lemma num64_Suc: "num64 (Suc n) = num64 n + 1"
  by (simp add: num64_def)

lemma idx_view_block:
  assumes "idx_view C idx base ps db" "j < length ps"
  shows "getBlockLocByBlockNum idx (num64 (base + j)) db = Ok (p_loc (ps ! j))"
  using assms by (simp add: idx_view_def)

lemma retrieveBlockByNumber_chain:
  assumes inv: "store_inv C base h0 bss s"
  shows "retrieveBlockByNumber C n s =
     (if n = - 1 then (if concat bss = [] then retrieveBlockByNumber C n s else Ok (last (concat bss)))
      else if unat n < base then Err snapshot_block_err
      else if unat n < base + length (concat bss) then Ok (concat bss ! (unat n - base))
      else Err ErrNotFoundInIndex)"
proof -
  note I = store_invD [OF inv]
  let ?chain = "concat bss"
  have bound: "base + length ?chain < 2 ^ 64 - 1" using I(1) by (simp add: chain_ok_def)
  have found: "rbind (getBlockLocByBlockNum (bm_index (m_mgr s)) (num64 (base + j)) (m_db s)) (\<lambda>loc. fetchBlock C (m_mgr s) loc (m_os s)) =
      Ok (?chain ! j)" if "j < length ?chain" for j
    using that idx_view_block [OF I(9), of j] fetchBlock_placed [OF I(2), of "placed bss ! j" C] by simp
  have less: "n < num64 base \<longleftrightarrow> unat n < base" for n
    using num64_less [of "unat n" base] bound unsigned_less [of n, where ?'a = nat] by simp
  show ?thesis
  proof (cases "n = - 1")
    case True
    show ?thesis
    proof (cases "?chain = []")
      case False
      let ?j = "length ?chain - 1"
      have "0 < length ?chain" using False by (simp only: length_greater_0_conv not_False_eq_True)
      then have "base + length ?chain = Suc (base + ?j)" by simp
      then have "Height (bm_bcInfo (m_mgr s)) - 1 = num64 (base + ?j)"
        unfolding I(6) by (simp only: num64_Suc add_diff_cancel)
      moreover have "\<not> num64 (base + ?j) < num64 base" using bound by (simp add: num64_less)
      ultimately show ?thesis
        using True False found [of ?j] I(10) by (simp add: retrieveBlockByNumber_def last_conv_nth)
    qed (use True in simp)
  next
    case False
    consider "unat n < base" | "base \<le> unat n" "unat n < base + length ?chain" | "base + length ?chain \<le> unat n" by linarith
    then show ?thesis
    proof cases
      case 1
      then show ?thesis using False by (simp add: retrieveBlockByNumber_def I(10) less)
    next
      case 2
      then have "num64 (base + (unat n - base)) = n" by simp
      then show ?thesis using 2 False found [of "unat n - base"] by (simp add: retrieveBlockByNumber_def I(10) less)
    next
      case 3
      then have "getBlockLocByBlockNum (bm_index (m_mgr s)) n (m_db s) = Err ErrNotFoundInIndex"
        using I(9) by (simp add: idx_view_def)
      then show ?thesis using 3 False by (simp add: retrieveBlockByNumber_def I(10) less)
    qed
  qed
qed


lemma map_of_rev_last:
  assumes "j < length xs" "\<And>l. j < l \<Longrightarrow> l < length xs \<Longrightarrow> fst (xs ! l) \<noteq> fst (xs ! j)"
  shows "map_of (rev xs) (fst (xs ! j)) = Some (snd (xs ! j))"
  using assms
proof (induction xs rule: rev_induct)
  case (snoc x xs)
  show ?case
  proof (cases "j = length xs")
    case False
    then have j: "j < length xs" using snoc.prems(1) by simp
    then have "fst x \<noteq> fst (xs ! j)" using snoc.prems(2) [of "length xs"] by (simp add: nth_append)
    moreover have "fst (xs ! l) \<noteq> fst (xs ! j)" if "j < l" "l < length xs" for l
      using snoc.prems(2) [of l] that j by (simp add: nth_append)
    ultimately show ?thesis using snoc.IH j by (simp add: nth_append)
  qed simp
qed simp

lemma retrieveBlockByHash_chain:
  assumes inv: "store_inv C base h0 bss s" and a: "isAttributeIndexed (bm_index (m_mgr s)) IndexableAttrBlockHash"
    and j: "j < length (concat bss)"
    and latest: "\<And>l. j < l \<Longrightarrow> l < length (concat bss) \<Longrightarrow>
      BlockHeaderHash (BHeader (concat bss ! l)) \<noteq> BlockHeaderHash (BHeader (concat bss ! j))"
  shows "retrieveBlockByHash C (BlockHeaderHash (BHeader (concat bss ! j))) s = Ok (concat bss ! j)"
proof -
  note I = store_invD [OF inv]
  let ?xs = "map p_hash (placed bss)"
  have "fst (?xs ! l) = BlockHeaderHash (BHeader (concat bss ! l))" if "l < length (concat bss)" for l
    using that by (simp add: p_hash_def)
  then have "map_of (rev ?xs) (fst (?xs ! j)) = Some (snd (?xs ! j))"
    using j latest by (intro map_of_rev_last) simp_all
  then have "getBlockLocByHash (bm_index (m_mgr s)) (BlockHeaderHash (BHeader (concat bss ! j))) (m_db s) = Ok (p_loc (placed bss ! j))"
    using I(9) a j by (simp add: idx_view_def p_hash_def)
  then show ?thesis
    using fetchBlock_placed [OF I(2), of "placed bss ! j" C] j by (simp add: retrieveBlockByHash_def)
qed

lemma retrieveTransaction_chain:
  assumes inv: "store_inv C base h0 bss s" and a: "isAttributeIndexed (bm_index (m_mgr s)) IndexableAttrBlockNumTranNum"
    and j: "j < length (concat bss)" "x < length (BData (concat bss ! j))"
  shows "retrieveTransactionByBlockNumTranNum C (num64 (base + j)) (word_of_nat x) s = GetEnvelopeFromBlock C (BData (concat bss ! j) ! x)"
proof -
  note I = store_invD [OF inv]
  have "\<not> num64 (base + j) < num64 base" using I(1) j by (simp add: chain_ok_def num64_less)
  moreover have "getTXLocByBlockNumTranNum (bm_index (m_mgr s)) (num64 (base + j)) (word_of_nat x) (m_db s) =
      Ok (tx_location (p_loc (placed bss ! j)) (p_txs C (placed bss ! j) ! x))"
    using I(9) a j by (simp add: idx_view_def)
  ultimately show ?thesis
    using fetchTransactionEnvelope_placed [OF I(2), of "placed bss ! j" x C] j
    by (simp add: retrieveTransactionByBlockNumTranNum_def I(10))
qed

text \<open>The first place where an identifier occurs in a chain: the number of the block and of the transaction in it.\<close>

definition tx_positions :: "Block list \<Rightarrow> (nat \<times> nat) list" where
  "tx_positions chain = concat (map (\<lambda>j. map (Pair j) [0..<length (BData (chain ! j))]) [0..<length chain])"

definition first_tx :: "codec \<Rightarrow> Block list \<Rightarrow> string \<Rightarrow> (nat \<times> nat) option" where
  "first_tx C chain t = find (\<lambda>(j, x). txid_or_empty C (BData (chain ! j) ! x) = t) (tx_positions chain)"

lemma map_of_find: "map_of (map (\<lambda>a. (f a, g a)) l) t = map_option g (find (\<lambda>a. f a = t) l)"
  by (induction l) auto

lemma find_cong: "(\<And>a. a \<in> set l \<Longrightarrow> P a = Q a) \<Longrightarrow> find P l = find Q l"
  by (induction l) auto

lemma set_tx_positions: "(j, x) \<in> set (tx_positions chain) \<longleftrightarrow> j < length chain \<and> x < length (BData (chain ! j))"
  unfolding tx_positions_def by (auto intro!: bexI [where x = j])

lemma p_txids_positions:
  "concat (map (p_txids C) (placed bss)) = map (\<lambda>(j, x). (ti_txID (p_txs C (placed bss ! j) ! x),
     txid_value (p_loc (placed bss ! j)) (flags_of (BMetadata (concat bss ! j))) (p_txs C (placed bss ! j)) x))
     (tx_positions (concat bss))"
proof -
  have "map (p_txids C) (placed bss) = map (\<lambda>j. p_txids C (placed bss ! j)) [0..<length (concat bss)]"
    by (rule nth_equalityI) simp_all
  moreover have "p_txids C (placed bss ! j) = map (\<lambda>x. (ti_txID (p_txs C (placed bss ! j) ! x),
      txid_value (p_loc (placed bss ! j)) (flags_of (BMetadata (concat bss ! j))) (p_txs C (placed bss ! j)) x))
      [0..<length (BData (concat bss ! j))]" if "j < length (concat bss)" for j
    using that by (simp add: p_txids_def)
  ultimately show ?thesis
    unfolding tx_positions_def map_concat map_map
    by (intro arg_cong [where f = concat]) (simp add: comp_def cong: map_cong)
qed

lemma map_of_first_tx:
  "map_of (concat (map (p_txids C) (placed bss))) t = map_option (\<lambda>(j, x).
     txid_value (p_loc (placed bss ! j)) (flags_of (BMetadata (concat bss ! j))) (p_txs C (placed bss ! j)) x)
     (first_tx C (concat bss) t)"
proof -
  have "find (\<lambda>a. ti_txID (p_txs C (placed bss ! fst a) ! snd a) = t) (tx_positions (concat bss)) = first_tx C (concat bss) t"
    unfolding first_tx_def by (rule find_cong) (auto simp: set_tx_positions p_txs_nth)
  then show ?thesis
    unfolding p_txids_positions split_beta map_of_find by simp
qed


lemma retrieve_by_txid:
  assumes inv: "store_inv C 0 h0 bss s" and a: "isAttributeIndexed (bm_index (m_mgr s)) IndexableAttrTxID" and t: "txid_fits t"
  shows "case first_tx C (concat bss) t of
       None \<Rightarrow> retrieveTransactionByID C t s = Err ErrNotFoundInIndex \<and> retrieveBlockByTxID C t s = Err ErrNotFoundInIndex \<and>
         retrieveTxValidationCodeByTxID C t s = Err ErrNotFoundInIndex \<and> txIDExists t s = Ok False
     | Some (j, x) \<Rightarrow> retrieveTransactionByID C t s = GetEnvelopeFromBlock C (BData (concat bss ! j) ! x) \<and>
         retrieveBlockByTxID C t s = Ok (concat bss ! j) \<and>
         retrieveTxValidationCodeByTxID C t s = Ok (uint (flags_of (BMetadata (concat bss ! j)) ! x)) \<and> txIDExists t s = Ok True"
proof -
  note I = store_invD [OF inv]
  let ?idx = "bm_index (m_mgr s)" and ?db = "m_db s"
  have v: "getTxIDVal C ?idx t ?db = (case map_of (concat (map (p_txids C) (placed bss))) t of None \<Rightarrow> Err ErrNotFoundInIndex | Some v \<Rightarrow> Ok v)"
    using I(9) a t by (simp add: idx_view_def)
  have ex: "txIDExists t s = Ok (getTxIDVal C ?idx t ?db \<noteq> Err ErrNotFoundInIndex)"
    using txIDExists_iff_found [OF a, of t ?db C] a by (simp add: txIDExists_def index_txIDExists_def Let_def)
  show ?thesis
  proof (cases "first_tx C (concat bss) t")
    case None
    then have "getTxIDVal C ?idx t ?db = Err ErrNotFoundInIndex" using v by (simp add: map_of_first_tx)
    then show ?thesis using None ex
      by (simp add: retrieveTransactionByID_def retrieveBlockByTxID_def retrieveTxValidationCodeByTxID_def getTxLoc_def
          getBlockLocByTxID_def getTxValidationCodeByTxID_def nil_value_err_def)
  next
    case (Some q)
    obtain j x where q: "q = (j, x)" by fastforce
    let ?p = "placed bss ! j"
    have "(j, x) \<in> set (tx_positions (concat bss))"
      using Some unfolding first_tx_def q find_Some_iff by (metis nth_mem)
    then have jx: "j < length (concat bss)" "x < length (BData (concat bss ! j))" by (simp_all add: set_tx_positions)
    have p: "?p \<in> set (placed bss)" "fst ?p = concat bss ! j" using jx by simp_all
    have ok: "place_ok ?p" using I(1) p by (simp add: chain_ok_def)
    have "getTxIDVal C ?idx t ?db = Ok (txid_value (p_loc ?p) (flags_of (BMetadata (concat bss ! j))) (p_txs C ?p) x)"
      using v Some by (simp add: map_of_first_tx q)
    then show ?thesis
      using Some ex q jx p fetchTransactionEnvelope_placed [OF I(2) p(1), of x C] fetchBlock_placed [OF I(2) p(1), of C]
        flp_round_trip [OF p_loc_in_range [OF ok]] flp_round_trip [OF tx_location_in_range [OF ok, of x C]]
      by (simp add: retrieveTransactionByID_def retrieveBlockByTxID_def retrieveTxValidationCodeByTxID_def getTxLoc_def
          getBlockLocByTxID_def getTxValidationCodeByTxID_def nil_value_err_def txid_value_def)
  qed
qed

end
