(* ===== verification/AddBlock.thy ===== *)
theory AddBlock
  imports ChainStore
begin

text \<open>
  Adding a block: \<open>addBlock\<close> of the block file manager implements appending to the chain.
\<close>

section \<open>Files\<close>

lemma on_os_eq [simp]: "m (m_os s) = (r, t) \<Longrightarrow> on_os m s = (r, s\<lparr>m_os := t\<rparr>)"
  by (simp add: on_os_def)

lemma on_os_Ok_iff: "on_os m s = (Ok a, s') \<longleftrightarrow> (\<exists>fs. m (m_os s) = (Ok a, fs) \<and> s' = s\<lparr>m_os := fs\<rparr>)"
  by (auto simp: on_os_def io_zoom_def split: prod.splits)

lemma on_db_eq [simp]: "m (m_db s) = (r, t) \<Longrightarrow> on_db m s = (r, s\<lparr>m_db := t\<rparr>)"
  by (simp add: on_db_def)

lemma DBHandle_Put_ok [simp]:
  "db_faults db = [] \<Longrightarrow> DBHandle_Put n k v sync db = (Ok (), db\<lparr>entries := sput (constructLevelKey n k) v (entries db)\<rparr>)"
  by (simp add: DBHandle_Put_def DB_Put_def db_fault_def)

lemma block_file_names_read:
  "block_file_names root n fs \<Longrightarrow> os_read fs (deriveBlockfilePath root (int i)) \<noteq> None \<longleftrightarrow> i < n"
proof -
  assume "block_file_names root n fs"
  then have "os_read fs (path_Join root (block_file_name i)) \<noteq> None \<longleftrightarrow> (\<exists>j < n. block_file_name i = block_file_name j)"
    unfolding block_file_names_def using block_file_name_no_slash isBlockFileName_block_file_name by blast
  then show ?thesis by (auto simp: deriveBlockfilePath_Join Sprintf_06d_inject)
qed

text \<open>A change of the last file, and one more file.\<close>

lemma chain_files_update:
  assumes ch: "chain_files root (front @ [bs]) t fs"
    and r: "\<And>q. os_read fs' q = (if q = deriveBlockfilePath root (int (length front)) then Some (file_bytes bs' @ t') else os_read fs q)"
    and d: "dirs fs' = dirs fs" "torn_frame t'" "\<And>b. b \<in> set bs' \<Longrightarrow> stored_block b"
  shows "chain_files root (front @ [bs']) t' fs'"
proof -
  have "os_read fs' q \<noteq> None \<longleftrightarrow> os_read fs q \<noteq> None" for q
    using r [of q] ch by (simp add: chain_files_def)
  then have "block_file_names root (length (front @ [bs'])) fs'"
    using ch d(1) by (simp add: chain_files_def block_file_names_def os_is_dir_def)
  then show ?thesis using ch d(2,3) by (auto simp: chain_files_def r nth_append)
qed

lemma chain_files_add:
  assumes ch: "chain_files root bss [] fs"
    and r: "\<And>q. os_read fs' q = (if q = deriveBlockfilePath root (int (length bss)) then Some (file_bytes bs') else os_read fs q)"
    and d: "dirs fs' = dirs fs" "int (Suc (length bss)) < 2 ^ 63" "\<And>b. b \<in> set bs' \<Longrightarrow> stored_block b"
  shows "chain_files root (bss @ [bs']) [] fs'"
proof -
  have "os_read fs' (path_Join root name) \<noteq> None \<and> isBlockFileName name \<and> CHR ''/'' \<notin> set name \<longleftrightarrow>
      (\<exists>i < Suc (length bss). name = block_file_name i)" for name
  proof (cases "name = block_file_name (length bss)")
    case True
    moreover have "os_read fs' (path_Join root (block_file_name (length bss))) \<noteq> None" by (simp add: r deriveBlockfilePath_Join)
    ultimately show ?thesis using block_file_name_no_slash isBlockFileName_block_file_name by (metis lessI)
  next
    case False
    then have "os_read fs' (path_Join root name) = os_read fs (path_Join root name)"
      by (simp add: r deriveBlockfilePath_Join path_Join_def)
    then show ?thesis using ch False by (auto simp: chain_files_def block_file_names_def less_Suc_eq)
  qed
  then have "block_file_names root (length (bss @ [bs'])) fs'"
    using ch d(1,2) by (simp add: chain_files_def block_file_names_def os_is_dir_def)
  then show ?thesis using ch d(3) by (auto simp: chain_files_def r nth_append)
qed

lemma chain_files_cong:
  assumes ch: "chain_files root bss t fs" and r: "\<And>name. os_read fs' (path_Join root name) = os_read fs (path_Join root name)"
    and d: "dirs fs' = dirs fs"
  shows "chain_files root bss t fs'"
  using ch by (simp add: chain_files_def block_file_names_def os_is_dir_def r d deriveBlockfilePath_Join)

section \<open>Writing the block\<close>

definition extend_chain :: "int \<Rightarrow> Block list list \<Rightarrow> Block \<Rightarrow> Block list list" where
  "extend_chain maxSize bss b =
     (if int (length (file_bytes (last bss))) + int (length (raw (block_layout b))) > maxSize then bss @ [[b]]
      else butlast bss @ [last bss @ [b]])"

definition new_place :: "int \<Rightarrow> Block list list \<Rightarrow> Block \<Rightarrow> placed_block" where
  "new_place maxSize bss b =
     (if int (length (file_bytes (last bss))) + int (length (raw (block_layout b))) > maxSize then (b, length bss, 0)
      else (b, length bss - 1, length (file_bytes (last bss))))"

lemma concat_extend [simp]: "bss \<noteq> [] \<Longrightarrow> concat (extend_chain m bss b) = concat bss @ [b]"
  by (cases bss rule: rev_cases) (simp_all add: extend_chain_def)

lemma placed_extend:
  assumes "bss \<noteq> []"
  shows "placed (extend_chain m bss b) = placed bss @ [new_place m bss b]"
proof -
  obtain front bs where bss: "bss = front @ [bs]" using assms by (metis append_butlast_last_id)
  have "place_file (length bss) [b] = [(b, length bss, 0)]" by (simp add: place_file_def)
  then show ?thesis
    using placed_snoc [of bss "[b]"] by (simp add: extend_chain_def new_place_def bss placed_snoc place_file_snoc)
qed

lemma append_frame_ok:
  assumes "faults fs = []"
  shows "append_frame w n (EncodeVarint (word_of_nat (length x))) x fs =
     (Ok (), os_append (filePath w) x (os_append (filePath w) (EncodeVarint (word_of_nat (length x))) fs))"
  using assms by (simp add: append_frame_def)

lemma dirs_append [simp]: "dirs (os_append p x fs) = dirs fs"
  by (simp add: os_append_def)

lemma append_block_reads:
  "os_read (os_append p x (os_append p (EncodeVarint (word_of_nat (length x))) fs)) q =
     (if q = p then Some (os_content fs p @ raw x) else os_read fs q)"
  by (simp add: raw_frame)

lemma newBlockfileWriter_new:
  assumes "faults fs = []" "os_read fs path = None"
  shows "newBlockfileWriter path fs = (Ok \<lparr>filePath = path\<rparr>, os_write path [] fs)"
  using assms by (simp add: newBlockfileWriter_def os_create_def)

definition new_info :: "Block list list \<Rightarrow> uint64 \<Rightarrow> blockfilesInfo" where
  "new_info bss num = \<lparr>latestFileNumber = int (length bss) - 1, latestFileSize = int (length (file_bytes (last bss))),
     noBlockFiles = False, lastPersistedBlock = num\<rparr>"

lemma append_and_save_ok:
  assumes ch: "chain_files (bm_rootDir (m_mgr s)) (front @ [bs]) [] (m_os s)" "info_ok (front @ [bs]) (bm_blockfilesInfo (m_mgr s))"
    and w: "filePath (bm_currentFileWriter (m_mgr s)) = deriveBlockfilePath (bm_rootDir (m_mgr s)) (int (length front))"
    and f: "faults (m_os s) = []" "db_faults (m_db s) = []"
    and b: "stored_block b"
  shows "\<exists>fs db. append_and_save (block_layout b) num s =
      (Ok (new_info (front @ [bs @ [b]]) num), s\<lparr>m_os := fs, m_db := db\<rparr>) \<and>
    chain_files (bm_rootDir (m_mgr s)) (front @ [bs @ [b]]) [] fs \<and> faults fs = [] \<and> dirs fs = dirs (m_os s) \<and> db_faults db = [] \<and>
    saveBlkfilesInfo (idx_db (bm_index (m_mgr s))) (new_info (front @ [bs @ [b]]) num) False (m_db s) = (Ok (), db)"
proof -
  let ?path = "deriveBlockfilePath (bm_rootDir (m_mgr s)) (int (length front))"
  let ?fs = "os_append ?path (block_layout b) (os_append ?path (EncodeVarint (word_of_nat (length (block_layout b)))) (m_os s))"
  let ?new = "new_info (front @ [bs @ [b]]) num"
  obtain db where db: "saveBlkfilesInfo (idx_db (bm_index (m_mgr s))) ?new False (m_db s) = (Ok (), db)" "db_faults db = []"
    using f(2) by (simp add: saveBlkfilesInfo_def)
  have c: "os_content (m_os s) ?path = file_bytes bs" using ch(1) by (simp add: chain_files_def os_content_def nth_append)
  have "chain_files (bm_rootDir (m_mgr s)) (front @ [bs @ [b]]) [] ?fs"
    using ch(1) b by (intro chain_files_update [OF ch(1)]) (auto simp: c chain_files_def raw_frame)
  moreover have "append_and_save (block_layout b) num s = (Ok ?new, s\<lparr>m_os := ?fs, m_db := db\<rparr>)"
    using ch(2) f db w
    by (simp add: append_and_save_def Let_def append_frame_ok info_ok_def new_info_def raw_frame add.commute)
  ultimately show ?thesis using db f by auto
qed

definition moved_mgr :: "blockfileMgr \<Rightarrow> nat \<Rightarrow> blockfileMgr" where
  "moved_mgr mgr n = mgr\<lparr>bm_currentFileWriter := \<lparr>filePath = deriveBlockfilePath (bm_rootDir mgr) (int n)\<rparr>,
     bm_blockfilesInfo := \<lparr>latestFileNumber = int n, latestFileSize = 0, noBlockFiles = False,
       lastPersistedBlock = lastPersistedBlock (bm_blockfilesInfo mgr)\<rparr>\<rparr>"

lemma moved_mgr_simps [simp]:
  "bm_rootDir (moved_mgr mgr n) = bm_rootDir mgr" "bm_index (moved_mgr mgr n) = bm_index mgr"
  "bm_maxBlockfileSize (moved_mgr mgr n) = bm_maxBlockfileSize mgr" "bm_bcInfo (moved_mgr mgr n) = bm_bcInfo mgr"
  "bm_bootstrappingSnapshotInfo (moved_mgr mgr n) = bm_bootstrappingSnapshotInfo mgr"
  "filePath (bm_currentFileWriter (moved_mgr mgr n)) = deriveBlockfilePath (bm_rootDir mgr) (int n)"
  by (simp_all add: moved_mgr_def)

lemma moveToNextFile_ok:
  assumes ch: "chain_files (bm_rootDir (m_mgr s)) bss [] (m_os s)" "info_ok bss (bm_blockfilesInfo (m_mgr s))"
    and f: "faults (m_os s) = []" "db_faults (m_db s) = []" and room: "int (Suc (length bss)) < 2 ^ 63"
  shows "\<exists>fs db. moveToNextFile s = (Ok (), s\<lparr>m_os := fs, m_db := db, m_mgr := moved_mgr (m_mgr s) (length bss)\<rparr>) \<and>
    chain_files (bm_rootDir (m_mgr s)) (bss @ [[]]) [] fs \<and> faults fs = [] \<and> dirs fs = dirs (m_os s) \<and> db_faults db = [] \<and>
    (\<forall>q. q \<noteq> deriveBlockfilePath (bm_rootDir (m_mgr s)) (int (length bss)) \<longrightarrow> os_read fs q = os_read (m_os s) q) \<and>
    (\<exists>i. saveBlkfilesInfo (idx_db (bm_index (m_mgr s))) i True (m_db s) = (Ok (), db))"
proof -
  let ?path = "deriveBlockfilePath (bm_rootDir (m_mgr s)) (int (length bss))"
  let ?i = "\<lparr>latestFileNumber = int (length bss), latestFileSize = 0, noBlockFiles = False,
    lastPersistedBlock = lastPersistedBlock (bm_blockfilesInfo (m_mgr s))\<rparr>"
  have "os_read (m_os s) ?path = None"
    using ch(1) block_file_names_read [of "bm_rootDir (m_mgr s)" "length bss" "m_os s" "length bss"] by (simp add: chain_files_def)
  then have w: "newBlockfileWriter ?path (m_os s) = (Ok \<lparr>filePath = ?path\<rparr>, os_write ?path [] (m_os s))"
    using f(1) by (intro newBlockfileWriter_new)
  obtain db where db: "saveBlkfilesInfo (idx_db (bm_index (m_mgr s))) ?i True (m_db s) = (Ok (), db)" "db_faults db = []"
    using f(2) by (simp add: saveBlkfilesInfo_def)
  have "chain_files (bm_rootDir (m_mgr s)) (bss @ [[]]) [] (os_write ?path [] (m_os s))"
    using room by (intro chain_files_add [OF ch(1)]) (auto simp: os_read_write)
  moreover have "moveToNextFile s = (Ok (), s\<lparr>m_os := os_write ?path [] (m_os s), m_db := db, m_mgr := moved_mgr (m_mgr s) (length bss)\<rparr>)"
    using w db ch(2) by (simp add: moveToNextFile_def updateBlockfilesInfo_def moved_mgr_def info_ok_def Let_def)
  moreover have "\<forall>q. q \<noteq> ?path \<longrightarrow> os_read (os_write ?path [] (m_os s)) q = os_read (m_os s) q" by (simp add: os_read_write)
  ultimately show ?thesis using db f by (metis os_select_write(1,2))
qed

text \<open>What a finished write leaves.\<close>

definition written :: "store \<Rightarrow> Block list list \<Rightarrow> Block \<Rightarrow> store \<Rightarrow> bool" where
  "written s bss b s' \<longleftrightarrow>
     (let root = bm_rootDir (m_mgr s); bss' = extend_chain (bm_maxBlockfileSize (m_mgr s)) bss b;
          db = idx_db (bm_index (m_mgr s)) in
      chain_files root bss' [] (m_os s') \<and> faults (m_os s') = [] \<and> dirs (m_os s') = dirs (m_os s) \<and>
      db_faults (m_db s') = [] \<and>
      m_mgr s' \<in> {m_mgr s, moved_mgr (m_mgr s) (length bss)} \<and>
      filePath (bm_currentFileWriter (m_mgr s')) = deriveBlockfilePath root (int (length bss') - 1) \<and>
      (\<exists>db1. (db1 = m_db s \<or> (\<exists>i. saveBlkfilesInfo db i True (m_db s) = (Ok (), db1))) \<and>
         saveBlkfilesInfo db (new_info bss' (Number (BHeader b))) False db1 = (Ok (), m_db s')))"

lemma write_block_ok:
  assumes ch: "chain_files (bm_rootDir (m_mgr s)) bss [] (m_os s)" "info_ok bss (bm_blockfilesInfo (m_mgr s))" "bss \<noteq> []"
    and w: "filePath (bm_currentFileWriter (m_mgr s)) = deriveBlockfilePath (bm_rootDir (m_mgr s)) (int (length bss) - 1)"
    and f: "faults (m_os s) = []" "db_faults (m_db s) = []"
    and b: "stored_block b" "int (Suc (length bss)) < 2 ^ 63"
  shows "\<exists>s'. write_block (block_layout b) (Number (BHeader b)) s =
      (Ok (int (snd (snd (new_place (bm_maxBlockfileSize (m_mgr s)) bss b))),
           new_info (extend_chain (bm_maxBlockfileSize (m_mgr s)) bss b) (Number (BHeader b))), s') \<and> written s bss b s'"
proof -
  obtain front bs where bss: "bss = front @ [bs]" using ch(3) by (metis append_butlast_last_id)
  let ?max = "bm_maxBlockfileSize (m_mgr s)" and ?num = "Number (BHeader b)"
  let ?total = "int (length (block_layout b)) + int (length (EncodeVarint (word_of_nat (length (block_layout b)))))"
  have latest: "latestFileSize (bm_blockfilesInfo (m_mgr s)) = int (length (file_bytes bs))" using ch(2) by (simp add: info_ok_def bss)
  show ?thesis
  proof (cases "int (length (file_bytes bs)) + int (length (raw (block_layout b))) \<le> ?max")
    case True
    then have "\<not> latestFileSize (bm_blockfilesInfo (m_mgr s)) + ?total > ?max" by (simp add: latest raw_frame)
    then show ?thesis
      using append_and_save_ok [of s front bs b ?num] ch w f b True
      by (auto simp: bss extend_chain_def new_place_def written_def Let_def write_block_def latest)
  next
    case False
    then have full: "latestFileSize (bm_blockfilesInfo (m_mgr s)) + ?total > ?max" by (simp add: latest raw_frame)
    obtain fs db where m: "moveToNextFile s = (Ok (), s\<lparr>m_os := fs, m_db := db, m_mgr := moved_mgr (m_mgr s) (length bss)\<rparr>)"
      and fs: "chain_files (bm_rootDir (m_mgr s)) (bss @ [[]]) [] fs" "faults fs = []" "dirs fs = dirs (m_os s)" "db_faults db = []"
      and sv: "\<exists>i. saveBlkfilesInfo (idx_db (bm_index (m_mgr s))) i True (m_db s) = (Ok (), db)"
      using moveToNextFile_ok [OF ch(1,2) f b(2)] by blast
    let ?s1 = "s\<lparr>m_os := fs, m_db := db, m_mgr := moved_mgr (m_mgr s) (length bss)\<rparr>"
    have i1: "info_ok (bss @ [[]]) (bm_blockfilesInfo (m_mgr ?s1))"
      using ch(2) by (simp add: info_ok_def moved_mgr_def last_number_def)
    obtain fs' db' where w1: "append_and_save (block_layout b) ?num ?s1 = (Ok (new_info (bss @ [[b]]) ?num), ?s1\<lparr>m_os := fs', m_db := db'\<rparr>)"
      and fs': "chain_files (bm_rootDir (m_mgr s)) (bss @ [[b]]) [] fs'" "faults fs' = []" "dirs fs' = dirs fs" "db_faults db' = []"
      and sv': "saveBlkfilesInfo (idx_db (bm_index (m_mgr s))) (new_info (bss @ [[b]]) ?num) False db = (Ok (), db')"
      using append_and_save_ok [of ?s1 bss "[]" b ?num] fs i1 b by auto
    have "write_block (block_layout b) ?num s = (Ok (0, new_info (bss @ [[b]]) ?num), ?s1\<lparr>m_os := fs', m_db := db'\<rparr>)"
      using full m w1 by (simp add: write_block_def Let_def)
    then show ?thesis
      using False fs' sv sv' fs by (auto simp: bss extend_chain_def new_place_def written_def Let_def)
  qed
qed

section \<open>The side files\<close>

definition aux_paths :: "string list \<Rightarrow> string list" where
  "aux_paths a = blockinfo_path #
     (if 3 \<le> length a then [''/var/'' @ a ! 2, ''/var/del'' @ a ! 2, ''/var/bugu'' @ a ! 2] else [])"

lemma os_create_simps [simp]:
  "dirs (os_create p fs) = dirs fs" "faults (os_create p fs) = faults fs" "q \<noteq> p \<Longrightarrow> os_read (os_create p fs) q = os_read fs q"
  by (simp_all add: os_create_def os_read_write split: option.splits)

lemma nth_arg_not_Err [simp]: "nth_arg a i \<noteq> Err e"
  by (simp add: nth_arg_def)

definition frame_cond :: "string list \<Rightarrow> os \<Rightarrow> os \<Rightarrow> bool" where
  "frame_cond ps fs fs' \<longleftrightarrow> (\<forall>q. q \<notin> set ps \<longrightarrow> os_read fs' q = os_read fs q) \<and> dirs fs' = dirs fs \<and> faults fs' = faults fs"

text \<open>A call that only touches the files \<open>ps\<close>.\<close>

definition touches :: "string list \<Rightarrow> (os, 'a) io \<Rightarrow> bool" where
  "touches ps m = (\<forall>fs. frame_cond ps fs (snd (m fs)))"

lemma frame_cond_refl [simp]: "frame_cond ps fs fs"
  by (simp add: frame_cond_def)

lemma frame_cond_trans: "frame_cond ps a b \<Longrightarrow> frame_cond ps b c \<Longrightarrow> frame_cond ps a c"
  by (simp add: frame_cond_def)

lemma touches_simps [simp]:
  "touches ps (io_return x)" "touches ps (io_lift r)" "touches ps (io_get g)"
  "p \<in> set ps \<Longrightarrow> touches ps (append_text p txt)"
  "p \<in> set ps \<Longrightarrow> touches ps (io_modify (os_create p))" "p \<in> set ps \<Longrightarrow> touches ps (io_modify (os_remove p))"
  by (auto simp: touches_def frame_cond_def append_text_def os_read_remove intro!: os_create_simps)

lemma touches_cases:
  "touches ps m \<Longrightarrow> touches ps n \<Longrightarrow> touches ps (if c then m else n)"
  "touches ps m \<Longrightarrow> (\<And>x. touches ps (f x)) \<Longrightarrow> touches ps (case z of None \<Rightarrow> m | Some x \<Rightarrow> f x)"
  "(\<And>x y. touches ps (g x y)) \<Longrightarrow> touches ps (case w of (x, y) \<Rightarrow> g x y)"
  by (auto split: option.splits prod.splits)

lemma touches_bind:
  assumes "touches ps m" "\<And>x. touches ps (f x)"
  shows "touches ps (io_bind m f)"
  unfolding touches_def
proof
  fix fs
  obtain r fs1 where m: "m fs = (r, fs1)" by fastforce
  then have 1: "frame_cond ps fs fs1" using assms(1) unfolding touches_def by (metis snd_conv)
  show "frame_cond ps fs (snd (io_bind m f fs))"
  proof (cases r)
    case (Ok x)
    have "frame_cond ps fs1 (snd (f x fs1))" using assms(2) by (simp add: touches_def)
    then show ?thesis using 1 m Ok frame_cond_trans by auto
  qed (use 1 m in auto)
qed

lemma touches_nth_arg:
  assumes "\<And>x. nth_arg a i = Ok x \<Longrightarrow> touches ps (f x)"
  shows "touches ps (io_bind (io_lift (nth_arg a i)) f)"
  using assms unfolding touches_def by (cases "nth_arg a i") simp_all

lemma aux_paths_cert: "nth_arg a 2 = Ok x \<Longrightarrow>
   ''/var/'' @ x \<in> set (aux_paths a) \<and> ''/var/del'' @ x \<in> set (aux_paths a) \<and> ''/var/bugu'' @ x \<in> set (aux_paths a)"
  by (auto simp: nth_arg_def aux_paths_def split: if_splits)

lemmas lock_steps = step_CreatCert_def step_Creatdelhashtimelock_def step_CreatTimeHashlock_def step_ExeTimeHashlock_def
  step_ExedelTimeHashlock_def step_DelCert_def step_ChangeCert_def

lemma touches_steps:
  "touches (aux_paths a) (step_CreatCert a num)" "touches (aux_paths a) (step_Creatdelhashtimelock a)"
  "touches (aux_paths a) (step_CreatTimeHashlock a)" "touches (aux_paths a) (step_ExeTimeHashlock a)"
  "touches (aux_paths a) (step_ExedelTimeHashlock a)" "touches (aux_paths a) (step_DelCert a)"
  "touches (aux_paths a) (step_ChangeCert a)"
  unfolding lock_steps
  by (auto intro!: touches_nth_arg touches_bind touches_cases dest!: aux_paths_cert)

text \<open>The certificate operation of a block, as \<open>addBlock\<close> sees it.\<close>

abbreviation operation :: "codec \<Rightarrow> Block \<Rightarrow> string list result" where
  "operation C b \<equiv> ignore_err [] (ValidateAnalysis C b)"

lemma touches_record_and_locks:
  assumes "operation C b = Ok a"
  shows "touches (aux_paths a) (record_and_locks C b off)"
proof -
  have "touches (aux_paths a) (record_offset (Number (BHeader b)) off)"
    unfolding record_offset_def by (rule touches_simps) (simp add: aux_paths_def)
  then show ?thesis
    unfolding record_and_locks_def assms
    by (rule touches_bind) (auto simp: touches_def intro!: touches_cases touches_steps [unfolded touches_def, rule_format])
qed


text \<open>
  The operations after which \<open>addBlock\<close> goes on: every operation but the executions of a lock, given
  as many arguments as it reads.
\<close>

definition record_quiet :: "string list \<Rightarrow> bool" where
  "record_quiet a \<longleftrightarrow> a = [] \<or>
     (if a ! 0 = ''CreatCert'' then 3 \<le> length a
      else if a ! 0 = ''Creatdelhashtimelock'' \<or> a ! 0 = ''CreatTimeHashlock'' then 6 \<le> length a
      else if a ! 0 = ''DelCert'' \<or> a ! 0 = ''ChangeCert'' then 2 \<le> length a
      else a ! 0 \<noteq> ''ExeTimeHashlock'' \<and> a ! 0 \<noteq> ''ExedelTimeHashlock'')"

lemma record_and_locks_quiet:
  assumes "operation C b = Ok a" "record_quiet a"
  shows "\<exists>fs'. record_and_locks C b off fs = (Ok (), fs') \<and> frame_cond (aux_paths a) fs fs'"
proof -
  have "\<exists>fs'. record_and_locks C b off fs = (Ok (), fs')"
    using assms unfolding record_and_locks_def record_quiet_def
    by (auto simp: record_offset_def append_text_def lock_steps lock_record_def split: if_splits)
  then show ?thesis using touches_record_and_locks [OF assms(1), of off] unfolding touches_def by (metis snd_conv)
qed

section \<open>The whole call\<close>

lemma extend_not_Nil [simp]: "extend_chain m bss b \<noteq> []"
  by (simp add: extend_chain_def)

lemma last_place:
  assumes "bss \<noteq> []"
  shows "fst (new_place m bss b) = b" "int (length (extend_chain m bss b)) - 1 = int (fst (snd (new_place m bss b)))"
    "length (file_bytes (last (extend_chain m bss b))) = snd (snd (new_place m bss b)) + length (raw (block_layout b))"
  using assms by (cases bss rule: rev_cases; simp add: new_place_def extend_chain_def)+

lemma chain_ok_extend:
  assumes ch: "chain_ok C base h0 bss" and b: "block_ok C b" "place_ok (new_place m bss b)"
    and n: "Number (BHeader b) = num64 (base + length (concat bss))" "base + length (concat bss) < 2 ^ 64 - 2"
    and h: "PreviousHash (BHeader b) = prev_hash h0 (concat bss)"
  shows "chain_ok C base h0 (extend_chain m bss b)"
proof -
  let ?c = "concat bss"
  have ne: "bss \<noteq> []" using ch by (simp add: chain_ok_def)
  have "numbered base (?c @ [b])"
    using ch n by (auto simp: chain_ok_def numbered_def nth_append less_Suc_eq num64_def)
  moreover have "linked h0 (?c @ [b])"
    using ch h by (auto simp: chain_ok_def linked_def nth_append less_Suc_eq)
  ultimately show ?thesis using ch b n ne by (auto simp: chain_ok_def placed_extend)
qed

lemma idx_info_placed:
  assumes "bss \<noteq> []" "BMetadata b = Some md"
  shows "idx_info b (block_layout b) \<lparr>si_blockHeader = BHeader b, si_txOffsets = tx_layout C (data_start b) (BData b), si_metadata = Some md\<rparr>
     (int (length (extend_chain m bss b)) - 1) (int (snd (snd (new_place m bss b)))) = p_info C (new_place m bss b)"
  using last_place [OF assms(1), of m b]
  by (simp add: idx_info_def p_info_def p_loc_def p_txs_def len_bytes_def split_beta)

lemma indexed_placed:
  assumes "db_faults db = []" "isAttributeIndexed idx IndexableAttrBlockNum" "block_ok C (fst p)"
  shows "\<exists>db'. indexed C idx (p_info C p) db db' \<and> db_faults db' = []"
proof -
  have "indexItems idx \<noteq> []" using assms(2) by (auto simp: isAttributeIndexed_def)
  then show ?thesis using indexed_no_faults [of db idx "p_info C p" C] assms by (simp add: block_ok_def)
qed

lemma saved_view:
  assumes "idx_view C idx base ps db" "db1 = db \<or> (\<exists>i. saveBlkfilesInfo (idx_db idx) i True db = (Ok (), db1))"
    and "saveBlkfilesInfo (idx_db idx) new False db1 = (Ok (), db2)"
  shows "idx_view C idx base ps db2" "DBHandle_Get (idx_db idx) blkMgrInfoKey db2 = Some (bfi_marshal new)"
  using assms idx_view_saved DBHandle_Get_saved [OF assms(3)] unfolding saveBlkfilesInfo_def by metis+


text \<open>A block that the chain accepts: the next one, well formed, and with an operation that is not a redaction.\<close>

definition accepts :: "codec \<Rightarrow> nat \<Rightarrow> bytes \<Rightarrow> Block list list \<Rightarrow> store \<Rightarrow> Block \<Rightarrow> bool" where
  "accepts C base h0 bss s b \<longleftrightarrow> block_ok C b \<and>
     Number (BHeader b) = num64 (base + length (concat bss)) \<and> PreviousHash (BHeader b) = prev_hash h0 (concat bss) \<and>
     base + length (concat bss) < 2 ^ 64 - 2 \<and> int (Suc (length bss)) < 2 ^ 63 \<and> bm_maxBlockfileSize (m_mgr s) < 2 ^ 63 \<and>
     (\<exists>a. operation C b = Ok a \<and> record_quiet a \<and> \<not> (pathExists2 peer_rootDir (m_os s) \<and> a \<noteq> [] \<and> a ! 0 = ''ChangeCert'') \<and>
        (\<forall>p \<in> set (aux_paths a). \<not> HasPrefix p (bm_rootDir (m_mgr s) @ ''/'')))"

lemma place_ok_new:
  assumes "stored_block b" "int (Suc (length bss)) < 2 ^ 63" "m < 2 ^ 63"
  shows "place_ok (new_place m bss b)"
  using assms length_varint_frame [of "block_layout b"]
  by (auto simp: place_ok_def new_place_def stored_block_def frame_fits_def raw_frame)

text \<open>The state after a finished call, from the state after the write.\<close>

definition added :: "store \<Rightarrow> os \<Rightarrow> DB \<Rightarrow> blockfilesInfo \<Rightarrow> Block \<Rightarrow> store" where
  "added s1 fs db new b = s1\<lparr>m_os := fs, m_db := db, m_mgr := (m_mgr s1)\<lparr>bm_blockfilesInfo := new,
     bm_bcInfo := \<lparr>Height = Height (bm_bcInfo (m_mgr s1)) + 1, CurrentBlockHash = BlockHeaderHash (BHeader b),
       PreviousBlockHash = PreviousHash (BHeader b), LastBlockInSnapshot = LastBlockInSnapshot (bm_bcInfo (m_mgr s1))\<rparr>\<rparr>\<rparr>"

lemma written_mgr:
  assumes "written s bss b s1"
  shows "bm_index (m_mgr s1) = bm_index (m_mgr s)" "bm_rootDir (m_mgr s1) = bm_rootDir (m_mgr s)"
    "bm_bcInfo (m_mgr s1) = bm_bcInfo (m_mgr s)" "bm_bootstrappingSnapshotInfo (m_mgr s1) = bm_bootstrappingSnapshotInfo (m_mgr s)"
    "faults (m_os s1) = []" "db_faults (m_db s1) = []"
    "chain_files (bm_rootDir (m_mgr s)) (extend_chain (bm_maxBlockfileSize (m_mgr s)) bss b) [] (m_os s1)"
    "filePath (bm_currentFileWriter (m_mgr s1)) =
       deriveBlockfilePath (bm_rootDir (m_mgr s)) (int (length (extend_chain (bm_maxBlockfileSize (m_mgr s)) bss b)) - 1)"
    "bm_maxBlockfileSize (m_mgr s1) = bm_maxBlockfileSize (m_mgr s)"
  using assms by (auto simp: written_def Let_def)

lemma written_view:
  assumes "written s bss b s1" "idx_view C (bm_index (m_mgr s)) base ps (m_db s)"
  shows "idx_view C (bm_index (m_mgr s)) base ps (m_db s1)"
    "DBHandle_Get (idx_db (bm_index (m_mgr s))) blkMgrInfoKey (m_db s1) =
       Some (bfi_marshal (new_info (extend_chain (bm_maxBlockfileSize (m_mgr s)) bss b) (Number (BHeader b))))"
proof -
  obtain db1 where "db1 = m_db s \<or> (\<exists>i. saveBlkfilesInfo (idx_db (bm_index (m_mgr s))) i True (m_db s) = (Ok (), db1))"
    "saveBlkfilesInfo (idx_db (bm_index (m_mgr s))) (new_info (extend_chain (bm_maxBlockfileSize (m_mgr s)) bss b) (Number (BHeader b)))
       False db1 = (Ok (), m_db s1)"
    using assms(1) unfolding written_def Let_def by blast
  from saved_view [OF assms(2) this] show "idx_view C (bm_index (m_mgr s)) base ps (m_db s1)"
    "DBHandle_Get (idx_db (bm_index (m_mgr s))) blkMgrInfoKey (m_db s1) =
       Some (bfi_marshal (new_info (extend_chain (bm_maxBlockfileSize (m_mgr s)) bss b) (Number (BHeader b))))" .
qed

lemma store_inv_added:
  assumes inv: "store_inv C base h0 bss s" and C: "codec_laws C" and acc: "accepts C base h0 bss s b"
    and w: "written s bss b s1"
    and fs: "\<And>name. os_read fs (path_Join (bm_rootDir (m_mgr s)) name) = os_read (m_os s1) (path_Join (bm_rootDir (m_mgr s)) name)"
      "dirs fs = dirs (m_os s1)"
    and db: "indexed C (bm_index (m_mgr s)) (p_info C (new_place (bm_maxBlockfileSize (m_mgr s)) bss b)) (m_db s1) db"
  shows "store_inv C base h0 (extend_chain (bm_maxBlockfileSize (m_mgr s)) bss b)
     (added s1 fs db (new_info (extend_chain (bm_maxBlockfileSize (m_mgr s)) bss b) (Number (BHeader b))) b)"
proof -
  note I = store_invD [OF inv] and W = written_mgr [OF w]
  let ?m = "bm_maxBlockfileSize (m_mgr s)" and ?idx = "bm_index (m_mgr s)"
  let ?bss' = "extend_chain ?m bss b" and ?p = "new_place ?m bss b"
  let ?new = "new_info ?bss' (Number (BHeader b))"
  note vw = written_view [OF w I(9)]
  have ne: "bss \<noteq> []" using I(1) by (simp add: chain_ok_def)
  have b: "block_ok C b" "Number (BHeader b) = num64 (base + length (concat bss))" "base + length (concat bss) < 2 ^ 64 - 2"
    "PreviousHash (BHeader b) = prev_hash h0 (concat bss)" using acc by (auto simp: accepts_def)
  have pl: "place_ok ?p" using acc by (intro place_ok_new) (auto simp: accepts_def block_ok_def)
  note L = last_place [OF ne, of ?m b]
  have ch: "chain_ok C base h0 ?bss'" using chain_ok_extend [OF I(1) b(1) pl b(2,3,4)] .
  have view: "idx_view C ?idx base (placed ?bss') db"
    unfolding placed_extend [OF ne] using b L(1) pl by (intro idx_view_snoc [OF vw(1) C db I(8)]) auto
  have "bfi_in_range ?new"
    using pl L(2,3) L(1) by (auto simp: bfi_in_range_def new_info_def int64_range_def place_ok_def split_beta)
  then have load: "loadBlkfilesInfo (idx_db ?idx) db = Ok (Some ?new)"
    using vw(2) DBHandle_Get_indexed_info [OF db] by (simp add: loadBlkfilesInfo_def bfi_round_trip)
  have info: "info_ok ?bss' ?new" using ne by (simp add: info_ok_def new_info_def last_number_def)
  have "chain_files (bm_rootDir (m_mgr s)) ?bss' [] fs" using chain_files_cong [OF W(7)] fs by blast
  moreover have "firstPossibleBlockNumberInBlockFiles (m_mgr (added s1 fs db ?new b)) = num64 base"
    using I(10) W(4) by (simp add: added_def firstPossibleBlockNumberInBlockFiles_def)
  ultimately show ?thesis
    using ch view load info W I ne b(2) num64_Suc [of "base + length (concat bss)"]
    by (simp add: store_inv_def added_def Let_def prev_hash_def)
qed

text \<open>What a manager keeps for its lifetime.\<close>

definition same_config :: "blockfileMgr \<Rightarrow> blockfileMgr \<Rightarrow> bool" where
  "same_config m m' \<longleftrightarrow> bm_rootDir m' = bm_rootDir m \<and> bm_index m' = bm_index m \<and> bm_maxBlockfileSize m' = bm_maxBlockfileSize m"

lemma addBlock_appends:
  assumes inv: "store_inv C base h0 bss s" and C: "codec_laws C" and acc: "accepts C base h0 bss s b"
    and f: "faults (m_os s) = []" "db_faults (m_db s) = []"
  shows "\<exists>s'. addBlock C k b s = (Ok b, s') \<and> store_inv C base h0 (extend_chain (bm_maxBlockfileSize (m_mgr s)) bss b) s' \<and>
     faults (m_os s') = [] \<and> db_faults (m_db s') = [] \<and> same_config (m_mgr s) (m_mgr s')"
proof -
  note I = store_invD [OF inv]
  let ?m = "bm_maxBlockfileSize (m_mgr s)" and ?root = "bm_rootDir (m_mgr s)" and ?idx = "bm_index (m_mgr s)"
  let ?bss' = "extend_chain ?m bss b" and ?p = "new_place ?m bss b"
  let ?new = "new_info ?bss' (Number (BHeader b))"
  have ne: "bss \<noteq> []" using I(1) by (simp add: chain_ok_def)
  have b: "block_ok C b" "stored_block b" using acc by (simp_all add: accepts_def block_ok_def)
  obtain md where md: "BMetadata b = Some md" using b(2) by (auto simp: stored_block_def)
  obtain a where a: "operation C b = Ok a" "record_quiet a" "\<forall>p \<in> set (aux_paths a). \<not> HasPrefix p (?root @ ''/'')"
    "\<not> (pathExists2 peer_rootDir (m_os s) \<and> a \<noteq> [] \<and> a ! 0 = ''ChangeCert'')" using acc by (auto simp: accepts_def)
  have red: "redaction_step C k b s = (Ok b, s)" using a(1,4) by (auto simp: redaction_step_def)
  obtain s1 where w: "write_block (block_layout b) (Number (BHeader b)) s = (Ok (int (snd (snd ?p)), ?new), s1)" "written s bss b s1"
    using write_block_ok [OF I(2,3) ne I(5) f b(2)] acc by (auto simp: accepts_def)
  note W = written_mgr [OF w(2)]
  obtain fs where r: "record_and_locks C b (int (snd (snd ?p))) (m_os s1) = (Ok (), fs)" "frame_cond (aux_paths a) (m_os s1) fs"
    using record_and_locks_quiet [OF a(1,2)] by blast
  have fs: "os_read fs (path_Join ?root name) = os_read (m_os s1) (path_Join ?root name)" for name
  proof -
    have "HasPrefix (path_Join ?root name) (?root @ ''/'')" by (simp add: HasPrefix_iff path_Join_def)
    then show ?thesis using r(2) a(3) by (auto simp: frame_cond_def)
  qed
  obtain db where db: "indexed C ?idx (p_info C ?p) (m_db s1) db" "db_faults db = []"
    using indexed_placed [OF W(6) I(8), of C ?p] b(1) last_place(1) [OF ne, of ?m b] by auto
  have "addBlock C k b s = (Ok b, added s1 fs db ?new b)"
    using red w(1) r(1) db(1) acc I(6,7) md W(1) idx_info_placed [OF ne md, of C ?m]
    by (simp add: addBlock_def accepts_def SerializeBlock_copy serializeBlock_layout indexed_def added_def new_info_def
        updateBlockfilesInfo_def updateBlockchainInfo_def Let_def)
  moreover have "store_inv C base h0 ?bss' (added s1 fs db ?new b)"
    using store_inv_added [OF inv C acc w(2) fs _ db(1)] r(2) by (simp add: frame_cond_def)
  ultimately show ?thesis using db(2) r(2) W(1,2,5,9) by (auto simp: added_def frame_cond_def same_config_def)
qed


section \<open>Failures\<close>

lemma addBlock_wrong_number:
  "Number (BHeader b) \<noteq> Height (bm_bcInfo (m_mgr s)) \<Longrightarrow>
     addBlock C k b s = (Err (ErrMsg ''block number should have been %d but was %d''), s)"
  by (simp add: addBlock_def)

lemma addBlock_wrong_hash:
  assumes "Number (BHeader b) = Height (bm_bcInfo (m_mgr s))" "redaction_step C k b s = (Ok b, s)"
    and "PreviousHash (BHeader b) \<noteq> CurrentBlockHash (bm_bcInfo (m_mgr s))"
  shows "\<exists>e. addBlock C k b s = (Err e, s)"
  using assms by (simp add: addBlock_def)

text \<open>A write of a frame that fails in one of its three system calls is undone.\<close>

definition fails_at :: "nat \<Rightarrow> nat \<Rightarrow> fault list" where
  "fails_at j n = replicate j Succeed @ [FailAfter n]"

lemma truncateFile_restores:
  assumes "faults fs = []" "os_content fs (filePath w) = c @ junk" "os_read fs (filePath w) \<noteq> None"
  shows "\<exists>fs'. truncateFile w (length c) fs = (Ok (), fs') \<and> faults fs' = [] \<and> dirs fs' = dirs fs \<and>
     (\<forall>q. os_read fs' q = (if q = filePath w then Some c else os_read fs q))"
  using assms by (auto simp: truncateFile_def os_read_write os_content_def)

lemma append_frame_fails:
  assumes "faults fs = fails_at j n" "j < 3" "os_read fs (filePath w) = Some c"
  shows "\<exists>fs'. append_frame w (int (length c)) l x fs = (Err (ErrWrap ''error appending block to file'' (ErrMsg (if j = 2 then ''sync'' else ''write''))), fs') \<and>
     faults fs' = [] \<and> dirs fs' = dirs fs \<and> (\<forall>q. os_read fs' q = os_read fs q)"
proof -
  have c: "os_content fs (filePath w) = c" using assms(3) by (simp add: os_content_def)
  have "\<exists>fs1 junk. io_bind (writer_append w l False) (\<lambda>_. writer_append w x True) fs =
      (Err (ErrMsg (if j = 2 then ''sync'' else ''write'')), fs1) \<and> faults fs1 = [] \<and> dirs fs1 = dirs fs \<and>
      (\<forall>q. os_read fs1 q = (if q = filePath w then Some (c @ junk) else os_read fs q))"
  proof -
    consider "j = 0" | "j = 1" | "j = 2" using assms(2) by linarith
    then show ?thesis
      using assms(1) c
      by cases (auto simp: fails_at_def writer_append_def next_fault_def file_Sync_def io_bind_def os_read_write
          numeral_2_eq_2 intro!: exI)
  qed
  then obtain fs1 junk where 1: "io_bind (writer_append w l False) (\<lambda>_. writer_append w x True) fs =
      (Err (ErrMsg (if j = 2 then ''sync'' else ''write'')), fs1)" "faults fs1 = []" "dirs fs1 = dirs fs"
      "\<And>q. os_read fs1 q = (if q = filePath w then Some (c @ junk) else os_read fs q)" by blast
  obtain fs2 where "truncateFile w (length c) fs1 = (Ok (), fs2)" "faults fs2 = []" "dirs fs2 = dirs fs1"
      "\<forall>q. os_read fs2 q = (if q = filePath w then Some c else os_read fs1 q)"
    using truncateFile_restores [of fs1 w c junk] 1 by (auto simp: os_content_def)
  then show ?thesis using 1 assms(3) by (auto simp: append_frame_def truncate_and_fail_def)
qed


lemma store_inv_cong:
  assumes "store_inv C base h0 bss s" "m_mgr s' = m_mgr s" "entries (m_db s') = entries (m_db s)" "dirs (m_os s') = dirs (m_os s)"
    and "\<And>q. os_read (m_os s') q = os_read (m_os s) q"
  shows "store_inv C base h0 bss s'"
proof -
  note I = store_invD [OF assms(1)]
  have "chain_files (bm_rootDir (m_mgr s)) bss [] (m_os s')" using chain_files_cong [OF I(2)] assms(4,5) by blast
  moreover have "idx_view C (bm_index (m_mgr s)) base (placed bss) (m_db s')" using idx_view_entries [OF assms(3) I(9)] .
  moreover have "loadBlkfilesInfo (idx_db (bm_index (m_mgr s))) (m_db s') = loadBlkfilesInfo (idx_db (bm_index (m_mgr s))) (m_db s)"
    by (simp add: loadBlkfilesInfo_def DBHandle_Get_def DB_Get_def assms(3))
  ultimately show ?thesis using I by (simp add: store_inv_def Let_def assms(2))
qed

text \<open>The beginning of \<open>addBlock\<close> for a block that the chain accepts.\<close>

lemma accepts_head:
  assumes inv: "store_inv C base h0 bss s" and acc: "accepts C base h0 bss s b"
  obtains md where "BMetadata b = Some md" "redaction_step C k b s = (Ok b, s)"
    "SerializeBlock C b = Ok (block_layout b, \<lparr>si_blockHeader = BHeader b, si_txOffsets = tx_layout C (data_start b) (BData b), si_metadata = Some md\<rparr>)"
    "Number (BHeader b) = Height (bm_bcInfo (m_mgr s))" "PreviousHash (BHeader b) = CurrentBlockHash (bm_bcInfo (m_mgr s))"
proof -
  obtain md where "BMetadata b = Some md" using acc by (auto simp: accepts_def block_ok_def stored_block_def)
  moreover have "redaction_step C k b s = (Ok b, s)" using acc by (auto simp: accepts_def redaction_step_def)
  ultimately show ?thesis
    using that [of md] acc store_invD(6,7) [OF inv] by (simp add: accepts_def SerializeBlock_copy serializeBlock_layout)
qed

abbreviation fits_file :: "Block list list \<Rightarrow> store \<Rightarrow> Block \<Rightarrow> bool" where
  "fits_file bss s b \<equiv>
     int (length (file_bytes (last bss))) + int (length (raw (block_layout b))) \<le> bm_maxBlockfileSize (m_mgr s)"

lemma addBlock_fails_in_write:
  assumes inv: "store_inv C base h0 bss s" and acc: "accepts C base h0 bss s b" and fit: "fits_file bss s b"
    and e: "append_and_save (block_layout b) (Number (BHeader b)) s = (Err e, s')"
  shows "addBlock C k b s = (Err e, s')"
proof -
  have "\<not> latestFileSize (bm_blockfilesInfo (m_mgr s)) + (int (length (block_layout b)) +
      int (length (EncodeVarint (word_of_nat (length (block_layout b)))))) > bm_maxBlockfileSize (m_mgr s)"
    using fit store_invD(3) [OF inv] by (simp add: info_ok_def raw_frame)
  then have w: "write_block (block_layout b) (Number (BHeader b)) s = (Err e, s')"
    using e by (simp add: write_block_def Let_def)
  show ?thesis by (rule accepts_head [OF inv acc, of k]) (use w in \<open>simp add: addBlock_def\<close>)
qed

lemma addBlock_append_fails:
  assumes inv: "store_inv C base h0 bss s" and acc: "accepts C base h0 bss s b" and fit: "fits_file bss s b"
    and f: "faults (m_os s) = fails_at j n" "j < 3"
  shows "\<exists>e s'. addBlock C k b s = (Err e, s') \<and> store_inv C base h0 bss s' \<and>
     faults (m_os s') = [] \<and> m_db s' = m_db s \<and> m_mgr s' = m_mgr s"
proof -
  note I = store_invD [OF inv]
  let ?w = "bm_currentFileWriter (m_mgr s)"
  obtain front bs where bss: "bss = front @ [bs]" using I(1) by (metis append_butlast_last_id chain_ok_def)
  have r: "os_read (m_os s) (filePath ?w) = Some (file_bytes bs)" using I(2,5) by (simp add: chain_files_def bss nth_append)
  have l: "latestFileSize (bm_blockfilesInfo (m_mgr s)) = int (length (file_bytes bs))" using I(3) by (simp add: info_ok_def bss)
  obtain e fs' where a: "append_frame ?w (int (length (file_bytes bs))) (EncodeVarint (word_of_nat (length (block_layout b)))) (block_layout b) (m_os s) = (Err e, fs')"
    "faults fs' = []" "dirs fs' = dirs (m_os s)" "\<forall>q. os_read fs' q = os_read (m_os s) q"
    using append_frame_fails [OF f r] by blast
  then have "append_and_save (block_layout b) (Number (BHeader b)) s = (Err e, s\<lparr>m_os := fs'\<rparr>)"
    by (simp add: append_and_save_def Let_def l)
  then have "addBlock C k b s = (Err e, s\<lparr>m_os := fs'\<rparr>)" by (rule addBlock_fails_in_write [OF inv acc fit])
  moreover have "store_inv C base h0 bss (s\<lparr>m_os := fs'\<rparr>)" by (rule store_inv_cong [OF inv]) (simp_all add: a)
  ultimately show ?thesis using a(2) by auto
qed

lemma addBlock_save_fails:
  assumes inv: "store_inv C base h0 bss s" and acc: "accepts C base h0 bss s b" and fit: "fits_file bss s b"
    and f: "faults (m_os s) = []" "db_faults (m_db s) = True # fs"
  shows "\<exists>e s'. addBlock C k b s = (Err e, s') \<and> store_inv C base h0 bss s' \<and>
     faults (m_os s') = [] \<and> db_faults (m_db s') = fs \<and> m_mgr s' = m_mgr s"
proof -
  note I = store_invD [OF inv]
  let ?w = "bm_currentFileWriter (m_mgr s)" and ?x = "block_layout b"
  let ?fs1 = "os_append (filePath ?w) ?x (os_append (filePath ?w) (EncodeVarint (word_of_nat (length ?x))) (m_os s))"
  obtain front bs where bss: "bss = front @ [bs]" using I(1) by (metis append_butlast_last_id chain_ok_def)
  have r: "os_read (m_os s) (filePath ?w) = Some (file_bytes bs)" using I(2,5) by (simp add: chain_files_def bss nth_append)
  have l: "latestFileSize (bm_blockfilesInfo (m_mgr s)) = int (length (file_bytes bs))" using I(3) by (simp add: info_ok_def bss)
  have sv: "saveBlkfilesInfo n i sync (m_db s) =
      (Err (ErrWrap ''error writing leveldb key [%#v]'' (ErrMsg ''leveldb'')), (m_db s)\<lparr>db_faults := fs\<rparr>)" for n i sync
    using f(2) by (simp add: saveBlkfilesInfo_def DBHandle_Put_def DB_Put_def db_fault_def)
  obtain fs' where t: "truncateFile ?w (length (file_bytes bs)) ?fs1 = (Ok (), fs')" "faults fs' = []" "dirs fs' = dirs (m_os s)"
    "\<forall>q. os_read fs' q = os_read (m_os s) q"
    using truncateFile_restores [of ?fs1 ?w "file_bytes bs" "raw ?x"] f(1) r by (auto simp: os_content_def raw_frame)
  obtain e where "append_and_save ?x (Number (BHeader b)) s = (Err e, s\<lparr>m_os := fs', m_db := (m_db s)\<lparr>db_faults := fs\<rparr>\<rparr>)"
    using sv t(1) f(1) by (simp add: append_and_save_def Let_def l append_frame_ok truncate_and_fail_def)
  then have "addBlock C k b s = (Err e, s\<lparr>m_os := fs', m_db := (m_db s)\<lparr>db_faults := fs\<rparr>\<rparr>)"
    by (rule addBlock_fails_in_write [OF inv acc fit])
  moreover have "store_inv C base h0 bss (s\<lparr>m_os := fs', m_db := (m_db s)\<lparr>db_faults := fs\<rparr>\<rparr>)"
    by (rule store_inv_cong [OF inv]) (simp_all add: t)
  ultimately show ?thesis using t(2) by auto
qed


text \<open>
  A redaction request on a peer.  After the old block was rewritten, the transaction is blanked, and
  reading the operation of the block a second time runs into the missing action.
\<close>

lemma record_and_locks_blank:
  assumes "codec_zero C"
  shows "record_and_locks C (b\<lparr>BData := [] # ds\<rparr>) off fs \<noteq> (Ok x, fs')"
  by (simp add: record_and_locks_def record_offset_def append_text_def ValidateAnalysis_blank [OF assms])

lemma addBlock_ChangeCert:
  assumes "codec_zero C" "operation C b = Ok a" "a \<noteq> []" "a ! 0 = ''ChangeCert''" "pathExists2 peer_rootDir (m_os s)"
  shows "fst (addBlock C k b s) \<noteq> Ok b'"
proof -
  have red: "\<exists>ds. b1 = b\<lparr>BData := [] # ds\<rparr>" if "redaction_step C k b s = (Ok b1, s1)" for b1 s1
    using that assms by (auto simp: redaction_step_def io_bind_Ok_iff)
  show ?thesis
  proof
    assume "fst (addBlock C k b s) = Ok b'"
    then obtain s' where "addBlock C k b s = (Ok b', s')" by (metis prod.collapse)
    then obtain b1 s1 off and s2 :: store and u fs' where "redaction_step C k b s = (Ok b1, s1)" "record_and_locks C b1 off (m_os s2) = (Ok u, fs')"
      by (auto simp: addBlock_def io_bind_Ok_iff on_os_Ok_iff split: if_splits)
    then show False using red record_and_locks_blank [OF assms(1)] by metis
  qed
qed

end
