(* ===== verification/Recovery.thy ===== *)
theory Recovery
  imports AddBlock
begin

text \<open>
  Starting a block file manager: \<open>newBlockfileMgr\<close> on an empty directory gives the empty chain, and on
  the files and the database that a crash may leave it finds the chain again.
\<close>

section \<open>Bringing the index up to date\<close>

abbreviation layouts :: "Block list list \<Rightarrow> bytes list list" where
  "layouts bss \<equiv> map (map block_layout) bss"

lemma chain_files_hold:
  assumes "chain_files root bss [] fs"
  shows "files_hold root (layouts bss) fs"
  using assms chain_files_stored [OF assms]
  by (auto simp: files_hold_def chain_files_def file_bytes_def stored_block_def in_set_conv_nth)

lemma placed_idx_info_frame:
  assumes "i < length bss" "k < length (bss ! i)" "BMetadata (bss ! i ! k) = Some md"
  shows "placed_idx_info \<lparr>si_blockHeader = BHeader (bss ! i ! k),
       si_txOffsets = tx_layout C (data_start (bss ! i ! k)) (BData (bss ! i ! k)), si_metadata = Some md\<rparr>
     (frame_place (layouts bss) i k) = p_info C (placed bss ! (file_start bss i + k))"
  using assms
  by (simp add: placed_idx_info_def frame_place_def p_info_def p_loc_def p_txs_def nth_placed file_bytes_def len_bytes_def
      take_map)

lemma sync_loop_step:
  assumes ch: "chain_files root bss [] fs" "chain_ok C base h0 bss" and ik: "i < length bss" "k < length (bss ! i)"
    and f: "db_faults db = []" "isAttributeIndexed idx IndexableAttrBlockNum" and C: "codec_laws C"
    and v: "idx_view C idx base (take (file_start bss i + k) (placed bss)) db"
  shows "\<exists>db'. sync_loop C idx fs (stream_pos root (layouts bss) i k) db = sync_loop C idx fs (stream_pos root (layouts bss) i (Suc k)) db' \<and>
     db_faults db' = [] \<and> idx_view C idx base (take (file_start bss i + Suc k) (placed bss)) db' \<and>
     DBHandle_Get (idx_db idx) blkMgrInfoKey db' = DBHandle_Get (idx_db idx) blkMgrInfoKey db"
proof -
  let ?b = "bss ! i ! k" and ?j = "file_start bss i + k"
  let ?p = "placed bss ! ?j"
  note N = nth_concat_file [OF ik]
  have p: "fst ?p = ?b" "?p \<in> set (placed bss)" using N by simp_all
  have b: "block_ok C ?b" "place_ok ?p" using ch(2) nth_mem [OF N(2)] p(2) unfolding chain_ok_def N(1) by blast+
  obtain md where md: "BMetadata ?b = Some md" using b(1) by (auto simp: block_ok_def stored_block_def)
  obtain db' where I: "indexed C idx (p_info C ?p) db db'" "db_faults db' = []"
    using indexed_placed [OF f, of C ?p] b(1) p(1) by auto
  have num: "Number (BHeader ?b) = num64 (base + ?j)" "base + ?j < 2 ^ 64 - 1"
    using ch(2) N by (auto simp: chain_ok_def numbered_def num64_def)
  have "idx_view C idx base (take ?j (placed bss) @ [?p]) db'"
    using N(2) b p(1) num by (intro idx_view_snoc [OF v C I(1) f(2)]) simp_all
  then have "idx_view C idx base (take (Suc ?j) (placed bss)) db'" using N(2) by (simp add: take_Suc_conv_app_nth)
  moreover have "sync_loop C idx fs (stream_pos root (layouts bss) i k) db = sync_loop C idx fs (stream_pos root (layouts bss) i (Suc k)) db'"
    using stream_next_within [OF chain_files_hold [OF ch(1)], of i k] ik b(1) md I(1) placed_idx_info_frame [OF ik md, of C]
    by (subst sync_loop.simps) (simp add: extractSerializedBlockInfo_layout block_ok_def stored_block_def frame_fits_def indexed_def)
  ultimately show ?thesis using I DBHandle_Get_indexed_info [OF I(1)] by auto
qed

lemma sync_loop_chain:
  assumes ch: "chain_files root bss [] fs" "chain_ok C base h0 bss" and C: "codec_laws C"
    and a: "isAttributeIndexed idx IndexableAttrBlockNum"
  shows "i < length bss \<Longrightarrow> k \<le> length (bss ! i) \<Longrightarrow> db_faults db = [] \<Longrightarrow>
     idx_view C idx base (take (file_start bss i + k) (placed bss)) db \<Longrightarrow>
     \<exists>db'. sync_loop C idx fs (stream_pos root (layouts bss) i k) db = (Ok (), db') \<and>
       db_faults db' = [] \<and> idx_view C idx base (placed bss) db' \<and>
       DBHandle_Get (idx_db idx) blkMgrInfoKey db' = DBHandle_Get (idx_db idx) blkMgrInfoKey db"
proof (induction "length (concat bss) - (file_start bss i + k) + (length bss - i)" arbitrary: i k db rule: less_induct)
  case less
  show ?case
  proof (cases "k < length (bss ! i)")
    case True
    obtain db1 where s: "sync_loop C idx fs (stream_pos root (layouts bss) i k) db = sync_loop C idx fs (stream_pos root (layouts bss) i (Suc k)) db1"
      and 1: "db_faults db1 = []" "idx_view C idx base (take (file_start bss i + Suc k) (placed bss)) db1"
        "DBHandle_Get (idx_db idx) blkMgrInfoKey db1 = DBHandle_Get (idx_db idx) blkMgrInfoKey db"
      using sync_loop_step [OF ch less.prems(1) True less.prems(3) a C less.prems(4)] by blast
    have "file_start bss i + k < length (concat bss)" using nth_concat_file(2) [OF less.prems(1) True] .
    then have "length (concat bss) - (file_start bss i + Suc k) + (length bss - i) < length (concat bss) - (file_start bss i + k) + (length bss - i)"
      by linarith
    from less.hyps [OF this less.prems(1) _ 1(1,2)] True show ?thesis unfolding s 1(3) by simp
  next
    case False
    then have k: "k = length (bss ! i)" using less.prems(2) by simp
    have next_file: "nextBlockBytesAndPlacementInfo (stream_pos root (layouts bss) i k) fs =
        (if Suc i < length bss then nextBlockBytesAndPlacementInfo (stream_pos root (layouts bss) (Suc i) 0) fs
         else Ok (None, stream_pos root (layouts bss) i k))"
      using stream_next_exhausted [OF chain_files_hold [OF ch(1)], of i k] less.prems(1) k by simp
    have sum: "file_start bss i + k = file_start bss (Suc i)" using file_start_Suc [OF less.prems(1)] k by simp
    show ?thesis
    proof (cases "Suc i < length bss")
      case True
      then have "sync_loop C idx fs (stream_pos root (layouts bss) i k) db = sync_loop C idx fs (stream_pos root (layouts bss) (Suc i) 0) db"
        using next_file by (subst (1 2) sync_loop.simps) simp
      moreover have "length (concat bss) - (file_start bss (Suc i) + 0) + (length bss - Suc i) < length (concat bss) - (file_start bss i + k) + (length bss - i)"
        using True sum by simp
      ultimately show ?thesis using less.hyps [of "Suc i" 0 db] True less.prems(3,4) sum by simp
    next
      case False
      then have "Suc i = length bss" using less.prems(1) by simp
      then have "idx_view C idx base (placed bss) db" using less.prems(4) sum by simp
      moreover have "sync_loop C idx fs (stream_pos root (layouts bss) i k) db = (Ok (), db)"
        using next_file False by (subst sync_loop.simps) simp
      ultimately show ?thesis using less.prems(3) by blast
    qed
  qed
qed


lemma chain_position:
  "j < length (concat bss) \<Longrightarrow> \<exists>i k. i < length bss \<and> k < length (bss ! i) \<and> j = file_start bss i + k"
proof (induction bss rule: rev_induct)
  case (snoc bs bss)
  show ?case
  proof (cases "j < length (concat bss)")
    case True
    then obtain i k where "i < length bss" "k < length (bss ! i)" "j = file_start bss i + k" using snoc.IH by blast
    then show ?thesis by (intro exI [of _ i] exI [of _ k]) (simp add: nth_append file_start_def)
  next
    case False
    then show ?thesis
      using snoc.prems by (intro exI [of _ "length bss"] exI [of _ "j - length (concat bss)"]) (auto simp: file_start_def)
  qed
qed simp

lemma newBlockStream_pos:
  assumes "chain_files root bss [] fs" "i < length bss"
  shows "newBlockStream root (int i) (int (length (file_bytes (take k (bss ! i))))) e fs = Ok ((stream_pos root (layouts bss) i k)\<lparr>bs_endFileNum := e\<rparr>)"
proof -
  have "os_read fs (deriveBlockfilePath root (int i)) \<noteq> None" using assms by (simp add: chain_files_def)
  then have "newBlockfileStream root (int i) (int (length (file_bytes (take k (bss ! i))))) fs =
      Ok (stream_at (deriveBlockfilePath root (int i)) (int i) (length (file_bytes (take k (bss ! i)))))"
    by (simp add: newBlockfileStream_Ok stream_at_def)
  then show ?thesis using assms(2) by (simp add: newBlockStream_def stream_pos_def file_bytes_def take_map)
qed

lemma stream_pos_layouts [simp]:
  "(stream_pos root (layouts bss) i k)\<lparr>bs_endFileNum := int (length bss) - 1\<rparr> = stream_pos root (layouts bss) i k"
  using stream_pos_end [where bss = "layouts bss"] by simp

lemma last_number_chain:
  assumes "numbered base (concat bss)" "concat bss \<noteq> []"
  shows "last_number bss = num64 (base + length (concat bss) - 1)"
proof -
  have l: "0 < length (concat bss)" using assms(2) by (simp only: length_greater_0_conv not_False_eq_True)
  then have "Number (BHeader (concat bss ! (length (concat bss) - 1))) = num64 (base + (length (concat bss) - 1))"
    using assms(1) unfolding numbered_def num64_def by (metis diff_less zero_less_one)
  moreover have "base + (length (concat bss) - 1) = base + length (concat bss) - 1" using l by linarith
  ultimately show ?thesis unfolding last_number_def last_conv_nth [OF assms(2)] using assms(2) by (simp only: if_False)
qed

text \<open>What a manager knows of the files when it brings its index up to date.\<close>

definition mgr_files :: "nat \<Rightarrow> Block list list \<Rightarrow> blockfileMgr \<Rightarrow> bool" where
  "mgr_files base bss mgr \<longleftrightarrow> info_ok bss (bm_blockfilesInfo mgr) \<and> (noBlockFiles (bm_blockfilesInfo mgr) \<longleftrightarrow> concat bss = []) \<and>
     isAttributeIndexed (bm_index mgr) IndexableAttrBlockNum \<and> firstPossibleBlockNumberInBlockFiles mgr = num64 base \<and>
     (concat bss \<noteq> [] \<longrightarrow> bss ! 0 \<noteq> [])"

lemma sync_from_chain:
  assumes ch: "chain_files (bm_rootDir mgr) bss [] fs" "chain_ok C base h0 bss" and C: "codec_laws C" and m: "mgr_files base bss mgr"
    and v: "idx_view C (bm_index mgr) base (take n (placed bss)) db" "n < length (concat bss)" and f: "db_faults db = []"
    and l: "n > 0 \<Longrightarrow> ln = num64 (base + (n - 1))"
  shows "\<exists>db'. sync_from C mgr ln (num64 (base + n)) fs db = (Ok (), db') \<and> db_faults db' = [] \<and>
     idx_view C (bm_index mgr) base (placed bss) db' \<and>
     DBHandle_Get (idx_db (bm_index mgr)) blkMgrInfoKey db' = DBHandle_Get (idx_db (bm_index mgr)) blkMgrInfoKey db"
proof -
  let ?root = "bm_rootDir mgr" and ?idx = "bm_index mgr"
  have ne: "concat bss \<noteq> []" using v(2) by (cases "concat bss") auto
  have b0: "bss ! 0 \<noteq> []" "0 < length bss" using m ne ch(2) by (auto simp: mgr_files_def chain_ok_def)
  have first: "retrieveFirstBlockNumFromFile C ?root 0 fs = Ok (num64 base)"
    using retrieveFirstBlockNum_chain [OF ch(1) _ b0(2,1), of base C] ch(2) by (simp add: chain_ok_def num64_def)
  have gt: "num64 (base + n) > num64 base \<longleftrightarrow> n > 0" using ch(2) v(2) by (simp add: chain_ok_def num64_less)
  have a: "isAttributeIndexed ?idx IndexableAttrBlockNum" and e: "latestFileNumber (bm_blockfilesInfo mgr) = int (length (layouts bss)) - 1"
    using m by (simp_all add: mgr_files_def info_ok_def)
  note loop = sync_loop_chain [OF ch C a]
  show ?thesis
  proof (cases n)
    case 0
    then show ?thesis
      using loop [of 0 0 db] v(1) f first gt newBlockStream_pos [OF ch(1) b0(2), of 0] b0(2)
      by (simp add: sync_from_def e)
  next
    case (Suc j)
    obtain i k where ik: "i < length bss" "k < length (bss ! i)" "j = file_start bss i + k"
      using chain_position [of j bss] v(2) Suc by auto
    have "getBlockLocByBlockNum ?idx ln db = Ok (p_loc (placed bss ! j))"
      using idx_view_block [OF v(1), of j] l v(2) by (simp add: Suc)
    moreover have "placed bss ! j = (bss ! i ! k, i, length (file_bytes (take k (bss ! i))))" using nth_placed ik by simp
    moreover have "nextBlockBytesAndPlacementInfo (stream_pos ?root (layouts bss) i k) fs =
        Ok (Some (layouts bss ! i ! k, frame_place (layouts bss) i k), stream_pos ?root (layouts bss) i (Suc k))"
      using stream_next_within [OF chain_files_hold [OF ch(1)], of i k] ik by simp
    ultimately show ?thesis
      using loop [of i "Suc k" db] v(1) f first gt newBlockStream_pos [OF ch(1) ik(1), of k] ik Suc
      by (simp add: sync_from_def e p_loc_def)
  qed
qed


lemma syncIndex_chain:
  assumes ch: "chain_files (bm_rootDir mgr) bss [] fs" "chain_ok C base h0 bss" and C: "codec_laws C" and m: "mgr_files base bss mgr"
    and v: "idx_view C (bm_index mgr) base (take n (placed bss)) db" "n \<le> length (concat bss)" and f: "db_faults db = []"
  shows "\<exists>db'. syncIndex C mgr fs db = (Ok (), db') \<and> db_faults db' = [] \<and> idx_view C (bm_index mgr) base (placed bss) db' \<and>
     DBHandle_Get (idx_db (bm_index mgr)) blkMgrInfoKey db' = DBHandle_Get (idx_db (bm_index mgr)) blkMgrInfoKey db"
proof -
  let ?idx = "bm_index mgr" and ?len = "length (concat bss)"
  have bound: "base + ?len < 2 ^ 64 - 1" using ch(2) by (simp add: chain_ok_def)
  have num: "numbered base (concat bss)" using ch(2) by (simp add: chain_ok_def)
  define ln where "ln = (if base + n = 0 then 0 else num64 (base + n - 1))"
  have lt: "length (take n (placed bss)) = n" using v(2) by simp
  have "(case getLastBlockIndexed ?idx db of
      Ok lastBlockIndexed \<Rightarrow> Ok (lastBlockIndexed, lastBlockIndexed + 1)
    | Err e \<Rightarrow> if e = ErrIndexSavePointKeyNotPresent then Ok (0, 0) else Err e
    | Panic p \<Rightarrow> Panic p) = Ok (ln, num64 (base + n))"
  proof (cases "base + n")
    case 0
    then have "getLastBlockIndexed ?idx db = Err ErrIndexSavePointKeyNotPresent" using v(1) unfolding idx_view_def lt by simp
    then show ?thesis using 0 by (simp add: ln_def num64_def)
  next
    case (Suc q)
    then have "getLastBlockIndexed ?idx db = Ok (num64 q)" using v(1) unfolding idx_view_def lt by simp
    then show ?thesis unfolding ln_def Suc by (simp add: num64_Suc)
  qed
  moreover have "num64 (base + n) = 0 \<longleftrightarrow> base + n = 0"
    using num64_inject [of "base + n" 0] bound v(2) by (simp add: num64_def)
  moreover have "base = 0 \<Longrightarrow> \<not> bootstrappedFromSnapshot mgr" using m by (simp add: bootstrappedFromSnapshot_def mgr_files_def num64_def)
  ultimately have step: "syncIndex C mgr fs db =
      (if concat bss = [] then io_return ()
       else if num64 (base + n) = lastPersistedBlock (bm_blockfilesInfo mgr) + 1 then io_return ()
       else sync_from C mgr ln (num64 (base + n)) fs) db"
    using m by (auto simp: syncIndex_def mgr_files_def)
  show ?thesis
  proof (cases "n < ?len")
    case True
    then have ne: "concat bss \<noteq> []" by (cases "concat bss") auto
    have "last_number bss + 1 = num64 (Suc (base + ?len - 1))"
      using last_number_chain [OF num ne] by (simp only: num64_Suc)
    also have "\<dots> = num64 (base + ?len)" using True by (intro arg_cong [of _ _ num64]) linarith
    finally have "num64 (base + n) \<noteq> lastPersistedBlock (bm_blockfilesInfo mgr) + 1"
      using m num64_inject [of "base + n" "base + ?len"] True bound by (simp add: mgr_files_def info_ok_def)
    moreover have "n > 0 \<Longrightarrow> ln = num64 (base + (n - 1))" by (simp add: ln_def)
    ultimately show ?thesis
      unfolding step using sync_from_chain [OF ch C m v(1) True f] ne by (simp del: concat_eq_Nil_conv)
  next
    case False
    then have n: "n = ?len" using v(2) by simp
    have "num64 (base + n) = lastPersistedBlock (bm_blockfilesInfo mgr) + 1" if ne: "concat bss \<noteq> []"
    proof -
      have "0 < ?len" using ne by (simp only: length_greater_0_conv not_False_eq_True)
      then have "base + n = Suc (base + ?len - 1)" using n by linarith
      then show ?thesis
        using m last_number_chain [OF num ne] by (simp add: mgr_files_def info_ok_def num64_Suc)
    qed
    then show ?thesis unfolding step using v(1) f n by auto
  qed
qed


section \<open>The summary of the files\<close>

text \<open>Only the last file may be without blocks.\<close>

definition no_gaps :: "Block list list \<Rightarrow> bool" where
  "no_gaps bss = (\<forall>i. Suc i < length bss \<longrightarrow> bss ! i \<noteq> [])"

lemma no_gaps_empty: "no_gaps bss \<Longrightarrow> bss \<noteq> [] \<Longrightarrow> concat bss = [] \<longleftrightarrow> bss = [[]]"
proof
  assume g: "no_gaps bss" "bss \<noteq> []" and c: "concat bss = []"
  then have all: "i < length bss \<Longrightarrow> bss ! i = []" for i by simp
  have "\<not> Suc 0 < length bss" using g(1) all [of 0] unfolding no_gaps_def by fastforce
  then have "length bss = 1" using g(2) by (cases bss) auto
  then show "bss = [[]]" using all [of 0] by (cases bss) auto
qed simp

text \<open>A summary in the database that misses the blocks \<open>suf\<close> at the end of the last file.\<close>

definition stale :: "Block list list \<Rightarrow> blockfilesInfo \<Rightarrow> bool" where
  "stale bss i \<longleftrightarrow> (\<exists>front pre suf. bss = front @ [pre @ suf] \<and> info_ok (front @ [pre]) i \<and>
     (noBlockFiles i \<longleftrightarrow> concat (front @ [pre]) = []))"

definition summary :: "Block list list \<Rightarrow> blockfilesInfo \<Rightarrow> bool" where
  "summary bss i \<longleftrightarrow> info_ok bss i \<and> (noBlockFiles i \<longleftrightarrow> concat bss = [])"

lemma numbered_prefix: "numbered base (xs @ ys) \<Longrightarrow> numbered base xs"
  unfolding numbered_def by (metis (no_types) add_leD1 add.assoc length_append nth_append trans_less_add1)

lemma summary_advance:
  assumes i: "info_ok (front @ [pre]) i" "noBlockFiles i \<longleftrightarrow> concat (front @ [pre]) = []"
    and n: "numbered 0 (concat (front @ [pre @ suf]))" and suf: "suf \<noteq> []"
  shows "summary (front @ [pre @ suf]) \<lparr>latestFileNumber = latestFileNumber i, latestFileSize = int (length (file_bytes (pre @ suf))),
     noBlockFiles = False, lastPersistedBlock =
       (if noBlockFiles i then word_of_nat (length suf - 1) else lastPersistedBlock i + word_of_nat (length suf))\<rparr>"
proof -
  let ?old = "concat front @ pre"
  have ne: "concat (front @ [pre @ suf]) \<noteq> []" and l: "0 < length suf" using suf by auto
  have new: "last_number (front @ [pre @ suf]) = num64 (length ?old + length suf - 1)"
    using last_number_chain [OF n ne] by (simp add: add.assoc)
  have "(if noBlockFiles i then word_of_nat (length suf - 1) else lastPersistedBlock i + word_of_nat (length suf)) =
      num64 (length ?old + length suf - 1)"
  proof (cases "?old = []")
    case True
    then have "noBlockFiles i" using i(2) by simp
    then show ?thesis unfolding True by (simp add: num64_def)
  next
    case False
    then have lo: "0 < length ?old" by (simp only: length_greater_0_conv not_False_eq_True)
    have "numbered 0 (concat (front @ [pre]))" using numbered_prefix [of 0 ?old suf] n by simp
    then have "lastPersistedBlock i = num64 (length ?old - 1)"
      using last_number_chain [of 0 "front @ [pre]"] False i(1) by (simp add: info_ok_def)
    moreover have "length ?old + length suf - 1 = (length ?old - 1) + length suf" using lo by linarith
    moreover have "\<not> noBlockFiles i" using False i(2) by simp
    ultimately show ?thesis by (simp only: if_False num64_def of_nat_add)
  qed
  then show ?thesis using i(1) ne new by (simp add: summary_def info_ok_def)
qed

lemma syncBlockfilesInfo_chain:
  assumes ch: "chain_files root bss t fs" and n: "numbered 0 (concat bss)" and i: "stale bss i"
    and d: "\<not> os_is_dir fs (deriveBlockfilePath root (latestFileNumber i))"
  shows "\<exists>i'. syncBlockfilesInfoFromFS root i fs = Ok i' \<and> summary bss i'"
proof -
  obtain front pre suf where bss: "bss = front @ [pre @ suf]" and i: "info_ok (front @ [pre]) i"
    "noBlockFiles i \<longleftrightarrow> concat (front @ [pre]) = []" using i unfolding stale_def by blast
  let ?path = "deriveBlockfilePath root (int (length front))"
  have num: "latestFileNumber i = int (length front)" and size: "latestFileSize i = int (length (file_bytes pre))"
    using i(1) by (simp_all add: info_ok_def)
  have r: "os_read fs ?path = Some (file_bytes pre @ frames (map block_layout suf) @ t)" and t: "torn_frame t"
    using ch by (simp_all add: chain_files_def bss nth_append file_bytes_def)
  have st: "\<forall>b \<in> set (map block_layout suf). frame_fits b" using ch by (auto simp: chain_files_def bss stored_block_def)
  have scan: "scanForLastCompleteBlock root (latestFileNumber i) (latestFileSize i) fs =
      Ok (if suf = [] then None else Some (block_layout (last suf)), int (length (file_bytes (pre @ suf))), length suf)"
    using scanForLastCompleteBlock_frames [OF r t st] by (simp add: num size file_bytes_def last_map)
  show ?thesis
  proof (cases "suf = []")
    case True
    have "i\<lparr>latestFileSize := int (length (file_bytes pre))\<rparr> = i" using size by (cases i) simp
    moreover have "summary bss i" using i True unfolding summary_def bss by simp
    moreover have "syncBlockfilesInfoFromFS root i fs = Ok i \<or>
        syncBlockfilesInfoFromFS root i fs = Ok (i\<lparr>latestFileSize := int (length (file_bytes pre))\<rparr>)"
      using d r scan size True by (simp add: syncBlockfilesInfoFromFS_def FileExists_def num)
    ultimately show ?thesis by metis
  next
    case False
    then obtain b suf' where "suf = b # suf'" by (cases suf) auto
    then have "frames (map block_layout suf) \<noteq> []" by (auto simp: raw_frame)
    then show ?thesis
      using d r scan size False summary_advance [OF i n [unfolded bss] False]
      by (simp add: syncBlockfilesInfoFromFS_def FileExists_def num bss)
  qed
qed


section \<open>Opening the files\<close>

text \<open>A directory below an existing or creatable one can be created.\<close>

definition creatable :: "string \<Rightarrow> os \<Rightarrow> bool" where
  "creatable path fs = list_all (\<lambda>q. os_read fs q = None) (path_prefixes path @ [path])"

lemma path_Dir_Join: "CHR ''/'' \<notin> set n \<Longrightarrow> x \<noteq> '''' \<Longrightarrow> path_Dir (path_Join x n) = x"
proof -
  assume n: "CHR ''/'' \<notin> set n" and x: "x \<noteq> ''''"
  have "dropWhile (\<lambda>c. c \<noteq> CHR ''/'') (rev (path_Join x n)) = CHR ''/'' # rev x"
    using n by (auto simp: path_Join_def dropWhile_append)
  then show ?thesis using x by (simp add: path_Dir_def Let_def)
qed

lemma prefix_Join:
  assumes "x \<noteq> ''''"
  shows "x \<in> set (path_prefixes (path_Join x n))"
proof -
  let ?p = "path_Join x n"
  have "set (path_prefixes p) = {take i p |i. 1 \<le> i \<and> i < length p \<and> p ! i = CHR ''/''}" for p
    by (auto simp: path_prefixes_def Suc_le_eq)
  moreover have "1 \<le> length x" "length x < length ?p" "?p ! length x = CHR ''/''" "take (length x) ?p = x"
    using assms by (simp_all add: path_Join_def nth_append Suc_le_eq)
  ultimately have "\<exists>i. x = take i ?p \<and> 1 \<le> i \<and> i < length ?p \<and> ?p ! i = CHR ''/''" "set (path_prefixes ?p) = {take i ?p |i. 1 \<le> i \<and> i < length ?p \<and> ?p ! i = CHR ''/''}"
    by (auto intro!: exI [of _ "length x"])
  then show ?thesis by blast
qed

lemma set_fold_insert: "set (fold List.insert xs ds) = set xs \<union> set ds"
  by (induction xs arbitrary: ds) auto

lemma CreateDirIfMissing_ok:
  assumes c: "creatable (path_Join x n) fs" and n: "CHR ''/'' \<notin> set n" and x: "x \<noteq> ''''"
  shows "\<exists>e fs'. CreateDirIfMissing (path_Join x n) fs = (Ok e, fs') \<and> files fs' = files fs \<and> faults fs' = faults fs \<and>
     os_is_dir fs' (path_Join x n) \<and> set (dirs fs') = set (path_prefixes (path_Join x n) @ [path_Join x n]) \<union> set (dirs fs)"
proof -
  let ?fs = "fs\<lparr>dirs := fold List.insert (path_prefixes (path_Join x n) @ [path_Join x n]) (dirs fs)\<rparr>"
  have d: "set (dirs ?fs) = set (path_prefixes (path_Join x n) @ [path_Join x n]) \<union> set (dirs fs)"
    using set_fold_insert [of "path_prefixes (path_Join x n) @ [path_Join x n]" "dirs fs"] by simp
  have m: "os_MkdirAll (path_Join x n) fs = (Ok (), ?fs)" using c by (simp add: os_MkdirAll_def creatable_def)
  have "os_is_dir ?fs x" "os_is_dir ?fs (path_Join x n)" using prefix_Join [OF x, of n] d by (auto simp: os_is_dir_def)
  then have "SyncParentDir (path_Join x n) ?fs = Ok ()" "\<exists>e. DirEmpty (path_Join x n) ?fs = Ok e"
    using path_Dir_Join [OF n x] by (auto simp: SyncParentDir_def SyncDir_def DirEmpty_def os_ReadDir_def)
  then show ?thesis using m d \<open>os_is_dir ?fs (path_Join x n)\<close> by (auto simp: CreateDirIfMissing_def)
qed

text \<open>The files of a chain, or the empty place where a chain will be.\<close>

definition files_of :: "string \<Rightarrow> Block list list \<Rightarrow> bytes \<Rightarrow> os \<Rightarrow> bool" where
  "files_of root bss t fs \<longleftrightarrow> chain_files root bss t fs \<or> bss = [[]] \<and> t = [] \<and> block_file_names root 0 fs"

lemma open_files:
  assumes f: "files_of root bss t fs" "faults fs = []" "bss \<noteq> []" and i: "info_ok bss i"
  shows "\<exists>fs1 fs2. newBlockfileWriter (deriveBlockfilePath root (latestFileNumber i)) fs =
      (Ok \<lparr>filePath = deriveBlockfilePath root (latestFileNumber i)\<rparr>, fs1) \<and>
     truncateFile \<lparr>filePath = deriveBlockfilePath root (latestFileNumber i)\<rparr> (nat (latestFileSize i)) fs1 = (Ok (), fs2) \<and>
     chain_files root bss [] fs2 \<and> faults fs2 = [] \<and>
     (\<forall>q. q \<noteq> deriveBlockfilePath root (latestFileNumber i) \<longrightarrow> os_read fs2 q = os_read fs q)"
proof -
  obtain front bs where bss: "bss = front @ [bs]" using f(3) by (metis append_butlast_last_id)
  let ?path = "deriveBlockfilePath root (int (length front))"
  have num: "latestFileNumber i = int (length front)" "nat (latestFileSize i) = length (file_bytes bs)" using i by (simp_all add: info_ok_def bss)
  obtain fs1 where 1: "newBlockfileWriter ?path fs = (Ok \<lparr>filePath = ?path\<rparr>, fs1)" "chain_files root bss t fs1" "faults fs1 = []"
    "\<And>q. q \<noteq> ?path \<Longrightarrow> os_read fs1 q = os_read fs q"
  proof (cases "chain_files root bss t fs")
    case True
    then have "os_read fs ?path \<noteq> None" by (simp add: chain_files_def bss)
    then show ?thesis using True f(2) by (intro that [of fs]) (auto simp: newBlockfileWriter_def os_create_def)
  next
    case False
    then have b: "front = []" "bs = []" "t = []" "block_file_names root 0 fs" using f(1) by (auto simp: files_of_def bss)
    then have "chain_files root [] [] fs" by (simp add: chain_files_def)
    then have "chain_files root ([] @ [[]]) [] (os_write ?path [] fs)" by (rule chain_files_add) (simp_all add: os_read_write b(1))
    moreover have "os_read fs ?path = None" using block_file_names_read [OF b(4), of 0] b(1) by simp
    ultimately show ?thesis
      using f(2) newBlockfileWriter_new [of fs ?path] by (intro that [of "os_write ?path [] fs"]) (auto simp: bss b os_read_write)
  qed
  have r: "os_read fs1 ?path = Some (file_bytes bs @ t)" using 1(2) by (simp add: chain_files_def bss nth_append)
  obtain fs2 where 2: "truncateFile \<lparr>filePath = ?path\<rparr> (length (file_bytes bs)) fs1 = (Ok (), fs2)" "faults fs2 = []"
    "dirs fs2 = dirs fs1" "\<forall>q. os_read fs2 q = (if q = ?path then Some (file_bytes bs) else os_read fs1 q)"
    using truncateFile_restores [OF 1(3), of "\<lparr>filePath = ?path\<rparr>" "file_bytes bs" t] r by (auto simp: os_content_def)
  have "chain_files root (front @ [bs]) [] fs2"
    using 2 1(2) by (intro chain_files_update [OF 1(2) [unfolded bss]]) (auto simp: chain_files_def bss)
  then show ?thesis using 1 2 by (auto simp: num bss)
qed


section \<open>Starting a manager\<close>

lemma header_at_chain:
  assumes ch: "chain_files (bm_rootDir mgr) bss [] fs" "chain_ok C base h0 bss" and v: "idx_view C (bm_index mgr) base (placed bss) db"
    and m: "firstPossibleBlockNumberInBlockFiles mgr = num64 base" and j: "j < length (concat bss)"
  shows "header_at C mgr (num64 (base + j)) fs db = Ok (BHeader (concat bss ! j))"
proof -
  have p: "placed bss ! j \<in> set (placed bss)" using j by simp
  have st: "stored_block (concat bss ! j)" using ch(2) nth_mem [OF j] unfolding chain_ok_def block_ok_def by blast
  have "\<not> num64 (base + j) < num64 base" using ch(2) j by (simp add: chain_ok_def num64_less)
  then show ?thesis
    using idx_view_block [OF v, of j] fetchBlockBytes_placed [OF ch(1) p] stored_block_codec(2) [OF st, of C] j
    by (auto simp: header_at_def m)
qed

lemma summary_found:
  assumes f: "files_of root bss t fs" "\<And>i. \<not> os_is_dir fs (deriveBlockfilePath root i)"
    and n: "numbered 0 (concat bss)" "no_gaps bss" "bss \<noteq> []"
    and l: "case loaded of None \<Rightarrow> True | Some i \<Rightarrow> stale bss i"
  shows "\<exists>i. (case loaded of
      None \<Rightarrow> panic_on_err msg (constructBlockfilesInfo C root fs)
    | Some i \<Rightarrow> syncBlockfilesInfoFromFS root i fs) = Ok i \<and> summary bss i"
proof (cases loaded)
  case None
  show ?thesis
  proof (cases "chain_files root bss t fs")
    case True
    have gap: "bss ! (length bss - 2) \<noteq> []" if "length bss \<ge> 2"
      using n(2) that by (simp add: no_gaps_def)
    have "concat bss = [] \<longleftrightarrow> length bss = 1 \<and> last bss = []"
      unfolding no_gaps_empty [OF n(2,3)] using n(3) by (cases bss rule: rev_cases) auto
    then show ?thesis
      using constructBlockfilesInfo_chain [OF True n(3), of C] gap None by (simp add: summary_def info_ok_def)
  next
    case False
    then have "bss = [[]]" "block_file_names root 0 fs" using f(1) by (auto simp: files_of_def)
    then show ?thesis
      using constructBlockfilesInfo_no_files [of root fs C] None by (simp add: summary_def info_ok_def last_number_def)
  qed
next
  case (Some i)
  show ?thesis
  proof (cases "chain_files root bss t fs")
    case True
    then show ?thesis using syncBlockfilesInfo_chain [OF True n(1) _ f(2)] l Some by simp
  next
    case False
    then have bss: "bss = [[]]" "block_file_names root 0 fs" using f(1) by (auto simp: files_of_def)
    obtain front pre suf where s: "bss = front @ [pre @ suf]" "info_ok (front @ [pre]) i" "noBlockFiles i \<longleftrightarrow> concat (front @ [pre]) = []"
      using l unfolding stale_def Some option.case by blast
    have "front = []" "pre = []" "suf = []" using s(1) bss(1) by (cases front; simp)+
    then have "summary bss i" "latestFileNumber i = 0" using s by (simp_all add: summary_def info_ok_def)
    moreover have "os_read fs (deriveBlockfilePath root 0) = None" using block_file_names_read [OF bss(2), of 0] by simp
    ultimately show ?thesis
      using Some f(2) [of 0] by (simp add: syncBlockfilesInfoFromFS_def FileExists_def)
  qed
qed

lemma chain_ok_size:
  assumes "chain_ok C base h0 bss"
  shows "int (length (file_bytes (last bss))) < 2 ^ 63"
proof (cases "last bss" rule: rev_cases)
  case (snoc bs b)
  have ne: "bss \<noteq> []" using assms by (simp add: chain_ok_def)
  then have l: "last bss = bss ! (length bss - 1)" by (rule last_conv_nth)
  have "(b, length bss - 1, length (file_bytes bs)) \<in> set (placed bss)"
    unfolding in_set_placed using ne snoc l by (intro exI [of _ "length bs"]) simp
  then have "place_ok (b, length bss - 1, length (file_bytes bs))" using assms by (simp add: chain_ok_def)
  then show ?thesis by (simp add: place_ok_def snoc)
qed simp


text \<open>
  What a machine may hold when a manager starts: the blocks \<open>bss\<close> in the files, the torn frame \<open>t\<close> after
  them, a summary that is missing or behind in the last file, and an index of the first \<open>n\<close> blocks.
\<close>

definition disk :: "codec \<Rightarrow> string \<Rightarrow> blockIndex \<Rightarrow> Block list list \<Rightarrow> bytes \<Rightarrow> nat \<Rightarrow> machine \<Rightarrow> bool" where
  "disk C root idx bss t n mm \<longleftrightarrow>
     chain_ok C 0 [] bss \<and> no_gaps bss \<and> files_of root bss t ((m_os mm)\<lparr>dirs := root # dirs (m_os mm)\<rparr>) \<and>
     (\<forall>i. \<not> os_is_dir (m_os mm) (deriveBlockfilePath root i)) \<and>
     os_read (m_os mm) (path_Join root bootstrappingSnapshotInfoFile) = None \<and>
     (\<exists>loaded. loadBlkfilesInfo (idx_db idx) (m_db mm) = Ok loaded \<and> (case loaded of None \<Rightarrow> True | Some i \<Rightarrow> stale bss i)) \<and>
     n \<le> length (concat bss) \<and> idx_view C idx 0 (take n (placed bss)) (m_db mm) \<and>
     faults (m_os mm) = [] \<and> db_faults (m_db mm) = []"

lemma files_of_cong:
  assumes "files_of root bss t (fs\<lparr>dirs := root # dirs fs\<rparr>)" "files fs' = files fs" "os_is_dir fs' root"
  shows "files_of root bss t fs'"
  using assms by (simp add: files_of_def chain_files_def block_file_names_def os_read_def os_is_dir_def)

lemma prefixes_no_block_file:
  "q \<in> set (path_prefixes root @ [root]) \<Longrightarrow> q \<noteq> deriveBlockfilePath root i"
proof
  assume q: "q \<in> set (path_prefixes root @ [root])" "q = deriveBlockfilePath root i"
  have "length q \<le> length root" using q(1) by (auto simp: path_prefixes_def)
  then show False using q(2) by (simp add: deriveBlockfilePath_def)
qed

lemma bootstrap_file_name: "deriveBlockfilePath root i \<noteq> path_Join root bootstrappingSnapshotInfoFile"
  by (simp add: deriveBlockfilePath_def path_Join_def bootstrappingSnapshotInfoFile_def blockfilePrefix_def)

definition opened :: "machine \<Rightarrow> blockfileMgr \<Rightarrow> store" where
  "opened mm mgr = \<lparr>m_os = m_os mm, m_db = m_db mm, m_mgr = mgr\<rparr>"

lemma initial_bcInfo_chain:
  assumes ch: "chain_files (bm_rootDir mgr) bss [] fs" "chain_ok C 0 [] bss" and v: "idx_view C (bm_index mgr) 0 (placed bss) db"
    and m: "bm_bootstrappingSnapshotInfo mgr = None" "summary bss (bm_blockfilesInfo mgr)"
  shows "\<exists>i. initial_bcInfo C mgr fs db = Ok i \<and> Height i = num64 (length (concat bss)) \<and> CurrentBlockHash i = prev_hash [] (concat bss)"
proof (cases "concat bss = []")
  case True
  then have "noBlockFiles (bm_blockfilesInfo mgr)" using m(2) by (simp add: summary_def)
  then show ?thesis using m(1) unfolding True by (simp add: initial_bcInfo_def prev_hash_def num64_def)
next
  case False
  let ?j = "length (concat bss) - 1"
  have l: "0 < length (concat bss)" using False by (simp only: length_greater_0_conv not_False_eq_True)
  have f0: "firstPossibleBlockNumberInBlockFiles mgr = num64 0" using m(1) by (simp add: firstPossibleBlockNumberInBlockFiles_def num64_def)
  have "numbered 0 (concat bss)" using ch(2) by (simp add: chain_ok_def)
  then have n: "lastPersistedBlock (bm_blockfilesInfo mgr) = num64 (0 + ?j)"
    using last_number_chain [OF _ False, of 0] m(2) by (simp add: summary_def info_ok_def)
  have "header_at C mgr (num64 (0 + ?j)) fs db = Ok (BHeader (last (concat bss)))"
    using header_at_chain [OF ch v f0, of ?j] l False by (simp add: last_conv_nth)
  moreover have "num64 (0 + ?j) + 1 = num64 (length (concat bss))" using l by (simp flip: num64_Suc del: concat_eq_Nil_conv)
  moreover have "\<not> noBlockFiles (bm_blockfilesInfo mgr)" using m(2) False by (simp add: summary_def)
  ultimately show ?thesis using False m(1) n by (simp add: initial_bcInfo_def prev_hash_def Let_def del: concat_eq_Nil_conv)
qed


text \<open>The manager before its index is synchronised.\<close>

definition initial_mgr :: "string \<Rightarrow> Conf \<Rightarrow> blockIndex \<Rightarrow> blockfilesInfo \<Rightarrow> blockfileMgr" where
  "initial_mgr root conf idx i = \<lparr>bm_rootDir = root, bm_maxBlockfileSize = maxBlockfileSize conf, bm_index = idx, bm_blockfilesInfo = i,
     bm_bootstrappingSnapshotInfo = None, bm_currentFileWriter = \<lparr>filePath = deriveBlockfilePath root (latestFileNumber i)\<rparr>,
     bm_bcInfo = \<lparr>Height = 0, CurrentBlockHash = [], PreviousBlockHash = [], LastBlockInSnapshot = None\<rparr>\<rparr>"

lemma started:
  assumes C: "codec_laws C" and ch: "chain_ok C 0 [] bss" "no_gaps bss" and d: "disk C root (newBlockIndex attrs st) bss t n mm"
    and a: "IndexableAttrBlockNum \<in> set attrs" and i: "summary bss i"
    and db1: "saveBlkfilesInfo st i True (m_db mm) = (Ok (), db1)" "db_faults db1 = []"
    and fs2: "chain_files root bss [] fs2" "faults fs2 = []"
  shows "\<exists>db2 bc. syncIndex C (initial_mgr root conf (newBlockIndex attrs st) i) fs2 db1 = (Ok (), db2) \<and> db_faults db2 = [] \<and>
     initial_bcInfo C (initial_mgr root conf (newBlockIndex attrs st) i) fs2 db2 = Ok bc \<and>
     store_inv C 0 [] bss \<lparr>m_os = fs2, m_db = db2, m_mgr = (initial_mgr root conf (newBlockIndex attrs st) i)\<lparr>bm_bcInfo := bc\<rparr>\<rparr>"
proof -
  let ?idx = "newBlockIndex attrs st"
  let ?mgr = "initial_mgr root conf ?idx i"
  have ne: "bss \<noteq> []" using ch(1) by (simp add: chain_ok_def)
  have v: "idx_view C ?idx 0 (take n (placed bss)) db1" "n \<le> length (concat bss)"
    using d idx_view_saved [of C ?idx 0 _ "m_db mm" "bfi_marshal i" True] db1(1) by (auto simp: disk_def saveBlkfilesInfo_def newBlockIndex_def)
  have "bss ! 0 \<noteq> []" if "concat bss \<noteq> []"
    using that ch(2) no_gaps_empty [OF ch(2) ne] ne by (cases bss) (auto simp: no_gaps_def nth_Cons')
  then have mf: "mgr_files 0 bss ?mgr"
    using i a by (auto simp: mgr_files_def initial_mgr_def summary_def isAttributeIndexed_def newBlockIndex_def
        firstPossibleBlockNumberInBlockFiles_def num64_def)
  obtain db2 where s: "syncIndex C ?mgr fs2 db1 = (Ok (), db2)" "db_faults db2 = []" "idx_view C ?idx 0 (placed bss) db2"
    "DBHandle_Get st blkMgrInfoKey db2 = DBHandle_Get st blkMgrInfoKey db1"
    using syncIndex_chain [of ?mgr bss fs2 C 0 "[]" n db1] fs2 ch(1) C mf v db1(2) by (auto simp: initial_mgr_def newBlockIndex_def)
  obtain bc where bc: "initial_bcInfo C ?mgr fs2 db2 = Ok bc" "Height bc = num64 (length (concat bss))" "CurrentBlockHash bc = prev_hash [] (concat bss)"
    using initial_bcInfo_chain [of ?mgr bss fs2 C db2] fs2(1) ch(1) s(3) i by (auto simp: initial_mgr_def)
  have "bfi_in_range i"
    using i fs2(1) chain_ok_size [OF ch(1)] by (simp add: bfi_in_range_def int64_range_def summary_def info_ok_def chain_files_def block_file_names_def)
  then have "loadBlkfilesInfo st db2 = Ok (Some i)"
    using s(4) DBHandle_Get_saved [OF db1(1)] by (simp add: loadBlkfilesInfo_def bfi_round_trip)
  then have "store_inv C 0 [] bss \<lparr>m_os = fs2, m_db = db2, m_mgr = ?mgr\<lparr>bm_bcInfo := bc\<rparr>\<rparr>"
    using ch(1) fs2(1) i bc s(3) mf
    by (simp add: store_inv_def Let_def initial_mgr_def summary_def info_ok_def newBlockIndex_def mgr_files_def
        firstPossibleBlockNumberInBlockFiles_def)
  then show ?thesis using s bc by blast
qed

lemma newBlockfileMgr_chain:
  assumes C: "codec_laws C" and id: "CHR ''/'' \<notin> set ledgerid" and d: "disk C (getLedgerBlockDir conf ledgerid) (newBlockIndex attrs st) bss t n mm"
    and cr: "creatable (getLedgerBlockDir conf ledgerid) (m_os mm)" and a: "IndexableAttrBlockNum \<in> set attrs"
  shows "\<exists>mgr mm'. newBlockfileMgr C ledgerid conf attrs st mm = (Ok mgr, mm') \<and> store_inv C 0 [] bss (opened mm' mgr) \<and>
     faults (m_os mm') = [] \<and> db_faults (m_db mm') = [] \<and> bm_rootDir mgr = getLedgerBlockDir conf ledgerid \<and>
     bm_index mgr = newBlockIndex attrs st \<and> bm_maxBlockfileSize mgr = maxBlockfileSize conf"
proof -
  let ?root = "getLedgerBlockDir conf ledgerid" and ?idx = "newBlockIndex attrs st"
  have ch: "chain_ok C 0 [] bss" "numbered 0 (concat bss)" "bss \<noteq> []" "no_gaps bss" using d by (auto simp: disk_def chain_ok_def)
  have x: "getChainsDir conf \<noteq> ''''" by (simp add: getChainsDir_def path_Join_def ChainsDir_def)
  obtain e fs0 where 0: "CreateDirIfMissing ?root (m_os mm) = (Ok e, fs0)" "files fs0 = files (m_os mm)" "faults fs0 = []"
    "os_is_dir fs0 ?root" "set (dirs fs0) = set (path_prefixes ?root @ [?root]) \<union> set (dirs (m_os mm))"
    using CreateDirIfMissing_ok [OF _ id x, of "m_os mm"] cr d unfolding getLedgerBlockDir_def disk_def by auto
  have f0: "files_of ?root bss t fs0" using files_of_cong [OF _ 0(2,4)] d by (auto simp: disk_def)
  have nd: "\<not> os_is_dir fs0 (deriveBlockfilePath ?root i)" for i
    using d 0(5) prefixes_no_block_file [of _ ?root i] unfolding disk_def os_is_dir_def by auto
  obtain loaded where l: "loadBlkfilesInfo st (m_db mm) = Ok loaded" "case loaded of None \<Rightarrow> True | Some i \<Rightarrow> stale bss i"
    using d by (auto simp: disk_def newBlockIndex_def)
  obtain i where i: "(case loaded of None \<Rightarrow> panic_on_err ''Could not build blockfilesInfo info from block files: %s'' (constructBlockfilesInfo C ?root fs0)
      | Some i \<Rightarrow> syncBlockfilesInfoFromFS ?root i fs0) = Ok i" "summary bss i"
    using summary_found [OF f0 nd ch(2,4,3) l(2)] by blast
  have io: "info_ok bss i" using i(2) by (simp add: summary_def)
  let ?path = "deriveBlockfilePath ?root (latestFileNumber i)"
  obtain db1 where db1: "saveBlkfilesInfo st i True (m_db mm) = (Ok (), db1)" "db_faults db1 = []"
    using d by (simp add: saveBlkfilesInfo_def disk_def)
  obtain fs1 fs2 where 2: "newBlockfileWriter ?path fs0 = (Ok \<lparr>filePath = ?path\<rparr>, fs1)"
    "truncateFile \<lparr>filePath = ?path\<rparr> (nat (latestFileSize i)) fs1 = (Ok (), fs2)" "chain_files ?root bss [] fs2" "faults fs2 = []"
    "\<forall>q. q \<noteq> ?path \<longrightarrow> os_read fs2 q = os_read fs0 q"
    using open_files [OF f0 0(3) ch(3) io] by blast
  have bsi: "loadBootstrappingSnapshotInfo C ?root fs2 = Ok None"
    using 2(5) bootstrap_file_name [of ?root "latestFileNumber i"] d 0(2)
    by (auto simp: loadBootstrappingSnapshotInfo_def disk_def os_read_def)
  obtain db2 bc where 3: "syncIndex C (initial_mgr ?root conf ?idx i) fs2 db1 = (Ok (), db2)" "db_faults db2 = []"
    "initial_bcInfo C (initial_mgr ?root conf ?idx i) fs2 db2 = Ok bc"
    "store_inv C 0 [] bss \<lparr>m_os = fs2, m_db = db2, m_mgr = (initial_mgr ?root conf ?idx i)\<lparr>bm_bcInfo := bc\<rparr>\<rparr>"
    using started [OF C ch(1,4) d a i(2) db1 2(3,4), of conf] by blast
  have "newBlockfileMgr C ledgerid conf attrs st mm =
      (Ok ((initial_mgr ?root conf ?idx i)\<lparr>bm_bcInfo := bc\<rparr>), mm\<lparr>m_os := fs2, m_db := db2\<rparr>)"
    using 0(1) l(1) i(1) db1(1) 2(1,2) bsi 3(1,3) by (simp add: newBlockfileMgr_def Let_def initial_mgr_def)
  then show ?thesis using 2(4) 3(2,4) by (auto simp: opened_def initial_mgr_def)
qed

end
