(* ===== verification/BlockLedger.thy ===== *)
theory BlockLedger
  imports Recovery
begin

text \<open>
  Iterators over the chain, and the properties of the block ledger as a whole: adding, looking up,
  failing, restarting.
\<close>

section \<open>Iterators\<close>

abbreviation open_pos :: "string \<Rightarrow> Block list list \<Rightarrow> nat \<Rightarrow> nat \<Rightarrow> blockStream" where
  "open_pos root bss i k \<equiv> (stream_pos root (layouts bss) i k)\<lparr>bs_endFileNum := - 1\<rparr>"

text \<open>A stream without a last file goes on to the next file at the end of each.\<close>

lemma open_stream_next_file:
  assumes "chain_files root bss [] fs" "Suc i < length bss" "k = length (bss ! i)"
  shows "nextBlockBytesAndPlacementInfo (open_pos root bss i k) fs = nextBlockBytesAndPlacementInfo (open_pos root bss (Suc i) 0) fs"
proof -
  let ?path = "deriveBlockfilePath root (int i)"
  have "os_read fs ?path = Some (frames (map block_layout (bss ! i)))" using assms by (simp add: chain_files_def file_bytes_def)
  then have c: "os_content fs ?path = frames (take k (layouts bss ! i)) @ []" using assms(2,3) by (simp add: os_content_def)
  have n: "stream_nextBlockBytesAndPlacementInfo (bs_currentFileStream (open_pos root bss i k)) fs =
      Ok (None, bs_currentFileStream (open_pos root bss i k))"
    unfolding stream_pos_def by (simp add: stream_next_frame_eq [OF c])
  have m: "moveToNextBlockfileStream (open_pos root bss i k) fs = Ok (open_pos root bss (Suc i) 0)"
  proof -
    have "newBlockfileStream root (int i + 1) 0 fs = Ok (stream_at (deriveBlockfilePath root (int (Suc i))) (int (Suc i)) 0)"
      using assms(1,2) by (auto simp: newBlockfileStream_Ok chain_files_def stream_at_def add.commute)
    then show ?thesis by (simp add: moveToNextBlockfileStream_def stream_pos_def add.commute)
  qed
  show ?thesis
    using n m by (subst nextBlockBytesAndPlacementInfo.simps) (simp add: stream_pos_def)
qed

lemma open_stream_next:
  assumes ch: "chain_files root bss [] fs"
  shows "i < length bss \<Longrightarrow> k \<le> length (bss ! i) \<Longrightarrow> file_start bss i + k < length (concat bss) \<Longrightarrow>
     \<exists>i' k'. nextBlockBytes (open_pos root bss i k) fs = Ok (Some (block_layout (concat bss ! (file_start bss i + k))), open_pos root bss i' k') \<and>
       i' < length bss \<and> k' \<le> length (bss ! i') \<and> file_start bss i' + k' = Suc (file_start bss i + k)"
proof (induction "length bss - i" arbitrary: i k)
  case (Suc n)
  show ?case
  proof (cases "k < length (bss ! i)")
    case True
    then show ?thesis
      using stream_next_placed [OF chain_files_hold [OF ch], of i k "- 1"] Suc.prems nth_concat_file [OF Suc.prems(1) True]
      by (intro exI [of _ i] exI [of _ "Suc k"]) (simp add: nextBlockBytes_def)
  next
    case False
    then have k: "k = length (bss ! i)" using Suc.prems by simp
    then have sum: "file_start bss i + k = file_start bss (Suc i) + 0" using file_start_Suc [OF Suc.prems(1)] by simp
    have "Suc i < length bss"
    proof (rule ccontr)
      assume "\<not> Suc i < length bss"
      then have "Suc i = length bss" using Suc.prems(1) by simp
      then show False using Suc.prems(3) sum by simp
    qed
    then show ?thesis
      using Suc.hyps(1) [of "Suc i" 0] Suc.hyps(2) Suc.prems(3) open_stream_next_file [OF ch _ k]
      unfolding sum nextBlockBytes_def by simp
  qed
qed simp

text \<open>An iterator that has returned the blocks before position \<open>j\<close> of the chain.\<close>

definition itr_at :: "nat \<Rightarrow> Block list list \<Rightarrow> string \<Rightarrow> nat \<Rightarrow> blocksItr \<Rightarrow> bool" where
  "itr_at base bss root j itr \<longleftrightarrow> itr_blockNumToRetrieve itr = num64 (base + j) \<and> \<not> itr_closeMarker itr \<and>
     (unat (itr_maxBlockNumAvailable itr) < base + length (concat bss) \<or> itr_maxBlockNumAvailable itr = 0) \<and>
     (case itr_stream itr of None \<Rightarrow> True
      | Some st \<Rightarrow> \<exists>i k. st = open_pos root bss i k \<and> i < length bss \<and> k \<le> length (bss ! i) \<and> file_start bss i + k = j)"

lemma last_persisted:
  assumes "store_inv C base h0 bss s" "concat bss \<noteq> []"
  shows "unat (lastPersistedBlock (bm_blockfilesInfo (m_mgr s))) = base + length (concat bss) - 1"
proof -
  note I = store_invD [OF assms(1)]
  have "base + length (concat bss) < 2 ^ 64 - 1" "numbered base (concat bss)" using I(1) by (simp_all add: chain_ok_def)
  moreover from this have "base + length (concat bss) - 1 < 2 ^ 64" by linarith
  ultimately show ?thesis using I(3) last_number_chain [of base bss] assms(2) by (simp add: info_ok_def unat_num64)
qed

lemma itr_Next_chain:
  assumes inv: "store_inv C base h0 bss s" and it: "itr_at base bss (bm_rootDir (m_mgr s)) j itr" and j: "j < length (concat bss)"
  shows "\<exists>itr'. itr_Next C itr s = Some (Ok (Some (concat bss ! j), itr')) \<and> itr_at base bss (bm_rootDir (m_mgr s)) (Suc j) itr'"
proof -
  note I = store_invD [OF inv]
  let ?root = "bm_rootDir (m_mgr s)"
  have ne: "concat bss \<noteq> []" using j by (cases "concat bss") auto
  have bound: "base + length (concat bss) < 2 ^ 64 - 1" using I(1) by (simp add: chain_ok_def)
  have u: "unat (num64 (base + j)) = base + j" using bound j by (intro unat_num64) simp
  have avail: "\<exists>a. (if itr_maxBlockNumAvailable itr < itr_blockNumToRetrieve itr then waitForBlock itr (itr_blockNumToRetrieve itr) s
      else Some (itr_maxBlockNumAvailable itr)) = Some a \<and> unat a < base + length (concat bss)"
    using it last_persisted [OF inv ne] u j by (auto simp: waitForBlock_def Let_def itr_at_def word_less_nat_alt)
  then obtain a where a: "(if itr_maxBlockNumAvailable itr < itr_blockNumToRetrieve itr then waitForBlock itr (itr_blockNumToRetrieve itr) s
      else Some (itr_maxBlockNumAvailable itr)) = Some a" "unat a < base + length (concat bss)" by blast
  have "\<exists>i k. (case itr_stream itr of None \<Rightarrow> initStream (itr\<lparr>itr_maxBlockNumAvailable := a\<rparr>) s | Some stream \<Rightarrow> Ok stream) =
      Ok (open_pos ?root bss i k) \<and> i < length bss \<and> k \<le> length (bss ! i) \<and> file_start bss i + k = j"
  proof (cases "itr_stream itr")
    case None
    obtain i k where ik: "i < length bss" "k < length (bss ! i)" "j = file_start bss i + k" using chain_position [OF j] by blast
    have "getBlockLocByBlockNum (bm_index (m_mgr s)) (num64 (base + j)) (m_db s) = Ok (p_loc (placed bss ! j))"
      using idx_view_block [OF I(9), of j] j by simp
    then have "initStream (itr\<lparr>itr_maxBlockNumAvailable := a\<rparr>) s = Ok (open_pos ?root bss i k)"
      using it ik newBlockStream_pos [OF I(2) ik(1), of k "- 1"] nth_placed [OF ik(1,2)] by (simp add: initStream_def itr_at_def p_loc_def)
    then show ?thesis using None ik by (intro exI [of _ i] exI [of _ k]) simp
  next
    case (Some st)
    then show ?thesis using it by (auto simp: itr_at_def)
  qed
  then obtain i k where st: "(case itr_stream itr of None \<Rightarrow> initStream (itr\<lparr>itr_maxBlockNumAvailable := a\<rparr>) s | Some stream \<Rightarrow> Ok stream) =
      Ok (open_pos ?root bss i k)" "i < length bss" "k \<le> length (bss ! i)" "file_start bss i + k = j" by blast
  obtain i' k' where n: "nextBlockBytes (open_pos ?root bss i k) (m_os s) = Ok (Some (block_layout (concat bss ! j)), open_pos ?root bss i' k')"
    "i' < length bss" "k' \<le> length (bss ! i')" "file_start bss i' + k' = Suc j"
    using open_stream_next [OF I(2) st(2,3)] j unfolding st(4) by blast
  have "stored_block (concat bss ! j)" using I(1) nth_mem [OF j] unfolding chain_ok_def block_ok_def by blast
  then have "itr_Next C itr s = Some (Ok (Some (concat bss ! j), itr\<lparr>itr_maxBlockNumAvailable := a,
      itr_blockNumToRetrieve := itr_blockNumToRetrieve itr + 1, itr_stream := Some (open_pos ?root bss i' k')\<rparr>))"
    using a(1) st(1) n(1) it stored_block_codec(1) by (simp add: itr_Next_def Let_def itr_at_def)
  then show ?thesis using a(2) n it num64_Suc [of "base + j"] by (auto simp: itr_at_def)
qed

lemma itr_Next_waits:
  assumes inv: "store_inv C base h0 bss s" and it: "itr_at base bss root (length (concat bss)) itr" and ne: "concat bss \<noteq> []"
  shows "itr_Next C itr s = None"
proof -
  have "base + length (concat bss) < 2 ^ 64 - 1" using store_invD(1) [OF inv] by (simp add: chain_ok_def)
  then have u: "unat (num64 (base + length (concat bss))) = base + length (concat bss)" by (intro unat_num64) simp
  have l: "0 < length (concat bss)" using ne by (simp only: length_greater_0_conv not_False_eq_True)
  then show ?thesis
    using it u last_persisted [OF inv ne] by (auto simp: itr_Next_def waitForBlock_def Let_def itr_at_def word_less_nat_alt)
qed

lemma file_start_extend:
  assumes "i < length bss" "k \<le> length (bss ! i)"
  shows "i < length (extend_chain m bss b)" "k \<le> length (extend_chain m bss b ! i)" "take k (extend_chain m bss b ! i) = take k (bss ! i)"
    "file_start (extend_chain m bss b) i = file_start bss i"
  using assms by (cases bss rule: rev_cases; auto simp: extend_chain_def file_start_def nth_append less_Suc_eq)+

lemma itr_at_extend:
  assumes "itr_at base bss root j itr" "bss \<noteq> []"
  shows "itr_at base (extend_chain m bss b) root j itr"
proof (cases "itr_stream itr")
  case None
  then show ?thesis using assms by (auto simp: itr_at_def)
next
  case (Some st)
  then obtain i k where ik: "st = open_pos root bss i k" "i < length bss" "k \<le> length (bss ! i)" "file_start bss i + k = j"
    using assms(1) by (auto simp: itr_at_def)
  note E = file_start_extend [OF ik(2,3), of m b]
  have "open_pos root bss i k = open_pos root (extend_chain m bss b) i k"
    using ik(2) E(1,3) by (simp add: stream_pos_def take_map)
  then have "\<exists>i' k'. st = open_pos root (extend_chain m bss b) i' k' \<and> i' < length (extend_chain m bss b) \<and>
      k' \<le> length (extend_chain m bss b ! i') \<and> file_start (extend_chain m bss b) i' + k' = j"
    using ik E by (intro exI [of _ i] exI [of _ k]) simp
  then show ?thesis using assms Some by (auto simp: itr_at_def simp del: length_concat)
qed

lemma itr_at_new:
  assumes inv: "store_inv C base h0 bss s" and r: "retrieveBlocks n s = Ok itr"
  shows "base \<le> unat n \<and> itr_at base bss root (unat n - base) itr"
proof -
  note I = store_invD [OF inv]
  have "\<not> n < num64 base" "itr = newBlockItr n s" using r I(10) by (auto simp: retrieveBlocks_def split: if_splits)
  moreover have "unat (num64 base) = base" using I(1) by (intro unat_num64) (simp add: chain_ok_def)
  ultimately have n: "base \<le> unat n" by (simp add: word_less_nat_alt)
  have "unat (lastPersistedBlock (bm_blockfilesInfo (m_mgr s))) < base + length (concat bss) \<or> lastPersistedBlock (bm_blockfilesInfo (m_mgr s)) = 0"
  proof (cases "concat bss = []")
    case True
    then show ?thesis using I(3) by (simp add: info_ok_def last_number_def)
  next
    case False
    then have "0 < length (concat bss)" by (simp only: length_greater_0_conv not_False_eq_True)
    then show ?thesis using last_persisted [OF inv False] by linarith
  qed
  then show ?thesis using n \<open>itr = newBlockItr n s\<close> by (simp add: itr_at_def newBlockItr_def)
qed


section \<open>A sample ledger\<close>

definition sample_conf :: Conf where "sample_conf = NewConf ''/l'' 0"

definition sample_attrs :: "IndexableAttr list" where
  "sample_attrs = [IndexableAttrBlockNum, IndexableAttrBlockHash, IndexableAttrTxID, IndexableAttrBlockNumTranNum]"

definition empty_machine :: machine where
  "empty_machine = \<lparr>m_os = \<lparr>files = [], dirs = [], faults = []\<rparr>, m_db = \<lparr>entries = [], db_faults = []\<rparr>\<rparr>"

definition first_block :: Block where
  "first_block = (cert_block ref_codec 0 [''CreatCert'', ''id'', ''ca''] ''v'')\<lparr>BMetadata := Some [[], [], [0]]\<rparr>"

lemma chain_ok_empty: "chain_ok C 0 h0 [[]]"
  by (simp add: chain_ok_def numbered_def linked_def placed_def place_file_def)

lemma empty_disk:
  assumes "IndexableAttrBlockNum \<in> set attrs"
  shows "disk C root (newBlockIndex attrs st) [[]] [] 0 empty_machine"
proof -
  have "block_file_names root 0 ((m_os empty_machine)\<lparr>dirs := root # dirs (m_os empty_machine)\<rparr>)"
    by (simp add: block_file_names_def os_is_dir_def empty_machine_def os_read_def)
  moreover have "idx_view C (newBlockIndex attrs st) 0 [] (m_db empty_machine)"
    using assms by (intro idx_view_empty) (simp_all add: empty_machine_def newBlockIndex_def isAttributeIndexed_def)
  moreover have "deriveBlockfilePath root i \<noteq> ''/''" for i by (simp add: deriveBlockfilePath_def blockfilePrefix_def)
  ultimately show ?thesis
    by (simp add: disk_def chain_ok_empty no_gaps_def files_of_def os_is_dir_def empty_machine_def os_read_def loadBlkfilesInfo_def
        DBHandle_Get_def DB_Get_def)
qed

lemma empty_creatable: "creatable path (m_os empty_machine)"
  by (simp add: creatable_def list_all_iff empty_machine_def os_read_def)

lemma start_empty:
  assumes "codec_laws C" "CHR ''/'' \<notin> set ledgerid" "IndexableAttrBlockNum \<in> set attrs"
  shows "\<exists>mgr mm'. newBlockfileMgr C ledgerid conf attrs st empty_machine = (Ok mgr, mm') \<and>
     store_inv C 0 [] [[]] (opened mm' mgr) \<and> faults (m_os mm') = [] \<and> db_faults (m_db mm') = [] \<and>
     bm_rootDir mgr = getLedgerBlockDir conf ledgerid \<and> bm_index mgr = newBlockIndex attrs st \<and>
     bm_maxBlockfileSize mgr = maxBlockfileSize conf"
  by (rule newBlockfileMgr_chain [OF assms(1,2) empty_disk [OF assms(3)] empty_creatable assms(3)])

definition sample_store :: store where
  "sample_store = (case newBlockfileMgr ref_codec ''ch'' sample_conf sample_attrs ''ch'' empty_machine of
     (Ok mgr, mm') \<Rightarrow> opened mm' mgr)"

lemma sample_store:
  "store_inv ref_codec 0 [] [[]] sample_store" "faults (m_os sample_store) = []" "db_faults (m_db sample_store) = []"
  "bm_rootDir (m_mgr sample_store) = ''/l/chains/ch''" "bm_index (m_mgr sample_store) = newBlockIndex sample_attrs ''ch''"
  "bm_maxBlockfileSize (m_mgr sample_store) = 64 * 1024 * 1024"
  using start_empty [OF codec_laws_ref, of "''ch''" sample_attrs sample_conf "''ch''"]
  by (auto simp: sample_attrs_def sample_store_def opened_def getLedgerBlockDir_def getChainsDir_def path_Join_def ChainsDir_def sample_conf_def
      NewConf_def defaultMaxBlockfileSize_def)

lemma first_block_operation: "ValidateAnalysis ref_codec first_block = Ok [''CreatCert'', ''id'', ''ca'']"
proof -
  have "ValidateAnalysis ref_codec first_block = GetArgsFromBlock ref_codec (cert_block ref_codec 0 [''CreatCert'', ''id'', ''ca''] ''v'')"
    by (simp add: ValidateAnalysis_def GetArgsFromBlock_def first_block_def cert_block_def first_elem_def)
  then show ?thesis by (simp only: PutRwset_cert_block [OF codec_laws_ref])
qed

lemma txid_sample_tx: "codec_laws C \<Longrightarrow> txid_or_empty C (sample_tx C args v) = ''''"
  by (simp add: txid_or_empty_def GetOrComputeTxIDFromEnvelope_def sample_tx_def UnmarshalEnvelope_def UnmarshalPayload_def
      codec_laws_simps)

lemma first_block_ok: "block_ok ref_codec first_block" "length (raw (block_layout first_block)) < 100400"
proof -
  let ?t = "sample_tx ref_codec [''CreatCert'', ''id'', ''ca''] ''v''"
  have e: "length (EncodeVarint x) \<le> 10" for x by (simp add: length_EncodeVarint SizeVarint_def)
  have t: "length ?t < 100000"
    by (simp add: sample_tx_def sample_cap_def sample_spec_def sample_rwset_def ref_codec_def
        pack_option_def ref_ChaincodeSpec_def ref_ChaincodeInput_def)
  have l: "length (block_layout first_block) =
      length (EncodeVarint 0) + (length (raw []) + length (raw (replicate 32 7))) + (length (EncodeVarint 1) + length (raw ?t)) +
      (length (EncodeVarint 3) + length (raw []) + length (raw []) + length (raw [0]))"
    by (simp add: block_layout_def first_block_def cert_block_def header_layout_def list_layout_def)
  have b: "length (block_layout first_block) < 100300"
    unfolding l using e [of 0] e [of 1] e [of 3] length_raw_le [of "replicate 32 7"] length_raw_le [of ?t] length_raw_le [of "[]"]
      length_raw_le [of "[0]"] t by simp
  then show "length (raw (block_layout first_block)) < 100400" using length_raw_le [of "block_layout first_block"] by simp
  have "stored_block first_block" using b by (simp add: stored_block_def frame_fits_def first_block_def)
  then show "block_ok ref_codec first_block"
    by (simp add: block_ok_def first_block_def cert_block_def flags_ok_def BlockMetadataIndex_TRANSACTIONS_FILTER_def
        txid_sample_tx codec_laws_ref txid_fits_def)
qed

lemma first_block_accepted: "accepts ref_codec 0 [] [[]] sample_store first_block"
  using first_block_ok(1) first_block_operation
  by (auto simp: accepts_def sample_store first_block_def cert_block_def num64_def prev_hash_def record_quiet_def aux_paths_def
      blockinfo_path_def HasPrefix_def)

definition sample_store1 :: store where
  "sample_store1 = snd (addBlock ref_codec None first_block sample_store)"

lemma extend_sample: "extend_chain (bm_maxBlockfileSize (m_mgr sample_store)) [[]] first_block = [[first_block]]"
  using first_block_ok(2) by (simp add: extend_chain_def sample_store)

lemma sample_store1: "store_inv ref_codec 0 [] [[first_block]] sample_store1" "addBlock ref_codec None first_block sample_store = (Ok first_block, sample_store1)"
  using addBlock_appends [OF sample_store(1) codec_laws_ref first_block_accepted sample_store(2,3), of None]
  by (auto simp: sample_store1_def extend_sample)

section \<open>Adding a sequence of blocks\<close>

primrec add_all :: "codec \<Rightarrow> Block list \<Rightarrow> (store, unit) io" where
  "add_all C [] = io_return ()"
| "add_all C (b # bs) = io_bind (addBlock C None b) (\<lambda>_. add_all C bs)"

text \<open>Blocks that continue a chain of \<open>j\<close> blocks, the last of which has the hash \<open>h\<close>.\<close>

fun continues :: "codec \<Rightarrow> string \<Rightarrow> nat \<Rightarrow> bytes \<Rightarrow> Block list \<Rightarrow> bool" where
  "continues C root j h [] = True"
| "continues C root j h (b # bs) \<longleftrightarrow> block_ok C b \<and> Number (BHeader b) = num64 j \<and> PreviousHash (BHeader b) = h \<and>
     (\<exists>a. operation C b = Ok a \<and> record_quiet a \<and> (a = [] \<or> a ! 0 \<noteq> ''ChangeCert'') \<and>
        (\<forall>p \<in> set (aux_paths a). \<not> HasPrefix p (root @ ''/''))) \<and>
     continues C root (Suc j) (BlockHeaderHash (BHeader b)) bs"

lemma continues_accepts:
  assumes inv: "store_inv C base h0 bss s"
    and c: "continues C (bm_rootDir (m_mgr s)) (base + length (concat bss)) (prev_hash h0 (concat bss)) (b # bs)"
    and r: "base + length (concat bss) < 2 ^ 64 - 2" "int (Suc (length bss)) < 2 ^ 63" "bm_maxBlockfileSize (m_mgr s) < 2 ^ 63"
  shows "accepts C base h0 bss s b"
  using c r by (auto simp: accepts_def simp del: of_nat_Suc)

lemma length_extend: "length (extend_chain m bss b) \<le> Suc (length bss)"
  by (cases bss rule: rev_cases) (simp_all add: extend_chain_def)

lemma add_all_chain:
  "store_inv C base h0 bss s \<Longrightarrow> codec_laws C \<Longrightarrow>
   continues C (bm_rootDir (m_mgr s)) (base + length (concat bss)) (prev_hash h0 (concat bss)) bs \<Longrightarrow>
   base + length (concat bss) + length bs < 2 ^ 64 - 1 \<Longrightarrow> int (length bss + length bs) < 2 ^ 63 \<Longrightarrow> bm_maxBlockfileSize (m_mgr s) < 2 ^ 63 \<Longrightarrow>
   faults (m_os s) = [] \<Longrightarrow> db_faults (m_db s) = [] \<Longrightarrow>
   \<exists>bss' s'. add_all C bs s = (Ok (), s') \<and> store_inv C base h0 bss' s' \<and> concat bss' = concat bss @ bs \<and>
     faults (m_os s') = [] \<and> db_faults (m_db s') = [] \<and> same_config (m_mgr s) (m_mgr s')"
proof (induction bs arbitrary: bss s)
  case Nil
  then show ?case by (intro exI [of _ bss]) (simp add: same_config_def)
next
  case (Cons b bs)
  let ?bss = "extend_chain (bm_maxBlockfileSize (m_mgr s)) bss b"
  have ne: "bss \<noteq> []" using store_invD(1) [OF Cons.prems(1)] by (simp add: chain_ok_def)
  have "accepts C base h0 bss s b" using Cons.prems by (intro continues_accepts [OF Cons.prems(1,3)]) simp_all
  then obtain s1 where 1: "addBlock C None b s = (Ok b, s1)" "store_inv C base h0 ?bss s1" "faults (m_os s1) = []" "db_faults (m_db s1) = []"
    "same_config (m_mgr s) (m_mgr s1)"
    using addBlock_appends [OF Cons.prems(1,2) _ Cons.prems(7,8)] by blast
  have "\<exists>bss' s'. add_all C bs s1 = (Ok (), s') \<and> store_inv C base h0 bss' s' \<and> concat bss' = concat ?bss @ bs \<and>
     faults (m_os s') = [] \<and> db_faults (m_db s') = [] \<and> same_config (m_mgr s1) (m_mgr s')"
    using Cons.prems(2-6) 1 ne length_extend [of "bm_maxBlockfileSize (m_mgr s)" bss b]
    by (intro Cons.IH) (auto simp: same_config_def prev_hash_def)
  then show ?case using 1 ne by (auto simp: same_config_def)
qed

section \<open>Properties\<close>

text \<open>C1. \<open>addBlock\<close> refines appending to the chain.  On a manager whose files, database and fields
  represent the chain \<open>concat bss\<close>, adding the next block, with the right number and previous hash and
  with an operation that is not a redaction, succeeds, and afterwards they represent that chain with
  the block at its end; the block goes into the current file, or into a new one if it does not fit.\<close>

theorem addBlock_extends_chain:
  assumes "store_inv C base h0 bss s" "codec_laws C" "accepts C base h0 bss s b"
    and "faults (m_os s) = []" "db_faults (m_db s) = []"
  shows "\<exists>s'. addBlock C k b s = (Ok b, s') \<and> store_inv C base h0 (extend_chain (bm_maxBlockfileSize (m_mgr s)) bss b) s' \<and>
     concat (extend_chain (bm_maxBlockfileSize (m_mgr s)) bss b) = concat bss @ [b]"
  using addBlock_appends [OF assms, of k] store_invD(1) [OF assms(1)] by (auto simp: chain_ok_def)

theorem addBlock_extends_chain_witness:
  "\<exists>s'. addBlock ref_codec None first_block sample_store = (Ok first_block, s') \<and> store_inv ref_codec 0 [] [[first_block]] s'"
  using addBlock_extends_chain [OF sample_store(1) codec_laws_ref first_block_accepted sample_store(2,3), of None]
  by (auto simp: extend_sample)

text \<open>C11. A ledger from its first block on: starting on an empty machine succeeds, adding any sequence of
  blocks with consecutive numbers and matching hashes succeeds, and afterwards every block is
  found under its number, with its header, and the newest one under the largest number.\<close>

theorem fresh_ledger_serves_blocks:
  assumes "codec_laws C" "CHR ''/'' \<notin> set ledgerid" "IndexableAttrBlockNum \<in> set attrs" "maxBlockfileSize conf < 2 ^ 63"
    and "continues C (getLedgerBlockDir conf ledgerid) 0 [] bs" "length bs < 2 ^ 62" "bs \<noteq> []"
  shows "\<exists>mgr mm s. newBlockfileMgr C ledgerid conf attrs st empty_machine = (Ok mgr, mm) \<and>
     add_all C bs (opened mm mgr) = (Ok (), s) \<and> Height (bm_bcInfo (m_mgr s)) = word_of_nat (length bs) \<and>
     (\<forall>j < length bs. retrieveBlockByNumber C (word_of_nat j) s = Ok (bs ! j) \<and>
        retrieveBlockHeaderByNumber C (word_of_nat j) s = Ok (BHeader (bs ! j))) \<and>
     retrieveBlockByNumber C (- 1) s = Ok (last bs)"
proof -
  obtain mgr mm where 0: "newBlockfileMgr C ledgerid conf attrs st empty_machine = (Ok mgr, mm)" "store_inv C 0 [] [[]] (opened mm mgr)"
    "faults (m_os mm) = []" "db_faults (m_db mm) = []" "bm_rootDir mgr = getLedgerBlockDir conf ledgerid"
    "bm_maxBlockfileSize mgr = maxBlockfileSize conf"
    using start_empty [OF assms(1-3)] by blast
  obtain bss' s where 1: "add_all C bs (opened mm mgr) = (Ok (), s)" "store_inv C 0 [] bss' s" "concat bss' = bs"
    using add_all_chain [OF 0(2) assms(1), of bs] assms(4-6) 0 by (auto simp: prev_hash_def opened_def)
  note I = store_invD [OF 1(2)]
  have m1: "unat (- 1 :: uint64) = 2 ^ 64 - 1" by (simp add: unsigned_minus_1_eq_mask mask_eq_exp_minus_1)
  have "retrieveBlockByNumber C (num64 j) s = Ok (bs ! j) \<and> retrieveBlockHeaderByNumber C (num64 j) s = Ok (BHeader (bs ! j))"
    if "j < length bs" for j
  proof -
    have u: "unat (num64 j) = j" using that assms(6) by (intro unat_num64) simp
    then have "num64 j \<noteq> - 1" using that assms(6) m1 by auto
    then show ?thesis
      using retrieveBlockByNumber_chain [OF 1(2), of "num64 j"] header_at_chain [OF I(2,1,9,10), of j] that u 1(3)
      by (simp add: retrieveBlockHeaderByNumber_def)
  qed
  moreover have "retrieveBlockByNumber C (- 1) s = Ok (last bs)"
    using retrieveBlockByNumber_chain [OF 1(2), of "- 1"] 1(3) assms(7) by simp
  ultimately show ?thesis using 0(1) 1 I(6) by (auto simp: num64_def)
qed

theorem fresh_ledger_serves_blocks_witness:
  "\<exists>mgr mm s. newBlockfileMgr ref_codec ''ch'' sample_conf sample_attrs ''ch'' empty_machine = (Ok mgr, mm) \<and>
     add_all ref_codec [first_block] (opened mm mgr) = (Ok (), s) \<and> retrieveBlockByNumber ref_codec 0 s = Ok first_block"
proof -
  have "continues ref_codec (getLedgerBlockDir sample_conf ''ch'') 0 [] [first_block]"
    using first_block_accepted first_block_operation
    by (auto simp: accepts_def num64_def prev_hash_def record_quiet_def aux_paths_def sample_store blockinfo_path_def HasPrefix_def
        getLedgerBlockDir_def getChainsDir_def path_Join_def ChainsDir_def sample_conf_def NewConf_def)
  then show ?thesis
    using fresh_ledger_serves_blocks [OF codec_laws_ref, of "''ch''" sample_attrs sample_conf "[first_block]" "''ch''"]
    by (auto simp: sample_attrs_def sample_conf_def NewConf_def defaultMaxBlockfileSize_def)
qed

text \<open>C10. A failing write leaves no trace: when one of the system calls that append the block fails (after
  any number of bytes), or the database refuses the new summary, and the file can be truncated,
  \<open>addBlock\<close> returns an error and files, database and manager represent the old chain.\<close>

theorem failed_write_is_undone:
  assumes "store_inv C base h0 bss s" "accepts C base h0 bss s b" "fits_file bss s b"
    and "faults (m_os s) = fails_at j n \<and> j < 3 \<or> faults (m_os s) = [] \<and> (\<exists>fs. db_faults (m_db s) = True # fs)"
  shows "\<exists>e s'. addBlock C k b s = (Err e, s') \<and> store_inv C base h0 bss s' \<and> m_mgr s' = m_mgr s \<and> faults (m_os s') = []"
  using assms(4)
proof
  assume "faults (m_os s) = fails_at j n \<and> j < 3"
  then show ?thesis using addBlock_append_fails [OF assms(1-3)] by blast
next
  assume "faults (m_os s) = [] \<and> (\<exists>fs. db_faults (m_db s) = True # fs)"
  then show ?thesis using addBlock_save_fails [OF assms(1-3)] by blast
qed

definition faulty_store :: store where
  "faulty_store = sample_store\<lparr>m_os := (m_os sample_store)\<lparr>faults := fails_at 1 5\<rparr>\<rparr>"

lemma faulty_store: "store_inv ref_codec 0 [] [[]] faulty_store" "m_mgr faulty_store = m_mgr sample_store"
  "accepts ref_codec 0 [] [[]] faulty_store first_block" "fits_file [[]] faulty_store first_block"
  using store_inv_cong [OF sample_store(1), of faulty_store] first_block_accepted first_block_ok(2) sample_store(6)
  by (simp_all add: faulty_store_def accepts_def pathExists2_def)

theorem failed_write_is_undone_witness:
  "\<exists>e s'. addBlock ref_codec None first_block faulty_store = (Err e, s') \<and> store_inv ref_codec 0 [] [[]] s'"
  using failed_write_is_undone [OF faulty_store(1,3,4), of 1 5 None] by (auto simp: faulty_store_def)



text \<open>C12. Lookup by transaction identifier, on a ledger that does not start from a snapshot: the
  transaction, its block and its validation code are those of the first transaction in the chain with
  this identifier, and an identifier that does not occur is reported as such.\<close>

theorem retrieve_by_txid_finds_first:
  assumes "store_inv C 0 h0 bss s" "isAttributeIndexed (bm_index (m_mgr s)) IndexableAttrTxID" "txid_fits t"
  shows "case first_tx C (concat bss) t of
       None \<Rightarrow> retrieveTransactionByID C t s = Err ErrNotFoundInIndex \<and> retrieveBlockByTxID C t s = Err ErrNotFoundInIndex \<and>
         retrieveTxValidationCodeByTxID C t s = Err ErrNotFoundInIndex \<and> txIDExists t s = Ok False
     | Some (j, x) \<Rightarrow> retrieveTransactionByID C t s = GetEnvelopeFromBlock C (BData (concat bss ! j) ! x) \<and>
         retrieveBlockByTxID C t s = Ok (concat bss ! j) \<and>
         retrieveTxValidationCodeByTxID C t s = Ok (uint (flags_of (BMetadata (concat bss ! j)) ! x)) \<and> txIDExists t s = Ok True"
  using assms by (rule retrieve_by_txid)

lemma sample_store1_index: "isAttributeIndexed (bm_index (m_mgr sample_store1)) a"
proof -
  have "same_config (m_mgr sample_store) (m_mgr sample_store1)"
    using addBlock_appends [OF sample_store(1) codec_laws_ref first_block_accepted sample_store(2,3), of None] by (auto simp: sample_store1_def)
  then have "bm_index (m_mgr sample_store1) = newBlockIndex sample_attrs ''ch''" by (simp add: same_config_def sample_store)
  then show ?thesis by (cases a) (simp_all add: isAttributeIndexed_def newBlockIndex_def sample_attrs_def)
qed

lemma first_tx_sample: "first_tx ref_codec [first_block] '''' = Some (0, 0)" "first_tx ref_codec [first_block] ''x'' = None"
  by (simp_all add: first_tx_def tx_positions_def first_block_def cert_block_def txid_sample_tx codec_laws_ref)

theorem retrieve_by_txid_finds_first_witness:
  "retrieveBlockByTxID ref_codec '''' sample_store1 = Ok first_block \<and> txIDExists ''x'' sample_store1 = Ok False"
  using retrieve_by_txid_finds_first [OF sample_store1(1) sample_store1_index, of "''''"]
    retrieve_by_txid_finds_first [OF sample_store1(1) sample_store1_index, of "''x''"] first_tx_sample
  by (simp add: txid_fits_def)

text \<open>C15. Lookups by block hash and by position: a block is found under its hash (the last one, should two
  blocks have the same), and a transaction under the number of its block and its index in it.\<close>

theorem retrieve_by_hash_and_position:
  assumes "store_inv C base h0 bss s" "j < length (concat bss)"
    and "isAttributeIndexed (bm_index (m_mgr s)) IndexableAttrBlockHash" "isAttributeIndexed (bm_index (m_mgr s)) IndexableAttrBlockNumTranNum"
    and "\<forall>l < length (concat bss). j < l \<longrightarrow> BlockHeaderHash (BHeader (concat bss ! l)) \<noteq> BlockHeaderHash (BHeader (concat bss ! j))"
    and "x < length (BData (concat bss ! j))"
  shows "retrieveBlockByHash C (BlockHeaderHash (BHeader (concat bss ! j))) s = Ok (concat bss ! j) \<and>
     retrieveTransactionByBlockNumTranNum C (word_of_nat (base + j)) (word_of_nat x) s = GetEnvelopeFromBlock C (BData (concat bss ! j) ! x)"
  using retrieveBlockByHash_chain [OF assms(1,3,2)] retrieveTransaction_chain [OF assms(1,4,2,6)] assms(5)
  by (auto simp: num64_def simp del: of_nat_add)

theorem retrieve_by_hash_and_position_witness:
  "retrieveBlockByHash ref_codec (BlockHeaderHash (BHeader first_block)) sample_store1 = Ok first_block \<and>
   retrieveTransactionByBlockNumTranNum ref_codec 0 0 sample_store1 = GetEnvelopeFromBlock ref_codec (BData first_block ! 0)"
  using retrieve_by_hash_and_position [OF sample_store1(1) _ sample_store1_index sample_store1_index, of 0 0]
  by (simp add: first_block_def cert_block_def)


definition peer_store :: store where
  "peer_store = sample_store\<lparr>m_os := (m_os sample_store)\<lparr>dirs := [peer_rootDir]\<rparr>\<rparr>"

text \<open>C3. Recovery after a crash: when the files hold a chain, possibly followed by the torn frame of an
  interrupted append, and the saved summary is missing or misses blocks of the last file, and the
  index misses any number of the last blocks, starting a manager succeeds, and files, database and
  manager represent exactly that chain.\<close>

theorem restart_recovers_chain:
  assumes "codec_laws C" "CHR ''/'' \<notin> set ledgerid" "disk C (getLedgerBlockDir conf ledgerid) (newBlockIndex attrs st) bss t n mm"
    and "creatable (getLedgerBlockDir conf ledgerid) (m_os mm)" "IndexableAttrBlockNum \<in> set attrs"
  shows "\<exists>mgr mm'. newBlockfileMgr C ledgerid conf attrs st mm = (Ok mgr, mm') \<and> store_inv C 0 [] bss (opened mm' mgr)"
  using newBlockfileMgr_chain [OF assms] by blast

text \<open>A file with one block and the beginning of another, and an empty database.\<close>

abbreviation torn_tail :: bytes where "torn_tail \<equiv> [5, 7]"

definition crashed_machine :: machine where
  "crashed_machine = \<lparr>m_os = \<lparr>files = [(deriveBlockfilePath (getLedgerBlockDir sample_conf ''ch'') 0, file_bytes [first_block] @ torn_tail)],
     dirs = [], faults = []\<rparr>, m_db = \<lparr>entries = [], db_faults = []\<rparr>\<rparr>"

lemma torn_tail: "torn_frame torn_tail"
proof -
  have "raw [7, 7, 7, 7, 7] = [5, 7, 7, 7, 7, 7]" by (simp add: raw_frame EncodeVarint_small)
  then have "frame_fits [7, 7, 7, 7, 7] \<and> 2 < length (raw [7, 7, 7, 7, 7]) \<and> torn_tail = take 2 (raw [7, 7, 7, 7, 7])"
    by (simp add: frame_fits_def)
  then show ?thesis unfolding torn_frame_def by blast
qed

lemma crashed_disk:
  "disk ref_codec (getLedgerBlockDir sample_conf ''ch'') (newBlockIndex sample_attrs ''ch'') [[first_block]] torn_tail 0 crashed_machine"
proof -
  let ?root = "getLedgerBlockDir sample_conf ''ch''"
  let ?fs = "(m_os crashed_machine)\<lparr>dirs := ?root # dirs (m_os crashed_machine)\<rparr>"
  have r: "os_read ?fs (path_Join ?root name) = (if name = block_file_name 0 then Some (file_bytes [first_block] @ torn_tail) else None)" for name
    by (simp add: crashed_machine_def os_read_def path_Join_def deriveBlockfilePath_def)
  have "os_read ?fs (path_Join ?root name) \<noteq> None \<and> isBlockFileName name \<and> CHR ''/'' \<notin> set name \<longleftrightarrow> (\<exists>i < 1. name = block_file_name i)" for name
    unfolding r using isBlockFileName_block_file_name [of 0] block_file_name_no_slash [of 0] by auto
  then have "block_file_names ?root 1 ?fs" by (simp add: block_file_names_def os_is_dir_def)
  then have "chain_files ?root [[first_block]] torn_tail ?fs"
    using torn_tail first_block_ok(1) r [of "block_file_name 0"] deriveBlockfilePath_Join [of ?root 0]
    by (simp add: chain_files_def block_ok_def)
  moreover have "idx_view ref_codec (newBlockIndex sample_attrs ''ch'') 0 [] (m_db crashed_machine)"
    by (rule idx_view_empty) (simp_all add: crashed_machine_def newBlockIndex_def isAttributeIndexed_def sample_attrs_def)
  moreover have "deriveBlockfilePath root i \<noteq> ''/''" for root i by (simp add: deriveBlockfilePath_def blockfilePrefix_def)
  moreover have "os_read (m_os crashed_machine) (path_Join ?root bootstrappingSnapshotInfoFile) = None"
    using r [of bootstrappingSnapshotInfoFile] by (simp add: bootstrappingSnapshotInfoFile_def blockfilePrefix_def os_read_def)
  moreover have "chain_ok ref_codec 0 [] [[first_block]]" using store_invD(1) [OF sample_store1(1)] .
  ultimately show ?thesis
    by (simp add: disk_def no_gaps_def files_of_def os_is_dir_def loadBlkfilesInfo_def DBHandle_Get_def DB_Get_def crashed_machine_def)
qed

lemma crashed_creatable: "creatable (getLedgerBlockDir sample_conf ''ch'') (m_os crashed_machine)"
  using prefixes_no_block_file [of _ "getLedgerBlockDir sample_conf ''ch''" 0]
  unfolding creatable_def list_all_iff by (auto simp: crashed_machine_def os_read_def)

theorem restart_recovers_chain_witness:
  "\<exists>mgr mm'. newBlockfileMgr ref_codec ''ch'' sample_conf sample_attrs ''ch'' crashed_machine = (Ok mgr, mm') \<and>
     store_inv ref_codec 0 [] [[first_block]] (opened mm' mgr)"
  by (rule restart_recovers_chain [OF codec_laws_ref _ crashed_disk crashed_creatable]) (simp_all add: sample_attrs_def)

text \<open>C13. Iterators: an iterator that has returned the first \<open>j\<close> blocks returns block \<open>j\<close> next, also
  when it was added after the iterator was opened and is in a later file; at the end of a chain with
  blocks the call waits.  A new iterator is at the block it was asked to start with.\<close>

theorem iterator_follows_chain:
  assumes "store_inv C base h0 bss s" "itr_at base bss (bm_rootDir (m_mgr s)) j itr" "j \<le> length (concat bss)" "concat bss \<noteq> []"
  shows "(if j < length (concat bss)
      then \<exists>itr'. itr_Next C itr s = Some (Ok (Some (concat bss ! j), itr')) \<and> itr_at base bss (bm_rootDir (m_mgr s)) (Suc j) itr'
      else itr_Next C itr s = None) \<and>
     itr_at base (extend_chain m bss b) (bm_rootDir (m_mgr s)) j itr \<and>
     (\<forall>n itr0. retrieveBlocks n s = Ok itr0 \<longrightarrow> itr_at base bss (bm_rootDir (m_mgr s)) (unat n - base) itr0)"
proof -
  have "bss \<noteq> []" using assms(4) by auto
  moreover have "itr_Next C itr s = None" if "\<not> j < length (concat bss)"
    using itr_Next_waits [OF assms(1) _ assms(4)] assms(2,3) that by simp
  ultimately show ?thesis
    using itr_Next_chain [OF assms(1,2)] itr_at_extend [OF assms(2)] itr_at_new [OF assms(1)] by simp
qed

theorem iterator_follows_chain_witness:
  "\<exists>itr itr'. retrieveBlocks 0 sample_store1 = Ok itr \<and> itr_Next ref_codec itr sample_store1 = Some (Ok (Some first_block, itr')) \<and>
     itr_Next ref_codec itr' sample_store1 = None"
proof -
  let ?root = "bm_rootDir (m_mgr sample_store1)"
  have "firstPossibleBlockNumberInBlockFiles (m_mgr sample_store1) = 0" using store_invD(10) [OF sample_store1(1)] by (simp add: num64_def)
  then obtain itr where itr: "retrieveBlocks 0 sample_store1 = Ok itr" by (simp add: retrieveBlocks_def)
  then have a: "itr_at 0 [[first_block]] ?root 0 itr" using itr_at_new [OF sample_store1(1) itr] by simp
  obtain itr' where n: "itr_Next ref_codec itr sample_store1 = Some (Ok (Some first_block, itr'))" "itr_at 0 [[first_block]] ?root 1 itr'"
    using iterator_follows_chain [OF sample_store1(1) a, of 0 first_block] by auto
  then have "itr_Next ref_codec itr' sample_store1 = None"
    using iterator_follows_chain [OF sample_store1(1) n(2), of 0 first_block] by simp
  then show ?thesis using itr n(1) by blast
qed
end
