(* ===== verification/Reset.thy ===== *)
theory Reset
  imports BlockLedger "HOL-Library.AList"
begin

text \<open>
  Resetting the ledgers of a peer to their genesis blocks, \<open>common/ledger/blkstorage/reset.go\<close>: the index
  is dropped, every ledger keeps its first block only, and the height it had is recorded in a file so that
  the peer can refuse service until it has caught up.  The database is the content of the index
  directory, so removing that content empties the database.
\<close>

section \<open>Operations\<close>

definition ioutil_WriteFile :: "string \<Rightarrow> bytes \<Rightarrow> (os, unit) io" where
  "ioutil_WriteFile path b fs =
     (if os_is_dir fs path \<or> \<not> os_is_dir fs (path_Dir path) then (Err (ErrMsg ''open''), fs) else (Ok (), os_write path b fs))"

definition pathExists :: "string \<Rightarrow> os \<Rightarrow> bool result" where
  "pathExists path fs = Ok (os_exists fs path)"

definition DeleteBlockStoreIndex :: "string \<Rightarrow> (machine, unit) io" where
  "DeleteBlockStoreIndex dir =
     io_bind (on_os (RemoveContents (getIndexDir \<lparr>blockStorageDir = dir, maxBlockfileSize = 0\<rparr>))) (\<lambda>_.
     io_modify (\<lambda>s. s\<lparr>m_db := (m_db s)\<lparr>entries := []\<rparr>\<rparr>))"

text \<open>The data hash of a block that was just decoded is never the nil slice, so only its number is tested.\<close>

definition assertIsGenesisBlock :: "codec \<Rightarrow> bytes \<Rightarrow> unit result" where
  "assertIsGenesisBlock C blockBytes =
     rbind (DeserializeBlock C blockBytes) (\<lambda>block.
     if Number (BHeader block) \<noteq> 0
     then Err (ErrMsg ''The supplied bytes are not of genesis block. blockNum=%d, blockHash=%x'') else Ok ())"

definition backupGenesisFile :: string where "backupGenesisFile = ''__backupGenesisBlockBytes''"

definition retrieveGenesisBlkOffsetAndMakeACopy :: "codec \<Rightarrow> string \<Rightarrow> (os, string \<times> int) io" where
  "retrieveGenesisBlkOffsetAndMakeACopy C ledgerDir =
     io_bind (io_get id) (\<lambda>fs.
     io_bind (io_lift (newBlockfileStream ledgerDir 0 0 fs)) (\<lambda>stream.
     io_bind (io_lift (stream_nextBlockBytesAndPlacementInfo stream fs)) (\<lambda>(r, stream').
     let genesisBlockBytes = (case r of None \<Rightarrow> [] | Some (b, _) \<Rightarrow> b) in
     io_bind (io_lift (assertIsGenesisBlock C genesisBlockBytes)) (\<lambda>_.
     io_bind (ioutil_WriteFile (path_Join ledgerDir backupGenesisFile) genesisBlockBytes) (\<lambda>_.
     io_return (deriveBlockfilePath ledgerDir 0, fs_currentOffset stream'))))))"

text \<open>The block files from number \<open>hi\<close> down to number \<open>lo\<close> are removed.\<close>

function remove_files :: "string \<Rightarrow> int \<Rightarrow> int \<Rightarrow> (os, unit) io" where
  "remove_files ledgerDir lo hi =
     (if hi < lo then io_return ()
      else io_bind (os_Remove (deriveBlockfilePath ledgerDir hi)) (\<lambda>_. remove_files ledgerDir lo (hi - 1)))"
  by pat_completeness auto
termination
  by (relation "measure (\<lambda>(_, lo, hi). nat (hi + 1 - lo))") auto

declare remove_files.simps [simp del]

definition resetToGenesisBlk :: "codec \<Rightarrow> string \<Rightarrow> (os, unit) io" where
  "resetToGenesisBlk C ledgerDir =
     io_bind (\<lambda>fs. (retrieveLastFileSuffix ledgerDir fs, fs)) (\<lambda>lastFileNum.
     if lastFileNum < 0 then io_return ()
     else
       io_bind (retrieveGenesisBlkOffsetAndMakeACopy C ledgerDir) (\<lambda>(zeroFilePath, genesisBlkEndOffset).
       io_bind (remove_files ledgerDir 1 lastFileNum) (\<lambda>_.
       os_Truncate zeroFilePath (nat genesisBlkEndOffset))))"

definition fileNamePreRestHt :: string where "fileNamePreRestHt = ''__preResetHeight''"

definition recordHeightIfGreaterThanPreviousRecording :: "codec \<Rightarrow> string \<Rightarrow> (os, unit) io" where
  "recordHeightIfGreaterThanPreviousRecording C ledgerDir =
     io_bind (io_get id) (\<lambda>fs.
     io_bind (io_lift (constructBlockfilesInfo C ledgerDir fs)) (\<lambda>blkfilesInfo.
     let preResetHtFile = path_Join ledgerDir fileNamePreRestHt in
     io_bind (io_lift (pathExists preResetHtFile fs)) (\<lambda>exists.
     io_bind (io_lift
       (if exists then rbind (ioutil_ReadFile preResetHtFile fs) (\<lambda>htBytes. ParseUint (to_string htBytes)) else Ok 0))
       (\<lambda>previouslyRecordedHt.
     let currentHt = lastPersistedBlock blkfilesInfo + 1 in
     if currentHt > previouslyRecordedHt then ioutil_WriteFile preResetHtFile (to_bytes (FormatUint currentHt))
     else io_return ()))))"

fun reset_ledgers :: "codec \<Rightarrow> Conf \<Rightarrow> string list \<Rightarrow> (os, unit) io" where
  "reset_ledgers C conf [] = io_return ()"
| "reset_ledgers C conf (ledgerID # ledgerIDs) =
     io_bind (recordHeightIfGreaterThanPreviousRecording C (getLedgerBlockDir conf ledgerID)) (\<lambda>_.
     io_bind (resetToGenesisBlk C (getLedgerBlockDir conf ledgerID)) (\<lambda>_.
     reset_ledgers C conf ledgerIDs))"

definition ResetBlockStore :: "codec \<Rightarrow> string \<Rightarrow> (machine, unit) io" where
  "ResetBlockStore C dir =
     (let conf = \<lparr>blockStorageDir = dir, maxBlockfileSize = 0\<rparr>; chainsDir = getChainsDir conf in
      io_bind (DeleteBlockStoreIndex dir) (\<lambda>_.
      on_os (io_bind (\<lambda>fs. (pathExists chainsDir fs, fs)) (\<lambda>chainsDirExists.
        if \<not> chainsDirExists then io_return ()
        else io_bind (\<lambda>fs. (ListSubdirs chainsDir fs, fs)) (\<lambda>ledgerIDs. reset_ledgers C conf ledgerIDs)))))"

subsection \<open>The recorded heights\<close>

fun preResetHtFiles_loop :: "Conf \<Rightarrow> os \<Rightarrow> string list \<Rightarrow> (string \<times> string) list \<Rightarrow> (string \<times> string) list result" where
  "preResetHtFiles_loop conf fs [] m = Ok m"
| "preResetHtFiles_loop conf fs (ledgerID # ledgerIDs) m =
     (let file = path_Join (getLedgerBlockDir conf ledgerID) fileNamePreRestHt in
      rbind (pathExists file fs) (\<lambda>exists.
      preResetHtFiles_loop conf fs ledgerIDs (if exists then AList.update ledgerID file m else m)))"

definition preResetHtFiles :: "string \<Rightarrow> string list \<Rightarrow> os \<Rightarrow> (string \<times> string) list result" where
  "preResetHtFiles dir ledgerIDs fs =
     (let conf = \<lparr>blockStorageDir = dir, maxBlockfileSize = 0\<rparr> in
      if ledgerIDs = [] then Ok []
      else rbind (pathExists (getChainsDir conf) fs) (\<lambda>chainsDirExists.
        if \<not> chainsDirExists then Ok [] else preResetHtFiles_loop conf fs ledgerIDs []))"

text \<open>The iteration order over a Go map is arbitrary; the result here does not depend on it, since the
  ledger ids are distinct keys.\<close>

fun loadPreResetHeight_loop :: "os \<Rightarrow> (string \<times> string) list \<Rightarrow> (string \<times> uint64) list \<Rightarrow> (string \<times> uint64) list result" where
  "loadPreResetHeight_loop fs [] m = Ok m"
| "loadPreResetHeight_loop fs ((ledgerID, path) # rest) m =
     rbind (ioutil_ReadFile path fs) (\<lambda>bytes.
     rbind (ParseUint (to_string bytes)) (\<lambda>ht.
     loadPreResetHeight_loop fs rest (AList.update ledgerID ht m)))"

definition LoadPreResetHeight :: "string \<Rightarrow> string list \<Rightarrow> os \<Rightarrow> (string \<times> uint64) list result" where
  "LoadPreResetHeight dir ledgerIDs fs =
     rbind (preResetHtFiles dir ledgerIDs fs) (\<lambda>preResetFilesMap. loadPreResetHeight_loop fs preResetFilesMap [])"

fun clearPreResetHeight_loop :: "(string \<times> string) list \<Rightarrow> (os, unit) io" where
  "clearPreResetHeight_loop [] = io_return ()"
| "clearPreResetHeight_loop ((ledgerID, path) # rest) =
     io_bind (os_Remove path) (\<lambda>_. clearPreResetHeight_loop rest)"

definition ClearPreResetHeight :: "string \<Rightarrow> string list \<Rightarrow> (os, unit) io" where
  "ClearPreResetHeight dir ledgerIDs =
     io_bind (\<lambda>fs. (preResetHtFiles dir ledgerIDs fs, fs)) clearPreResetHeight_loop"

section \<open>Cutting a chain\<close>

text \<open>The first \<open>i\<close> files and the first \<open>k\<close> blocks of the next one.\<close>

definition cut_chain :: "nat \<Rightarrow> nat \<Rightarrow> Block list list \<Rightarrow> Block list list" where
  "cut_chain i k bss = take i bss @ [take k (bss ! i)]"

lemma length_cut_chain [simp]: "i < length bss \<Longrightarrow> length (cut_chain i k bss) = Suc i"
  by (simp add: cut_chain_def)

lemma concat_cut_chain:
  assumes "i < length bss" "k \<le> length (bss ! i)"
  shows "concat (cut_chain i k bss) = take (file_start bss i + k) (concat bss)"
proof -
  have "concat bss = concat (take i bss) @ bss ! i @ concat (drop (Suc i) bss)"
    using id_take_nth_drop [OF assms(1)] by (metis concat.simps(2) concat_append)
  then show ?thesis using assms(2) by (simp add: cut_chain_def file_start_def)
qed

lemma take_place_file: "k \<le> length bs \<Longrightarrow> place_file i (take k bs) = take k (place_file i bs)"
  by (rule nth_equalityI) (simp_all add: nth_place_file min.absorb2 min.absorb1)

lemma placed_append: "\<exists>qs. placed (xs @ ys) = placed xs @ qs"
proof (induction ys rule: rev_induct)
  case (snoc y ys)
  then show ?case using placed_snoc [of "xs @ ys" y] by auto
qed simp

lemma placed_cut_chain:
  assumes "i < length bss" "k \<le> length (bss ! i)"
  shows "placed (cut_chain i k bss) = take (file_start bss i + k) (placed bss)"
proof -
  have "bss = (take i bss @ [bss ! i]) @ drop (Suc i) bss" using id_take_nth_drop [OF assms(1)] by simp
  then obtain qs where "placed bss = placed (take i bss @ [bss ! i]) @ qs" using placed_append by metis
  then have "placed bss = placed (take i bss) @ place_file i (bss ! i) @ qs" using assms(1) by (simp add: placed_snoc)
  then show ?thesis
    using assms by (simp add: cut_chain_def placed_snoc take_place_file file_start_def)
qed

lemma chain_files_cut:
  assumes ch: "chain_files root bss t fs" and i: "i < length bss"
    and r: "\<And>q. os_read fs' q = (if q = deriveBlockfilePath root (int i) then Some (file_bytes (take k (bss ! i)))
       else if \<exists>n. i < n \<and> n < length bss \<and> q = deriveBlockfilePath root (int n) then None else os_read fs q)"
    and d: "dirs fs' = dirs fs"
  shows "chain_files root (cut_chain i k bss) [] fs'"
proof -
  have names: "\<And>name. os_read fs (path_Join root name) \<noteq> None \<and> isBlockFileName name \<and> CHR ''/'' \<notin> set name \<longleftrightarrow>
      (\<exists>i < length bss. name = block_file_name i)" "os_is_dir fs root" "int (length bss) < 2 ^ 63"
    using ch by (auto simp: chain_files_def block_file_names_def)
  have same: "path_Join root name = deriveBlockfilePath root (int n) \<longleftrightarrow> name = block_file_name n" for name n
    by (simp add: deriveBlockfilePath_Join path_Join_def)
  have inj: "Sprintf_06d (int m) = Sprintf_06d (int n) \<longleftrightarrow> m = n" for m n
    using deriveBlockfilePath_inject [of root "int m" "int n"] by (simp add: deriveBlockfilePath_Join path_Join_def)
  have "os_read fs' (path_Join root name) \<noteq> None \<and> isBlockFileName name \<and> CHR ''/'' \<notin> set name \<longleftrightarrow> (\<exists>n < Suc i. name = block_file_name n)" for name
  proof (cases "\<exists>n < length bss. name = block_file_name n")
    case True
    then obtain n where n: "n < length bss" "name = block_file_name n" by blast
    have "os_read fs (path_Join root name) \<noteq> None" "isBlockFileName name" "CHR ''/'' \<notin> set name"
      using names(1) [of name] True by blast+
    moreover have "os_read fs' (path_Join root name) \<noteq> None \<longleftrightarrow> n < Suc i"
      using n i calculation(1) by (auto simp: r same inj)
    moreover have "(\<exists>m < Suc i. name = block_file_name m) \<longleftrightarrow> n < Suc i" using n(2) by (auto simp: inj)
    ultimately show ?thesis by simp
  next
    case False
    then show ?thesis using names(1) [of name] i by (auto simp: r same less_Suc_eq dest: less_trans)
  qed
  then have "block_file_names root (Suc i) fs'" using names(2,3) d i by (auto simp: block_file_names_def os_is_dir_def)
  moreover have "\<forall>b \<in> set (concat (cut_chain i k bss)). stored_block b"
    using ch nth_mem [OF i] by (auto simp: cut_chain_def chain_files_def dest!: in_set_takeD)
  moreover have "os_read fs' (deriveBlockfilePath root (int n)) = Some (file_bytes (cut_chain i k bss ! n))" if "n < Suc i" for n
    using that ch i by (cases "n = i") (auto simp: r cut_chain_def nth_append chain_files_def)
  ultimately show ?thesis using i by (auto simp: chain_files_def torn_frame_Nil)
qed

text \<open>Files that are not block files do not matter.\<close>

lemma chain_files_other:
  assumes ch: "chain_files root bss t fs" and n: "\<not> isBlockFileName name"
    and r: "\<And>q. q \<noteq> path_Join root name \<Longrightarrow> os_read fs' q = os_read fs q" and d: "dirs fs' = dirs fs"
  shows "chain_files root bss t fs'"
proof -
  have "os_read fs' (path_Join root x) = os_read fs (path_Join root x)" if "isBlockFileName x" for x
    using n that by (intro r) (auto simp: path_Join_def)
  then show ?thesis
    using ch d by (auto simp: chain_files_def block_file_names_def os_is_dir_def deriveBlockfilePath_Join)
qed

lemma remove_files_effect:
  assumes "\<And>n. lo \<le> n \<Longrightarrow> n \<le> hi \<Longrightarrow> os_read fs (deriveBlockfilePath root n) \<noteq> None"
  shows "\<exists>fs'. remove_files root lo hi fs = (Ok (), fs') \<and> dirs fs' = dirs fs \<and> faults fs' = faults fs \<and>
     (\<forall>q. os_read fs' q = (if \<exists>n. lo \<le> n \<and> n \<le> hi \<and> q = deriveBlockfilePath root n then None else os_read fs q))"
  using assms
proof (induction root lo hi arbitrary: fs rule: remove_files.induct)
  case (1 root lo hi)
  show ?case
  proof (cases "hi < lo")
    case True
    then show ?thesis by (auto simp: remove_files.simps [of root lo hi])
  next
    case False
    let ?fs = "os_remove (deriveBlockfilePath root hi) fs"
    have "os_Remove (deriveBlockfilePath root hi) fs = (Ok (), ?fs)" using "1.prems" [of hi] False by (auto simp: os_Remove_def)
    moreover obtain fs' where "remove_files root lo (hi - 1) ?fs = (Ok (), fs')" "dirs fs' = dirs ?fs" "faults fs' = faults ?fs"
      "\<And>q. os_read fs' q = (if \<exists>n. lo \<le> n \<and> n \<le> hi - 1 \<and> q = deriveBlockfilePath root n then None else os_read ?fs q)"
      using "1.IH" [OF False, of ?fs] "1.prems" by (auto simp: os_read_remove)
    moreover have "(\<exists>n. lo \<le> n \<and> n \<le> hi \<and> q = deriveBlockfilePath root n) \<longleftrightarrow>
        q = deriveBlockfilePath root hi \<or> (\<exists>n. lo \<le> n \<and> n \<le> hi - 1 \<and> q = deriveBlockfilePath root n)" for q
      using False by (metis linorder_not_less order_le_less zle_diff1_eq)
    moreover have "dirs ?fs = dirs fs" "faults ?fs = faults fs" by (simp_all add: os_remove_def)
    ultimately show ?thesis using False by (auto simp: remove_files.simps [of root lo hi] os_read_remove)
  qed
qed

section \<open>One ledger\<close>

definition recorded_height :: "string \<Rightarrow> os \<Rightarrow> uint64 result" where
  "recorded_height root fs =
     (case os_read fs (path_Join root fileNamePreRestHt) of None \<Rightarrow> Ok 0 | Some b \<Rightarrow> ParseUint (to_string b))"

lemma aux_names [simp]:
  "\<not> isBlockFileName fileNamePreRestHt" "\<not> isBlockFileName backupGenesisFile" "fileNamePreRestHt \<noteq> backupGenesisFile"
  "CHR ''/'' \<notin> set fileNamePreRestHt" "CHR ''/'' \<notin> set backupGenesisFile" "bootstrappingSnapshotInfoFile \<noteq> fileNamePreRestHt"
  "bootstrappingSnapshotInfoFile \<noteq> backupGenesisFile"
  by (simp_all add: fileNamePreRestHt_def backupGenesisFile_def isBlockFileName_def HasPrefix_def blockfilePrefix_def
      bootstrappingSnapshotInfoFile_def)

lemma path_Join_inject [simp]: "path_Join x n = path_Join x m \<longleftrightarrow> n = m"
  by (simp add: path_Join_def)

lemma ioutil_WriteFile_ok:
  "os_is_dir fs root \<Longrightarrow> \<not> os_is_dir fs (path_Join root n) \<Longrightarrow> CHR ''/'' \<notin> set n \<Longrightarrow> root \<noteq> '''' \<Longrightarrow>
     ioutil_WriteFile (path_Join root n) b fs = (Ok (), os_write (path_Join root n) b fs)"
  by (simp add: ioutil_WriteFile_def path_Dir_Join)

text \<open>The files of a ledger with at least one block, as an operator finds them.\<close>

definition ledger_files :: "string \<Rightarrow> Block list list \<Rightarrow> bytes \<Rightarrow> os \<Rightarrow> bool" where
  "ledger_files root bss t fs \<longleftrightarrow>
     chain_files root bss t fs \<and> no_gaps bss \<and> concat bss \<noteq> [] \<and> root \<noteq> '''' \<and>
     \<not> os_is_dir fs (path_Join root fileNamePreRestHt) \<and> \<not> os_is_dir fs (path_Join root backupGenesisFile)"

lemma ledger_files_dir: "ledger_files root bss t fs \<Longrightarrow> os_is_dir fs root \<and> bss \<noteq> []"
  by (auto simp: ledger_files_def chain_files_def block_file_names_def)

lemma constructBlockfilesInfo_ledger:
  assumes l: "ledger_files root bss t fs"
  shows "constructBlockfilesInfo C root fs = Ok \<lparr>latestFileNumber = int (length bss) - 1,
     latestFileSize = int (length (file_bytes (last bss))), noBlockFiles = (length bss = 1 \<and> last bss = []),
     lastPersistedBlock = last_number bss\<rparr>"
proof (rule constructBlockfilesInfo_chain)
  show "chain_files root bss t fs" "bss \<noteq> []" using l ledger_files_dir [OF l] by (simp_all add: ledger_files_def)
  assume "length bss \<ge> 2"
  then have "Suc (length bss - 2) < length bss" by simp
  then show "bss ! (length bss - 2) \<noteq> [] \<or> concat bss = []" using l by (simp add: ledger_files_def no_gaps_def)
qed

lemma recordHeight_effect:
  assumes l: "ledger_files root bss t fs" and h: "recorded_height root fs = Ok h"
  shows "\<exists>fs'. recordHeightIfGreaterThanPreviousRecording C root fs = (Ok (), fs') \<and>
     recorded_height root fs' = Ok (max h (last_number bss + 1)) \<and> dirs fs' = dirs fs \<and> faults fs' = faults fs \<and>
     (\<forall>q. q \<noteq> path_Join root fileNamePreRestHt \<longrightarrow> os_read fs' q = os_read fs q)"
proof -
  let ?f = "path_Join root fileNamePreRestHt" and ?cur = "last_number bss + 1"
  have ne: "bss \<noteq> []" "os_is_dir fs root" using ledger_files_dir [OF l] by simp_all
  note constructBlockfilesInfo_ledger [OF l, of C]
  moreover have "\<not> ?f \<in> set (dirs fs)" using l by (auto simp: ledger_files_def os_is_dir_def)
  then have "(if os_exists fs ?f then rbind (ioutil_ReadFile ?f fs) (\<lambda>b. ParseUint (to_string b)) else Ok 0) = Ok h"
    using h by (auto simp: recorded_height_def os_exists_def ioutil_ReadFile_def split: option.splits)
  ultimately have "recordHeightIfGreaterThanPreviousRecording C root fs =
      (if ?cur > h then ioutil_WriteFile ?f (to_bytes (FormatUint ?cur)) fs else (Ok (), fs))"
    by (simp add: recordHeightIfGreaterThanPreviousRecording_def pathExists_def Let_def)
  moreover have "ioutil_WriteFile ?f (to_bytes (FormatUint ?cur)) fs = (Ok (), os_write ?f (to_bytes (FormatUint ?cur)) fs)"
    using l ne by (intro ioutil_WriteFile_ok) (simp_all add: ledger_files_def)
  ultimately show ?thesis
  proof (cases "?cur > h")
    case True
    then show ?thesis
      using \<open>recordHeightIfGreaterThanPreviousRecording C root fs = _\<close> \<open>ioutil_WriteFile ?f _ fs = _\<close>
      by (auto simp: recorded_height_def os_read_write max_def)
  qed (use h in \<open>auto simp: max_def\<close>)
qed

lemma genesis_copy:
  assumes l: "ledger_files root bss t fs" and b: "bss ! 0 = b0 # bs" "Number (BHeader b0) = 0"
  shows "retrieveGenesisBlkOffsetAndMakeACopy C root fs =
     (Ok (deriveBlockfilePath root 0, int (length (file_bytes [b0]))), os_write (path_Join root backupGenesisFile) (block_layout b0) fs)"
proof -
  have ch: "chain_files root bss t fs" "0 < length bss" "os_is_dir fs root" using l ledger_files_dir [OF l] by (auto simp: ledger_files_def)
  have st: "stored_block b0" using chain_files_stored [OF ch(1,2), of b0] b(1) by simp
  have "os_read fs (deriveBlockfilePath root (int 0)) = Some (file_bytes (bss ! 0) @ (if Suc 0 = length bss then t else []))"
    using ch(1,2) unfolding chain_files_def by blast
  then obtain post where r: "os_read fs (deriveBlockfilePath root 0) = Some (raw (block_layout b0) @ post)" by (simp add: b(1))
  have "newBlockfileStream root 0 0 fs = Ok (stream_at (deriveBlockfilePath root 0) 0 (length ([] :: bytes)))"
    using r by (simp add: newBlockfileStream_Ok stream_at_def)
  moreover have "os_content fs (deriveBlockfilePath root 0) = [] @ raw (block_layout b0) @ post" using r by (simp add: os_content_def)
  ultimately have "\<exists>pl. stream_nextBlockBytesAndPlacementInfo (stream_at (deriveBlockfilePath root 0) 0 0) fs =
      Ok (Some (block_layout b0, pl), stream_at (deriveBlockfilePath root 0) 0 (length (raw (block_layout b0))))"
    using stream_next_frame_eq [of fs "deriveBlockfilePath root 0" "[]" "raw (block_layout b0) @ post" 0]
      next_frame_raw [of "block_layout b0" post] st
    by (auto simp: stored_block_def raw_frame)
  moreover have "ioutil_WriteFile (path_Join root backupGenesisFile) (block_layout b0) fs =
      (Ok (), os_write (path_Join root backupGenesisFile) (block_layout b0) fs)"
    using l ch(3) by (intro ioutil_WriteFile_ok) (simp_all add: ledger_files_def)
  ultimately show ?thesis
    using \<open>newBlockfileStream root 0 0 fs = _\<close> st b(2)
    by (auto simp: retrieveGenesisBlkOffsetAndMakeACopy_def assertIsGenesisBlock_def stored_block_codec stream_at_def)
qed

lemma int_files:
  "(\<exists>m. int i + 1 \<le> m \<and> m \<le> int n - 1 \<and> q = deriveBlockfilePath root m) \<longleftrightarrow>
   (\<exists>m. i < m \<and> m < n \<and> q = deriveBlockfilePath root (int m))"
proof
  assume "\<exists>m. int i + 1 \<le> m \<and> m \<le> int n - 1 \<and> q = deriveBlockfilePath root m"
  then obtain m where "int i + 1 \<le> m" "m \<le> int n - 1" "q = deriveBlockfilePath root m" by blast
  then show "\<exists>m. i < m \<and> m < n \<and> q = deriveBlockfilePath root (int m)" by (intro exI [of _ "nat m"]) auto
next
  assume "\<exists>m. i < m \<and> m < n \<and> q = deriveBlockfilePath root (int m)"
  then obtain m where "i < m" "m < n" "q = deriveBlockfilePath root (int m)" by blast
  then show "\<exists>m. int i + 1 \<le> m \<and> m \<le> int n - 1 \<and> q = deriveBlockfilePath root m" by (intro exI [of _ "int m"]) auto
qed

lemma cut_files:
  assumes ch: "chain_files root bss t fs" and i: "i < length bss" "k \<le> length (bss ! i)"
  shows "\<exists>fs1 fs'. remove_files root (int i + 1) (int (length bss) - 1) fs = (Ok (), fs1) \<and>
     os_Truncate (deriveBlockfilePath root (int i)) (length (file_bytes (take k (bss ! i)))) fs1 = (Ok (), fs') \<and>
     (\<forall>q. os_read fs1 q = (if \<exists>n. i < n \<and> n < length bss \<and> q = deriveBlockfilePath root (int n) then None else os_read fs q)) \<and>
     chain_files root (cut_chain i k bss) [] fs' \<and> dirs fs' = dirs fs \<and> faults fs' = faults fs \<and>
     (\<forall>q. (\<forall>i. q \<noteq> deriveBlockfilePath root (int i)) \<longrightarrow> os_read fs' q = os_read fs q)"
proof -
  let ?n = "length bss" and ?path = "deriveBlockfilePath root (int i)"
  have have_file: "os_read fs (deriveBlockfilePath root m) \<noteq> None" if m: "int i + 1 \<le> m" "m \<le> int ?n - 1" for m
  proof -
    have "nat m < ?n" "int (nat m) = m" using m by auto
    then show ?thesis using ch unfolding chain_files_def by (metis option.distinct(1))
  qed
  obtain fs1 where f1: "remove_files root (int i + 1) (int ?n - 1) fs = (Ok (), fs1)" "dirs fs1 = dirs fs" "faults fs1 = faults fs"
    "\<And>q. os_read fs1 q = (if \<exists>n. i < n \<and> n < ?n \<and> q = deriveBlockfilePath root (int n) then None else os_read fs q)"
    using remove_files_effect [of "int i + 1" "int ?n - 1" fs root] have_file unfolding int_files by blast
  have "os_read fs ?path = Some (file_bytes (bss ! i) @ (if Suc i = ?n then t else []))" using ch i(1) by (simp add: chain_files_def)
  moreover have "file_bytes (bss ! i) = file_bytes (take k (bss ! i)) @ file_bytes (drop k (bss ! i))"
    using file_bytes_simps(3) [of "take k (bss ! i)" "drop k (bss ! i)"] by simp
  ultimately obtain post where "os_read fs ?path = Some (file_bytes (take k (bss ! i)) @ post)" by auto
  then have "os_read fs1 ?path = Some (file_bytes (take k (bss ! i)) @ post)" by (auto simp: f1(4))
  then have tr: "os_Truncate ?path (length (file_bytes (take k (bss ! i)))) fs1 = (Ok (), os_write ?path (file_bytes (take k (bss ! i))) fs1)"
    by (simp add: os_Truncate_def)
  have "chain_files root (cut_chain i k bss) [] (os_write ?path (file_bytes (take k (bss ! i))) fs1)"
    by (rule chain_files_cut [OF ch i(1)]) (simp_all add: os_read_write f1(2,4))
  moreover have "os_read (os_write ?path (file_bytes (take k (bss ! i))) fs1) q = os_read fs q"
    if "\<And>i. q \<noteq> deriveBlockfilePath root (int i)" for q
    using that by (auto simp: os_read_write f1(4))
  ultimately show ?thesis using f1 tr by auto
qed

lemma first_file: "no_gaps bss \<Longrightarrow> concat bss \<noteq> [] \<Longrightarrow> bss ! 0 = hd (concat bss) # tl (bss ! 0)"
proof -
  assume g: "no_gaps bss" "concat bss \<noteq> []"
  then obtain bs bss' where bss: "bss = bs # bss'" by (cases bss) auto
  have "bs \<noteq> []" using g unfolding bss no_gaps_def by (cases bss') auto
  then show ?thesis by (simp add: bss)
qed

lemma reset_effect:
  assumes l: "ledger_files root bss t fs" and b: "Number (BHeader (hd (concat bss))) = 0"
  shows "\<exists>fs'. resetToGenesisBlk C root fs = (Ok (), fs') \<and> chain_files root [[hd (concat bss)]] [] fs' \<and>
     dirs fs' = dirs fs \<and> faults fs' = faults fs \<and>
     (\<forall>q. q \<noteq> path_Join root backupGenesisFile \<longrightarrow> (\<forall>i. q \<noteq> deriveBlockfilePath root (int i)) \<longrightarrow> os_read fs' q = os_read fs q)"
proof -
  let ?b0 = "hd (concat bss)"
  let ?fs = "os_write (path_Join root backupGenesisFile) (block_layout ?b0) fs"
  have b0: "bss ! 0 = ?b0 # tl (bss ! 0)" using l by (intro first_file) (simp_all add: ledger_files_def)
  then have t1: "take 1 (bss ! 0) = [?b0]" "1 \<le> length (bss ! 0)" by (metis take_Suc_Cons take0 One_nat_def, metis One_nat_def Suc_le_mono le0 length_Cons)
  have ch: "chain_files root bss t fs" "0 < length bss" using l ledger_files_dir [OF l] by (auto simp: ledger_files_def)
  have ch': "chain_files root bss t ?fs"
    by (rule chain_files_other [OF ch(1), of backupGenesisFile]) (simp_all add: os_read_write)
  obtain fs1 fs' where f: "remove_files root 1 (int (length bss) - 1) ?fs = (Ok (), fs1)"
    "os_Truncate (deriveBlockfilePath root 0) (length (file_bytes [?b0])) fs1 = (Ok (), fs')"
    "chain_files root (cut_chain 0 1 bss) [] fs'" "dirs fs' = dirs fs" "faults fs' = faults fs"
    "\<And>q. (\<forall>i. q \<noteq> deriveBlockfilePath root (int i)) \<Longrightarrow> os_read fs' q = os_read ?fs q"
    using cut_files [OF ch' ch(2) t1(2)] unfolding t1(1) by auto
  have "retrieveLastFileSuffix root fs = Ok (int (length bss) - 1)"
    using ch(1) by (intro retrieveLastFileSuffix_names) (simp add: chain_files_def)
  then have "resetToGenesisBlk C root fs = (Ok (), fs')"
    using genesis_copy [OF l b0 b] f(1,2) ch(2) by (simp add: resetToGenesisBlk_def)
  moreover have "cut_chain 0 1 bss = [[?b0]]" by (simp add: cut_chain_def t1(1) [unfolded One_nat_def])
  ultimately show ?thesis using f(3-6) by (auto simp: os_read_write)
qed

section \<open>All ledgers\<close>

text \<open>The paths that resetting a ledger may change.\<close>

definition reset_paths :: "string \<Rightarrow> string set" where
  "reset_paths root = insert (path_Join root backupGenesisFile) (insert (path_Join root fileNamePreRestHt)
     (range (\<lambda>i. deriveBlockfilePath root (int i))))"

lemma reset_paths_Join: "q \<in> reset_paths root \<Longrightarrow> \<exists>n. q = path_Join root n \<and> CHR ''/'' \<notin> set n"
  by (auto simp: reset_paths_def deriveBlockfilePath_Join simp del: set_append intro: block_file_name_no_slash)

lemma bootstrap_not_reset [simp]: "path_Join root bootstrappingSnapshotInfoFile \<notin> reset_paths root"
  using bootstrap_file_name [of root] by (auto simp: reset_paths_def dest: sym)

lemma reset_ledger_effect:
  assumes l: "ledger_files root bss t fs" and b: "Number (BHeader (hd (concat bss))) = 0" and h: "recorded_height root fs = Ok h"
  shows "\<exists>fs1 fs'. recordHeightIfGreaterThanPreviousRecording C root fs = (Ok (), fs1) \<and> resetToGenesisBlk C root fs1 = (Ok (), fs') \<and>
     chain_files root [[hd (concat bss)]] [] fs' \<and> recorded_height root fs' = Ok (max h (last_number bss + 1)) \<and>
     dirs fs' = dirs fs \<and> faults fs' = faults fs \<and> (\<forall>q. q \<notin> reset_paths root \<longrightarrow> os_read fs' q = os_read fs q)"
proof -
  obtain fs1 where 1: "recordHeightIfGreaterThanPreviousRecording C root fs = (Ok (), fs1)"
    "recorded_height root fs1 = Ok (max h (last_number bss + 1))" "dirs fs1 = dirs fs" "faults fs1 = faults fs"
    "\<And>q. q \<noteq> path_Join root fileNamePreRestHt \<Longrightarrow> os_read fs1 q = os_read fs q"
    using recordHeight_effect [OF l h] by blast
  have "chain_files root bss t fs1"
    by (rule chain_files_other [of root bss t fs fileNamePreRestHt]) (use l 1 in \<open>simp_all add: ledger_files_def\<close>)
  then have "ledger_files root bss t fs1" using l 1(3) by (simp add: ledger_files_def os_is_dir_def)
  then obtain fs' where 2: "resetToGenesisBlk C root fs1 = (Ok (), fs')" "chain_files root [[hd (concat bss)]] [] fs'"
    "dirs fs' = dirs fs1" "faults fs' = faults fs1"
    "\<And>q. q \<noteq> path_Join root backupGenesisFile \<Longrightarrow> (\<forall>i. q \<noteq> deriveBlockfilePath root (int i)) \<Longrightarrow> os_read fs' q = os_read fs1 q"
    using reset_effect [OF _ b] by blast
  have "fileNamePreRestHt \<noteq> block_file_name i" for i using aux_names(1) isBlockFileName_block_file_name by metis
  then have "os_read fs' (path_Join root fileNamePreRestHt) = os_read fs1 (path_Join root fileNamePreRestHt)"
    by (intro 2(5)) (simp_all add: deriveBlockfilePath_Join)
  moreover have "os_read fs' q = os_read fs q" if "q \<notin> reset_paths root" for q
    using that 1(5) [of q] 2(5) [of q] by (auto simp: reset_paths_def)
  ultimately show ?thesis using 1 2 by (auto simp: recorded_height_def)
qed

lemma slash_split: "CHR ''/'' \<notin> set a \<Longrightarrow> CHR ''/'' \<notin> set b \<Longrightarrow> a @ ''/'' @ x = b @ ''/'' @ y \<longleftrightarrow> a = b \<and> x = y"
proof (induction a arbitrary: b)
  case Nil
  then show ?case by (cases b) auto
next
  case (Cons c a)
  then show ?case by (cases b) auto
qed

lemma other_ledger_path:
  assumes "CHR ''/'' \<notin> set a" "CHR ''/'' \<notin> set b" "a \<noteq> b"
  shows "path_Join (getLedgerBlockDir conf a) n \<notin> reset_paths (getLedgerBlockDir conf b)"
  using assms slash_split [of a b] by (auto simp: getLedgerBlockDir_def path_Join_def dest!: reset_paths_Join)

lemma ledger_files_cong:
  assumes "ledger_files root bss t fs" "\<And>n. os_read fs' (path_Join root n) = os_read fs (path_Join root n)"
    and "os_is_dir fs' root" "\<And>q. os_is_dir fs' q \<Longrightarrow> os_is_dir fs q"
  shows "ledger_files root bss t fs'"
  using assms by (auto simp: ledger_files_def chain_files_def block_file_names_def deriveBlockfilePath_Join)

lemma chain_files_reads:
  assumes "chain_files root bss t fs" "\<And>n. os_read fs' (path_Join root n) = os_read fs (path_Join root n)" "os_is_dir fs' root"
  shows "chain_files root bss t fs'"
  using assms by (simp add: chain_files_def block_file_names_def deriveBlockfilePath_Join)

lemma recorded_height_cong:
  "(\<And>n. os_read fs' (path_Join root n) = os_read fs (path_Join root n)) \<Longrightarrow> recorded_height root fs' = recorded_height root fs"
  by (simp add: recorded_height_def)

lemma reset_ledgers_effect:
  assumes "distinct ids" and "\<And>id. id \<in> set ids \<Longrightarrow> CHR ''/'' \<notin> set id \<and> Number (BHeader (hd (concat (bss id)))) = 0 \<and>
     ledger_files (getLedgerBlockDir conf id) (bss id) (t id) fs \<and> recorded_height (getLedgerBlockDir conf id) fs = Ok (h id)"
  shows "\<exists>fs'. reset_ledgers C conf ids fs = (Ok (), fs') \<and> dirs fs' = dirs fs \<and> faults fs' = faults fs \<and>
     (\<forall>id \<in> set ids. chain_files (getLedgerBlockDir conf id) [[hd (concat (bss id))]] [] fs' \<and>
        recorded_height (getLedgerBlockDir conf id) fs' = Ok (max (h id) (last_number (bss id) + 1))) \<and>
     (\<forall>q. (\<forall>id \<in> set ids. q \<notin> reset_paths (getLedgerBlockDir conf id)) \<longrightarrow> os_read fs' q = os_read fs q)"
  using assms
proof (induction ids arbitrary: fs)
  case (Cons a ids)
  let ?dir = "getLedgerBlockDir conf"
  note a = Cons.prems(2) [of a, simplified]
  obtain fs1 fs2 where 1: "recordHeightIfGreaterThanPreviousRecording C (?dir a) fs = (Ok (), fs1)" "resetToGenesisBlk C (?dir a) fs1 = (Ok (), fs2)"
    "chain_files (?dir a) [[hd (concat (bss a))]] [] fs2" "recorded_height (?dir a) fs2 = Ok (max (h a) (last_number (bss a) + 1))"
    "dirs fs2 = dirs fs" "faults fs2 = faults fs" "\<And>q. q \<notin> reset_paths (?dir a) \<Longrightarrow> os_read fs2 q = os_read fs q"
    using reset_ledger_effect [of "?dir a" "bss a" "t a" fs "h a" C] a by blast
  have d: "os_is_dir fs2 q \<longleftrightarrow> os_is_dir fs q" for q by (simp add: os_is_dir_def 1(5))
  have "CHR ''/'' \<notin> set id \<and> Number (BHeader (hd (concat (bss id)))) = 0 \<and>
      ledger_files (?dir id) (bss id) (t id) fs2 \<and> recorded_height (?dir id) fs2 = Ok (h id)" if id: "id \<in> set ids" for id
  proof -
    have P: "CHR ''/'' \<notin> set id" "Number (BHeader (hd (concat (bss id)))) = 0" "ledger_files (?dir id) (bss id) (t id) fs"
      "recorded_height (?dir id) fs = Ok (h id)" using Cons.prems(2) [of id] id by simp_all
    have "id \<noteq> a" using Cons.prems(1) id by auto
    then have s: "os_read fs2 (path_Join (?dir id) n) = os_read fs (path_Join (?dir id) n)" for n
      using other_ledger_path [of id a conf n] P(1) a by (intro 1(7)) simp
    have "ledger_files (?dir id) (bss id) (t id) fs2"
      by (rule ledger_files_cong [OF P(3) s]) (use d ledger_files_dir [OF P(3)] in simp_all)
    then show ?thesis using P recorded_height_cong [OF s] by simp
  qed
  then obtain fs' where 2: "reset_ledgers C conf ids fs2 = (Ok (), fs')" "dirs fs' = dirs fs2" "faults fs' = faults fs2"
    "\<forall>id \<in> set ids. chain_files (?dir id) [[hd (concat (bss id))]] [] fs' \<and> recorded_height (?dir id) fs' = Ok (max (h id) (last_number (bss id) + 1))"
    "\<And>q. (\<forall>id \<in> set ids. q \<notin> reset_paths (?dir id)) \<Longrightarrow> os_read fs' q = os_read fs2 q"
    using Cons.IH [of fs2] Cons.prems(1) by auto
  have same: "os_read fs' (path_Join (?dir a) n) = os_read fs2 (path_Join (?dir a) n)" for n
    using Cons.prems a other_ledger_path [of a _ conf n] by (intro 2(5)) auto
  have "os_is_dir fs' (?dir a)" using d a ledger_files_dir [of "?dir a" "bss a" "t a" fs] by (simp add: os_is_dir_def 2(2))
  then have "chain_files (?dir a) [[hd (concat (bss a))]] [] fs'" "recorded_height (?dir a) fs' = Ok (max (h a) (last_number (bss a) + 1))"
    using chain_files_reads [OF 1(3) same] recorded_height_cong [of fs' "?dir a" fs2, OF same] 1(4) by simp_all
  then show ?case using 1(1,2,5,6,7) 2 by auto
qed simp

section \<open>The whole store\<close>

lemma fold_RemoveAll:
  assumes "\<And>c. c \<in> set cs \<Longrightarrow> \<not> below (path_Join dir (fst c)) q"
  shows "os_read (fold (\<lambda>c. os_RemoveAll (path_Join dir (fst c))) cs fs) q = os_read fs q \<and>
     (q \<in> set (dirs (fold (\<lambda>c. os_RemoveAll (path_Join dir (fst c))) cs fs)) \<longleftrightarrow> q \<in> set (dirs fs))"
  using assms
proof (induction cs arbitrary: fs)
  case (Cons c cs)
  have "\<not> below (path_Join dir (fst c)) q" using Cons.prems by simp
  then have "os_read (os_RemoveAll (path_Join dir (fst c)) fs) q = os_read fs q"
    "q \<in> set (dirs (os_RemoveAll (path_Join dir (fst c)) fs)) \<longleftrightarrow> q \<in> set (dirs fs)"
    by (simp_all add: os_read_RemoveAll) (simp add: os_RemoveAll_def)
  then show ?case using Cons.IH [of "os_RemoveAll (path_Join dir (fst c)) fs"] Cons.prems by simp
qed simp

lemma fold_RemoveAll_dirs:
  "set (dirs (fold (\<lambda>c. os_RemoveAll (path_Join dir (fst c))) cs fs)) \<subseteq> set (dirs fs) \<and>
   faults (fold (\<lambda>c. os_RemoveAll (path_Join dir (fst c))) cs fs) = faults fs"
proof (induction cs arbitrary: fs)
  case (Cons c cs)
  have "set (dirs (os_RemoveAll p fs)) \<subseteq> set (dirs fs)" "faults (os_RemoveAll p fs) = faults fs" for p by (auto simp: os_RemoveAll_def)
  then show ?case using Cons.IH by fastforce
qed simp

lemma RemoveContents_effect:
  assumes "os_read fs dir = None"
  shows "\<exists>fs'. RemoveContents dir fs = (Ok (), fs') \<and> set (dirs fs') \<subseteq> set (dirs fs) \<and> faults fs' = faults fs \<and>
     (\<forall>q. \<not> HasPrefix q (dir @ ''/'') \<longrightarrow> os_read fs' q = os_read fs q \<and> (q \<in> set (dirs fs') \<longleftrightarrow> q \<in> set (dirs fs)))"
proof (cases "os_is_dir fs dir")
  case False
  then show ?thesis using assms by (auto simp: RemoveContents_def os_ReadDir_def)
next
  case True
  then obtain cs where cs: "os_ReadDir dir fs = Ok cs" by (auto simp: os_ReadDir_def)
  let ?fs = "fold (\<lambda>c. os_RemoveAll (path_Join dir (fst c))) cs fs"
  have b: "\<not> below (path_Join dir c) q" if "\<not> HasPrefix q (dir @ ''/'')" for c q
    using that by (auto simp: below_def path_Join_def HasPrefix_iff)
  have "\<not> HasPrefix dir (dir @ ''/'')" by (auto simp: HasPrefix_iff dest: arg_cong [of _ _ length])
  then have "SyncDir dir ?fs = Ok ()"
    using True fold_RemoveAll [of cs dir dir fs] b by (auto simp: SyncDir_def os_is_dir_def)
  then show ?thesis using cs fold_RemoveAll [of cs dir _ fs] fold_RemoveAll_dirs [of dir cs fs] b by (auto simp: RemoveContents_def Let_def)
qed

lemma ListSubdirs_dirs:
  assumes "os_is_dir fs dir"
  shows "\<exists>ids. ListSubdirs dir fs = Ok ids \<and> distinct ids \<and>
     (\<forall>id. id \<in> set ids \<longleftrightarrow> id \<noteq> '''' \<and> CHR ''/'' \<notin> set id \<and> path_Join dir id \<in> set (dirs fs))"
proof -
  let ?fl = "List.map_filter (child_name dir) (map fst (files fs))" and ?ds = "List.map_filter (child_name dir) (remdups (dirs fs))"
  let ?es = "sort_key (\<lambda>e. to_bytes (fst e)) (map (\<lambda>n. (n, False)) ?fl @ map (\<lambda>n. (n, True)) ?ds)"
  have l: "ListSubdirs dir fs = Ok (map fst (filter snd ?es))" using assms by (simp add: ListSubdirs_def os_ReadDir_def)
  have c: "child_name dir (path_Join dir n) = Some n" if "n \<noteq> ''''" "CHR ''/'' \<notin> set n" for n using that by (simp add: child_name_iff)
  have "distinct ?ds"
    unfolding List.map_filter_def by (auto simp: distinct_map inj_on_def child_name_iff c)
  moreover have "filter snd ?es = sort_key (\<lambda>e. to_bytes (fst e)) (map (\<lambda>n. (n, True)) ?ds)"
    by (simp add: filter_sort filter_map comp_def)
  ultimately have "distinct (map fst (filter snd ?es))" "set (map fst (filter snd ?es)) = set ?ds"
    by (simp_all add: distinct_map inj_on_def image_image)
  then show ?thesis using l by (auto simp: set_map_filter_child)
qed

text \<open>
  A store of ledgers before a reset: every directory below the directory of the chains is a ledger with
  the blocks \<open>bss lid\<close>, none of them started from a snapshot, and \<open>h lid\<close> is the height recorded so far.
\<close>

abbreviation store_conf :: "string \<Rightarrow> Conf" where "store_conf dir \<equiv> \<lparr>blockStorageDir = dir, maxBlockfileSize = 0\<rparr>"

definition ledger_id :: "string \<Rightarrow> os \<Rightarrow> string \<Rightarrow> bool" where
  "ledger_id dir fs lid \<longleftrightarrow> lid \<noteq> '''' \<and> CHR ''/'' \<notin> set lid \<and> getLedgerBlockDir (store_conf dir) lid \<in> set (dirs fs)"

definition ledger_ok :: "codec \<Rightarrow> string \<Rightarrow> Block list list \<Rightarrow> bytes \<Rightarrow> uint64 \<Rightarrow> os \<Rightarrow> bool" where
  "ledger_ok C root bss t h fs \<longleftrightarrow>
     ledger_files root bss t fs \<and> chain_ok C 0 [] bss \<and> recorded_height root fs = Ok h \<and> creatable root fs \<and>
     (\<forall>i. \<not> os_is_dir fs (deriveBlockfilePath root i)) \<and> os_read fs (path_Join root bootstrappingSnapshotInfoFile) = None"

definition ledgers_ok :: "codec \<Rightarrow> string \<Rightarrow> (string \<Rightarrow> Block list list) \<Rightarrow> (string \<Rightarrow> bytes) \<Rightarrow> (string \<Rightarrow> uint64) \<Rightarrow> machine \<Rightarrow> bool" where
  "ledgers_ok C dir bss t h mm \<longleftrightarrow>
     getChainsDir (store_conf dir) \<in> set (dirs (m_os mm)) \<and> os_read (m_os mm) (getIndexDir (store_conf dir)) = None \<and>
     faults (m_os mm) = [] \<and> db_faults (m_db mm) = [] \<and>
     (\<forall>lid. ledger_id dir (m_os mm) lid \<longrightarrow> ledger_ok C (getLedgerBlockDir (store_conf dir) lid) (bss lid) (t lid) (h lid) (m_os mm))"

lemma chains_not_index:
  "\<not> HasPrefix (path_Join (getLedgerBlockDir (store_conf dir) lid) n) (getIndexDir (store_conf dir) @ ''/'')"
  "\<not> HasPrefix (getLedgerBlockDir (store_conf dir) lid) (getIndexDir (store_conf dir) @ ''/'')"
  "\<not> HasPrefix (getChainsDir (store_conf dir)) (getIndexDir (store_conf dir) @ ''/'')"
  by (auto simp: getLedgerBlockDir_def getChainsDir_def getIndexDir_def path_Join_def HasPrefix_iff ChainsDir_def)

lemma root_prefix:
  assumes "CHR ''/'' \<notin> set lid" "q \<in> set (path_prefixes (getLedgerBlockDir conf lid) @ [getLedgerBlockDir conf lid])"
  shows "q \<notin> reset_paths (getLedgerBlockDir conf lid')"
proof
  assume "q \<in> reset_paths (getLedgerBlockDir conf lid')"
  then obtain n where n: "q = getChainsDir conf @ ''/'' @ lid' @ ''/'' @ n" by (auto simp: getLedgerBlockDir_def path_Join_def dest!: reset_paths_Join)
  let ?r = "getChainsDir conf @ ''/'' @ lid"
  consider "q = ?r" | i where "q = take i ?r" "i < length ?r" "?r ! i = CHR ''/''"
    using assms(2) by (auto simp: path_prefixes_def getLedgerBlockDir_def path_Join_def)
  then show False
  proof cases
    case 1
    then have "lid = lid' @ ''/'' @ n" using n by simp
    then show False using assms(1) by simp
  next
    case 2
    have "\<not> length (getChainsDir conf) < i"
    proof
      assume "length (getChainsDir conf) < i"
      then have "?r ! i = lid ! (i - Suc (length (getChainsDir conf)))" "i - Suc (length (getChainsDir conf)) < length lid"
        using 2(2) by (simp_all add: nth_append)
      then show False using 2(3) assms(1) nth_mem by metis
    qed
    then have "length q \<le> length (getChainsDir conf)" using 2 by simp
    then show False using n by simp
  qed
qed

lemma creatable_reset:
  assumes c: "creatable (getLedgerBlockDir conf lid) fs" and lid: "CHR ''/'' \<notin> set lid"
    and r: "\<And>q. (\<forall>i. CHR ''/'' \<notin> set i \<longrightarrow> q \<notin> reset_paths (getLedgerBlockDir conf i)) \<Longrightarrow> os_read fs' q = os_read fs q"
  shows "creatable (getLedgerBlockDir conf lid) fs'"
  unfolding creatable_def list_all_iff
proof
  fix q assume q: "q \<in> set (path_prefixes (getLedgerBlockDir conf lid) @ [getLedgerBlockDir conf lid])"
  then have "os_read fs' q = os_read fs q" using root_prefix [OF lid] by (intro r) blast
  then show "os_read fs' q = None" using c q unfolding creatable_def list_all_iff by auto
qed

lemma chain_ok_take:
  assumes c: "chain_ok C base h0 bss" and b: "bss' \<noteq> []" "concat bss' = take n (concat bss)" "placed bss' = take n (placed bss)"
  shows "chain_ok C base h0 bss'"
proof -
  have "numbered base (take n (concat bss))"
    using c numbered_prefix [of base "take n (concat bss)" "drop n (concat bss)"] by (simp add: chain_ok_def)
  moreover have "base + length (take n (concat bss)) < 2 ^ 64 - 1" using c by (simp add: chain_ok_def min_def)
  moreover have "linked h0 (take n (concat bss))" using c by (simp add: chain_ok_def linked_def min_def)
  moreover have "\<forall>b \<in> set (take n (concat bss)). block_ok C b" "\<forall>p \<in> set (take n (placed bss)). place_ok p"
    using c by (auto simp: chain_ok_def simp del: set_concat dest!: in_set_takeD)
  ultimately show ?thesis using b unfolding chain_ok_def by simp
qed

lemma chain_ok_cut:
  "chain_ok C base h0 bss \<Longrightarrow> i < length bss \<Longrightarrow> k \<le> length (bss ! i) \<Longrightarrow> chain_ok C base h0 (cut_chain i k bss)"
  by (rule chain_ok_take) (simp_all add: concat_cut_chain placed_cut_chain, simp add: cut_chain_def)

lemma genesis_cut:
  assumes "no_gaps bss" "concat bss \<noteq> []"
  shows "[[hd (concat bss)]] = cut_chain 0 1 bss" "0 < length bss" "1 \<le> length (bss ! 0)"
proof -
  have "\<exists>b bs. bss ! 0 = b # bs \<and> b = hd (concat bss)" using first_file [OF assms] by blast
  then show "[[hd (concat bss)]] = cut_chain 0 1 bss" "1 \<le> length (bss ! 0)" by (auto simp: cut_chain_def)
  show "0 < length bss" using assms(2) by auto
qed

lemma genesis_number: "chain_ok C 0 h0 bss \<Longrightarrow> concat bss \<noteq> [] \<Longrightarrow> Number (BHeader (hd (concat bss))) = 0"
  by (simp add: chain_ok_def numbered_def hd_conv_nth del: concat_eq_Nil_conv)

lemma index_dropped:
  assumes "ledgers_ok C dir bss t h mm"
  shows "\<exists>fs. DeleteBlockStoreIndex dir mm = (Ok (), \<lparr>m_os = fs, m_db = (m_db mm)\<lparr>entries := []\<rparr>\<rparr>) \<and> faults fs = [] \<and>
     getChainsDir (store_conf dir) \<in> set (dirs fs) \<and>
     (\<forall>lid. ledger_id dir fs lid \<longrightarrow> ledger_ok C (getLedgerBlockDir (store_conf dir) lid) (bss lid) (t lid) (h lid) fs) \<and>
     (\<forall>lid. ledger_id dir (m_os mm) lid \<longrightarrow> ledger_id dir fs lid)"
proof -
  let ?idx = "getIndexDir (store_conf dir)" and ?root = "getLedgerBlockDir (store_conf dir)"
  obtain fs where fs: "RemoveContents ?idx (m_os mm) = (Ok (), fs)" "set (dirs fs) \<subseteq> set (dirs (m_os mm))" "faults fs = faults (m_os mm)"
    "\<And>q. \<not> HasPrefix q (?idx @ ''/'') \<Longrightarrow> os_read fs q = os_read (m_os mm) q \<and> (q \<in> set (dirs fs) \<longleftrightarrow> q \<in> set (dirs (m_os mm)))"
    using RemoveContents_effect [of "m_os mm" ?idx] assms by (auto simp: ledgers_ok_def)
  have r: "os_read fs (path_Join (?root lid) n) = os_read (m_os mm) (path_Join (?root lid) n)" for lid n
    using fs(4) chains_not_index(1) by blast
  have id: "ledger_id dir fs lid \<longleftrightarrow> ledger_id dir (m_os mm) lid" for lid
    using fs(4) [of "?root lid"] chains_not_index(2) by (simp add: ledger_id_def)
  have "ledger_ok C (?root lid) (bss lid) (t lid) (h lid) fs" if "ledger_id dir fs lid" for lid
  proof -
    have L: "ledger_ok C (?root lid) (bss lid) (t lid) (h lid) (m_os mm)" "?root lid \<in> set (dirs fs)"
      using that id assms by (auto simp: ledgers_ok_def ledger_id_def)
    have sub: "os_is_dir fs q \<Longrightarrow> os_is_dir (m_os mm) q" for q using fs(2) by (auto simp: os_is_dir_def)
    have "ledger_files (?root lid) (bss lid) (t lid) fs"
      by (rule ledger_files_cong [OF _ r]) (use L sub in \<open>auto simp: ledger_ok_def os_is_dir_def\<close>)
    moreover have "creatable (?root lid) fs"
      unfolding creatable_def list_all_iff
    proof
      fix q assume q: "q \<in> set (path_prefixes (?root lid) @ [?root lid])"
      then have "os_read (m_os mm) q = None" using L(1) by (auto simp: ledger_ok_def creatable_def list_all_iff)
      moreover have "\<not> HasPrefix q (?idx @ ''/'')"
      proof
        assume p: "HasPrefix q (?idx @ ''/'')"
        have "\<exists>r. ?root lid = q @ r" using q by (auto simp: path_prefixes_def) (metis append_take_drop_id)
        then have "HasPrefix (?root lid) (?idx @ ''/'')" using p by (auto simp: HasPrefix_iff)
        then show False using chains_not_index(2) by blast
      qed
      ultimately show "os_read fs q = None" using fs(4) by simp
    qed
    ultimately show ?thesis
      using L(1) sub r recorded_height_cong [of fs "?root lid" "m_os mm", OF r] by (auto simp: ledger_ok_def)
  qed
  moreover have "DeleteBlockStoreIndex dir mm = (Ok (), \<lparr>m_os = fs, m_db = (m_db mm)\<lparr>entries := []\<rparr>\<rparr>)"
    using fs(1) by (cases mm) (simp add: DeleteBlockStoreIndex_def on_os_def io_zoom_def io_bind_def)
  moreover have "getChainsDir (store_conf dir) \<in> set (dirs fs)"
    using fs(4) chains_not_index(3) assms by (simp add: ledgers_ok_def)
  ultimately show ?thesis using fs(3) id assms by (auto simp: ledgers_ok_def)
qed

lemma LoadPreResetHeight_recorded:
  assumes "recorded_height (getLedgerBlockDir (store_conf dir) lid) fs = Ok v" "v \<noteq> 0" "getChainsDir (store_conf dir) \<in> set (dirs fs)"
  shows "LoadPreResetHeight dir [lid] fs = Ok [(lid, v)]"
proof -
  let ?f = "path_Join (getLedgerBlockDir (store_conf dir) lid) fileNamePreRestHt"
  obtain b where b: "os_read fs ?f = Some b" "ParseUint (to_string b) = Ok v"
    using assms(1,2) by (auto simp: recorded_height_def split: option.splits)
  then have "pathExists ?f fs = Ok True" "pathExists (getChainsDir (store_conf dir)) fs = Ok True"
    using assms(3) by (simp_all add: pathExists_def os_exists_def)
  then show ?thesis using b by (simp add: LoadPreResetHeight_def preResetHtFiles_def ioutil_ReadFile_def)
qed

lemma height_after_last: "chain_ok C 0 h0 bss \<Longrightarrow> concat bss \<noteq> [] \<Longrightarrow> last_number bss + 1 = num64 (length (concat bss))"
proof -
  assume c: "chain_ok C 0 h0 bss" "concat bss \<noteq> []"
  then have l: "length (concat bss) < 2 ^ 64 - 1" "0 < length (concat bss)"
    by (simp_all add: chain_ok_def del: concat_eq_Nil_conv)
  have "last_number bss = num64 (length (concat bss) - 1)"
    using c last_number_chain [of 0 bss] by (simp add: chain_ok_def del: concat_eq_Nil_conv)
  then show ?thesis using l num64_Suc [of "length (concat bss) - 1"] by simp
qed

lemma reset_disk:
  assumes l: "ledger_ok C root bss t h fs" and ch: "chain_files root [[hd (concat bss)]] [] fs'"
    and d: "dirs fs' = dirs fs" "faults fs' = []" "db_faults db = []" "entries db = []"
    and r: "os_read fs' (path_Join root bootstrappingSnapshotInfoFile) = os_read fs (path_Join root bootstrappingSnapshotInfoFile)"
    and a: "IndexableAttrBlockNum \<in> set attrs"
  shows "disk C root (newBlockIndex attrs st) [[hd (concat bss)]] [] 0 \<lparr>m_os = fs', m_db = db\<rparr>"
proof -
  have g: "no_gaps bss" "concat bss \<noteq> []" "chain_ok C 0 [] bss" using l by (auto simp: ledger_ok_def ledger_files_def)
  have "chain_ok C 0 [] [[hd (concat bss)]]" unfolding genesis_cut(1) [OF g(1,2)] using chain_ok_cut [OF g(3)] genesis_cut(2,3) [OF g(1,2)] by blast
  moreover have "files_of root [[hd (concat bss)]] [] (fs'\<lparr>dirs := root # dirs fs'\<rparr>)"
    using ch by (auto simp: files_of_def chain_files_def block_file_names_def os_read_def os_is_dir_def)
  moreover have "idx_view C (newBlockIndex attrs st) 0 [] db"
    using idx_view_empty [OF d(4), of "newBlockIndex attrs st"] a by (simp add: isAttributeIndexed_def newBlockIndex_def)
  moreover have "loadBlkfilesInfo (idx_db (newBlockIndex attrs st)) db = Ok None"
    using d(4) by (simp add: loadBlkfilesInfo_def DBHandle_Get_def DB_Get_def)
  ultimately show ?thesis using l d r by (auto simp: disk_def no_gaps_def ledger_ok_def os_is_dir_def)
qed

lemma ResetBlockStore_effect:
  assumes "ledgers_ok C dir bss t h mm"
  shows "\<exists>fs fs'. ResetBlockStore C dir mm = (Ok (), \<lparr>m_os = fs', m_db = (m_db mm)\<lparr>entries := []\<rparr>\<rparr>) \<and> faults fs' = [] \<and> dirs fs' = dirs fs \<and>
     getChainsDir (store_conf dir) \<in> set (dirs fs) \<and>
     (\<forall>lid. ledger_id dir (m_os mm) lid \<longrightarrow> CHR ''/'' \<notin> set lid \<and>
       ledger_ok C (getLedgerBlockDir (store_conf dir) lid) (bss lid) (t lid) (h lid) fs \<and>
       chain_files (getLedgerBlockDir (store_conf dir) lid) [[hd (concat (bss lid))]] [] fs' \<and>
       recorded_height (getLedgerBlockDir (store_conf dir) lid) fs' = Ok (max (h lid) (last_number (bss lid) + 1))) \<and>
     (\<forall>q. (\<forall>lid. CHR ''/'' \<notin> set lid \<longrightarrow> q \<notin> reset_paths (getLedgerBlockDir (store_conf dir) lid)) \<longrightarrow> os_read fs' q = os_read fs q)"
proof -
  let ?root = "getLedgerBlockDir (store_conf dir)" and ?chains = "getChainsDir (store_conf dir)"
  obtain fs where fs: "DeleteBlockStoreIndex dir mm = (Ok (), \<lparr>m_os = fs, m_db = (m_db mm)\<lparr>entries := []\<rparr>\<rparr>)" "faults fs = []"
    "?chains \<in> set (dirs fs)" "\<And>lid. ledger_id dir fs lid \<Longrightarrow> ledger_ok C (?root lid) (bss lid) (t lid) (h lid) fs"
    "\<And>lid. ledger_id dir (m_os mm) lid \<Longrightarrow> ledger_id dir fs lid"
    using index_dropped [OF assms] by blast
  then have d: "os_is_dir fs ?chains" "pathExists ?chains fs = Ok True" by (simp_all add: os_is_dir_def pathExists_def os_exists_def)
  obtain ids where ids: "ListSubdirs ?chains fs = Ok ids" "distinct ids" "\<And>lid. lid \<in> set ids \<longleftrightarrow> ledger_id dir fs lid"
    using ListSubdirs_dirs [OF d(1)] by (auto simp: ledger_id_def getLedgerBlockDir_def)
  have L: "CHR ''/'' \<notin> set lid \<and> Number (BHeader (hd (concat (bss lid)))) = 0 \<and> ledger_files (?root lid) (bss lid) (t lid) fs \<and>
      recorded_height (?root lid) fs = Ok (h lid)" if "lid \<in> set ids" for lid
    using fs(4) [of lid] that ids(3) genesis_number [of C "[]" "bss lid"] by (auto simp: ledger_id_def ledger_ok_def ledger_files_def)
  obtain fs' where f: "reset_ledgers C (store_conf dir) ids fs = (Ok (), fs')" "dirs fs' = dirs fs" "faults fs' = faults fs"
    "\<forall>lid \<in> set ids. chain_files (?root lid) [[hd (concat (bss lid))]] [] fs' \<and> recorded_height (?root lid) fs' = Ok (max (h lid) (last_number (bss lid) + 1))"
    "\<forall>q. (\<forall>lid \<in> set ids. q \<notin> reset_paths (?root lid)) \<longrightarrow> os_read fs' q = os_read fs q"
    using reset_ledgers_effect [OF ids(2), of bss "store_conf dir" t fs h C, OF L] by blast
  then have "ResetBlockStore C dir mm = (Ok (), \<lparr>m_os = fs', m_db = (m_db mm)\<lparr>entries := []\<rparr>\<rparr>)"
    using fs(1) d(2) ids(1) by (simp add: ResetBlockStore_def on_os_def io_zoom_def Let_def)
  then show ?thesis using f fs(2,3,4,5) ids(3) L by (intro exI [of _ fs] exI [of _ fs']) auto
qed

section \<open>Property\<close>

text \<open>C6. Resetting a store of ledgers succeeds, and afterwards every ledger opens with exactly its genesis
  block, whatever its index and however many blocks and files it had.  The height it had is recorded,
  unless a greater one was recorded by an earlier reset, and \<open>LoadPreResetHeight\<close> returns it.\<close>

theorem reset_keeps_genesis_blocks:
  assumes "codec_laws C" "ledgers_ok C dir bss t h mm"
  shows "\<exists>mm'. ResetBlockStore C dir mm = (Ok (), mm') \<and>
     (\<forall>lid. ledger_id dir (m_os mm) lid \<longrightarrow>
        LoadPreResetHeight dir [lid] (m_os mm') = Ok [(lid, max (h lid) (num64 (length (concat (bss lid)))))] \<and>
        (\<forall>sz attrs st. IndexableAttrBlockNum \<in> set attrs \<longrightarrow>
           (\<exists>mgr mm2. newBlockfileMgr C lid (NewConf dir sz) attrs st mm' = (Ok mgr, mm2) \<and>
              store_inv C 0 [] [[hd (concat (bss lid))]] (opened mm2 mgr))))"
proof -
  let ?root = "getLedgerBlockDir (store_conf dir)"
  obtain fs fs' where R: "ResetBlockStore C dir mm = (Ok (), \<lparr>m_os = fs', m_db = (m_db mm)\<lparr>entries := []\<rparr>\<rparr>)" "faults fs' = []"
    "dirs fs' = dirs fs" "getChainsDir (store_conf dir) \<in> set (dirs fs)"
    "\<And>lid. ledger_id dir (m_os mm) lid \<Longrightarrow> CHR ''/'' \<notin> set lid \<and> ledger_ok C (?root lid) (bss lid) (t lid) (h lid) fs \<and>
       chain_files (?root lid) [[hd (concat (bss lid))]] [] fs' \<and> recorded_height (?root lid) fs' = Ok (max (h lid) (last_number (bss lid) + 1))"
    "\<And>q. (\<forall>lid. CHR ''/'' \<notin> set lid \<longrightarrow> q \<notin> reset_paths (?root lid)) \<Longrightarrow> os_read fs' q = os_read fs q"
    using ResetBlockStore_effect [OF assms(2)] by metis
  have dbf: "db_faults (m_db mm) = []" using assms(2) by (simp add: ledgers_ok_def)
  have P: "LoadPreResetHeight dir [lid] fs' = Ok [(lid, max (h lid) (num64 (length (concat (bss lid)))))] \<and>
      (\<exists>mgr mm2. newBlockfileMgr C lid (NewConf dir sz) attrs st \<lparr>m_os = fs', m_db = (m_db mm)\<lparr>entries := []\<rparr>\<rparr> = (Ok mgr, mm2) \<and>
         store_inv C 0 [] [[hd (concat (bss lid))]] (opened mm2 mgr))"
    if id: "ledger_id dir (m_os mm) lid" and a: "IndexableAttrBlockNum \<in> set attrs" for lid sz attrs st
  proof -
    note L = R(5) [OF id]
    have c: "chain_ok C 0 [] (bss lid)" "concat (bss lid) \<noteq> []" using L by (auto simp: ledger_ok_def ledger_files_def)
    have "num64 (length (concat (bss lid))) \<noteq> 0" using c num64_inject [of "length (concat (bss lid))" 0]
      by (simp add: chain_ok_def num64_def del: concat_eq_Nil_conv)
    then have "max (h lid) (num64 (length (concat (bss lid)))) \<noteq> 0" by (auto simp: max_def)
    then have 1: "LoadPreResetHeight dir [lid] fs' = Ok [(lid, max (h lid) (num64 (length (concat (bss lid)))))]"
      using L R(3,4) height_after_last [OF c] by (intro LoadPreResetHeight_recorded) simp_all
    have dir: "getLedgerBlockDir (NewConf dir sz) lid = ?root lid" by (simp add: NewConf_def getLedgerBlockDir_def getChainsDir_def)
    have "path_Join (?root lid) bootstrappingSnapshotInfoFile \<notin> reset_paths (?root i)" if "CHR ''/'' \<notin> set i" for i
      by (cases "i = lid") (use L that in \<open>auto simp: other_ledger_path\<close>)
    then have bs: "os_read fs' (path_Join (?root lid) bootstrappingSnapshotInfoFile) = os_read fs (path_Join (?root lid) bootstrappingSnapshotInfoFile)"
      using R(6) by blast
    have "disk C (?root lid) (newBlockIndex attrs st) [[hd (concat (bss lid))]] [] 0 \<lparr>m_os = fs', m_db = (m_db mm)\<lparr>entries := []\<rparr>\<rparr>"
      by (rule reset_disk [of C "?root lid" "bss lid" "t lid" "h lid" fs]) (use L R a dbf bs in auto)
    moreover have "creatable (?root lid) fs'" using L by (intro creatable_reset [OF _ _ R(6)]) (auto simp: ledger_ok_def)
    ultimately show ?thesis using 1 newBlockfileMgr_chain [OF assms(1), of lid "NewConf dir sz" attrs st] L a unfolding dir by fastforce
  qed
  show ?thesis using R(1) P P [of _ "[IndexableAttrBlockNum]"] by auto
qed

subsection \<open>A ledger with two files\<close>

definition plain_block :: "uint64 \<Rightarrow> bytes \<Rightarrow> Block" where
  "plain_block n h = \<lparr>BHeader = \<lparr>Number = n, PreviousHash = h, DataHash = []\<rparr>, BData = [], BMetadata = Some [[], [], []]\<rparr>"

definition genesis :: Block where "genesis = plain_block 0 []"

definition second :: Block where "second = plain_block 1 (BlockHeaderHash (BHeader genesis))"

abbreviation root2 :: string where "root2 \<equiv> ''/l/chains/ch''"

definition machine2 :: machine where
  "machine2 = \<lparr>m_os = \<lparr>files = [(deriveBlockfilePath root2 0, file_bytes [genesis]), (deriveBlockfilePath root2 1, file_bytes [second])],
     dirs = [root2, ''/l/chains''], faults = []\<rparr>, m_db = \<lparr>entries = [], db_faults = []\<rparr>\<rparr>"

lemma plain_block_ok: "length h \<le> 32 \<Longrightarrow> block_ok C (plain_block n h)" "length h \<le> 32 \<Longrightarrow> length (raw (block_layout (plain_block n h))) < 200"
proof -
  assume h: "length h \<le> 32"
  have e: "length (EncodeVarint x) \<le> 10" for x by (simp add: length_EncodeVarint SizeVarint_def)
  have "length (block_layout (plain_block n h)) = length (EncodeVarint n) + (length (EncodeVarint 0) + (length (EncodeVarint (word_of_nat (length h))) + length h)) +
      length (EncodeVarint 0) + length (EncodeVarint 3) + 3 * length (EncodeVarint 0)"
    by (simp add: plain_block_def block_layout_def header_layout_def list_layout_def raw_frame)
  then have "length (block_layout (plain_block n h)) \<le> 122" using h e [of n] e [of 0] e [of "word_of_nat (length h)"] e [of 3] by linarith
  then show "block_ok C (plain_block n h)" "length (raw (block_layout (plain_block n h))) < 200"
    using e [of "word_of_nat (length (block_layout (plain_block n h)))"]
    by (simp_all add: block_ok_def stored_block_def frame_fits_def flags_ok_def BlockMetadataIndex_TRANSACTIONS_FILTER_def raw_frame)
       (simp_all add: plain_block_def BlockMetadataIndex_TRANSACTIONS_FILTER_def)
qed

lemma sample2_ok: "block_ok C genesis" "block_ok C second" "length (raw (block_layout genesis)) < 200" "length (raw (block_layout second)) < 200"
  using plain_block_ok by (simp_all add: genesis_def second_def BlockHeaderHash_def)

lemma chain2: "chain_ok C 0 [] [[genesis], [second]]" "no_gaps [[genesis], [second]]"
proof -
  have "placed [[genesis], [second]] = [(genesis, 0, 0), (second, 1, 0)]"
    by (simp add: placed_def place_file_def numeral_2_eq_2 upt_rec)
  moreover have "numbered 0 [genesis, second]"
    by (auto simp: numbered_def less_Suc_eq genesis_def second_def plain_block_def)
  moreover have "linked [] [genesis, second]"
    by (auto simp: linked_def less_Suc_eq prev_hash_def genesis_def second_def plain_block_def)
  ultimately show "chain_ok C 0 [] [[genesis], [second]]"
    using sample2_ok by (simp add: chain_ok_def place_ok_def)
  show "no_gaps [[genesis], [second]]" by (simp add: no_gaps_def)
qed

lemma machine2_read:
  "os_read (m_os machine2) (path_Join root2 name) =
     (if name = block_file_name 0 then Some (file_bytes [genesis]) else if name = block_file_name 1 then Some (file_bytes [second]) else None)"
  by (simp add: machine2_def os_read_def path_Join_def deriveBlockfilePath_def)

lemma machine2_files: "ledger_files root2 [[genesis], [second]] [] (m_os machine2)"
proof -
  have "os_read (m_os machine2) (path_Join root2 name) \<noteq> None \<and> isBlockFileName name \<and> CHR ''/'' \<notin> set name \<longleftrightarrow>
      (\<exists>i < 2. name = block_file_name i)" for name
    unfolding machine2_read ex_less_2
    using isBlockFileName_block_file_name [of 0] block_file_name_no_slash [of 0]
      isBlockFileName_block_file_name [of 1] block_file_name_no_slash [of 1] by auto
  then have "block_file_names root2 2 (m_os machine2)" by (simp add: block_file_names_def os_is_dir_def machine2_def)
  moreover have "os_read (m_os machine2) (deriveBlockfilePath root2 (int i)) = Some (file_bytes ([[genesis], [second]] ! i))" if "i < 2" for i
    using that by (auto simp: machine2_def os_read_def less_2_cases_iff)
  ultimately have "chain_files root2 [[genesis], [second]] [] (m_os machine2)"
    using sample2_ok by (auto simp: chain_files_def block_ok_def numeral_2_eq_2)
  then show ?thesis
    using chain2(2) by (simp add: ledger_files_def os_is_dir_def machine2_def path_Join_def fileNamePreRestHt_def backupGenesisFile_def)
qed

lemma machine2_ledger: "ledger_ok C root2 [[genesis], [second]] [] 0 (m_os machine2)"
proof -
  have "os_read (m_os machine2) (path_Join root2 fileNamePreRestHt) = None" "os_read (m_os machine2) (path_Join root2 bootstrappingSnapshotInfoFile) = None"
    unfolding machine2_read by (simp_all add: fileNamePreRestHt_def bootstrappingSnapshotInfoFile_def blockfilePrefix_def)
  moreover have "creatable root2 (m_os machine2)"
    using prefixes_no_block_file [of _ root2 0] prefixes_no_block_file [of _ root2 1]
    unfolding creatable_def list_all_iff by (auto simp: machine2_def os_read_def)
  moreover have "\<not> os_is_dir (m_os machine2) (deriveBlockfilePath root2 i)" for i
    by (simp add: os_is_dir_def machine2_def deriveBlockfilePath_def blockfilePrefix_def)
  ultimately show ?thesis using machine2_files chain2(1) by (simp add: ledger_ok_def recorded_height_def)
qed

lemma machine2_ids: "ledger_id ''/l'' (m_os machine2) lid \<longleftrightarrow> lid = ''ch''"
  by (auto simp: ledger_id_def machine2_def getLedgerBlockDir_def getChainsDir_def ChainsDir_def path_Join_def)

theorem reset_keeps_genesis_blocks_witness:
  "\<exists>mm'. ResetBlockStore ref_codec ''/l'' machine2 = (Ok (), mm') \<and> LoadPreResetHeight ''/l'' [''ch''] (m_os mm') = Ok [(''ch'', 2)] \<and>
     (\<exists>mgr mm2. newBlockfileMgr ref_codec ''ch'' sample_conf sample_attrs ''ch'' mm' = (Ok mgr, mm2) \<and>
        store_inv ref_codec 0 [] [[genesis]] (opened mm2 mgr))"
proof -
  have "ledgers_ok ref_codec ''/l'' (\<lambda>_. [[genesis], [second]]) (\<lambda>_. []) (\<lambda>_. 0) machine2"
    using machine2_ledger
    by (simp add: ledgers_ok_def machine2_ids)
       (simp add: machine2_def os_read_def getLedgerBlockDir_def getChainsDir_def getIndexDir_def ChainsDir_def path_Join_def deriveBlockfilePath_def)
  then show ?thesis
    using reset_keeps_genesis_blocks [OF codec_laws_ref] by (fastforce simp: machine2_ids num64_def sample_conf_def sample_attrs_def)
qed

end
