(* ===== verification/Rollback.thy ===== *)
theory Rollback
  imports Reset
begin

text \<open>
  Rolling a ledger back to an earlier block, \<open>common/ledger/blkstorage/rollback.go\<close>: the index entries
  of the later blocks are deleted in batches of ten blocks, from the end; then the saved summary is
  deleted, the later block files are removed and the file with the target block is cut behind it.
\<close>

section \<open>Operations\<close>

definition dataFormatVersion :: "IndexableAttr list \<Rightarrow> string" where
  "dataFormatVersion attrs = (if IndexableAttrTxID \<in> set attrs then ''2.0'' else '''')"

text \<open>The provider of the database is the database of the machine.\<close>

record rollbackMgr =
  r_ledgerID :: string
  r_ledgerDir :: string
  r_indexDir :: string
  r_indexStore :: blockIndex
  r_targetBlockNum :: uint64
  r_reusableBatch :: UpdateBatch

definition newRollbackMgr :: "string \<Rightarrow> string \<Rightarrow> IndexableAttr list \<Rightarrow> uint64 \<Rightarrow> (machine, rollbackMgr) io" where
  "newRollbackMgr dir ledgerID attrs targetBlockNum =
     (let conf = \<lparr>blockStorageDir = dir, maxBlockfileSize = 0\<rparr> in
      io_bind (on_db (openDBAndCheckFormat (dataFormatVersion attrs))) (\<lambda>_.
      io_return \<lparr>r_ledgerID = ledgerID, r_ledgerDir = getLedgerBlockDir conf ledgerID, r_indexDir = getIndexDir conf,
        r_indexStore = newBlockIndex attrs ledgerID, r_targetBlockNum = targetBlockNum,
        r_reusableBatch = NewUpdateBatch ledgerID\<rparr>))"

definition delete_keys :: "bytes list \<Rightarrow> UpdateBatch \<Rightarrow> UpdateBatch" where
  "delete_keys ks batch = fold UpdateBatch_Delete ks batch"

definition addIndexEntriesToBeDeleted :: "UpdateBatch \<Rightarrow> serializedBlockInfo \<Rightarrow> blockIndex \<Rightarrow> UpdateBatch" where
  "addIndexEntriesToBeDeleted batch blockInfo index =
     (let header = si_blockHeader blockInfo; txs = si_txOffsets blockInfo in
      delete_keys
        ((if isAttributeIndexed index IndexableAttrBlockHash then [constructBlockHashKey (BlockHeaderHash header)] else []) @
         (if isAttributeIndexed index IndexableAttrBlockNum then [constructBlockNumKey (Number header)] else []) @
         (if isAttributeIndexed index IndexableAttrBlockNumTranNum
          then map (\<lambda>txIndex. constructBlockNumTranNumKey (Number header) (word_of_nat txIndex)) [0..<length txs] else []) @
         (if isAttributeIndexed index IndexableAttrTxID
          then map (\<lambda>i. constructTxIDKey (ti_txID (txs ! i)) (Number header) (word_of_nat i)) [0..<length txs] else []))
        batch)"

fun deleteEntries_loop :: "codec \<Rightarrow> blockIndex \<Rightarrow> os \<Rightarrow> nat \<Rightarrow> blockStream \<Rightarrow> UpdateBatch \<Rightarrow> UpdateBatch result" where
  "deleteEntries_loop C index fs 0 stream batch = Ok batch"
| "deleteEntries_loop C index fs (Suc n) stream batch =
     rbind (nextBlockBytesAndPlacementInfo stream fs) (\<lambda>(r, stream').
     rbind (extractSerializedBlockInfo C (case r of None \<Rightarrow> [] | Some (blockBytes, _) \<Rightarrow> blockBytes)) (\<lambda>blockInfo.
     deleteEntries_loop C index fs n stream' (addIndexEntriesToBeDeleted batch blockInfo index)))"

definition deleteIndexEntriesRange :: "codec \<Rightarrow> rollbackMgr \<Rightarrow> uint64 \<Rightarrow> uint64 \<Rightarrow> (machine, unit) io" where
  "deleteIndexEntriesRange C r startBlkNum endBlkNum =
     io_bind (io_get (\<lambda>s. (m_os s, m_db s))) (\<lambda>(fs, db).
     let index = r_indexStore r; batch0 = (r_reusableBatch r)\<lparr>ub_batch := []\<rparr> in
     io_bind (io_lift (getBlockLocByBlockNum index startBlkNum db)) (\<lambda>lp.
     io_bind (io_lift (newBlockStream (r_ledgerDir r) (fileSuffixNum lp) (lp_offset (flp_loc lp)) (- 1) fs)) (\<lambda>stream.
     io_bind (io_lift (deleteEntries_loop C index fs (unat (endBlkNum - startBlkNum + 1)) stream batch0)) (\<lambda>batch.
     io_bind (io_lift (UpdateBatch_Put indexSavePointKey (Some (encodeBlockNum (startBlkNum - 1))) batch)) (\<lambda>batch'.
     on_db (DBHandle_WriteBatch batch' True))))))"

text \<open>
  The loop of \<open>rollbackBlockIndex\<close> on \<open>uint64\<close> block numbers.  For the target \<open>2 ^ 64 - 1\<close> the start wraps to
  0 and the condition of the loop always holds, so the loop is a partial function: a call that does
  not return is \<open>None\<close>.
\<close>

definition batchLimit :: uint64 where "batchLimit = 10"

partial_function (option) rollback_loop ::
  "codec \<Rightarrow> rollbackMgr \<Rightarrow> uint64 \<Rightarrow> uint64 \<Rightarrow> machine \<Rightarrow> (unit result \<times> machine) option" where
  "rollback_loop C r startBlk endBlk s =
     (if endBlk < startBlk then Some (Ok (), s)
      else
        (let start = (if endBlk - startBlk \<ge> batchLimit then endBlk - batchLimit + 1 else startBlk) in
         case deleteIndexEntriesRange C r start endBlk s of
           (Ok _, s') \<Rightarrow> rollback_loop C r (r_targetBlockNum r + 1) (start - 1) s'
         | (Err e, s') \<Rightarrow> Some (Err e, s')
         | (Panic p, s') \<Rightarrow> Some (Panic p, s')))"

definition rollbackBlockIndex :: "codec \<Rightarrow> rollbackMgr \<Rightarrow> machine \<Rightarrow> (unit result \<times> machine) option" where
  "rollbackBlockIndex C r s =
     (case getLastBlockIndexed (r_indexStore r) (m_db s) of
        Err e \<Rightarrow> Some (if e = ErrIndexSavePointKeyNotPresent then Ok () else Err e, s)
      | Panic p \<Rightarrow> Some (Panic p, s)
      | Ok lastBlockNumber \<Rightarrow> rollback_loop C r (r_targetBlockNum r + 1) lastBlockNumber s)"

text \<open>Every block that is read moves the stream forward, and at the end of the file there is an error.\<close>

lemma extract_nothing [simp]: "extractSerializedBlockInfo C [] \<noteq> Ok info"
  by (simp add: extractSerializedBlockInfo_def extractHeader_def newBuffer_def buffer_DecodeVarint_def Buffer_DecodeVarint_def)

function endOffset_loop :: "codec \<Rightarrow> os \<Rightarrow> uint64 \<Rightarrow> blockfileStream \<Rightarrow> int result" where
  "endOffset_loop C fs blockNum stream =
     (case stream_nextBlockBytes stream fs of
        Err e \<Rightarrow> Err e
      | Panic p \<Rightarrow> Panic p
      | Ok (r, stream') \<Rightarrow>
          (case extractSerializedBlockInfo C (case r of None \<Rightarrow> [] | Some blockBytes \<Rightarrow> blockBytes) of
             Err e \<Rightarrow> Err e
           | Panic p \<Rightarrow> Panic p
           | Ok blockInfo \<Rightarrow>
               if Number (si_blockHeader blockInfo) = blockNum then Ok (fs_currentOffset stream')
               else endOffset_loop C fs blockNum stream'))"
  by pat_completeness auto
termination
  by (relation "measure (\<lambda>(C, fs, n, s). nat (int (length (os_content fs (fs_file s))) - fs_currentOffset s))")
     (auto dest!: stream_nextBlockBytes_progress split: option.splits)

declare endOffset_loop.simps [simp del]

definition calculateEndOffSet :: "codec \<Rightarrow> string \<Rightarrow> int \<Rightarrow> uint64 \<Rightarrow> os \<Rightarrow> int result" where
  "calculateEndOffSet C ledgerDir targetBlkFileNum blockNum fs =
     rbind (newBlockfileStream ledgerDir targetBlkFileNum 0 fs) (\<lambda>stream. endOffset_loop C fs blockNum stream)"

definition rollbackBlockFiles :: "codec \<Rightarrow> rollbackMgr \<Rightarrow> (machine, unit) io" where
  "rollbackBlockFiles C r =
     io_bind (on_db (DBHandle_Delete (idx_db (r_indexStore r)) blkMgrInfoKey True)) (\<lambda>_.
     on_os
       (io_bind (\<lambda>fs. (binarySearchFileNumForBlock C (r_ledgerDir r) (r_targetBlockNum r) fs, fs)) (\<lambda>targetFileNum.
        io_bind (\<lambda>fs. (retrieveLastFileSuffix (r_ledgerDir r) fs, fs)) (\<lambda>lastFileNum.
        io_bind (io_wrap ''error removing the block file [%s]'' (remove_files (r_ledgerDir r) (targetFileNum + 1) lastFileNum)) (\<lambda>_.
        io_bind (\<lambda>fs. (calculateEndOffSet C (r_ledgerDir r) targetFileNum (r_targetBlockNum r) fs, fs)) (\<lambda>endOffset.
        io_wrap ''error trucating the block file [%s]''
          (os_Truncate (deriveBlockfilePath (r_ledgerDir r) targetFileNum) (nat endOffset))))))))"

definition Rollback :: "codec \<Rightarrow> string \<Rightarrow> string \<Rightarrow> uint64 \<Rightarrow> IndexableAttr list \<Rightarrow> machine \<Rightarrow> (unit result \<times> machine) option" where
  "Rollback C dir ledgerID targetBlockNum attrs s =
     (case newRollbackMgr dir ledgerID attrs targetBlockNum s of
        (Err e, s1) \<Rightarrow> Some (Err e, s1)
      | (Panic p, s1) \<Rightarrow> Some (Panic p, s1)
      | (Ok r, s1) \<Rightarrow>
          (case on_os (recordHeightIfGreaterThanPreviousRecording C (r_ledgerDir r)) s1 of
             (Err e, s2) \<Rightarrow> Some (Err e, s2)
           | (Panic p, s2) \<Rightarrow> Some (Panic p, s2)
           | (Ok _, s2) \<Rightarrow>
               (case rollbackBlockIndex C r s2 of
                  Some (Ok _, s3) \<Rightarrow> Some (rollbackBlockFiles C r s3)
                | res \<Rightarrow> res)))"

subsection \<open>Validation of the parameters\<close>

definition validateLedgerID :: "string \<Rightarrow> string \<Rightarrow> os \<Rightarrow> unit result" where
  "validateLedgerID ledgerDir ledgerID fs =
     rbind (DirExists ledgerDir fs) (\<lambda>exists. if \<not> exists then Err (ErrMsg ''ledgerID [%s] does not exist'') else Ok ())"

definition validateTargetBlkNum :: "codec \<Rightarrow> string \<Rightarrow> uint64 \<Rightarrow> os \<Rightarrow> unit result" where
  "validateTargetBlkNum C ledgerDir targetBlockNum fs =
     rbind (constructBlockfilesInfo C ledgerDir fs) (\<lambda>blkfilesInfo.
     if lastPersistedBlock blkfilesInfo \<le> targetBlockNum
     then Err (ErrMsg ''target block number [%d] should be less than the biggest block number [%d]'') else Ok ())"

definition ValidateRollbackParams :: "codec \<Rightarrow> string \<Rightarrow> string \<Rightarrow> uint64 \<Rightarrow> os \<Rightarrow> unit result" where
  "ValidateRollbackParams C dir ledgerID targetBlockNum fs =
     (let ledgerDir = getLedgerBlockDir \<lparr>blockStorageDir = dir, maxBlockfileSize = 0\<rparr> ledgerID in
      rbind (validateLedgerID ledgerDir ledgerID fs) (\<lambda>_. validateTargetBlkNum C ledgerDir targetBlockNum fs))"

section \<open>The index entries of a block\<close>

definition block_keys :: "codec \<Rightarrow> blockIndex \<Rightarrow> Block \<Rightarrow> bytes list" where
  "block_keys C index b =
     (let n = Number (BHeader b); txids = map (txid_or_empty C) (BData b) in
      (if isAttributeIndexed index IndexableAttrBlockHash then [constructBlockHashKey (BlockHeaderHash (BHeader b))] else []) @
      (if isAttributeIndexed index IndexableAttrBlockNum then [constructBlockNumKey n] else []) @
      (if isAttributeIndexed index IndexableAttrBlockNumTranNum
       then map (\<lambda>i. constructBlockNumTranNumKey n (word_of_nat i)) [0..<length txids] else []) @
      (if isAttributeIndexed index IndexableAttrTxID
       then map (\<lambda>i. constructTxIDKey (txids ! i) n (word_of_nat i)) [0..<length txids] else []))"

lemma tx_layout_txid: "i < length ds \<Longrightarrow> ti_txID (tx_layout C off ds ! i) = txid_or_empty C (ds ! i)"
  by (simp add: tx_layout_loc)

lemma addIndexEntries_block:
  "addIndexEntriesToBeDeleted batch \<lparr>si_blockHeader = BHeader b, si_txOffsets = tx_layout C off (BData b), si_metadata = md\<rparr> index =
     delete_keys (block_keys C index b) batch"
proof -
  have "map (\<lambda>i. constructTxIDKey (ti_txID (tx_layout C off (BData b) ! i)) (Number (BHeader b)) (word_of_nat i)) [0..<length (BData b)] =
      map (\<lambda>i. constructTxIDKey (map (txid_or_empty C) (BData b) ! i) (Number (BHeader b)) (word_of_nat i)) [0..<length (BData b)]"
    by (simp add: tx_layout_txid)
  then show ?thesis by (simp add: addIndexEntriesToBeDeleted_def block_keys_def Let_def del: map_eq_conv cong: if_cong split del: if_split)
qed

lemma block_keys_puts: "fst ` set (p_puts C idx p) = insert indexSavePointKey (set (block_keys C idx (fst p)))"
proof -
  have "fst ` set (txid_puts C (p_info C p) fl) =
      set (map (\<lambda>i. constructTxIDKey (map (txid_or_empty C) (BData (fst p)) ! i) (Number (BHeader (fst p))) (word_of_nat i)) [0..<length (BData (fst p))])" for fl
    by (auto simp: txid_puts_def p_txs_nth image_image)
  moreover have "fst ` set (txnum_puts (p_info C p)) =
      set (map (\<lambda>i. constructBlockNumTranNumKey (Number (BHeader (fst p))) (word_of_nat i)) [0..<length (BData (fst p))])"
    by (auto simp: txnum_puts_def image_image)
  ultimately show ?thesis
    unfolding p_puts_def index_puts_def block_keys_def Let_def
    by (simp add: image_Un) auto
qed

lemma savepoint_not_key [simp]: "indexSavePointKey \<notin> set (block_keys C idx b)"
  by (auto simp: block_keys_def Let_def)

lemma info_not_key [simp]: "blkMgrInfoKey \<notin> set (block_keys C idx b)"
proof -
  have "blkMgrInfoKey \<noteq> constructTxIDKey t n m" for t n m by (simp add: blkMgrInfoKey_Cons index_key_defs)
  then show ?thesis by (auto simp: block_keys_def Let_def)
qed

text \<open>The entries of two blocks are disjoint, unless the hashes of their headers collide.\<close>

lemma block_keys_disjoint:
  assumes b: "block_ok C b" "block_ok C b'" and n: "Number (BHeader b) \<noteq> Number (BHeader b')"
    and h: "BlockHeaderHash (BHeader b) \<noteq> BlockHeaderHash (BHeader b')"
  shows "set (block_keys C idx b) \<inter> set (block_keys C idx b') = {}"
proof -
  have fit: "txid_fits (txid_or_empty C (BData x ! i))" if "block_ok C x" "i < length (BData x)" for x i
    using that by (simp add: block_ok_def)
  have "constructTxIDKey (txid_or_empty C (BData b ! i)) (Number (BHeader b)) x \<noteq>
      constructTxIDKey (txid_or_empty C (BData b' ! j)) (Number (BHeader b')) y"
    if "i < length (BData b)" "j < length (BData b')" for i j x y
    using constructTxIDKey_inject [OF fit [OF b(1) that(1)] fit [OF b(2) that(2)]] n by simp
  moreover have "constructBlockHashKey (BlockHeaderHash (BHeader b)) \<noteq> constructBlockHashKey (BlockHeaderHash (BHeader b'))"
    using h by (simp add: constructBlockHashKey_def)
  moreover have "constructBlockNumKey (Number (BHeader b)) \<noteq> constructBlockNumKey (Number (BHeader b'))"
    using n by (simp add: constructBlockNumKey_def opv.enc_inject)
  moreover have "constructBlockNumTranNumKey (Number (BHeader b)) x \<noteq> constructBlockNumTranNumKey (Number (BHeader b')) y" for x y
    using n by (simp add: constructBlockNumTranNumKey_def opv.enc_append_iff)
  ultimately show ?thesis unfolding block_keys_def Let_def by (auto simp: disjoint_iff)
qed

section \<open>Deleting the entries of a range\<close>

lemma delete_keys_batch:
  "delete_keys ks b = b\<lparr>ub_batch := ub_batch b @ map (\<lambda>k. OpDelete (constructLevelKey (ub_dbName b) k)) ks\<rparr>"
  unfolding delete_keys_def by (induction ks arbitrary: b) (simp_all add: UpdateBatch_Delete_def)

lemma delete_keys_append: "delete_keys ys (delete_keys xs b) = delete_keys (xs @ ys) b"
  by (simp add: delete_keys_def)

lemma deleteEntries_loop_chain:
  assumes ch: "chain_files root bss [] fs" "chain_ok C base h0 bss"
  shows "i < length bss \<Longrightarrow> k \<le> length (bss ! i) \<Longrightarrow> file_start bss i + k + n \<le> length (concat bss) \<Longrightarrow>
     deleteEntries_loop C idx fs n (open_pos root bss i k) batch =
       Ok (delete_keys (concat (map (block_keys C idx) (take n (drop (file_start bss i + k) (concat bss))))) batch)"
proof (induction n arbitrary: i k batch)
  case 0
  then show ?case by (simp add: delete_keys_def)
next
  case (Suc n)
  let ?j = "file_start bss i + k"
  have j: "?j < length (concat bss)" using Suc.prems(3) by simp
  obtain i' k' where s: "nextBlockBytes (open_pos root bss i k) fs = Ok (Some (block_layout (concat bss ! ?j)), open_pos root bss i' k')"
    "i' < length bss" "k' \<le> length (bss ! i')" "file_start bss i' + k' = Suc ?j"
    using open_stream_next [OF ch(1) Suc.prems(1,2) j] by blast
  then obtain pl where r: "nextBlockBytesAndPlacementInfo (open_pos root bss i k) fs = Ok (Some (block_layout (concat bss ! ?j), pl), open_pos root bss i' k')"
    by (auto simp: nextBlockBytes_def rbind_eq_Ok)
  have b: "stored_block (concat bss ! ?j)" using ch(2) nth_mem [OF j] unfolding chain_ok_def block_ok_def by blast
  then obtain md where "extractSerializedBlockInfo C (block_layout (concat bss ! ?j)) =
      Ok \<lparr>si_blockHeader = BHeader (concat bss ! ?j), si_txOffsets = tx_layout C (data_start (concat bss ! ?j)) (BData (concat bss ! ?j)), si_metadata = md\<rparr>"
    using extractSerializedBlockInfo_layout [of "concat bss ! ?j"] by (auto simp: stored_block_def frame_fits_def)
  then have "deleteEntries_loop C idx fs (Suc n) (open_pos root bss i k) batch =
      deleteEntries_loop C idx fs n (open_pos root bss i' k') (delete_keys (block_keys C idx (concat bss ! ?j)) batch)"
    using r by (simp add: addIndexEntries_block)
  also have "\<dots> = Ok (delete_keys (concat (map (block_keys C idx) (take n (drop (Suc ?j) (concat bss)))))
      (delete_keys (block_keys C idx (concat bss ! ?j)) batch))"
    using Suc.IH [OF s(2,3)] Suc.prems(3) s(4) by simp
  also have "take (Suc n) (drop ?j (concat bss)) = concat bss ! ?j # take n (drop (Suc ?j) (concat bss))"
    using j by (metis Cons_nth_drop_Suc take_Suc_Cons)
  ultimately show ?case by (simp add: delete_keys_append)
qed

lemma deletes_written:
  assumes f: "db_faults db = []"
  shows "\<exists>db'. DBHandle_WriteBatch \<lparr>ub_batch = map (\<lambda>k. OpDelete (constructLevelKey n k)) ks @ [OpPut (constructLevelKey n sp) v], ub_dbName = n\<rparr> True db
      = (Ok (), db') \<and> db_faults db' = [] \<and> (in_key_order (entries db) \<longrightarrow> in_key_order (entries db')) \<and>
     (\<forall>k. DBHandle_Get n k db' = (if k = sp then Some v else if k \<in> set ks then None else DBHandle_Get n k db))"
proof -
  let ?ops = "map (\<lambda>k. OpDelete (constructLevelKey n k)) ks @ [OpPut (constructLevelKey n sp) v]"
  let ?db = "db\<lparr>entries := fold (kv_apply sput sdel) ?ops (entries db)\<rparr>"
  have "DBHandle_WriteBatch \<lparr>ub_batch = ?ops, ub_dbName = n\<rparr> True db = (Ok (), ?db)"
    using f by (simp add: DBHandle_WriteBatch_def DB_WriteBatch_def db_fault_def)
  moreover have "last_op ?ops (constructLevelKey n k) = (if k = sp then Some (Some v) else if k \<in> set ks then Some None else None)" for k
    using last_op_deletes [of "map (constructLevelKey n) ks" "constructLevelKey n k"] by (auto simp: last_op_append comp_def)
  then have "DBHandle_Get n k ?db = (if k = sp then Some v else if k \<in> set ks then None else DBHandle_Get n k db)" for k
    unfolding DBHandle_Get_def DB_Get_def using contents.get_steps [of ?ops "entries db" "constructLevelKey n k"] by simp
  moreover have "in_key_order (entries db) \<longrightarrow> in_key_order (entries ?db)"
    using in_key_order_steps [of "entries db" ?ops] by simp
  ultimately show ?thesis using f by auto
qed

definition hashes_distinct :: "Block list \<Rightarrow> bool" where
  "hashes_distinct bs = distinct (map (\<lambda>b. BlockHeaderHash (BHeader b)) bs)"

lemma idx_map_append: "idx_map C idx (xs @ ys) k = (case idx_map C idx ys k of Some v \<Rightarrow> Some v | None \<Rightarrow> idx_map C idx xs k)"
  by (simp add: idx_map_def map_add_def split: option.split)

lemma idx_map_None:
  "k \<noteq> indexSavePointKey \<Longrightarrow> idx_map C idx ps k = None \<longleftrightarrow> (\<forall>p \<in> set ps. k \<notin> set (block_keys C idx (fst p)))"
proof -
  assume k: "k \<noteq> indexSavePointKey"
  have "idx_map C idx ps k = None \<longleftrightarrow> (\<forall>p \<in> set ps. k \<notin> fst ` set (p_puts C idx p))"
    unfolding idx_map_def map_of_eq_None_iff by auto
  then show ?thesis unfolding block_keys_puts using k by simp
qed

lemma idx_map_savepoint:
  assumes "0 < s" "s \<le> length ps" "Number (BHeader (fst (ps ! (s - 1)))) = n"
  shows "idx_map C idx (take s ps) indexSavePointKey = Some (encodeBlockNum n)"
proof -
  have "take s ps = take (s - 1) ps @ [ps ! (s - 1)]" using assms(1,2) take_Suc_conv_app_nth [of "s - 1" ps] by simp
  moreover have "idx_map C idx [ps ! (s - 1)] indexSavePointKey = Some (encodeBlockNum n)"
    using assms(3) by (simp add: idx_map_def p_puts_def index_puts_def)
  ultimately show ?thesis by (simp add: idx_map_append)
qed

lemma chain_number: "chain_ok C 0 h0 bss \<Longrightarrow> j < length (concat bss) \<Longrightarrow> Number (BHeader (concat bss ! j)) = num64 j"
  by (simp add: chain_ok_def numbered_def num64_def)

lemma chain_keys_disjoint:
  assumes ch: "chain_ok C 0 h0 bss" "hashes_distinct (concat bss)" and x: "x < y" "y < length (concat bss)"
  shows "set (block_keys C idx (concat bss ! x)) \<inter> set (block_keys C idx (concat bss ! y)) = {}"
proof (rule block_keys_disjoint)
  have l: "length (concat bss) < 2 ^ 64 - 1" using ch(1) by (simp add: chain_ok_def)
  show "block_ok C (concat bss ! x)" "block_ok C (concat bss ! y)"
    using ch(1) x nth_mem [of x "concat bss"] nth_mem [of y "concat bss"] unfolding chain_ok_def by auto
  show "Number (BHeader (concat bss ! x)) \<noteq> Number (BHeader (concat bss ! y))"
    using x l by (simp add: chain_number [OF ch(1)] num64_inject)
  show "BlockHeaderHash (BHeader (concat bss ! x)) \<noteq> BlockHeaderHash (BHeader (concat bss ! y))"
    using nth_eq_iff_index_eq [OF ch(2) [unfolded hashes_distinct_def], of x y] x by simp
qed

lemma idx_map_cut:
  assumes ch: "chain_ok C 0 h0 bss" "hashes_distinct (concat bss)" and s: "0 < s" "s \<le> m" "m \<le> length (concat bss)"
  shows "(if k = indexSavePointKey then Some (encodeBlockNum (num64 (s - 1)))
      else if k \<in> set (concat (map (block_keys C idx) (take (m - s) (drop s (concat bss))))) then None
      else idx_map C idx (take m (placed bss)) k) = idx_map C idx (take s (placed bss)) k"
proof (cases "k = indexSavePointKey")
  case True
  have "s - 1 < length (concat bss)" using s by linarith
  then have "idx_map C idx (take s (placed bss)) indexSavePointKey = Some (encodeBlockNum (num64 (s - 1)))"
    using s chain_number [OF ch(1), of "s - 1"] by (intro idx_map_savepoint) simp_all
  then show ?thesis by (simp only: True simp_thms if_True)
next
  case False
  let ?later = "take (m - s) (drop s (placed bss))"
  have split: "take m (placed bss) = take s (placed bss) @ ?later" using s(2) by (metis le_add_diff_inverse take_add)
  have "map fst ?later = take (m - s) (drop s (concat bss))" by (simp add: drop_map [symmetric] take_map [symmetric])
  then have "set (take (m - s) (drop s (concat bss))) = fst ` set ?later" by (metis set_map)
  then have later: "k \<in> set (concat (map (block_keys C idx) (take (m - s) (drop s (concat bss))))) \<longleftrightarrow> (\<exists>p \<in> set ?later. k \<in> set (block_keys C idx (fst p)))"
    by simp
  show ?thesis
  proof (cases "\<exists>p \<in> set ?later. k \<in> set (block_keys C idx (fst p))")
    case True
    then obtain p where p: "p \<in> set ?later" "k \<in> set (block_keys C idx (fst p))" by blast
    then obtain y where "y < length ?later" "?later ! y = p" unfolding in_set_conv_nth by blast
    then have "s + y < length (concat bss)" "p = placed bss ! (s + y)" using s by (simp_all add: less_diff_conv)
    then have y: "k \<in> set (block_keys C idx (concat bss ! (s + y)))" "s + y < length (concat bss)" using p(2) by simp_all
    have "k \<notin> set (block_keys C idx (fst p))" if kept: "p \<in> set (take s (placed bss))" for p
    proof -
      obtain x where "x < length (take s (placed bss))" "take s (placed bss) ! x = p" using kept unfolding in_set_conv_nth by blast
      then have x: "x < s" "fst p = concat bss ! x" using s by (simp_all, metis fst_nth_placed less_le_trans)
      then show ?thesis using chain_keys_disjoint [OF ch, of x "s + y" idx] y by auto
    qed
    then show ?thesis using True later False idx_map_None [OF False, of C idx "take s (placed bss)"] by simp
  next
    case no: False
    then have "idx_map C idx ?later k = None" unfolding idx_map_None [OF False] by blast
    then show ?thesis using no later False by (simp add: split idx_map_append)
  qed
qed

section \<open>The index goes back to the target\<close>

definition rmgr :: "string \<Rightarrow> string \<Rightarrow> IndexableAttr list \<Rightarrow> nat \<Rightarrow> rollbackMgr" where
  "rmgr dir ledgerID attrs target =
     \<lparr>r_ledgerID = ledgerID, r_ledgerDir = getLedgerBlockDir (store_conf dir) ledgerID, r_indexDir = getIndexDir (store_conf dir),
      r_indexStore = newBlockIndex attrs ledgerID, r_targetBlockNum = num64 target, r_reusableBatch = NewUpdateBatch ledgerID\<rparr>"

lemma idx_db_newBlockIndex [simp]: "idx_db (newBlockIndex attrs st) = st"
  by (simp add: newBlockIndex_def)

lemma chain_indexable: "chain_ok C 0 h0 bss \<Longrightarrow> indexable C (take n (placed bss))"
  unfolding indexable_def
proof (intro conjI allI impI)
  assume c: "chain_ok C 0 h0 bss"
  then have l: "length (concat bss) < 2 ^ 64 - 1" by (simp add: chain_ok_def)
  then show "length (take n (placed bss)) < 2 ^ 64 - 1" by simp
  fix j assume "j < length (take n (placed bss))"
  then have j: "j < n" "j < length (concat bss)" by simp_all
  then have "placed bss ! j \<in> set (placed bss)" by (intro nth_mem) simp
  then show "place_ok (take n (placed bss) ! j)" using c j by (simp add: chain_ok_def)
  show "Number (BHeader (fst (take n (placed bss) ! j))) = num64 j" using chain_number [OF c j(2)] j by simp
  show "block_ok C (fst (take n (placed bss) ! j))" using c nth_mem [OF j(2)] j unfolding chain_ok_def by auto
qed

lemma deleteRange_chain:
  assumes ch: "chain_files (getLedgerBlockDir (store_conf dir) lid) bss [] (m_os mm)" "chain_ok C 0 h0 bss" "hashes_distinct (concat bss)"
    and C: "codec_laws C" and a: "IndexableAttrBlockNum \<in> set attrs" and f: "db_faults (m_db mm) = []"
    and v: "idx_view C (newBlockIndex attrs lid) 0 (take m (placed bss)) (m_db mm)" and s: "0 < s" "s < m" "m \<le> length (concat bss)"
  shows "\<exists>db'. deleteIndexEntriesRange C (rmgr dir lid attrs target) (num64 s) (num64 (m - 1)) mm = (Ok (), mm\<lparr>m_db := db'\<rparr>) \<and>
     db_faults db' = [] \<and> idx_view C (newBlockIndex attrs lid) 0 (take s (placed bss)) db'"
proof -
  let ?root = "getLedgerBlockDir (store_conf dir) lid" and ?idx = "newBlockIndex attrs lid"
  let ?keys = "concat (map (block_keys C ?idx) (take (m - s) (drop s (concat bss))))"
  have l: "length (concat bss) < 2 ^ 64 - 1" using ch(2) by (simp add: chain_ok_def)
  have sl: "s < length (concat bss)" using s by simp
  obtain i k where ik: "i < length bss" "k < length (bss ! i)" "s = file_start bss i + k" using chain_position [OF sl] by blast
  have loc: "getBlockLocByBlockNum ?idx (num64 s) (m_db mm) = Ok (p_loc (placed bss ! s))"
    using idx_view_block [OF v, of s] s by simp
  have stream: "newBlockStream ?root (fileSuffixNum (p_loc (placed bss ! s))) (lp_offset (flp_loc (p_loc (placed bss ! s)))) (- 1) (m_os mm) =
      Ok (open_pos ?root bss i k)"
    using newBlockStream_pos [OF ch(1) ik(1), of k "- 1"] nth_placed [OF ik(1,2)] ik(3) by (simp add: p_loc_def)
  have u: "unat (num64 (m - 1) - num64 s + 1) = m - s"
  proof -
    have "num64 (m - 1) - num64 s + 1 = num64 (m - s)"
      using s unfolding num64_def by (simp flip: of_nat_diff of_nat_Suc) (metis Suc_diff_Suc Suc_pred' add.commute diff_Suc_eq_diff_pred of_nat_Suc zero_less_diff gr_implies_not_zero neq0_conv)
    then show ?thesis using s l by (simp add: unat_num64)
  qed
  have loop: "deleteEntries_loop C ?idx (m_os mm) (m - s) (open_pos ?root bss i k) (NewUpdateBatch lid) = Ok (delete_keys ?keys (NewUpdateBatch lid))"
    using deleteEntries_loop_chain [OF ch(1,2) ik(1), of k "m - s" ?idx "NewUpdateBatch lid"] ik s by simp
  obtain db' where w: "DBHandle_WriteBatch \<lparr>ub_batch = map (\<lambda>k. OpDelete (constructLevelKey lid k)) ?keys @
        [OpPut (constructLevelKey lid indexSavePointKey) (encodeBlockNum (num64 (s - 1)))], ub_dbName = lid\<rparr> True (m_db mm) = (Ok (), db')"
    "db_faults db' = []" "in_key_order (entries (m_db mm)) \<longrightarrow> in_key_order (entries db')"
    "\<And>k. DBHandle_Get lid k db' = (if k = indexSavePointKey then Some (encodeBlockNum (num64 (s - 1))) else if k \<in> set ?keys then None else DBHandle_Get lid k (m_db mm))"
    using deletes_written [OF f, of lid ?keys indexSavePointKey] by blast
  have "num64 s - 1 = num64 (s - 1)" using s(1) by (simp add: num64_def of_nat_diff)
  then have "deleteIndexEntriesRange C (rmgr dir lid attrs target) (num64 s) (num64 (m - 1)) mm = (Ok (), mm\<lparr>m_db := db'\<rparr>)"
    using loc stream u loop w(1)
    by (simp add: deleteIndexEntriesRange_def rmgr_def Let_def NewUpdateBatch_def delete_keys_batch UpdateBatch_Put_def on_db_def io_zoom_def)
  moreover have "idx_view C ?idx 0 (take s (placed bss)) db'"
  proof (rule idx_view_exact [OF C _ chain_indexable [OF ch(2)]])
    show "isAttributeIndexed ?idx IndexableAttrBlockNum" using a by (simp add: isAttributeIndexed_def newBlockIndex_def)
    show "in_key_order (entries db')" using w(3) v by (simp add: idx_view_def)
    show "DBHandle_Get (idx_db ?idx) k db' = idx_map C ?idx (take s (placed bss)) k" if "k \<noteq> blkMgrInfoKey" for k
    proof -
      have "DBHandle_Get lid k (m_db mm) = idx_map C ?idx (take m (placed bss)) k" using v that by (simp add: idx_view_def)
      then show ?thesis using idx_map_cut [OF ch(2,3) s(1) _ s(3), of k ?idx] s(2) w(4) [of k] by (simp only: idx_db_newBlockIndex less_imp_le)
    qed
  qed
  ultimately show ?thesis using w(2) by blast
qed

lemma num64_diff: "m \<le> n \<Longrightarrow> num64 n - num64 m = num64 (n - m)"
  by (simp add: num64_def of_nat_diff)

lemma rollback_loop_chain:
  assumes ch: "chain_files (getLedgerBlockDir (store_conf dir) lid) bss [] (m_os mm)" "chain_ok C 0 h0 bss" "hashes_distinct (concat bss)"
    and C: "codec_laws C" and a: "IndexableAttrBlockNum \<in> set attrs"
  shows "db_faults (m_db mm) = [] \<Longrightarrow> idx_view C (newBlockIndex attrs lid) 0 (take m (placed bss)) (m_db mm) \<Longrightarrow>
     target < m \<Longrightarrow> m \<le> length (concat bss) \<Longrightarrow>
     \<exists>db'. rollback_loop C (rmgr dir lid attrs target) (num64 (Suc target)) (num64 (m - 1)) mm = Some (Ok (), mm\<lparr>m_db := db'\<rparr>) \<and>
       db_faults db' = [] \<and> idx_view C (newBlockIndex attrs lid) 0 (take (Suc target) (placed bss)) db'"
  using ch(1)
proof (induction m arbitrary: mm rule: less_induct)
  case (less m)
  let ?r = "rmgr dir lid attrs target"
  have l: "length (concat bss) < 2 ^ 64 - 1" using ch(2) by (simp add: chain_ok_def)
  have t: "Suc target < 2 ^ 64" "m - 1 < 2 ^ 64" using less.prems(3,4) l by simp_all
  show ?case
  proof (cases "m = Suc target")
    case True
    then have "rollback_loop C ?r (num64 (Suc target)) (num64 (m - 1)) mm = Some (Ok (), mm)"
      using t num64_less [of target "Suc target"] by (subst rollback_loop.simps) simp
    then show ?thesis using less.prems(1,2) True by (intro exI [of _ "m_db mm"]) simp
  next
    case False
    define s where "s = (if m - 1 - Suc target \<ge> 10 then m - 10 else Suc target)"
    have s: "0 < s" "s < m" "target < s" using False less.prems(3) by (auto simp: s_def)
    have "num64 (m - 1) - num64 (Suc target) = num64 (m - 1 - Suc target)" using False less.prems(3) by (intro num64_diff) simp
    moreover have "unat (num64 (m - 1 - Suc target)) = m - 1 - Suc target" using t by (intro unat_num64) simp
    ultimately have ge: "num64 (m - 1) - num64 (Suc target) \<ge> batchLimit \<longleftrightarrow> 10 \<le> m - 1 - Suc target"
      by (simp add: batchLimit_def word_le_nat_alt)
    have "num64 (m - 1) - batchLimit + 1 = num64 (m - 10)" if "10 \<le> m - 1 - Suc target"
    proof -
      have "batchLimit = num64 10" by (simp add: batchLimit_def num64_def)
      then have "num64 (m - 1) - batchLimit = num64 (m - 11)" using that num64_diff [of 10 "m - 1"] by simp
      moreover have "Suc (m - 11) = m - 10" using that by simp
      ultimately show ?thesis using num64_Suc [of "m - 11"] by simp
    qed
    then have start: "(if num64 (m - 1) - num64 (Suc target) \<ge> batchLimit then num64 (m - 1) - batchLimit + 1 else num64 (Suc target)) = num64 s"
      using ge by (simp add: s_def)
    obtain db1 where d: "deleteIndexEntriesRange C ?r (num64 s) (num64 (m - 1)) mm = (Ok (), mm\<lparr>m_db := db1\<rparr>)" "db_faults db1 = []"
      "idx_view C (newBlockIndex attrs lid) 0 (take s (placed bss)) db1"
      using deleteRange_chain [OF less.prems(5) ch(2,3) C a less.prems(1,2) s(1,2) less.prems(4)] by blast
    have "num64 s - 1 = num64 (s - 1)" "r_targetBlockNum ?r + 1 = num64 (Suc target)"
      using num64_diff [of 1 s] num64_Suc [of target] s(1) by (simp_all add: rmgr_def num64_def)
    moreover have "\<not> num64 (m - 1) < num64 (Suc target)" using t False less.prems(3) by (subst num64_less) simp_all
    ultimately have "rollback_loop C ?r (num64 (Suc target)) (num64 (m - 1)) mm =
        rollback_loop C ?r (num64 (Suc target)) (num64 (s - 1)) (mm\<lparr>m_db := db1\<rparr>)"
      using d(1) by (subst rollback_loop.simps) (simp only: start Let_def if_False prod.case result.case)
    moreover obtain db' where "rollback_loop C ?r (num64 (Suc target)) (num64 (s - 1)) (mm\<lparr>m_db := db1\<rparr>) = Some (Ok (), mm\<lparr>m_db := db1, m_db := db'\<rparr>)"
      "db_faults db' = []" "idx_view C (newBlockIndex attrs lid) 0 (take (Suc target) (placed bss)) db'"
      using less.IH [of s "mm\<lparr>m_db := db1\<rparr>"] s d(2,3) less.prems(4,5) by auto
    ultimately show ?thesis by auto
  qed
qed

lemma rollbackBlockIndex_chain:
  assumes ch: "chain_files (getLedgerBlockDir (store_conf dir) lid) bss [] (m_os mm)" "chain_ok C 0 h0 bss" "hashes_distinct (concat bss)"
    and C: "codec_laws C" and a: "IndexableAttrBlockNum \<in> set attrs" and f: "db_faults (m_db mm) = []"
    and v: "idx_view C (newBlockIndex attrs lid) 0 (take n (placed bss)) (m_db mm)" "n \<le> length (concat bss)" and t: "target < length (concat bss)"
  shows "\<exists>db'. rollbackBlockIndex C (rmgr dir lid attrs target) mm = Some (Ok (), mm\<lparr>m_db := db'\<rparr>) \<and>
       db_faults db' = [] \<and> idx_view C (newBlockIndex attrs lid) 0 (take (min n (Suc target)) (placed bss)) db'"
proof -
  let ?r = "rmgr dir lid attrs target"
  have l: "length (concat bss) < 2 ^ 64 - 1" using ch(2) by (simp add: chain_ok_def)
  have last: "getLastBlockIndexed (r_indexStore ?r) (m_db mm) = (if n = 0 then Err ErrIndexSavePointKeyNotPresent else Ok (num64 (n - 1)))"
    using v by (auto simp: rmgr_def idx_view_def min_def)
  have r1: "r_targetBlockNum ?r + 1 = num64 (Suc target)" using num64_Suc [of target] by (simp add: rmgr_def)
  show ?thesis
  proof (cases "target < n")
    case True
    then show ?thesis
      using rollback_loop_chain [OF ch C a f v(1) True v(2)] last r1 by (simp add: rollbackBlockIndex_def min.absorb2)
  next
    case False
    have "num64 (n - 1) < num64 (Suc target)" using False t l by (subst num64_less) simp_all
    then have "rollback_loop C ?r (num64 (Suc target)) (num64 (n - 1)) mm = Some (Ok (), mm)" by (subst rollback_loop.simps) simp
    then have "rollbackBlockIndex C ?r mm = Some (Ok (), mm)" using last r1 by (simp add: rollbackBlockIndex_def)
    then show ?thesis using f v False by (intro exI [of _ "m_db mm"]) (simp add: min.absorb1)
  qed
qed

section \<open>The files go back to the target\<close>

lemma endOffset_loop_chain:
  assumes r: "os_read fs path = Some (file_bytes bs @ t)" and st: "\<And>b. b \<in> set bs \<Longrightarrow> stored_block b"
    and n: "k < length bs" "Number (BHeader (bs ! k)) = n" "\<And>x. x < k \<Longrightarrow> Number (BHeader (bs ! x)) \<noteq> n"
  shows "x \<le> k \<Longrightarrow> endOffset_loop C fs n (stream_at path num (length (file_bytes (take x bs)))) =
     Ok (int (length (file_bytes (take (Suc k) bs))))"
proof (induction "k - x" arbitrary: x rule: less_induct)
  case less
  let ?b = "bs ! x" and ?pre = "file_bytes (take x bs)"
  have x: "x < length bs" using less.prems n(1) by simp
  have c: "os_content fs path = ?pre @ raw (block_layout ?b) @ file_bytes (drop (Suc x) bs) @ t"
    using r file_bytes_at [OF x] by (simp add: os_content_def)
  have b: "stored_block ?b" using st x by simp
  obtain txs md where e: "extractSerializedBlockInfo C (block_layout ?b) = Ok \<lparr>si_blockHeader = BHeader ?b, si_txOffsets = txs, si_metadata = md\<rparr>"
    using stored_block_codec(2) [OF b] by blast
  have next_off: "length ?pre + length (raw (block_layout ?b)) = length (file_bytes (take (Suc x) bs))"
    using x by (simp add: take_Suc_conv_app_nth)
  have s: "stream_nextBlockBytes (stream_at path num (length ?pre)) fs = Ok (Some (block_layout ?b), stream_at path num (length (file_bytes (take (Suc x) bs))))"
    using stream_nextBlockBytes_raw [OF c] b next_off by (simp add: stored_block_def)
  show ?case
  proof (cases "x = k")
    case True
    then show ?thesis using s e n(2) by (subst endOffset_loop.simps) (simp add: stream_at_def)
  next
    case False
    then have "x < k" using less.prems by simp
    then show ?thesis using s e n(3) [of x] less.hyps [of "Suc x"] by (subst endOffset_loop.simps) simp
  qed
qed

lemma calculateEndOffSet_chain:
  assumes r: "os_read fs (deriveBlockfilePath root (int i)) = Some (file_bytes bs @ t)" and st: "\<And>b. b \<in> set bs \<Longrightarrow> stored_block b"
    and n: "k < length bs" "Number (BHeader (bs ! k)) = n" "\<And>x. x < k \<Longrightarrow> Number (BHeader (bs ! x)) \<noteq> n"
  shows "calculateEndOffSet C root (int i) n fs = Ok (int (length (file_bytes (take (Suc k) bs))))"
proof -
  have "newBlockfileStream root (int i) 0 fs = Ok (stream_at (deriveBlockfilePath root (int i)) (int i) (length (file_bytes (take 0 bs))))"
    using r by (simp add: newBlockfileStream_Ok stream_at_def)
  then show ?thesis using endOffset_loop_chain [OF r st n, of 0] by (simp add: calculateEndOffSet_def)
qed

lemma info_deleted:
  assumes C: "codec_laws C" and a: "IndexableAttrBlockNum \<in> set attrs" and ps: "indexable C ps" and f: "db_faults db = []"
    and v: "idx_view C (newBlockIndex attrs lid) 0 ps db"
  shows "\<exists>db'. DBHandle_Delete lid blkMgrInfoKey True db = (Ok (), db') \<and> db_faults db' = [] \<and>
     idx_view C (newBlockIndex attrs lid) 0 ps db' \<and> loadBlkfilesInfo lid db' = Ok None"
proof -
  let ?db = "db\<lparr>entries := sdel (constructLevelKey lid blkMgrInfoKey) (entries db)\<rparr>"
  have "DBHandle_Delete lid blkMgrInfoKey True db = (Ok (), ?db)" using f by (simp add: DBHandle_Delete_def DB_Delete_def db_fault_def)
  moreover have g: "DBHandle_Get lid k ?db = (if k = blkMgrInfoKey then None else DBHandle_Get lid k db)" for k
    by (auto simp: DBHandle_Get_def DB_Get_def map_of_sdel)
  have "idx_view C (newBlockIndex attrs lid) 0 ps ?db"
  proof (rule idx_view_exact [OF C _ ps])
    show "isAttributeIndexed (newBlockIndex attrs lid) IndexableAttrBlockNum" using a by (simp add: isAttributeIndexed_def newBlockIndex_def)
    show "in_key_order (entries ?db)" using v by (simp add: idx_view_def)
    show "DBHandle_Get (idx_db (newBlockIndex attrs lid)) k ?db = idx_map C (newBlockIndex attrs lid) ps k" if "k \<noteq> blkMgrInfoKey" for k
      using v that g [of k] by (simp add: idx_view_def)
  qed
  ultimately show ?thesis using f g by (simp add: loadBlkfilesInfo_def)
qed

lemma target_file:
  assumes ch: "chain_files root bss [] fs" "chain_ok C 0 h0 bss" and full: "\<And>i. 0 < i \<Longrightarrow> i < length bss \<Longrightarrow> bss ! i \<noteq> []"
    and t: "target < length (concat bss)"
  obtains i k where "i < length bss" "k < length (bss ! i)" "target = file_start bss i + k" "binarySearchFileNumForBlock C root (num64 target) fs = Ok (int i)"
    "Number (BHeader (bss ! i ! k)) = num64 target" "\<And>x. x < k \<Longrightarrow> Number (BHeader (bss ! i ! x)) \<noteq> num64 target"
proof -
  have num: "numbered 0 (concat bss)" "bss \<noteq> []" using ch(2) by (simp_all add: chain_ok_def)
  obtain i where i: "i < length bss" "binarySearchFileNumForBlock C root (num64 target) fs = Ok (int i)"
    "file_start bss i \<le> target" "target < file_start bss (Suc i)"
    using binarySearch_chain [OF ch(1) num full t, of C] by (auto simp: num64_def)
  define k where "k = target - file_start bss i"
  have k: "k < length (bss ! i)" "target = file_start bss i + k" using i by (simp_all add: k_def file_start_Suc)
  have l: "length (concat bss) < 2 ^ 64 - 1" using ch(2) by (simp add: chain_ok_def)
  have N: "Number (BHeader (bss ! i ! x)) = num64 (file_start bss i + x)" if "x < length (bss ! i)" for x
    using nth_concat_file [OF i(1) that] chain_number [OF ch(2)] by metis
  have "Number (BHeader (bss ! i ! x)) \<noteq> num64 target" if "x < k" for x
    using that k t l N [of x] num64_inject [of "file_start bss i + x" target] by simp
  then show ?thesis using that i k N [OF k(1)] by metis
qed

lemma rollbackBlockFiles_chain:
  assumes C: "codec_laws C" and a: "IndexableAttrBlockNum \<in> set attrs"
    and ch: "chain_files (getLedgerBlockDir (store_conf dir) lid) bss [] (m_os mm)" "chain_ok C 0 h0 bss"
    and full: "\<And>i. 0 < i \<Longrightarrow> i < length bss \<Longrightarrow> bss ! i \<noteq> []" and t: "target < length (concat bss)" and n: "n \<le> Suc target"
    and f: "db_faults (m_db mm) = []" and v: "idx_view C (newBlockIndex attrs lid) 0 (take n (placed bss)) (m_db mm)"
  shows "\<exists>i k fs db. rollbackBlockFiles C (rmgr dir lid attrs target) mm = (Ok (), \<lparr>m_os = fs, m_db = db\<rparr>) \<and>
     i < length bss \<and> k \<le> length (bss ! i) \<and> Suc target = file_start bss i + k \<and> 0 < k \<and>
     chain_files (getLedgerBlockDir (store_conf dir) lid) (cut_chain i k bss) [] fs \<and> dirs fs = dirs (m_os mm) \<and> faults fs = faults (m_os mm) \<and>
     (\<forall>q. (\<forall>i. q \<noteq> deriveBlockfilePath (getLedgerBlockDir (store_conf dir) lid) (int i)) \<longrightarrow> os_read fs q = os_read (m_os mm) q) \<and>
     db_faults db = [] \<and> idx_view C (newBlockIndex attrs lid) 0 (take n (placed bss)) db \<and> loadBlkfilesInfo lid db = Ok None"
proof -
  let ?root = "getLedgerBlockDir (store_conf dir) lid" and ?r = "rmgr dir lid attrs target"
  obtain i k where ik: "i < length bss" "k < length (bss ! i)" "target = file_start bss i + k"
    and bin: "binarySearchFileNumForBlock C ?root (num64 target) (m_os mm) = Ok (int i)"
    and num: "Number (BHeader (bss ! i ! k)) = num64 target" "\<And>x. x < k \<Longrightarrow> Number (BHeader (bss ! i ! x)) \<noteq> num64 target"
    using target_file [OF ch full t] by blast
  obtain db where db: "DBHandle_Delete lid blkMgrInfoKey True (m_db mm) = (Ok (), db)" "db_faults db = []"
    "idx_view C (newBlockIndex attrs lid) 0 (take n (placed bss)) db" "loadBlkfilesInfo lid db = Ok None"
    using info_deleted [OF C a chain_indexable [OF ch(2)] f v] by blast
  obtain fs1 fs where cut: "remove_files ?root (int i + 1) (int (length bss) - 1) (m_os mm) = (Ok (), fs1)"
    "os_Truncate (deriveBlockfilePath ?root (int i)) (length (file_bytes (take (Suc k) (bss ! i)))) fs1 = (Ok (), fs)"
    "\<And>q. os_read fs1 q = (if \<exists>n. i < n \<and> n < length bss \<and> q = deriveBlockfilePath ?root (int n) then None else os_read (m_os mm) q)"
    "chain_files ?root (cut_chain i (Suc k) bss) [] fs" "dirs fs = dirs (m_os mm)" "faults fs = faults (m_os mm)"
    "\<And>q. (\<forall>i. q \<noteq> deriveBlockfilePath ?root (int i)) \<Longrightarrow> os_read fs q = os_read (m_os mm) q"
    using cut_files [OF ch(1) ik(1), of "Suc k"] ik(2) by (auto simp: Suc_le_eq)
  have "os_read (m_os mm) (deriveBlockfilePath ?root (int i)) = Some (file_bytes (bss ! i) @ [])"
    using ch(1) ik(1) by (simp add: chain_files_def)
  then have "os_read fs1 (deriveBlockfilePath ?root (int i)) = Some (file_bytes (bss ! i) @ [])" by (auto simp: cut(3))
  then have off: "calculateEndOffSet C ?root (int i) (num64 target) fs1 = Ok (int (length (file_bytes (take (Suc k) (bss ! i)))))"
    using chain_files_stored [OF ch(1) ik(1)] ik(2) num by (intro calculateEndOffSet_chain)
  have last: "retrieveLastFileSuffix ?root (m_os mm) = Ok (int (length bss) - 1)"
    using ch(1) by (intro retrieveLastFileSuffix_names) (simp add: chain_files_def)
  have "rollbackBlockFiles C ?r mm = (Ok (), \<lparr>m_os = fs, m_db = db\<rparr>)"
    using db(1) bin last cut(1,2) off
    by (cases mm) (simp add: rollbackBlockFiles_def rmgr_def on_os_def on_db_def io_zoom_def io_wrap_def)
  then show ?thesis
    using ik cut(4-7) db by (intro exI [of _ i] exI [of _ "Suc k"] exI [of _ fs] exI [of _ db]) auto
qed

text \<open>The target is valid when it is before the last block.\<close>

lemma validTarget_chain:
  assumes l: "ledger_files root bss t fs" and c: "chain_ok C 0 h0 bss"
  shows "validateTargetBlkNum C root target fs = Ok () \<longleftrightarrow> Suc (unat target) < length (concat bss)"
proof -
  have ne: "concat bss \<noteq> []" using l by (simp add: ledger_files_def)
  then have len: "0 < length (concat bss)" "length (concat bss) < 2 ^ 64 - 1" using c by (simp_all add: chain_ok_def del: concat_eq_Nil_conv)
  have "last_number bss = num64 (length (concat bss) - 1)"
    using c ne last_number_chain [of 0 bss] by (simp add: chain_ok_def del: concat_eq_Nil_conv)
  moreover have "unat (num64 (length (concat bss) - 1)) = length (concat bss) - 1" using len by (intro unat_num64) simp
  ultimately show ?thesis
    using constructBlockfilesInfo_ledger [OF l, of C] len by (auto simp: validateTargetBlkNum_def word_le_nat_alt)
qed

section \<open>Property\<close>

lemma rollback_disk:
  assumes l: "ledger_ok C root bss [] h fs" and i: "i < length bss" "k \<le> length (bss ! i)" "0 < k"
    and ch: "chain_files root (cut_chain i k bss) [] fs'" and d: "dirs fs' = dirs fs" "faults fs' = []" "db_faults db = []"
    and r: "os_read fs' (path_Join root bootstrappingSnapshotInfoFile) = os_read fs (path_Join root bootstrappingSnapshotInfoFile)"
    and v: "idx_view C (newBlockIndex attrs lid) 0 (take n (placed bss)) db" "n \<le> file_start bss i + k" "loadBlkfilesInfo lid db = Ok None"
  shows "disk C root (newBlockIndex attrs lid) (cut_chain i k bss) [] n \<lparr>m_os = fs', m_db = db\<rparr>"
proof -
  have L: "chain_ok C 0 [] bss" "no_gaps bss" "\<And>j. \<not> os_is_dir fs (deriveBlockfilePath root j)"
    "os_read fs (path_Join root bootstrappingSnapshotInfoFile) = None"
    using l by (auto simp: ledger_ok_def ledger_files_def)
  have "k - 1 < length (bss ! i)" using i by simp
  then have len: "file_start bss i + k \<le> length (concat bss)" using nth_concat_file(2) [OF i(1), of "k - 1"] i(3) by simp
  have "no_gaps (cut_chain i k bss)"
    using L(2) i by (auto simp: no_gaps_def cut_chain_def nth_append less_Suc_eq)
  moreover have "files_of root (cut_chain i k bss) [] (fs'\<lparr>dirs := root # dirs fs'\<rparr>)"
    using ch by (auto simp: files_of_def chain_files_def block_file_names_def os_read_def os_is_dir_def)
  moreover have "take n (placed (cut_chain i k bss)) = take n (placed bss)"
    using i v(2) by (simp add: placed_cut_chain min.absorb1)
  moreover have "n \<le> length (concat (cut_chain i k bss))" using i v(2) len by (simp add: concat_cut_chain)
  moreover have "idx_db (newBlockIndex attrs lid) = lid" by (simp add: newBlockIndex_def)
  ultimately show ?thesis
    using L chain_ok_cut [OF L(1) i(1,2)] d r v by (simp add: disk_def os_is_dir_def)
qed

text \<open>The whole operation: what it leaves on the disk.\<close>

lemma Rollback_effect:
  fixes dir lid defines "root \<equiv> getLedgerBlockDir (store_conf dir) lid"
  assumes C: "codec_laws C" and l: "ledger_ok C root bss [] h (m_os mm)"
    and full: "\<And>i. 0 < i \<Longrightarrow> i < length bss \<Longrightarrow> bss ! i \<noteq> []" and hd: "hashes_distinct (concat bss)"
    and v: "idx_view C (newBlockIndex attrs lid) 0 (take n (placed bss)) (m_db mm)" "n \<le> length (concat bss)" "IndexableAttrBlockNum \<in> set attrs"
    and o: "openDBAndCheckFormat (dataFormatVersion attrs) (m_db mm) = (Ok (), m_db mm)" "faults (m_os mm) = []" "db_faults (m_db mm) = []"
    and t: "Suc (unat target) < length (concat bss)"
  shows "\<exists>i k fs db. Rollback C dir lid target attrs mm = Some (Ok (), \<lparr>m_os = fs, m_db = db\<rparr>) \<and>
     i < length bss \<and> k \<le> length (bss ! i) \<and> Suc (unat target) = file_start bss i + k \<and>
     disk C root (newBlockIndex attrs lid) (cut_chain i k bss) [] (min n (Suc (unat target))) \<lparr>m_os = fs, m_db = db\<rparr> \<and>
     recorded_height root fs = Ok (max h (last_number bss + 1)) \<and> (\<forall>q. q \<notin> reset_paths root \<longrightarrow> os_read fs q = os_read (m_os mm) q)"
proof -
  let ?t = "unat target" and ?r = "rmgr dir lid attrs (unat target)"
  have L: "ledger_files root bss [] (m_os mm)" "chain_ok C 0 [] bss" "recorded_height root (m_os mm) = Ok h"
    using l by (simp_all add: ledger_ok_def)
  have ch: "chain_files root bss [] (m_os mm)" using L(1) by (simp add: ledger_files_def)
  have mgr: "newRollbackMgr dir lid attrs target mm = (Ok ?r, mm)"
    using o(1) by (cases mm) (simp add: newRollbackMgr_def rmgr_def on_db_def io_zoom_def Let_def num64_unat)
  obtain fs1 where rec: "recordHeightIfGreaterThanPreviousRecording C root (m_os mm) = (Ok (), fs1)"
    "recorded_height root fs1 = Ok (max h (last_number bss + 1))" "dirs fs1 = dirs (m_os mm)" "faults fs1 = faults (m_os mm)"
    "\<And>q. q \<noteq> path_Join root fileNamePreRestHt \<Longrightarrow> os_read fs1 q = os_read (m_os mm) q"
    using recordHeight_effect [OF L(1,3)] by blast
  have ch1: "chain_files root bss [] fs1"
    by (rule chain_files_other [OF ch, of fileNamePreRestHt]) (simp_all add: rec)
  obtain db1 where ix: "rollbackBlockIndex C ?r (mm\<lparr>m_os := fs1\<rparr>) = Some (Ok (), mm\<lparr>m_os := fs1, m_db := db1\<rparr>)" "db_faults db1 = []"
    "idx_view C (newBlockIndex attrs lid) 0 (take (min n (Suc ?t)) (placed bss)) db1"
    using rollbackBlockIndex_chain [of dir lid bss "mm\<lparr>m_os := fs1\<rparr>" C "[]" attrs n ?t] ch1 L(2) C hd v o t unfolding root_def by auto
  obtain i k fs db where F: "rollbackBlockFiles C ?r (mm\<lparr>m_os := fs1, m_db := db1\<rparr>) = (Ok (), \<lparr>m_os = fs, m_db = db\<rparr>)"
    "i < length bss" "k \<le> length (bss ! i)" "Suc ?t = file_start bss i + k" "0 < k" "chain_files root (cut_chain i k bss) [] fs"
    "dirs fs = dirs fs1" "faults fs = faults fs1" "\<And>q. (\<forall>i. q \<noteq> deriveBlockfilePath root (int i)) \<Longrightarrow> os_read fs q = os_read fs1 q"
    "db_faults db = []" "idx_view C (newBlockIndex attrs lid) 0 (take (min n (Suc ?t)) (placed bss)) db" "loadBlkfilesInfo lid db = Ok None"
    using rollbackBlockFiles_chain [OF C v(3), of dir lid bss "mm\<lparr>m_os := fs1, m_db := db1\<rparr>" "[]" ?t "min n (Suc ?t)"]
      ch1 L(2) full t ix unfolding root_def by auto
  have R: "Rollback C dir lid target attrs mm = Some (Ok (), \<lparr>m_os = fs, m_db = db\<rparr>)"
    using mgr rec(1) ix(1) F(1) unfolding root_def by (cases mm) (simp add: Rollback_def on_os_def io_zoom_def rmgr_def)
  have rd: "os_read fs q = os_read (m_os mm) q" if "q \<notin> reset_paths root" for q
    using that F(9) [of q] rec(5) [of q] by (auto simp: reset_paths_def)
  have "fileNamePreRestHt \<noteq> block_file_name i" for i using aux_names(1) isBlockFileName_block_file_name by metis
  then have "recorded_height root fs = recorded_height root fs1"
    using F(9) [of "path_Join root fileNamePreRestHt"] by (simp add: recorded_height_def deriveBlockfilePath_Join)
  moreover have "disk C root (newBlockIndex attrs lid) (cut_chain i k bss) [] (min n (Suc ?t)) \<lparr>m_os = fs, m_db = db\<rparr>"
    by (rule rollback_disk [OF l F(2,3,5,6)]) (use F rec o rd in auto)
  ultimately show ?thesis using R F(2-4) rec(2) rd by auto
qed

text \<open>C4. Rolling back: when the parameters are valid, \<open>Rollback\<close> returns without an error, and the ledger
  then opens with exactly the blocks up to the target, whatever part of the blocks was indexed; the
  height before the rollback is recorded.  (No block file after the first is empty, and no two
  headers have the same hash.)\<close>

theorem rollback_keeps_prefix:
  assumes "codec_laws C" "ledger_ok C (getLedgerBlockDir (store_conf dir) lid) bss [] h (m_os mm)" "ledger_id dir (m_os mm) lid"
    and "\<forall>i. 0 < i \<and> i < length bss \<longrightarrow> bss ! i \<noteq> []" "hashes_distinct (concat bss)"
    and "idx_view C (newBlockIndex attrs lid) 0 (take n (placed bss)) (m_db mm)" "n \<le> length (concat bss)" "IndexableAttrBlockNum \<in> set attrs"
    and "openDBAndCheckFormat (dataFormatVersion attrs) (m_db mm) = (Ok (), m_db mm)" "faults (m_os mm) = []" "db_faults (m_db mm) = []"
    and "ValidateRollbackParams C dir lid target (m_os mm) = Ok ()"
  shows "\<exists>mm' bss'. Rollback C dir lid target attrs mm = Some (Ok (), mm') \<and>
     concat bss' = take (Suc (unat target)) (concat bss) \<and>
     recorded_height (getLedgerBlockDir (store_conf dir) lid) (m_os mm') = Ok (max h (num64 (length (concat bss)))) \<and>
     (\<exists>mgr mm2. newBlockfileMgr C lid (NewConf dir sz) attrs lid mm' = (Ok mgr, mm2) \<and> store_inv C 0 [] bss' (opened mm2 mgr))"
proof -
  let ?root = "getLedgerBlockDir (store_conf dir) lid"
  have L: "ledger_files ?root bss [] (m_os mm)" "chain_ok C 0 [] bss" "creatable ?root (m_os mm)" "concat bss \<noteq> []"
    using assms(2) by (auto simp: ledger_ok_def ledger_files_def)
  have lid: "CHR ''/'' \<notin> set lid" using assms(3) by (simp add: ledger_id_def)
  have "validateTargetBlkNum C ?root target (m_os mm) = Ok ()"
    using assms(12) unfolding ValidateRollbackParams_def Let_def rbind_eq_Ok by simp
  then have t: "Suc (unat target) < length (concat bss)" using validTarget_chain [OF L(1,2), of target] by simp
  have full: "bss ! i \<noteq> []" if "0 < i" "i < length bss" for i using assms(4) that by blast
  obtain i k fs db where R: "Rollback C dir lid target attrs mm = Some (Ok (), \<lparr>m_os = fs, m_db = db\<rparr>)"
    "i < length bss" "k \<le> length (bss ! i)" "Suc (unat target) = file_start bss i + k"
    "disk C ?root (newBlockIndex attrs lid) (cut_chain i k bss) [] (min n (Suc (unat target))) \<lparr>m_os = fs, m_db = db\<rparr>"
    "recorded_height ?root fs = Ok (max h (last_number bss + 1))" "\<And>q. q \<notin> reset_paths ?root \<Longrightarrow> os_read fs q = os_read (m_os mm) q"
    using Rollback_effect [OF assms(1,2) full assms(5-11) t] by auto
  have dir: "getLedgerBlockDir (NewConf dir sz) lid = ?root" by (simp add: NewConf_def getLedgerBlockDir_def getChainsDir_def)
  have "creatable ?root fs" by (rule creatable_reset [OF L(3) lid]) (use R(7) lid in auto)
  then have "\<exists>mgr mm2. newBlockfileMgr C lid (NewConf dir sz) attrs lid \<lparr>m_os = fs, m_db = db\<rparr> = (Ok mgr, mm2) \<and>
      store_inv C 0 [] (cut_chain i k bss) (opened mm2 mgr)"
    using newBlockfileMgr_chain [OF assms(1) lid, of "NewConf dir sz" attrs lid] R(5) assms(8) unfolding dir by fastforce
  moreover have "last_number bss + 1 = num64 (length (concat bss))" using height_after_last [OF L(2,4)] by simp
  ultimately show ?thesis using R(1-4,6)
    by (intro exI [of _ "\<lparr>m_os = fs, m_db = db\<rparr>"] exI [of _ "cut_chain i k bss"]) (simp add: concat_cut_chain)
qed

section \<open>Two hashes\<close>

lemma genesis_hash:
  "BlockHeaderHash (BHeader genesis) =
     [29, 28, 40, 140, 104, 81, 80, 91, 224, 180, 122, 15, 142, 125, 251, 145,
      171, 42, 190, 106, 215, 28, 239, 99, 163, 121, 29, 20, 88, 141, 29, 14]"
  by code_simp

lemma second_hash:
  "BlockHeaderHash (BHeader second) =
     [44, 23, 60, 245, 160, 224, 122, 140, 172, 78, 10, 33, 171, 103, 216, 68,
      246, 125, 181, 243, 95, 199, 252, 52, 159, 158, 103, 157, 98, 157, 13, 100]"
  unfolding second_def genesis_hash by code_simp

lemma chain2_hashes: "hashes_distinct (concat [[genesis], [second]])"
  by (simp add: hashes_distinct_def genesis_hash second_hash)

theorem rollback_keeps_prefix_witness:
  "\<exists>mm' bss'. Rollback ref_codec ''/l'' ''ch'' 0 [IndexableAttrBlockNum] machine2 = Some (Ok (), mm') \<and> concat bss' = [genesis] \<and>
     (\<exists>mgr mm2. newBlockfileMgr ref_codec ''ch'' sample_conf [IndexableAttrBlockNum] ''ch'' mm' = (Ok mgr, mm2) \<and>
        store_inv ref_codec 0 [] bss' (opened mm2 mgr))"
proof -
  have root: "getLedgerBlockDir (store_conf ''/l'') ''ch'' = root2"
    by (simp add: getLedgerBlockDir_def getChainsDir_def ChainsDir_def path_Join_def)
  have l: "ledger_ok ref_codec root2 [[genesis], [second]] [] 0 (m_os machine2)" by (rule machine2_ledger)
  then have f: "ledger_files root2 [[genesis], [second]] [] (m_os machine2)" "chain_ok ref_codec 0 [] [[genesis], [second]]"
    by (simp_all add: ledger_ok_def)
  have "validateLedgerID root2 ''ch'' (m_os machine2) = Ok ()"
    by (simp add: validateLedgerID_def DirExists_def machine2_def os_is_dir_def os_exists_def)
  then have v: "ValidateRollbackParams ref_codec ''/l'' ''ch'' 0 (m_os machine2) = Ok ()"
    using validTarget_chain [OF f, of 0] unfolding ValidateRollbackParams_def root by simp
  have i: "idx_view ref_codec (newBlockIndex [IndexableAttrBlockNum] ''ch'') 0 (take 0 (placed [[genesis], [second]])) (m_db machine2)"
    using idx_view_empty [of "m_db machine2" "newBlockIndex [IndexableAttrBlockNum] ''ch''"]
    by (simp add: machine2_def isAttributeIndexed_def newBlockIndex_def)
  have o: "openDBAndCheckFormat (dataFormatVersion [IndexableAttrBlockNum]) (m_db machine2) = (Ok (), m_db machine2)"
    by (simp add: machine2_def dataFormatVersion_def openDBAndCheckFormat_def DBHandle_Get_def DB_Get_def to_bytes_def)
  have full: "\<forall>i. 0 < i \<and> i < length [[genesis], [second]] \<longrightarrow> [[genesis], [second]] ! i \<noteq> []" by (auto simp: less_Suc_eq)
  have n: "ledger_id ''/l'' (m_os machine2) ''ch''" "0 \<le> length (concat [[genesis], [second]])" "IndexableAttrBlockNum \<in> set [IndexableAttrBlockNum]"
    "faults (m_os machine2) = []" "db_faults (m_db machine2) = []" by (simp_all add: machine2_ids) (simp_all add: machine2_def)
  obtain mm' bss' where "Rollback ref_codec ''/l'' ''ch'' 0 [IndexableAttrBlockNum] machine2 = Some (Ok (), mm')"
    "concat bss' = take (Suc (unat (0::uint64))) (concat [[genesis], [second]])"
    "\<exists>mgr mm2. newBlockfileMgr ref_codec ''ch'' (NewConf ''/l'' 0) [IndexableAttrBlockNum] ''ch'' mm' = (Ok mgr, mm2) \<and>
        store_inv ref_codec 0 [] bss' (opened mm2 mgr)"
    using rollback_keeps_prefix [OF codec_laws_ref l [folded root] n(1) full chain2_hashes i n(2,3) o n(4,5) v, of 0] by blast
  then show ?thesis unfolding sample_conf_def by (intro exI [of _ mm'] exI [of _ bss'] conjI) simp_all
qed

end
