(* ===== verification/BlockCutter.thy ===== *)
theory BlockCutter
  imports Proto
begin

text \<open>
  \<open>orderer/common/blockcutter/blockcutter.go\<close>: the orderer collects messages into batches, one batch
  per block.  The clock and the metrics of the receiver are not modelled.
\<close>

section \<open>Definitions\<close>

text \<open>The batch parameters of the channel configuration that the cutter reads.\<close>

record BatchSize =
  MaxMessageCount :: "32 word"
  PreferredMaxBytes :: "32 word"

record receiver =
  pendingBatch :: "Envelope list"
  pendingBatchSizeBytes :: "32 word"

definition NewReceiverImpl :: receiver where
  "NewReceiverImpl = \<lparr>pendingBatch = [], pendingBatchSizeBytes = 0\<rparr>"

definition messageSizeBytes :: "Envelope \<Rightarrow> 32 word" where
  "messageSizeBytes message = word_of_nat (length (env_Payload message) + length (env_Signature message))"

definition Cut :: "(receiver, Envelope list) io" where
  "Cut = io_bind (io_get pendingBatch) (\<lambda>batch.
     io_bind (io_modify (\<lambda>r. r\<lparr>pendingBatch := [], pendingBatchSizeBytes := 0\<rparr>)) (\<lambda>_.
     io_return batch))"

definition enqueue :: "Envelope \<Rightarrow> (receiver, unit) io" where
  "enqueue msg = io_modify (\<lambda>r. r\<lparr>pendingBatch := pendingBatch r @ [msg],
     pendingBatchSizeBytes := pendingBatchSizeBytes r + messageSizeBytes msg\<rparr>)"

text \<open>The configuration is fetched for every message; \<open>None\<close>: there is none.\<close>

definition Ordered :: "BatchSize option \<Rightarrow> Envelope \<Rightarrow> (receiver, Envelope list list \<times> bool) io" where
  "Ordered ordererConfig msg =
     (case ordererConfig of
        None \<Rightarrow> io_lift (Panic ''Could not retrieve orderer config to query batch parameters, block cutting is not possible'')
      | Some batchSize \<Rightarrow>
          if messageSizeBytes msg > PreferredMaxBytes batchSize then
            io_bind (io_get pendingBatch) (\<lambda>pending.
            io_bind (if length pending > 0 then io_bind Cut (\<lambda>b. io_return [b]) else io_return []) (\<lambda>messageBatches.
            io_return (messageBatches @ [[msg]], False)))
          else
            io_bind (io_get pendingBatchSizeBytes) (\<lambda>pendingBytes.
            io_bind (if pendingBytes + messageSizeBytes msg > PreferredMaxBytes batchSize
                     then io_bind Cut (\<lambda>b. io_return [b]) else io_return []) (\<lambda>messageBatches.
            io_bind (enqueue msg) (\<lambda>_.
            io_bind (io_get pendingBatch) (\<lambda>pending.
            if word_of_nat (length pending) \<ge> MaxMessageCount batchSize
            then io_bind Cut (\<lambda>b. io_return (messageBatches @ [b], False))
            else io_return (messageBatches, True))))))"

text \<open>A sequence of messages, with the configuration in force at each: all batches cut.\<close>

fun order_all :: "(BatchSize option \<times> Envelope) list \<Rightarrow> (receiver, Envelope list list) io" where
  "order_all [] = io_return []"
| "order_all ((c, m) # ms) =
     io_bind (Ordered c m) (\<lambda>(bs, _). io_bind (order_all ms) (\<lambda>bs'. io_return (bs @ bs')))"

section \<open>Lemmas\<close>

definition envelope_bytes :: "Envelope \<Rightarrow> nat" where
  "envelope_bytes m = length (env_Payload m) + length (env_Signature m)"

definition batch_bytes :: "Envelope list \<Rightarrow> nat" where
  "batch_bytes b = sum_list (map envelope_bytes b)"

text \<open>What the receiver holds between two messages.\<close>

definition receiver_inv :: "BatchSize \<Rightarrow> receiver \<Rightarrow> bool" where
  "receiver_inv c r \<longleftrightarrow>
     unat (pendingBatchSizeBytes r) = batch_bytes (pendingBatch r) \<and>
     batch_bytes (pendingBatch r) \<le> unat (PreferredMaxBytes c) \<and>
     length (pendingBatch r) < unat (MaxMessageCount c)"

text \<open>A batch that may become a block.\<close>

definition batch_ok :: "BatchSize \<Rightarrow> Envelope list \<Rightarrow> bool" where
  "batch_ok c b \<longleftrightarrow> b \<noteq> [] \<and> length b \<le> unat (MaxMessageCount c) \<and>
     (batch_bytes b \<le> unat (PreferredMaxBytes c) \<or> length b = 1)"

lemma messageSizeBytes: "envelope_bytes m < 2 ^ 32 \<Longrightarrow> unat (messageSizeBytes m) = envelope_bytes m"
  by (simp add: messageSizeBytes_def envelope_bytes_def unat_of_nat take_bit_eq_mod del: of_nat_add)

lemma batch_bytes_simps [simp]: "batch_bytes [] = 0" "batch_bytes (b @ [m]) = batch_bytes b + envelope_bytes m"
  by (simp_all add: batch_bytes_def)

lemma Cut_run [simp]: "Cut r = (Ok (pendingBatch r), r\<lparr>pendingBatch := [], pendingBatchSizeBytes := 0\<rparr>)"
  by (simp add: Cut_def)

lemma Ordered_step:
  assumes c: "0 < MaxMessageCount c" "PreferredMaxBytes c < 2 ^ 31" and m: "envelope_bytes m < 2 ^ 32" and r: "receiver_inv c r"
  shows "\<exists>bs pending r'. Ordered (Some c) m r = (Ok (bs, pending), r') \<and> concat bs @ pendingBatch r' = pendingBatch r @ [m] \<and>
     receiver_inv c r' \<and> list_all (batch_ok c) bs \<and> length bs \<le> 2 \<and> (pending \<longleftrightarrow> pendingBatch r' \<noteq> []) \<and> (bs \<noteq> [] \<or> pending)"
proof -
  let ?s = "messageSizeBytes m" and ?p = "pendingBatchSizeBytes r" and ?pref = "PreferredMaxBytes c"
  have pref: "unat ?pref < 2 ^ 31" using c(2) by (simp add: word_less_nat_alt)
  have max: "0 < unat (MaxMessageCount c)" using c(1) by (simp add: word_less_nat_alt)
  have s: "unat ?s = envelope_bytes m" using messageSizeBytes [OF m] .
  have R: "unat ?p = batch_bytes (pendingBatch r)" "batch_bytes (pendingBatch r) \<le> unat ?pref"
    "length (pendingBatch r) < unat (MaxMessageCount c)" using r by (simp_all add: receiver_inv_def)
  have count: "word_of_nat (Suc n) \<ge> MaxMessageCount c \<longleftrightarrow> Suc n = unat (MaxMessageCount c)" if "n < unat (MaxMessageCount c)" for n
  proof -
    have "Suc n < 2 ^ 32" using that unsigned_less [of "MaxMessageCount c", where ?'a = nat] by simp
    then have "unat (word_of_nat (Suc n) :: 32 word) = Suc n" by (simp add: unat_of_nat take_bit_eq_mod del: of_nat_Suc)
    then show ?thesis using that by (auto simp add: word_le_nat_alt le_eq_less_or_eq simp del: of_nat_Suc)
  qed
  show ?thesis
  proof (cases "?s > ?pref")
    case True
    have "batch_ok c [m]" using max by (simp add: batch_ok_def Suc_le_eq)
    moreover have "batch_ok c (pendingBatch r)" if "pendingBatch r \<noteq> []" using R that by (simp add: batch_ok_def)
    ultimately show ?thesis using True R max by (cases "pendingBatch r") (auto simp: Ordered_def receiver_inv_def)
  next
    case False
    then have small: "envelope_bytes m \<le> unat ?pref" using s by (simp add: word_less_nat_alt not_less)
    have sum: "unat (?p + ?s) = batch_bytes (pendingBatch r) + envelope_bytes m"
      using small R s pref by (subst unat_plus_if_size) (simp add: word_size)
    then have over: "?p + ?s > ?pref \<longleftrightarrow> batch_bytes (pendingBatch r) + envelope_bytes m > unat ?pref" by (simp add: word_less_nat_alt)
    show ?thesis
    proof (cases "?p + ?s > ?pref")
      case True
      then have "pendingBatch r \<noteq> []" using over small by auto
      then have "batch_ok c (pendingBatch r)" using R by (simp add: batch_ok_def)
      then show ?thesis using True False small s count [of 0] max
        by (auto simp: Ordered_def enqueue_def receiver_inv_def batch_ok_def batch_bytes_def)
    next
      case no: False
      then show ?thesis using False sum over R count [of "length (pendingBatch r)"]
        by (auto simp: Ordered_def enqueue_def receiver_inv_def batch_ok_def)
    qed
  qed
qed

lemma order_all_run:
  assumes c: "0 < MaxMessageCount c" "PreferredMaxBytes c < 2 ^ 31" and m: "\<forall>m \<in> set ms. envelope_bytes m < 2 ^ 32" and r: "receiver_inv c r"
  shows "\<exists>bs r'. order_all (map (Pair (Some c)) ms) r = (Ok bs, r') \<and> concat bs @ pendingBatch r' = pendingBatch r @ ms \<and>
     receiver_inv c r' \<and> list_all (batch_ok c) bs"
  using m r
proof (induction ms arbitrary: r)
  case (Cons m ms)
  obtain bs p r1 where 1: "Ordered (Some c) m r = (Ok (bs, p), r1)" "concat bs @ pendingBatch r1 = pendingBatch r @ [m]"
    "receiver_inv c r1" "list_all (batch_ok c) bs" using Ordered_step [OF c] Cons.prems by fastforce
  obtain bs' r2 where 2: "order_all (map (Pair (Some c)) ms) r1 = (Ok bs', r2)" "concat bs' @ pendingBatch r2 = pendingBatch r1 @ ms"
    "receiver_inv c r2" "list_all (batch_ok c) bs'" using Cons.IH [of r1] Cons.prems 1(3) by auto
  have "concat (bs @ bs') @ pendingBatch r2 = pendingBatch r @ m # ms" using 1(2) 2(2) by (metis append.assoc append_Cons append_Nil concat_append)
  then show ?case using 1 2 by auto
qed simp

section \<open>Properties\<close>

text \<open>C26. Cutting batches: under a fixed configuration (at least one message per block, a preferred size
  below \<open>2 ^ 31\<close>) the batches and the pending messages are together exactly the messages in their
  order, every batch is not empty, holds at most \<open>MaxMessageCount\<close> messages and at most
  \<open>PreferredMaxBytes\<close> bytes unless it is a single message, and the pending messages keep within both
  bounds after every message.\<close>

theorem batches_partition_messages:
  assumes "0 < MaxMessageCount c" "PreferredMaxBytes c < 2 ^ 31" "\<forall>m \<in> set ms. envelope_bytes m < 2 ^ 32"
  shows "\<exists>bs r. order_all (map (Pair (Some c)) ms) NewReceiverImpl = (Ok bs, r) \<and> concat bs @ pendingBatch r = ms \<and>
     receiver_inv c r \<and> list_all (batch_ok c) bs"
proof -
  have "receiver_inv c NewReceiverImpl" using assms(1) by (simp add: receiver_inv_def NewReceiverImpl_def word_less_nat_alt)
  then show ?thesis using order_all_run [OF assms, of NewReceiverImpl] by (simp add: NewReceiverImpl_def)
qed

theorem batches_partition_messages_witness:
  "\<exists>bs r. order_all (map (Pair (Some \<lparr>MaxMessageCount = 2, PreferredMaxBytes = 3\<rparr>))
       [\<lparr>env_Payload = [1], env_Signature = [2]\<rparr>, \<lparr>env_Payload = [3], env_Signature = [4]\<rparr>,
        \<lparr>env_Payload = [5], env_Signature = [6, 7, 8]\<rparr>, \<lparr>env_Payload = [], env_Signature = [9]\<rparr>]) NewReceiverImpl = (Ok bs, r) \<and>
     concat bs @ pendingBatch r = [\<lparr>env_Payload = [1], env_Signature = [2]\<rparr>, \<lparr>env_Payload = [3], env_Signature = [4]\<rparr>,
        \<lparr>env_Payload = [5], env_Signature = [6, 7, 8]\<rparr>, \<lparr>env_Payload = [], env_Signature = [9]\<rparr>]"
proof -
  let ?c = "\<lparr>MaxMessageCount = 2, PreferredMaxBytes = 3\<rparr>"
  let ?ms = "[\<lparr>env_Payload = [1], env_Signature = [2]\<rparr>, \<lparr>env_Payload = [3], env_Signature = [4]\<rparr>,
        \<lparr>env_Payload = [5], env_Signature = [6, 7, 8]\<rparr>, \<lparr>env_Payload = [], env_Signature = [9]\<rparr>]"
  have "\<forall>m \<in> set ?ms. envelope_bytes m < 2 ^ 32" by (simp add: envelope_bytes_def)
  then show ?thesis using batches_partition_messages [of ?c ?ms] by auto
qed

end
