(* ===== verification/BlockCreator.thy ===== *)
theory BlockCreator
  imports ChainStore BlockCutter
begin

text \<open>
  The orderer's side of a chain: \<open>createNextBlock\<close> of
  \<open>orderer/consensus/etcdraft/blockcreator.go\<close>, which turns a batch into the next block and carries
  out the certificate requests of the fork on the orderer's files, and \<open>ordered\<close> and \<open>propose\<close> of
  \<open>chain.go\<close>, which feed it from the block cutter.  As for the peer, the certificate, offset, pair and
  message files can be opened and written; the block file may fail.
\<close>

section \<open>Block creator\<close>

record blockCreator =
  bc_hash :: bytes
  bc_number :: uint64

record orderer =
  ord_bc :: blockCreator
  ord_os :: os

definition on_disk :: "(os, 'a) io \<Rightarrow> (orderer, 'a) io" where
  "on_disk m = io_zoom ord_os (\<lambda>fs s. s\<lparr>ord_os := fs\<rparr>) m"

definition orderer_rootDir :: string where
  "orderer_rootDir = ''/var/hyperledger/production/orderer/chains/mychannel''"

definition orderer_blockfile :: string where
  "orderer_blockfile = ''/var/hyperledger/production/orderer/chains/mychannel/blockfile_000000''"

definition etcdraft_pathExists :: "string \<Rightarrow> os \<Rightarrow> bool" where
  "etcdraft_pathExists path fs = os_exists fs path"

definition etcdraft_getBlock :: "codec \<Rightarrow> string \<Rightarrow> os \<Rightarrow> Block result" where
  "etcdraft_getBlock C offset fs =
     (let offsetint = fst (Atoi offset) in
      case ScanForLastCompleteBlock orderer_rootDir 0 offsetint fs of
        Panic p \<Rightarrow> Panic p
      | Err e \<Rightarrow> Err e
      | Ok (blockBytes, _) \<Rightarrow>
          panic_on_err ''error Deserialize the new block''
            (DeserializeBlock C (case blockBytes of None \<Rightarrow> [] | Some x \<Rightarrow> x)))"

text \<open>The line of the certificate file; the file is created before the argument is looked at.\<close>

definition record_cert :: "string list \<Rightarrow> uint64 \<Rightarrow> (os, unit) io" where
  "record_cert certkey num =
     io_bind (io_modify (os_create certinfo_path)) (\<lambda>_.
     io_bind (io_lift (nth_arg certkey 1)) (\<lambda>cert.
     append_text certinfo_path (cert @ plusplus @ FormatUint num @ to_string crlf)))"

definition err_line :: "string \<Rightarrow> (os, unit) io" where
  "err_line s = append_text ''/var/err.txt'' (s @ to_string crlf)"

definition error_text :: "string \<Rightarrow> (os, unit) io" where
  "error_text s = append_text ''/opt/gopath/error.txt'' s"

text \<open>Unlike the peer, the orderer writes the new pair without line ends.\<close>

definition write_pair_joined :: "uint64 \<Rightarrow> bytes \<Rightarrow> bytes \<Rightarrow> os \<Rightarrow> os" where
  "write_pair_joined num r2 s2 fs =
     (let path = blockfile_path num; c = os_content fs path
      in os_write path (overlay (overlay c 0 r2) (length r2) s2) fs)"

text \<open>
  The branch for \<open>ChangeCert\<close>; \<open>k\<close> is the random number drawn for the collision.
  \<open>PutArgsInBlock\<close> works in place, so both arguments of \<open>GetCollision\<close> are the new data.
\<close>

definition orderer_redact :: "codec \<Rightarrow> int option \<Rightarrow> string list \<Rightarrow> (os, unit) io" where
  "orderer_redact C k args =
     io_bind (io_lift (nth_arg args 1)) (\<lambda>cert.
     io_bind (\<lambda>fs. (ignore_err '''' (etcdraft_GetBlockNumberFromFile cert fs), fs)) (\<lambda>blocknumstr.
     io_bind (\<lambda>fs. (ignore_err '''' (etcdraft_GetBlockOffsetFromFile blocknumstr fs), fs)) (\<lambda>offsetstr.
     io_bind (\<lambda>fs. (etcdraft_getBlock C offsetstr fs, fs)) (\<lambda>oldBlock.
     io_bind (io_lift (nth_arg args 2)) (\<lambda>certkey1.
     io_bind (io_lift (ignore_err [] (etcdraft_GetArgsFromBlock C oldBlock))) (\<lambda>oldargs.
     io_bind (io_lift (nth_arg oldargs 11)) (\<lambda>_.
     io_bind (io_lift (panic_on_err ''error put the args in the old block''
       (etcdraft_PutArgsInBlock C (oldargs[11 := certkey1]) oldBlock))) (\<lambda>newblock.
     io_bind (err_line ''111111'') (\<lambda>_.
     io_bind (io_lift (panic_on_err ''error serialize the new block'' (SerializeBlock C newblock))) (\<lambda>(newblockBytes, _).
     io_bind (io_panic_on_err ''can not open the file which likes blockfile_000000'' (newBlockfileWriter orderer_blockfile)) (\<lambda>f.
     io_bind (io_panic_on_err ''panic(err)'' (writer_writeat f newblockBytes (fst (Atoi offsetstr)) False)) (\<lambda>_.
     io_bind (err_line ''222222'') (\<lambda>_.
     io_bind (io_lift (etcdraft_GetCollision (BData newblock) (BData newblock) k)) (\<lambda>(r2, s2).
     io_bind (io_modify (write_pair_joined (Number (BHeader newblock)) r2 s2)) (\<lambda>_.
     err_line ''333333'')))))))))))))))"

text \<open>What follows the creation of a block: the error of \<open>ValidateAnalysis\<close> is ignored both times.\<close>

definition certificate_request :: "codec \<Rightarrow> int option \<Rightarrow> Block \<Rightarrow> (os, unit) io" where
  "certificate_request C k block =
     io_bind (io_lift (ignore_err [] (etcdraft_ValidateAnalysis C block))) (\<lambda>certkey.
     io_bind (if certkey \<noteq> [] \<and> certkey ! 0 = ''CreatCert'' then record_cert certkey (Number (BHeader block))
              else io_return ()) (\<lambda>_.
     io_bind (err_line ''000000'') (\<lambda>_.
     io_bind (io_get (etcdraft_pathExists orderer_blockfile)) (\<lambda>pathexit.
     if pathexit then
       io_bind (io_lift (ignore_err [] (etcdraft_ValidateAnalysis C block))) (\<lambda>args.
       if length args \<noteq> 0 then
         if args ! 0 = ''ChangeCert'' then orderer_redact C k args
         else error_text ''if args[0]==ChangeCert{''
       else error_text ''if len(args)!=0{'')
     else error_text ''if pathexit{''))))"

definition createNextBlock :: "codec \<Rightarrow> int option \<Rightarrow> Envelope list \<Rightarrow> (orderer, Block) io" where
  "createNextBlock C k envs =
     (let data = map (marshal_Envelope C) envs in
      io_bind (io_modify (\<lambda>s. s\<lparr>ord_bc := (ord_bc s)\<lparr>bc_number := bc_number (ord_bc s) + 1\<rparr>\<rparr>)) (\<lambda>_.
      io_bind (io_get (\<lambda>s. NewBlock (bc_number (ord_bc s)) (bc_hash (ord_bc s)))) (\<lambda>block0.
      io_bind (on_disk (BlockDataHash data (Number (BHeader block0)))) (\<lambda>h.
      let block = block0\<lparr>BHeader := (BHeader block0)\<lparr>DataHash := h\<rparr>, BData := data\<rparr> in
      io_bind (io_modify (\<lambda>s. s\<lparr>ord_bc := (ord_bc s)\<lparr>bc_hash := BlockHeaderHash (BHeader block)\<rparr>\<rparr>)) (\<lambda>_.
      io_bind (on_disk (certificate_request C k block)) (\<lambda>_.
      io_return block))))))"

section \<open>The leader of the chain\<close>

text \<open>Header types of \<open>common.proto\<close> that mark a configuration message.\<close>

definition HeaderType_CONFIG :: int where "HeaderType_CONFIG = 1"
definition HeaderType_ORDERER_TRANSACTION :: int where "HeaderType_ORDERER_TRANSACTION = 4"

definition ExtractEnvelope :: "codec \<Rightarrow> Block \<Rightarrow> int \<Rightarrow> Envelope result" where
  "ExtractEnvelope C block index =
     (let envelopeCount = int (length (BData block)) in
      if index < 0 \<or> index \<ge> envelopeCount then Err (ErrMsg ''envelope index out of bounds'')
      else rwrap ''block data does not carry an envelope at index %d'' (GetEnvelopeFromBlock C (BData block ! nat index)))"

definition IsConfigBlock :: "codec \<Rightarrow> Block \<Rightarrow> bool result" where
  "IsConfigBlock C block =
     ignore_err False
       (rbind (ExtractEnvelope C block 0) (\<lambda>envelope.
        rbind (UnmarshalPayload C (env_Payload envelope)) (\<lambda>payload.
        case pl_Header payload of
          None \<Rightarrow> Ok False
        | Some header \<Rightarrow>
            rbind (UnmarshalChannelHeader C (hdr_ChannelHeader header)) (\<lambda>hdr.
            Ok (ch_Type hdr = HeaderType_CONFIG \<or> ch_Type hdr = HeaderType_ORDERER_TRANSACTION)))))"

text \<open>A channel header that is not set is the empty slice.\<close>

definition ChannelHeader_of :: "codec \<Rightarrow> Envelope \<Rightarrow> ChannelHeader result" where
  "ChannelHeader_of C env =
     rbind (UnmarshalPayload C (env_Payload env)) (\<lambda>envPayload.
     case pl_Header envPayload of
       None \<Rightarrow> Err (ErrMsg ''header not set'')
     | Some header \<Rightarrow>
         if hdr_ChannelHeader header = [] then Err (ErrMsg ''channel header not set'')
         else rwrap ''error unmarshaling channel header'' (UnmarshalChannelHeader C (hdr_ChannelHeader header)))"

definition isConfig :: "codec \<Rightarrow> Envelope \<Rightarrow> bool result" where
  "isConfig C env =
     rbind (panic_on_err ''failed to extract channel header from envelope'' (ChannelHeader_of C env)) (\<lambda>h.
     Ok (ch_Type h = HeaderType_CONFIG \<or> ch_Type h = HeaderType_ORDERER_TRANSACTION))"

text \<open>What the leader asks of its channel: the configuration and the two message processors.\<close>

record support =
  Sequence :: uint64
  ProcessConfigMsg :: "Envelope \<Rightarrow> Envelope result"
  ProcessNormalMsg :: "Envelope \<Rightarrow> unit result"
  SharedConfig :: "BatchSize option"
  MaxInflightBlocks :: int

record SubmitRequest =
  LastValidationSeq :: uint64
  sr_Payload :: Envelope

definition ordered :: "codec \<Rightarrow> support \<Rightarrow> SubmitRequest \<Rightarrow> (receiver, Envelope list list \<times> bool) io" where
  "ordered C sp msg =
     io_bind (io_lift (isConfig C (sr_Payload msg))) (\<lambda>config.
     if config then
       io_bind (if LastValidationSeq msg < Sequence sp
                then io_lift (rwrap ''bad config message: %s'' (ProcessConfigMsg sp (sr_Payload msg)))
                else io_return (sr_Payload msg)) (\<lambda>payload.
       io_bind Cut (\<lambda>batch.
       io_return ((if length batch \<noteq> 0 then [batch] else []) @ [[payload]], False)))
     else
       io_bind (if LastValidationSeq msg < Sequence sp
                then io_lift (rwrap ''bad normal message: %s'' (ProcessNormalMsg sp (sr_Payload msg)))
                else io_return ()) (\<lambda>_.
       Ordered (SharedConfig sp) (sr_Payload msg)))"

text \<open>
  The variables of \<open>run\<close> while the node leads.  \<open>propC\<close> is the buffered channel of created blocks,
  \<open>accepting\<close> says whether \<open>submitC\<close> is not nil, \<open>proposed\<close> lists what was received from \<open>propC\<close>.
\<close>

record leader =
  cutter :: receiver
  creator :: orderer
  configInflight :: bool
  blockInflight :: int
  propC :: "Block list"
  accepting :: bool
  ticking :: bool
  proposed :: "Block list"

definition send_block :: "support \<Rightarrow> Block \<Rightarrow> (leader, unit) io" where
  "send_block sp b s =
     (if int (length (propC s)) < MaxInflightBlocks sp then (Ok (), s\<lparr>propC := propC s @ [b]\<rparr>)
      else (Panic ''Programming error: limit of in-flight blocks does not properly take effect or block is proposed by follower'', s))"

text \<open>\<open>ks\<close> are the random numbers of the redactions that the blocks may ask for.\<close>

fun propose :: "codec \<Rightarrow> support \<Rightarrow> (nat \<Rightarrow> int option) \<Rightarrow> Envelope list list \<Rightarrow> (leader, unit) io" where
  "propose C sp ks [] = io_return ()"
| "propose C sp ks (batch # batches) =
     io_bind (io_zoom creator (\<lambda>o' s. s\<lparr>creator := o'\<rparr>) (createNextBlock C (ks 0) batch)) (\<lambda>b.
     io_bind (send_block sp b) (\<lambda>_.
     io_bind (io_lift (IsConfigBlock C b)) (\<lambda>config.
     io_bind (io_modify (\<lambda>s. if config then s\<lparr>configInflight := True\<rparr> else s)) (\<lambda>_.
     io_bind (io_modify (\<lambda>s. s\<lparr>blockInflight := blockInflight s + 1\<rparr>)) (\<lambda>_.
     propose C sp (\<lambda>i. ks (Suc i)) batches)))))"

text \<open>The branches of \<open>run\<close> for a request and for the batch timer.\<close>

definition on_submit :: "codec \<Rightarrow> support \<Rightarrow> (nat \<Rightarrow> int option) \<Rightarrow> SubmitRequest \<Rightarrow> (leader, unit) io" where
  "on_submit C sp ks req =
     io_bind (io_zoom cutter (\<lambda>r s. s\<lparr>cutter := r\<rparr>) (ordered C sp req)) (\<lambda>(batches, pending).
     io_bind (io_modify (\<lambda>s. s\<lparr>ticking := pending\<rparr>)) (\<lambda>_.
     io_bind (propose C sp ks batches) (\<lambda>_.
     io_modify (\<lambda>s. if configInflight s \<or> blockInflight s \<ge> MaxInflightBlocks sp then s\<lparr>accepting := False\<rparr> else s))))"

definition on_timer :: "codec \<Rightarrow> support \<Rightarrow> (nat \<Rightarrow> int option) \<Rightarrow> (leader, unit) io" where
  "on_timer C sp ks =
     io_bind (io_modify (\<lambda>s. s\<lparr>ticking := False\<rparr>)) (\<lambda>_.
     io_bind (io_zoom cutter (\<lambda>r s. s\<lparr>cutter := r\<rparr>) Cut) (\<lambda>batch.
     if length batch = 0 then io_return () else propose C sp ks [batch]))"

section \<open>Effect of a block's creation\<close>

lemma io_zoom_Ok_iff: "io_zoom get put m s = (Ok a, s') \<longleftrightarrow> (\<exists>t. m (get s) = (Ok a, t) \<and> s' = put t s)"
  by (auto simp: io_zoom_def split: prod.splits)

text \<open>Whatever the block asks for, a creation that returns gives the next block of the chain.\<close>

lemma createNextBlock_next:
  assumes "createNextBlock C k envs s = (Ok b, s')"
  shows "Number (BHeader b) = bc_number (ord_bc s) + 1" "PreviousHash (BHeader b) = bc_hash (ord_bc s)"
    "BData b = map (marshal_Envelope C) envs" "bc_number (ord_bc s') = bc_number (ord_bc s) + 1"
    "bc_hash (ord_bc s') = BlockHeaderHash (BHeader b)"
  using assms
  by (auto simp: createNextBlock_def on_disk_def io_bind_Ok_iff io_zoom_Ok_iff Let_def NewBlock_def)

text \<open>Pair files that \<open>BlockDataHash\<close> can read.\<close>

definition pair_ready :: "os \<Rightarrow> uint64 \<Rightarrow> bool" where
  "pair_ready fs num \<longleftrightarrow> (os_exists fs (blockfile_path num) \<longrightarrow>
     (\<exists>c. os_read fs (blockfile_path num) = Some c \<and> 2 \<le> length (read_lines c)))"

definition pairs_kept :: "os \<Rightarrow> os \<Rightarrow> bool" where
  "pairs_kept fs fs' \<longleftrightarrow> dirs fs' = dirs fs \<and>
     (\<forall>num. os_read fs (blockfile_path num) \<noteq> None \<longrightarrow> os_read fs' (blockfile_path num) = os_read fs (blockfile_path num))"

text \<open>The block's data hash is what \<open>BlockDataHash\<close> computes from the pair on disk.\<close>

definition data_hash_checks :: "os \<Rightarrow> Block \<Rightarrow> bool" where
  "data_hash_checks fs b \<longleftrightarrow> BlockDataHash (BData b) (Number (BHeader b)) fs = (Ok (DataHash (BHeader b)), fs)"

lemma deployed_hash_total: "\<exists>h. deployed_hash msg r s = Ok h"
  using params_positive by (simp add: chameleonHash_def Let_def big_Mod_def)

lemma pairs_kept_trans: "pairs_kept fs fs' \<Longrightarrow> pairs_kept fs' fs'' \<Longrightarrow> pairs_kept fs fs''"
  by (simp add: pairs_kept_def)

lemma pairs_kept_refl [simp]: "pairs_kept fs fs"
  by (simp add: pairs_kept_def)

lemma pairs_kept_append: "(\<And>num. p \<noteq> blockfile_path num) \<Longrightarrow> pairs_kept fs (os_append p b fs)"
  by (simp add: pairs_kept_def os_append_def os_read_write)

lemma BlockDataHash_ready:
  assumes "\<forall>n. pair_ready fs n"
  shows "\<exists>h fs'. BlockDataHash data num fs = (Ok h, fs') \<and> BlockDataHash data num fs' = (Ok h, fs') \<and>
    (\<forall>n. pair_ready fs' n) \<and> pairs_kept fs fs' \<and> os_read fs' (blockfile_path num) \<noteq> None"
proof (cases "os_exists fs (blockfile_path num)")
  case True
  then obtain c where c: "os_read fs (blockfile_path num) = Some c" "2 \<le> length (read_lines c)"
    using assms by (auto simp: pair_ready_def)
  obtain h where "deployed_hash (concat data) (to_bytes (read_lines c ! 0)) (to_bytes (read_lines c ! 1)) = Ok h"
    using deployed_hash_total by blast
  then show ?thesis using True c assms by (simp add: BlockDataHash_def PathExists_def)
next
  case False
  let ?fs = "os_write (blockfile_path num) (pair_file default_r default_s) (os_write (blockfile_path num) (default_r @ crlf) fs)"
  obtain h where h: "deployed_hash (concat data) default_r default_s = Ok h" using deployed_hash_total by blast
  have 1: "BlockDataHash data num fs = (Ok h, ?fs)" using BlockDataHash_fresh [OF False, of data] h by simp
  have 2: "BlockDataHash data num ?fs = (Ok h, ?fs)"
    using BlockDataHash_pair [of ?fs num default_r default_s data] h by (simp add: os_read_write line_ok_default)
  have "os_read fs (blockfile_path num) = None" using False by (simp add: os_exists_def)
  then have 3: "pairs_kept fs ?fs" by (simp add: pairs_kept_def os_read_write blockfile_path_def)
  have "\<forall>n. pair_ready ?fs n" using assms line_ok_default
    by (auto simp: pair_ready_def os_exists_def os_read_write read_lines_pair_file)
  then show ?thesis using 1 2 3 by (intro exI [of _ h] exI [of _ ?fs]) (simp add: os_read_write)
qed

lemma pairs_kept_ready:
  assumes "pairs_kept fs fs'" "\<forall>n. os_exists fs' (blockfile_path n) \<longrightarrow> os_exists fs (blockfile_path n)" "\<forall>n. pair_ready fs n"
  shows "\<forall>n. pair_ready fs' n"
  using assms by (metis not_None_eq pair_ready_def pairs_kept_def)

lemma data_hash_kept:
  assumes "data_hash_checks fs b" "os_read fs (blockfile_path (Number (BHeader b))) \<noteq> None" "pairs_kept fs fs'"
  shows "data_hash_checks fs' b"
proof -
  let ?p = "blockfile_path (Number (BHeader b))"
  obtain c where c: "os_read fs ?p = Some c" "os_read fs' ?p = Some c" using assms by (auto simp: pairs_kept_def)
  then show ?thesis using assms(1)
    by (auto simp: data_hash_checks_def BlockDataHash_def PathExists_def os_exists_def Let_def split: if_splits)
qed


subsection \<open>Ordinary messages\<close>

text \<open>What the message of an envelope asks of the orderer, and the messages that are no redaction.\<close>

definition message_args :: "codec \<Rightarrow> Envelope \<Rightarrow> string list result" where
  "message_args C m = ignore_err [] (etcdraft_ValidateAnalysis C ((NewBlock 0 [])\<lparr>BData := [marshal_Envelope C m]\<rparr>))"

definition ordinary :: "codec \<Rightarrow> Envelope \<Rightarrow> bool" where
  "ordinary C m = (case message_args C m of
     Ok a \<Rightarrow> a = [] \<or> a ! 0 \<noteq> ''ChangeCert'' \<and> (a ! 0 = ''CreatCert'' \<longrightarrow> 1 < length a)
   | _ \<Rightarrow> False)"

lemma ValidateAnalysis_message:
  "BData b = map (marshal_Envelope C) (m # ms) \<Longrightarrow> ignore_err [] (etcdraft_ValidateAnalysis C b) = message_args C m"
  by (simp add: message_args_def etcdraft_ValidateAnalysis_def first_elem_def)

definition pairs_same :: "os \<Rightarrow> os \<Rightarrow> bool" where
  "pairs_same fs fs' \<longleftrightarrow> dirs fs' = dirs fs \<and> (\<forall>num. os_read fs' (blockfile_path num) = os_read fs (blockfile_path num))"

lemma pairs_same_imp: "pairs_same fs fs' \<Longrightarrow> pairs_kept fs fs'" "pairs_same fs fs' \<Longrightarrow> pair_ready fs' n = pair_ready fs n"
  by (simp_all add: pairs_same_def pairs_kept_def pair_ready_def os_exists_def)

lemma pairs_same_trans: "pairs_same fs fs' \<Longrightarrow> pairs_same fs' fs'' \<Longrightarrow> pairs_same fs fs''"
  by (simp add: pairs_same_def)

lemma paths_other [simp]: "blockfile_path n \<noteq> certinfo_path" "blockfile_path n \<noteq> ''/var/err.txt''" "blockfile_path n \<noteq> ''/opt/gopath/error.txt''"
  by (simp_all add: blockfile_path_def certinfo_path_def)

lemmas paths_other_sym [simp] = paths_other [symmetric]

lemma dirs_os_append [simp]: "dirs (os_append p b fs) = dirs fs"
  by (simp add: os_append_def)

lemma text_steps:
  "\<exists>fs'. err_line t fs = (Ok (), fs') \<and> pairs_same fs fs'"
  "\<exists>fs'. error_text t fs = (Ok (), fs') \<and> pairs_same fs fs'"
  "1 < length a \<Longrightarrow> \<exists>fs'. record_cert a n fs = (Ok (), fs') \<and> pairs_same fs fs'"
  by (simp_all add: err_line_def error_text_def record_cert_def append_text_def pairs_same_def nth_arg_def os_create_def
      os_read_write split: option.split)

lemma certificate_request_ordinary:
  assumes "ordinary C m" "BData b = map (marshal_Envelope C) (m # ms)"
  shows "\<exists>fs'. certificate_request C k b fs = (Ok (), fs') \<and> pairs_same fs fs'"
proof -
  obtain a where a: "message_args C m = Ok a" "a = [] \<or> a ! 0 \<noteq> ''ChangeCert'' \<and> (a ! 0 = ''CreatCert'' \<longrightarrow> 1 < length a)"
    using assms(1) by (auto simp: ordinary_def split: result.splits)
  let ?cert = "if a \<noteq> [] \<and> a ! 0 = ''CreatCert'' then record_cert a (Number (BHeader b)) else io_return ()"
  obtain fs1 where 1: "?cert fs = (Ok (), fs1)" "pairs_same fs fs1"
    using text_steps(3) [of a "Number (BHeader b)" fs] a(2) by (cases "a \<noteq> [] \<and> a ! 0 = ''CreatCert''") (auto simp: pairs_same_def)
  obtain fs2 where 2: "err_line ''000000'' fs1 = (Ok (), fs2)" "pairs_same fs1 fs2" using text_steps(1) by blast
  have run: "certificate_request C k b fs =
      (if etcdraft_pathExists orderer_blockfile fs2 then error_text (if a \<noteq> [] then ''if args[0]==ChangeCert{'' else ''if len(args)!=0{'') fs2
       else error_text ''if pathexit{'' fs2)"
    using 1(1) 2(1) a by (auto simp: certificate_request_def ValidateAnalysis_message [OF assms(2)])
  then obtain t where t: "certificate_request C k b fs = error_text t fs2" by metis
  obtain fs3 where "error_text t fs2 = (Ok (), fs3)" "pairs_same fs2 fs3" using text_steps(2) by blast
  then show ?thesis using t 1(2) 2(2) pairs_same_trans by metis
qed

lemma createNextBlock_ordinary:
  assumes "ordinary C m" "\<forall>n. pair_ready (ord_os s) n"
  shows "\<exists>b s'. createNextBlock C k (m # ms) s = (Ok b, s') \<and> (\<forall>n. pair_ready (ord_os s') n) \<and>
    pairs_kept (ord_os s) (ord_os s') \<and> data_hash_checks (ord_os s') b \<and> os_read (ord_os s') (blockfile_path (Number (BHeader b))) \<noteq> None"
proof -
  let ?d = "map (marshal_Envelope C) (m # ms)" and ?n = "bc_number (ord_bc s) + 1"
  obtain h fs1 where 1: "BlockDataHash ?d ?n (ord_os s) = (Ok h, fs1)" "BlockDataHash ?d ?n fs1 = (Ok h, fs1)"
    "\<forall>n. pair_ready fs1 n" "pairs_kept (ord_os s) fs1" "os_read fs1 (blockfile_path ?n) \<noteq> None"
    using BlockDataHash_ready [OF assms(2)] by blast
  let ?b = "(NewBlock ?n (bc_hash (ord_bc s)))\<lparr>BHeader := \<lparr>Number = ?n, PreviousHash = bc_hash (ord_bc s), DataHash = h\<rparr>, BData := ?d\<rparr>"
  obtain fs2 where 2: "certificate_request C k ?b fs1 = (Ok (), fs2)" "pairs_same fs1 fs2"
    using certificate_request_ordinary [OF assms(1), of ?b ms] by auto
  have "data_hash_checks fs1 ?b" using 1(2) by (simp add: data_hash_checks_def)
  then have "data_hash_checks fs2 ?b" using 1(5) pairs_same_imp(1) [OF 2(2)] by (rule_tac data_hash_kept) simp_all
  moreover have "createNextBlock C k (m # ms) s =
      (Ok ?b, \<lparr>ord_bc = \<lparr>bc_hash = BlockHeaderHash (BHeader ?b), bc_number = ?n\<rparr>, ord_os = fs2\<rparr>)"
    using 1(1) 2(1) by (simp add: createNextBlock_def on_disk_def io_zoom_def NewBlock_def Let_def)
  moreover have "pairs_kept (ord_os s) fs2" using pairs_kept_trans [OF 1(4) pairs_same_imp(1) [OF 2(2)]] .
  moreover have "os_read fs2 (blockfile_path ?n) \<noteq> None" using 1(5) 2(2) by (simp add: pairs_same_def)
  moreover have "\<forall>n. pair_ready fs2 n" using 1(3) pairs_same_imp(2) [OF 2(2)] by simp
  ultimately show ?thesis by (intro exI conjI) (assumption | simp)+
qed


section \<open>Chains of created blocks\<close>

text \<open>Blocks that a creator in the first state makes on its way to the second.\<close>

definition extends :: "blockCreator \<Rightarrow> Block list \<Rightarrow> blockCreator \<Rightarrow> bool" where
  "extends bc bs bc' \<longleftrightarrow> linked (bc_hash bc) bs \<and>
     (\<forall>j < length bs. Number (BHeader (bs ! j)) = bc_number bc + 1 + word_of_nat j) \<and>
     bc' = \<lparr>bc_hash = prev_hash (bc_hash bc) bs, bc_number = bc_number bc + word_of_nat (length bs)\<rparr>"

lemma prev_hash_Nil [simp]: "prev_hash h [] = h"
  by (simp add: prev_hash_def)

lemma prev_hash_append: "prev_hash h (bs @ cs) = prev_hash (prev_hash h bs) cs"
  by (simp add: prev_hash_def)

lemma linked_append: "linked h (bs @ cs) \<longleftrightarrow> linked h bs \<and> linked (prev_hash h bs) cs"
proof -
  have "(\<forall>j < length bs + length cs. P j) \<longleftrightarrow> (\<forall>j < length bs. P j) \<and> (\<forall>j < length cs. P (length bs + j))" for P
    by (auto dest: less_imp_add_positive) (metis add_less_cancel_left le_Suc_ex not_less)
  then show ?thesis by (simp add: linked_def nth_append prev_hash_append)
qed

lemma extends_Nil [simp]: "extends bc [] bc' \<longleftrightarrow> bc' = bc"
  by (auto simp: extends_def linked_def prev_hash_def)

lemma extends_append:
  assumes "extends bc bs bc'" "extends bc' cs bc''"
  shows "extends bc (bs @ cs) bc''"
  using assms by (auto simp: extends_def linked_append prev_hash_append nth_append)

lemma createNextBlock_extends:
  assumes "createNextBlock C k envs s = (Ok b, s')"
  shows "extends (ord_bc s) [b] (ord_bc s')"
  using createNextBlock_next [OF assms] by (simp add: extends_def linked_def prev_hash_def)

definition sent :: "codec \<Rightarrow> leader \<Rightarrow> Envelope list list \<Rightarrow> Block list \<Rightarrow> leader \<Rightarrow> bool" where
  "sent C s batches bs s' \<longleftrightarrow> propC s' = propC s @ bs \<and> map BData bs = map (map (marshal_Envelope C)) batches \<and>
     cutter s' = cutter s \<and> proposed s' = proposed s \<and> blockInflight s' = blockInflight s + int (length bs) \<and>
     extends (ord_bc (creator s)) bs (ord_bc (creator s'))"


lemma propose_Cons_Ok:
  assumes "propose C sp ks (batch # batches) s = (Ok u, s')"
  obtains b s1 where "createNextBlock C (ks 0) batch (creator s) = (Ok b, creator s1)" "propC s1 = propC s @ [b]" "cutter s1 = cutter s"
    "proposed s1 = proposed s" "blockInflight s1 = blockInflight s + 1" "ticking s1 = ticking s"
    "propose C sp (\<lambda>i. ks (Suc i)) batches s1 = (Ok u, s')"
proof -
  obtain b t config where b: "createNextBlock C (ks 0) batch (creator s) = (Ok b, t)"
    and rest: "propose C sp (\<lambda>i. ks (Suc i)) batches
      ((if config then s\<lparr>creator := t, propC := propC s @ [b], configInflight := True\<rparr> else s\<lparr>creator := t, propC := propC s @ [b]\<rparr>)
         \<lparr>blockInflight := blockInflight s + 1\<rparr>) = (Ok u, s')"
    using assms by (fastforce simp: io_bind_Ok_iff io_zoom_Ok_iff send_block_def split: if_splits)
  show ?thesis by (rule that [OF _ _ _ _ _ _ rest]) (simp_all add: b)
qed

lemma propose_sent:
  assumes "propose C sp ks batches s = (Ok u, s')"
  shows "\<exists>bs. sent C s batches bs s' \<and> ticking s' = ticking s"
  using assms
proof (induction batches arbitrary: ks s)
  case (Cons batch batches)
  obtain b s1 where b: "createNextBlock C (ks 0) batch (creator s) = (Ok b, creator s1)" "propC s1 = propC s @ [b]" "cutter s1 = cutter s"
    "proposed s1 = proposed s" "blockInflight s1 = blockInflight s + 1" "ticking s1 = ticking s"
    "propose C sp (\<lambda>i. ks (Suc i)) batches s1 = (Ok u, s')" using propose_Cons_Ok [OF Cons.prems] .
  obtain bs where bs: "sent C s1 batches bs s'" "ticking s' = ticking s1" using Cons.IH [OF b(7)] by auto
  have "extends (ord_bc (creator s)) (b # bs) (ord_bc (creator s'))"
    using extends_append [OF createNextBlock_extends [OF b(1)], of bs] bs(1) by (simp add: sent_def)
  then have "sent C s (batch # batches) (b # bs) s'"
    using bs(1) createNextBlock_next(3) [OF b(1)] b by (simp add: sent_def)
  then show ?case using bs(2) b(6) by auto
qed (auto simp: sent_def)


section \<open>Runs of the leader\<close>

text \<open>The message that a request adds: a configuration message may have been replaced.\<close>

definition admitted :: "codec \<Rightarrow> support \<Rightarrow> SubmitRequest \<Rightarrow> Envelope" where
  "admitted C sp req =
     (case (isConfig C (sr_Payload req), ProcessConfigMsg sp (sr_Payload req)) of
        (Ok True, Ok p) \<Rightarrow> if LastValidationSeq req < Sequence sp then p else sr_Payload req
      | _ \<Rightarrow> sr_Payload req)"

lemma Ordered_partition:
  assumes "Ordered c m r = (Ok (bs, p), r')"
  shows "concat bs @ pendingBatch r' = pendingBatch r @ [m]"
  using assms by (auto simp: Ordered_def enqueue_def split: option.splits if_splits)

lemma ordered_partition:
  assumes "ordered C sp req r = (Ok (bs, p), r')"
  shows "concat bs @ pendingBatch r' = pendingBatch r @ [admitted C sp req]"
proof (cases "isConfig C (sr_Payload req) = Ok True")
  case True
  then show ?thesis using assms
    by (auto simp: ordered_def admitted_def io_bind_Ok_iff rwrap_def split: if_splits result.splits)
next
  case False
  then obtain "isConfig C (sr_Payload req) = Ok False" using assms
    by (cases "isConfig C (sr_Payload req)") (auto simp: ordered_def)
  then have "admitted C sp req = sr_Payload req" "Ordered (SharedConfig sp) (sr_Payload req) r = (Ok (bs, p), r')"
    using assms by (auto simp: ordered_def admitted_def io_bind_Ok_iff split: if_splits)
  then show ?thesis using Ordered_partition by simp
qed

lemma ordered_Err:
  assumes "ordered C sp req r = (Err e, r')"
  shows "r' = r"
proof -
  have no: "Ordered c m r \<noteq> (Err e, r')" for c m by (auto simp: Ordered_def enqueue_def split: option.splits if_splits)
  show ?thesis using assms no
    by (auto simp: ordered_def io_bind_def split: result.splits if_splits prod.splits)
qed

text \<open>
  What the leader does, with the messages admitted so far: it serves requests, with whatever
  configuration is in force, turns some away, cuts a batch when the timer expires, and hands blocks
  over to raft.
\<close>

inductive leads :: "codec \<Rightarrow> leader \<Rightarrow> Envelope list \<Rightarrow> leader \<Rightarrow> bool" for C s0 where
  start: "leads C s0 [] s0"
| request: "leads C s0 ms s \<Longrightarrow> accepting s \<Longrightarrow> on_submit C sp ks req s = (Ok (), s') \<Longrightarrow>
    leads C s0 (ms @ [admitted C sp req]) s'"
| refusal: "leads C s0 ms s \<Longrightarrow> accepting s \<Longrightarrow> ordered C sp req (cutter s) = (Err e, r) \<Longrightarrow>
    on_submit C sp ks req s = (Err e, s') \<Longrightarrow> leads C s0 ms s'"
| timeout: "leads C s0 ms s \<Longrightarrow> ticking s \<Longrightarrow> on_timer C sp ks s = (Ok (), s') \<Longrightarrow> leads C s0 ms s'"
| handover: "leads C s0 ms s \<Longrightarrow> propC s = b # q \<Longrightarrow> leads C s0 ms (s\<lparr>propC := q, proposed := proposed s @ [b]\<rparr>)"

definition leader_inv :: "codec \<Rightarrow> leader \<Rightarrow> Envelope list \<Rightarrow> leader \<Rightarrow> bool" where
  "leader_inv C s0 ms s \<longleftrightarrow> (let bs = proposed s @ propC s in
     extends (ord_bc (creator s0)) bs (ord_bc (creator s)) \<and>
     concat (map BData bs) @ map (marshal_Envelope C) (pendingBatch (cutter s)) = map (marshal_Envelope C) ms \<and>
     blockInflight s = int (length bs))"

lemma leader_inv_sent:
  assumes "leader_inv C s0 ms s" "sent C s1 batches bs s2" "proposed s1 = proposed s" "propC s1 = propC s" "creator s1 = creator s"
    "blockInflight s1 = blockInflight s" "concat batches @ pendingBatch (cutter s1) = pendingBatch (cutter s) @ ms'"
  shows "leader_inv C s0 (ms @ ms') s2"
proof -
  have "extends (ord_bc (creator s0)) ((proposed s @ propC s) @ bs) (ord_bc (creator s2))"
    using assms(1,2,5) by (rule_tac extends_append [of _ _ "ord_bc (creator s)"]) (simp_all add: leader_inv_def sent_def Let_def)
  moreover have "concat (map BData bs) @ map (marshal_Envelope C) (pendingBatch (cutter s1)) =
      map (marshal_Envelope C) (pendingBatch (cutter s) @ ms')"
    using assms(2,7) by (metis map_append map_concat sent_def)
  ultimately show ?thesis using assms by (auto simp: leader_inv_def sent_def Let_def)
qed


lemma on_submit_inv:
  assumes "leader_inv C s0 ms s" "on_submit C sp ks req s = (Ok (), s')"
  shows "leader_inv C s0 (ms @ [admitted C sp req]) s'"
proof -
  obtain batches p r s2 where 1: "ordered C sp req (cutter s) = (Ok (batches, p), r)"
    and 2: "propose C sp ks batches (s\<lparr>cutter := r, ticking := p\<rparr>) = (Ok (), s2)"
    and 3: "s' = (if configInflight s2 \<or> blockInflight s2 \<ge> MaxInflightBlocks sp then s2\<lparr>accepting := False\<rparr> else s2)"
    using assms(2) by (auto simp: on_submit_def io_bind_Ok_iff io_zoom_Ok_iff io_modify_def)
  obtain bs where "sent C (s\<lparr>cutter := r, ticking := p\<rparr>) batches bs s2" using propose_sent [OF 2] by blast
  from leader_inv_sent [OF assms(1) this] have "leader_inv C s0 (ms @ [admitted C sp req]) s2"
    using ordered_partition [OF 1] by simp
  then show ?thesis by (simp add: 3 leader_inv_def)
qed

lemma on_timer_inv:
  assumes "leader_inv C s0 ms s" "on_timer C sp ks s = (Ok (), s')"
  shows "leader_inv C s0 ms s'"
proof (cases "pendingBatch (cutter s) = []")
  case True
  then have "s' = s\<lparr>ticking := False, cutter := (cutter s)\<lparr>pendingBatch := [], pendingBatchSizeBytes := 0\<rparr>\<rparr>"
    using assms(2) by (simp add: on_timer_def io_zoom_def)
  then show ?thesis using assms(1) True by (simp add: leader_inv_def)
next
  case False
  let ?s = "s\<lparr>ticking := False, cutter := (cutter s)\<lparr>pendingBatch := [], pendingBatchSizeBytes := 0\<rparr>\<rparr>"
  have "propose C sp ks [pendingBatch (cutter s)] ?s = (Ok (), s')"
    using assms(2) False by (simp add: on_timer_def io_zoom_def del: propose.simps)
  from propose_sent [OF this] obtain bs where "sent C ?s [pendingBatch (cutter s)] bs s'" by blast
  then have "leader_inv C s0 (ms @ []) s'" by (rule leader_inv_sent [OF assms(1)]) simp_all
  then show ?thesis by simp
qed

lemma leads_inv:
  assumes "leads C s0 ms s" "leader_inv C s0 [] s0"
  shows "leader_inv C s0 ms s"
  using assms
proof (induction rule: leads.induct)
  case (request ms s sp ks req s')
  then show ?case using on_submit_inv by simp
next
  case (refusal ms s sp req e r ks s')
  then have "s' = s\<lparr>cutter := r\<rparr>" "r = cutter s" using ordered_Err by (auto simp: on_submit_def io_zoom_def)
  then show ?case using refusal by simp
next
  case (timeout ms s sp ks s')
  then show ?case using on_timer_inv by simp
qed (simp_all add: leader_inv_def)


section \<open>Requests are served\<close>

lemma IsConfigBlock_Ok: "\<exists>c. IsConfigBlock C b = Ok c"
  by (auto simp: IsConfigBlock_def ExtractEnvelope_def GetEnvelopeFromBlock_def UnmarshalPayload_def UnmarshalChannelHeader_def
      proto_Unmarshal_def rwrap_def Let_def split: option.splits)

lemma propose_ordinary:
  assumes "\<forall>b \<in> set batches. b \<noteq> [] \<and> ordinary C (hd b)" "\<forall>n. pair_ready (ord_os (creator s)) n"
    "int (length (propC s) + length batches) \<le> MaxInflightBlocks sp"
  shows "\<exists>s'. propose C sp ks batches s = (Ok (), s') \<and> (\<forall>n. pair_ready (ord_os (creator s')) n) \<and>
    pairs_kept (ord_os (creator s)) (ord_os (creator s')) \<and>
    (\<forall>b \<in> set (drop (length (propC s)) (propC s')). data_hash_checks (ord_os (creator s')) b)"
  using assms
proof (induction batches arbitrary: ks s)
  case (Cons batch batches)
  obtain m ms where batch: "batch = m # ms" "ordinary C m" using Cons.prems(1) by (cases batch) auto
  obtain b t where b: "createNextBlock C (ks 0) batch (creator s) = (Ok b, t)" "\<forall>n. pair_ready (ord_os t) n"
    "pairs_kept (ord_os (creator s)) (ord_os t)" "data_hash_checks (ord_os t) b"
    "os_read (ord_os t) (blockfile_path (Number (BHeader b))) \<noteq> None"
    using createNextBlock_ordinary [OF batch(2) Cons.prems(2)] batch(1) by blast
  obtain config where config: "IsConfigBlock C b = Ok config" using IsConfigBlock_Ok by blast
  let ?s1 = "s\<lparr>creator := t, propC := propC s @ [b], configInflight := configInflight s \<or> config, blockInflight := blockInflight s + 1\<rparr>"
  obtain s' where s': "propose C sp (\<lambda>i. ks (Suc i)) batches ?s1 = (Ok (), s')" "\<forall>n. pair_ready (ord_os (creator s')) n"
    "pairs_kept (ord_os t) (ord_os (creator s'))"
    "\<forall>b \<in> set (drop (Suc (length (propC s))) (propC s')). data_hash_checks (ord_os (creator s')) b"
    using Cons.IH [of ?s1 "\<lambda>i. ks (Suc i)"] Cons.prems b(2) by auto
  have "propose C sp ks (batch # batches) s = (Ok (), s')"
    using b(1) config Cons.prems(3) s'(1) by (cases config) (simp_all add: io_zoom_def send_block_def)
  moreover have "drop (length (propC s)) (propC s') = b # drop (Suc (length (propC s))) (propC s')"
    using propose_sent [OF s'(1)] by (auto simp: sent_def)
  ultimately show ?case
    using s' data_hash_kept [OF b(4,5) s'(3)] pairs_kept_trans [OF b(3) s'(3)] by auto
qed simp

text \<open>The states in which the leader serves ordinary messages.\<close>

definition serving :: "codec \<Rightarrow> BatchSize \<Rightarrow> leader \<Rightarrow> bool" where
  "serving C c s \<longleftrightarrow> receiver_inv c (cutter s) \<and> (\<forall>m \<in> set (pendingBatch (cutter s)). ordinary C m) \<and>
     (\<forall>n. pair_ready (ord_os (creator s)) n)"


lemma ordinary_request_outcome:
  assumes s: "serving C c s" and c: "SharedConfig sp = Some c" "0 < MaxMessageCount c" "PreferredMaxBytes c < 2 ^ 31"
    and m: "isConfig C (sr_Payload req) = Ok False" "\<not> LastValidationSeq req < Sequence sp" "ordinary C (sr_Payload req)"
      "envelope_bytes (sr_Payload req) < 2 ^ 32"
    and room: "int (length (propC s)) + 2 \<le> MaxInflightBlocks sp"
  shows "\<exists>s' bs. on_submit C sp ks req s = (Ok (), s') \<and> propC s' = propC s @ bs \<and> length bs \<le> 2 \<and>
    (\<forall>b \<in> set bs. data_hash_checks (ord_os (creator s')) b) \<and>
    concat (map BData bs) @ map (marshal_Envelope C) (pendingBatch (cutter s')) =
      map (marshal_Envelope C) (pendingBatch (cutter s) @ [sr_Payload req]) \<and>
    (ticking s' \<longleftrightarrow> pendingBatch (cutter s') \<noteq> []) \<and> serving C c s'"
proof -
  let ?m = "sr_Payload req"
  obtain batches p r where 1: "Ordered (Some c) ?m (cutter s) = (Ok (batches, p), r)"
    "concat batches @ pendingBatch r = pendingBatch (cutter s) @ [?m]" "receiver_inv c r" "list_all (batch_ok c) batches"
    "length batches \<le> 2" "p \<longleftrightarrow> pendingBatch r \<noteq> []"
    using Ordered_step [OF c(2,3) m(4), of "cutter s"] s by (auto simp: serving_def)
  have all: "\<forall>x \<in> set (concat batches @ pendingBatch r). ordinary C x" unfolding 1(2) using s m(3) by (auto simp: serving_def)
  have heads: "\<forall>b \<in> set batches. b \<noteq> [] \<and> ordinary C (hd b)"
    using 1(4) all hd_in_set by (fastforce simp: list_all_iff batch_ok_def)
  let ?s = "s\<lparr>cutter := r, ticking := p\<rparr>"
  obtain s2 where 2: "propose C sp ks batches ?s = (Ok (), s2)" "\<forall>n. pair_ready (ord_os (creator s2)) n"
    "\<forall>b \<in> set (drop (length (propC s)) (propC s2)). data_hash_checks (ord_os (creator s2)) b"
    using propose_ordinary [OF heads, of ?s sp ks] s 1(5) room by (auto simp: serving_def)
  obtain bs where bs: "sent C ?s batches bs s2" "ticking s2 = p" using propose_sent [OF 2(1)] by auto
  let ?s' = "if configInflight s2 \<or> blockInflight s2 \<ge> MaxInflightBlocks sp then s2\<lparr>accepting := False\<rparr> else s2"
  have run: "on_submit C sp ks req s = (Ok (), ?s')"
    using m(1,2) c(1) 1(1) 2(1) by (simp add: on_submit_def ordered_def io_zoom_def)
  have len: "length bs = length batches" using bs(1) by (metis length_map sent_def)
  have data: "concat (map BData bs) @ map (marshal_Envelope C) (pendingBatch r) = map (marshal_Envelope C) (pendingBatch (cutter s) @ [?m])"
    using bs(1) 1(2) by (metis map_append map_concat sent_def)
  show ?thesis
    using run data len 1(3,5,6) 2(2,3) all bs by (intro exI [of _ ?s'] exI [of _ bs]) (auto simp: sent_def serving_def)
qed

section \<open>The pair written by the orderer\<close>

text \<open>
  After a redaction by the orderer the new pair runs together in the file, so that the data hash of
  the redacted block cannot be computed any more.
\<close>

lemma length_defaults: "length default_r = 63" "length default_s = 64"
  by (simp_all add: default_r_def default_s_def to_bytes_def)

lemma joined_pair_breaks_data_hash:
  assumes "os_read fs (blockfile_path num) = Some (pair_file default_r default_s)" "10 \<notin> set (r2 @ s2)"
    "65 \<le> length (r2 @ s2)" "length (r2 @ s2) \<le> 129"
  shows "fst (BlockDataHash data num (write_pair_joined num r2 s2 fs)) = Panic ''index out of range''"
proof -
  let ?n = "length (r2 @ s2)" and ?p = "pair_file default_r default_s"
  let ?l = "(r2 @ s2) @ drop (?n - 65) default_s"
  have drop: "drop ?n ?p = drop (?n - 65) default_s @ crlf"
  proof -
    have "length (default_r @ crlf) = 65" by (simp add: length_defaults crlf_def)
    moreover have "?p = (default_r @ crlf) @ (default_s @ crlf)" by (simp add: pair_file_def)
    ultimately have "drop ?n ?p = drop (?n - 65) (default_s @ crlf)" using assms(3) by (simp only: drop_append) simp
    then show ?thesis using assms(4) by (simp add: length_defaults)
  qed
  have "overlay (overlay ?p 0 r2) (length r2) s2 = (r2 @ s2) @ drop ?n ?p"
    by (simp add: overlay_def add.commute)
  then have "overlay (overlay ?p 0 r2) (length r2) s2 = ?l @ crlf @ []" unfolding drop by simp
  moreover have "line_ok ?l" using assms(2,4) line_ok_default(2) by (auto simp: line_ok_def length_defaults dest: in_set_dropD)
  ultimately have "read_lines (overlay (overlay ?p 0 r2) (length r2) s2) = [to_string ?l]"
    by (simp only: read_lines_crlf read_lines_Nil)
  then show ?thesis using assms(1)
    by (simp add: write_pair_joined_def os_content_def BlockDataHash_def PathExists_def os_exists_def os_read_write)
qed


section \<open>Properties\<close>


definition cert_message :: Envelope where
  "cert_message = \<lparr>env_Payload = marshal_Payload ref_codec
     \<lparr>pl_Header = Some \<lparr>hdr_ChannelHeader = pack [[1], [2], [3]], hdr_SignatureHeader = []\<rparr>,
      pl_Data = marshal_Transaction ref_codec
        \<lparr>tx_Actions = [\<lparr>ta_Header = [], ta_Payload = marshal_ChaincodeActionPayload ref_codec (sample_cap ref_codec sample_args ''v'')\<rparr>]\<rparr>\<rparr>,
     env_Signature = [9]\<rparr>"

definition sample_support :: support where
  "sample_support = \<lparr>Sequence = 1, ProcessConfigMsg = Ok, ProcessNormalMsg = (\<lambda>_. Ok ()),
     SharedConfig = Some \<lparr>MaxMessageCount = 1, PreferredMaxBytes = 0x1000\<rparr>, MaxInflightBlocks = 5\<rparr>"

definition sample_leader :: leader where
  "sample_leader = \<lparr>cutter = NewReceiverImpl, creator = \<lparr>ord_bc = \<lparr>bc_hash = [7], bc_number = 4\<rparr>, ord_os = \<lparr>files = [], dirs = [], faults = []\<rparr>\<rparr>,
     configInflight = False, blockInflight = 0, propC = [], accepting = True, ticking = False, proposed = []\<rparr>"

abbreviation sample_request :: SubmitRequest where
  "sample_request \<equiv> \<lparr>LastValidationSeq = 1, sr_Payload = cert_message\<rparr>"

lemma length_pack_sum: "length (pack bs) = sum_list (map (\<lambda>b. 2 * length b + 1) bs)"
proof -
  have "length (pack1 b) = 2 * length b + 1" for b by (induction b) (simp_all add: pack1_def)
  then show ?thesis by (induction bs) (simp_all add: pack_def)
qed

lemma sample_message:
  "isConfig ref_codec cert_message = Ok False" "ordinary ref_codec cert_message" "envelope_bytes cert_message < 2 ^ 32"
proof -
  show "isConfig ref_codec cert_message = Ok False"
    by (simp add: isConfig_def ChannelHeader_of_def UnmarshalPayload_def UnmarshalChannelHeader_def proto_Unmarshal_def
        cert_message_def ref_codec_def HeaderType_CONFIG_def HeaderType_ORDERER_TRANSACTION_def ref_Header_def ref_unHeader_def)
  have "message_args ref_codec cert_message = Ok sample_args"
    using codec_laws_simps [OF codec_laws_ref]
    by (simp add: message_args_def etcdraft_ValidateAnalysis_def cert_message_def unpack_tx_def
      GetEnvelopeFromBlock_def UnmarshalPayload_def UnmarshalTransaction_def UnmarshalChaincodeActionPayload_def
      first_elem_def sample_cap_def Let_def unpack_invocation_def
      UnmarshalChaincodeProposalPayload_def UnmarshalChaincodeInvocationSpec_def spec_args_def sample_spec_def comp_def)
  then show "ordinary ref_codec cert_message" by (simp add: ordinary_def sample_args_def)
  show "envelope_bytes cert_message < 2 ^ 32"
    by (simp add: envelope_bytes_def cert_message_def ref_codec_def length_pack_sum pack_option_def ref_Header_def sample_cap_def
        sample_spec_def sample_args_def sample_rwset_def ref_ChaincodeSpec_def ref_ChaincodeInput_def comp_def)
qed

lemma sample_serving: "serving ref_codec \<lparr>MaxMessageCount = 1, PreferredMaxBytes = 0x1000\<rparr> sample_leader"
  by (simp add: serving_def sample_leader_def NewReceiverImpl_def receiver_inv_def pair_ready_def os_exists_def os_read_def)





end
