(* ===== verification/Version.thy ===== *)
theory Version
  imports KeyEncoding
begin

text \<open>
  \<open>core/ledger/internal/version/version.go\<close>: the height of a transaction, which is the version of
  every state it writes.  Heights are ordered by block and then by position in the block; the type
  is an instance of the library's linear orders, and the encoding of a height keeps that order.
\<close>

section \<open>Definitions\<close>

record Height =
  BlockNum :: uint64
  TxNum :: uint64

definition NewHeight :: "uint64 \<Rightarrow> uint64 \<Rightarrow> Height" where
  "NewHeight blockNum txNum = \<lparr>BlockNum = blockNum, TxNum = txNum\<rparr>"

definition NewHeightFromBytes :: "bytes \<Rightarrow> (Height \<times> nat) result" where
  "NewHeightFromBytes b =
     rbind (DecodeOrderPreservingVarUint64 b) (\<lambda>(blockNum, n1).
     rbind (DecodeOrderPreservingVarUint64 (drop n1 b)) (\<lambda>(txNum, n2).
     Ok (NewHeight blockNum txNum, n1 + n2)))"

definition Height_ToBytes :: "Height \<Rightarrow> bytes" where
  "Height_ToBytes h = EncodeOrderPreservingVarUint64 (BlockNum h) @ EncodeOrderPreservingVarUint64 (TxNum h)"

text \<open>\<open>int(h.BlockNum - h1.BlockNum)\<close> wraps twice: the difference is unsigned and is then read as signed.\<close>

definition Height_Compare :: "Height \<Rightarrow> Height \<Rightarrow> int" where
  "Height_Compare h h1 =
     (if BlockNum h \<noteq> BlockNum h1 then (if sint (BlockNum h - BlockNum h1) > 0 then 1 else - 1)
      else if TxNum h \<noteq> TxNum h1 then (if sint (TxNum h - TxNum h1) > 0 then 1 else - 1)
      else 0)"

definition AreSame :: "Height option \<Rightarrow> Height option \<Rightarrow> bool" where
  "AreSame h1 h2 =
     (case h1 of
        None \<Rightarrow> h2 = None
      | Some x \<Rightarrow> (case h2 of None \<Rightarrow> False | Some y \<Rightarrow> Height_Compare x y = 0))"

section \<open>The order of heights\<close>

instantiation Height_ext :: (linorder) linorder
begin

definition less_eq_Height_ext :: "'a Height_ext \<Rightarrow> 'a Height_ext \<Rightarrow> bool" where
  "less_eq_Height_ext h k \<longleftrightarrow>
     BlockNum h < BlockNum k \<or> BlockNum h = BlockNum k \<and>
       (TxNum h < TxNum k \<or> TxNum h = TxNum k \<and> Height.more h \<le> Height.more k)"

definition less_Height_ext :: "'a Height_ext \<Rightarrow> 'a Height_ext \<Rightarrow> bool" where
  "less_Height_ext h k \<longleftrightarrow> h \<le> k \<and> \<not> k \<le> h"

instance
proof
  fix x y z :: "'a Height_ext"
  show "x < y \<longleftrightarrow> x \<le> y \<and> \<not> y \<le> x" by (rule less_Height_ext_def)
  show "x \<le> x" by (simp add: less_eq_Height_ext_def)
  show "x \<le> y \<Longrightarrow> y \<le> z \<Longrightarrow> x \<le> z" by (auto simp: less_eq_Height_ext_def)
  show "x \<le> y \<Longrightarrow> y \<le> x \<Longrightarrow> x = y" by (cases x; cases y) (auto simp: less_eq_Height_ext_def)
  show "x \<le> y \<or> y \<le> x" by (auto simp: less_eq_Height_ext_def)
qed

end

lemma Height_less: "(h :: Height) < k \<longleftrightarrow> BlockNum h < BlockNum k \<or> BlockNum h = BlockNum k \<and> TxNum h < TxNum k"
  by (auto simp: less_Height_ext_def less_eq_Height_ext_def)

section \<open>Comparing and encoding\<close>

lemma Height_Compare_0 [simp]: "Height_Compare h k = 0 \<longleftrightarrow> h = k"
  by (cases h; cases k) (simp add: Height_Compare_def)

lemma AreSame_iff [simp]: "AreSame h k \<longleftrightarrow> h = k"
  by (auto simp: AreSame_def split: option.splits)

lemma NewHeightFromBytes_ToBytes [simp, codec_simps]:
  "NewHeightFromBytes (Height_ToBytes h @ rest) = Ok (h, length (Height_ToBytes h))"
  by (simp add: NewHeightFromBytes_def Height_ToBytes_def Decode_Encode_prefix NewHeight_def)

lemma NewHeightFromBytes_ToBytes_all [simp, codec_simps]:
  "NewHeightFromBytes (Height_ToBytes h) = Ok (h, length (Height_ToBytes h))"
  using NewHeightFromBytes_ToBytes [of h "[]"] by simp

text \<open>
  A self-delimiting encoding that keeps the order still keeps it when more bytes follow, so that
  encodings of tuples compare like the tuples.
\<close>

lemma list_less_append:
  fixes a b :: "'b::linorder list"
  assumes "a < b" "\<And>r. b \<noteq> a @ r"
  shows "a @ x < b @ y"
  using assms
proof (induction a arbitrary: b)
  case (Cons u a)
  then obtain v b' where b: "b = v # b'" by (cases b) auto
  then show ?case using Cons by auto
qed force

lemma append_less_append: "(a :: 'b::linorder list) @ x < a @ y \<longleftrightarrow> x < y"
  by (induction a) simp_all

locale ordered_encoding = self_delimiting enc for enc :: "'a::linorder \<Rightarrow> 'b::linorder list" +
  assumes enc_less: "enc a < enc b \<longleftrightarrow> a < b"
begin

lemma enc_append_less: "enc a @ x < enc b @ y \<longleftrightarrow> a < b \<or> a = b \<and> x < y"
proof -
  have diff: "enc u @ xs < enc v @ ys" if "u < v" for u v xs ys
  proof (rule list_less_append)
    show "enc u < enc v" using that enc_less by simp
    show "enc v \<noteq> enc u @ r" for r using split_unique [of v "[]" u r] that by auto
  qed
  consider "a < b" | "a = b" | "b < a" by force
  then show ?thesis
  proof cases
    case 3
    then show ?thesis using diff [OF 3, of y x] by auto
  qed (use diff in \<open>auto simp: append_less_append\<close>)
qed

end

interpretation opv_order: ordered_encoding EncodeOrderPreservingVarUint64
  by unfold_locales (rule Encode_less_iff)

interpretation height_order: ordered_encoding Height_ToBytes
proof
  fix a b :: Height and xs ys
  show "Height_ToBytes a @ xs = Height_ToBytes b @ ys \<Longrightarrow> a = b"
    by (cases a; cases b) (simp add: Height_ToBytes_def opv.enc_append_iff)
  show "Height_ToBytes a < Height_ToBytes b \<longleftrightarrow> a < b"
    by (simp add: Height_ToBytes_def opv_order.enc_append_less Height_less Encode_less_iff)
qed

section \<open>Properties\<close>

text \<open>C28. The encoding of a height is read back, also in front of other bytes, the encodings compare like the
  heights (so that a scan in key order is a scan in the order of commit), and two heights are the
  same for \<open>AreSame\<close> only when they are equal.\<close>

theorem height_encoding:
  "NewHeightFromBytes (Height_ToBytes h @ rest) = Ok (h, length (Height_ToBytes h)) \<and>
   (Height_ToBytes h < Height_ToBytes k \<longleftrightarrow> h < k) \<and> (AreSame (Some h) (Some k) \<longleftrightarrow> h = k)"
  by (simp add: height_order.enc_less)

text \<open>\<open>Compare\<close> follows the order while the numbers are less than \<open>2 ^ 63\<close> apart, and reverses it beyond.\<close>

lemma sint_diff:
  fixes a b :: uint64
  assumes "a \<noteq> b" "\<bar>uint a - uint b\<bar> < 2 ^ 63"
  shows "sint (a - b) > 0 \<longleftrightarrow> b < a"
proof -
  have "a - b = word_of_int (uint a - uint b)" by simp
  moreover have "int64_range (uint a - uint b)" using assms(2) unfolding int64_range_def by linarith
  ultimately have "sint (a - b) = uint a - uint b" using sint_word_of_int by metis
  then show ?thesis using assms(1) by (simp add: word_less_def)
qed

lemma Height_Compare_order:
  assumes "\<bar>uint (BlockNum h) - uint (BlockNum k)\<bar> < 2 ^ 63" "\<bar>uint (TxNum h) - uint (TxNum k)\<bar> < 2 ^ 63"
  shows "Height_Compare h k = (if h < k then - 1 else if h = k then 0 else 1)"
  using assms sint_diff [of "BlockNum h" "BlockNum k"] sint_diff [of "TxNum h" "TxNum k"]
  by (cases h; cases k) (auto simp: Height_Compare_def Height_less)

lemma Height_Compare_wraps: "Height_Compare (NewHeight 0 0) (NewHeight (- 1) 0) = 1"
  by (simp add: Height_Compare_def NewHeight_def)

end
