(* ===== verification/StateDB.thy ===== *)
theory StateDB
  imports Version "HOL-Library.AList"
begin

text \<open>
  \<open>core/ledger/kvledger/txmgmt/statedb/statedb.go\<close>: versioned values, the batch of updates that a block
  makes, and the iterator over the updates of a namespace.  A Go map is an association list without
  repeated keys; a nil byte slice is \<open>None\<close>, which is how the batch marks a deletion.  The interface
  \<open>ResultsIterator\<close> is the locale \<open>results_iterator\<close>: the items an iterator still has to return, and
  what \<open>Next\<close> does to them.
\<close>

section \<open>Values and iterators\<close>

record CompositeKey =
  ck_Namespace :: string
  ck_Key :: string

record VersionedValue =
  vv_Value :: "bytes option"
  vv_Metadata :: "bytes option"
  vv_Version :: "Height option"

definition vv_IsDelete :: "VersionedValue \<Rightarrow> bool" where
  "vv_IsDelete vv = (vv_Value vv = None)"

record VersionedKV =
  vkv_CompositeKey :: CompositeKey
  vkv_VersionedValue :: VersionedValue

abbreviation vkv_Key :: "VersionedKV \<Rightarrow> string" where
  "vkv_Key kv \<equiv> ck_Key (vkv_CompositeKey kv)"

abbreviation vkv_Version :: "VersionedKV \<Rightarrow> Height option" where
  "vkv_Version kv \<equiv> vv_Version (vkv_VersionedValue kv)"

definition mk_kv :: "string \<Rightarrow> string \<Rightarrow> VersionedValue \<Rightarrow> VersionedKV" where
  "mk_kv ns key vv = \<lparr>vkv_CompositeKey = \<lparr>ck_Namespace = ns, ck_Key = key\<rparr>, vkv_VersionedValue = vv\<rparr>"

lemma mk_kv_simps [simp]: "vkv_Key (mk_kv ns key vv) = key" "vkv_VersionedValue (mk_kv ns key vv) = vv"
  "mk_kv ns key vv = mk_kv ns' key' vv' \<longleftrightarrow> ns = ns' \<and> key = key' \<and> vv = vv'"
  by (simp_all add: mk_kv_def)

locale results_iterator =
  fixes iter_next :: "'i \<Rightarrow> (VersionedKV option \<times> 'i) result"
    and items :: "'i \<Rightarrow> VersionedKV list"
    and valid :: "'i \<Rightarrow> bool"
  assumes next_Nil: "valid itr \<Longrightarrow> items itr = [] \<Longrightarrow> \<exists>itr'. iter_next itr = Ok (None, itr') \<and> items itr' = [] \<and> valid itr'"
    and next_Cons: "valid itr \<Longrightarrow> items itr = kv # kvs \<Longrightarrow> \<exists>itr'. iter_next itr = Ok (Some kv, itr') \<and> items itr' = kvs \<and> valid itr'"
begin

lemma next_step: "valid itr \<Longrightarrow> \<exists>itr'. iter_next itr = Ok (if items itr = [] then None else Some (hd (items itr)), itr') \<and>
    items itr' = tl (items itr) \<and> valid itr'"
  using next_Nil next_Cons by (cases "items itr") fastforce+

end

section \<open>The update batch\<close>

record nsUpdates =
  nu_M :: "(string \<times> VersionedValue) list"

definition newNsUpdates :: nsUpdates where
  "newNsUpdates = \<lparr>nu_M = []\<rparr>"

record StateUpdateBatch =
  ContainsPostOrderWrites :: bool
  Updates :: "(string \<times> nsUpdates) list"

definition NewStateUpdateBatch :: StateUpdateBatch where
  "NewStateUpdateBatch = \<lparr>ContainsPostOrderWrites = False, Updates = []\<rparr>"

definition batch_Get :: "string \<Rightarrow> string \<Rightarrow> StateUpdateBatch \<Rightarrow> VersionedValue option" where
  "batch_Get ns key batch =
     (case map_of (Updates batch) ns of None \<Rightarrow> None | Some nsu \<Rightarrow> map_of (nu_M nsu) key)"

definition getOrCreateNsUpdates :: "string \<Rightarrow> StateUpdateBatch \<Rightarrow> nsUpdates" where
  "getOrCreateNsUpdates ns batch = (case map_of (Updates batch) ns of None \<Rightarrow> newNsUpdates | Some nsu \<Rightarrow> nsu)"

definition batch_Update :: "string \<Rightarrow> string \<Rightarrow> VersionedValue \<Rightarrow> StateUpdateBatch \<Rightarrow> StateUpdateBatch" where
  "batch_Update ns key vv batch =
     (let nsu = getOrCreateNsUpdates ns batch
      in batch\<lparr>Updates := AList.update ns (nsu\<lparr>nu_M := AList.update key vv (nu_M nsu)\<rparr>) (Updates batch)\<rparr>)"

definition batch_PutValAndMetadata ::
  "string \<Rightarrow> string \<Rightarrow> bytes option \<Rightarrow> bytes option \<Rightarrow> Height \<Rightarrow> StateUpdateBatch \<Rightarrow> StateUpdateBatch result" where
  "batch_PutValAndMetadata ns key value metadata ver batch =
     (if value = None then Panic ''Nil value not allowed. Instead call 'Delete' function''
      else Ok (batch_Update ns key \<lparr>vv_Value = value, vv_Metadata = metadata, vv_Version = Some ver\<rparr> batch))"

definition batch_Put :: "string \<Rightarrow> string \<Rightarrow> bytes option \<Rightarrow> Height \<Rightarrow> StateUpdateBatch \<Rightarrow> StateUpdateBatch result" where
  "batch_Put ns key value ver batch = batch_PutValAndMetadata ns key value None ver batch"

definition batch_Delete :: "string \<Rightarrow> string \<Rightarrow> Height \<Rightarrow> StateUpdateBatch \<Rightarrow> StateUpdateBatch" where
  "batch_Delete ns key ver batch =
     batch_Update ns key \<lparr>vv_Value = None, vv_Metadata = None, vv_Version = Some ver\<rparr> batch"

definition batch_Exists :: "string \<Rightarrow> string \<Rightarrow> StateUpdateBatch \<Rightarrow> bool" where
  "batch_Exists ns key batch =
     (case map_of (Updates batch) ns of None \<Rightarrow> False | Some nsu \<Rightarrow> map_of (nu_M nsu) key \<noteq> None)"

definition batch_GetUpdatedNamespaces :: "StateUpdateBatch \<Rightarrow> string list" where
  "batch_GetUpdatedNamespaces batch = map fst (Updates batch)"

definition batch_GetUpdates :: "string \<Rightarrow> StateUpdateBatch \<Rightarrow> (string \<times> VersionedValue) list" where
  "batch_GetUpdates ns batch = (case map_of (Updates batch) ns of None \<Rightarrow> [] | Some nsu \<Rightarrow> nu_M nsu)"

definition batch_Merge :: "StateUpdateBatch \<Rightarrow> StateUpdateBatch \<Rightarrow> StateUpdateBatch" where
  "batch_Merge toMerge batch =
     fold (\<lambda>(ns, nsu). fold (\<lambda>(key, vv). batch_Update ns key vv) (nu_M nsu)) (Updates toMerge)
       (batch\<lparr>ContainsPostOrderWrites := ContainsPostOrderWrites batch \<or> ContainsPostOrderWrites toMerge\<rparr>)"

section \<open>The iterator over a namespace\<close>

text \<open>Go compares strings byte by byte; \<open>sort.SearchStrings\<close> gives the first index that is not smaller.\<close>

definition GetSortedKeys :: "(string \<times> 'v) list \<Rightarrow> string list" where
  "GetSortedKeys m = sort_key to_bytes (map fst m)"

definition SearchStrings :: "string list \<Rightarrow> string \<Rightarrow> nat" where
  "SearchStrings a x = length (takeWhile (\<lambda>k. to_bytes k < to_bytes x) a)"

record nsIterator =
  ni_ns :: string
  ni_nsUpdates :: nsUpdates
  ni_sortedKeys :: "string list"
  ni_nextIndex :: nat
  ni_lastIndex :: nat

definition newNsIterator :: "string \<Rightarrow> string \<Rightarrow> string \<Rightarrow> StateUpdateBatch \<Rightarrow> nsIterator" where
  "newNsIterator ns startKey endKey batch =
     (case map_of (Updates batch) ns of
        None \<Rightarrow> \<lparr>ni_ns = '''', ni_nsUpdates = newNsUpdates, ni_sortedKeys = [], ni_nextIndex = 0, ni_lastIndex = 0\<rparr>
      | Some nsu \<Rightarrow>
          (let sortedKeys = GetSortedKeys (nu_M nsu);
               nextIndex = (if startKey = '''' then 0 else SearchStrings sortedKeys startKey);
               lastIndex = (if endKey = '''' then length sortedKeys else SearchStrings sortedKeys endKey)
           in \<lparr>ni_ns = ns, ni_nsUpdates = nsu, ni_sortedKeys = sortedKeys, ni_nextIndex = nextIndex, ni_lastIndex = lastIndex\<rparr>))"

definition GetRangeScanIterator :: "string \<Rightarrow> string \<Rightarrow> string \<Rightarrow> StateUpdateBatch \<Rightarrow> nsIterator" where
  "GetRangeScanIterator ns startKey endKey batch = newNsIterator ns startKey endKey batch"

definition nsIterator_Next :: "nsIterator \<Rightarrow> (VersionedKV option \<times> nsIterator) result" where
  "nsIterator_Next itr =
     (if ni_nextIndex itr \<ge> ni_lastIndex itr then Ok (None, itr)
      else if ni_nextIndex itr \<ge> length (ni_sortedKeys itr) then Panic ''index out of range''
      else
        (let key = ni_sortedKeys itr ! ni_nextIndex itr in
         case map_of (nu_M (ni_nsUpdates itr)) key of
           None \<Rightarrow> Panic ''nil pointer dereference''
         | Some vv \<Rightarrow> Ok (Some (mk_kv (ni_ns itr) key vv), itr\<lparr>ni_nextIndex := ni_nextIndex itr + 1\<rparr>)))"

section \<open>Lemmas on the batch\<close>

lemma batch_Exists_iff [simp]: "batch_Exists ns key batch \<longleftrightarrow> batch_Get ns key batch \<noteq> None"
  by (simp add: batch_Exists_def batch_Get_def split: option.split)

lemma batch_Get_New [simp]: "batch_Get ns key NewStateUpdateBatch = None"
  by (simp add: batch_Get_def NewStateUpdateBatch_def)

lemma batch_Get_Update [simp]:
  "batch_Get ns' key' (batch_Update ns key vv batch) = (if ns' = ns \<and> key' = key then Some vv else batch_Get ns' key' batch)"
  by (simp add: batch_Get_def batch_Update_def getOrCreateNsUpdates_def newNsUpdates_def Let_def update_conv' split: option.split)

text \<open>The association lists are maps.\<close>

definition batch_wf :: "StateUpdateBatch \<Rightarrow> bool" where
  "batch_wf batch \<longleftrightarrow> distinct (map fst (Updates batch)) \<and> (\<forall>(ns, nsu) \<in> set (Updates batch). distinct (map fst (nu_M nsu)))"

lemma batch_wf_New [simp]: "batch_wf NewStateUpdateBatch"
  by (simp add: batch_wf_def NewStateUpdateBatch_def)

lemma set_alist_update: "set (AList.update k v al) \<subseteq> insert (k, v) (set al)"
  by (induction al) auto

lemma batch_wf_Update [simp]:
  assumes "batch_wf batch"
  shows "batch_wf (batch_Update ns key vv batch)"
proof -
  have "distinct (map fst (nu_M (getOrCreateNsUpdates ns batch)))"
    using assms by (auto simp: getOrCreateNsUpdates_def batch_wf_def newNsUpdates_def split: option.split dest!: map_of_SomeD)
  then show ?thesis
    using assms set_alist_update unfolding batch_wf_def batch_Update_def Let_def
    by (fastforce simp: distinct_update)
qed

lemma batch_GetUpdates_map: "map_of (batch_GetUpdates ns batch) key = batch_Get ns key batch"
  by (simp add: batch_GetUpdates_def batch_Get_def split: option.split)

lemma batch_GetUpdates_distinct: "batch_wf batch \<Longrightarrow> distinct (map fst (batch_GetUpdates ns batch))"
  by (auto simp: batch_GetUpdates_def batch_wf_def split: option.split dest!: map_of_SomeD)

section \<open>The items of the iterator\<close>

definition in_range :: "string \<Rightarrow> string \<Rightarrow> string \<Rightarrow> bool" where
  "in_range startKey endKey key \<longleftrightarrow> to_bytes startKey \<le> to_bytes key \<and> (endKey = '''' \<or> to_bytes key < to_bytes endKey)"

definition ns_items :: "nsIterator \<Rightarrow> VersionedKV list" where
  "ns_items itr = map (\<lambda>k. mk_kv (ni_ns itr) k (the (map_of (nu_M (ni_nsUpdates itr)) k)))
     (drop (ni_nextIndex itr) (take (ni_lastIndex itr) (ni_sortedKeys itr)))"

definition ns_valid :: "nsIterator \<Rightarrow> bool" where
  "ns_valid itr \<longleftrightarrow> ni_lastIndex itr \<le> length (ni_sortedKeys itr) \<and> set (ni_sortedKeys itr) \<subseteq> dom (map_of (nu_M (ni_nsUpdates itr)))"

interpretation ns_iter: results_iterator nsIterator_Next ns_items ns_valid
proof
  fix itr kv kvs
  assume v: "ns_valid itr"
  then have l: "ni_lastIndex itr \<le> length (ni_sortedKeys itr)" by (simp add: ns_valid_def)
  show "\<exists>itr'. nsIterator_Next itr = Ok (None, itr') \<and> ns_items itr' = [] \<and> ns_valid itr'" if "ns_items itr = []"
    using that v l by (simp add: ns_items_def nsIterator_Next_def)
  show "\<exists>itr'. nsIterator_Next itr = Ok (Some kv, itr') \<and> ns_items itr' = kvs \<and> ns_valid itr'" if i: "ns_items itr = kv # kvs"
  proof -
    let ?n = "ni_nextIndex itr" and ?m = "ni_lastIndex itr" and ?ks = "ni_sortedKeys itr"
    have n: "?n < ?m" "?n < length ?ks" using i l by (auto simp: ns_items_def intro: ccontr)
    then have "drop ?n (take ?m ?ks) = ?ks ! ?n # drop (Suc ?n) (take ?m ?ks)"
      using Cons_nth_drop_Suc [of ?n "take ?m ?ks"] by simp
    moreover have "?ks ! ?n \<in> dom (map_of (nu_M (ni_nsUpdates itr)))" using v n(2) nth_mem by (auto simp: ns_valid_def)
    ultimately show ?thesis using v i n by (auto simp: ns_items_def nsIterator_Next_def ns_valid_def)
  qed
qed

lemma drop_take_filter:
  assumes "sorted_wrt (\<lambda>a b. f a \<le> (f b :: 'b::linorder)) ks" "\<And>a b. f a \<le> f b \<Longrightarrow> P b \<Longrightarrow> P a" "\<And>a b. f a \<le> f b \<Longrightarrow> Q b \<Longrightarrow> Q a"
  shows "drop (length (takeWhile P ks)) (take (length (takeWhile Q ks)) ks) = filter (\<lambda>k. \<not> P k \<and> Q k) ks"
  using assms(1)
proof (induction ks)
  case (Cons k ks)
  have all: "\<forall>x \<in> set ks. \<not> P x" if "\<not> P k" using Cons.prems that assms(2) by auto
  have "takeWhile P ks = []" if "\<not> P k" using all [OF that] by (cases ks) auto
  moreover have "filter (\<lambda>k. \<not> P k \<and> Q k) ks = []" if "\<not> Q k" using Cons.prems that assms(3) by (auto simp: filter_empty_conv)
  ultimately show ?case using Cons by auto
qed simp

lemma sorted_GetSortedKeys: "sorted_wrt (\<lambda>a b. to_bytes a \<le> to_bytes b) (GetSortedKeys m)"
  using sorted_sort_key [of to_bytes "map fst m"] by (simp add: GetSortedKeys_def sorted_map)

lemma set_GetSortedKeys [simp]: "set (GetSortedKeys m) = fst ` set m"
  by (simp add: GetSortedKeys_def)

lemma range_indices:
  fixes m s e
  defines "ks \<equiv> GetSortedKeys m"
  shows "drop (if s = '''' then 0 else SearchStrings ks s) (take (if e = '''' then length ks else SearchStrings ks e) ks) = filter (in_range s e) ks"
proof -
  have s: "sorted_wrt (\<lambda>a b. to_bytes a \<le> to_bytes b) ks" by (simp add: ks_def sorted_GetSortedKeys)
  have 1: "(if s = '''' then 0 else SearchStrings ks s) = length (takeWhile (\<lambda>k. to_bytes k < to_bytes s) ks)"
    by (cases ks) (auto simp: SearchStrings_def to_bytes_def)
  have 2: "(if e = '''' then length ks else SearchStrings ks e) = length (takeWhile (\<lambda>k. e = '''' \<or> to_bytes k < to_bytes e) ks)"
    by (auto simp: SearchStrings_def takeWhile_eq_all_conv [THEN iffD2])
  show ?thesis unfolding 1 2 by (subst drop_take_filter [OF s]) (auto simp: in_range_def not_less intro!: filter_cong)
qed

lemma ns_items_range:
  "ns_items (GetRangeScanIterator ns startKey endKey batch) =
     map (\<lambda>k. mk_kv ns k (the (batch_Get ns k batch))) (filter (in_range startKey endKey) (GetSortedKeys (batch_GetUpdates ns batch)))"
proof (cases "map_of (Updates batch) ns")
  case None
  then show ?thesis
    by (simp add: ns_items_def GetRangeScanIterator_def newNsIterator_def batch_GetUpdates_def GetSortedKeys_def)
next
  case (Some nsu)
  then show ?thesis
    by (simp add: ns_items_def GetRangeScanIterator_def newNsIterator_def batch_GetUpdates_def batch_Get_def Let_def range_indices
        split del: if_split)
qed

lemma ns_valid_range: "ns_valid (GetRangeScanIterator ns startKey endKey batch)"
  by (auto simp: ns_valid_def GetRangeScanIterator_def newNsIterator_def Let_def SearchStrings_def length_takeWhile_le
      dom_map_of_conv_image_fst split: option.split)

end
