(* ===== verification/StateLevelDB.thy ===== *)
theory StateLevelDB
  imports StateDB LevelDB Proto
begin

text \<open>
  \<open>core/ledger/kvledger/txmgmt/statedb/stateleveldb\<close>: the state of a channel in a named leveldb.  The
  wire format of a stored value (\<open>db_value.proto\<close>) is a parameter with its round trip.  The contents
  of the database represent a map from namespaces and keys to versioned values; lookups, range
  scans and \<open>ApplyUpdates\<close> are shown to be those of the map.
\<close>

section \<open>Stored values\<close>

record DBValue =
  dv_Version :: bytes
  dv_Value :: bytes
  dv_Metadata :: bytes

record value_codec =
  marshal_DBValue :: "DBValue \<Rightarrow> bytes"
  unmarshal_DBValue :: "bytes \<Rightarrow> DBValue option"

definition value_codec_laws :: "value_codec \<Rightarrow> bool" where
  "value_codec_laws V \<longleftrightarrow> (\<forall>v. unmarshal_DBValue V (marshal_DBValue V v) = Some v)"

definition opt_bytes :: "bytes option \<Rightarrow> bytes" where
  "opt_bytes b = (case b of None \<Rightarrow> [] | Some x \<Rightarrow> x)"

definition encodeValue :: "value_codec \<Rightarrow> VersionedValue \<Rightarrow> bytes result" where
  "encodeValue V v =
     (case vv_Version v of
        None \<Rightarrow> Panic ''nil pointer dereference''
      | Some h \<Rightarrow> Ok (marshal_DBValue V
          \<lparr>dv_Version = Height_ToBytes h, dv_Value = opt_bytes (vv_Value v), dv_Metadata = opt_bytes (vv_Metadata v)\<rparr>))"

text \<open>An empty field is nil after unmarshalling; the value is then set to an empty slice.\<close>

definition decodeValue :: "value_codec \<Rightarrow> bytes \<Rightarrow> VersionedValue result" where
  "decodeValue V encodedValue =
     rbind (proto_Unmarshal ''DBValue'' (unmarshal_DBValue V encodedValue)) (\<lambda>dbValue.
     rbind (NewHeightFromBytes (dv_Version dbValue)) (\<lambda>(ver, _).
     Ok \<lparr>vv_Value = Some (dv_Value dbValue),
         vv_Metadata = (if dv_Metadata dbValue = [] then None else Some (dv_Metadata dbValue)), vv_Version = Some ver\<rparr>))"

section \<open>Keys\<close>

definition dataKeyPrefix :: bytes where "dataKeyPrefix = to_bytes ''d''"
definition dataKeyStopper :: bytes where "dataKeyStopper = to_bytes ''e''"
definition nsKeySep :: bytes where "nsKeySep = [0]"
definition lastKeyIndicator :: byte where "lastKeyIndicator = 1"
definition savePointKey :: bytes where "savePointKey = to_bytes ''s''"
definition maxDataImportBatchSize :: nat where "maxDataImportBatchSize = 4 * 1024 * 1024"

definition encodeDataKey :: "string \<Rightarrow> string \<Rightarrow> bytes" where
  "encodeDataKey ns key = dataKeyPrefix @ to_bytes ns @ nsKeySep @ to_bytes key"

text \<open>\<open>bytes.SplitN(encodedDataKey, nsKeySep, 2)\<close>; the first part loses the prefix byte.\<close>

definition decodeDataKey :: "bytes \<Rightarrow> (string \<times> string) result" where
  "decodeDataKey encodedDataKey =
     (let ns = takeWhile (\<lambda>b. b \<noteq> 0) encodedDataKey in
      if ns = [] then Panic ''slice bounds out of range''
      else if 0 \<notin> set encodedDataKey then Panic ''index out of range''
      else Ok (to_string (tl ns), to_string (tl (dropWhile (\<lambda>b. b \<noteq> 0) encodedDataKey))))"

definition dataKeyStarterForNextNamespace :: "string \<Rightarrow> bytes" where
  "dataKeyStarterForNextNamespace ns = dataKeyPrefix @ to_bytes ns @ [lastKeyIndicator]"

section \<open>Reading\<close>

definition GetState :: "value_codec \<Rightarrow> string \<Rightarrow> string \<Rightarrow> string \<Rightarrow> DB \<Rightarrow> VersionedValue option result" where
  "GetState V dbName ns key db =
     (case DBHandle_Get dbName (encodeDataKey ns key) db of
        None \<Rightarrow> Ok None
      | Some dbVal \<Rightarrow> rbind (decodeValue V dbVal) (\<lambda>vv. Ok (Some vv)))"

definition GetVersion :: "value_codec \<Rightarrow> string \<Rightarrow> string \<Rightarrow> string \<Rightarrow> DB \<Rightarrow> Height option result" where
  "GetVersion V dbName ns key db =
     rbind (GetState V dbName ns key db) (\<lambda>versionedValue.
     Ok (case versionedValue of None \<Rightarrow> None | Some vv \<Rightarrow> vv_Version vv))"

fun GetStateMultipleKeys :: "value_codec \<Rightarrow> string \<Rightarrow> string \<Rightarrow> string list \<Rightarrow> DB \<Rightarrow> VersionedValue option list result" where
  "GetStateMultipleKeys V dbName ns [] db = Ok []"
| "GetStateMultipleKeys V dbName ns (key # keys) db =
     rbind (GetState V dbName ns key db) (\<lambda>val.
     rbind (GetStateMultipleKeys V dbName ns keys db) (\<lambda>vals. Ok (val # vals)))"

text \<open>A scanner with the entries its iterator has still to visit; the limit 0 is no limit.\<close>

record kvScanner =
  ks_namespace :: string
  ks_dbItr :: "(bytes \<times> bytes) list"
  ks_requestedLimit :: int
  ks_totalRecordsReturned :: int

definition newKVScanner :: "string \<Rightarrow> (bytes \<times> bytes) list \<Rightarrow> int \<Rightarrow> kvScanner" where
  "newKVScanner ns dbItr requestedLimit =
     \<lparr>ks_namespace = ns, ks_dbItr = dbItr, ks_requestedLimit = requestedLimit, ks_totalRecordsReturned = 0\<rparr>"

definition GetStateRangeScanIteratorWithPagination :: "string \<Rightarrow> string \<Rightarrow> string \<Rightarrow> string \<Rightarrow> int \<Rightarrow> DB \<Rightarrow> kvScanner" where
  "GetStateRangeScanIteratorWithPagination dbName ns startKey endKey pageSize db =
     (let dataStartKey = encodeDataKey ns startKey;
          dataEndKey = (if endKey = '''' then butlast (encodeDataKey ns endKey) @ [lastKeyIndicator] else encodeDataKey ns endKey)
      in newKVScanner ns (DBHandle_GetIterator dbName dataStartKey (Some dataEndKey) db) pageSize)"

definition GetStateRangeScanIterator :: "string \<Rightarrow> string \<Rightarrow> string \<Rightarrow> string \<Rightarrow> DB \<Rightarrow> kvScanner" where
  "GetStateRangeScanIterator dbName ns startKey endKey db =
     GetStateRangeScanIteratorWithPagination dbName ns startKey endKey 0 db"

definition kvScanner_Next :: "value_codec \<Rightarrow> kvScanner \<Rightarrow> (VersionedKV option \<times> kvScanner) result" where
  "kvScanner_Next V scanner =
     (if ks_requestedLimit scanner > 0 \<and> ks_totalRecordsReturned scanner \<ge> ks_requestedLimit scanner then Ok (None, scanner)
      else case ks_dbItr scanner of
        [] \<Rightarrow> Ok (None, scanner)
      | kv # kvs \<Rightarrow>
          rbind (Iterator_Key kv) (\<lambda>dbKey.
          rbind (decodeDataKey dbKey) (\<lambda>(_, key).
          rbind (decodeValue V (snd kv)) (\<lambda>vv.
          Ok (Some (mk_kv (ks_namespace scanner) key vv),
              scanner\<lparr>ks_dbItr := kvs, ks_totalRecordsReturned := ks_totalRecordsReturned scanner + 1\<rparr>)))))"

definition GetBookmarkAndClose :: "kvScanner \<Rightarrow> string result" where
  "GetBookmarkAndClose scanner =
     (case ks_dbItr scanner of
        [] \<Rightarrow> Ok ''''
      | kv # kvs \<Rightarrow> rbind (Iterator_Key kv) (\<lambda>dbKey. rbind (decodeDataKey dbKey) (\<lambda>(_, key). Ok key)))"

definition GetLatestSavePoint :: "string \<Rightarrow> DB \<Rightarrow> Height option result" where
  "GetLatestSavePoint dbName db =
     (case DBHandle_Get dbName savePointKey db of
        None \<Rightarrow> Ok None
      | Some versionBytes \<Rightarrow> rbind (NewHeightFromBytes versionBytes) (\<lambda>(ver, _). Ok (Some ver)))"

section \<open>Writing\<close>

definition put_update :: "value_codec \<Rightarrow> string \<Rightarrow> string \<times> VersionedValue \<Rightarrow> UpdateBatch \<Rightarrow> UpdateBatch result" where
  "put_update V ns kvv dbBatch =
     (case kvv of (k, vv) \<Rightarrow>
        if vv_Value vv = None then Ok (UpdateBatch_Delete (encodeDataKey ns k) dbBatch)
        else rbind (encodeValue V vv) (\<lambda>encodedVal. UpdateBatch_Put (encodeDataKey ns k) (Some encodedVal) dbBatch))"

fun rfold :: "('a \<Rightarrow> 's \<Rightarrow> 's result) \<Rightarrow> 'a list \<Rightarrow> 's \<Rightarrow> 's result" where
  "rfold f [] s = Ok s"
| "rfold f (x # xs) s = rbind (f x s) (rfold f xs)"

definition ApplyUpdates :: "value_codec \<Rightarrow> string \<Rightarrow> StateUpdateBatch \<Rightarrow> Height option \<Rightarrow> (DB, unit) io" where
  "ApplyUpdates V dbName batch height =
     io_bind (io_lift (rfold (\<lambda>ns. rfold (put_update V ns) (batch_GetUpdates ns batch))
       (batch_GetUpdatedNamespaces batch) (NewUpdateBatch dbName))) (\<lambda>dbBatch.
     io_bind (io_lift (case height of None \<Rightarrow> Ok dbBatch | Some h \<Rightarrow> UpdateBatch_Put savePointKey (Some (Height_ToBytes h)) dbBatch)) (\<lambda>dbBatch'.
     DBHandle_WriteBatch dbBatch' True))"

text \<open>Importing a snapshot; the snapshot's iterator is the list of what its \<open>Next\<close> returns.\<close>

fun importState_loop :: "value_codec \<Rightarrow> VersionedKV result list \<Rightarrow> nat \<Rightarrow> UpdateBatch \<Rightarrow> (DB, UpdateBatch) io" where
  "importState_loop V [] batchSize dbBatch = io_return dbBatch"
| "importState_loop V (next # itr) batchSize dbBatch =
     io_bind (io_lift next) (\<lambda>versionedKV.
     let dbKey = encodeDataKey (ck_Namespace (vkv_CompositeKey versionedKV)) (vkv_Key versionedKV) in
     io_bind (io_lift (encodeValue V (vkv_VersionedValue versionedKV))) (\<lambda>dbValue.
     let batchSize' = batchSize + (length dbKey + length dbValue) in
     io_bind (io_lift (UpdateBatch_Put dbKey (Some dbValue) dbBatch)) (\<lambda>dbBatch'.
     if batchSize' \<ge> maxDataImportBatchSize then
       io_bind (DBHandle_WriteBatch dbBatch' True) (\<lambda>_. importState_loop V itr 0 (dbBatch'\<lparr>ub_batch := []\<rparr>))
     else importState_loop V itr batchSize' dbBatch')))"

definition importState :: "value_codec \<Rightarrow> string \<Rightarrow> VersionedKV result list option \<Rightarrow> Height \<Rightarrow> (DB, unit) io" where
  "importState V dbName itr savepoint =
     (case itr of
        None \<Rightarrow> DBHandle_Put dbName savePointKey (Height_ToBytes savepoint) True
      | Some rs \<Rightarrow>
          io_bind (importState_loop V rs 0 (NewUpdateBatch dbName)) (\<lambda>dbBatch.
          io_bind (io_lift (UpdateBatch_Put savePointKey (Some (Height_ToBytes savepoint)) dbBatch)) (\<lambda>dbBatch'.
          DBHandle_WriteBatch dbBatch' True)))"

section \<open>The full scan\<close>

text \<open>The entries of the iterator and the index of the next one; \<open>Seek\<close> then \<open>Prev\<close> sets that index.\<close>

record fullDBScanner =
  fd_dbName :: string
  fd_dbItr :: "(bytes \<times> bytes) list"
  fd_toSkip :: "string \<Rightarrow> bool"
  fd_index :: nat

definition newFullDBScanner :: "string \<Rightarrow> (string \<Rightarrow> bool) \<Rightarrow> DB \<Rightarrow> fullDBScanner" where
  "newFullDBScanner dbName skipNamespace db =
     \<lparr>fd_dbName = dbName, fd_dbItr = DBHandle_GetIterator dbName dataKeyPrefix (Some dataKeyStopper) db,
      fd_toSkip = skipNamespace, fd_index = 0\<rparr>"

definition seek_index :: "string \<Rightarrow> bytes \<Rightarrow> (bytes \<times> bytes) list \<Rightarrow> nat" where
  "seek_index dbName key itr = length itr - length (Iterator_Seek dbName key itr)"

definition fullDB_read :: "value_codec \<Rightarrow> bytes \<times> bytes \<Rightarrow> (string \<times> string \<times> VersionedValue) result" where
  "fullDB_read V kv =
     rbind (rbind (Iterator_Key kv) decodeDataKey) (\<lambda>(ns, key).
     rbind (decodeValue V (snd kv)) (\<lambda>versionedVal. Ok (ns, key, versionedVal)))"

text \<open>Skipping a namespace jumps behind it; the loop ends when the jump is forward, \<open>None\<close> is a loop that does not.\<close>

partial_function (option) fullDBScanner_Next ::
  "value_codec \<Rightarrow> fullDBScanner \<Rightarrow> (VersionedKV option \<times> fullDBScanner) result option" where
  "fullDBScanner_Next V s =
     (if fd_index s \<ge> length (fd_dbItr s) then Some (Ok (None, s))
      else case fullDB_read V (fd_dbItr s ! fd_index s) of
        Err e \<Rightarrow> Some (Err e)
      | Panic p \<Rightarrow> Some (Panic p)
      | Ok (ns, key, versionedVal) \<Rightarrow>
          if \<not> fd_toSkip s ns then Some (Ok (Some (mk_kv ns key versionedVal), s\<lparr>fd_index := Suc (fd_index s)\<rparr>))
          else fullDBScanner_Next V
            (s\<lparr>fd_index := seek_index (fd_dbName s) (dataKeyStarterForNextNamespace ns) (fd_dbItr s)\<rparr>))"

declare fullDBScanner_Next.simps [code]

section \<open>Round trips\<close>

text \<open>What a database stores: a value that is present, with a version; empty metadata are stored as none.\<close>

definition stored :: "VersionedValue \<Rightarrow> bool" where
  "stored vv \<longleftrightarrow> vv_Value vv \<noteq> None \<and> vv_Metadata vv \<noteq> Some [] \<and> vv_Version vv \<noteq> None"

definition stored_bytes :: "value_codec \<Rightarrow> VersionedValue \<Rightarrow> bytes" where
  "stored_bytes V vv = marshal_DBValue V
     \<lparr>dv_Version = Height_ToBytes (the (vv_Version vv)), dv_Value = opt_bytes (vv_Value vv), dv_Metadata = opt_bytes (vv_Metadata vv)\<rparr>"

lemma encodeValue_stored: "vv_Version vv \<noteq> None \<Longrightarrow> encodeValue V vv = Ok (stored_bytes V vv)"
  by (auto simp: encodeValue_def stored_bytes_def)

lemma decodeValue_stored: "value_codec_laws V \<Longrightarrow> stored vv \<Longrightarrow> decodeValue V (stored_bytes V vv) = Ok vv"
  by (cases vv) (auto simp: value_codec_laws_def stored_def decodeValue_def stored_bytes_def opt_bytes_def split: option.splits)

definition ns_ok :: "string \<Rightarrow> bool" where
  "ns_ok ns \<longleftrightarrow> 0 \<notin> set (to_bytes ns)"

lemma decodeDataKey_encodeDataKey: "ns_ok ns \<Longrightarrow> decodeDataKey (encodeDataKey ns key) = Ok (ns, key)"
proof -
  assume ns: "ns_ok ns"
  have p: "dataKeyPrefix = [100]" by (simp add: dataKeyPrefix_def to_bytes_def byte_of_char_def)
  have t: "takeWhile (\<lambda>b. b \<noteq> 0) (encodeDataKey ns key) = 100 # to_bytes ns"
    using ns by (simp add: encodeDataKey_def nsKeySep_def ns_ok_def p takeWhile_append)
  have d: "dropWhile (\<lambda>b. b \<noteq> 0) (encodeDataKey ns key) = 0 # to_bytes key"
    using ns by (simp add: encodeDataKey_def nsKeySep_def ns_ok_def p dropWhile_append dropWhile_eq_Nil_conv [THEN iffD2])
  show ?thesis unfolding decodeDataKey_def t d Let_def by (simp add: encodeDataKey_def nsKeySep_def)
qed

section \<open>The database represents a map\<close>

type_synonym state = "string \<Rightarrow> string \<Rightarrow> VersionedValue option"

definition state_repr :: "value_codec \<Rightarrow> string \<Rightarrow> state \<Rightarrow> DB \<Rightarrow> bool" where
  "state_repr V dbName S db \<longleftrightarrow>
     in_key_order (entries db) \<and> (\<forall>ns key vv. S ns key = Some vv \<longrightarrow> stored vv) \<and>
     (\<forall>ns key. ns_ok ns \<longrightarrow> DBHandle_Get dbName (encodeDataKey ns key) db = map_option (stored_bytes V) (S ns key))"

text \<open>\<open>ks\<close> are the keys with a value that satisfy \<open>P\<close>, in order.\<close>

definition scan_of :: "(string \<Rightarrow> 'v option) \<Rightarrow> (string \<Rightarrow> bool) \<Rightarrow> string list \<Rightarrow> bool" where
  "scan_of f P ks \<longleftrightarrow> sorted_wrt (\<lambda>a b. to_bytes a < to_bytes b) ks \<and> set ks = {k. P k \<and> f k \<noteq> None}"

definition kvs_of :: "string \<Rightarrow> (string \<Rightarrow> VersionedValue option) \<Rightarrow> string list \<Rightarrow> VersionedKV list" where
  "kvs_of ns f ks = map (\<lambda>k. mk_kv ns k (the (f k))) ks"

lemma GetState_repr:
  assumes "value_codec_laws V" "state_repr V dbName S db" "ns_ok ns"
  shows "GetState V dbName ns key db = Ok (S ns key)"
  using assms by (cases "S ns key") (auto simp: GetState_def state_repr_def decodeValue_stored)

lemma GetVersion_repr:
  assumes "value_codec_laws V" "state_repr V dbName S db" "ns_ok ns"
  shows "GetVersion V dbName ns key db = Ok (Option.bind (S ns key) vv_Version)"
  using GetState_repr [OF assms] by (simp add: GetVersion_def split: option.split)

subsection \<open>Range scans\<close>

definition data_prefix :: "string \<Rightarrow> string \<Rightarrow> bytes" where
  "data_prefix dbName ns = to_bytes dbName @ [0] @ dataKeyPrefix @ to_bytes ns"

lemma levelKey_data: "constructLevelKey dbName (encodeDataKey ns key) = data_prefix dbName ns @ [0] @ to_bytes key"
  by (simp add: constructLevelKey_def encodeDataKey_def nsKeySep_def data_prefix_def)

lemma between_same_prefix:
  fixes x :: "'a::linorder list"
  assumes "p @ s \<le> x" "x < p @ e"
  shows "\<exists>r. x = p @ r \<and> s \<le> r \<and> r < e"
  using assms
proof (induction p arbitrary: x)
  case (Cons a p)
  then obtain b y where x: "x = b # y" by (cases x) auto
  with Cons.prems have "b = a" "p @ s \<le> y" "y < p @ e" by auto
  then show ?case using Cons.IH x by auto
qed auto

lemma append_le_append: "(a :: 'b::linorder list) @ x \<le> a @ y \<longleftrightarrow> x \<le> y"
  by (induction a) simp_all

lemma range_keys:
  fixes dbName ns startKey endKey
  defines "p \<equiv> data_prefix dbName ns @ [0]"
    and "ek \<equiv> constructLevelKey dbName (if endKey = '''' then butlast (encodeDataKey ns endKey) @ [lastKeyIndicator] else encodeDataKey ns endKey)"
  shows "constructLevelKey dbName (encodeDataKey ns startKey) \<le> x \<and> x < ek \<longleftrightarrow> (\<exists>k. x = p @ to_bytes k \<and> in_range startKey endKey k)"
proof -
  have sk: "constructLevelKey dbName (encodeDataKey ns startKey) = p @ to_bytes startKey" by (simp add: p_def levelKey_data)
  have bytes: "\<exists>k. r = to_bytes k" for r using to_bytes_to_string [of r] by metis
  show ?thesis
  proof (cases "endKey = ''''")
    case True
    then have ek: "ek = data_prefix dbName ns @ [1]"
      by (simp add: ek_def constructLevelKey_def encodeDataKey_def nsKeySep_def data_prefix_def lastKeyIndicator_def butlast_append)
    have "p @ to_bytes startKey \<le> x \<and> x < ek \<longleftrightarrow> (\<exists>r. x = p @ r \<and> to_bytes startKey \<le> r)"
    proof
      assume a: "p @ to_bytes startKey \<le> x \<and> x < ek"
      have "p \<le> p @ to_bytes startKey" using append_le_append [of p "[]"] by simp
      then have "data_prefix dbName ns @ [0] \<le> x" using a unfolding p_def by auto
      then have "take (length p) x = p" using between_separators [of "data_prefix dbName ns" x] a ek by (simp add: p_def)
      then have "x = p @ drop (length p) x" by (metis append_take_drop_id)
      then show "\<exists>r. x = p @ r \<and> to_bytes startKey \<le> r" using a append_le_append [of p] by metis
    next
      assume "\<exists>r. x = p @ r \<and> to_bytes startKey \<le> r"
      then show "p @ to_bytes startKey \<le> x \<and> x < ek"
        using between_separators [of "data_prefix dbName ns" x] by (auto simp: ek p_def append_le_append append_less_append)
    qed
    then show ?thesis unfolding sk using True by (auto simp: in_range_def) (metis to_bytes_to_string)
  next
    case False
    then have ek: "ek = p @ to_bytes endKey" by (simp add: ek_def p_def levelKey_data)
    show ?thesis unfolding sk ek using between_same_prefix [of p _ x] bytes False
      by (auto simp: in_range_def append_le_append append_less_append) (metis to_bytes_to_string)
  qed
qed

text \<open>What a scanner without a limit has still to return.\<close>

definition entry_kv :: "value_codec \<Rightarrow> string \<Rightarrow> bytes \<times> bytes \<Rightarrow> VersionedKV result" where
  "entry_kv V ns kv = rbind (rbind (Iterator_Key kv) decodeDataKey) (\<lambda>(_, key). rbind (decodeValue V (snd kv)) (\<lambda>vv. Ok (mk_kv ns key vv)))"

fun the_Ok :: "'a result \<Rightarrow> 'a" where
  "the_Ok (Ok a) = a"
| "the_Ok (Err e) = undefined"
| "the_Ok (Panic p) = undefined"

definition ks_items :: "value_codec \<Rightarrow> kvScanner \<Rightarrow> VersionedKV list" where
  "ks_items V sc = map (\<lambda>kv. the_Ok (entry_kv V (ks_namespace sc) kv)) (ks_dbItr sc)"

definition ks_valid :: "value_codec \<Rightarrow> kvScanner \<Rightarrow> bool" where
  "ks_valid V sc \<longleftrightarrow> ks_requestedLimit sc = 0 \<and> (\<forall>kv \<in> set (ks_dbItr sc). \<exists>x. entry_kv V (ks_namespace sc) kv = Ok x)"

interpretation ks_iter: results_iterator "kvScanner_Next V" "ks_items V" "ks_valid V" for V
proof
  fix itr kv kvs
  assume v: "ks_valid V itr"
  show "\<exists>itr'. kvScanner_Next V itr = Ok (None, itr') \<and> ks_items V itr' = [] \<and> ks_valid V itr'" if "ks_items V itr = []"
    using that v by (simp add: ks_items_def kvScanner_Next_def)
  show "\<exists>itr'. kvScanner_Next V itr = Ok (Some kv, itr') \<and> ks_items V itr' = kvs \<and> ks_valid V itr'" if "ks_items V itr = kv # kvs"
    using that v by (auto simp: ks_items_def ks_valid_def kvScanner_Next_def entry_kv_def rbind_eq_Ok rbind_assoc)
qed

lemma range_scan:
  assumes V: "value_codec_laws V" and S: "state_repr V dbName S db" and n: "db_name_ok dbName" "ns_ok ns"
  shows "\<exists>ks. ks_items V (GetStateRangeScanIterator dbName ns startKey endKey db) = kvs_of ns (S ns) ks \<and>
     ks_valid V (GetStateRangeScanIterator dbName ns startKey endKey db) \<and> scan_of (S ns) (in_range startKey endKey) ks"
proof -
  let ?p = "data_prefix dbName ns @ [0]"
  let ?sc = "GetStateRangeScanIterator dbName ns startKey endKey db"
  let ?es = "filter (\<lambda>kv. \<exists>k. fst kv = ?p @ to_bytes k \<and> in_range startKey endKey k) (entries db)"
  define ks where "ks = map (\<lambda>kv. to_string (drop (length ?p) (fst kv))) ?es"
  have o: "in_key_order (entries db)" and stored: "\<And>k vv. S ns k = Some vv \<Longrightarrow> stored vv"
    and get: "\<And>k. map_of (entries db) (?p @ to_bytes k) = map_option (stored_bytes V) (S ns k)"
    using S n(2) by (auto simp: state_repr_def DBHandle_Get_def DB_Get_def levelKey_data)
  have sc: "?sc = newKVScanner ns ?es 0"
    by (simp add: GetStateRangeScanIterator_def GetStateRangeScanIteratorWithPagination_def DBHandle_GetIterator_def DB_GetIterator_def
        Let_def range_keys del: append_assoc split del: if_split)
  have entry: "\<exists>k vv. fst kv = ?p @ to_bytes k \<and> in_range startKey endKey k \<and> S ns k = Some vv \<and> entry_kv V ns kv = Ok (mk_kv ns k vv)"
    if kv: "kv \<in> set ?es" for kv
  proof -
    obtain k where k: "fst kv = ?p @ to_bytes k" "in_range startKey endKey k" "kv \<in> set (entries db)" using kv by auto
    then have "map_of (entries db) (?p @ to_bytes k) = Some (snd kv)"
      using in_key_order_distinct [OF o] by (metis map_of_is_SomeI prod.collapse)
    then obtain vv where vv: "S ns k = Some vv" "snd kv = stored_bytes V vv" using get by auto
    have "Iterator_Key kv = Ok (encodeDataKey ns k)"
      using k(1) n(1) by (simp add: Iterator_Key_def flip: levelKey_data [simplified])
    then have "entry_kv V ns kv = Ok (mk_kv ns k vv)"
      using vv stored V n(2) by (simp add: entry_kv_def decodeDataKey_encodeDataKey decodeValue_stored)
    then show ?thesis using k vv by blast
  qed
  have "the_Ok (entry_kv V ns kv) = mk_kv ns (to_string (drop (length ?p) (fst kv))) (the (S ns (to_string (drop (length ?p) (fst kv)))))"
    if "kv \<in> set ?es" for kv using entry [OF that] by auto
  then have "ks_items V ?sc = kvs_of ns (S ns) ks"
    unfolding sc ks_items_def kvs_of_def ks_def by (simp add: newKVScanner_def del: set_filter)
  moreover have "ks_valid V ?sc" unfolding sc ks_valid_def using entry by (fastforce simp: newKVScanner_def)
  moreover have "sorted_wrt (\<lambda>a b. to_bytes a < to_bytes b) ks"
  proof -
    have "sorted_wrt (\<lambda>a b. fst a < fst b) ?es" using o by (simp add: sorted_wrt_map sorted_wrt_filter)
    then show ?thesis unfolding ks_def sorted_wrt_map
      by (rule sorted_wrt_mono_rel [rotated]) (auto dest!: entry simp: append_less_append)
  qed
  moreover have "set ks = {k. in_range startKey endKey k \<and> S ns k \<noteq> None}"
  proof (intro set_eqI iffI)
    fix k assume "k \<in> set ks"
    then obtain kv where "kv \<in> set ?es" "k = to_string (drop (length ?p) (fst kv))" unfolding ks_def set_map by blast
    then show "k \<in> {k. in_range startKey endKey k \<and> S ns k \<noteq> None}" using entry [of kv] by auto
  next
    fix k assume k: "k \<in> {k. in_range startKey endKey k \<and> S ns k \<noteq> None}"
    then obtain v where "map_of (entries db) (?p @ to_bytes k) = Some v" using get [of k] by auto
    then have "(?p @ to_bytes k, v) \<in> set ?es" using k by (auto dest: map_of_SomeD)
    then show "k \<in> set ks" unfolding ks_def by (force simp: image_iff)
  qed
  ultimately show ?thesis unfolding scan_of_def by blast
qed

subsection \<open>Applying a batch\<close>

definition applied :: "StateUpdateBatch \<Rightarrow> state \<Rightarrow> state" where
  "applied batch S = (\<lambda>ns key. case batch_Get ns key batch of
     None \<Rightarrow> S ns key | Some vv \<Rightarrow> if vv_Value vv = None then None else Some vv)"

text \<open>Every update of the batch can be stored.\<close>

definition storable :: "StateUpdateBatch \<Rightarrow> bool" where
  "storable batch \<longleftrightarrow> batch_wf batch \<and> (\<forall>ns key vv. batch_Get ns key batch = Some vv \<longrightarrow> ns_ok ns \<and> (vv_Value vv = None \<or> stored vv))"

lemma storable_ok: "storable batch \<Longrightarrow> batch_Get ns key batch = Some vv \<Longrightarrow> ns_ok ns \<and> (vv_Value vv = None \<or> stored vv)"
  by (simp add: storable_def)

definition update_op :: "value_codec \<Rightarrow> string \<Rightarrow> string \<Rightarrow> string \<times> VersionedValue \<Rightarrow> (bytes, bytes) kv_op" where
  "update_op V dbName ns kvv = (case kvv of (k, vv) \<Rightarrow>
     if vv_Value vv = None then OpDelete (constructLevelKey dbName (encodeDataKey ns k))
     else OpPut (constructLevelKey dbName (encodeDataKey ns k)) (stored_bytes V vv))"

lemma update_op_simps [simp]:
  "op_key (update_op V dbName ns (k, vv)) = constructLevelKey dbName (encodeDataKey ns k)"
  "op_val (update_op V dbName ns (k, vv)) = (if vv_Value vv = None then None else Some (stored_bytes V vv))"
  by (simp_all add: update_op_def)

lemma put_updates:
  assumes "\<forall>(k, vv) \<in> set kvs. vv_Value vv = None \<or> stored vv"
  shows "rfold (put_update V ns) kvs b = Ok (b\<lparr>ub_batch := ub_batch b @ map (update_op V (ub_dbName b) ns) kvs\<rparr>)"
  using assms
  by (induction kvs arbitrary: b)
     (auto simp: put_update_def update_op_def encodeValue_stored stored_def UpdateBatch_Put_def UpdateBatch_Delete_def)

lemma put_all_updates:
  assumes "\<forall>ns \<in> set nss. \<forall>(k, vv) \<in> set (batch_GetUpdates ns batch). vv_Value vv = None \<or> stored vv"
  shows "rfold (\<lambda>ns. rfold (put_update V ns) (batch_GetUpdates ns batch)) nss b =
     Ok (b\<lparr>ub_batch := ub_batch b @ concat (map (\<lambda>ns. map (update_op V (ub_dbName b) ns) (batch_GetUpdates ns batch)) nss)\<rparr>)"
  using assms by (induction nss arbitrary: b) (simp_all add: put_updates)

lemma last_op_unique:
  assumes "\<And>x. x \<in> set xs \<Longrightarrow> op_key x = k \<Longrightarrow> op_val x = v" "k \<in> op_key ` set xs"
  shows "last_op xs k = Some v"
  using assms
proof (induction xs)
  case (Cons x xs)
  then show ?case by (cases "k \<in> op_key ` set xs") (auto simp: last_op_None [THEN iffD2] split: option.split)
qed simp

lemma encodeDataKey_inject: "ns_ok ns \<Longrightarrow> ns_ok ns' \<Longrightarrow> encodeDataKey ns k = encodeDataKey ns' k' \<longleftrightarrow> ns = ns' \<and> k = k'"
  by (metis Pair_inject decodeDataKey_encodeDataKey result.inject(1))

lemma savePointKey_not_data: "savePointKey \<noteq> encodeDataKey ns key"
  by (simp add: savePointKey_def encodeDataKey_def dataKeyPrefix_def to_bytes_def byte_of_char_def)

lemma batch_updates_iff:
  "batch_wf batch \<Longrightarrow> (key, vv) \<in> set (batch_GetUpdates ns batch) \<longleftrightarrow> batch_Get ns key batch = Some vv"
  using batch_GetUpdates_distinct [of batch ns] by (simp flip: batch_GetUpdates_map)

lemma batch_Get_namespace: "batch_Get ns key batch \<noteq> None \<Longrightarrow> ns \<in> set (batch_GetUpdatedNamespaces batch)"
  by (force simp: batch_Get_def batch_GetUpdatedNamespaces_def split: option.splits dest!: map_of_SomeD)

definition batch_ops :: "value_codec \<Rightarrow> string \<Rightarrow> StateUpdateBatch \<Rightarrow> (bytes, bytes) kv_op list" where
  "batch_ops V dbName batch =
     concat (map (\<lambda>ns. map (update_op V dbName ns) (batch_GetUpdates ns batch)) (batch_GetUpdatedNamespaces batch))"

lemma batch_ops_iff:
  assumes "storable batch"
  shows "x \<in> set (batch_ops V dbName batch) \<longleftrightarrow>
     (\<exists>ns key vv. batch_Get ns key batch = Some vv \<and> ns_ok ns \<and> x = update_op V dbName ns (key, vv))" (is "_ = ?R")
proof
  have wf: "batch_wf batch" using assms by (simp add: storable_def)
  have ok: "ns_ok ns" if "batch_Get ns key batch = Some vv" for ns key vv using assms that by (simp add: storable_def)
  show ?R if "x \<in> set (batch_ops V dbName batch)"
    using that unfolding batch_ops_def by (auto simp: batch_updates_iff [OF wf]) (use ok in blast)
  show "x \<in> set (batch_ops V dbName batch)" if r: ?R
  proof -
    obtain ns key vv where x: "batch_Get ns key batch = Some vv" "x = update_op V dbName ns (key, vv)" using r by blast
    then have "ns \<in> set (batch_GetUpdatedNamespaces batch)" "(key, vv) \<in> set (batch_GetUpdates ns batch)"
      using batch_Get_namespace [of ns key batch] batch_updates_iff [OF wf] by auto
    then show ?thesis using x(2) by (auto simp: batch_ops_def)
  qed
qed

lemma batch_ops_last:
  assumes "storable batch" "ns_ok ns"
  shows "last_op (batch_ops V dbName batch) (constructLevelKey dbName (encodeDataKey ns key)) =
     map_option (\<lambda>vv. if vv_Value vv = None then None else Some (stored_bytes V vv)) (batch_Get ns key batch)"
proof (cases "batch_Get ns key batch")
  case None
  then show ?thesis using assms(2) by (auto simp: last_op_None batch_ops_iff [OF assms(1)] encodeDataKey_inject)
next
  case (Some vv)
  then have "last_op (batch_ops V dbName batch) (constructLevelKey dbName (encodeDataKey ns key)) = Some (op_val (update_op V dbName ns (key, vv)))"
    using assms(2)
    by (intro last_op_unique rev_image_eqI [of "update_op V dbName ns (key, vv)"]) (auto simp: batch_ops_iff [OF assms(1)] encodeDataKey_inject)
  then show ?thesis using Some by simp
qed

lemma applied_stored:
  assumes S: "state_repr V dbName S db" and b: "storable batch" and a: "applied batch S ns key = Some vv"
  shows "stored vv"
proof (cases "batch_Get ns key batch")
  case None
  then show ?thesis using a S by (simp add: applied_def state_repr_def)
next
  case (Some x)
  then show ?thesis using a storable_ok [OF b Some] by (auto simp: applied_def split: if_splits)
qed

lemma ApplyUpdates_repr:
  assumes S: "state_repr V dbName S db" and b: "storable batch" and f: "db_faults db = []"
  shows "\<exists>db'. ApplyUpdates V dbName batch (Some h) db = (Ok (), db') \<and> state_repr V dbName (applied batch S) db' \<and>
     GetLatestSavePoint dbName db' = Ok (Some h) \<and> db_faults db' = []"
proof -
  define all where "all = batch_ops V dbName batch @ [OpPut (constructLevelKey dbName savePointKey) (Height_ToBytes h)]"
  let ?db = "db\<lparr>entries := fold (kv_apply sput sdel) all (entries db)\<rparr>"
  have "\<forall>ns \<in> set (batch_GetUpdatedNamespaces batch). \<forall>(k, vv) \<in> set (batch_GetUpdates ns batch). vv_Value vv = None \<or> stored vv"
    using b by (auto simp: storable_def batch_updates_iff) blast
  then have run: "ApplyUpdates V dbName batch (Some h) db = (Ok (), ?db)"
    using put_all_updates [of "batch_GetUpdatedNamespaces batch" batch V "NewUpdateBatch dbName"] f
    by (simp add: ApplyUpdates_def NewUpdateBatch_def UpdateBatch_Put_def DBHandle_WriteBatch_def batch_ops_def all_def)
  have get: "map_of (entries ?db) k = (case last_op all k of Some r \<Rightarrow> r | None \<Rightarrow> map_of (entries db) k)" for k
    by (simp add: contents.get_steps)
  have "DBHandle_Get dbName (encodeDataKey ns key) ?db = map_option (stored_bytes V) (applied batch S ns key)" if "ns_ok ns" for ns key
    using S that batch_ops_last [OF b that, of V dbName key] savePointKey_not_data [of ns key] unfolding DBHandle_Get_def DB_Get_def get
    by (auto simp: all_def DBHandle_Get_def DB_Get_def last_op_append state_repr_def applied_def split: option.split)
  then have "state_repr V dbName (applied batch S) ?db"
    using S in_key_order_steps [of "entries db" all] applied_stored [OF S b] by (simp add: state_repr_def)
  moreover have "GetLatestSavePoint dbName ?db = Ok (Some h)"
    unfolding GetLatestSavePoint_def DBHandle_Get_def DB_Get_def get by (simp add: all_def last_op_append)
  ultimately show ?thesis using run f by auto
qed

end
