(* ===== verification/Rwset.thy ===== *)
theory Rwset
  imports StateLevelDB
begin

text \<open>
  The read-write set of a transaction as the validator sees it
  (\<open>core/ledger/kvledger/txmgmt/rwsetutil\<close> and the \<open>kvrwset\<close> messages), and the summary of the results
  of a range query: the results themselves, or the top level of a Merkle tree over them
  (\<open>rwsetutil/query_results_helper.go\<close>).  The hash function and the wire format of the list of reads are
  parameters.  A loop of the Merkle tree may go on forever for a degree below 2, so it is a partial
  function: \<open>None\<close> is a call that does not return.
\<close>

section \<open>Reads and writes\<close>

record ProtoVersion =
  pv_BlockNum :: uint64
  pv_TxNum :: uint64

record KVRead =
  kr_Key :: string
  kr_Version :: "ProtoVersion option"

record RwKVWrite =
  rw_Key :: string
  rw_IsDelete :: bool
  rw_Value :: "bytes option"

record KVMetadataEntry =
  me_Name :: string
  me_Value :: bytes

record KVMetadataWrite =
  mw_Key :: string
  mw_Entries :: "KVMetadataEntry list option"

record QueryReadsMerkleSummary =
  ms_MaxDegree :: "32 word"
  ms_MaxLevel :: nat
  ms_MaxLevelHashes :: "bytes list"

datatype ReadsInfo = RawReads "KVRead list" | ReadsMerkleHashes QueryReadsMerkleSummary

record RangeQueryInfo =
  rq_StartKey :: string
  rq_EndKey :: string
  rq_ItrExhausted :: bool
  rq_ReadsInfo :: "ReadsInfo option"

record RwKVRWSet =
  Reads :: "KVRead list"
  RangeQueriesInfo :: "RangeQueryInfo list"
  Writes :: "RwKVWrite list"
  MetadataWrites :: "KVMetadataWrite list"

record KVReadHash =
  rh_KeyHash :: bytes
  rh_Version :: "ProtoVersion option"

record KVWriteHash =
  wh_KeyHash :: bytes
  wh_IsDelete :: bool
  wh_ValueHash :: "bytes option"

record KVMetadataWriteHash =
  mh_KeyHash :: bytes
  mh_Entries :: "KVMetadataEntry list option"

record HashedRWSet =
  HashedReads :: "KVReadHash list"
  HashedWrites :: "KVWriteHash list"
  HashedMetadataWrites :: "KVMetadataWriteHash list"

record CollHashedRwSet =
  CollectionName :: string
  HashedRwSet :: HashedRWSet
  PvtRwSetHash :: "bytes option"

record NsRwSet =
  NameSpace :: string
  KvRwSet :: RwKVRWSet
  CollHashedRwSets :: "CollHashedRwSet list"

record TxRwSet =
  NsRwSets :: "NsRwSet list"

definition getPvtDataHash :: "NsRwSet \<Rightarrow> string \<Rightarrow> bytes option" where
  "getPvtDataHash nsRwSet coll =
     (case filter (\<lambda>c. CollectionName c = coll) (CollHashedRwSets nsRwSet) of [] \<Rightarrow> None | c # _ \<Rightarrow> PvtRwSetHash c)"

definition GetPvtDataHash :: "TxRwSet \<Rightarrow> string \<Rightarrow> string \<Rightarrow> bytes option" where
  "GetPvtDataHash txRwSet ns coll =
     (case filter (\<lambda>n. NameSpace n = ns) (NsRwSets txRwSet) of [] \<Rightarrow> None | n # _ \<Rightarrow> getPvtDataHash n coll)"

definition NumCollections :: "TxRwSet option \<Rightarrow> nat" where
  "NumCollections txRwSet =
     (case txRwSet of None \<Rightarrow> 0 | Some t \<Rightarrow> sum_list (map (\<lambda>n. length (CollHashedRwSets n)) (NsRwSets t)))"

definition NewVersion :: "ProtoVersion option \<Rightarrow> Height option" where
  "NewVersion protoVersion = (case protoVersion of None \<Rightarrow> None | Some v \<Rightarrow> Some (NewHeight (pv_BlockNum v) (pv_TxNum v)))"

definition newProtoVersion :: "Height option \<Rightarrow> ProtoVersion option" where
  "newProtoVersion height = (case height of None \<Rightarrow> None | Some h \<Rightarrow> Some \<lparr>pv_BlockNum = BlockNum h, pv_TxNum = TxNum h\<rparr>)"

definition NewKVRead :: "string \<Rightarrow> Height option \<Rightarrow> KVRead" where
  "NewKVRead key ver = \<lparr>kr_Key = key, kr_Version = newProtoVersion ver\<rparr>"

lemma NewVersion_newProtoVersion [simp]: "NewVersion (newProtoVersion h) = h"
  by (auto simp: NewVersion_def newProtoVersion_def NewHeight_def split: option.split)

lemma newProtoVersion_NewVersion [simp]: "newProtoVersion (NewVersion v) = v"
  by (auto simp: NewVersion_def newProtoVersion_def NewHeight_def split: option.split)

section \<open>The Merkle tree over the results of a range query\<close>

record results_hashing =
  hashFunc :: "bytes \<Rightarrow> bytes result"
  marshal_QueryReads :: "KVRead list \<Rightarrow> bytes"

definition serializeKVReads :: "results_hashing \<Rightarrow> KVRead list \<Rightarrow> bytes result" where
  "serializeKVReads H kvReads = Ok (marshal_QueryReads H kvReads)"

definition leafLevel :: nat where "leafLevel = 1"

record merkleTree =
  mt_tree :: "(nat \<times> bytes list) list"
  mt_maxLevel :: nat
  mt_maxDegree :: "32 word"

definition newMerkleTree :: "32 word \<Rightarrow> merkleTree result" where
  "newMerkleTree maxDegree =
     (if maxDegree < 2 then Err (ErrMsg ''maxDegree [%d] should not be less than 2 in the merkle tree'')
      else Ok \<lparr>mt_tree = [], mt_maxLevel = 1, mt_maxDegree = maxDegree\<rparr>)"

text \<open>\<open>m.tree[level]\<close>: nil for a level that is not in the map.\<close>

definition tree_level :: "merkleTree \<Rightarrow> nat \<Rightarrow> bytes list" where
  "tree_level m l = (case map_of (mt_tree m) l of None \<Rightarrow> [] | Some hs \<Rightarrow> hs)"

definition set_level :: "nat \<Rightarrow> bytes list \<Rightarrow> merkleTree \<Rightarrow> merkleTree" where
  "set_level l hs m = m\<lparr>mt_tree := AList.update l hs (mt_tree m)\<rparr>"

definition delete_level :: "nat \<Rightarrow> merkleTree \<Rightarrow> merkleTree" where
  "delete_level l m = m\<lparr>mt_tree := AList.delete l (mt_tree m)\<rparr>"

definition computeCombinedHash :: "results_hashing \<Rightarrow> bytes list \<Rightarrow> bytes result" where
  "computeCombinedHash H hashes = hashFunc H (concat hashes)"

partial_function (option) update_loop :: "results_hashing \<Rightarrow> nat \<Rightarrow> merkleTree \<Rightarrow> merkleTree result option" where
  "update_loop H currentLevel m =
     (if word_of_nat (length (tree_level m currentLevel)) \<le> mt_maxDegree m then Some (Ok m)
      else case computeCombinedHash H (tree_level m currentLevel) of
        Err e \<Rightarrow> Some (Err e)
      | Panic p \<Rightarrow> Some (Panic p)
      | Ok nextLevelHash \<Rightarrow>
          (let nextLevel = currentLevel + 1;
               m1 = delete_level currentLevel m;
               m2 = set_level nextLevel (tree_level m1 nextLevel @ [nextLevelHash]) m1
           in update_loop H nextLevel (m2\<lparr>mt_maxLevel := (if nextLevel > mt_maxLevel m2 then nextLevel else mt_maxLevel m2)\<rparr>)))"

declare update_loop.simps [code]

definition mt_update :: "results_hashing \<Rightarrow> bytes \<Rightarrow> merkleTree \<Rightarrow> merkleTree result option" where
  "mt_update H nextLeafLevelHash m =
     update_loop H leafLevel (set_level leafLevel (tree_level m leafLevel @ [nextLeafLevelHash]) m)"

function done_loop :: "results_hashing \<Rightarrow> nat \<Rightarrow> merkleTree \<Rightarrow> merkleTree result" where
  "done_loop H currentLevel m =
     (if currentLevel < mt_maxLevel m then
        (case tree_level m currentLevel of
           [] \<Rightarrow> done_loop H (currentLevel + 1) m
         | _ \<Rightarrow>
             rbind (case tree_level m currentLevel of [h] \<Rightarrow> Ok h | hs \<Rightarrow> computeCombinedHash H hs) (\<lambda>h.
             let m1 = delete_level currentLevel m
             in done_loop H (currentLevel + 1) (set_level (currentLevel + 1) (tree_level m1 (currentLevel + 1) @ [h]) m1)))
      else Ok m)"
  by pat_completeness auto
termination
  by (relation "measure (\<lambda>(_, l, m). mt_maxLevel m - l)") (auto simp: set_level_def delete_level_def)

declare done_loop.simps [simp del]

definition mt_done :: "results_hashing \<Rightarrow> merkleTree \<Rightarrow> merkleTree result" where
  "mt_done H m0 =
     rbind (done_loop H leafLevel m0) (\<lambda>m.
     let finalHashes = tree_level m (mt_maxLevel m) in
     if word_of_nat (length finalHashes) > mt_maxDegree m then
       rbind (computeCombinedHash H finalHashes) (\<lambda>combinedHash.
       Ok (set_level (mt_maxLevel m + 1) [combinedHash] ((delete_level (mt_maxLevel m) m)\<lparr>mt_maxLevel := mt_maxLevel m + 1\<rparr>)))
     else Ok m)"

definition getSummery :: "merkleTree \<Rightarrow> QueryReadsMerkleSummary" where
  "getSummery m = \<lparr>ms_MaxDegree = mt_maxDegree m, ms_MaxLevel = mt_maxLevel m, ms_MaxLevelHashes = tree_level m (mt_maxLevel m)\<rparr>"

definition mt_isEmpty :: "merkleTree \<Rightarrow> bool" where
  "mt_isEmpty m = (mt_maxLevel m = 1 \<and> length (tree_level m (mt_maxLevel m)) = 0)"

section \<open>The results helper\<close>

record RangeQueryResultsHelper =
  rqh_pendingResults :: "KVRead list"
  rqh_mt :: "merkleTree option"
  rqh_maxDegree :: "32 word"
  rqh_hashingEnabled :: bool

definition NewRangeQueryResultsHelper :: "bool \<Rightarrow> 32 word \<Rightarrow> RangeQueryResultsHelper result" where
  "NewRangeQueryResultsHelper enableHashing maxDegree =
     rbind (if enableHashing then rbind (newMerkleTree maxDegree) (\<lambda>m. Ok (Some m)) else Ok None) (\<lambda>mt.
     Ok \<lparr>rqh_pendingResults = [], rqh_mt = mt, rqh_maxDegree = maxDegree, rqh_hashingEnabled = enableHashing\<rparr>)"

text \<open>Sequencing of calls that may not return.\<close>

definition obind :: "'a result option \<Rightarrow> ('a \<Rightarrow> 'b result option) \<Rightarrow> 'b result option" where
  "obind m f = (case m of None \<Rightarrow> None | Some (Ok a) \<Rightarrow> f a | Some (Err e) \<Rightarrow> Some (Err e) | Some (Panic p) \<Rightarrow> Some (Panic p))"

definition processPendingResults :: "results_hashing \<Rightarrow> RangeQueryResultsHelper \<Rightarrow> RangeQueryResultsHelper result option" where
  "processPendingResults H helper =
     obind (Some (serializeKVReads H (rqh_pendingResults helper))) (\<lambda>b.
     obind (Some (hashFunc H b)) (\<lambda>hash.
     case rqh_mt helper of
       None \<Rightarrow> Some (Panic ''nil pointer dereference'')
     | Some mt \<Rightarrow>
         obind (mt_update H hash mt) (\<lambda>mt'. Some (Ok (helper\<lparr>rqh_pendingResults := [], rqh_mt := Some mt'\<rparr>)))))"

definition AddResult :: "results_hashing \<Rightarrow> KVRead \<Rightarrow> RangeQueryResultsHelper \<Rightarrow> RangeQueryResultsHelper result option" where
  "AddResult H kvRead helper =
     (let helper' = helper\<lparr>rqh_pendingResults := rqh_pendingResults helper @ [kvRead]\<rparr> in
      if rqh_hashingEnabled helper' \<and> word_of_nat (length (rqh_pendingResults helper')) > rqh_maxDegree helper'
      then processPendingResults H helper' else Some (Ok helper'))"

definition helper_Done ::
  "results_hashing \<Rightarrow> RangeQueryResultsHelper \<Rightarrow> (KVRead list \<times> QueryReadsMerkleSummary option) result option" where
  "helper_Done H helper =
     (if \<not> rqh_hashingEnabled helper then Some (Ok (rqh_pendingResults helper, None))
      else case rqh_mt helper of
        None \<Rightarrow> Some (Panic ''nil pointer dereference'')
      | Some mt \<Rightarrow>
          if mt_isEmpty mt then Some (Ok (rqh_pendingResults helper, None))
          else
            obind (if length (rqh_pendingResults helper) \<noteq> 0 then processPendingResults H helper else Some (Ok helper)) (\<lambda>helper'.
            case rqh_mt helper' of
              None \<Rightarrow> Some (Panic ''nil pointer dereference'')
            | Some mt' \<Rightarrow> obind (Some (mt_done H mt')) (\<lambda>mt''. Some (Ok (rqh_pendingResults helper', Some (getSummery mt''))))))"

definition GetMerkleSummary :: "RangeQueryResultsHelper \<Rightarrow> QueryReadsMerkleSummary option" where
  "GetMerkleSummary helper = (if \<not> rqh_hashingEnabled helper then None else map_option getSummery (rqh_mt helper))"

section \<open>The tree only grows\<close>

lemma obind_simps [simp]:
  "obind (Some (Ok a)) f = f a" "obind (Some (Err e)) f = Some (Err e)" "obind (Some (Panic p)) f = Some (Panic p)" "obind None f = None"
  by (simp_all add: obind_def)

lemma obind_Ok: "obind m f = Some (Ok b) \<longleftrightarrow> (\<exists>a. m = Some (Ok a) \<and> f a = Some (Ok b))"
  by (auto simp: obind_def split: option.splits result.splits)

lemma tree_level_simps [simp]:
  "tree_level (set_level l hs m) l' = (if l' = l then hs else tree_level m l')"
  "tree_level (delete_level l m) l' = (if l' = l then [] else tree_level m l')"
  "tree_level (m\<lparr>mt_maxLevel := n\<rparr>) l' = tree_level m l'"
  "mt_maxLevel (set_level l hs m) = mt_maxLevel m" "mt_maxDegree (set_level l hs m) = mt_maxDegree m"
  "mt_maxLevel (delete_level l m) = mt_maxLevel m" "mt_maxDegree (delete_level l m) = mt_maxDegree m"
  by (simp_all add: tree_level_def set_level_def delete_level_def update_conv' delete_conv')

definition tree_ok :: "merkleTree \<Rightarrow> bool" where
  "tree_ok m \<longleftrightarrow> 1 \<le> mt_maxLevel m \<and> (\<forall>l > mt_maxLevel m. tree_level m l = [])"

text \<open>Hashes are only added at the top level, until a higher level takes its place.\<close>

definition grows :: "merkleTree \<Rightarrow> merkleTree \<Rightarrow> bool" where
  "grows m m' \<longleftrightarrow> mt_maxDegree m' = mt_maxDegree m \<and>
     (mt_maxLevel m < mt_maxLevel m' \<or>
      mt_maxLevel m = mt_maxLevel m' \<and> (\<exists>hs. tree_level m' (mt_maxLevel m) = tree_level m (mt_maxLevel m) @ hs))"

lemma grows_refl [simp]: "grows m m"
  by (simp add: grows_def)

lemma grows_trans: "grows a b \<Longrightarrow> grows b c \<Longrightarrow> grows a c"
  by (auto simp: grows_def)

lemma update_loop_grows:
  assumes "update_loop H cur m = Some r" "r = Ok m'" "tree_ok m" "cur \<le> mt_maxLevel m"
  shows "grows m m' \<and> tree_ok m'"
  using assms
proof (induction arbitrary: m' rule: update_loop.raw_induct [rotated, consumes 1, case_names step])
  case 1: (step rec H cur m r)
  show ?case
  proof (cases "word_of_nat (length (tree_level m cur)) \<le> mt_maxDegree m")
    case True
    then show ?thesis using 1 by simp
  next
    case False
    define m1 where "m1 = set_level (cur + 1) (tree_level (delete_level cur m) (cur + 1) @ [the_Ok (computeCombinedHash H (tree_level m cur))]) (delete_level cur m)"
    define m2 where "m2 = m1\<lparr>mt_maxLevel := if cur + 1 > mt_maxLevel m1 then cur + 1 else mt_maxLevel m1\<rparr>"
    have rec: "rec H (cur + 1) m2 = Some (Ok m')"
      using 1(2,3) False by (auto simp: m2_def m1_def Let_def split: result.splits)
    have "tree_ok m2" "cur + 1 \<le> mt_maxLevel m2" "grows m m2"
      using 1(4,5) by (auto simp: m2_def m1_def tree_ok_def grows_def)
    then show ?thesis using 1(1) [OF rec] grows_trans by blast
  qed
qed

lemma mt_update_grows: "mt_update H h m = Some (Ok m') \<Longrightarrow> tree_ok m \<Longrightarrow> grows m m' \<and> tree_ok m'"
proof -
  assume u: "mt_update H h m = Some (Ok m')" and m: "tree_ok m"
  let ?m = "set_level leafLevel (tree_level m leafLevel @ [h]) m"
  have "tree_ok ?m" "leafLevel \<le> mt_maxLevel ?m" "grows m ?m" using m by (auto simp: tree_ok_def grows_def leafLevel_def)
  then show ?thesis using update_loop_grows [OF u [unfolded mt_update_def] refl] grows_trans by blast
qed

lemma done_loop_step:
  assumes "cur < mt_maxLevel m" "tree_level m cur \<noteq> []"
  shows "done_loop H cur m =
     rbind (case tree_level m cur of [h] \<Rightarrow> Ok h | hs \<Rightarrow> computeCombinedHash H hs) (\<lambda>h.
       done_loop H (cur + 1) (set_level (cur + 1) (tree_level (delete_level cur m) (cur + 1) @ [h]) (delete_level cur m)))"
  using assms by (subst done_loop.simps) (auto simp: Let_def split: list.split)

lemma done_loop_skip: "cur < mt_maxLevel m \<Longrightarrow> tree_level m cur = [] \<Longrightarrow> done_loop H cur m = done_loop H (cur + 1) m"
  by (subst done_loop.simps) simp

lemma done_loop_end: "\<not> cur < mt_maxLevel m \<Longrightarrow> done_loop H cur m = Ok m"
  by (subst done_loop.simps) simp

lemma done_loop_grows:
  "done_loop H cur m = Ok m' \<Longrightarrow> tree_ok m \<Longrightarrow> grows m m' \<and> tree_ok m' \<and> mt_maxLevel m' = mt_maxLevel m"
proof (induction "mt_maxLevel m - cur" arbitrary: cur m rule: less_induct)
  case less
  consider "\<not> cur < mt_maxLevel m" | "cur < mt_maxLevel m" "tree_level m cur = []" | "cur < mt_maxLevel m" "tree_level m cur \<noteq> []" by blast
  then show ?case
  proof cases
    case 1
    then show ?thesis using less.prems by (simp add: done_loop_end)
  next
    case 2
    then show ?thesis using less.prems less.hyps [of m "cur + 1"] by (simp add: done_loop_skip)
  next
    case 3
    then obtain h where h: "done_loop H (cur + 1) (set_level (cur + 1) (tree_level (delete_level cur m) (cur + 1) @ [h]) (delete_level cur m)) = Ok m'"
      using less.prems(1) unfolding done_loop_step [OF 3] rbind_eq_Ok by blast
    let ?m = "set_level (cur + 1) (tree_level (delete_level cur m) (cur + 1) @ [h]) (delete_level cur m)"
    have m: "tree_ok ?m" "grows m ?m" using less.prems(2) 3 by (auto simp: tree_ok_def grows_def)
    have "grows ?m m' \<and> tree_ok m' \<and> mt_maxLevel m' = mt_maxLevel ?m"
      using 3 by (intro less.hyps [OF _ h m(1)]) simp
    then show ?thesis using m(2) grows_trans by auto
  qed
qed

lemma mt_done_grows: "mt_done H m = Ok m' \<Longrightarrow> tree_ok m \<Longrightarrow> grows m m'"
proof -
  assume d: "mt_done H m = Ok m'" and m: "tree_ok m"
  obtain m1 where m1: "done_loop H leafLevel m = Ok m1" using d by (auto simp: mt_done_def rbind_eq_Ok)
  then have "grows m1 m'" using d by (auto simp: mt_done_def rbind_eq_Ok Let_def grows_def split: if_splits)
  then show ?thesis using done_loop_grows [OF m1 m] grows_trans by blast
qed

text \<open>A tree of degree at least 2 is completed in finitely many steps.\<close>

lemma update_loop_returns:
  assumes "2 \<le> mt_maxDegree m" "tree_ok m" "cur \<le> mt_maxLevel m"
  shows "\<exists>r. update_loop H cur m = Some r"
  using assms
proof (induction "mt_maxLevel m - cur" arbitrary: cur m rule: less_induct)
  case less
  show ?case
  proof (cases "computeCombinedHash H (tree_level m cur)")
    case (Ok h)
    define m1 where "m1 = set_level (cur + 1) (tree_level (delete_level cur m) (cur + 1) @ [h]) (delete_level cur m)"
    define m2 where "m2 = m1\<lparr>mt_maxLevel := if cur + 1 > mt_maxLevel m1 then cur + 1 else mt_maxLevel m1\<rparr>"
    have m2: "2 \<le> mt_maxDegree m2" "tree_ok m2" "cur + 1 \<le> mt_maxLevel m2"
      using less.prems by (auto simp: m2_def m1_def tree_ok_def)
    have "\<exists>r. update_loop H (cur + 1) m2 = Some r"
    proof (cases "cur < mt_maxLevel m")
      case True
      then have "mt_maxLevel m2 - (cur + 1) < mt_maxLevel m - cur" by (simp add: m2_def m1_def)
      then show ?thesis using less.hyps m2 by blast
    next
      case False
      then have "tree_level m2 (cur + 1) = [h]" using less.prems(2) by (simp add: m2_def m1_def tree_ok_def)
      moreover have "1 \<le> mt_maxDegree m2" using m2(1) by (simp add: word_le_nat_alt)
      ultimately show ?thesis by (subst update_loop.simps) simp
    qed
    then show ?thesis using Ok by (subst update_loop.simps) (auto simp: Let_def m2_def m1_def)
  qed (subst update_loop.simps, simp)+
qed

lemma mt_update_returns: "2 \<le> mt_maxDegree m \<Longrightarrow> tree_ok m \<Longrightarrow> \<exists>r. mt_update H h m = Some r"
  unfolding mt_update_def by (rule update_loop_returns) (auto simp: tree_ok_def leafLevel_def)

section \<open>Summaries\<close>

definition helper_ok :: "RangeQueryResultsHelper \<Rightarrow> merkleTree \<Rightarrow> bool" where
  "helper_ok h m \<longleftrightarrow> rqh_hashingEnabled h \<and> rqh_mt h = Some m \<and> tree_ok m \<and> 2 \<le> mt_maxDegree m"

fun feed :: "results_hashing \<Rightarrow> KVRead list \<Rightarrow> RangeQueryResultsHelper \<Rightarrow> RangeQueryResultsHelper result option" where
  "feed H [] h = Some (Ok h)"
| "feed H (r # rs) h = obind (AddResult H r h) (feed H rs)"

text \<open>What the helper makes of the results of a query.\<close>

definition results_summary :: "results_hashing \<Rightarrow> 32 word \<Rightarrow> KVRead list \<Rightarrow> QueryReadsMerkleSummary option result option" where
  "results_summary H maxDegree reads =
     obind (Some (NewRangeQueryResultsHelper True maxDegree)) (\<lambda>h.
     obind (feed H reads h) (\<lambda>h'. obind (helper_Done H h') (\<lambda>(_, s). Some (Ok s))))"

lemma helper_ok_new:
  "NewRangeQueryResultsHelper True deg = Ok h \<Longrightarrow> \<exists>m. helper_ok h m \<and> mt_maxLevel m = 1 \<and> (\<forall>l. tree_level m l = []) \<and> mt_maxDegree m = deg"
  by (auto simp: NewRangeQueryResultsHelper_def newMerkleTree_def rbind_eq_Ok helper_ok_def tree_ok_def tree_level_def split: if_splits)

lemma processPendingResults_ok:
  assumes "processPendingResults H h = Some (Ok h')" "helper_ok h m"
  shows "\<exists>m'. helper_ok h' m' \<and> grows m m'"
  using assms mt_update_grows
  by (fastforce simp: processPendingResults_def helper_ok_def obind_Ok grows_def split: option.splits)

lemma AddResult_ok:
  assumes "AddResult H r h = Some (Ok h')" "helper_ok h m"
  shows "\<exists>m'. helper_ok h' m' \<and> grows m m'"
proof (cases "word_of_nat (length (rqh_pendingResults h @ [r])) > rqh_maxDegree h")
  case True
  have "helper_ok (h\<lparr>rqh_pendingResults := rqh_pendingResults h @ [r]\<rparr>) m" using assms(2) by (simp add: helper_ok_def)
  moreover have "processPendingResults H (h\<lparr>rqh_pendingResults := rqh_pendingResults h @ [r]\<rparr>) = Some (Ok h')"
    using assms True by (simp add: AddResult_def Let_def helper_ok_def)
  ultimately show ?thesis by (rule processPendingResults_ok [rotated])
next
  case False
  then have "h' = h\<lparr>rqh_pendingResults := rqh_pendingResults h @ [r]\<rparr>" using assms by (simp add: AddResult_def Let_def)
  then show ?thesis using assms(2) by (intro exI [of _ m]) (simp add: helper_ok_def)
qed

lemma feed_ok: "feed H rs h = Some (Ok h') \<Longrightarrow> helper_ok h m \<Longrightarrow> \<exists>m'. helper_ok h' m' \<and> grows m m'"
proof (induction rs arbitrary: h m)
  case (Cons r rs)
  then obtain h1 where h1: "AddResult H r h = Some (Ok h1)" "feed H rs h1 = Some (Ok h')" by (auto simp: obind_Ok)
  then show ?case using AddResult_ok [OF h1(1) Cons.prems(2)] Cons.IH [OF h1(2)] grows_trans by meson
qed auto

lemma helper_Done_ok:
  assumes "helper_Done H h = Some (Ok (p, Some s))" "helper_ok h m"
  shows "\<exists>m'. s = getSummery m' \<and> grows m m'"
proof -
  obtain h1 where h1: "(if length (rqh_pendingResults h) \<noteq> 0 then processPendingResults H h else Some (Ok h)) = Some (Ok h1)"
    "(case rqh_mt h1 of None \<Rightarrow> Some (Panic ''nil pointer dereference'')
      | Some mt' \<Rightarrow> obind (Some (mt_done H mt')) (\<lambda>mt''. Some (Ok (rqh_pendingResults h1, Some (getSummery mt''))))) = Some (Ok (p, Some s))"
    using assms by (auto simp: helper_Done_def helper_ok_def obind_Ok split: if_splits)
  obtain m1 where m1: "helper_ok h1 m1" "grows m m1"
    using h1(1) assms(2) processPendingResults_ok grows_refl by (metis option.inject result.inject(1))
  then obtain m2 where "mt_done H m1 = Ok m2" "s = getSummery m2" using h1(2) by (auto simp: helper_ok_def obind_Ok)
  then show ?thesis using m1 mt_done_grows grows_trans by (metis helper_ok_def)
qed

lemma processPendingResults_returns: "helper_ok h m \<Longrightarrow> \<exists>r. processPendingResults H h = Some r"
proof (cases "hashFunc H (marshal_QueryReads H (rqh_pendingResults h))")
  case (Ok b)
  assume "helper_ok h m"
  then show ?thesis using Ok mt_update_returns [of m H b]
    by (auto simp: processPendingResults_def serializeKVReads_def helper_ok_def obind_def split: result.split)
qed (simp_all add: processPendingResults_def serializeKVReads_def)

lemma AddResult_returns: "helper_ok h m \<Longrightarrow> \<exists>r'. AddResult H r h = Some r'"
  using processPendingResults_returns [of "h\<lparr>rqh_pendingResults := rqh_pendingResults h @ [r]\<rparr>" m H]
  by (auto simp: AddResult_def Let_def helper_ok_def)

lemma helper_Done_returns: "helper_ok h m \<Longrightarrow> \<exists>r. helper_Done H h = Some r"
proof -
  assume h: "helper_ok h m"
  obtain r where r: "processPendingResults H h = Some r" using processPendingResults_returns [OF h] by blast
  have "\<exists>r. (case rqh_mt h1 of None \<Rightarrow> Some (Panic ''nil pointer dereference'')
      | Some mt' \<Rightarrow> obind (Some (mt_done H mt')) (\<lambda>mt''. Some (Ok (rqh_pendingResults h1, Some (getSummery mt''))))) = Some r" for h1
    by (auto simp: obind_def split: option.split result.split)
  then show ?thesis using h r by (auto simp: helper_Done_def helper_ok_def obind_def split: result.split)
qed

end
