(* ===== verification/PrivacyState.thy ===== *)
theory PrivacyState
  imports Rwset Sha256
begin

text \<open>
  \<open>core/ledger/kvledger/txmgmt/privacyenabledstate\<close> on the leveldb state database: one database holds the
  public state, the private state and the hashes of the private state, each collection in a
  namespace derived from its name.  The bookkeeper remembers which namespaces ever stored
  metadata, so that a lookup of metadata can skip the database; \<open>hint_ok\<close> says that skipping is
  sound, and committing keeps it so.  Leveldb supports byte strings as keys, so the base64 encoding
  that couchdb needs is not part of the model, and neither are its version cache and its indexes.
\<close>

section \<open>Batches per namespace and collection\<close>

type_synonym UpdateMap = "(string \<times> StateUpdateBatch) list"

record PrivUpdateBatch =
  PubUpdates :: StateUpdateBatch
  HashUpdates :: UpdateMap
  PvtUpdates :: UpdateMap

definition NewHashedUpdateBatch :: UpdateMap where "NewHashedUpdateBatch = []"

definition NewPvtUpdateBatch :: UpdateMap where "NewPvtUpdateBatch = []"

definition NewPubUpdateBatch :: StateUpdateBatch where "NewPubUpdateBatch = NewStateUpdateBatch"

definition NewPrivUpdateBatch :: PrivUpdateBatch where
  "NewPrivUpdateBatch = \<lparr>PubUpdates = NewPubUpdateBatch, HashUpdates = NewHashedUpdateBatch, PvtUpdates = NewPvtUpdateBatch\<rparr>"

definition um_IsEmpty :: "UpdateMap \<Rightarrow> bool" where
  "um_IsEmpty b = (length b = 0)"

definition getOrCreateNsBatch :: "string \<Rightarrow> UpdateMap \<Rightarrow> StateUpdateBatch" where
  "getOrCreateNsBatch ns b = (case map_of b ns of None \<Rightarrow> NewStateUpdateBatch | Some batch \<Rightarrow> batch)"

definition um_PutValAndMetadata ::
  "string \<Rightarrow> string \<Rightarrow> string \<Rightarrow> bytes option \<Rightarrow> bytes option \<Rightarrow> Height \<Rightarrow> UpdateMap \<Rightarrow> UpdateMap result" where
  "um_PutValAndMetadata ns coll key value metadata ver b =
     rbind (batch_PutValAndMetadata coll key value metadata ver (getOrCreateNsBatch ns b)) (\<lambda>batch. Ok (AList.update ns batch b))"

definition um_Put :: "string \<Rightarrow> string \<Rightarrow> string \<Rightarrow> bytes option \<Rightarrow> Height \<Rightarrow> UpdateMap \<Rightarrow> UpdateMap result" where
  "um_Put ns coll key value ver b = um_PutValAndMetadata ns coll key value None ver b"

definition um_Delete :: "string \<Rightarrow> string \<Rightarrow> string \<Rightarrow> Height \<Rightarrow> UpdateMap \<Rightarrow> UpdateMap" where
  "um_Delete ns coll key ver b = AList.update ns (batch_Delete coll key ver (getOrCreateNsBatch ns b)) b"

definition um_Get :: "string \<Rightarrow> string \<Rightarrow> string \<Rightarrow> UpdateMap \<Rightarrow> VersionedValue option" where
  "um_Get ns coll key b = (case map_of b ns of None \<Rightarrow> None | Some nsPvtBatch \<Rightarrow> batch_Get coll key nsPvtBatch)"

definition um_Contains :: "string \<Rightarrow> string \<Rightarrow> string \<Rightarrow> UpdateMap \<Rightarrow> bool" where
  "um_Contains ns coll key b = (case map_of b ns of None \<Rightarrow> False | Some nsBatch \<Rightarrow> batch_Exists coll key nsBatch)"

definition GetCollectionNames :: "StateUpdateBatch \<Rightarrow> string list" where
  "GetCollectionNames nsb = batch_GetUpdatedNamespaces nsb"

definition GetCollectionUpdates :: "string \<Rightarrow> StateUpdateBatch \<Rightarrow> (string \<times> VersionedValue) list" where
  "GetCollectionUpdates collName nsb = batch_GetUpdates collName nsb"

definition um_GetUpdatedNamespaces :: "UpdateMap \<Rightarrow> string list" where
  "um_GetUpdatedNamespaces b = map fst b"

definition hb_Contains :: "string \<Rightarrow> string \<Rightarrow> bytes \<Rightarrow> UpdateMap \<Rightarrow> bool" where
  "hb_Contains ns coll keyHash h = um_Contains ns coll (to_string keyHash) h"

definition PutValHashAndMetadata ::
  "string \<Rightarrow> string \<Rightarrow> bytes \<Rightarrow> bytes option \<Rightarrow> bytes option \<Rightarrow> Height \<Rightarrow> UpdateMap \<Rightarrow> UpdateMap result" where
  "PutValHashAndMetadata ns coll key value metadata ver h = um_PutValAndMetadata ns coll (to_string key) value metadata ver h"

definition hb_Put :: "string \<Rightarrow> string \<Rightarrow> bytes \<Rightarrow> bytes option \<Rightarrow> Height \<Rightarrow> UpdateMap \<Rightarrow> UpdateMap result" where
  "hb_Put ns coll key value ver h = PutValHashAndMetadata ns coll key value None ver h"

definition hb_Delete :: "string \<Rightarrow> string \<Rightarrow> bytes \<Rightarrow> Height \<Rightarrow> UpdateMap \<Rightarrow> UpdateMap" where
  "hb_Delete ns coll key ver h = um_Delete ns coll (to_string key) ver h"

text \<open>The entries of a batch, as \<open>ToCompositeKeyMap\<close> lists them.\<close>

definition ToCompositeKeyMap :: "UpdateMap \<Rightarrow> ((string \<times> string \<times> string) \<times> VersionedValue) list" where
  "ToCompositeKeyMap um =
     concat (map (\<lambda>(ns, nsBatch). concat (map (\<lambda>coll. map (\<lambda>(key, vv). ((ns, coll, key), vv)) (GetCollectionUpdates coll nsBatch))
       (GetCollectionNames nsBatch))) um)"

section \<open>Derived namespaces\<close>

definition nsJoiner :: string where "nsJoiner = ''$$''"
definition pvtDataPrefix :: string where "pvtDataPrefix = ''p''"
definition hashDataPrefix :: string where "hashDataPrefix = ''h''"

definition derivePvtDataNs :: "string \<Rightarrow> string \<Rightarrow> string" where
  "derivePvtDataNs ns coll = ns @ nsJoiner @ pvtDataPrefix @ coll"

definition deriveHashedDataNs :: "string \<Rightarrow> string \<Rightarrow> string" where
  "deriveHashedDataNs ns coll = ns @ nsJoiner @ hashDataPrefix @ coll"

definition add_entries :: "(string \<Rightarrow> string \<Rightarrow> string) \<Rightarrow> UpdateMap \<Rightarrow> StateUpdateBatch \<Rightarrow> StateUpdateBatch" where
  "add_entries derive um pub = fold (\<lambda>((ns, coll, key), vv). batch_Update (derive ns coll) key vv) (ToCompositeKeyMap um) pub"

definition addPvtUpdates :: "UpdateMap \<Rightarrow> StateUpdateBatch \<Rightarrow> StateUpdateBatch" where
  "addPvtUpdates = add_entries derivePvtDataNs"

definition addHashedUpdates :: "UpdateMap \<Rightarrow> StateUpdateBatch \<Rightarrow> StateUpdateBatch" where
  "addHashedUpdates = add_entries deriveHashedDataNs"

section \<open>The database\<close>

text \<open>
  \<open>PrivDB\<close> is the state database of a channel, its name, and the metadata hint: the namespaces in
  the cache and the bookkeeper's database with the name of its handle.
\<close>

record PrivDB =
  pd_db :: DB
  pd_dbName :: string
  mh_cache :: "string list"
  mh_bookkeeper :: DB
  mh_dbName :: string

fun hint_keys :: "(bytes \<times> bytes) list \<Rightarrow> string list result" where
  "hint_keys [] = Ok []"
| "hint_keys (kv # kvs) = rbind (Iterator_Key kv) (\<lambda>key. rbind (hint_keys kvs) (\<lambda>ks. Ok (to_string key # ks)))"

definition newMetadataHint :: "string \<Rightarrow> DB \<Rightarrow> string list result" where
  "newMetadataHint dbName bookkeeper = hint_keys (DBHandle_GetIterator dbName [] None bookkeeper)"

definition metadataEverUsedFor :: "string \<Rightarrow> PrivDB \<Rightarrow> bool" where
  "metadataEverUsedFor ns s = (ns \<in> set (mh_cache s))"

definition filterNamespacesThatHasMetadata :: "PrivUpdateBatch \<Rightarrow> string list" where
  "filterNamespacesThatHasMetadata updates = remdups
     (filter (\<lambda>ns. \<exists>(k, vv) \<in> set (batch_GetUpdates ns (PubUpdates updates)). vv_Metadata vv \<noteq> None)
        (batch_GetUpdatedNamespaces (PubUpdates updates)) @
      map (\<lambda>((ns, coll, key), vv). ns) (filter (\<lambda>(ck, vv). vv_Metadata vv \<noteq> None) (ToCompositeKeyMap (HashUpdates updates))))"

fun flag_namespaces :: "string list \<Rightarrow> string list \<times> UpdateBatch \<Rightarrow> (string list \<times> UpdateBatch) result" where
  "flag_namespaces [] (cache, batch) = Ok (cache, batch)"
| "flag_namespaces (ns # nss) (cache, batch) =
     (if ns \<in> set cache then flag_namespaces nss (cache, batch)
      else rbind (UpdateBatch_Put (to_bytes ns) (Some []) batch) (\<lambda>batch'. flag_namespaces nss (ns # cache, batch')))"

definition setMetadataUsedFlag :: "PrivUpdateBatch \<Rightarrow> (PrivDB, unit) io" where
  "setMetadataUsedFlag updates = (\<lambda>s.
     case flag_namespaces (filterNamespacesThatHasMetadata updates) (mh_cache s, NewUpdateBatch (mh_dbName s)) of
       Err e \<Rightarrow> (Err e, s)
     | Panic p \<Rightarrow> (Panic p, s)
     | Ok (cache, batch) \<Rightarrow>
         (case DBHandle_WriteBatch batch True (mh_bookkeeper s) of
            (r, db) \<Rightarrow> (r, s\<lparr>mh_cache := cache, mh_bookkeeper := db\<rparr>)))"

definition importNamespacesThatUseMetadata :: "string list \<Rightarrow> (PrivDB, unit) io" where
  "importNamespacesThatUseMetadata namespaces = (\<lambda>s.
     case rfold (\<lambda>ns. UpdateBatch_Put (to_bytes ns) (Some [])) namespaces (NewUpdateBatch (mh_dbName s)) of
       Err e \<Rightarrow> (Err e, s)
     | Panic p \<Rightarrow> (Panic p, s)
     | Ok batch \<Rightarrow> (case DBHandle_WriteBatch batch True (mh_bookkeeper s) of (r, db) \<Rightarrow> (r, s\<lparr>mh_bookkeeper := db\<rparr>)))"

definition pd_GetState :: "value_codec \<Rightarrow> string \<Rightarrow> string \<Rightarrow> PrivDB \<Rightarrow> VersionedValue option result" where
  "pd_GetState V ns key s = GetState V (pd_dbName s) ns key (pd_db s)"

definition pd_GetVersion :: "value_codec \<Rightarrow> string \<Rightarrow> string \<Rightarrow> PrivDB \<Rightarrow> Height option result" where
  "pd_GetVersion V ns key s = GetVersion V (pd_dbName s) ns key (pd_db s)"

definition GetPrivateData :: "value_codec \<Rightarrow> string \<Rightarrow> string \<Rightarrow> string \<Rightarrow> PrivDB \<Rightarrow> VersionedValue option result" where
  "GetPrivateData V ns coll key s = pd_GetState V (derivePvtDataNs ns coll) key s"

definition GetValueHash :: "value_codec \<Rightarrow> string \<Rightarrow> string \<Rightarrow> bytes \<Rightarrow> PrivDB \<Rightarrow> VersionedValue option result" where
  "GetValueHash V ns coll keyHash s = pd_GetState V (deriveHashedDataNs ns coll) (to_string keyHash) s"

definition GetPrivateDataHash :: "value_codec \<Rightarrow> string \<Rightarrow> string \<Rightarrow> string \<Rightarrow> PrivDB \<Rightarrow> VersionedValue option result" where
  "GetPrivateDataHash V ns coll key s = GetValueHash V ns coll (sha256 (to_bytes key)) s"

definition GetKeyHashVersion :: "value_codec \<Rightarrow> string \<Rightarrow> string \<Rightarrow> bytes \<Rightarrow> PrivDB \<Rightarrow> Height option result" where
  "GetKeyHashVersion V ns coll keyHash s = pd_GetVersion V (deriveHashedDataNs ns coll) (to_string keyHash) s"

definition GetPrivateDataMultipleKeys ::
  "value_codec \<Rightarrow> string \<Rightarrow> string \<Rightarrow> string list \<Rightarrow> PrivDB \<Rightarrow> VersionedValue option list result" where
  "GetPrivateDataMultipleKeys V ns coll keys s =
     GetStateMultipleKeys V (pd_dbName s) (derivePvtDataNs ns coll) keys (pd_db s)"

definition GetPrivateDataRangeScanIterator :: "string \<Rightarrow> string \<Rightarrow> string \<Rightarrow> string \<Rightarrow> PrivDB \<Rightarrow> kvScanner" where
  "GetPrivateDataRangeScanIterator ns coll startKey endKey s =
     GetStateRangeScanIterator (pd_dbName s) (derivePvtDataNs ns coll) startKey endKey (pd_db s)"

definition GetStateMetadata :: "value_codec \<Rightarrow> string \<Rightarrow> string \<Rightarrow> PrivDB \<Rightarrow> bytes option result" where
  "GetStateMetadata V ns key s =
     (if \<not> metadataEverUsedFor ns s then Ok None
      else rbind (pd_GetState V ns key s) (\<lambda>vv. Ok (case vv of None \<Rightarrow> None | Some v \<Rightarrow> vv_Metadata v)))"

definition GetPrivateDataMetadataByHash :: "value_codec \<Rightarrow> string \<Rightarrow> string \<Rightarrow> bytes \<Rightarrow> PrivDB \<Rightarrow> bytes option result" where
  "GetPrivateDataMetadataByHash V ns coll keyHash s =
     (if \<not> metadataEverUsedFor ns s then Ok None
      else rbind (GetValueHash V ns coll keyHash s) (\<lambda>vv. Ok (case vv of None \<Rightarrow> None | Some v \<Rightarrow> vv_Metadata v)))"

definition pd_ApplyUpdates :: "StateUpdateBatch \<Rightarrow> Height option \<Rightarrow> (PrivDB, unit) io" where
  "pd_ApplyUpdates batch height = (\<lambda>s. (Err (ErrMsg ''this function should not be invoked on this type. Please invoke function ApplyPrivacyAwareUpdates''), s))"

text \<open>
  \<open>combinedUpdates\<close> is the object \<open>updates.PubUpdates\<close>: the private and hashed entries are added to it
  in place, so the search for namespaces with metadata sees them too.
\<close>

definition ApplyPrivacyAwareUpdates :: "value_codec \<Rightarrow> PrivUpdateBatch \<Rightarrow> Height option \<Rightarrow> (PrivDB, unit) io" where
  "ApplyPrivacyAwareUpdates V updates height =
     (let combinedUpdates = addHashedUpdates (HashUpdates updates) (addPvtUpdates (PvtUpdates updates) (PubUpdates updates));
          updates' = updates\<lparr>PubUpdates := combinedUpdates\<rparr>
      in io_bind (setMetadataUsedFlag updates') (\<lambda>_. \<lambda>s.
         case ApplyUpdates V (pd_dbName s) combinedUpdates height (pd_db s) of (r, db) \<Rightarrow> (r, s\<lparr>pd_db := db\<rparr>)))"

section \<open>Lemmas on the batches\<close>

definition um_Update :: "string \<Rightarrow> string \<Rightarrow> string \<Rightarrow> VersionedValue \<Rightarrow> UpdateMap \<Rightarrow> UpdateMap" where
  "um_Update ns coll key vv um = AList.update ns (batch_Update coll key vv (getOrCreateNsBatch ns um)) um"

lemma um_PutValAndMetadata_Some [simp]:
  "um_PutValAndMetadata ns coll key (Some v) m h um =
     Ok (um_Update ns coll key \<lparr>vv_Value = Some v, vv_Metadata = m, vv_Version = Some h\<rparr> um)"
  by (simp add: um_PutValAndMetadata_def batch_PutValAndMetadata_def um_Update_def)

lemma um_PutValAndMetadata_None [simp]:
  "um_PutValAndMetadata ns coll key None m h um = Panic ''Nil value not allowed. Instead call 'Delete' function''"
  by (simp add: um_PutValAndMetadata_def batch_PutValAndMetadata_def)

lemma um_Delete_Update: "um_Delete ns coll key h um = um_Update ns coll key \<lparr>vv_Value = None, vv_Metadata = None, vv_Version = Some h\<rparr> um"
  by (simp add: um_Delete_def batch_Delete_def um_Update_def)

lemma um_Get_Nil [simp]: "um_Get ns coll key [] = None"
  by (simp add: um_Get_def)

lemma um_Get_Update [simp]:
  "um_Get ns' coll' key' (um_Update ns coll key vv um) =
     (if ns' = ns \<and> coll' = coll \<and> key' = key then Some vv else um_Get ns' coll' key' um)"
  by (simp add: um_Get_def um_Update_def getOrCreateNsBatch_def update_conv' split: option.split)

lemma um_Contains_iff [simp]: "um_Contains ns coll key um \<longleftrightarrow> um_Get ns coll key um \<noteq> None"
  by (simp add: um_Contains_def um_Get_def split: option.split)

definition um_wf :: "UpdateMap \<Rightarrow> bool" where
  "um_wf um \<longleftrightarrow> distinct (map fst um) \<and> (\<forall>(ns, b) \<in> set um. batch_wf b)"

lemma um_wf_Nil [simp]: "um_wf []"
  by (simp add: um_wf_def)

lemma um_wf_Update [simp]:
  assumes "um_wf um"
  shows "um_wf (um_Update ns coll key vv um)"
proof -
  have "batch_wf (getOrCreateNsBatch ns um)"
    using assms by (auto simp: getOrCreateNsBatch_def um_wf_def split: option.split dest!: map_of_SomeD)
  then show ?thesis using assms set_alist_update unfolding um_wf_def um_Update_def by (fastforce simp: distinct_update)
qed

lemma um_entries:
  assumes "um_wf um"
  shows "((ns, coll, key), vv) \<in> set (ToCompositeKeyMap um) \<longleftrightarrow> um_Get ns coll key um = Some vv"
proof -
  have wf: "batch_wf b" if "(n, b) \<in> set um" for n b using assms that by (auto simp: um_wf_def)
  have "((ns, coll, key), vv) \<in> set (ToCompositeKeyMap um) \<longleftrightarrow> (\<exists>b. (ns, b) \<in> set um \<and> batch_Get coll key b = Some vv)"
  proof
    assume "((ns, coll, key), vv) \<in> set (ToCompositeKeyMap um)"
    then obtain b where "(ns, b) \<in> set um" "(key, vv) \<in> set (batch_GetUpdates coll b)"
      by (auto simp: ToCompositeKeyMap_def GetCollectionUpdates_def)
    then show "\<exists>b. (ns, b) \<in> set um \<and> batch_Get coll key b = Some vv" using batch_updates_iff [OF wf] by blast
  next
    assume "\<exists>b. (ns, b) \<in> set um \<and> batch_Get coll key b = Some vv"
    then obtain b where b: "(ns, b) \<in> set um" "batch_Get coll key b = Some vv" by blast
    then have "(key, vv) \<in> set (batch_GetUpdates coll b)" "coll \<in> set (batch_GetUpdatedNamespaces b)"
      using batch_updates_iff [OF wf] batch_Get_namespace [of coll key b] by auto
    then show "((ns, coll, key), vv) \<in> set (ToCompositeKeyMap um)"
      using b(1) by (force simp: ToCompositeKeyMap_def GetCollectionNames_def GetCollectionUpdates_def)
  qed
  also have "\<dots> \<longleftrightarrow> um_Get ns coll key um = Some vv"
    using assms by (auto simp: um_Get_def um_wf_def split: option.split dest: eq_key_imp_eq_value)
  finally show ?thesis .
qed

section \<open>Derived namespaces are separate\<close>

text \<open>The names of chaincodes and collections have no dollar sign and no zero byte.\<close>

definition plain :: "string \<Rightarrow> bool" where
  "plain s \<longleftrightarrow> CHR ''$'' \<notin> set s \<and> ns_ok s"

lemma derive_inject:
  assumes "plain ns" "plain ns'"
  shows "deriveHashedDataNs ns coll = deriveHashedDataNs ns' coll' \<longleftrightarrow> ns = ns' \<and> coll = coll'"
    "derivePvtDataNs ns coll = derivePvtDataNs ns' coll' \<longleftrightarrow> ns = ns' \<and> coll = coll'"
    "deriveHashedDataNs ns coll \<noteq> derivePvtDataNs ns' coll'" "deriveHashedDataNs ns coll \<noteq> ns'" "derivePvtDataNs ns coll \<noteq> ns'"
proof -
  have t: "takeWhile (\<lambda>c. c \<noteq> CHR ''$'') (n @ CHR ''$'' # r) = n" if "plain n" for n r
    using that by (simp add: plain_def takeWhile_append)
  have *: "ns @ CHR ''$'' # r = ns' @ CHR ''$'' # r' \<longleftrightarrow> ns = ns' \<and> r = r'" for r r'
    by (metis t assms append_same_eq same_append_eq list.inject)
  show "deriveHashedDataNs ns coll = deriveHashedDataNs ns' coll' \<longleftrightarrow> ns = ns' \<and> coll = coll'"
    "derivePvtDataNs ns coll = derivePvtDataNs ns' coll' \<longleftrightarrow> ns = ns' \<and> coll = coll'"
    "deriveHashedDataNs ns coll \<noteq> derivePvtDataNs ns' coll'"
    by (simp_all add: deriveHashedDataNs_def derivePvtDataNs_def nsJoiner_def hashDataPrefix_def pvtDataPrefix_def *)
  show "deriveHashedDataNs ns coll \<noteq> ns'" "derivePvtDataNs ns coll \<noteq> ns'"
    using assms(2) by (auto simp: plain_def deriveHashedDataNs_def derivePvtDataNs_def nsJoiner_def)
qed

lemma derive_ok [simp]: "plain ns \<Longrightarrow> plain coll \<Longrightarrow> ns_ok (deriveHashedDataNs ns coll)" "plain ns \<Longrightarrow> plain coll \<Longrightarrow> ns_ok (derivePvtDataNs ns coll)"
  by (auto simp: plain_def ns_ok_def deriveHashedDataNs_def derivePvtDataNs_def nsJoiner_def hashDataPrefix_def pvtDataPrefix_def
      to_bytes_def byte_of_char_def)

lemma plain_ns_ok [simp]: "plain ns \<Longrightarrow> ns_ok ns"
  by (simp add: plain_def)

text \<open>Every entry of the batch has plain names and can be stored.\<close>

definition um_storable :: "UpdateMap \<Rightarrow> bool" where
  "um_storable um \<longleftrightarrow> um_wf um \<and> (\<forall>ns coll key vv. um_Get ns coll key um = Some vv \<longrightarrow> plain ns \<and> plain coll \<and> (vv_Value vv = None \<or> stored vv))"

definition plain_storable :: "StateUpdateBatch \<Rightarrow> bool" where
  "plain_storable batch \<longleftrightarrow> storable batch \<and> (\<forall>ns key. batch_Get ns key batch \<noteq> None \<longrightarrow> plain ns)"

lemma um_storableD: "um_storable um \<Longrightarrow> um_Get ns coll key um = Some vv \<Longrightarrow> plain ns \<and> plain coll \<and> (vv_Value vv = None \<or> stored vv)"
  by (simp add: um_storable_def)

lemma map_of_entry_unique: "(k, v) \<in> set xs \<Longrightarrow> \<forall>(k', v') \<in> set xs. k' = k \<longrightarrow> v' = v \<Longrightarrow> map_of xs k = Some v"
  by (induction xs) (auto dest: map_of_SomeD)

lemma add_entries_Get:
  "batch_Get n key (add_entries derive um pub) =
     (case map_of (rev (map (\<lambda>((ns, coll, k), vv). ((derive ns coll, k), vv)) (ToCompositeKeyMap um))) (n, key) of
        None \<Rightarrow> batch_Get n key pub | Some vv \<Rightarrow> Some vv)"
proof -
  have "batch_Get n key (fold (\<lambda>((ns, coll, key), vv). batch_Update (derive ns coll) key vv) es pub) =
     (case map_of (rev (map (\<lambda>((ns, coll, k), vv). ((derive ns coll, k), vv)) es)) (n, key) of
        None \<Rightarrow> batch_Get n key pub | Some vv \<Rightarrow> Some vv)" for es
    by (induction es arbitrary: pub) (auto simp: map_add_def split: option.split)
  then show ?thesis by (simp add: add_entries_def)
qed

lemma add_entries_other:
  assumes "um_wf um" "\<And>ns coll. um_Get ns coll key um \<noteq> None \<Longrightarrow> derive ns coll \<noteq> n"
  shows "batch_Get n key (add_entries derive um pub) = batch_Get n key pub"
proof -
  have "(n, key) \<notin> fst ` set (map (\<lambda>((ns, coll, k), vv). ((derive ns coll, k), vv)) (ToCompositeKeyMap um))"
    using assms(2) um_entries [OF assms(1)] by fastforce
  then show ?thesis by (simp add: add_entries_Get map_of_eq_None_iff [THEN iffD2] del: set_map)
qed

lemma add_entries_derived:
  assumes wf: "um_wf um" and inj: "\<And>ns' coll'. um_Get ns' coll' key um \<noteq> None \<Longrightarrow> derive ns' coll' = derive ns coll \<Longrightarrow> ns' = ns \<and> coll' = coll"
  shows "batch_Get (derive ns coll) key (add_entries derive um pub) =
     (case um_Get ns coll key um of None \<Rightarrow> batch_Get (derive ns coll) key pub | Some vv \<Rightarrow> Some vv)"
proof (cases "um_Get ns coll key um")
  case None
  then show ?thesis using add_entries_other [OF wf, of key derive "derive ns coll"] inj by fastforce
next
  case (Some vv)
  let ?es = "map (\<lambda>((ns, coll, k), vv). ((derive ns coll, k), vv)) (ToCompositeKeyMap um)"
  have "((ns, coll, key), vv) \<in> set (ToCompositeKeyMap um)" using Some by (simp add: um_entries [OF wf])
  then have "((derive ns coll, key), vv) \<in> set (rev ?es)" by force
  moreover have "\<forall>(k', v') \<in> set (rev ?es). k' = (derive ns coll, key) \<longrightarrow> v' = vv"
    using inj Some um_entries [OF wf] by fastforce
  ultimately show ?thesis using map_of_entry_unique [of "(derive ns coll, key)" vv "rev ?es"] Some by (simp add: add_entries_Get)
qed

section \<open>The combined batch\<close>

definition combined :: "PrivUpdateBatch \<Rightarrow> StateUpdateBatch" where
  "combined updates = addHashedUpdates (HashUpdates updates) (addPvtUpdates (PvtUpdates updates) (PubUpdates updates))"

definition updates_ok :: "PrivUpdateBatch \<Rightarrow> bool" where
  "updates_ok updates \<longleftrightarrow> plain_storable (PubUpdates updates) \<and> um_storable (HashUpdates updates) \<and> um_storable (PvtUpdates updates)"

lemma combined_Get:
  assumes "updates_ok updates"
  shows "plain n \<Longrightarrow> batch_Get n key (combined updates) = batch_Get n key (PubUpdates updates)"
    "plain ns \<Longrightarrow> batch_Get (deriveHashedDataNs ns coll) key (combined updates) = um_Get ns coll key (HashUpdates updates)"
    "plain ns \<Longrightarrow> batch_Get (derivePvtDataNs ns coll) key (combined updates) = um_Get ns coll key (PvtUpdates updates)"
proof -
  let ?pub = "PubUpdates updates" and ?h = "HashUpdates updates" and ?p = "PvtUpdates updates"
  have wf: "um_wf ?h" "um_wf ?p" using assms by (simp_all add: updates_ok_def um_storable_def)
  have h: "um_Get ns coll key ?h \<noteq> None \<Longrightarrow> plain ns" and p: "um_Get ns coll key ?p \<noteq> None \<Longrightarrow> plain ns" for ns coll key
    using assms um_storableD unfolding updates_ok_def by blast+
  have pub: "plain n" if "batch_Get n key ?pub \<noteq> None" for n key using assms that by (auto simp: updates_ok_def plain_storable_def)
  have pub': "batch_Get (deriveHashedDataNs ns coll) key ?pub = None" "batch_Get (derivePvtDataNs ns coll) key ?pub = None"
    if "plain ns" for ns coll key using pub derive_inject(4,5) that by blast+
  have P: "batch_Get n key (addPvtUpdates ?p b) = batch_Get n key b" if "\<And>ns coll. plain ns \<Longrightarrow> derivePvtDataNs ns coll \<noteq> n" for n key b
    unfolding addPvtUpdates_def using that p by (intro add_entries_other [OF wf(2)]) blast
  have H: "batch_Get n key (addHashedUpdates ?h b) = batch_Get n key b" if "\<And>ns coll. plain ns \<Longrightarrow> deriveHashedDataNs ns coll \<noteq> n" for n key b
    unfolding addHashedUpdates_def using that h by (intro add_entries_other [OF wf(1)]) blast
  show "plain n \<Longrightarrow> batch_Get n key (combined updates) = batch_Get n key ?pub"
    unfolding combined_def by (subst H, metis derive_inject(4), subst P, metis derive_inject(5), rule refl)
  show "batch_Get (deriveHashedDataNs ns coll) key (combined updates) = um_Get ns coll key ?h" if ns: "plain ns"
  proof -
    have "batch_Get (deriveHashedDataNs ns coll) key (addPvtUpdates ?p ?pub) = None"
      by (subst P) (use ns pub' derive_inject(3) [of ns] in metis)+
    moreover have "ns' = ns \<and> coll' = coll" if "um_Get ns' coll' key ?h \<noteq> None" "deriveHashedDataNs ns' coll' = deriveHashedDataNs ns coll" for ns' coll'
      using that h ns derive_inject(1) by metis
    ultimately show ?thesis
      using add_entries_derived [OF wf(1), of key deriveHashedDataNs ns coll "addPvtUpdates ?p ?pub"]
      by (simp add: combined_def addHashedUpdates_def split: option.split)
  qed
  show "batch_Get (derivePvtDataNs ns coll) key (combined updates) = um_Get ns coll key ?p" if ns: "plain ns"
  proof -
    have "batch_Get (derivePvtDataNs ns coll) key (combined updates) = batch_Get (derivePvtDataNs ns coll) key (addPvtUpdates ?p ?pub)"
      unfolding combined_def by (rule H) (use ns derive_inject(3) in metis)
    moreover have "ns' = ns \<and> coll' = coll" if "um_Get ns' coll' key ?p \<noteq> None" "derivePvtDataNs ns' coll' = derivePvtDataNs ns coll" for ns' coll'
      using that p ns derive_inject(2) by metis
    ultimately show ?thesis
      using add_entries_derived [OF wf(2), of key derivePvtDataNs ns coll ?pub] pub'(2) [OF ns, of coll key]
      by (simp add: addPvtUpdates_def split: option.split)
  qed
qed

lemma add_entries_cases:
  assumes "um_wf um" "batch_Get n key (add_entries derive um pub) = Some vv"
  shows "(\<exists>ns coll. n = derive ns coll \<and> um_Get ns coll key um = Some vv) \<or> batch_Get n key pub = Some vv"
proof (cases "map_of (rev (map (\<lambda>((ns, coll, k), vv). ((derive ns coll, k), vv)) (ToCompositeKeyMap um))) (n, key)")
  case (Some vv')
  then obtain ns coll where "((ns, coll, key), vv') \<in> set (ToCompositeKeyMap um)" "n = derive ns coll" by (auto dest!: map_of_SomeD)
  then show ?thesis using Some assms(2) um_entries [OF assms(1)] by (auto simp: add_entries_Get)
qed (use assms(2) in \<open>simp add: add_entries_Get\<close>)

lemma add_entries_wf: "batch_wf pub \<Longrightarrow> batch_wf (add_entries derive um pub)"
proof -
  have "batch_wf pub \<Longrightarrow> batch_wf (fold (\<lambda>((ns, coll, key), vv). batch_Update (derive ns coll) key vv) es pub)" for es
    by (induction es arbitrary: pub) auto
  then show "batch_wf pub \<Longrightarrow> batch_wf (add_entries derive um pub)" by (simp add: add_entries_def)
qed

lemma combined_storable:
  assumes "updates_ok updates"
  shows "storable (combined updates)"
proof -
  have ok: "storable (PubUpdates updates)" "um_storable (HashUpdates updates)" "um_storable (PvtUpdates updates)"
    using assms by (simp_all add: updates_ok_def plain_storable_def)
  then have wf: "batch_wf (combined updates)" "um_wf (HashUpdates updates)" "um_wf (PvtUpdates updates)"
    by (simp_all add: combined_def addHashedUpdates_def addPvtUpdates_def add_entries_wf storable_def um_storable_def)
  have "ns_ok n \<and> (vv_Value vv = None \<or> stored vv)" if "batch_Get n key (combined updates) = Some vv" for n key vv
    using add_entries_cases [OF wf(2) that [unfolded combined_def addHashedUpdates_def]]
  proof
    assume "batch_Get n key (addPvtUpdates (PvtUpdates updates) (PubUpdates updates)) = Some vv"
    then show ?thesis using add_entries_cases [OF wf(3), of n key derivePvtDataNs "PubUpdates updates" vv] um_storableD [OF ok(3)] storable_ok [OF ok(1)]
      by (auto simp: addPvtUpdates_def) blast+
  qed (use um_storableD [OF ok(2)] derive_ok(1) in blast)
  then show ?thesis using wf(1) by (simp add: storable_def)
qed

section \<open>The metadata hint\<close>

lemma flag_namespaces_run:
  "\<exists>new. flag_namespaces nss (cache, b) = Ok (rev new @ cache, b\<lparr>ub_batch := ub_batch b @ map (\<lambda>ns. OpPut (constructLevelKey (ub_dbName b) (to_bytes ns)) []) new\<rparr>) \<and>
     set new = set nss - set cache"
proof (induction nss arbitrary: cache b)
  case (Cons ns nss)
  show ?case
  proof (cases "ns \<in> set cache")
    case True
    then show ?thesis using Cons [of cache b] by (auto simp: insert_Diff_if)
  next
    case False
    let ?b = "b\<lparr>ub_batch := ub_batch b @ [OpPut (constructLevelKey (ub_dbName b) (to_bytes ns)) []]\<rparr>"
    obtain new where "flag_namespaces nss (ns # cache, ?b) = Ok (rev new @ ns # cache, ?b\<lparr>ub_batch := ub_batch ?b @ map (\<lambda>ns. OpPut (constructLevelKey (ub_dbName ?b) (to_bytes ns)) []) new\<rparr>)"
      "set new = set nss - set (ns # cache)" using Cons [of "ns # cache" ?b] by blast
    then show ?thesis using False by (intro exI [of _ "ns # new"]) (auto simp: UpdateBatch_Put_def)
  qed
qed simp

text \<open>The cache holds the namespaces that the bookkeeper has recorded.\<close>

definition cache_persisted :: "PrivDB \<Rightarrow> bool" where
  "cache_persisted s \<longleftrightarrow> (\<forall>k. (k \<in> to_bytes ` set (mh_cache s)) = (DBHandle_Get (mh_dbName s) k (mh_bookkeeper s) \<noteq> None))"

lemma hint_keys_filter:
  assumes "db_name_ok n"
  shows "hint_keys (filter (\<lambda>kv. owns n (fst kv)) es) = Ok ks \<Longrightarrow> set ks = {to_string k |k. constructLevelKey n k \<in> fst ` set es}"
    "\<exists>ks. hint_keys (filter (\<lambda>kv. owns n (fst kv)) es) = Ok ks"
proof -
  have "\<exists>ks. hint_keys (filter (\<lambda>kv. owns n (fst kv)) es) = Ok ks \<and> set ks = {to_string k |k. constructLevelKey n k \<in> fst ` set es}"
  proof (induction es)
    case (Cons e es)
    then obtain ks where ks: "hint_keys (filter (\<lambda>kv. owns n (fst kv)) es) = Ok ks" "set ks = {to_string k |k. constructLevelKey n k \<in> fst ` set es}" by blast
    show ?case
    proof (cases "owns n (fst e)")
      case True
      then obtain k where k: "fst e = constructLevelKey n k" using owns_iff by blast
      then have "hint_keys (filter (\<lambda>kv. owns n (fst kv)) (e # es)) = Ok (to_string k # ks)" using ks(1) assms by (simp add: Iterator_Key_def)
      moreover have "set (to_string k # ks) = {to_string k |k. constructLevelKey n k \<in> fst ` set (e # es)}" using ks(2) k by auto
      ultimately show ?thesis by blast
    next
      case False
      then have "constructLevelKey n k \<noteq> fst e" for k using owns_constructLevelKey by metis
      then show ?thesis using False ks by auto
    qed
  qed simp
  then show "hint_keys (filter (\<lambda>kv. owns n (fst kv)) es) = Ok ks \<Longrightarrow> set ks = {to_string k |k. constructLevelKey n k \<in> fst ` set es}"
    "\<exists>ks. hint_keys (filter (\<lambda>kv. owns n (fst kv)) es) = Ok ks" by auto
qed

lemma newMetadataHint_cache:
  assumes "db_name_ok (mh_dbName s)" "cache_persisted s"
  shows "\<exists>ks. newMetadataHint (mh_dbName s) (mh_bookkeeper s) = Ok ks \<and> set ks = set (mh_cache s)"
proof -
  have "constructLevelKey (mh_dbName s) k \<in> fst ` set (entries (mh_bookkeeper s)) \<longleftrightarrow> k \<in> to_bytes ` set (mh_cache s)" for k
    using assms(2) map_of_eq_None_iff unfolding cache_persisted_def DBHandle_Get_def DB_Get_def by metis
  then have "{to_string k |k. constructLevelKey (mh_dbName s) k \<in> fst ` set (entries (mh_bookkeeper s))} = set (mh_cache s)"
    unfolding setcompr_eq_image by (simp add: image_image)
  moreover obtain ks where "hint_keys (filter (\<lambda>kv. owns (mh_dbName s) (fst kv)) (entries (mh_bookkeeper s))) = Ok ks"
    using hint_keys_filter(2) [OF assms(1)] by blast
  ultimately show ?thesis using hint_keys_filter(1) [OF assms(1)] unfolding newMetadataHint_def GetIterator_all by auto
qed

text \<open>Metadata of a namespace without a flag cannot exist, neither in its public state nor in the hashes of its collections.\<close>

definition hint_ok :: "state \<Rightarrow> PrivDB \<Rightarrow> bool" where
  "hint_ok S s \<longleftrightarrow> (\<forall>ns key vv. plain ns \<longrightarrow> vv_Metadata vv \<noteq> None \<longrightarrow>
     S ns key = Some vv \<or> (\<exists>coll. plain coll \<and> S (deriveHashedDataNs ns coll) key = Some vv) \<longrightarrow> ns \<in> set (mh_cache s))"

lemma filterNamespaces_complete:
  assumes "batch_wf (PubUpdates updates)" "um_wf (HashUpdates updates)" "vv_Metadata vv \<noteq> None"
    and "batch_Get ns key (PubUpdates updates) = Some vv \<or> um_Get ns coll key (HashUpdates updates) = Some vv"
  shows "ns \<in> set (filterNamespacesThatHasMetadata updates)"
  using assms(4)
proof
  assume b: "batch_Get ns key (PubUpdates updates) = Some vv"
  then have "(key, vv) \<in> set (batch_GetUpdates ns (PubUpdates updates))" "ns \<in> set (batch_GetUpdatedNamespaces (PubUpdates updates))"
    using batch_updates_iff [OF assms(1)] batch_Get_namespace [of ns key] by auto
  then show ?thesis using assms(3) by (auto simp: filterNamespacesThatHasMetadata_def)
next
  assume "um_Get ns coll key (HashUpdates updates) = Some vv"
  then have "((ns, coll, key), vv) \<in> set (ToCompositeKeyMap (HashUpdates updates))" by (simp add: um_entries [OF assms(2)])
  then show ?thesis using assms(3) by (force simp: filterNamespacesThatHasMetadata_def)
qed

lemma setMetadataUsedFlag_run:
  assumes "cache_persisted s" "db_faults (mh_bookkeeper s) = []"
  shows "\<exists>s'. setMetadataUsedFlag updates s = (Ok (), s') \<and> cache_persisted s' \<and> db_faults (mh_bookkeeper s') = [] \<and>
     set (mh_cache s') = set (mh_cache s) \<union> set (filterNamespacesThatHasMetadata updates) \<and>
     pd_db s' = pd_db s \<and> pd_dbName s' = pd_dbName s \<and> mh_dbName s' = mh_dbName s"
proof -
  obtain new where new: "flag_namespaces (filterNamespacesThatHasMetadata updates) (mh_cache s, NewUpdateBatch (mh_dbName s)) =
     Ok (rev new @ mh_cache s, \<lparr>ub_batch = map (\<lambda>ns. OpPut (constructLevelKey (mh_dbName s) (to_bytes ns)) []) new, ub_dbName = mh_dbName s\<rparr>)"
    "set new = set (filterNamespacesThatHasMetadata updates) - set (mh_cache s)"
    using flag_namespaces_run [of _ "mh_cache s" "NewUpdateBatch (mh_dbName s)"] by (fastforce simp: NewUpdateBatch_def)
  define ops :: batch where "ops = map (\<lambda>ns. OpPut (constructLevelKey (mh_dbName s) (to_bytes ns)) []) new"
  let ?bk = "(mh_bookkeeper s)\<lparr>entries := fold (kv_apply sput sdel) ops (entries (mh_bookkeeper s))\<rparr>"
  let ?s = "s\<lparr>mh_cache := rev new @ mh_cache s, mh_bookkeeper := ?bk\<rparr>"
  have w: "DBHandle_WriteBatch \<lparr>ub_batch = ops, ub_dbName = mh_dbName s\<rparr> True (mh_bookkeeper s) = (Ok (), ?bk)"
    using assms(2) by (cases ops) (simp_all add: DBHandle_WriteBatch_def)
  have run: "setMetadataUsedFlag updates s = (Ok (), ?s)"
    unfolding setMetadataUsedFlag_def new(1) ops_def [symmetric] by (simp add: w)
  have last: "last_op ops (constructLevelKey (mh_dbName s) k) = (if k \<in> to_bytes ` set new then Some (Some []) else None)" for k
  proof (cases "k \<in> to_bytes ` set new")
    case True
    then show ?thesis by (simp add: ops_def) (rule last_op_unique, auto simp: image_image)
  qed (auto simp: ops_def last_op_None)
  have "DBHandle_Get (mh_dbName s) k ?bk \<noteq> None \<longleftrightarrow> k \<in> to_bytes ` set new \<or> DBHandle_Get (mh_dbName s) k (mh_bookkeeper s) \<noteq> None" for k
    unfolding DBHandle_Get_def DB_Get_def by (simp add: contents.get_steps last)
  then have "cache_persisted ?s" using assms(1) by (auto simp: cache_persisted_def image_Un)
  then show ?thesis using run new(2) assms(2) by auto
qed

lemma ApplyPrivacyAwareUpdates_repr:
  assumes S: "state_repr V (pd_dbName s) S (pd_db s)" and u: "updates_ok updates" and h: "hint_ok S s" "cache_persisted s"
    and f: "db_faults (pd_db s) = []" "db_faults (mh_bookkeeper s) = []"
  shows "\<exists>s'. ApplyPrivacyAwareUpdates V updates (Some ht) s = (Ok (), s') \<and>
     state_repr V (pd_dbName s) (applied (combined updates) S) (pd_db s') \<and> hint_ok (applied (combined updates) S) s' \<and> cache_persisted s' \<and>
     GetLatestSavePoint (pd_dbName s) (pd_db s') = Ok (Some ht) \<and> db_faults (pd_db s') = [] \<and> db_faults (mh_bookkeeper s') = [] \<and>
     pd_dbName s' = pd_dbName s \<and> mh_dbName s' = mh_dbName s"
proof -
  let ?u = "updates\<lparr>PubUpdates := combined updates\<rparr>" and ?S = "applied (combined updates) S"
  have st: "storable (combined updates)" using combined_storable [OF u] .
  obtain s1 where s1: "setMetadataUsedFlag ?u s = (Ok (), s1)" "cache_persisted s1" "db_faults (mh_bookkeeper s1) = []"
    "set (mh_cache s1) = set (mh_cache s) \<union> set (filterNamespacesThatHasMetadata ?u)" "pd_db s1 = pd_db s" "pd_dbName s1 = pd_dbName s" "mh_dbName s1 = mh_dbName s"
    using setMetadataUsedFlag_run [OF h(2) f(2), of ?u] by blast
  obtain db' where db': "ApplyUpdates V (pd_dbName s) (combined updates) (Some ht) (pd_db s) = (Ok (), db')" "state_repr V (pd_dbName s) ?S db'"
    "GetLatestSavePoint (pd_dbName s) db' = Ok (Some ht)" "db_faults db' = []"
    using ApplyUpdates_repr [OF S st f(1)] by blast
  have run: "ApplyPrivacyAwareUpdates V updates (Some ht) s = (Ok (), s1\<lparr>pd_db := db'\<rparr>)"
    using s1(1,5,6) db'(1) by (simp add: ApplyPrivacyAwareUpdates_def combined_def io_bind_def Let_def)
  have wf: "batch_wf (PubUpdates ?u)" "um_wf (HashUpdates ?u)" using st u by (simp_all add: storable_def updates_ok_def um_storable_def)
  have "ns \<in> set (mh_cache s1)" if ns: "plain ns" and m: "vv_Metadata vv \<noteq> None"
    and a: "?S ns key = Some vv \<or> (\<exists>coll. plain coll \<and> ?S (deriveHashedDataNs ns coll) key = Some vv)" for ns key vv
  proof -
    have c: "batch_Get n key (combined updates) = Some vv \<or> S n key = Some vv" if "?S n key = Some vv" for n
      using that by (auto simp: applied_def split: option.splits if_splits)
    have "ns \<in> set (filterNamespacesThatHasMetadata ?u) \<or> S ns key = Some vv \<or> (\<exists>coll. plain coll \<and> S (deriveHashedDataNs ns coll) key = Some vv)"
      using a c filterNamespaces_complete [OF wf m, of ns key] combined_Get(2) [OF u ns] by auto metis
    then show ?thesis using h(1) ns m s1(4) unfolding hint_ok_def by blast
  qed
  then have "hint_ok ?S (s1\<lparr>pd_db := db'\<rparr>)" by (simp add: hint_ok_def)
  then show ?thesis using run s1 db' by (auto simp: cache_persisted_def)
qed

end
