(* ===== verification/RangeQuery.thy ===== *)
theory RangeQuery
  imports Rwset
begin

text \<open>
  Validation of range queries (\<open>core/ledger/kvledger/txmgmt/validation\<close>: \<open>combined_iterator.go\<close>,
  \<open>rangequery_validator.go\<close>).  The combined iterator walks over the committed state and the updates of
  the preceding transactions of the block at once; the two validators compare what it returns with
  what the transaction saw, as a list of reads or as a Merkle summary.  The validators take any
  \<open>ResultsIterator\<close>: their lemmas are proved in the locale \<open>results_iterator\<close> and used for the combined
  iterator.
\<close>

section \<open>The combined iterator\<close>

record combinedIterator =
  ci_ns :: string
  ci_endKey :: string
  ci_includeEndKey :: bool
  ci_dbItr :: kvScanner
  ci_updatesItr :: nsIterator
  ci_dbItem :: "VersionedKV option"
  ci_updatesItem :: "VersionedKV option"
  ci_endKeyServed :: bool

definition newCombinedIterator ::
  "value_codec \<Rightarrow> string \<Rightarrow> DB \<Rightarrow> StateUpdateBatch \<Rightarrow> string \<Rightarrow> string \<Rightarrow> string \<Rightarrow> bool \<Rightarrow> combinedIterator result" where
  "newCombinedIterator V dbName db updates ns startKey endKey includeEndKey =
     rbind (kvScanner_Next V (GetStateRangeScanIterator dbName ns startKey endKey db)) (\<lambda>(dbItem, dbItr).
     rbind (nsIterator_Next (GetRangeScanIterator ns startKey endKey updates)) (\<lambda>(updatesItem, updatesItr).
     Ok \<lparr>ci_ns = ns, ci_endKey = endKey, ci_includeEndKey = includeEndKey, ci_dbItr = dbItr, ci_updatesItr = updatesItr,
         ci_dbItem = dbItem, ci_updatesItem = updatesItem, ci_endKeyServed = False\<rparr>))"

definition compareKeys :: "VersionedKV option \<Rightarrow> VersionedKV option \<Rightarrow> int" where
  "compareKeys item1 item2 =
     (case item1 of
        None \<Rightarrow> (if item2 = None then 0 else 1)
      | Some a \<Rightarrow>
          (case item2 of
             None \<Rightarrow> - 1
           | Some b \<Rightarrow>
               if to_bytes (vkv_Key a) < to_bytes (vkv_Key b) then - 1
               else if vkv_Key a = vkv_Key b then 0 else 1))"

definition kv_isDelete :: "VersionedKV \<Rightarrow> bool" where
  "kv_isDelete item = (vv_Value (vkv_VersionedValue item) = None)"

definition serveEndKeyIfNeeded ::
  "value_codec \<Rightarrow> string \<Rightarrow> DB \<Rightarrow> StateUpdateBatch \<Rightarrow> combinedIterator \<Rightarrow> (VersionedKV option \<times> combinedIterator) result" where
  "serveEndKeyIfNeeded V dbName db updates itr =
     (if \<not> ci_includeEndKey itr \<or> ci_endKeyServed itr then Ok (None, itr)
      else
        rbind (case batch_Get (ci_ns itr) (ci_endKey itr) updates of
                 Some vv \<Rightarrow> Ok (Some vv)
               | None \<Rightarrow> GetState V dbName (ci_ns itr) (ci_endKey itr) db) (\<lambda>vv.
        let itr' = itr\<lparr>ci_endKeyServed := True\<rparr> in
        case vv of
          None \<Rightarrow> Ok (None, itr')
        | Some v \<Rightarrow>
            (let vkv = mk_kv (ci_ns itr) (ci_endKey itr) \<lparr>vv_Value = vv_Value v, vv_Metadata = None, vv_Version = vv_Version v\<rparr>
             in if kv_isDelete vkv then Ok (None, itr') else Ok (Some vkv, itr'))))"

definition move_items ::
  "value_codec \<Rightarrow> bool \<Rightarrow> bool \<Rightarrow> combinedIterator \<Rightarrow> combinedIterator result" where
  "move_items V moveDBItr moveUpdatesItr itr =
     rbind (if moveDBItr then rbind (kvScanner_Next V (ci_dbItr itr)) (\<lambda>(item, i). Ok (itr\<lparr>ci_dbItem := item, ci_dbItr := i\<rparr>)) else Ok itr) (\<lambda>itr1.
     if moveUpdatesItr then rbind (nsIterator_Next (ci_updatesItr itr1)) (\<lambda>(item, i). Ok (itr1\<lparr>ci_updatesItem := item, ci_updatesItr := i\<rparr>)) else Ok itr1)"

text \<open>How many items are still in the iterator and its two slots.\<close>

definition ci_size :: "combinedIterator \<Rightarrow> nat" where
  "ci_size itr = length (ks_dbItr (ci_dbItr itr)) + (ni_lastIndex (ci_updatesItr itr) - ni_nextIndex (ci_updatesItr itr)) +
     (if ci_dbItem itr = None then 0 else 1) + (if ci_updatesItem itr = None then 0 else 1)"

lemma kvScanner_Next_size: "kvScanner_Next V sc = Ok (item, sc') \<Longrightarrow>
    length (ks_dbItr sc') + (if item = None then 0 else 1) \<le> length (ks_dbItr sc)"
  by (auto simp: kvScanner_Next_def rbind_eq_Ok split: if_splits list.splits)

lemma nsIterator_Next_size: "nsIterator_Next i = Ok (item, i') \<Longrightarrow>
    (ni_lastIndex i' - ni_nextIndex i') + (if item = None then 0 else 1) \<le> ni_lastIndex i - ni_nextIndex i"
  by (auto simp: nsIterator_Next_def Let_def split: if_splits option.splits)

lemma move_items_size:
  assumes "move_items V d u itr = Ok itr'" "d \<longrightarrow> ci_dbItem itr \<noteq> None" "u \<longrightarrow> ci_updatesItem itr \<noteq> None" "d \<or> u"
  shows "ci_size itr' < ci_size itr"
  using assms
  by (auto simp: move_items_def ci_size_def rbind_eq_Ok split: if_splits
      dest!: kvScanner_Next_size nsIterator_Next_size)

function combinedIterator_Next ::
  "value_codec \<Rightarrow> string \<Rightarrow> DB \<Rightarrow> StateUpdateBatch \<Rightarrow> combinedIterator \<Rightarrow> (VersionedKV option \<times> combinedIterator) result" where
  "combinedIterator_Next V dbName db updates itr =
     (if ci_dbItem itr = None \<and> ci_updatesItem itr = None then serveEndKeyIfNeeded V dbName db updates itr
      else
        (let compResult = compareKeys (ci_dbItem itr) (ci_updatesItem itr);
             selectedItem = (if compResult = - 1 then ci_dbItem itr else ci_updatesItem itr);
             moveDBItr = (compResult = - 1 \<or> compResult = 0);
             moveUpdatesItr = (compResult = 0 \<or> compResult = 1)
         in case move_items V moveDBItr moveUpdatesItr itr of
              Err e \<Rightarrow> Err e
            | Panic p \<Rightarrow> Panic p
            | Ok itr' \<Rightarrow>
                (case selectedItem of
                   None \<Rightarrow> Panic ''nil pointer dereference''
                 | Some item \<Rightarrow>
                     if kv_isDelete item then combinedIterator_Next V dbName db updates itr' else Ok (Some item, itr'))))"
  by pat_completeness auto
termination
  by (relation "measure (\<lambda>(_, _, _, _, itr). ci_size itr)")
     (auto simp: compareKeys_def split: if_splits option.splits intro!: move_items_size)

declare combinedIterator_Next.simps [simp del]

section \<open>The validators\<close>

text \<open>\<open>convertToVersionHeight\<close> dereferences the version.\<close>

definition convertToVersionHeight :: "ProtoVersion option \<Rightarrow> Height result" where
  "convertToVersionHeight v =
     (case v of None \<Rightarrow> Panic ''nil pointer dereference'' | Some pv \<Rightarrow> Ok (NewHeight (pv_BlockNum pv) (pv_TxNum pv)))"

definition GetKvReads :: "RangeQueryInfo \<Rightarrow> KVRead list" where
  "GetKvReads rqi = (case rq_ReadsInfo rqi of Some (RawReads rs) \<Rightarrow> rs | _ \<Rightarrow> [])"

definition GetReadsMerkleHashes :: "RangeQueryInfo \<Rightarrow> QueryReadsMerkleSummary option" where
  "GetReadsMerkleHashes rqi = (case rq_ReadsInfo rqi of Some (ReadsMerkleHashes s) \<Rightarrow> Some s | _ \<Rightarrow> None)"

fun results_loop :: "('i \<Rightarrow> (VersionedKV option \<times> 'i) result) \<Rightarrow> KVRead list \<Rightarrow> VersionedKV option \<Rightarrow> 'i \<Rightarrow> bool result" where
  "results_loop nxt [] res itr = Ok (res = None)"
| "results_loop nxt (kvRead # rqResults) res itr =
     (case res of
        None \<Rightarrow> Ok False
      | Some r \<Rightarrow>
          if vkv_Key r \<noteq> kr_Key kvRead then Ok False
          else
            rbind (convertToVersionHeight (kr_Version kvRead)) (\<lambda>h.
            if \<not> AreSame (vkv_Version r) (Some h) then Ok False
            else rbind (nxt itr) (\<lambda>(res', itr'). results_loop nxt rqResults res' itr')))"

definition results_validate :: "('i \<Rightarrow> (VersionedKV option \<times> 'i) result) \<Rightarrow> RangeQueryInfo \<Rightarrow> 'i \<Rightarrow> bool result" where
  "results_validate nxt rqInfo itr = rbind (nxt itr) (\<lambda>(res, itr'). results_loop nxt (GetKvReads rqInfo) res itr')"

definition merkleSummariesEqual :: "QueryReadsMerkleSummary \<Rightarrow> QueryReadsMerkleSummary option \<Rightarrow> bool" where
  "merkleSummariesEqual ms anotherMS =
     (case anotherMS of
        None \<Rightarrow> False
      | Some m \<Rightarrow> ms_MaxDegree ms = ms_MaxDegree m \<and> ms_MaxLevel ms = ms_MaxLevel m \<and> ms_MaxLevelHashes ms = ms_MaxLevelHashes m)"

text \<open>An index beyond the hashes of the tree under construction panics.\<close>

partial_function (option) hash_loop ::
  "results_hashing \<Rightarrow> ('i \<Rightarrow> (VersionedKV option \<times> 'i) result) \<Rightarrow> QueryReadsMerkleSummary \<Rightarrow> int \<Rightarrow> RangeQueryResultsHelper \<Rightarrow> 'i \<Rightarrow>
     bool result option" where
  "hash_loop H nxt inMerkle lastMatchedIndex helper itr =
     (case nxt itr of
        Err e \<Rightarrow> Some (Err e)
      | Panic p \<Rightarrow> Some (Panic p)
      | Ok (res, itr') \<Rightarrow>
          (case res of
             None \<Rightarrow> obind (helper_Done H helper) (\<lambda>(_, merkle). Some (Ok (merkleSummariesEqual inMerkle merkle)))
           | Some r \<Rightarrow>
               (case AddResult H (NewKVRead (vkv_Key r) (vkv_Version r)) helper of
                  None \<Rightarrow> None
                | Some (Err e) \<Rightarrow> Some (Err e)
                | Some (Panic p) \<Rightarrow> Some (Panic p)
                | Some (Ok helper') \<Rightarrow>
                    (case GetMerkleSummary helper' of
                       None \<Rightarrow> Some (Panic ''nil pointer dereference'')
                     | Some merkle \<Rightarrow>
                         if ms_MaxLevel merkle < ms_MaxLevel inMerkle then hash_loop H nxt inMerkle lastMatchedIndex helper' itr'
                         else if lastMatchedIndex = int (length (ms_MaxLevelHashes merkle)) - 1
                         then hash_loop H nxt inMerkle lastMatchedIndex helper' itr'
                         else if length (ms_MaxLevelHashes merkle) > length (ms_MaxLevelHashes inMerkle) then Some (Ok False)
                         else
                           (let i = lastMatchedIndex + 1 in
                            if i \<ge> int (length (ms_MaxLevelHashes merkle)) \<or> i \<ge> int (length (ms_MaxLevelHashes inMerkle))
                            then Some (Panic ''index out of range'')
                            else if ms_MaxLevelHashes merkle ! nat i \<noteq> ms_MaxLevelHashes inMerkle ! nat i then Some (Ok False)
                            else hash_loop H nxt inMerkle i helper' itr')))))"

declare hash_loop.simps [code]

definition hash_validate ::
  "results_hashing \<Rightarrow> ('i \<Rightarrow> (VersionedKV option \<times> 'i) result) \<Rightarrow> QueryReadsMerkleSummary \<Rightarrow> 'i \<Rightarrow> bool result option" where
  "hash_validate H nxt inMerkle itr =
     obind (Some (NewRangeQueryResultsHelper True (ms_MaxDegree inMerkle))) (\<lambda>helper. hash_loop H nxt inMerkle (- 1) helper itr)"

section \<open>What the validators decide\<close>

definition read_of :: "VersionedKV \<Rightarrow> KVRead" where
  "read_of kv = NewKVRead (vkv_Key kv) (vkv_Version kv)"

lemma merkleSummariesEqual_iff [simp]: "merkleSummariesEqual s s' \<longleftrightarrow> s' = Some s"
  by (cases s) (auto simp: merkleSummariesEqual_def split: option.split)

lemma read_of_eq_iff:
  "vkv_Version kv \<noteq> None \<Longrightarrow>
     read_of kv = r \<longleftrightarrow> vkv_Key kv = kr_Key r \<and> (\<exists>h. convertToVersionHeight (kr_Version r) = Ok h \<and> vkv_Version kv = Some h)"
  by (cases r) (auto simp: read_of_def NewKVRead_def convertToVersionHeight_def newProtoVersion_def NewHeight_def split: option.splits)

definition finish :: "results_hashing \<Rightarrow> KVRead list \<Rightarrow> RangeQueryResultsHelper \<Rightarrow> QueryReadsMerkleSummary option result option" where
  "finish H reads h = obind (feed H reads h) (\<lambda>h'. obind (helper_Done H h') (\<lambda>(_, s). Some (Ok s)))"

lemma finish_grows:
  assumes "finish H reads h = Some (Ok (Some s))" "helper_ok h m"
  shows "\<exists>m'. s = getSummery m' \<and> grows m m'"
proof -
  obtain h' p where h': "feed H reads h = Some (Ok h')" "helper_Done H h' = Some (Ok (p, Some s))"
    using assms(1) by (auto simp: finish_def obind_Ok)
  then show ?thesis using feed_ok [OF h'(1) assms(2)] helper_Done_ok [OF h'(2)] grows_trans by meson
qed

text \<open>How far the hashes of the tree under construction have been compared.\<close>

definition compared :: "QueryReadsMerkleSummary \<Rightarrow> merkleTree \<Rightarrow> int \<Rightarrow> bool" where
  "compared inM m i \<longleftrightarrow> - 1 \<le> i \<and> (mt_maxLevel m < ms_MaxLevel inM \<longrightarrow> i = - 1) \<and>
     (mt_maxLevel m = ms_MaxLevel inM \<longrightarrow> i < int (length (tree_level m (mt_maxLevel m))))"

lemma compared_step:
  assumes "compared inM m i" "grows m m1" "inM = getSummery mf" "grows m1 mf" "\<not> mt_maxLevel m1 < ms_MaxLevel inM"
    and "i \<noteq> int (length (tree_level m1 (mt_maxLevel m1))) - 1"
  shows "\<exists>hs. ms_MaxLevelHashes inM = tree_level m1 (mt_maxLevel m1) @ hs" "i + 1 < int (length (tree_level m1 (mt_maxLevel m1)))"
  using assms by (auto simp: compared_def grows_def getSummery_def) (simp_all add: add_pos_nonneg add_nonneg_pos)

text \<open>The validator as a recursion over the items of its iterator.\<close>

fun hash_list :: "results_hashing \<Rightarrow> QueryReadsMerkleSummary \<Rightarrow> int \<Rightarrow> RangeQueryResultsHelper \<Rightarrow> VersionedKV list \<Rightarrow> bool result option" where
  "hash_list H inM i h [] = obind (helper_Done H h) (\<lambda>(_, merkle). Some (Ok (merkleSummariesEqual inM merkle)))"
| "hash_list H inM i h (r # rs) =
     (case AddResult H (read_of r) h of
        None \<Rightarrow> None
      | Some (Err e) \<Rightarrow> Some (Err e)
      | Some (Panic p) \<Rightarrow> Some (Panic p)
      | Some (Ok h') \<Rightarrow>
          (case GetMerkleSummary h' of
             None \<Rightarrow> Some (Panic ''nil pointer dereference'')
           | Some merkle \<Rightarrow>
               let hs = ms_MaxLevelHashes merkle; hs' = ms_MaxLevelHashes inM in
               if ms_MaxLevel merkle < ms_MaxLevel inM \<or> i = int (length hs) - 1 then hash_list H inM i h' rs
               else if length hs > length hs' then Some (Ok False)
               else if i + 1 \<ge> int (length hs) \<or> i + 1 \<ge> int (length hs') then Some (Panic ''index out of range'')
               else if hs ! nat (i + 1) \<noteq> hs' ! nat (i + 1) then Some (Ok False)
               else hash_list H inM (i + 1) h' rs))"

context results_iterator
begin

lemma results_loop_iff:
  assumes "valid itr" "\<forall>kv \<in> set (items itr). vkv_Version kv \<noteq> None" "case res of None \<Rightarrow> items itr = [] | Some kv \<Rightarrow> vkv_Version kv \<noteq> None"
  shows "results_loop iter_next reads res itr = Ok True \<longleftrightarrow> reads = map read_of (case res of None \<Rightarrow> [] | Some kv \<Rightarrow> kv # items itr)"
  using assms
proof (induction reads arbitrary: res itr)
  case Nil
  then show ?case by (cases res) auto
next
  case (Cons r reads)
  show ?case
  proof (cases res)
    case (Some kv)
    then have kv: "vkv_Version kv \<noteq> None" using Cons.prems by simp
    obtain itr' where n: "iter_next itr = Ok (if items itr = [] then None else Some (hd (items itr)), itr')" "items itr' = tl (items itr)" "valid itr'"
      using next_step [OF Cons.prems(1)] by blast
    have "results_loop iter_next reads (if items itr = [] then None else Some (hd (items itr))) itr' = Ok True \<longleftrightarrow> reads = map read_of (items itr)"
      using Cons.IH [OF n(3), of "if items itr = [] then None else Some (hd (items itr))"] n(2) Cons.prems(2) by (cases "items itr") auto
    then show ?thesis using Some n(1) read_of_eq_iff [OF kv, of r]
      by (auto simp: rbind_eq_Ok eq_commute [of r] split: if_splits)
  qed simp
qed

lemma results_validate_iff:
  assumes "valid itr" "\<forall>kv \<in> set (items itr). vkv_Version kv \<noteq> None"
  shows "results_validate iter_next rqi itr = Ok True \<longleftrightarrow> GetKvReads rqi = map read_of (items itr)"
proof -
  obtain itr' where n: "iter_next itr = Ok (if items itr = [] then None else Some (hd (items itr)), itr')" "items itr' = tl (items itr)" "valid itr'"
    using next_step [OF assms(1)] by blast
  then show ?thesis using results_loop_iff [OF n(3), of "if items itr = [] then None else Some (hd (items itr))"] assms(2)
    by (cases "items itr") (auto simp: results_validate_def)
qed

lemma results_loop_Ok:
  assumes "valid itr" "\<forall>r \<in> set reads. kr_Version r \<noteq> None"
  shows "\<exists>b. results_loop iter_next reads res itr = Ok b"
  using assms
proof (induction reads arbitrary: res itr)
  case (Cons r reads)
  obtain itr' where n: "iter_next itr = Ok (if items itr = [] then None else Some (hd (items itr)), itr')" "valid itr'"
    using next_step [OF Cons.prems(1)] by blast
  obtain h where "convertToVersionHeight (kr_Version r) = Ok h" using Cons.prems(2) by (auto simp: convertToVersionHeight_def)
  then show ?case using n Cons.IH [OF n(2)] Cons.prems(2) by (cases res) auto
qed simp

lemma results_validate_Ok:
  assumes "valid itr" "\<forall>r \<in> set (GetKvReads rqi). kr_Version r \<noteq> None"
  shows "\<exists>b. results_validate iter_next rqi itr = Ok b"
proof -
  obtain itr' where n: "iter_next itr = Ok (if items itr = [] then None else Some (hd (items itr)), itr')" "valid itr'"
    using next_step [OF assms(1)] by blast
  then show ?thesis using results_loop_Ok [OF n(2) assms(2)] by (auto simp: results_validate_def)
qed

lemma hash_loop_iff:
  assumes "valid itr" "helper_ok h m" "compared inM m i"
  shows "hash_loop H iter_next inM i h itr = Some (Ok True) \<longleftrightarrow> finish H (map read_of (items itr)) h = Some (Ok (Some inM))"
  using assms
proof (induction "items itr" arbitrary: itr h m i)
  case Nil
  obtain itr' where "iter_next itr = Ok (None, itr')" using next_Nil [OF Nil(2)] Nil(1) by metis
  then show ?case using Nil(1) by (subst hash_loop.simps) (auto simp: finish_def obind_Ok)
next
  case (Cons kv kvs)
  obtain itr' where n: "iter_next itr = Ok (Some kv, itr')" "items itr' = kvs" "valid itr'"
    using next_Cons [OF Cons.prems(1)] Cons.hyps(2) by metis
  show ?case
  proof (cases "\<exists>h1. AddResult H (read_of kv) h = Some (Ok h1)")
    case False
    then show ?thesis using n(1) Cons.hyps(2) [symmetric]
      by (subst hash_loop.simps) (auto simp: finish_def obind_Ok read_of_def split: option.split result.split)
  next
    case True
    then obtain h1 m1 where h1: "AddResult H (read_of kv) h = Some (Ok h1)" "helper_ok h1 m1" "grows m m1"
      using AddResult_ok Cons.prems(2) by blast
    let ?hs = "tree_level m1 (mt_maxLevel m1)" and ?F = "finish H (map read_of kvs) h1 = Some (Ok (Some inM))"
    have fin: "finish H (map read_of (items itr)) h = finish H (map read_of kvs) h1"
      using h1(1) Cons.hyps(2) [symmetric] by (simp add: finish_def)
    have sum: "GetMerkleSummary h1 = Some (getSummery m1)" using h1(2) by (simp add: GetMerkleSummary_def helper_ok_def)
    have IH: "compared inM m1 j \<Longrightarrow> hash_loop H iter_next inM j h1 itr' = Some (Ok True) \<longleftrightarrow> ?F" for j
      using Cons.hyps(1) [OF n(2) [symmetric] n(3) h1(2)] n(2) by blast
    have step: "(\<exists>hs. ms_MaxLevelHashes inM = ?hs @ hs) \<and> i + 1 < int (length ?hs)"
      if "?F" "\<not> mt_maxLevel m1 < ms_MaxLevel inM" "i \<noteq> int (length ?hs) - 1"
      using finish_grows [OF that(1) h1(2)] compared_step [OF Cons.prems(3) h1(3) _ _ that(2,3)] by blast
    have c1: "compared inM m1 i" if "mt_maxLevel m1 < ms_MaxLevel inM \<or> i = int (length ?hs) - 1"
      using that Cons.prems(3) h1(3) by (auto simp: compared_def grows_def)
    have c2: "compared inM m1 (i + 1)" if "\<not> mt_maxLevel m1 < ms_MaxLevel inM" "i + 1 < int (length ?hs)"
      using that Cons.prems(3) by (auto simp: compared_def)
    have nn: "- 1 \<le> i" using Cons.prems(3) by (simp add: compared_def)
    show ?thesis unfolding fin
      using n(1) h1(1) sum IH [of i] IH [of "i + 1"] c1 c2 step nn
      by (subst hash_loop.simps) (auto simp: read_of_def getSummery_def Let_def nth_append nat_less_iff split: if_splits)
  qed
qed

lemma hash_validate_iff:
  assumes "valid itr"
  shows "hash_validate H iter_next inM itr = Some (Ok True) \<longleftrightarrow>
     results_summary H (ms_MaxDegree inM) (map read_of (items itr)) = Some (Ok (Some inM))"
proof (cases "NewRangeQueryResultsHelper True (ms_MaxDegree inM)")
  case (Ok h)
  then obtain m where m: "helper_ok h m" "mt_maxLevel m = 1" "\<forall>l. tree_level m l = []" using helper_ok_new by blast
  then have "compared inM m (- 1)" by (simp add: compared_def)
  then show ?thesis using Ok hash_loop_iff [OF assms m(1)] by (simp add: hash_validate_def results_summary_def finish_def)
qed (simp_all add: hash_validate_def results_summary_def)

lemma hash_loop_returns:
  assumes "valid itr" "helper_ok h m"
  shows "\<exists>r. hash_loop H iter_next inM i h itr = Some r"
  using assms
proof (induction "items itr" arbitrary: itr h m i)
  case Nil
  obtain itr' where "iter_next itr = Ok (None, itr')" using next_Nil [OF Nil(2)] Nil(1) by metis
  moreover obtain r where "helper_Done H h = Some r" using helper_Done_returns [OF Nil(3)] by blast
  ultimately show ?case by (subst hash_loop.simps) (auto simp: obind_def split: result.split)
next
  case (Cons kv kvs)
  obtain itr' where n: "iter_next itr = Ok (Some kv, itr')" "items itr' = kvs" "valid itr'"
    using next_Cons [OF Cons.prems(1)] Cons.hyps(2) by metis
  obtain r where r: "AddResult H (NewKVRead (vkv_Key kv) (vkv_Version kv)) h = Some r" using AddResult_returns [OF Cons.prems(2)] by blast
  show ?case
  proof (cases r)
    case (Ok h1)
    then obtain m1 where m1: "helper_ok h1 m1" using AddResult_ok r Cons.prems(2) by blast
    then have "GetMerkleSummary h1 = Some (getSummery m1)" by (simp add: GetMerkleSummary_def helper_ok_def)
    then show ?thesis using n(1) r Ok Cons.hyps(1) [OF n(2) [symmetric] n(3) m1] by (subst hash_loop.simps) (auto simp: Let_def)
  qed (use n(1) r in \<open>subst hash_loop.simps, simp\<close>)+
qed

lemma hash_loop_list: "valid itr \<Longrightarrow> hash_loop H iter_next inM i h itr = hash_list H inM i h (items itr)"
proof (induction "items itr" arbitrary: itr h i)
  case Nil
  obtain itr' where "iter_next itr = Ok (None, itr')" using next_Nil [OF Nil(2)] Nil(1) by metis
  then show ?case using Nil(1) by (subst hash_loop.simps) simp
next
  case (Cons kv kvs)
  obtain itr' where n: "iter_next itr = Ok (Some kv, itr')" "items itr' = kvs" "valid itr'"
    using next_Cons [OF Cons.prems] Cons.hyps(2) by metis
  have IH: "hash_loop H iter_next inM j h' itr' = hash_list H inM j h' kvs" for j h'
    using Cons.hyps(1) [OF n(2) [symmetric] n(3)] n(2) by simp
  show ?case unfolding Cons.hyps(2) [symmetric] using n(1)
    by (subst hash_loop.simps) (simp add: IH Let_def read_of_def split: option.split result.split)
qed

lemma hash_validate_returns: "valid itr \<Longrightarrow> \<exists>r. hash_validate H iter_next inM itr = Some r"
  using hash_loop_returns helper_ok_new by (cases "NewRangeQueryResultsHelper True (ms_MaxDegree inM)") (fastforce simp: hash_validate_def)+

end

section \<open>What the combined iterator returns\<close>

fun merge_items :: "VersionedKV list \<Rightarrow> VersionedKV list \<Rightarrow> VersionedKV list" where
  "merge_items [] us = us"
| "merge_items ds [] = ds"
| "merge_items (d # ds) (u # us) =
     (if to_bytes (vkv_Key d) < to_bytes (vkv_Key u) then d # merge_items ds (u # us)
      else if vkv_Key d = vkv_Key u then u # merge_items ds us
      else u # merge_items (d # ds) us)"

lemma merge_items_Nil [simp]: "merge_items ds [] = ds"
  by (cases ds) simp_all

definition db_rest :: "value_codec \<Rightarrow> combinedIterator \<Rightarrow> VersionedKV list" where
  "db_rest V itr = (case ci_dbItem itr of None \<Rightarrow> [] | Some d \<Rightarrow> d # ks_items V (ci_dbItr itr))"

definition updates_rest :: "combinedIterator \<Rightarrow> VersionedKV list" where
  "updates_rest itr = (case ci_updatesItem itr of None \<Rightarrow> [] | Some u \<Rightarrow> u # ns_items (ci_updatesItr itr))"

definition end_item :: "value_codec \<Rightarrow> string \<Rightarrow> DB \<Rightarrow> StateUpdateBatch \<Rightarrow> combinedIterator \<Rightarrow> VersionedKV list" where
  "end_item V dbName db updates itr =
     (case serveEndKeyIfNeeded V dbName db updates itr of Ok (Some kv, _) \<Rightarrow> [kv] | _ \<Rightarrow> [])"

definition comb_items :: "value_codec \<Rightarrow> string \<Rightarrow> DB \<Rightarrow> StateUpdateBatch \<Rightarrow> combinedIterator \<Rightarrow> VersionedKV list" where
  "comb_items V dbName db updates itr =
     filter (\<lambda>kv. \<not> kv_isDelete kv) (merge_items (db_rest V itr) (updates_rest itr)) @ end_item V dbName db updates itr"

definition comb_valid :: "value_codec \<Rightarrow> string \<Rightarrow> DB \<Rightarrow> StateUpdateBatch \<Rightarrow> combinedIterator \<Rightarrow> bool" where
  "comb_valid V dbName db updates itr \<longleftrightarrow> ks_valid V (ci_dbItr itr) \<and> ns_valid (ci_updatesItr itr) \<and>
     (ci_dbItem itr = None \<longrightarrow> ks_items V (ci_dbItr itr) = []) \<and> (ci_updatesItem itr = None \<longrightarrow> ns_items (ci_updatesItr itr) = []) \<and>
     (\<exists>v. GetState V dbName (ci_ns itr) (ci_endKey itr) db = Ok v)"

lemma move_items_valid:
  assumes v: "comb_valid V dbName db updates itr" and d: "d \<longrightarrow> ci_dbItem itr \<noteq> None" and u: "u \<longrightarrow> ci_updatesItem itr \<noteq> None"
  shows "\<exists>itr'. move_items V d u itr = Ok itr' \<and> comb_valid V dbName db updates itr' \<and>
     db_rest V itr' = (if d then tl (db_rest V itr) else db_rest V itr) \<and>
     updates_rest itr' = (if u then tl (updates_rest itr) else updates_rest itr) \<and>
     end_item V dbName db updates itr' = end_item V dbName db updates itr"
proof -
  have K: "ks_valid V (ci_dbItr itr)" "ns_valid (ci_updatesItr itr)" using v by (simp_all add: comb_valid_def)
  obtain i where i: "kvScanner_Next V (ci_dbItr itr) = Ok (if ks_items V (ci_dbItr itr) = [] then None else Some (hd (ks_items V (ci_dbItr itr))), i)"
    "ks_items V i = tl (ks_items V (ci_dbItr itr))" "ks_valid V i" using ks_iter.next_step [OF K(1)] by blast
  obtain j where j: "nsIterator_Next (ci_updatesItr itr) = Ok (if ns_items (ci_updatesItr itr) = [] then None else Some (hd (ns_items (ci_updatesItr itr))), j)"
    "ns_items j = tl (ns_items (ci_updatesItr itr))" "ns_valid j" using ns_iter.next_step [OF K(2)] by blast
  show ?thesis using v d u i j
    by (cases d; cases u)
       (auto simp: move_items_def comb_valid_def db_rest_def updates_rest_def end_item_def serveEndKeyIfNeeded_def Let_def
         split: option.split if_splits)
qed

lemma serveEndKey_step:
  assumes v: "comb_valid V dbName db updates itr" and i: "ci_dbItem itr = None" "ci_updatesItem itr = None"
  shows "\<exists>itr'. serveEndKeyIfNeeded V dbName db updates itr = Ok (if comb_items V dbName db updates itr = [] then None
       else Some (hd (comb_items V dbName db updates itr)), itr') \<and>
     comb_items V dbName db updates itr' = tl (comb_items V dbName db updates itr) \<and> comb_valid V dbName db updates itr'"
proof -
  obtain x where x: "GetState V dbName (ci_ns itr) (ci_endKey itr) db = Ok x" using v by (auto simp: comb_valid_def)
  let ?itr = "\<lambda>b. itr\<lparr>ci_endKeyServed := b\<rparr>"
  have c: "comb_items V dbName db updates (?itr b) = end_item V dbName db updates (?itr b)" for b
    using i by (simp add: comb_items_def db_rest_def updates_rest_def)
  have w: "comb_valid V dbName db updates (?itr b)" for b using v by (simp add: comb_valid_def)
  obtain kv b where s: "serveEndKeyIfNeeded V dbName db updates itr = Ok (kv, ?itr b)" "end_item V dbName db updates (?itr b) = []"
  proof (cases "\<not> ci_includeEndKey itr \<or> ci_endKeyServed itr")
    case True
    then show ?thesis using that [of None "ci_endKeyServed itr"] by (simp add: serveEndKeyIfNeeded_def end_item_def)
  next
    case False
    have e: "end_item V dbName db updates (?itr True) = []" by (simp add: serveEndKeyIfNeeded_def end_item_def)
    have "\<exists>kv. serveEndKeyIfNeeded V dbName db updates itr = Ok (kv, ?itr True)"
      using False x by (simp add: serveEndKeyIfNeeded_def Let_def split: option.split)
    then show ?thesis using that [OF _ e] by blast
  qed
  moreover have "comb_items V dbName db updates itr = (case kv of None \<Rightarrow> [] | Some k \<Rightarrow> [k])"
    using c [of "ci_endKeyServed itr"] s(1) by (simp add: end_item_def split: option.split)
  ultimately show ?thesis using c [of b] w [of b] by (cases kv) auto
qed

lemma comb_step:
  assumes "comb_valid V dbName db updates itr"
  shows "\<exists>itr'. combinedIterator_Next V dbName db updates itr = Ok (if comb_items V dbName db updates itr = [] then None
       else Some (hd (comb_items V dbName db updates itr)), itr') \<and>
     comb_items V dbName db updates itr' = tl (comb_items V dbName db updates itr) \<and> comb_valid V dbName db updates itr'"
  using assms
proof (induction "ci_size itr" arbitrary: itr rule: less_induct)
  case less
  show ?case
  proof (cases "ci_dbItem itr = None \<and> ci_updatesItem itr = None")
    case True
    then show ?thesis using serveEndKey_step [OF less.prems] by (subst combinedIterator_Next.simps) simp
  next
    case False
    let ?c = "compareKeys (ci_dbItem itr) (ci_updatesItem itr)"
    let ?d = "?c = - 1 \<or> ?c = 0" and ?u = "?c = 0 \<or> ?c = 1" and ?sel = "if ?c = - 1 then ci_dbItem itr else ci_updatesItem itr"
    have du: "?d \<longrightarrow> ci_dbItem itr \<noteq> None" "?u \<longrightarrow> ci_updatesItem itr \<noteq> None" "?d \<or> ?u"
      using False by (auto simp: compareKeys_def split: option.splits if_splits)
    obtain itr' where m: "move_items V ?d ?u itr = Ok itr'" "comb_valid V dbName db updates itr'"
      "db_rest V itr' = (if ?d then tl (db_rest V itr) else db_rest V itr)"
      "updates_rest itr' = (if ?u then tl (updates_rest itr) else updates_rest itr)"
      "end_item V dbName db updates itr' = end_item V dbName db updates itr"
      using move_items_valid [OF less.prems du(1,2)] by blast
    have "merge_items (db_rest V itr) (updates_rest itr) = the ?sel # merge_items (db_rest V itr') (updates_rest itr')" "?sel \<noteq> None"
      using False unfolding m(3,4)
      by (auto simp: compareKeys_def db_rest_def updates_rest_def split: option.splits if_splits)
    then obtain x where x: "?sel = Some x" "merge_items (db_rest V itr) (updates_rest itr) = x # merge_items (db_rest V itr') (updates_rest itr')" by auto
    then have c: "comb_items V dbName db updates itr = (if kv_isDelete x then [] else [x]) @ comb_items V dbName db updates itr'"
      by (simp add: comb_items_def m(5))
    have n: "combinedIterator_Next V dbName db updates itr =
        (if kv_isDelete x then combinedIterator_Next V dbName db updates itr' else Ok (Some x, itr'))"
      using False m(1) x(1) by (subst combinedIterator_Next.simps) (auto simp: Let_def split del: if_split)
    show ?thesis using less.hyps [OF move_items_size [OF m(1) du] m(2)] c n m(2) by (cases "kv_isDelete x") auto
  qed
qed

interpretation comb_iter: results_iterator "combinedIterator_Next V dbName db updates" "comb_items V dbName db updates" "comb_valid V dbName db updates"
  for V dbName db updates
proof
  fix itr kv kvs
  assume v: "comb_valid V dbName db updates itr"
  show "\<exists>itr'. combinedIterator_Next V dbName db updates itr = Ok (None, itr') \<and> comb_items V dbName db updates itr' = [] \<and>
      comb_valid V dbName db updates itr'" if "comb_items V dbName db updates itr = []"
    using comb_step [OF v] that by simp
  show "\<exists>itr'. combinedIterator_Next V dbName db updates itr = Ok (Some kv, itr') \<and> comb_items V dbName db updates itr' = kvs \<and>
      comb_valid V dbName db updates itr'" if "comb_items V dbName db updates itr = kv # kvs"
    using comb_step [OF v] that by simp
qed

text \<open>Merging keeps the order, and an update hides the committed item with its key.\<close>

abbreviation keys_sorted :: "VersionedKV list \<Rightarrow> bool" where
  "keys_sorted \<equiv> sorted_wrt (\<lambda>a b. to_bytes (vkv_Key a) < to_bytes (vkv_Key b))"

lemma set_merge_items:
  assumes "keys_sorted ds" "keys_sorted us"
  shows "set (merge_items ds us) = set us \<union> {d \<in> set ds. vkv_Key d \<notin> vkv_Key ` set us}"
  using assms by (induction ds us rule: merge_items.induct) (auto dest: less_trans)

lemma merge_items_sorted: "keys_sorted ds \<Longrightarrow> keys_sorted us \<Longrightarrow> keys_sorted (merge_items ds us)"
proof (induction ds us rule: merge_items.induct)
  case (3 d ds u us)
  have "to_bytes (vkv_Key u) < to_bytes (vkv_Key d)" if "\<not> to_bytes (vkv_Key d) < to_bytes (vkv_Key u)" "vkv_Key d \<noteq> vkv_Key u"
    using that by (metis linorder_cases to_bytes_inject)
  then show ?case using 3 by (fastforce simp: set_merge_items)
qed simp_all

section \<open>The combined iterator scans the state with the updates\<close>

lemma kvs_of_sorted: "scan_of f P ks \<Longrightarrow> keys_sorted (kvs_of ns f ks)"
  by (simp add: scan_of_def kvs_of_def sorted_wrt_map)

lemma updates_scan:
  assumes "batch_wf updates"
  shows "scan_of (\<lambda>k. batch_Get ns k updates) (in_range startKey endKey)
       (filter (in_range startKey endKey) (GetSortedKeys (batch_GetUpdates ns updates)))"
proof -
  let ?ks = "GetSortedKeys (batch_GetUpdates ns updates)"
  have d: "distinct ?ks" using batch_GetUpdates_distinct [OF assms] by (simp add: GetSortedKeys_def)
  have "sorted_wrt (\<lambda>a b. to_bytes a \<le> to_bytes b) ?ks" by (rule sorted_GetSortedKeys)
  then have "sorted_wrt (\<lambda>a b. to_bytes a < to_bytes b) ?ks"
    using d by (auto simp: sorted_wrt_iff_nth_less nth_eq_iff_index_eq less_le)
  moreover have "k \<in> set ?ks \<longleftrightarrow> batch_Get ns k updates \<noteq> None" for k
    by (simp add: batch_GetUpdates_map [symmetric] map_of_eq_None_iff)
  ultimately show ?thesis by (auto simp: scan_of_def sorted_wrt_filter)
qed

lemma newCombinedIterator_items:
  assumes V: "value_codec_laws V" and S: "state_repr V dbName S db" and n: "db_name_ok dbName" "ns_ok ns" and u: "batch_wf updates"
  shows "\<exists>itr ks us. newCombinedIterator V dbName db updates ns startKey endKey inc = Ok itr \<and> comb_valid V dbName db updates itr \<and>
     scan_of (S ns) (in_range startKey endKey) ks \<and> scan_of (\<lambda>k. batch_Get ns k updates) (in_range startKey endKey) us \<and>
     comb_items V dbName db updates itr =
       filter (\<lambda>kv. \<not> kv_isDelete kv) (merge_items (kvs_of ns (S ns) ks) (kvs_of ns (\<lambda>k. batch_Get ns k updates) us)) @
       (if inc then case applied updates S ns endKey of None \<Rightarrow> [] | Some v \<Rightarrow> [mk_kv ns endKey \<lparr>vv_Value = vv_Value v, vv_Metadata = None, vv_Version = vv_Version v\<rparr>] else [])"
proof -
  let ?d = "GetStateRangeScanIterator dbName ns startKey endKey db" and ?u = "GetRangeScanIterator ns startKey endKey updates"
  obtain ks where ks: "ks_items V ?d = kvs_of ns (S ns) ks" "ks_valid V ?d" "scan_of (S ns) (in_range startKey endKey) ks"
    using range_scan [OF V S n] by blast
  let ?us = "filter (in_range startKey endKey) (GetSortedKeys (batch_GetUpdates ns updates))"
  have us: "ns_items ?u = kvs_of ns (\<lambda>k. batch_Get ns k updates) ?us" by (simp add: ns_items_range kvs_of_def)
  obtain d' where d': "kvScanner_Next V ?d = Ok (if ks_items V ?d = [] then None else Some (hd (ks_items V ?d)), d')"
    "ks_items V d' = tl (ks_items V ?d)" "ks_valid V d'" using ks_iter.next_step [OF ks(2)] by blast
  obtain u' where u': "nsIterator_Next ?u = Ok (if ns_items ?u = [] then None else Some (hd (ns_items ?u)), u')"
    "ns_items u' = tl (ns_items ?u)" "ns_valid u'" using ns_iter.next_step [OF ns_valid_range] by blast
  have g: "GetState V dbName ns endKey db = Ok (S ns endKey)" using GetState_repr [OF V S n(2)] .
  define itr where "itr = \<lparr>ci_ns = ns, ci_endKey = endKey, ci_includeEndKey = inc, ci_dbItr = d', ci_updatesItr = u',
    ci_dbItem = (if ks_items V ?d = [] then None else Some (hd (ks_items V ?d))),
    ci_updatesItem = (if ns_items ?u = [] then None else Some (hd (ns_items ?u))), ci_endKeyServed = False\<rparr>"
  have "newCombinedIterator V dbName db updates ns startKey endKey inc = Ok itr" by (simp add: newCombinedIterator_def d'(1) u'(1) itr_def)
  moreover have "comb_valid V dbName db updates itr" using d' u' g by (simp add: comb_valid_def itr_def)
  moreover have "db_rest V itr = kvs_of ns (S ns) ks" "updates_rest itr = kvs_of ns (\<lambda>k. batch_Get ns k updates) ?us"
    using d'(2) u'(2) ks(1) us by (auto simp: db_rest_def updates_rest_def itr_def)
  moreover have "stored v" if "S ns endKey = Some v" for v using that S by (simp add: state_repr_def)
  then have "end_item V dbName db updates itr =
      (if inc then case applied updates S ns endKey of None \<Rightarrow> [] | Some v \<Rightarrow> [mk_kv ns endKey \<lparr>vv_Value = vv_Value v, vv_Metadata = None, vv_Version = vv_Version v\<rparr>] else [])"
    using g by (auto simp: end_item_def serveEndKeyIfNeeded_def itr_def applied_def kv_isDelete_def stored_def Let_def split: option.split)
  ultimately show ?thesis using ks(3) updates_scan [OF u] by (intro exI [of _ itr] exI [of _ ks] exI [of _ ?us]) (simp add: comb_items_def)
qed

lemma set_merged:
  assumes S: "\<And>k v. S ns k = Some v \<Longrightarrow> stored v" and ks: "scan_of (S ns) P ks" and us: "scan_of (\<lambda>k. batch_Get ns k updates) P us"
  shows "kv \<in> set (filter (\<lambda>kv. \<not> kv_isDelete kv) (merge_items (kvs_of ns (S ns) ks) (kvs_of ns (\<lambda>k. batch_Get ns k updates) us))) \<longleftrightarrow>
     (\<exists>k v. kv = mk_kv ns k v \<and> P k \<and> applied updates S ns k = Some v)"
proof -
  have s: "kv \<in> set (kvs_of ns f l) \<longleftrightarrow> (\<exists>k v. kv = mk_kv ns k v \<and> P k \<and> f k = Some v)" if "scan_of f P l" for f l
    using that by (simp add: scan_of_def kvs_of_def image_iff) (metis option.sel)
  have k: "vkv_Key ` set (kvs_of ns (\<lambda>k. batch_Get ns k updates) us) = set us" by (force simp: kvs_of_def)
  have d: "\<not> kv_isDelete (mk_kv ns k v)" if "S ns k = Some v" for k v using S [OF that] by (simp add: kv_isDelete_def stored_def)
  have m: "set (merge_items (kvs_of ns (S ns) ks) (kvs_of ns (\<lambda>k. batch_Get ns k updates) us)) =
      set (kvs_of ns (\<lambda>k. batch_Get ns k updates) us) \<union> {d \<in> set (kvs_of ns (S ns) ks). vkv_Key d \<notin> set us}"
    using set_merge_items [OF kvs_of_sorted [OF ks, of ns] kvs_of_sorted [OF us, of ns]] unfolding k .
  have iff: "kv \<in> set (filter (\<lambda>kv. \<not> kv_isDelete kv) (merge_items (kvs_of ns (S ns) ks) (kvs_of ns (\<lambda>k. batch_Get ns k updates) us))) \<longleftrightarrow>
      (\<exists>k v. kv = mk_kv ns k v \<and> P k \<and> batch_Get ns k updates = Some v \<and> vv_Value v \<noteq> None) \<or>
      (\<exists>k v. kv = mk_kv ns k v \<and> P k \<and> S ns k = Some v \<and> k \<notin> set us)"
    unfolding set_filter m mem_Collect_eq Un_iff s [OF ks] s [OF us] using d by (auto simp: kv_isDelete_def)
  have u: "k \<notin> set us \<longleftrightarrow> batch_Get ns k updates = None" if "P k" for k using us that by (auto simp: scan_of_def)
  have "applied updates S ns k = Some v \<longleftrightarrow> batch_Get ns k updates = Some v \<and> vv_Value v \<noteq> None \<or> S ns k = Some v \<and> k \<notin> set us"
    if "P k" for k v unfolding u [OF that] by (auto simp: applied_def split: option.split)
  then show ?thesis unfolding iff by blast
qed

definition end_kv :: "string \<Rightarrow> string \<Rightarrow> VersionedValue option \<Rightarrow> VersionedKV list" where
  "end_kv ns endKey vv = (case vv of None \<Rightarrow> []
     | Some v \<Rightarrow> [mk_kv ns endKey \<lparr>vv_Value = vv_Value v, vv_Metadata = None, vv_Version = vv_Version v\<rparr>])"

lemma scan_with_end:
  assumes xs: "\<And>kv. kv \<in> set xs \<longleftrightarrow> (\<exists>k v. kv = mk_kv ns k v \<and> in_range startKey endKey k \<and> A k = Some v)"
    and s: "keys_sorted xs" and e: "endKey \<noteq> '''' \<or> \<not> inc" and st: "\<forall>k v. A k = Some v \<longrightarrow> stored v"
  defines "ys \<equiv> xs @ (if inc then end_kv ns endKey (A endKey) else [])"
  shows "scan_of A (\<lambda>k. in_range startKey endKey k \<or> inc \<and> k = endKey) (map vkv_Key ys)"
    "map read_of ys = map (\<lambda>k. NewKVRead k (vv_Version (the (A k)))) (map vkv_Key ys)" "\<forall>kv \<in> set ys. vkv_Version kv \<noteq> None"
proof -
  have ys: "kv \<in> set ys \<Longrightarrow> \<exists>k v. vkv_Key kv = k \<and> A k = Some v \<and> vkv_Version kv = vv_Version v" for kv
    by (cases "A endKey") (auto simp: ys_def xs end_kv_def split: if_splits)
  have "keys_sorted ys"
    using s e by (auto simp: ys_def sorted_wrt_append xs end_kv_def in_range_def split: option.split)
  moreover have "k \<in> set (map vkv_Key ys) \<longleftrightarrow> (in_range startKey endKey k \<or> inc \<and> k = endKey) \<and> A k \<noteq> None" for k
  proof -
    have "k \<in> vkv_Key ` set xs \<longleftrightarrow> in_range startKey endKey k \<and> A k \<noteq> None"
      unfolding image_iff Bex_def xs by (cases "A k") (auto intro: exI [of _ "mk_kv ns k (the (A k))"])
    moreover have "k \<in> vkv_Key ` set (end_kv ns endKey v) \<longleftrightarrow> k = endKey \<and> v \<noteq> None" for v
      by (auto simp: end_kv_def split: option.split)
    ultimately show ?thesis by (cases inc; cases "k = endKey") (simp_all add: ys_def image_Un, blast)
  qed
  ultimately show "scan_of A (\<lambda>k. in_range startKey endKey k \<or> inc \<and> k = endKey) (map vkv_Key ys)"
    unfolding scan_of_def sorted_wrt_map by blast
  show "map read_of ys = map (\<lambda>k. NewKVRead k (vv_Version (the (A k)))) (map vkv_Key ys)"
    using ys by (fastforce simp: read_of_def)
  show "\<forall>kv \<in> set ys. vkv_Version kv \<noteq> None" using ys st by (force simp: stored_def)
qed

lemma comb_scan:
  assumes V: "value_codec_laws V" and S: "state_repr V dbName S db" and n: "db_name_ok dbName" "ns_ok ns" and u: "storable updates"
    and e: "endKey \<noteq> '''' \<or> \<not> inc"
  shows "\<exists>itr ks. newCombinedIterator V dbName db updates ns startKey endKey inc = Ok itr \<and> comb_valid V dbName db updates itr \<and>
     scan_of (applied updates S ns) (\<lambda>k. in_range startKey endKey k \<or> inc \<and> k = endKey) ks \<and>
     map read_of (comb_items V dbName db updates itr) = map (\<lambda>k. NewKVRead k (vv_Version (the (applied updates S ns k)))) ks \<and>
     (\<forall>kv \<in> set (comb_items V dbName db updates itr). vkv_Version kv \<noteq> None)"
proof -
  let ?A = "applied updates S ns" and ?P = "in_range startKey endKey" and ?U = "\<lambda>k. batch_Get ns k updates"
  have stS: "stored v" if "S ns k = Some v" for k v using that S by (simp add: state_repr_def)
  have wf: "batch_wf updates" using u by (simp add: storable_def)
  obtain itr ks us where i: "newCombinedIterator V dbName db updates ns startKey endKey inc = Ok itr" "comb_valid V dbName db updates itr"
    "scan_of (S ns) ?P ks" "scan_of ?U ?P us"
    "comb_items V dbName db updates itr = filter (\<lambda>kv. \<not> kv_isDelete kv) (merge_items (kvs_of ns (S ns) ks) (kvs_of ns ?U us)) @
       (if inc then end_kv ns endKey (?A endKey) else [])"
    using newCombinedIterator_items [OF V S n wf, of startKey endKey inc] unfolding end_kv_def by blast
  let ?xs = "filter (\<lambda>kv. \<not> kv_isDelete kv) (merge_items (kvs_of ns (S ns) ks) (kvs_of ns ?U us))"
  have sorted: "keys_sorted ?xs"
    by (rule sorted_wrt_filter) (rule merge_items_sorted [OF kvs_of_sorted [OF i(3)] kvs_of_sorted [OF i(4)]])
  have mem: "kv \<in> set ?xs \<longleftrightarrow> (\<exists>k v. kv = mk_kv ns k v \<and> ?P k \<and> ?A k = Some v)" for kv
    using set_merged [where S = S and ns = ns and updates = updates and P = ?P and ks = ks and us = us and kv = kv] stS i(3,4) by blast
  have st: "\<forall>k v. ?A k = Some v \<longrightarrow> stored v" using applied_stored [OF S u] by blast
  show ?thesis using i(1,2) scan_with_end [where A = ?A and inc = inc, OF mem sorted e st, folded i(5)] by blast
qed

section \<open>A phantom can crash the validator\<close>

text \<open>
  A recorded summary of six results with degree 2 has two hashes at its first level.  When the range
  now has nine results that start with the same six, the third hash makes the tree grow by a
  level; the validator has matched index 1 and reads index 2 of the one hash at the new level.
\<close>

lemma hash_list_panics:
  assumes "\<And>b. hashFunc H b = Ok (f b)" "results_summary H 2 (map read_of [a1, a2, a3, a4, a5, a6]) = Some (Ok (Some s))"
  shows "obind (Some (NewRangeQueryResultsHelper True 2)) (\<lambda>h. hash_list H s (- 1) h [a1, a2, a3, a4, a5, a6, b1, b2, b3]) = Some (Panic ''index out of range'')"
    "ms_MaxDegree s = 2"
proof -
  note defs = NewRangeQueryResultsHelper_def newMerkleTree_def AddResult_def processPendingResults_def mt_update_def
    serializeKVReads_def computeCombinedHash_def tree_level_def set_level_def delete_level_def leafLevel_def update_loop.simps
    GetMerkleSummary_def getSummery_def assms(1) Let_def helper_Done_def mt_isEmpty_def mt_done_def done_loop.simps
  have s: "s = \<lparr>ms_MaxDegree = 2, ms_MaxLevel = 1,
      ms_MaxLevelHashes = [f (marshal_QueryReads H (map read_of [a1, a2, a3])), f (marshal_QueryReads H (map read_of [a4, a5, a6]))]\<rparr>"
    using assms(2) by (simp add: results_summary_def defs)
  show "obind (Some (NewRangeQueryResultsHelper True 2)) (\<lambda>h. hash_list H s (- 1) h [a1, a2, a3, a4, a5, a6, b1, b2, b3]) = Some (Panic ''index out of range'')"
    unfolding s by (simp add: defs)
  show "ms_MaxDegree s = 2" by (simp add: s)
qed

lemma hash_validation_panics:
  assumes "comb_valid V dbName db updates itr" "\<And>b. hashFunc H b = Ok (f b)"
    and "comb_items V dbName db updates itr = [a1, a2, a3, a4, a5, a6, b1, b2, b3]"
    and "results_summary H 2 (map read_of [a1, a2, a3, a4, a5, a6]) = Some (Ok (Some s))"
  shows "hash_validate H (combinedIterator_Next V dbName db updates) s itr = Some (Panic ''index out of range'')"
  using hash_list_panics [OF assms(2,4)] comb_iter.hash_loop_list [OF assms(1)] assms(3) by (simp add: hash_validate_def)

end
