(* ===== verification/Mvcc.thy ===== *)
theory Mvcc
  imports PrivacyState RangeQuery
begin

unbundle bit_operations_syntax

text \<open>
  The validation of a block against the committed state
  (\<open>core/ledger/kvledger/txmgmt/validation\<close>: \<open>types.go\<close>, \<open>tx_ops.go\<close>, \<open>validator.go\<close>).  The transactions are
  checked one after the other against the state database and the updates collected so far; a valid
  transaction adds its writes.  The operations are pure functions of the database, which validation
  only reads, and of the batch of updates.  A call may not return (the Merkle tree of a range query),
  so the functions above it have the type \<open>'a result option\<close>.  Leveldb is not bulk optimizable, so the
  versions of the read set are not loaded in advance.
\<close>

section \<open>Blocks and updates (types.go)\<close>

definition TxValidationCode_VALID :: int where "TxValidationCode_VALID = 0"
definition TxValidationCode_MVCC_READ_CONFLICT :: int where "TxValidationCode_MVCC_READ_CONFLICT = 11"
definition TxValidationCode_PHANTOM_READ_CONFLICT :: int where "TxValidationCode_PHANTOM_READ_CONFLICT = 12"

record transaction =
  tx_indexInBlock :: nat
  tx_id :: string
  tx_rwset :: TxRwSet
  tx_validationCode :: int
  tx_containsPostOrderWrites :: bool

record mvcc_block =
  mb_num :: uint64
  mb_txs :: "transaction list"

record publicAndHashUpdates =
  publicUpdates :: StateUpdateBatch
  hashUpdates :: UpdateMap

definition newPubAndHashUpdates :: publicAndHashUpdates where
  "newPubAndHashUpdates = \<lparr>publicUpdates = NewPubUpdateBatch, hashUpdates = NewHashedUpdateBatch\<rparr>"

definition containsPvtWrites :: "transaction \<Rightarrow> bool" where
  "containsPvtWrites t = list_ex (\<lambda>ns. list_ex (\<lambda>coll. PvtRwSetHash coll \<noteq> None) (CollHashedRwSets ns)) (NsRwSets (tx_rwset t))"

definition retrieveHash :: "transaction \<Rightarrow> string \<Rightarrow> string \<Rightarrow> bytes option" where
  "retrieveHash t ns coll =
     (case concat (map (\<lambda>nsData. if NameSpace nsData \<noteq> ns then [] else filter (\<lambda>collData. CollectionName collData = coll) (CollHashedRwSets nsData))
        (NsRwSets (tx_rwset t))) of
        [] \<Rightarrow> None
      | collData # _ \<Rightarrow> PvtRwSetHash collData)"

section \<open>The operations of a transaction (tx\_ops.go)\<close>

text \<open>
  What the validator takes from elsewhere: the codec of stored values, hashing and marshalling
  of range query results, and the marshalling of metadata entries (\<open>statemetadata.Serialize\<close>).
\<close>

record validation_params =
  vp_values :: value_codec
  vp_hashing :: results_hashing
  vp_Serialize :: "KVMetadataEntry list \<Rightarrow> bytes result"

type_synonym keyOpsFlag = "8 word"

definition upsertVal :: keyOpsFlag where "upsertVal = 1"
definition metadataUpdate :: keyOpsFlag where "metadataUpdate = 2"
definition metadataDelete :: keyOpsFlag where "metadataDelete = 4"
definition keyDelete :: keyOpsFlag where "keyDelete = 8"

record compositeKey =
  cp_ns :: string
  cp_coll :: string
  cp_key :: string

record keyOps =
  ko_flag :: keyOpsFlag
  ko_value :: "bytes option"
  ko_metadata :: "bytes option"

type_synonym txOps = "(compositeKey \<times> keyOps) list"

definition mk_ck :: "string \<Rightarrow> string \<Rightarrow> string \<Rightarrow> compositeKey" where
  "mk_ck ns coll key = \<lparr>cp_ns = ns, cp_coll = coll, cp_key = key\<rparr>"

definition getOrCreateKeyEntry :: "compositeKey \<Rightarrow> txOps \<Rightarrow> keyOps" where
  "getOrCreateKeyEntry k txops =
     (case map_of txops k of None \<Rightarrow> \<lparr>ko_flag = 0, ko_value = None, ko_metadata = None\<rparr> | Some keyops \<Rightarrow> keyops)"

definition ops_upsert :: "compositeKey \<Rightarrow> bytes option \<Rightarrow> txOps \<Rightarrow> txOps" where
  "ops_upsert k val txops =
     (let keyops = getOrCreateKeyEntry k txops
      in AList.update k (keyops\<lparr>ko_flag := ko_flag keyops + upsertVal, ko_value := val\<rparr>) txops)"

definition ops_delete :: "compositeKey \<Rightarrow> txOps \<Rightarrow> txOps" where
  "ops_delete k txops =
     (let keyops = getOrCreateKeyEntry k txops in AList.update k (keyops\<lparr>ko_flag := ko_flag keyops + keyDelete\<rparr>) txops)"

definition ops_metadataUpdate :: "compositeKey \<Rightarrow> bytes \<Rightarrow> txOps \<Rightarrow> txOps" where
  "ops_metadataUpdate k metadata txops =
     (let keyops = getOrCreateKeyEntry k txops
      in AList.update k (keyops\<lparr>ko_flag := ko_flag keyops + metadataUpdate, ko_metadata := Some metadata\<rparr>) txops)"

definition ops_metadataDelete :: "compositeKey \<Rightarrow> txOps \<Rightarrow> txOps" where
  "ops_metadataDelete k txops =
     (let keyops = getOrCreateKeyEntry k txops in AList.update k (keyops\<lparr>ko_flag := ko_flag keyops + metadataDelete\<rparr>) txops)"

definition ko_isDelete :: "keyOps \<Rightarrow> bool" where
  "ko_isDelete keyops = (ko_flag keyops AND keyDelete = keyDelete)"

definition isUpsertAndMetadataUpdate :: "keyOps \<Rightarrow> bool" where
  "isUpsertAndMetadataUpdate keyops =
     (if ko_flag keyops AND upsertVal = upsertVal then
        ko_flag keyops AND metadataUpdate = metadataUpdate \<or> ko_flag keyops AND metadataDelete = metadataDelete
      else False)"

definition isOnlyUpsert :: "keyOps \<Rightarrow> bool" where
  "isOnlyUpsert keyops = (ko_flag keyops OR upsertVal = upsertVal)"

definition applyKVWrite :: "string \<Rightarrow> string \<Rightarrow> RwKVWrite \<Rightarrow> txOps \<Rightarrow> txOps" where
  "applyKVWrite ns coll kvWrite txops =
     (if rw_IsDelete kvWrite then ops_delete (mk_ck ns coll (rw_Key kvWrite)) txops
      else ops_upsert (mk_ck ns coll (rw_Key kvWrite)) (rw_Value kvWrite) txops)"

definition applyMetadata :: "validation_params \<Rightarrow> string \<Rightarrow> string \<Rightarrow> KVMetadataWrite \<Rightarrow> txOps \<Rightarrow> txOps result" where
  "applyMetadata P ns coll metadataWrite txops =
     (case mw_Entries metadataWrite of
        None \<Rightarrow> Ok (ops_metadataDelete (mk_ck ns coll (mw_Key metadataWrite)) txops)
      | Some es \<Rightarrow>
          rbind (vp_Serialize P es) (\<lambda>metadataBytes.
          Ok (ops_metadataUpdate (mk_ck ns coll (mw_Key metadataWrite)) metadataBytes txops)))"

definition hashed_write :: "KVWriteHash \<Rightarrow> RwKVWrite" where
  "hashed_write w = \<lparr>rw_Key = to_string (wh_KeyHash w), rw_IsDelete = wh_IsDelete w, rw_Value = wh_ValueHash w\<rparr>"

definition hashed_metadata :: "KVMetadataWriteHash \<Rightarrow> KVMetadataWrite" where
  "hashed_metadata m = \<lparr>mw_Key = to_string (mh_KeyHash m), mw_Entries = mh_Entries m\<rparr>"

definition apply_coll :: "validation_params \<Rightarrow> string \<Rightarrow> CollHashedRwSet \<Rightarrow> txOps \<Rightarrow> txOps result" where
  "apply_coll P ns collHashRWset txops =
     (let coll = CollectionName collHashRWset;
          txops1 = fold (\<lambda>w. applyKVWrite ns coll (hashed_write w)) (HashedWrites (HashedRwSet collHashRWset)) txops
      in rfold (\<lambda>m. applyMetadata P ns coll (hashed_metadata m)) (HashedMetadataWrites (HashedRwSet collHashRWset)) txops1)"

definition apply_ns :: "validation_params \<Rightarrow> NsRwSet \<Rightarrow> txOps \<Rightarrow> txOps result" where
  "apply_ns P nsRWSet txops =
     (let ns = NameSpace nsRWSet;
          txops1 = fold (applyKVWrite ns '''') (Writes (KvRwSet nsRWSet)) txops
      in rbind (rfold (applyMetadata P ns '''') (MetadataWrites (KvRwSet nsRWSet)) txops1) (\<lambda>txops2.
         rfold (apply_coll P ns) (CollHashedRwSets nsRWSet) txops2))"

definition applyTxRwset :: "validation_params \<Rightarrow> TxRwSet \<Rightarrow> txOps \<Rightarrow> txOps result" where
  "applyTxRwset P rws txops = rfold (apply_ns P) (NsRwSets rws) txops"

definition retrieveLatestState ::
  "validation_params \<Rightarrow> string \<Rightarrow> string \<Rightarrow> string \<Rightarrow> publicAndHashUpdates \<Rightarrow> PrivDB \<Rightarrow> VersionedValue option result" where
  "retrieveLatestState P ns coll key precedingUpdates db =
     (if coll = '''' then
        (case batch_Get ns key (publicUpdates precedingUpdates) of
           None \<Rightarrow> pd_GetState (vp_values P) ns key db
         | Some vv \<Rightarrow> Ok (Some vv))
      else
        (case um_Get ns coll key (hashUpdates precedingUpdates) of
           None \<Rightarrow> GetValueHash (vp_values P) ns coll (to_bytes key) db
         | Some vv \<Rightarrow> Ok (Some vv)))"

definition retrieveLatestMetadata ::
  "validation_params \<Rightarrow> string \<Rightarrow> string \<Rightarrow> string \<Rightarrow> publicAndHashUpdates \<Rightarrow> PrivDB \<Rightarrow> bytes option result" where
  "retrieveLatestMetadata P ns coll key precedingUpdates db =
     (if coll = '''' then
        (case batch_Get ns key (publicUpdates precedingUpdates) of
           Some vv \<Rightarrow> Ok (vv_Metadata vv)
         | None \<Rightarrow> GetStateMetadata (vp_values P) ns key db)
      else
        (case um_Get ns coll key (hashUpdates precedingUpdates) of
           Some vv \<Rightarrow> Ok (vv_Metadata vv)
         | None \<Rightarrow> GetPrivateDataMetadataByHash (vp_values P) ns coll (to_bytes key) db))"

text \<open>The body of the loop of \<open>prepareTxOps\<close>; \<open>None\<close> deletes the entry from the map.\<close>

definition prepare_op ::
  "validation_params \<Rightarrow> publicAndHashUpdates \<Rightarrow> PrivDB \<Rightarrow> compositeKey \<Rightarrow> keyOps \<Rightarrow> keyOps option result" where
  "prepare_op P precedingUpdates db ck keyop =
     (if ko_isDelete keyop \<or> isUpsertAndMetadataUpdate keyop then Ok (Some keyop)
      else if isOnlyUpsert keyop then
        rbind (retrieveLatestMetadata P (cp_ns ck) (cp_coll ck) (cp_key ck) precedingUpdates db) (\<lambda>latestMetadata.
        Ok (Some (keyop\<lparr>ko_metadata := latestMetadata\<rparr>)))
      else
        rbind (retrieveLatestState P (cp_ns ck) (cp_coll ck) (cp_key ck) precedingUpdates db) (\<lambda>latestVal.
        case latestVal of
          Some v \<Rightarrow> Ok (Some (keyop\<lparr>ko_value := vv_Value v\<rparr>))
        | None \<Rightarrow> Ok None))"

fun prepare_loop :: "validation_params \<Rightarrow> publicAndHashUpdates \<Rightarrow> PrivDB \<Rightarrow> txOps \<Rightarrow> txOps result" where
  "prepare_loop P precedingUpdates db [] = Ok []"
| "prepare_loop P precedingUpdates db ((ck, keyop) # txops) =
     rbind (prepare_op P precedingUpdates db ck keyop) (\<lambda>keyop'.
     rbind (prepare_loop P precedingUpdates db txops) (\<lambda>txops'.
     Ok (case keyop' of None \<Rightarrow> txops' | Some k \<Rightarrow> (ck, k) # txops')))"

definition prepareTxOps :: "validation_params \<Rightarrow> TxRwSet \<Rightarrow> publicAndHashUpdates \<Rightarrow> PrivDB \<Rightarrow> txOps result" where
  "prepareTxOps P rws precedingUpdates db = rbind (applyTxRwset P rws []) (prepare_loop P precedingUpdates db)"

definition apply_op :: "Height \<Rightarrow> compositeKey \<times> keyOps \<Rightarrow> publicAndHashUpdates \<Rightarrow> publicAndHashUpdates result" where
  "apply_op txHeight ckop u =
     (case ckop of (ck, keyops) \<Rightarrow>
        if cp_coll ck = '''' then
          (if ko_isDelete keyops then Ok (u\<lparr>publicUpdates := batch_Delete (cp_ns ck) (cp_key ck) txHeight (publicUpdates u)\<rparr>)
           else rbind (batch_PutValAndMetadata (cp_ns ck) (cp_key ck) (ko_value keyops) (ko_metadata keyops) txHeight (publicUpdates u)) (\<lambda>b.
                Ok (u\<lparr>publicUpdates := b\<rparr>)))
        else
          (let keyHash = to_bytes (cp_key ck) in
           if ko_isDelete keyops then Ok (u\<lparr>hashUpdates := hb_Delete (cp_ns ck) (cp_coll ck) keyHash txHeight (hashUpdates u)\<rparr>)
           else rbind (PutValHashAndMetadata (cp_ns ck) (cp_coll ck) keyHash (ko_value keyops) (ko_metadata keyops) txHeight (hashUpdates u)) (\<lambda>b.
                Ok (u\<lparr>hashUpdates := b\<rparr>))))"

definition applyWriteSet ::
  "validation_params \<Rightarrow> TxRwSet \<Rightarrow> Height \<Rightarrow> PrivDB \<Rightarrow> bool \<Rightarrow> publicAndHashUpdates \<Rightarrow> publicAndHashUpdates result" where
  "applyWriteSet P txRWSet txHeight db postOrderWrites u =
     (let u1 = u\<lparr>publicUpdates := (publicUpdates u)\<lparr>ContainsPostOrderWrites := ContainsPostOrderWrites (publicUpdates u) \<or> postOrderWrites\<rparr>\<rparr>
      in rbind (prepareTxOps P txRWSet u1 db) (\<lambda>txops. rfold (apply_op txHeight) txops u1))"

section \<open>The validator (validator.go)\<close>

text \<open>A loop that stops at the first item that is not valid, or at the first error.\<close>

fun all_valid :: "('a \<Rightarrow> bool result option) \<Rightarrow> 'a list \<Rightarrow> bool result option" where
  "all_valid f [] = Some (Ok True)"
| "all_valid f (x # xs) = obind (f x) (\<lambda>valid. if valid then all_valid f xs else Some (Ok False))"

definition validateKVRead :: "validation_params \<Rightarrow> PrivDB \<Rightarrow> string \<Rightarrow> StateUpdateBatch \<Rightarrow> KVRead \<Rightarrow> bool result" where
  "validateKVRead P db ns updates kvRead =
     (if batch_Exists ns (kr_Key kvRead) updates then Ok False
      else rbind (pd_GetVersion (vp_values P) ns (kr_Key kvRead) db) (\<lambda>committedVersion.
        Ok (AreSame committedVersion (NewVersion (kr_Version kvRead)))))"

definition validateReadSet :: "validation_params \<Rightarrow> PrivDB \<Rightarrow> string \<Rightarrow> KVRead list \<Rightarrow> StateUpdateBatch \<Rightarrow> bool result option" where
  "validateReadSet P db ns kvReads updates = all_valid (\<lambda>kvRead. Some (validateKVRead P db ns updates kvRead)) kvReads"

definition validateRangeQuery :: "validation_params \<Rightarrow> PrivDB \<Rightarrow> string \<Rightarrow> StateUpdateBatch \<Rightarrow> RangeQueryInfo \<Rightarrow> bool result option" where
  "validateRangeQuery P db ns updates rangeQueryInfo =
     (let includeEndKey = (\<not> rq_ItrExhausted rangeQueryInfo);
          V = vp_values P;
          nxt = combinedIterator_Next V (pd_dbName db) (pd_db db) updates
      in obind (Some (newCombinedIterator V (pd_dbName db) (pd_db db) updates ns (rq_StartKey rangeQueryInfo) (rq_EndKey rangeQueryInfo) includeEndKey)) (\<lambda>combinedItr.
         case GetReadsMerkleHashes rangeQueryInfo of
           Some merkle \<Rightarrow> hash_validate (vp_hashing P) nxt merkle combinedItr
         | None \<Rightarrow> Some (results_validate nxt rangeQueryInfo combinedItr)))"

definition validateRangeQueries ::
  "validation_params \<Rightarrow> PrivDB \<Rightarrow> string \<Rightarrow> RangeQueryInfo list \<Rightarrow> StateUpdateBatch \<Rightarrow> bool result option" where
  "validateRangeQueries P db ns rangeQueriesInfo updates = all_valid (validateRangeQuery P db ns updates) rangeQueriesInfo"

definition validateKVReadHash :: "validation_params \<Rightarrow> PrivDB \<Rightarrow> string \<Rightarrow> string \<Rightarrow> UpdateMap \<Rightarrow> KVReadHash \<Rightarrow> bool result" where
  "validateKVReadHash P db ns coll updates kvReadHash =
     (if hb_Contains ns coll (rh_KeyHash kvReadHash) updates then Ok False
      else rbind (GetKeyHashVersion (vp_values P) ns coll (rh_KeyHash kvReadHash) db) (\<lambda>committedVersion.
        Ok (AreSame committedVersion (NewVersion (rh_Version kvReadHash)))))"

definition validateCollHashedReadSet ::
  "validation_params \<Rightarrow> PrivDB \<Rightarrow> string \<Rightarrow> string \<Rightarrow> KVReadHash list \<Rightarrow> UpdateMap \<Rightarrow> bool result option" where
  "validateCollHashedReadSet P db ns coll kvReadHashes updates =
     all_valid (\<lambda>kvReadHash. Some (validateKVReadHash P db ns coll updates kvReadHash)) kvReadHashes"

definition validateNsHashedReadSets ::
  "validation_params \<Rightarrow> PrivDB \<Rightarrow> string \<Rightarrow> CollHashedRwSet list \<Rightarrow> UpdateMap \<Rightarrow> bool result option" where
  "validateNsHashedReadSets P db ns collHashedRWSets updates =
     all_valid (\<lambda>c. validateCollHashedReadSet P db ns (CollectionName c) (HashedReads (HashedRwSet c)) updates) collHashedRWSets"

fun validate_namespaces :: "validation_params \<Rightarrow> PrivDB \<Rightarrow> publicAndHashUpdates \<Rightarrow> NsRwSet list \<Rightarrow> int result option" where
  "validate_namespaces P db updates [] = Some (Ok TxValidationCode_VALID)"
| "validate_namespaces P db updates (nsRWSet # nsRWSets) =
     (let ns = NameSpace nsRWSet in
      obind (validateReadSet P db ns (Reads (KvRwSet nsRWSet)) (publicUpdates updates)) (\<lambda>valid.
      if \<not> valid then Some (Ok TxValidationCode_MVCC_READ_CONFLICT)
      else obind (validateRangeQueries P db ns (RangeQueriesInfo (KvRwSet nsRWSet)) (publicUpdates updates)) (\<lambda>valid.
      if \<not> valid then Some (Ok TxValidationCode_PHANTOM_READ_CONFLICT)
      else obind (validateNsHashedReadSets P db ns (CollHashedRwSets nsRWSet) (hashUpdates updates)) (\<lambda>valid.
      if \<not> valid then Some (Ok TxValidationCode_MVCC_READ_CONFLICT)
      else validate_namespaces P db updates nsRWSets))))"

definition validateTx :: "validation_params \<Rightarrow> PrivDB \<Rightarrow> TxRwSet \<Rightarrow> publicAndHashUpdates \<Rightarrow> int result option" where
  "validateTx P db txRWSet updates = validate_namespaces P db updates (NsRwSets txRWSet)"

definition validateEndorserTX :: "validation_params \<Rightarrow> PrivDB \<Rightarrow> TxRwSet \<Rightarrow> bool \<Rightarrow> publicAndHashUpdates \<Rightarrow> int result option" where
  "validateEndorserTX P db txRWSet doMVCCValidation updates =
     (if doMVCCValidation then validateTx P db txRWSet updates else Some (Ok TxValidationCode_VALID))"

fun validate_txs ::
  "validation_params \<Rightarrow> PrivDB \<Rightarrow> uint64 \<Rightarrow> bool \<Rightarrow> transaction list \<Rightarrow> publicAndHashUpdates \<Rightarrow>
     (publicAndHashUpdates \<times> transaction list) result option" where
  "validate_txs P db blkNum doMVCCValidation [] updates = Some (Ok (updates, []))"
| "validate_txs P db blkNum doMVCCValidation (tx # rest) updates =
     obind (validateEndorserTX P db (tx_rwset tx) doMVCCValidation updates) (\<lambda>code.
     obind (Some (if code = TxValidationCode_VALID
                  then applyWriteSet P (tx_rwset tx) (NewHeight blkNum (word_of_nat (tx_indexInBlock tx))) db (tx_containsPostOrderWrites tx) updates
                  else Ok updates)) (\<lambda>updates'.
     obind (validate_txs P db blkNum doMVCCValidation rest updates') (\<lambda>(u, ts).
     Some (Ok (u, tx\<lparr>tx_validationCode := code\<rparr> # ts)))))"

definition validateAndPrepareBatch ::
  "validation_params \<Rightarrow> PrivDB \<Rightarrow> mvcc_block \<Rightarrow> bool \<Rightarrow> (publicAndHashUpdates \<times> mvcc_block) result option" where
  "validateAndPrepareBatch P db blk doMVCCValidation =
     obind (validate_txs P db (mb_num blk) doMVCCValidation (mb_txs blk) newPubAndHashUpdates) (\<lambda>(u, ts).
     Some (Ok (u, blk\<lparr>mb_txs := ts\<rparr>)))"

end
