(* ===== verification/Serializability.thy ===== *)
theory Serializability
  imports Mvcc
begin

text \<open>
  The validation of a block refines a serial execution.  The abstract state maps a location
  (namespace, collection, key) to a versioned value and remembers which locations the block has
  already touched.  A transaction is valid when everything it read is current in that state, and a
  valid transaction replaces the values it writes.  \<open>validateAndPrepareBatch\<close>, which never changes
  the database and only collects a batch of updates, assigns exactly the codes of the serial
  execution and collects exactly its final state; committing the batch makes the database represent
  that state.
\<close>

section \<open>The state that the updates and the database represent\<close>

definition upd :: "publicAndHashUpdates \<Rightarrow> compositeKey \<Rightarrow> VersionedValue option" where
  "upd u ck = (if cp_coll ck = '''' then batch_Get (cp_ns ck) (cp_key ck) (publicUpdates u)
     else um_Get (cp_ns ck) (cp_coll ck) (cp_key ck) (hashUpdates u))"

definition committed :: "state \<Rightarrow> compositeKey \<Rightarrow> VersionedValue option" where
  "committed S ck = S (if cp_coll ck = '''' then cp_ns ck else deriveHashedDataNs (cp_ns ck) (cp_coll ck)) (cp_key ck)"

definition latest :: "state \<Rightarrow> publicAndHashUpdates \<Rightarrow> compositeKey \<Rightarrow> VersionedValue option" where
  "latest S u ck = (case upd u ck of None \<Rightarrow> committed S ck | Some vv \<Rightarrow> Some vv)"

definition view :: "state \<Rightarrow> publicAndHashUpdates \<Rightarrow> compositeKey \<Rightarrow> VersionedValue option" where
  "view S u ck = (case upd u ck of None \<Rightarrow> committed S ck | Some vv \<Rightarrow> if vv_Value vv = None then None else Some vv)"

definition touched :: "publicAndHashUpdates \<Rightarrow> compositeKey set" where
  "touched u = {ck. upd u ck \<noteq> None}"

lemma mk_ck_simps [simp]: "cp_ns (mk_ck ns coll key) = ns" "cp_coll (mk_ck ns coll key) = coll" "cp_key (mk_ck ns coll key) = key"
  by (simp_all add: mk_ck_def)

lemma mk_ck_collapse [simp]: "mk_ck (cp_ns ck) (cp_coll ck) (cp_key ck) = ck"
  by (simp add: mk_ck_def)

section \<open>The operations of a transaction\<close>

datatype tx_op = OpWrite compositeKey RwKVWrite | OpMetadata compositeKey "KVMetadataEntry list option"

definition coll_ops :: "string \<Rightarrow> CollHashedRwSet \<Rightarrow> tx_op list" where
  "coll_ops ns c =
     map (\<lambda>w. OpWrite (mk_ck ns (CollectionName c) (rw_Key w)) w) (map hashed_write (HashedWrites (HashedRwSet c))) @
     map (\<lambda>m. OpMetadata (mk_ck ns (CollectionName c) (mw_Key m)) (mw_Entries m)) (map hashed_metadata (HashedMetadataWrites (HashedRwSet c)))"

definition ns_ops :: "NsRwSet \<Rightarrow> tx_op list" where
  "ns_ops n =
     map (\<lambda>w. OpWrite (mk_ck (NameSpace n) '''' (rw_Key w)) w) (Writes (KvRwSet n)) @
     map (\<lambda>m. OpMetadata (mk_ck (NameSpace n) '''' (mw_Key m)) (mw_Entries m)) (MetadataWrites (KvRwSet n)) @
     concat (map (coll_ops (NameSpace n)) (CollHashedRwSets n))"

definition tx_ops :: "TxRwSet \<Rightarrow> tx_op list" where
  "tx_ops rws = concat (map ns_ops (NsRwSets rws))"

fun writes :: "tx_op list \<Rightarrow> (compositeKey \<times> RwKVWrite) list" where
  "writes [] = []"
| "writes (OpWrite ck w # ops) = (ck, w) # writes ops"
| "writes (OpMetadata ck es # ops) = writes ops"

fun metas :: "tx_op list \<Rightarrow> (compositeKey \<times> KVMetadataEntry list option) list" where
  "metas [] = []"
| "metas (OpWrite ck w # ops) = metas ops"
| "metas (OpMetadata ck es # ops) = (ck, es) # metas ops"

fun apply_tx_op :: "validation_params \<Rightarrow> tx_op \<Rightarrow> txOps \<Rightarrow> txOps result" where
  "apply_tx_op P (OpWrite ck w) t = Ok (if rw_IsDelete w then ops_delete ck t else ops_upsert ck (rw_Value w) t)"
| "apply_tx_op P (OpMetadata ck es) t =
     (case es of None \<Rightarrow> Ok (ops_metadataDelete ck t) | Some e \<Rightarrow> rbind (vp_Serialize P e) (\<lambda>b. Ok (ops_metadataUpdate ck b t)))"

lemma rfold_append: "rfold f (xs @ ys) s = rbind (rfold f xs s) (rfold f ys)"
  by (induction xs arbitrary: s) (auto simp: rbind_def split: result.split)

lemma rfold_concat: "rfold f (concat xss) s = rfold (rfold f) xss s"
  by (induction xss arbitrary: s) (auto simp: rfold_append rbind_def split: result.split)

lemma rfold_map: "rfold f (map g xs) s = rfold (\<lambda>x. f (g x)) xs s"
  by (induction xs arbitrary: s) (auto simp: rbind_def split: result.split)

lemma apply_writes: "rfold (apply_tx_op P) (map (\<lambda>w. OpWrite (mk_ck ns coll (rw_Key w)) w) ws) t = Ok (fold (applyKVWrite ns coll) ws t)"
  by (induction ws arbitrary: t) (auto simp: applyKVWrite_def)

lemma apply_metadata: "rfold (apply_tx_op P) (map (\<lambda>m. OpMetadata (mk_ck ns coll (mw_Key m)) (mw_Entries m)) ms) t = rfold (applyMetadata P ns coll) ms t"
  by (induction ms arbitrary: t) (auto simp: applyMetadata_def rbind_def split: option.split result.split)

lemma applyTxRwset_ops: "applyTxRwset P rws t = rfold (apply_tx_op P) (tx_ops rws) t"
proof -
  have c: "apply_coll P ns c = rfold (apply_tx_op P) (coll_ops ns c)" for ns c
    by (rule ext) (simp add: apply_coll_def coll_ops_def rfold_append apply_writes apply_metadata Let_def del: map_map, simp add: fold_map rfold_map o_def)
  have n: "apply_ns P n = rfold (apply_tx_op P) (ns_ops n)" for n
  proof
    fix t
    have "rfold (apply_tx_op P) (concat (map (coll_ops (NameSpace n)) (CollHashedRwSets n))) = rfold (apply_coll P (NameSpace n)) (CollHashedRwSets n)"
      by (rule ext) (simp add: rfold_concat rfold_map flip: c)
    then show "apply_ns P n t = rfold (apply_tx_op P) (ns_ops n) t"
      by (simp add: apply_ns_def ns_ops_def rfold_append apply_writes apply_metadata Let_def)
  qed
  show ?thesis by (simp add: applyTxRwset_def tx_ops_def rfold_concat rfold_map flip: n)
qed

text \<open>The entry of a key with its write and its metadata write, if any.\<close>

definition meta_bytes :: "validation_params \<Rightarrow> KVMetadataEntry list option \<Rightarrow> bytes option" where
  "meta_bytes P es = (case es of None \<Rightarrow> None | Some e \<Rightarrow> (case vp_Serialize P e of Ok b \<Rightarrow> Some b | _ \<Rightarrow> None))"

definition key_entry :: "validation_params \<Rightarrow> RwKVWrite option \<Rightarrow> KVMetadataEntry list option option \<Rightarrow> keyOps option" where
  "key_entry P w m = (if w = None \<and> m = None then None else Some
     \<lparr>ko_flag = (case w of None \<Rightarrow> 0 | Some w \<Rightarrow> if rw_IsDelete w then keyDelete else upsertVal) +
        (case m of None \<Rightarrow> 0 | Some None \<Rightarrow> metadataDelete | Some (Some _) \<Rightarrow> metadataUpdate),
      ko_value = (case w of None \<Rightarrow> None | Some w \<Rightarrow> if rw_IsDelete w then None else rw_Value w),
      ko_metadata = (case m of None \<Rightarrow> None | Some es \<Rightarrow> meta_bytes P es)\<rparr>)"

definition serializable_entries :: "validation_params \<Rightarrow> KVMetadataEntry list option \<Rightarrow> bool" where
  "serializable_entries P es \<longleftrightarrow> (case es of None \<Rightarrow> True | Some e \<Rightarrow> (\<exists>b. vp_Serialize P e = Ok b \<and> b \<noteq> []))"

lemma key_entry_write:
  "key_entry P (Some w) m = Some (let k = (case key_entry P None m of None \<Rightarrow> \<lparr>ko_flag = 0, ko_value = None, ko_metadata = None\<rparr> | Some k \<Rightarrow> k)
     in if rw_IsDelete w then k\<lparr>ko_flag := ko_flag k + keyDelete\<rparr> else k\<lparr>ko_flag := ko_flag k + upsertVal, ko_value := rw_Value w\<rparr>)"
  by (cases m) (auto simp: key_entry_def add.commute)

lemma key_entry_metadata:
  "key_entry P w (Some es) = Some (let k = (case key_entry P w None of None \<Rightarrow> \<lparr>ko_flag = 0, ko_value = None, ko_metadata = None\<rparr> | Some k \<Rightarrow> k)
     in if es = None then k\<lparr>ko_flag := ko_flag k + metadataDelete\<rparr> else k\<lparr>ko_flag := ko_flag k + metadataUpdate, ko_metadata := meta_bytes P es\<rparr>)"
  by (cases w; cases es) (auto simp: key_entry_def meta_bytes_def)

lemma apply_tx_op_entry:
  assumes t: "\<forall>ck. map_of t ck = key_entry P (W ck) (M ck)"
  shows "W ck = None \<Longrightarrow> \<exists>t'. apply_tx_op P (OpWrite ck w) t = Ok t' \<and> (\<forall>ck'. map_of t' ck' = key_entry P ((W(ck \<mapsto> w)) ck') (M ck'))"
    "M ck = None \<Longrightarrow> serializable_entries P es \<Longrightarrow>
       \<exists>t'. apply_tx_op P (OpMetadata ck es) t = Ok t' \<and> (\<forall>ck'. map_of t' ck' = key_entry P (W ck') ((M(ck \<mapsto> es)) ck'))"
proof -
  show "W ck = None \<Longrightarrow> \<exists>t'. apply_tx_op P (OpWrite ck w) t = Ok t' \<and> (\<forall>ck'. map_of t' ck' = key_entry P ((W(ck \<mapsto> w)) ck') (M ck'))"
    using t by (auto simp: ops_delete_def ops_upsert_def Let_def update_conv' getOrCreateKeyEntry_def key_entry_write)
  show "\<exists>t'. apply_tx_op P (OpMetadata ck es) t = Ok t' \<and> (\<forall>ck'. map_of t' ck' = key_entry P (W ck') ((M(ck \<mapsto> es)) ck'))"
    if "M ck = None" "serializable_entries P es"
    using t that by (cases es)
      (auto simp: ops_metadataDelete_def ops_metadataUpdate_def Let_def update_conv' getOrCreateKeyEntry_def key_entry_metadata serializable_entries_def meta_bytes_def)
qed

lemma apply_tx_op_distinct: "apply_tx_op P op t = Ok t' \<Longrightarrow> distinct (map fst t) \<Longrightarrow> distinct (map fst t')"
  by (cases op) (auto simp: ops_delete_def ops_upsert_def ops_metadataDelete_def ops_metadataUpdate_def Let_def distinct_update rbind_eq_Ok
      split: if_splits option.splits)

lemma map_add_move: "m ck = None \<Longrightarrow> f(ck \<mapsto> w) ++ m = f ++ m(ck \<mapsto> w)"
  by (auto simp: map_add_def fun_eq_iff split: option.split)

lemma apply_ops_entries:
  assumes "\<forall>ck. map_of t ck = key_entry P (W ck) (M ck)" "distinct (map fst t)"
    and "distinct (map fst (writes ops))" "distinct (map fst (metas ops))"
    and "\<forall>ck \<in> fst ` set (writes ops). W ck = None" "\<forall>ck \<in> fst ` set (metas ops). M ck = None"
    and "\<forall>(ck, es) \<in> set (metas ops). serializable_entries P es"
  shows "\<exists>t'. rfold (apply_tx_op P) ops t = Ok t' \<and> distinct (map fst t') \<and>
     (\<forall>ck. map_of t' ck = key_entry P ((W ++ map_of (writes ops)) ck) ((M ++ map_of (metas ops)) ck))"
  using assms
proof (induction ops arbitrary: t W M)
  case (Cons op ops)
  show ?case
  proof (cases op)
    case (OpWrite ck w)
    obtain t1 where t1: "apply_tx_op P op t = Ok t1" "\<forall>ck'. map_of t1 ck' = key_entry P ((W(ck \<mapsto> w)) ck') (M ck')"
      using apply_tx_op_entry(1) [OF Cons.prems(1), of ck w] Cons.prems(5) OpWrite by auto
    have d: "distinct (map fst t1)" using apply_tx_op_distinct [OF t1(1) Cons.prems(2)] .
    have "\<exists>t'. rfold (apply_tx_op P) ops t1 = Ok t' \<and> distinct (map fst t') \<and>
       (\<forall>ck'. map_of t' ck' = key_entry P ((W(ck \<mapsto> w) ++ map_of (writes ops)) ck') ((M ++ map_of (metas ops)) ck'))"
      using Cons.prems OpWrite by (intro Cons.IH [OF t1(2) d]) auto
    moreover have "W(ck \<mapsto> w) ++ map_of (writes ops) = W ++ map_of (writes (op # ops))"
      using Cons.prems(3) OpWrite by (simp add: map_add_move map_of_eq_None_iff)
    moreover have "rfold (apply_tx_op P) (op # ops) t = rfold (apply_tx_op P) ops t1" "metas (op # ops) = metas ops"
      using t1(1) OpWrite by simp_all
    ultimately show ?thesis by (simp only:)
  next
    case (OpMetadata ck es)
    obtain t1 where t1: "apply_tx_op P op t = Ok t1" "\<forall>ck'. map_of t1 ck' = key_entry P (W ck') ((M(ck \<mapsto> es)) ck')"
      using apply_tx_op_entry(2) [OF Cons.prems(1), of ck es] Cons.prems(6,7) OpMetadata by auto
    have d: "distinct (map fst t1)" using apply_tx_op_distinct [OF t1(1) Cons.prems(2)] .
    have "\<exists>t'. rfold (apply_tx_op P) ops t1 = Ok t' \<and> distinct (map fst t') \<and>
       (\<forall>ck'. map_of t' ck' = key_entry P ((W ++ map_of (writes ops)) ck') ((M(ck \<mapsto> es) ++ map_of (metas ops)) ck'))"
      using Cons.prems OpMetadata by (intro Cons.IH [OF t1(2) d]) auto
    moreover have "M(ck \<mapsto> es) ++ map_of (metas ops) = M ++ map_of (metas (op # ops))"
      using Cons.prems(4) OpMetadata by (simp add: map_add_move map_of_eq_None_iff)
    moreover have "rfold (apply_tx_op P) (op # ops) t = rfold (apply_tx_op P) ops t1" "writes (op # ops) = writes ops"
      using t1(1) OpMetadata by simp_all
    ultimately show ?thesis by (simp only:)
  qed
qed simp

section \<open>The effect of a transaction\<close>

definition loc_ok :: "compositeKey \<Rightarrow> bool" where
  "loc_ok ck \<longleftrightarrow> plain (cp_ns ck) \<and> plain (cp_coll ck)"

text \<open>What the simulator of a peer produces: proper names, one write per key, values and metadata that are not empty.\<close>

definition rwset_ok :: "validation_params \<Rightarrow> TxRwSet \<Rightarrow> bool" where
  "rwset_ok P rws \<longleftrightarrow>
     (\<forall>n \<in> set (NsRwSets rws). plain (NameSpace n) \<and>
        (\<forall>c \<in> set (CollHashedRwSets n). plain (CollectionName c) \<and> CollectionName c \<noteq> '''') \<and>
        (\<forall>q \<in> set (RangeQueriesInfo (KvRwSet n)). rq_ItrExhausted q \<or> rq_EndKey q \<noteq> '''')) \<and>
     distinct (map fst (writes (tx_ops rws))) \<and> distinct (map fst (metas (tx_ops rws))) \<and>
     (\<forall>(ck, w) \<in> set (writes (tx_ops rws)). rw_IsDelete w \<or> rw_Value w \<noteq> None) \<and>
     (\<forall>(ck, es) \<in> set (metas (tx_ops rws)). serializable_entries P es)"

definition db_ok :: "validation_params \<Rightarrow> state \<Rightarrow> PrivDB \<Rightarrow> bool" where
  "db_ok P S db \<longleftrightarrow> value_codec_laws (vp_values P) \<and> db_name_ok (pd_dbName db) \<and>
     state_repr (vp_values P) (pd_dbName db) S (pd_db db) \<and> hint_ok S db"

definition updates_inv :: "publicAndHashUpdates \<Rightarrow> bool" where
  "updates_inv u \<longleftrightarrow> plain_storable (publicUpdates u) \<and> um_storable (hashUpdates u) \<and>
     (\<forall>ck vv. upd u ck = Some vv \<longrightarrow> vv_Value vv = None \<longrightarrow> vv_Metadata vv = None)"

lemma plain_Nil [simp]: "plain ''''"
  by (simp add: plain_def ns_ok_def to_bytes_def)

lemma writes_append [simp]: "writes (xs @ ys) = writes xs @ writes ys"
  by (induction xs rule: writes.induct) simp_all

lemma metas_append [simp]: "metas (xs @ ys) = metas xs @ metas ys"
  by (induction xs rule: metas.induct) simp_all

lemma set_writes: "(ck, w) \<in> set (writes ops) \<longleftrightarrow> OpWrite ck w \<in> set ops"
  by (induction ops rule: writes.induct) auto

lemma set_metas: "(ck, es) \<in> set (metas ops) \<longleftrightarrow> OpMetadata ck es \<in> set ops"
  by (induction ops rule: metas.induct) auto

lemma rwset_loc_ok:
  assumes "rwset_ok P rws" "(ck, w) \<in> set (writes (tx_ops rws)) \<or> (ck, es) \<in> set (metas (tx_ops rws))"
  shows "loc_ok ck"
  using assms by (auto simp: set_writes set_metas tx_ops_def ns_ops_def coll_ops_def rwset_ok_def loc_ok_def)

lemma GetState_committed:
  assumes "db_ok P S db" "loc_ok ck"
  shows "pd_GetState (vp_values P) (if cp_coll ck = '''' then cp_ns ck else deriveHashedDataNs (cp_ns ck) (cp_coll ck)) (cp_key ck) db = Ok (committed S ck)"
  unfolding pd_GetState_def committed_def using assms
  by (intro GetState_repr) (auto simp: db_ok_def loc_ok_def)

lemma retrieveLatestState_latest:
  assumes "db_ok P S db" "loc_ok ck"
  shows "retrieveLatestState P (cp_ns ck) (cp_coll ck) (cp_key ck) u db = Ok (latest S u ck)"
  using GetState_committed [OF assms] by (auto simp: retrieveLatestState_def latest_def upd_def GetValueHash_def split: option.split)

lemma no_hint_no_metadata:
  assumes "db_ok P S db" "loc_ok ck" "\<not> metadataEverUsedFor (cp_ns ck) db"
  shows "Option.bind (committed S ck) vv_Metadata = None"
proof (cases "committed S ck")
  case (Some vv)
  then have "S (cp_ns ck) (cp_key ck) = Some vv \<or> (\<exists>coll. plain coll \<and> S (deriveHashedDataNs (cp_ns ck) coll) (cp_key ck) = Some vv)"
    using assms(2) by (auto simp: committed_def loc_ok_def split: if_splits)
  then have "vv_Metadata vv = None" using assms unfolding db_ok_def hint_ok_def loc_ok_def metadataEverUsedFor_def by metis
  then show ?thesis using Some by simp
qed simp

lemma retrieveLatestMetadata_latest:
  assumes "db_ok P S db" "loc_ok ck"
  shows "retrieveLatestMetadata P (cp_ns ck) (cp_coll ck) (cp_key ck) u db = Ok (Option.bind (latest S u ck) vv_Metadata)"
  using GetState_committed [OF assms] no_hint_no_metadata [OF assms]
  by (auto simp: retrieveLatestMetadata_def latest_def upd_def GetValueHash_def GetStateMetadata_def GetPrivateDataMetadataByHash_def split: option.splits)

text \<open>The entry that a transaction adds to the updates for a location, given the latest value there.\<close>

definition new_entry ::
  "validation_params \<Rightarrow> Height \<Rightarrow> RwKVWrite option \<Rightarrow> KVMetadataEntry list option option \<Rightarrow> VersionedValue option \<Rightarrow> VersionedValue option" where
  "new_entry P h w m l = (case w of
       Some w' \<Rightarrow> Some (if rw_IsDelete w' then \<lparr>vv_Value = None, vv_Metadata = None, vv_Version = Some h\<rparr>
         else \<lparr>vv_Value = rw_Value w', vv_Metadata = (case m of None \<Rightarrow> Option.bind l vv_Metadata | Some es \<Rightarrow> meta_bytes P es), vv_Version = Some h\<rparr>)
     | None \<Rightarrow> (case m of None \<Rightarrow> None | Some es \<Rightarrow> map_option (\<lambda>v. \<lparr>vv_Value = vv_Value v, vv_Metadata = meta_bytes P es, vv_Version = Some h\<rparr>) l))"

definition final_vv :: "Height \<Rightarrow> keyOps \<Rightarrow> VersionedValue" where
  "final_vv h ko = (if ko_isDelete ko then \<lparr>vv_Value = None, vv_Metadata = None, vv_Version = Some h\<rparr>
     else \<lparr>vv_Value = ko_value ko, vv_Metadata = ko_metadata ko, vv_Version = Some h\<rparr>)"

lemma prepare_op_entry:
  assumes "db_ok P S db" "loc_ok ck" "key_entry P w m = Some ko"
  shows "\<exists>k. prepare_op P u db ck ko = Ok k \<and> map_option (final_vv h) k = new_entry P h w m (latest S u ck) \<and>
     (\<forall>ko'. k = Some ko' \<longrightarrow> ko_isDelete ko' = (case w of None \<Rightarrow> False | Some w' \<Rightarrow> rw_IsDelete w'))"
proof -
  note defs = key_entry_def prepare_op_def ko_isDelete_def isUpsertAndMetadataUpdate_def isOnlyUpsert_def final_vv_def new_entry_def
    upsertVal_def metadataUpdate_def metadataDelete_def keyDelete_def
  note latest = retrieveLatestState_latest [OF assms(1,2), of u] retrieveLatestMetadata_latest [OF assms(1,2), of u]
  show ?thesis
  proof (cases w)
    case None
    then obtain es where m: "m = Some es" using assms(3) by (cases m) (auto simp: key_entry_def)
    then have "ko_flag ko = 2 \<or> ko_flag ko = 4" "ko_metadata ko = meta_bytes P es" using assms(3) None by (auto simp: defs split: option.splits)
    then show ?thesis using m None latest by (auto simp: defs split: option.split)
  next
    case (Some w')
    show ?thesis
    proof (cases "rw_IsDelete w'")
      case True
      then have "ko_flag ko = 8 \<or> ko_flag ko = 10 \<or> ko_flag ko = 12" using assms(3) Some by (auto simp: defs split: option.splits)
      then show ?thesis using True Some by (auto simp: defs)
    next
      case False
      then have "ko_value ko = rw_Value w'" using assms(3) Some by (auto simp: defs)
      moreover have "m = None \<and> ko_flag ko = 1 \<or> (\<exists>es. m = Some es \<and> (ko_flag ko = 3 \<or> ko_flag ko = 5) \<and> ko_metadata ko = meta_bytes P es)"
        using assms(3) Some False by (cases m) (auto simp: defs split: option.splits)
      ultimately show ?thesis using False Some latest by (auto simp: defs)
    qed
  qed
qed

lemma prepare_loop_run:
  assumes "\<And>ck ko. (ck, ko) \<in> set ops \<Longrightarrow> \<exists>k. prepare_op P u db ck ko = Ok k"
  shows "\<exists>ops'. prepare_loop P u db ops = Ok ops' \<and> (distinct (map fst ops) \<longrightarrow> distinct (map fst ops')) \<and> fst ` set ops' \<subseteq> fst ` set ops \<and>
     (distinct (map fst ops) \<longrightarrow> (\<forall>ck. map_of ops' ck = Option.bind (map_of ops ck) (\<lambda>ko. the_Ok (prepare_op P u db ck ko))))"
  using assms
proof (induction ops)
  case (Cons e ops)
  obtain ck ko where e: "e = (ck, ko)" by force
  obtain k where k: "prepare_op P u db ck ko = Ok k" using Cons.prems e by auto
  obtain ops' where ops': "prepare_loop P u db ops = Ok ops'" "distinct (map fst ops) \<longrightarrow> distinct (map fst ops')" "fst ` set ops' \<subseteq> fst ` set ops"
    "distinct (map fst ops) \<longrightarrow> (\<forall>ck. map_of ops' ck = Option.bind (map_of ops ck) (\<lambda>ko. the_Ok (prepare_op P u db ck ko)))"
    using Cons by (metis list.set_intros(2))
  have "map_of ops' ck = None" if "ck \<notin> fst ` set ops" using ops'(3) that by (auto simp: map_of_eq_None_iff)
  then show ?case using e k ops' by (cases k) auto
qed simp

definition u_Update :: "compositeKey \<Rightarrow> VersionedValue \<Rightarrow> publicAndHashUpdates \<Rightarrow> publicAndHashUpdates" where
  "u_Update ck vv u = (if cp_coll ck = '''' then u\<lparr>publicUpdates := batch_Update (cp_ns ck) (cp_key ck) vv (publicUpdates u)\<rparr>
     else u\<lparr>hashUpdates := um_Update (cp_ns ck) (cp_coll ck) (cp_key ck) vv (hashUpdates u)\<rparr>)"

lemma upd_u_Update [simp]: "upd (u_Update ck vv u) ck' = (if ck' = ck then Some vv else upd u ck')"
  by (cases ck; cases ck') (auto simp: upd_def u_Update_def)

lemma apply_op_Update:
  "ko_isDelete ko \<or> ko_value ko \<noteq> None \<Longrightarrow> apply_op h (ck, ko) u = Ok (u_Update ck (final_vv h ko) u)"
  "\<not> (ko_isDelete ko \<or> ko_value ko \<noteq> None) \<Longrightarrow> apply_op h (ck, ko) u = Panic ''Nil value not allowed. Instead call 'Delete' function''"
  by (auto simp: apply_op_def u_Update_def final_vv_def batch_Delete_def hb_Delete_def um_Delete_Update PutValHashAndMetadata_def
      batch_PutValAndMetadata_def Let_def)

lemma updates_inv_Update:
  assumes "updates_inv u" "loc_ok ck" "vv_Value vv = None \<and> vv_Metadata vv = None \<or> stored vv"
  shows "updates_inv (u_Update ck vv u)"
proof -
  have "plain_storable (publicUpdates (u_Update ck vv u))"
    using assms by (auto simp: updates_inv_def plain_storable_def storable_def u_Update_def loc_ok_def split: if_splits) blast+
  moreover have "um_storable (hashUpdates (u_Update ck vv u))"
    using assms by (auto simp: updates_inv_def um_storable_def u_Update_def loc_ok_def split: if_splits)
  moreover have "\<forall>ck' vv'. upd (u_Update ck vv u) ck' = Some vv' \<longrightarrow> vv_Value vv' = None \<longrightarrow> vv_Metadata vv' = None"
    using assms(1,3) by (auto simp: updates_inv_def stored_def split: if_splits)
  ultimately show ?thesis by (simp add: updates_inv_def)
qed

lemma apply_ops_Cons:
  "rfold (apply_op h) ((ck, ko) # ops) u = Ok u' \<longleftrightarrow>
     (ko_isDelete ko \<or> ko_value ko \<noteq> None) \<and> rfold (apply_op h) ops (u_Update ck (final_vv h ko) u) = Ok u'"
  by (cases "ko_isDelete ko \<or> ko_value ko \<noteq> None") (simp_all add: apply_op_Update del: de_Morgan_disj)

lemma apply_ops_run:
  assumes "distinct (map fst ops)"
  shows "rfold (apply_op h) ops u = Ok u' \<Longrightarrow> upd u' ck = (case map_of ops ck of None \<Rightarrow> upd u ck | Some ko \<Rightarrow> Some (final_vv h ko))"
    "rfold (apply_op h) ops u = Ok u' \<Longrightarrow> updates_inv u \<Longrightarrow>
       (\<And>ck ko. (ck, ko) \<in> set ops \<Longrightarrow> loc_ok ck \<and> (ko_isDelete ko \<or> ko_value ko \<noteq> None \<longrightarrow> ko_isDelete ko \<or> stored (final_vv h ko))) \<Longrightarrow> updates_inv u'"
    "(\<exists>u'. rfold (apply_op h) ops u = Ok u') \<longleftrightarrow> (\<forall>(ck, ko) \<in> set ops. ko_isDelete ko \<or> ko_value ko \<noteq> None)"
  using assms
proof (induction ops arbitrary: u)
  case (Cons e ops)
  obtain ck0 ko where e: "e = (ck0, ko)" by force
  { case 1
    then have "ko_isDelete ko \<or> ko_value ko \<noteq> None" "rfold (apply_op h) ops (u_Update ck0 (final_vv h ko) u) = Ok u'"
      using e by (simp_all only: apply_ops_Cons)
    then show ?case using Cons.IH(1) [of "u_Update ck0 (final_vv h ko) u"] 1 e
      by (auto simp: map_of_eq_None_iff split: option.split dest!: map_of_SomeD) force+
  next
    case 2
    then have *: "ko_isDelete ko \<or> ko_value ko \<noteq> None" "rfold (apply_op h) ops (u_Update ck0 (final_vv h ko) u) = Ok u'"
      using e by (simp_all only: apply_ops_Cons)
    then have "updates_inv (u_Update ck0 (final_vv h ko) u)"
      using 2(2) 2(3) [of ck0 ko] e by (intro updates_inv_Update) (auto simp: final_vv_def)
    then show ?case using Cons.IH(2) [OF *(2)] 2(3,4) e by auto
  next
    case 3
    then have "(\<exists>u'. rfold (apply_op h) ops (u_Update ck0 (final_vv h ko) u) = Ok u') \<longleftrightarrow> (\<forall>(ck, ko) \<in> set ops. ko_isDelete ko \<or> ko_value ko \<noteq> None)"
      using Cons.IH(3) by simp
    then show ?case unfolding e apply_ops_Cons ex_simps by simp
  }
qed simp_all

lemma upd_inv:
  assumes "updates_inv u" "upd u ck = Some vv"
  shows "loc_ok ck" "vv_Value vv = None \<and> vv_Metadata vv = None \<or> stored vv"
proof -
  have "loc_ok ck \<and> (vv_Value vv = None \<or> stored vv)"
  proof (cases "cp_coll ck = ''''")
    case True
    then show ?thesis using assms storable_ok [of "publicUpdates u" "cp_ns ck" "cp_key ck" vv]
      by (auto simp: updates_inv_def upd_def plain_storable_def loc_ok_def)
  next
    case False
    then show ?thesis using assms um_storableD [of "hashUpdates u" "cp_ns ck" "cp_coll ck" "cp_key ck" vv] by (auto simp: updates_inv_def upd_def loc_ok_def)
  qed
  then show "loc_ok ck" "vv_Value vv = None \<and> vv_Metadata vv = None \<or> stored vv" using assms by (auto simp: updates_inv_def)
qed

lemma latest_metadata:
  assumes "db_ok P S db" "updates_inv u" "latest S u ck = Some v"
  shows "vv_Metadata v \<noteq> Some []" "vv_Value v = None \<Longrightarrow> upd u ck = Some v"
proof -
  have "upd u ck = Some v \<or> stored v"
    using assms(1,3) by (auto simp: latest_def committed_def db_ok_def state_repr_def split: option.splits)
  then show "vv_Metadata v \<noteq> Some []" "vv_Value v = None \<Longrightarrow> upd u ck = Some v"
    using upd_inv(2) [OF assms(2), of ck v] by (auto simp: stored_def)
qed

definition orphan_metadata :: "TxRwSet \<Rightarrow> publicAndHashUpdates \<Rightarrow> compositeKey \<Rightarrow> bool" where
  "orphan_metadata rws u ck \<longleftrightarrow> map_of (writes (tx_ops rws)) ck = None \<and> map_of (metas (tx_ops rws)) ck \<noteq> None \<and>
     (\<exists>vv. upd u ck = Some vv \<and> vv_Value vv = None)"

lemma prepareTxOps_run:
  assumes db: "db_ok P S db" and ok: "rwset_ok P rws"
  shows "\<exists>ops. prepareTxOps P rws u db = Ok ops \<and> distinct (map fst ops) \<and>
     (\<forall>ck. map_option (final_vv h) (map_of ops ck) = new_entry P h (map_of (writes (tx_ops rws)) ck) (map_of (metas (tx_ops rws)) ck) (latest S u ck)) \<and>
     (\<forall>ck ko. map_of ops ck = Some ko \<longrightarrow> loc_ok ck \<and>
        ko_isDelete ko = (case map_of (writes (tx_ops rws)) ck of None \<Rightarrow> False | Some w \<Rightarrow> rw_IsDelete w))"
proof -
  let ?W = "map_of (writes (tx_ops rws))" and ?M = "map_of (metas (tx_ops rws))"
  have "\<exists>t. rfold (apply_tx_op P) (tx_ops rws) [] = Ok t \<and> distinct (map fst t) \<and>
     (\<forall>ck. map_of t ck = key_entry P ((Map.empty ++ ?W) ck) ((Map.empty ++ ?M) ck))"
    using ok by (intro apply_ops_entries) (auto simp: rwset_ok_def key_entry_def)
  then obtain t where t: "applyTxRwset P rws [] = Ok t" "distinct (map fst t)" "\<And>ck. map_of t ck = key_entry P (?W ck) (?M ck)"
    by (auto simp: applyTxRwset_ops)
  have prep: "loc_ok ck \<and> (\<exists>k. prepare_op P u db ck ko = Ok k \<and> map_option (final_vv h) k = new_entry P h (?W ck) (?M ck) (latest S u ck) \<and>
     (\<forall>ko'. k = Some ko' \<longrightarrow> ko_isDelete ko' = (case ?W ck of None \<Rightarrow> False | Some w' \<Rightarrow> rw_IsDelete w')))"
    if "map_of t ck = Some ko" for ck ko
  proof -
    have e: "key_entry P (?W ck) (?M ck) = Some ko" using t(3) that by simp
    then have "?W ck \<noteq> None \<or> ?M ck \<noteq> None" by (auto simp: key_entry_def split: if_splits)
    then have l: "loc_ok ck" using rwset_loc_ok [OF ok] by (metis map_of_SomeD option.exhaust)
    then show ?thesis using prepare_op_entry [OF db l e] by blast
  qed
  then have "\<exists>k. prepare_op P u db ck ko = Ok k" if "(ck, ko) \<in> set t" for ck ko using that t(2) by (metis map_of_is_SomeI)
  from prepare_loop_run [OF this] t(2)
  obtain ops where ops: "prepare_loop P u db t = Ok ops" "distinct (map fst ops)"
    "\<And>ck. map_of ops ck = Option.bind (map_of t ck) (\<lambda>ko. the_Ok (prepare_op P u db ck ko))" by blast
  have "prepareTxOps P rws u db = Ok ops" using t(1) ops(1) by (simp add: prepareTxOps_def)
  moreover have "map_option (final_vv h) (map_of ops ck) = new_entry P h (?W ck) (?M ck) (latest S u ck)" for ck
  proof (cases "map_of t ck")
    case None
    then have "?W ck = None" "?M ck = None" using t(3) [of ck] by (auto simp: key_entry_def split: if_splits)
    then show ?thesis using ops(3) [of ck] None by (simp add: new_entry_def)
  next
    case (Some ko)
    then show ?thesis using prep [OF Some] ops(3) [of ck] by auto
  qed
  moreover have "loc_ok ck \<and> ko_isDelete ko = (case ?W ck of None \<Rightarrow> False | Some w \<Rightarrow> rw_IsDelete w)" if "map_of ops ck = Some ko" for ck ko
    using that ops(3) [of ck] prep [of ck] by (cases "map_of t ck") auto
  ultimately show ?thesis using ops(2) by blast
qed

lemma new_entry_stored:
  assumes "db_ok P S db" "updates_inv u" "rwset_ok P rws"
    and "new_entry P h (map_of (writes (tx_ops rws)) ck) (map_of (metas (tx_ops rws)) ck) (latest S u ck) = Some e" "vv_Value e \<noteq> None"
  shows "stored e"
proof -
  have m: "meta_bytes P es \<noteq> Some []" if "map_of (metas (tx_ops rws)) ck = Some es" for es
    using assms(3) map_of_SomeD [OF that] by (fastforce simp: rwset_ok_def serializable_entries_def meta_bytes_def split: option.splits result.splits)
  show ?thesis using assms(4,5) m latest_metadata(1) [OF assms(1,2), of ck]
    by (cases "latest S u ck") (auto simp: new_entry_def stored_def split: option.splits if_splits)
qed

lemma orphan_entry:
  assumes db: "db_ok P S db" and u: "updates_inv u" and ok: "rwset_ok P rws"
    and k: "map_option (final_vv h) k = new_entry P h (map_of (writes (tx_ops rws)) ck) (map_of (metas (tx_ops rws)) ck) (latest S u ck)"
    and del: "\<And>ko. k = Some ko \<Longrightarrow> ko_isDelete ko = (case map_of (writes (tx_ops rws)) ck of None \<Rightarrow> False | Some w \<Rightarrow> rw_IsDelete w)"
  shows "(\<exists>ko. k = Some ko \<and> \<not> ko_isDelete ko \<and> ko_value ko = None) \<longleftrightarrow> orphan_metadata rws u ck"
proof (cases "map_of (writes (tx_ops rws)) ck")
  case (Some w)
  then have "rw_IsDelete w \<or> rw_Value w \<noteq> None" using ok map_of_SomeD [OF Some] by (auto simp: rwset_ok_def)
  then show ?thesis using k del Some by (cases k) (auto simp: new_entry_def final_vv_def orphan_metadata_def split: if_splits)
next
  case None
  show ?thesis
  proof (cases "map_of (metas (tx_ops rws)) ck")
    case m: (Some es)
    have "(\<exists>v. latest S u ck = Some v \<and> vv_Value v = None) \<longleftrightarrow> (\<exists>vv. upd u ck = Some vv \<and> vv_Value vv = None)"
      using latest_metadata(2) [OF db u, of ck] by (auto simp: latest_def)
    then show ?thesis using k del None m by (cases k; cases "latest S u ck") (auto simp: new_entry_def final_vv_def orphan_metadata_def)
  qed (use k None in \<open>simp add: new_entry_def orphan_metadata_def\<close>)
qed

lemma applyWriteSet_run:
  assumes db: "db_ok P S db" and u: "updates_inv u" and ok: "rwset_ok P rws"
  shows "applyWriteSet P rws h db po u = Ok u' \<Longrightarrow> updates_inv u' \<and>
       (\<forall>ck. upd u' ck = (case new_entry P h (map_of (writes (tx_ops rws)) ck) (map_of (metas (tx_ops rws)) ck) (latest S u ck) of None \<Rightarrow> upd u ck | Some e \<Rightarrow> Some e))"
    "(\<exists>u'. applyWriteSet P rws h db po u = Ok u') \<longleftrightarrow> (\<forall>ck. \<not> orphan_metadata rws u ck)"
proof -
  let ?W = "map_of (writes (tx_ops rws))" and ?M = "map_of (metas (tx_ops rws))"
  define u1 where "u1 = u\<lparr>publicUpdates := (publicUpdates u)\<lparr>ContainsPostOrderWrites := ContainsPostOrderWrites (publicUpdates u) \<or> po\<rparr>\<rparr>"
  have u1: "upd u1 = upd u" by (auto simp: u1_def upd_def batch_Get_def)
  then have l1: "latest S u1 = latest S u" by (auto simp: latest_def fun_eq_iff)
  have inv1: "updates_inv u1" using u unfolding updates_inv_def u1
    by (simp add: u1_def plain_storable_def storable_def batch_wf_def batch_Get_def)
  obtain ops where ops: "prepareTxOps P rws u1 db = Ok ops" "distinct (map fst ops)"
    "\<And>ck. map_option (final_vv h) (map_of ops ck) = new_entry P h (?W ck) (?M ck) (latest S u ck)"
    "\<And>ck ko. map_of ops ck = Some ko \<Longrightarrow> loc_ok ck \<and> ko_isDelete ko = (case ?W ck of None \<Rightarrow> False | Some w \<Rightarrow> rw_IsDelete w)"
    using prepareTxOps_run [OF db ok, of u1 h] unfolding l1 by blast
  have run: "applyWriteSet P rws h db po u = rfold (apply_op h) ops u1" using ops(1) by (simp add: applyWriteSet_def u1_def)
  have mem: "map_of ops ck = Some ko" if "(ck, ko) \<in> set ops" for ck ko using that ops(2) by simp
  have val: "vv_Value (final_vv h ko) = (if ko_isDelete ko then None else ko_value ko)" for ko by (simp add: final_vv_def)
  have st: "loc_ok ck \<and> (ko_isDelete ko \<or> ko_value ko \<noteq> None \<longrightarrow> ko_isDelete ko \<or> stored (final_vv h ko))" if "(ck, ko) \<in> set ops" for ck ko
    using ops(3) [of ck] ops(4) [OF mem [OF that]] mem [OF that] new_entry_stored [OF db u ok, of h ck "final_vv h ko"] val [of ko] by auto
  show "updates_inv u' \<and> (\<forall>ck. upd u' ck = (case new_entry P h (?W ck) (?M ck) (latest S u ck) of None \<Rightarrow> upd u ck | Some e \<Rightarrow> Some e))"
    if r: "applyWriteSet P rws h db po u = Ok u'"
  proof
    have r': "rfold (apply_op h) ops u1 = Ok u'" using r run by simp
    show "updates_inv u'" using apply_ops_run(2) [OF ops(2) r' inv1] st by blast
    show "\<forall>ck. upd u' ck = (case new_entry P h (?W ck) (?M ck) (latest S u ck) of None \<Rightarrow> upd u ck | Some e \<Rightarrow> Some e)"
      using apply_ops_run(1) [OF ops(2) r'] u1 by (auto simp flip: ops(3) split: option.split)
  qed
  have "(\<exists>ko. map_of ops ck = Some ko \<and> \<not> ko_isDelete ko \<and> ko_value ko = None) \<longleftrightarrow> orphan_metadata rws u ck" for ck
    using ops(4) [of ck] by (intro orphan_entry [OF db u ok ops(3)]) blast
  then have "(\<forall>ck ko. map_of ops ck = Some ko \<longrightarrow> ko_isDelete ko \<or> ko_value ko \<noteq> None) \<longleftrightarrow> (\<forall>ck. \<not> orphan_metadata rws u ck)" by metis
  moreover have "(\<forall>(ck, ko) \<in> set ops. Q ko) \<longleftrightarrow> (\<forall>ck ko. map_of ops ck = Some ko \<longrightarrow> Q ko)" for Q
    using mem by (auto dest: map_of_SomeD)
  ultimately have "(\<forall>(ck, ko) \<in> set ops. ko_isDelete ko \<or> ko_value ko \<noteq> None) \<longleftrightarrow> (\<forall>ck. \<not> orphan_metadata rws u ck)" by simp
  then show "(\<exists>u'. applyWriteSet P rws h db po u = Ok u') \<longleftrightarrow> (\<forall>ck. \<not> orphan_metadata rws u ck)"
    unfolding run using apply_ops_run(3) [OF ops(2)] by simp
qed

section \<open>The serial execution\<close>

type_synonym lstate = "compositeKey \<Rightarrow> VersionedValue option"

definition tx_apply :: "validation_params \<Rightarrow> Height \<Rightarrow> TxRwSet \<Rightarrow> lstate \<Rightarrow> lstate" where
  "tx_apply P h rws \<sigma> ck = (case map_of (writes (tx_ops rws)) ck of
       Some w \<Rightarrow> if rw_IsDelete w then None else Some
         \<lparr>vv_Value = rw_Value w,
          vv_Metadata = (case map_of (metas (tx_ops rws)) ck of None \<Rightarrow> Option.bind (\<sigma> ck) vv_Metadata | Some es \<Rightarrow> meta_bytes P es),
          vv_Version = Some h\<rparr>
     | None \<Rightarrow> (case map_of (metas (tx_ops rws)) ck of
         None \<Rightarrow> \<sigma> ck
       | Some es \<Rightarrow> map_option (\<lambda>v. \<lparr>vv_Value = vv_Value v, vv_Metadata = meta_bytes P es, vv_Version = Some h\<rparr>) (\<sigma> ck)))"

definition tx_touch :: "TxRwSet \<Rightarrow> lstate \<Rightarrow> compositeKey set \<Rightarrow> compositeKey set" where
  "tx_touch rws \<sigma> T = T \<union> {ck. map_of (writes (tx_ops rws)) ck \<noteq> None \<or> map_of (metas (tx_ops rws)) ck \<noteq> None \<and> \<sigma> ck \<noteq> None}"

definition read_current :: "lstate \<Rightarrow> compositeKey set \<Rightarrow> compositeKey \<Rightarrow> ProtoVersion option \<Rightarrow> bool" where
  "read_current \<sigma> T ck ver \<longleftrightarrow> ck \<notin> T \<and> Option.bind (\<sigma> ck) vv_Version = NewVersion ver"

definition range_current :: "validation_params \<Rightarrow> lstate \<Rightarrow> string \<Rightarrow> RangeQueryInfo \<Rightarrow> bool" where
  "range_current P \<sigma> ns q \<longleftrightarrow> (\<exists>ks.
     scan_of (\<lambda>k. \<sigma> (mk_ck ns '''' k)) (\<lambda>k. in_range (rq_StartKey q) (rq_EndKey q) k \<or> \<not> rq_ItrExhausted q \<and> k = rq_EndKey q) ks \<and>
     (let reads = map (\<lambda>k. NewKVRead k (vv_Version (the (\<sigma> (mk_ck ns '''' k))))) ks in
      case GetReadsMerkleHashes q of
        None \<Rightarrow> GetKvReads q = reads
      | Some s \<Rightarrow> results_summary (vp_hashing P) (ms_MaxDegree s) reads = Some (Ok (Some s))))"

fun tx_code :: "validation_params \<Rightarrow> lstate \<Rightarrow> compositeKey set \<Rightarrow> NsRwSet list \<Rightarrow> int" where
  "tx_code P \<sigma> T [] = TxValidationCode_VALID"
| "tx_code P \<sigma> T (n # ns) =
     (if \<not> (\<forall>r \<in> set (Reads (KvRwSet n)). read_current \<sigma> T (mk_ck (NameSpace n) '''' (kr_Key r)) (kr_Version r)) then TxValidationCode_MVCC_READ_CONFLICT
      else if \<not> (\<forall>q \<in> set (RangeQueriesInfo (KvRwSet n)). range_current P \<sigma> (NameSpace n) q) then TxValidationCode_PHANTOM_READ_CONFLICT
      else if \<not> (\<forall>c \<in> set (CollHashedRwSets n). \<forall>r \<in> set (HashedReads (HashedRwSet c)).
        read_current \<sigma> T (mk_ck (NameSpace n) (CollectionName c) (to_string (rh_KeyHash r))) (rh_Version r)) then TxValidationCode_MVCC_READ_CONFLICT
      else tx_code P \<sigma> T ns)"

fun serial :: "validation_params \<Rightarrow> uint64 \<Rightarrow> bool \<Rightarrow> transaction list \<Rightarrow> lstate \<Rightarrow> compositeKey set \<Rightarrow> int list \<times> lstate \<times> compositeKey set" where
  "serial P n mvcc [] \<sigma> T = ([], \<sigma>, T)"
| "serial P n mvcc (tx # txs) \<sigma> T =
     (let c = (if mvcc then tx_code P \<sigma> T (NsRwSets (tx_rwset tx)) else TxValidationCode_VALID);
          h = NewHeight n (word_of_nat (tx_indexInBlock tx));
          (cs, \<sigma>', T') = (if c = TxValidationCode_VALID then serial P n mvcc txs (tx_apply P h (tx_rwset tx) \<sigma>) (tx_touch (tx_rwset tx) \<sigma> T)
            else serial P n mvcc txs \<sigma> T)
      in (c # cs, \<sigma>', T'))"

lemma view_apply:
  assumes db: "db_ok P S db" and u: "updates_inv u" and ok: "rwset_ok P rws" and run: "applyWriteSet P rws h db po u = Ok u'"
  shows "view S u' = tx_apply P h rws (view S u) \<and> touched u' = tx_touch rws (view S u) (touched u)"
proof -
  let ?W = "map_of (writes (tx_ops rws))" and ?M = "map_of (metas (tx_ops rws))"
  have upd': "upd u' ck = (case new_entry P h (?W ck) (?M ck) (latest S u ck) of None \<Rightarrow> upd u ck | Some e \<Rightarrow> Some e)" for ck
    using applyWriteSet_run(1) [OF db u ok run] by blast
  have orphan: "\<not> orphan_metadata rws u ck" for ck using applyWriteSet_run(2) [OF db u ok, of h po] run by blast
  have w: "rw_IsDelete w \<or> rw_Value w \<noteq> None" if "?W ck = Some w" for ck w using ok map_of_SomeD [OF that] by (auto simp: rwset_ok_def)
  have c: "vv_Value v \<noteq> None" if "committed S ck = Some v" for ck v
    using db that by (auto simp: db_ok_def state_repr_def committed_def stored_def)
  have *: "view S u' ck = tx_apply P h rws (view S u) ck \<and> (ck \<in> touched u' \<longleftrightarrow> ck \<in> tx_touch rws (view S u) (touched u))" for ck
  proof (cases "upd u ck")
    case None
    then show ?thesis using upd' [of ck] w [of ck] c [of ck]
      by (auto simp: view_def latest_def tx_apply_def tx_touch_def touched_def new_entry_def split: option.splits)
  next
    case (Some vv)
    then show ?thesis using upd' [of ck] w [of ck] orphan [of ck] upd_inv(2) [OF u Some, unfolded stored_def]
      by (auto simp: view_def latest_def tx_apply_def tx_touch_def touched_def new_entry_def orphan_metadata_def split: option.splits if_splits)
  qed
  then show ?thesis by blast
qed

section \<open>Validation decides whether the reads are current\<close>

lemma all_valid_True: "all_valid f xs = Some (Ok True) \<longleftrightarrow> (\<forall>x \<in> set xs. f x = Some (Ok True))"
  by (induction xs) (auto simp: obind_def split: option.splits result.splits if_splits)

lemma all_valid_False: "all_valid f xs = Some (Ok False) \<Longrightarrow> \<exists>x \<in> set xs. f x \<noteq> Some (Ok True)"
  using all_valid_True [of f xs] by auto

lemma all_valid_pure: "(\<And>x. x \<in> set xs \<Longrightarrow> f x = Some (Ok (Q x))) \<Longrightarrow> all_valid f xs = Some (Ok (\<forall>x \<in> set xs. Q x))"
  by (induction xs) auto

lemma all_valid_returns: "\<forall>x \<in> set xs. \<exists>r. f x = Some r \<Longrightarrow> \<exists>r. all_valid f xs = Some r"
  by (induction xs) (auto simp: obind_def split: result.split)

lemma all_valid_Ok: "\<forall>x \<in> set xs. \<exists>b. f x = Some (Ok b) \<Longrightarrow> \<exists>b. all_valid f xs = Some (Ok b)"
  by (induction xs) auto

lemma GetVersion_current:
  assumes "db_ok P S db" "loc_ok ck" "upd u ck = None"
  shows "pd_GetVersion (vp_values P) (if cp_coll ck = '''' then cp_ns ck else deriveHashedDataNs (cp_ns ck) (cp_coll ck)) (cp_key ck) db =
     Ok (Option.bind (view S u ck) vv_Version)"
  using GetState_committed [OF assms(1,2)] assms(3)
  by (simp add: pd_GetVersion_def pd_GetState_def GetVersion_def view_def split: option.split)

lemma validateKVRead_current:
  assumes "db_ok P S db" "plain ns"
  shows "validateKVRead P db ns (publicUpdates u) r = Ok (read_current (view S u) (touched u) (mk_ck ns '''' (kr_Key r)) (kr_Version r))"
  using GetVersion_current [OF assms(1), of "mk_ck ns '''' (kr_Key r)" u] assms(2)
  by (auto simp: validateKVRead_def read_current_def touched_def upd_def loc_ok_def AreSame_iff)

lemma validateKVReadHash_current:
  assumes "db_ok P S db" "plain ns" "plain coll" "coll \<noteq> ''''"
  shows "validateKVReadHash P db ns coll (hashUpdates u) r = Ok (read_current (view S u) (touched u) (mk_ck ns coll (to_string (rh_KeyHash r))) (rh_Version r))"
  using GetVersion_current [OF assms(1), of "mk_ck ns coll (to_string (rh_KeyHash r))" u] assms(2-4)
  by (auto simp: validateKVReadHash_def read_current_def touched_def upd_def loc_ok_def AreSame_iff hb_Contains_def GetKeyHashVersion_def)

lemma scan_of_unique: "scan_of f Q ks \<Longrightarrow> scan_of f Q ks' \<Longrightarrow> ks = ks'"
proof -
  assume s: "scan_of f Q ks" "scan_of f Q ks'"
  have "sorted_wrt (<) (map to_bytes ks)" "sorted_wrt (<) (map to_bytes ks')" "set (map to_bytes ks) = set (map to_bytes ks')"
    using s by (auto simp: scan_of_def sorted_wrt_map)
  then have "map to_bytes ks = map to_bytes ks'" by (metis strict_sorted_equal)
  then show ?thesis by (simp add: inj_map_eq_map inj_def)
qed

lemma view_public: "view S u (mk_ck ns '''' k) = applied (publicUpdates u) S ns k"
  by (simp add: view_def upd_def committed_def applied_def split: option.split)

lemma validateRangeQuery_current:
  assumes db: "db_ok P S db" and u: "updates_inv u" and ns: "plain ns" and e: "rq_ItrExhausted q \<or> rq_EndKey q \<noteq> ''''"
  shows "validateRangeQuery P db ns (publicUpdates u) q = Some (Ok True) \<longleftrightarrow> range_current P (view S u) ns q" "\<exists>r. validateRangeQuery P db ns (publicUpdates u) q = Some r"
proof -
  let ?V = "vp_values P" and ?d = "pd_dbName db" and ?D = "pd_db db" and ?u = "publicUpdates u" and ?\<sigma> = "view S u"
  obtain itr ks where i: "newCombinedIterator ?V ?d ?D ?u ns (rq_StartKey q) (rq_EndKey q) (\<not> rq_ItrExhausted q) = Ok itr" "comb_valid ?V ?d ?D ?u itr"
    "scan_of (applied ?u S ns) (\<lambda>k. in_range (rq_StartKey q) (rq_EndKey q) k \<or> \<not> rq_ItrExhausted q \<and> k = rq_EndKey q) ks"
    "map read_of (comb_items ?V ?d ?D ?u itr) = map (\<lambda>k. NewKVRead k (vv_Version (the (applied ?u S ns k)))) ks"
    "\<forall>kv \<in> set (comb_items ?V ?d ?D ?u itr). vkv_Version kv \<noteq> None"
    using comb_scan [where V = ?V and dbName = ?d and S = S and db = ?D and ns = ns and updates = ?u and endKey = "rq_EndKey q"
        and inc = "\<not> rq_ItrExhausted q" and startKey = "rq_StartKey q"] db u ns e
    unfolding db_ok_def updates_inv_def plain_storable_def by auto
  have "range_current P ?\<sigma> ns q \<longleftrightarrow> (case GetReadsMerkleHashes q of None \<Rightarrow> GetKvReads q = map read_of (comb_items ?V ?d ?D ?u itr)
     | Some s \<Rightarrow> results_summary (vp_hashing P) (ms_MaxDegree s) (map read_of (comb_items ?V ?d ?D ?u itr)) = Some (Ok (Some s)))"
    unfolding range_current_def view_public Let_def i(4) using i(3) scan_of_unique [OF i(3)] by blast
  then show "validateRangeQuery P db ns ?u q = Some (Ok True) \<longleftrightarrow> range_current P ?\<sigma> ns q"
    using comb_iter.results_validate_iff [OF i(2,5), of q] comb_iter.hash_validate_iff [OF i(2), of "vp_hashing P"] i(1)
    by (simp add: validateRangeQuery_def Let_def split: option.split)
  show "\<exists>r. validateRangeQuery P db ns ?u q = Some r"
    using comb_iter.hash_validate_returns [OF i(2), of "vp_hashing P"] i(1) by (auto simp: validateRangeQuery_def Let_def split: option.split)
qed

definition raw_queries :: "NsRwSet list \<Rightarrow> bool" where
  "raw_queries nss \<longleftrightarrow> (\<forall>n \<in> set nss. \<forall>q \<in> set (RangeQueriesInfo (KvRwSet n)).
     GetReadsMerkleHashes q = None \<and> (\<forall>r \<in> set (GetKvReads q). kr_Version r \<noteq> None))"

lemma validateRangeQuery_Ok:
  assumes db: "db_ok P S db" and u: "updates_inv u" and ns: "plain ns" and e: "rq_ItrExhausted q \<or> rq_EndKey q \<noteq> ''''"
    and q: "GetReadsMerkleHashes q = None" "\<forall>r \<in> set (GetKvReads q). kr_Version r \<noteq> None"
  shows "\<exists>b. validateRangeQuery P db ns (publicUpdates u) q = Some (Ok b)"
proof -
  let ?V = "vp_values P" and ?d = "pd_dbName db" and ?D = "pd_db db" and ?u = "publicUpdates u"
  obtain itr where i: "newCombinedIterator ?V ?d ?D ?u ns (rq_StartKey q) (rq_EndKey q) (\<not> rq_ItrExhausted q) = Ok itr" "comb_valid ?V ?d ?D ?u itr"
    using comb_scan [where V = ?V and dbName = ?d and S = S and db = ?D and ns = ns and updates = ?u and endKey = "rq_EndKey q"
        and inc = "\<not> rq_ItrExhausted q" and startKey = "rq_StartKey q"] db u ns e
    unfolding db_ok_def updates_inv_def plain_storable_def by auto
  then show ?thesis using comb_iter.results_validate_Ok [OF i(2) q(2)] q(1) by (auto simp: validateRangeQuery_def Let_def)
qed

definition namespaces_ok :: "NsRwSet list \<Rightarrow> bool" where
  "namespaces_ok nss \<longleftrightarrow> (\<forall>n \<in> set nss. plain (NameSpace n) \<and>
     (\<forall>c \<in> set (CollHashedRwSets n). plain (CollectionName c) \<and> CollectionName c \<noteq> '''') \<and>
     (\<forall>q \<in> set (RangeQueriesInfo (KvRwSet n)). rq_ItrExhausted q \<or> rq_EndKey q \<noteq> ''''))"

lemma validate_reads:
  assumes "db_ok P S db" "plain ns"
  shows "validateReadSet P db ns rs (publicUpdates u) = Some (Ok (\<forall>r \<in> set rs. read_current (view S u) (touched u) (mk_ck ns '''' (kr_Key r)) (kr_Version r)))"
  unfolding validateReadSet_def using validateKVRead_current [OF assms] by (intro all_valid_pure) simp

lemma validate_hashed_reads:
  assumes "db_ok P S db" "plain ns" "\<forall>c \<in> set cs. plain (CollectionName c) \<and> CollectionName c \<noteq> ''''"
  shows "validateNsHashedReadSets P db ns cs (hashUpdates u) = Some (Ok (\<forall>c \<in> set cs. \<forall>r \<in> set (HashedReads (HashedRwSet c)).
     read_current (view S u) (touched u) (mk_ck ns (CollectionName c) (to_string (rh_KeyHash r))) (rh_Version r)))"
proof -
  have "validateCollHashedReadSet P db ns (CollectionName c) (HashedReads (HashedRwSet c)) (hashUpdates u) = Some (Ok (\<forall>r \<in> set (HashedReads (HashedRwSet c)).
     read_current (view S u) (touched u) (mk_ck ns (CollectionName c) (to_string (rh_KeyHash r))) (rh_Version r)))" if "c \<in> set cs" for c
    unfolding validateCollHashedReadSet_def using validateKVReadHash_current [OF assms(1,2)] assms(3) that by (intro all_valid_pure) simp
  then show ?thesis unfolding validateNsHashedReadSets_def by (intro all_valid_pure) simp
qed

lemma validate_namespaces_code:
  assumes db: "db_ok P S db" and u: "updates_inv u" and nss: "namespaces_ok nss"
  shows "(\<forall>c. validate_namespaces P db u nss = Some (Ok c) \<longrightarrow> c = tx_code P (view S u) (touched u) nss) \<and>
    (\<exists>r. validate_namespaces P db u nss = Some r) \<and> (raw_queries nss \<longrightarrow> (\<exists>c. validate_namespaces P db u nss = Some (Ok c)))"
  using nss
proof (induction nss)
  case (Cons n nss)
  let ?ns = "NameSpace n" and ?qs = "RangeQueriesInfo (KvRwSet n)"
  have n: "plain ?ns" "\<forall>c \<in> set (CollHashedRwSets n). plain (CollectionName c) \<and> CollectionName c \<noteq> ''''" "namespaces_ok nss"
    "\<forall>q \<in> set ?qs. rq_ItrExhausted q \<or> rq_EndKey q \<noteq> ''''"
    using Cons.prems by (simp_all add: namespaces_ok_def)
  note R = validate_reads [OF db n(1), of "Reads (KvRwSet n)" u] and H = validate_hashed_reads [OF db n(1,2), of u]
  have Q: "validateRangeQueries P db ?ns ?qs (publicUpdates u) = Some (Ok True) \<longleftrightarrow> (\<forall>q \<in> set ?qs. range_current P (view S u) ?ns q)"
    unfolding validateRangeQueries_def all_valid_True using validateRangeQuery_current(1) [OF db u n(1)] n(4) by blast
  have Qr: "\<exists>r. validateRangeQueries P db ?ns ?qs (publicUpdates u) = Some r"
    unfolding validateRangeQueries_def using validateRangeQuery_current(2) [OF db u n(1)] n(4) by (intro all_valid_returns) blast
  have Qo: "\<exists>b. validateRangeQueries P db ?ns ?qs (publicUpdates u) = Some (Ok b)" if "raw_queries (n # nss)"
    unfolding validateRangeQueries_def using validateRangeQuery_Ok [OF db u n(1)] n(4) that by (intro all_valid_Ok) (simp add: raw_queries_def)
  have raw: "raw_queries (n # nss) \<Longrightarrow> raw_queries nss" by (simp add: raw_queries_def)
  have "c = tx_code P (view S u) (touched u) (n # nss)" if "validate_namespaces P db u (n # nss) = Some (Ok c)" for c
    using that Cons.IH n(3) R H Q by (auto simp: obind_def Let_def split: option.splits result.splits if_splits)
  moreover have "\<exists>r. validate_namespaces P db u (n # nss) = Some r"
    using Cons.IH n(3) R H Qr by (auto simp: obind_def Let_def split: result.splits)
  moreover have "\<exists>c. validate_namespaces P db u (n # nss) = Some (Ok c)" if "raw_queries (n # nss)"
    using Cons.IH n(3) R H Qo [OF that] raw [OF that] by (auto simp: Let_def)
  ultimately show ?case by blast
qed simp

section \<open>Blocks\<close>

text \<open>
  No transaction sets only the metadata of a key that an earlier transaction of the block deletes;
  the list holds the keys deleted so far.
\<close>

definition deleted_keys :: "TxRwSet \<Rightarrow> compositeKey list" where
  "deleted_keys rws = map fst (filter (\<lambda>(ck, w). rw_IsDelete w) (writes (tx_ops rws)))"

fun no_orphans :: "transaction list \<Rightarrow> compositeKey list \<Rightarrow> bool" where
  "no_orphans [] D = True"
| "no_orphans (tx # txs) D =
     (list_all (\<lambda>ck. map_of (writes (tx_ops (tx_rwset tx))) ck \<noteq> None \<or> map_of (metas (tx_ops (tx_rwset tx))) ck = None) D \<and>
      no_orphans txs (D @ deleted_keys (tx_rwset tx)))"

definition tombstones :: "publicAndHashUpdates \<Rightarrow> compositeKey set" where
  "tombstones u = {ck. \<exists>vv. upd u ck = Some vv \<and> vv_Value vv = None}"

lemma no_orphans_mono: "set D' \<subseteq> set D \<Longrightarrow> no_orphans txs D \<Longrightarrow> no_orphans txs D'"
proof (induction txs arbitrary: D D')
  case (Cons tx txs)
  have "set (D' @ deleted_keys (tx_rwset tx)) \<subseteq> set (D @ deleted_keys (tx_rwset tx))" using Cons.prems(1) by auto
  then have "no_orphans txs (D' @ deleted_keys (tx_rwset tx))" using Cons.IH Cons.prems(2) by (metis no_orphans.simps(2))
  then show ?case using Cons.prems by (auto simp: list_all_iff)
qed simp

lemma tombstones_apply:
  assumes db: "db_ok P S db" and u: "updates_inv u" and ok: "rwset_ok P rws" and run: "applyWriteSet P rws h db po u = Ok u'"
    and D: "tombstones u \<subseteq> set D"
  shows "tombstones u' \<subseteq> set (D @ deleted_keys rws)"
proof
  fix ck assume "ck \<in> tombstones u'"
  then obtain vv where vv: "upd u' ck = Some vv" "vv_Value vv = None" by (auto simp: tombstones_def)
  let ?W = "map_of (writes (tx_ops rws))" and ?M = "map_of (metas (tx_ops rws))"
  have e: "upd u' ck = (case new_entry P h (?W ck) (?M ck) (latest S u ck) of None \<Rightarrow> upd u ck | Some e \<Rightarrow> Some e)"
    using applyWriteSet_run(1) [OF db u ok run] by blast
  show "ck \<in> set (D @ deleted_keys rws)"
  proof (cases "?W ck")
    case (Some w)
    then have "rw_IsDelete w \<or> rw_Value w \<noteq> None" using ok map_of_SomeD [OF Some] by (auto simp: rwset_ok_def)
    then have "rw_IsDelete w" using e vv Some by (auto simp: new_entry_def split: if_splits)
    then show ?thesis using map_of_SomeD [OF Some] by (force simp: deleted_keys_def)
  next
    case None
    have "Some vv = (case new_entry P h (?W ck) (?M ck) (latest S u ck) of None \<Rightarrow> upd u ck | Some e \<Rightarrow> Some e)" using e vv(1) by simp
    then have "\<exists>v. upd u ck = Some v \<and> vv_Value v = None"
      using vv(2) None latest_metadata(2) [OF db u, of ck]
      by (cases "?M ck"; cases "latest S u ck") (auto simp: new_entry_def intro: exI [of _ vv])
    then show ?thesis using D by (auto simp: tombstones_def)
  qed
qed

lemma no_orphans_apply: "no_orphans (tx # txs) D \<Longrightarrow> tombstones u \<subseteq> set D \<Longrightarrow> \<not> orphan_metadata (tx_rwset tx) u ck"
  unfolding no_orphans.simps list_all_iff orphan_metadata_def tombstones_def by (metis (mono_tags, lifting) mem_Collect_eq subsetD)

lemma rwset_namespaces: "rwset_ok P rws \<Longrightarrow> namespaces_ok (NsRwSets rws)"
  by (simp add: rwset_ok_def namespaces_ok_def)

text \<open>What a run of the loop promises.\<close>

definition run_ok ::
  "validation_params \<Rightarrow> state \<Rightarrow> uint64 \<Rightarrow> bool \<Rightarrow> transaction list \<Rightarrow> compositeKey list \<Rightarrow> publicAndHashUpdates \<Rightarrow>
     (publicAndHashUpdates \<times> transaction list) result \<Rightarrow> bool" where
  "run_ok P S n mvcc txs D u r \<longleftrightarrow>
     (\<forall>u' ts. r = Ok (u', ts) \<longrightarrow> updates_inv u' \<and> (case serial P n mvcc txs (view S u) (touched u) of (cs, \<sigma>, T) \<Rightarrow>
        ts = map2 (\<lambda>tx c. tx\<lparr>tx_validationCode := c\<rparr>) txs cs \<and> view S u' = \<sigma> \<and> touched u' = T)) \<and>
     ((\<forall>tx \<in> set txs. raw_queries (NsRwSets (tx_rwset tx))) \<longrightarrow> no_orphans txs D \<longrightarrow> tombstones u \<subseteq> set D \<longrightarrow> (\<exists>x. r = Ok x))"

lemma validateEndorserTX_code:
  assumes "db_ok P S db" "updates_inv u" "rwset_ok P rws"
  shows "\<exists>r. validateEndorserTX P db rws mvcc u = Some r \<and>
     (\<forall>c. r = Ok c \<longrightarrow> c = (if mvcc then tx_code P (view S u) (touched u) (NsRwSets rws) else TxValidationCode_VALID)) \<and>
     (raw_queries (NsRwSets rws) \<longrightarrow> (\<exists>c. r = Ok c))"
  using validate_namespaces_code [OF assms(1,2) rwset_namespaces [OF assms(3)]] by (auto simp: validateEndorserTX_def validateTx_def)

lemma run_ok_step:
  assumes c: "c = (if mvcc then tx_code P (view S u) (touched u) (NsRwSets (tx_rwset tx)) else TxValidationCode_VALID)"
    and w: "if c = TxValidationCode_VALID then view S u1 = tx_apply P (NewHeight n (word_of_nat (tx_indexInBlock tx))) (tx_rwset tx) (view S u) \<and>
        touched u1 = tx_touch (tx_rwset tx) (view S u) (touched u) else u1 = u"
    and t: "tombstones u \<subseteq> set D \<longrightarrow> tombstones u1 \<subseteq> set (D @ deleted_keys (tx_rwset tx))"
    and r1: "run_ok P S n mvcc txs (D @ deleted_keys (tx_rwset tx)) u1 r1"
  shows "run_ok P S n mvcc (tx # txs) D u (rbind r1 (\<lambda>(u', ts). Ok (u', tx\<lparr>tx_validationCode := c\<rparr> # ts)))"
proof -
  have s: "serial P n mvcc (tx # txs) (view S u) (touched u) = (case serial P n mvcc txs (view S u1) (touched u1) of (cs, \<sigma>, T) \<Rightarrow> (c # cs, \<sigma>, T))"
    using w by (simp add: Let_def c split: if_splits)
  show ?thesis
  proof (cases r1)
    case (Ok x)
    obtain u' ts where x: "x = (u', ts)" by force
    show ?thesis using r1 Ok x unfolding run_ok_def s by (auto split: prod.splits)
  qed (use r1 t in \<open>auto simp: run_ok_def\<close>)
qed

lemma validate_txs_serial:
  assumes db: "db_ok P S db" and "updates_inv u" "\<forall>tx \<in> set txs. rwset_ok P (tx_rwset tx)"
  shows "\<exists>r. validate_txs P db n mvcc txs u = Some r \<and> run_ok P S n mvcc txs D u r"
  using assms(2,3)
proof (induction txs arbitrary: u D)
  case Nil
  then show ?case by (simp add: run_ok_def)
next
  case (Cons tx txs)
  let ?rws = "tx_rwset tx" and ?h = "NewHeight n (word_of_nat (tx_indexInBlock tx))" and ?D = "D @ deleted_keys (tx_rwset tx)"
  have ok: "rwset_ok P ?rws" and oks: "\<forall>tx \<in> set txs. rwset_ok P (tx_rwset tx)" using Cons.prems(2) by simp_all
  obtain r where r: "validateEndorserTX P db ?rws mvcc u = Some r" "\<forall>c. r = Ok c \<longrightarrow> c = (if mvcc then tx_code P (view S u) (touched u) (NsRwSets ?rws) else TxValidationCode_VALID)"
    "raw_queries (NsRwSets ?rws) \<longrightarrow> (\<exists>c. r = Ok c)"
    using validateEndorserTX_code [OF db Cons.prems(1) ok] by blast
  show ?case
  proof (cases r)
    case (Ok c)
    define w where "w = (if c = TxValidationCode_VALID then applyWriteSet P ?rws ?h db (tx_containsPostOrderWrites tx) u else Ok u)"
    have run: "validate_txs P db n mvcc (tx # txs) u =
       obind (Some w) (\<lambda>u1. obind (validate_txs P db n mvcc txs u1) (\<lambda>(u', ts). Some (Ok (u', tx\<lparr>tx_validationCode := c\<rparr> # ts))))"
      using r(1) Ok by (simp add: w_def)
    have bad: "\<exists>u1. w = Ok u1" if "no_orphans (tx # txs) D" "tombstones u \<subseteq> set D"
      using applyWriteSet_run(2) [OF db Cons.prems(1) ok] no_orphans_apply [OF that] unfolding w_def by (cases "c = TxValidationCode_VALID") auto
    show ?thesis
    proof (cases w)
      case w: (Ok u1)
      have inv: "updates_inv u1" using w applyWriteSet_run(1) [OF db Cons.prems(1) ok] Cons.prems(1) unfolding w_def by (metis result.inject(1))
      have v: "if c = TxValidationCode_VALID then view S u1 = tx_apply P ?h ?rws (view S u) \<and> touched u1 = tx_touch ?rws (view S u) (touched u) else u1 = u"
        using w view_apply [OF db Cons.prems(1) ok] unfolding w_def by (metis result.inject(1))
      have t: "tombstones u \<subseteq> set D \<longrightarrow> tombstones u1 \<subseteq> set ?D"
        using w tombstones_apply [OF db Cons.prems(1) ok] unfolding w_def by (metis le_supI1 result.inject(1) set_append)
      obtain r1 where r1: "validate_txs P db n mvcc txs u1 = Some r1" "run_ok P S n mvcc txs ?D u1 r1"
        using Cons.IH [OF inv oks] by blast
      have "validate_txs P db n mvcc (tx # txs) u = Some (rbind r1 (\<lambda>(u', ts). Ok (u', tx\<lparr>tx_validationCode := c\<rparr> # ts)))"
        unfolding run w using r1(1) by (cases r1) (auto split: prod.splits)
      then show ?thesis using run_ok_step [OF _ v t r1(2)] r(2) Ok by blast
    next
      case (Err e)
      then show ?thesis using run bad by (auto simp: run_ok_def)
    next
      case (Panic p)
      then show ?thesis using run bad by (auto simp: run_ok_def)
    qed
  next
    case (Err e)
    then show ?thesis using r by (auto simp: run_ok_def)
  next
    case (Panic p)
    then show ?thesis using r by (auto simp: run_ok_def)
  qed
qed

lemma updates_inv_new [simp]: "updates_inv newPubAndHashUpdates"
  by (simp add: updates_inv_def newPubAndHashUpdates_def NewPubUpdateBatch_def NewHashedUpdateBatch_def plain_storable_def storable_def
      um_storable_def upd_def)

lemma view_new [simp]: "view S newPubAndHashUpdates = committed S" "touched newPubAndHashUpdates = {}" "tombstones newPubAndHashUpdates = {}"
  by (auto simp: view_def touched_def tombstones_def upd_def newPubAndHashUpdates_def NewPubUpdateBatch_def NewHashedUpdateBatch_def fun_eq_iff)

lemma apply_ops_panic: "(\<exists>u'. rfold (apply_op h) ops u = Ok u') \<or> (\<exists>p. rfold (apply_op h) ops u = Panic p)"
proof (induction ops arbitrary: u)
  case (Cons e ops)
  obtain ck ko where e: "e = (ck, ko)" by force
  show ?case
  proof (cases "ko_isDelete ko \<or> ko_value ko \<noteq> None")
    case True
    then show ?thesis using Cons [of "u_Update ck (final_vv h ko) u"] e by (simp add: apply_op_Update(1))
  next
    case False
    then show ?thesis using e by (simp add: apply_op_Update(2))
  qed
qed simp

lemma validateAndPrepareBatch_run:
  assumes "db_ok P S db" "\<forall>tx \<in> set (mb_txs blk). rwset_ok P (tx_rwset tx)"
  shows "\<exists>r. validateAndPrepareBatch P db blk mvcc = Some (rbind r (\<lambda>(u, ts). Ok (u, blk\<lparr>mb_txs := ts\<rparr>))) \<and>
     run_ok P S (mb_num blk) mvcc (mb_txs blk) [] newPubAndHashUpdates r"
proof -
  obtain r where r: "validate_txs P db (mb_num blk) mvcc (mb_txs blk) newPubAndHashUpdates = Some r"
    "run_ok P S (mb_num blk) mvcc (mb_txs blk) [] newPubAndHashUpdates r"
    using validate_txs_serial [OF assms(1) updates_inv_new assms(2)] by blast
  then show ?thesis by (intro exI [of _ r] conjI; cases r) (auto simp: validateAndPrepareBatch_def split: prod.splits)
qed

section \<open>Properties\<close>

text \<open>C2. The validation of a block is a serial execution of its transactions. On a state database that
  represents a state and for well-formed read-write sets, \<open>validateAndPrepareBatch\<close> always returns. When it
  returns updates, every transaction has the code that it gets when it is checked against the state left by
  the preceding valid transactions (a read conflict when a key it read has another version there or was
  touched by the block, a phantom conflict when a range query would return something else), and the
  updates on top of the committed state are the final state of that execution. It does return updates
  when the range queries are recorded as plain reads and no transaction sets only the metadata of a key
  that an earlier one deletes.\<close>

theorem block_validation_is_serial:
  assumes "db_ok P S db" "\<forall>tx \<in> set (mb_txs blk). rwset_ok P (tx_rwset tx)"
  shows "\<exists>r. validateAndPrepareBatch P db blk mvcc = Some r \<and>
     (\<forall>u blk'. r = Ok (u, blk') \<longrightarrow> (case serial P (mb_num blk) mvcc (mb_txs blk) (committed S) {} of (cs, \<sigma>, T) \<Rightarrow>
        blk' = blk\<lparr>mb_txs := map2 (\<lambda>tx c. tx\<lparr>tx_validationCode := c\<rparr>) (mb_txs blk) cs\<rparr> \<and> view S u = \<sigma> \<and> touched u = T)) \<and>
     ((\<forall>tx \<in> set (mb_txs blk). raw_queries (NsRwSets (tx_rwset tx))) \<and> no_orphans (mb_txs blk) [] \<longrightarrow> (\<exists>x. r = Ok x))"
proof -
  obtain r where r: "validateAndPrepareBatch P db blk mvcc = Some (rbind r (\<lambda>(u, ts). Ok (u, blk\<lparr>mb_txs := ts\<rparr>)))"
    "run_ok P S (mb_num blk) mvcc (mb_txs blk) [] newPubAndHashUpdates r"
    using validateAndPrepareBatch_run [OF assms] by blast
  then show ?thesis by (cases r) (auto simp: run_ok_def split: prod.splits)
qed

definition ref_values :: value_codec where
  "ref_values = \<lparr>marshal_DBValue = (\<lambda>v. pack [dv_Version v, dv_Value v, dv_Metadata v]),
     unmarshal_DBValue = unpack3 (\<lambda>a b c. Some \<lparr>dv_Version = a, dv_Value = b, dv_Metadata = c\<rparr>)\<rparr>"

lemma ref_values_laws [simp]: "value_codec_laws ref_values"
  by (simp add: value_codec_laws_def ref_values_def)

text \<open>An empty database, and a block whose second transaction read a key that the first one writes.\<close>

definition ref_params :: validation_params where
  "ref_params = \<lparr>vp_values = ref_values, vp_hashing = \<lparr>hashFunc = (\<lambda>b. Ok (sha256 b)), marshal_QueryReads = (\<lambda>rs. concat (map (\<lambda>r. to_bytes (kr_Key r)) rs))\<rparr>,
     vp_Serialize = (\<lambda>es. Ok (pack (map me_Value es)))\<rparr>"

definition empty_privdb :: PrivDB where
  "empty_privdb = \<lparr>pd_db = \<lparr>entries = [], db_faults = []\<rparr>, pd_dbName = ''ch'', mh_cache = [], mh_bookkeeper = \<lparr>entries = [], db_faults = []\<rparr>, mh_dbName = ''ch''\<rparr>"

definition example_tx :: "nat \<Rightarrow> KVRead list \<Rightarrow> RwKVWrite list \<Rightarrow> KVMetadataWrite list \<Rightarrow> transaction" where
  "example_tx i rs ws ms = \<lparr>tx_indexInBlock = i, tx_id = '''', tx_rwset = \<lparr>NsRwSets = [\<lparr>NameSpace = ''cc'',
     KvRwSet = \<lparr>Reads = rs, RangeQueriesInfo = [], Writes = ws, MetadataWrites = ms\<rparr>, CollHashedRwSets = []\<rparr>]\<rparr>,
     tx_validationCode = 254, tx_containsPostOrderWrites = False\<rparr>"

lemma empty_privdb_ok: "db_ok ref_params (\<lambda>ns key. None) empty_privdb" "cache_persisted empty_privdb"
  by (auto simp: db_ok_def ref_params_def empty_privdb_def state_repr_def hint_ok_def db_name_ok_def to_bytes_def byte_of_char_def
      DBHandle_Get_def DB_Get_def cache_persisted_def)

lemma plain_cc: "plain ''cc''"
  by (simp add: plain_def ns_ok_def to_bytes_def byte_of_char_def)

definition conflict_block :: mvcc_block where
  "conflict_block = \<lparr>mb_num = 7, mb_txs = [
     example_tx 0 [\<lparr>kr_Key = ''a'', kr_Version = None\<rparr>] [\<lparr>rw_Key = ''a'', rw_IsDelete = False, rw_Value = Some [1]\<rparr>] [],
     example_tx 1 [\<lparr>kr_Key = ''a'', kr_Version = None\<rparr>] [\<lparr>rw_Key = ''b'', rw_IsDelete = False, rw_Value = Some [2]\<rparr>] []]\<rparr>"

theorem block_validation_is_serial_witness:
  "\<exists>u blk'. validateAndPrepareBatch ref_params empty_privdb conflict_block True = Some (Ok (u, blk')) \<and>
     map tx_validationCode (mb_txs blk') = [TxValidationCode_VALID, TxValidationCode_MVCC_READ_CONFLICT] \<and>
     view (\<lambda>ns key. None) u (mk_ck ''cc'' '''' ''a'') = Some \<lparr>vv_Value = Some [1], vv_Metadata = None, vv_Version = Some (NewHeight 7 0)\<rparr> \<and>
     view (\<lambda>ns key. None) u (mk_ck ''cc'' '''' ''b'') = None"
proof -
  have ok: "\<forall>tx \<in> set (mb_txs conflict_block). rwset_ok ref_params (tx_rwset tx)"
    by (simp add: conflict_block_def example_tx_def rwset_ok_def tx_ops_def ns_ops_def plain_cc)
  have q: "(\<forall>tx \<in> set (mb_txs conflict_block). raw_queries (NsRwSets (tx_rwset tx))) \<and> no_orphans (mb_txs conflict_block) []"
    by (simp add: conflict_block_def example_tx_def raw_queries_def deleted_keys_def tx_ops_def ns_ops_def)
  have s: "serial ref_params (mb_num conflict_block) True (mb_txs conflict_block) (committed (\<lambda>ns key. None)) {} =
     ([TxValidationCode_VALID, TxValidationCode_MVCC_READ_CONFLICT],
      tx_apply ref_params (NewHeight 7 0) (tx_rwset (hd (mb_txs conflict_block))) (committed (\<lambda>ns key. None)),
      tx_touch (tx_rwset (hd (mb_txs conflict_block))) (committed (\<lambda>ns key. None)) {})"
    by (simp add: conflict_block_def example_tx_def Let_def read_current_def committed_def NewVersion_def tx_touch_def tx_ops_def ns_ops_def
        TxValidationCode_VALID_def TxValidationCode_MVCC_READ_CONFLICT_def)
  obtain u blk' where r: "validateAndPrepareBatch ref_params empty_privdb conflict_block True = Some (Ok (u, blk'))"
    "blk' = conflict_block\<lparr>mb_txs := map2 (\<lambda>tx c. tx\<lparr>tx_validationCode := c\<rparr>) (mb_txs conflict_block) [TxValidationCode_VALID, TxValidationCode_MVCC_READ_CONFLICT]\<rparr>"
    "view (\<lambda>ns key. None) u = tx_apply ref_params (NewHeight 7 0) (tx_rwset (hd (mb_txs conflict_block))) (committed (\<lambda>ns key. None))"
    using block_validation_is_serial [OF empty_privdb_ok(1) ok, of True] q s by auto
  then show ?thesis by (simp add: conflict_block_def example_tx_def tx_apply_def tx_ops_def ns_ops_def committed_def mk_ck_def)
qed

lemma committed_combined:
  assumes u: "updates_inv u" and p: "um_storable pvt" and ck: "loc_ok ck"
  shows "committed (applied (combined \<lparr>PubUpdates = publicUpdates u, HashUpdates = hashUpdates u, PvtUpdates = pvt\<rparr>) S) ck = view S u ck"
proof -
  let ?b = "\<lparr>PubUpdates = publicUpdates u, HashUpdates = hashUpdates u, PvtUpdates = pvt\<rparr>"
  have ok: "updates_ok ?b" using u p by (simp add: updates_ok_def updates_inv_def)
  have "batch_Get (if cp_coll ck = '''' then cp_ns ck else deriveHashedDataNs (cp_ns ck) (cp_coll ck)) (cp_key ck) (combined ?b) = upd u ck"
    using combined_Get(1,2) [OF ok, of "cp_ns ck"] ck by (simp add: upd_def loc_ok_def)
  then show ?thesis by (simp add: committed_def applied_def view_def split: option.split)
qed

text \<open>C5. Committing a validated block executes it on the database. When the updates that the validation
  returned are applied (together with private data that can be stored), the database afterwards represents
  the final state of the serial execution at every location, the private data are those of the batch on
  top of the old ones, the height of the block is the save point, and the invariants hold again: the
  metadata hint is sound, and the bookkeeper has recorded it.\<close>

theorem block_commit_is_serial:
  assumes db: "db_ok P S db" "cache_persisted db" "db_faults (pd_db db) = []" "db_faults (mh_bookkeeper db) = []"
    and blk: "\<forall>tx \<in> set (mb_txs blk). rwset_ok P (tx_rwset tx)" and pvt: "um_storable pvt"
    and run: "validateAndPrepareBatch P db blk mvcc = Some (Ok (u, blk'))"
  shows "\<exists>db' S'. ApplyPrivacyAwareUpdates (vp_values P) \<lparr>PubUpdates = publicUpdates u, HashUpdates = hashUpdates u, PvtUpdates = pvt\<rparr> (Some h) db = (Ok (), db') \<and>
     db_ok P S' db' \<and> cache_persisted db' \<and> db_faults (pd_db db') = [] \<and> db_faults (mh_bookkeeper db') = [] \<and>
     (\<forall>ck. loc_ok ck \<longrightarrow> committed S' ck = fst (snd (serial P (mb_num blk) mvcc (mb_txs blk) (committed S) {})) ck) \<and>
     (\<forall>ns coll key. plain ns \<longrightarrow> S' (derivePvtDataNs ns coll) key = (case um_Get ns coll key pvt of
        None \<Rightarrow> S (derivePvtDataNs ns coll) key | Some vv \<Rightarrow> if vv_Value vv = None then None else Some vv)) \<and>
     GetLatestSavePoint (pd_dbName db') (pd_db db') = Ok (Some h)"
proof -
  let ?b = "\<lparr>PubUpdates = publicUpdates u, HashUpdates = hashUpdates u, PvtUpdates = pvt\<rparr>"
  let ?S = "applied (combined ?b) S"
  obtain r where r: "validateAndPrepareBatch P db blk mvcc = Some (rbind r (\<lambda>(u, ts). Ok (u, blk\<lparr>mb_txs := ts\<rparr>)))"
    "run_ok P S (mb_num blk) mvcc (mb_txs blk) [] newPubAndHashUpdates r"
    using validateAndPrepareBatch_run [OF db(1) blk, of mvcc] by blast
  then obtain ts where "r = Ok (u, ts)" using run by (cases r) (auto split: prod.splits)
  then have u: "updates_inv u" "view S u = fst (snd (serial P (mb_num blk) mvcc (mb_txs blk) (committed S) {}))"
    using r(2) by (auto simp: run_ok_def split: prod.splits)
  have ok: "updates_ok ?b" using u(1) pvt by (simp add: updates_ok_def updates_inv_def)
  obtain db' where db': "ApplyPrivacyAwareUpdates (vp_values P) ?b (Some h) db = (Ok (), db')" "state_repr (vp_values P) (pd_dbName db) ?S (pd_db db')"
    "hint_ok ?S db'" "cache_persisted db'" "GetLatestSavePoint (pd_dbName db) (pd_db db') = Ok (Some h)" "db_faults (pd_db db') = []"
    "db_faults (mh_bookkeeper db') = []" "pd_dbName db' = pd_dbName db"
    using ApplyPrivacyAwareUpdates_repr [OF _ ok _ db(2-4), of "vp_values P" S h] db(1) unfolding db_ok_def by blast
  have "db_ok P ?S db'" using db(1) db' by (simp add: db_ok_def)
  moreover have "\<forall>ck. loc_ok ck \<longrightarrow> committed ?S ck = fst (snd (serial P (mb_num blk) mvcc (mb_txs blk) (committed S) {})) ck"
    using committed_combined [OF u(1) pvt] u(2) by simp
  moreover have "\<forall>ns coll key. plain ns \<longrightarrow> ?S (derivePvtDataNs ns coll) key = (case um_Get ns coll key pvt of
        None \<Rightarrow> S (derivePvtDataNs ns coll) key | Some vv \<Rightarrow> if vv_Value vv = None then None else Some vv)"
    using combined_Get(3) [OF ok] by (simp add: applied_def)
  ultimately show ?thesis using db'(1,4-8) by (intro exI [of _ db'] exI [of _ ?S] conjI) simp_all
qed

lemma conflict_block_run: "\<exists>u blk'. validateAndPrepareBatch ref_params empty_privdb conflict_block True = Some (Ok (u, blk'))"
  "\<forall>tx \<in> set (mb_txs conflict_block). rwset_ok ref_params (tx_rwset tx)"
proof -
  show ok: "\<forall>tx \<in> set (mb_txs conflict_block). rwset_ok ref_params (tx_rwset tx)"
    by (simp add: conflict_block_def example_tx_def rwset_ok_def tx_ops_def ns_ops_def plain_cc)
  have "(\<forall>tx \<in> set (mb_txs conflict_block). raw_queries (NsRwSets (tx_rwset tx))) \<and> no_orphans (mb_txs conflict_block) []"
    by (simp add: conflict_block_def example_tx_def raw_queries_def deleted_keys_def tx_ops_def ns_ops_def)
  then show "\<exists>u blk'. validateAndPrepareBatch ref_params empty_privdb conflict_block True = Some (Ok (u, blk'))"
    using validateAndPrepareBatch_run [OF empty_privdb_ok(1) ok, of True] by (auto simp: run_ok_def)
qed

theorem block_commit_is_serial_witness:
  "\<exists>u blk' db' S'. validateAndPrepareBatch ref_params empty_privdb conflict_block True = Some (Ok (u, blk')) \<and>
     ApplyPrivacyAwareUpdates ref_values \<lparr>PubUpdates = publicUpdates u, HashUpdates = hashUpdates u, PvtUpdates = []\<rparr> (Some (NewHeight 7 1)) empty_privdb = (Ok (), db') \<and>
     db_ok ref_params S' db' \<and> committed S' (mk_ck ''cc'' '''' ''a'') = Some \<lparr>vv_Value = Some [1], vv_Metadata = None, vv_Version = Some (NewHeight 7 0)\<rparr>"
proof -
  obtain u blk' where r: "validateAndPrepareBatch ref_params empty_privdb conflict_block True = Some (Ok (u, blk'))"
    using conflict_block_run(1) by blast
  have f: "db_faults (pd_db empty_privdb) = []" "db_faults (mh_bookkeeper empty_privdb) = []" "um_storable []" "loc_ok (mk_ck ''cc'' '''' ''a'')"
    by (simp_all add: empty_privdb_def um_storable_def loc_ok_def plain_cc)
  have "fst (snd (serial ref_params (mb_num conflict_block) True (mb_txs conflict_block) (committed (\<lambda>ns key. None)) {})) (mk_ck ''cc'' '''' ''a'') =
     Some \<lparr>vv_Value = Some [1], vv_Metadata = None, vv_Version = Some (NewHeight 7 0)\<rparr>"
    by (simp add: conflict_block_def example_tx_def Let_def read_current_def committed_def NewVersion_def tx_touch_def tx_apply_def tx_ops_def ns_ops_def
        TxValidationCode_VALID_def TxValidationCode_MVCC_READ_CONFLICT_def)
  then show ?thesis
    using block_commit_is_serial [OF empty_privdb_ok f(1,2) conflict_block_run(2) f(3) r, of "NewHeight 7 1"] r f(4) by (fastforce simp: ref_params_def)
qed

text \<open>C27. A metadata write without a value write, to a key that a preceding transaction of the block
  deleted, makes the validation panic: the latest value is the deletion marker of the batch, whose value is
  nil, and a nil value must not be put into the batch.\<close>

theorem metadata_write_after_delete_panics:
  assumes "db_ok P S db" "updates_inv u" "rwset_ok P rws" "orphan_metadata rws u ck"
  shows "\<exists>p. applyWriteSet P rws h db po u = Panic p"
proof -
  have "\<nexists>u'. applyWriteSet P rws h db po u = Ok u'" using applyWriteSet_run(2) [OF assms(1-3)] assms(4) by blast
  moreover obtain u1 ops where "applyWriteSet P rws h db po u = rfold (apply_op h) ops u1"
    using prepareTxOps_run [OF assms(1,3)] unfolding applyWriteSet_def Let_def by (metis rbind_simps(1))
  ultimately show ?thesis using apply_ops_panic [of h ops u1] by auto
qed

theorem metadata_write_after_delete_panics_witness:
  "\<exists>p. applyWriteSet ref_params (tx_rwset (example_tx 1 [] [] [\<lparr>mw_Key = ''a'', mw_Entries = Some [\<lparr>me_Name = ''m'', me_Value = [1]\<rparr>]\<rparr>])) (NewHeight 7 1) empty_privdb False
     (u_Update (mk_ck ''cc'' '''' ''a'') \<lparr>vv_Value = None, vv_Metadata = None, vv_Version = Some (NewHeight 7 0)\<rparr> newPubAndHashUpdates) = Panic p"
proof -
  let ?rws = "tx_rwset (example_tx 1 [] [] [\<lparr>mw_Key = ''a'', mw_Entries = Some [\<lparr>me_Name = ''m'', me_Value = [1]\<rparr>]\<rparr>])"
  let ?u = "u_Update (mk_ck ''cc'' '''' ''a'') \<lparr>vv_Value = None, vv_Metadata = None, vv_Version = Some (NewHeight 7 0)\<rparr> newPubAndHashUpdates"
  have "updates_inv ?u" by (rule updates_inv_Update) (simp_all add: loc_ok_def plain_cc)
  moreover have "rwset_ok ref_params ?rws"
    by (simp add: example_tx_def rwset_ok_def tx_ops_def ns_ops_def plain_cc serializable_entries_def ref_params_def)
  moreover have "orphan_metadata ?rws ?u (mk_ck ''cc'' '''' ''a'')" by (simp add: orphan_metadata_def example_tx_def tx_ops_def ns_ops_def)
  ultimately show ?thesis by (rule metadata_write_after_delete_panics [OF empty_privdb_ok(1)])
qed

end
