(* ===== verification/RwsetProto.thy ===== *)
theory RwsetProto
  imports Rwset Sha256
begin

text \<open>
  Read-write sets as protobuf messages: the conversions of
  \<open>core/ledger/kvledger/txmgmt/rwsetutil/rwset_proto_util.go\<close> between the messages of the packages \<open>rwset\<close> and
  \<open>kvrwset\<close> and the structures that the simulator and the validator work with.  The wire format of
  the messages is a parameter; marshalling may fail, for instance on a string that is not UTF-8.
\<close>

section \<open>Messages\<close>

definition TxReadWriteSet_KV :: int where "TxReadWriteSet_KV = 0"

record CollectionHashedReadWriteSet =
  ch_CollectionName :: string
  ch_HashedRwset :: bytes
  ch_PvtRwsetHash :: "bytes option"

record RwNsReadWriteSet =
  rn_Namespace :: string
  rn_Rwset :: bytes
  rn_CollectionHashedRwset :: "CollectionHashedReadWriteSet list"

record RwTxReadWriteSet =
  rt_DataModel :: int
  rt_NsRwset :: "RwNsReadWriteSet list"

record CollectionPvtReadWriteSet =
  cq_CollectionName :: string
  cq_Rwset :: bytes

record NsPvtReadWriteSet =
  nq_Namespace :: string
  nq_CollectionPvtRwset :: "CollectionPvtReadWriteSet list"

record TxPvtReadWriteSet =
  tq_DataModel :: int
  tq_NsPvtRwset :: "NsPvtReadWriteSet list"

record rwset_codec =
  marshal_Tx :: "RwTxReadWriteSet \<Rightarrow> bytes result"
  unmarshal_Tx :: "bytes \<Rightarrow> RwTxReadWriteSet option"
  marshal_PvtTx :: "TxPvtReadWriteSet \<Rightarrow> bytes result"
  unmarshal_PvtTx :: "bytes \<Rightarrow> TxPvtReadWriteSet option"
  marshal_KV :: "RwKVRWSet \<Rightarrow> bytes result"
  unmarshal_KV :: "bytes \<Rightarrow> RwKVRWSet option"
  marshal_Hashed :: "HashedRWSet \<Rightarrow> bytes result"
  unmarshal_Hashed :: "bytes \<Rightarrow> HashedRWSet option"

definition rw_Unmarshal :: "'a option \<Rightarrow> 'a result" where
  "rw_Unmarshal m = (case m of Some a \<Rightarrow> Ok a | None \<Rightarrow> Err (ErrMsg ''proto''))"

text \<open>A loop that converts the items of a list and stops at the first error.\<close>

fun rmap :: "('a \<Rightarrow> 'b result) \<Rightarrow> 'a list \<Rightarrow> 'b list result" where
  "rmap f [] = Ok []"
| "rmap f (x # xs) = rbind (f x) (\<lambda>y. rbind (rmap f xs) (\<lambda>ys. Ok (y # ys)))"

section \<open>Public read-write sets\<close>

definition coll_toProtoMsg :: "rwset_codec \<Rightarrow> CollHashedRwSet \<Rightarrow> CollectionHashedReadWriteSet result" where
  "coll_toProtoMsg RC collHashedRwSet =
     rbind (marshal_Hashed RC (HashedRwSet collHashedRwSet)) (\<lambda>b.
     Ok \<lparr>ch_CollectionName = CollectionName collHashedRwSet, ch_HashedRwset = b, ch_PvtRwsetHash = PvtRwSetHash collHashedRwSet\<rparr>)"

definition collHashedRwSetFromProtoMsg :: "rwset_codec \<Rightarrow> CollectionHashedReadWriteSet \<Rightarrow> CollHashedRwSet result" where
  "collHashedRwSetFromProtoMsg RC protoMsg =
     rbind (rw_Unmarshal (unmarshal_Hashed RC (ch_HashedRwset protoMsg))) (\<lambda>h.
     Ok \<lparr>CollectionName = ch_CollectionName protoMsg, HashedRwSet = h, PvtRwSetHash = ch_PvtRwsetHash protoMsg\<rparr>)"

definition ns_toProtoMsg :: "rwset_codec \<Rightarrow> NsRwSet \<Rightarrow> RwNsReadWriteSet result" where
  "ns_toProtoMsg RC nsRwSet =
     rbind (marshal_KV RC (KvRwSet nsRwSet)) (\<lambda>b.
     rbind (rmap (coll_toProtoMsg RC) (CollHashedRwSets nsRwSet)) (\<lambda>colls.
     Ok \<lparr>rn_Namespace = NameSpace nsRwSet, rn_Rwset = b, rn_CollectionHashedRwset = colls\<rparr>))"

definition nsRwSetFromProtoMsg :: "rwset_codec \<Rightarrow> RwNsReadWriteSet \<Rightarrow> NsRwSet result" where
  "nsRwSetFromProtoMsg RC protoMsg =
     rbind (rw_Unmarshal (unmarshal_KV RC (rn_Rwset protoMsg))) (\<lambda>kv.
     rbind (rmap (collHashedRwSetFromProtoMsg RC) (rn_CollectionHashedRwset protoMsg)) (\<lambda>colls.
     Ok \<lparr>NameSpace = rn_Namespace protoMsg, KvRwSet = kv, CollHashedRwSets = colls\<rparr>))"

definition tx_toProtoMsg :: "rwset_codec \<Rightarrow> TxRwSet \<Rightarrow> RwTxReadWriteSet result" where
  "tx_toProtoMsg RC txRwSet =
     rbind (rmap (ns_toProtoMsg RC) (NsRwSets txRwSet)) (\<lambda>nss. Ok \<lparr>rt_DataModel = TxReadWriteSet_KV, rt_NsRwset = nss\<rparr>)"

definition TxRwSetFromProtoMsg :: "rwset_codec \<Rightarrow> RwTxReadWriteSet \<Rightarrow> TxRwSet result" where
  "TxRwSetFromProtoMsg RC protoMsg =
     rbind (rmap (nsRwSetFromProtoMsg RC) (rt_NsRwset protoMsg)) (\<lambda>nss. Ok \<lparr>NsRwSets = nss\<rparr>)"

definition TxRwSet_ToProtoBytes :: "rwset_codec \<Rightarrow> TxRwSet \<Rightarrow> bytes result" where
  "TxRwSet_ToProtoBytes RC txRwSet = rbind (tx_toProtoMsg RC txRwSet) (marshal_Tx RC)"

definition TxRwSet_FromProtoBytes :: "rwset_codec \<Rightarrow> bytes \<Rightarrow> TxRwSet result" where
  "TxRwSet_FromProtoBytes RC protoBytes =
     rbind (rw_Unmarshal (unmarshal_Tx RC protoBytes)) (TxRwSetFromProtoMsg RC)"

section \<open>Private read-write sets\<close>

record CollPvtRwSet =
  cpr_CollectionName :: string
  cpr_KvRwSet :: RwKVRWSet

record NsPvtRwSet =
  npr_NameSpace :: string
  CollPvtRwSets :: "CollPvtRwSet list"

record TxPvtRwSet =
  NsPvtRwSets :: "NsPvtRwSet list"

definition collPvt_toProtoMsg :: "rwset_codec \<Rightarrow> CollPvtRwSet \<Rightarrow> CollectionPvtReadWriteSet result" where
  "collPvt_toProtoMsg RC collPvtRwSet =
     rbind (marshal_KV RC (cpr_KvRwSet collPvtRwSet)) (\<lambda>b. Ok \<lparr>cq_CollectionName = cpr_CollectionName collPvtRwSet, cq_Rwset = b\<rparr>)"

definition collPvtRwSetFromProtoMsg :: "rwset_codec \<Rightarrow> CollectionPvtReadWriteSet \<Rightarrow> CollPvtRwSet result" where
  "collPvtRwSetFromProtoMsg RC protoMsg =
     rbind (rw_Unmarshal (unmarshal_KV RC (cq_Rwset protoMsg))) (\<lambda>kv. Ok \<lparr>cpr_CollectionName = cq_CollectionName protoMsg, cpr_KvRwSet = kv\<rparr>)"

definition nsPvt_toProtoMsg :: "rwset_codec \<Rightarrow> NsPvtRwSet \<Rightarrow> NsPvtReadWriteSet result" where
  "nsPvt_toProtoMsg RC nsPvtRwSet =
     rbind (rmap (collPvt_toProtoMsg RC) (CollPvtRwSets nsPvtRwSet)) (\<lambda>colls.
     Ok \<lparr>nq_Namespace = npr_NameSpace nsPvtRwSet, nq_CollectionPvtRwset = colls\<rparr>)"

definition nsPvtRwSetFromProtoMsg :: "rwset_codec \<Rightarrow> NsPvtReadWriteSet \<Rightarrow> NsPvtRwSet result" where
  "nsPvtRwSetFromProtoMsg RC protoMsg =
     rbind (rmap (collPvtRwSetFromProtoMsg RC) (nq_CollectionPvtRwset protoMsg)) (\<lambda>colls.
     Ok \<lparr>npr_NameSpace = nq_Namespace protoMsg, CollPvtRwSets = colls\<rparr>)"

definition TxPvtRwSet_ToProtoMsg :: "rwset_codec \<Rightarrow> TxPvtRwSet \<Rightarrow> TxPvtReadWriteSet result" where
  "TxPvtRwSet_ToProtoMsg RC txPvtRwSet =
     rbind (rmap (nsPvt_toProtoMsg RC) (NsPvtRwSets txPvtRwSet)) (\<lambda>nss. Ok \<lparr>tq_DataModel = TxReadWriteSet_KV, tq_NsPvtRwset = nss\<rparr>)"

definition TxPvtRwSetFromProtoMsg :: "rwset_codec \<Rightarrow> TxPvtReadWriteSet \<Rightarrow> TxPvtRwSet result" where
  "TxPvtRwSetFromProtoMsg RC protoMsg =
     rbind (rmap (nsPvtRwSetFromProtoMsg RC) (tq_NsPvtRwset protoMsg)) (\<lambda>nss. Ok \<lparr>NsPvtRwSets = nss\<rparr>)"

definition TxPvtRwSet_ToProtoBytes :: "rwset_codec \<Rightarrow> TxPvtRwSet \<Rightarrow> bytes result" where
  "TxPvtRwSet_ToProtoBytes RC txPvtRwSet = rbind (TxPvtRwSet_ToProtoMsg RC txPvtRwSet) (marshal_PvtTx RC)"

definition TxPvtRwSet_FromProtoBytes :: "rwset_codec \<Rightarrow> bytes \<Rightarrow> TxPvtRwSet result" where
  "TxPvtRwSet_FromProtoBytes RC protoBytes =
     rbind (rw_Unmarshal (unmarshal_PvtTx RC protoBytes)) (TxPvtRwSetFromProtoMsg RC)"

section \<open>Entries\<close>

definition ComputeHash :: "bytes \<Rightarrow> bytes" where
  "ComputeHash input = sha256 input"

definition ComputeStringHash :: "string \<Rightarrow> bytes" where
  "ComputeStringHash input = ComputeHash (to_bytes input)"

definition newKVWrite :: "string \<Rightarrow> bytes option \<Rightarrow> RwKVWrite" where
  "newKVWrite key value = \<lparr>rw_Key = key, rw_IsDelete = (value = None), rw_Value = value\<rparr>"

definition newPvtKVReadHash :: "string \<Rightarrow> Height option \<Rightarrow> KVReadHash" where
  "newPvtKVReadHash key ver = \<lparr>rh_KeyHash = ComputeStringHash key, rh_Version = newProtoVersion ver\<rparr>"

definition newPvtKVWriteAndHash :: "string \<Rightarrow> bytes option \<Rightarrow> RwKVWrite \<times> KVWriteHash" where
  "newPvtKVWriteAndHash key value =
     (let kvWrite = newKVWrite key value;
          keyHash = ComputeStringHash key;
          valueHash = (case value of Some v \<Rightarrow> if rw_IsDelete kvWrite then None else Some (ComputeHash v) | None \<Rightarrow> None)
      in (kvWrite, \<lparr>wh_KeyHash = keyHash, wh_IsDelete = rw_IsDelete kvWrite, wh_ValueHash = valueHash\<rparr>))"


section \<open>Round trip\<close>

text \<open>
  Protobuf does not tell an empty byte string or list from an absent one: both are read back as nil.
  The laws are for messages in which nothing is empty but present.
\<close>

definition kv_normal :: "RwKVRWSet \<Rightarrow> bool" where
  "kv_normal m \<longleftrightarrow> (\<forall>w \<in> set (Writes m). rw_Value w \<noteq> Some []) \<and> (\<forall>w \<in> set (MetadataWrites m). mw_Entries w \<noteq> Some [])"

definition hashed_normal :: "HashedRWSet \<Rightarrow> bool" where
  "hashed_normal m \<longleftrightarrow> (\<forall>w \<in> set (HashedWrites m). wh_ValueHash w \<noteq> Some []) \<and> (\<forall>w \<in> set (HashedMetadataWrites m). mh_Entries w \<noteq> Some [])"

definition tx_msg_normal :: "RwTxReadWriteSet \<Rightarrow> bool" where
  "tx_msg_normal m \<longleftrightarrow> (\<forall>n \<in> set (rt_NsRwset m). \<forall>c \<in> set (rn_CollectionHashedRwset n). ch_PvtRwsetHash c \<noteq> Some [])"

definition rwset_codec_laws :: "rwset_codec \<Rightarrow> bool" where
  "rwset_codec_laws RC \<longleftrightarrow>
     (\<forall>m b. tx_msg_normal m \<longrightarrow> marshal_Tx RC m = Ok b \<longrightarrow> unmarshal_Tx RC b = Some m) \<and>
     (\<forall>m b. marshal_PvtTx RC m = Ok b \<longrightarrow> unmarshal_PvtTx RC b = Some m) \<and>
     (\<forall>m b. kv_normal m \<longrightarrow> marshal_KV RC m = Ok b \<longrightarrow> unmarshal_KV RC b = Some m) \<and>
     (\<forall>m b. hashed_normal m \<longrightarrow> marshal_Hashed RC m = Ok b \<longrightarrow> unmarshal_Hashed RC b = Some m)"

definition rwset_normal :: "TxRwSet \<Rightarrow> bool" where
  "rwset_normal t \<longleftrightarrow> (\<forall>n \<in> set (NsRwSets t). kv_normal (KvRwSet n) \<and>
     (\<forall>c \<in> set (CollHashedRwSets n). hashed_normal (HashedRwSet c) \<and> PvtRwSetHash c \<noteq> Some []))"

definition pvt_normal :: "TxPvtRwSet \<Rightarrow> bool" where
  "pvt_normal t \<longleftrightarrow> (\<forall>n \<in> set (NsPvtRwSets t). \<forall>c \<in> set (CollPvtRwSets n). kv_normal (cpr_KvRwSet c))"

lemma rw_Unmarshal_Some [simp]: "rw_Unmarshal (Some a) = Ok a"
  by (simp add: rw_Unmarshal_def)

lemma rmap_inverse:
  assumes "rmap f xs = Ok ys" "\<forall>x \<in> set xs. \<forall>y. f x = Ok y \<longrightarrow> g y = Ok x \<and> Q y"
  shows "rmap g ys = Ok xs \<and> (\<forall>y \<in> set ys. Q y)"
  using assms
proof (induction xs arbitrary: ys)
  case (Cons x xs)
  obtain y zs where y: "f x = Ok y" "rmap f xs = Ok zs" "ys = y # zs" using Cons.prems(1) by (auto simp: rbind_eq_Ok)
  have "g y = Ok x \<and> Q y" using Cons.prems(2) y(1) by simp
  moreover have "rmap g zs = Ok xs \<and> (\<forall>y \<in> set zs. Q y)" using Cons.IH [OF y(2)] Cons.prems(2) by simp
  ultimately show ?case by (simp add: y(3))
qed simp

lemma coll_round_trip:
  assumes "rwset_codec_laws RC" "coll_toProtoMsg RC c = Ok m" "hashed_normal (HashedRwSet c)" "PvtRwSetHash c \<noteq> Some []"
  shows "collHashedRwSetFromProtoMsg RC m = Ok c \<and> ch_PvtRwsetHash m \<noteq> Some []"
  using assms by (auto simp: coll_toProtoMsg_def collHashedRwSetFromProtoMsg_def rwset_codec_laws_def rbind_eq_Ok)

lemma ns_round_trip:
  assumes RC: "rwset_codec_laws RC" and m: "ns_toProtoMsg RC n = Ok m" and n: "kv_normal (KvRwSet n)"
    "\<forall>c \<in> set (CollHashedRwSets n). hashed_normal (HashedRwSet c) \<and> PvtRwSetHash c \<noteq> Some []"
  shows "nsRwSetFromProtoMsg RC m = Ok n \<and> (\<forall>c \<in> set (rn_CollectionHashedRwset m). ch_PvtRwsetHash c \<noteq> Some [])"
proof -
  obtain b colls where b: "marshal_KV RC (KvRwSet n) = Ok b" and colls: "rmap (coll_toProtoMsg RC) (CollHashedRwSets n) = Ok colls"
    and m: "m = \<lparr>rn_Namespace = NameSpace n, rn_Rwset = b, rn_CollectionHashedRwset = colls\<rparr>"
    using m by (auto simp: ns_toProtoMsg_def rbind_eq_Ok)
  have kv: "unmarshal_KV RC b = Some (KvRwSet n)" using RC b n(1) by (simp add: rwset_codec_laws_def)
  have "rmap (collHashedRwSetFromProtoMsg RC) colls = Ok (CollHashedRwSets n) \<and> (\<forall>c \<in> set colls. ch_PvtRwsetHash c \<noteq> Some [])"
    using n(2) by (intro rmap_inverse [OF colls] ballI allI impI coll_round_trip [OF RC]) auto
  then show ?thesis using kv by (simp add: m nsRwSetFromProtoMsg_def)
qed

lemma TxRwSet_round_trip:
  assumes RC: "rwset_codec_laws RC" and b: "TxRwSet_ToProtoBytes RC t = Ok b" and t: "rwset_normal t"
  shows "TxRwSet_FromProtoBytes RC b = Ok t"
proof -
  obtain nss where nss: "rmap (ns_toProtoMsg RC) (NsRwSets t) = Ok nss" and b: "marshal_Tx RC \<lparr>rt_DataModel = TxReadWriteSet_KV, rt_NsRwset = nss\<rparr> = Ok b"
    using b by (auto simp: TxRwSet_ToProtoBytes_def tx_toProtoMsg_def rbind_eq_Ok)
  have "rmap (nsRwSetFromProtoMsg RC) nss = Ok (NsRwSets t) \<and> (\<forall>n \<in> set nss. \<forall>c \<in> set (rn_CollectionHashedRwset n). ch_PvtRwsetHash c \<noteq> Some [])"
    using t by (intro rmap_inverse [OF nss] ballI allI impI ns_round_trip [OF RC]) (auto simp: rwset_normal_def)
  moreover from this have "unmarshal_Tx RC b = Some \<lparr>rt_DataModel = TxReadWriteSet_KV, rt_NsRwset = nss\<rparr>"
    using RC b by (simp add: rwset_codec_laws_def tx_msg_normal_def)
  ultimately show ?thesis by (simp add: TxRwSet_FromProtoBytes_def TxRwSetFromProtoMsg_def)
qed

lemma TxPvtRwSet_round_trip:
  assumes RC: "rwset_codec_laws RC" and b: "TxPvtRwSet_ToProtoBytes RC t = Ok b" and t: "pvt_normal t"
  shows "TxPvtRwSet_FromProtoBytes RC b = Ok t"
proof -
  have coll: "collPvtRwSetFromProtoMsg RC m = Ok c \<and> True" if "collPvt_toProtoMsg RC c = Ok m" "kv_normal (cpr_KvRwSet c)" for c m
    using that RC by (auto simp: collPvt_toProtoMsg_def collPvtRwSetFromProtoMsg_def rwset_codec_laws_def rbind_eq_Ok)
  have ns: "nsPvtRwSetFromProtoMsg RC m = Ok n \<and> True"
    if m: "nsPvt_toProtoMsg RC n = Ok m" and n: "\<forall>c \<in> set (CollPvtRwSets n). kv_normal (cpr_KvRwSet c)" for n m
  proof -
    obtain colls where colls: "rmap (collPvt_toProtoMsg RC) (CollPvtRwSets n) = Ok colls"
      "m = \<lparr>nq_Namespace = npr_NameSpace n, nq_CollectionPvtRwset = colls\<rparr>" using m by (auto simp: nsPvt_toProtoMsg_def rbind_eq_Ok)
    have "rmap (collPvtRwSetFromProtoMsg RC) colls = Ok (CollPvtRwSets n) \<and> (\<forall>c \<in> set colls. True)"
      using n by (intro rmap_inverse [OF colls(1)] ballI allI impI coll) auto
    then show ?thesis by (simp add: colls(2) nsPvtRwSetFromProtoMsg_def)
  qed
  obtain nss where nss: "rmap (nsPvt_toProtoMsg RC) (NsPvtRwSets t) = Ok nss" and b: "marshal_PvtTx RC \<lparr>tq_DataModel = TxReadWriteSet_KV, tq_NsPvtRwset = nss\<rparr> = Ok b"
    using b by (auto simp: TxPvtRwSet_ToProtoBytes_def TxPvtRwSet_ToProtoMsg_def rbind_eq_Ok)
  have "rmap (nsPvtRwSetFromProtoMsg RC) nss = Ok (NsPvtRwSets t) \<and> (\<forall>n \<in> set nss. True)"
    using t by (intro rmap_inverse [OF nss] ballI allI impI ns) (auto simp: pvt_normal_def)
  moreover have "unmarshal_PvtTx RC b = Some \<lparr>tq_DataModel = TxReadWriteSet_KV, tq_NsPvtRwset = nss\<rparr>"
    using RC b by (simp add: rwset_codec_laws_def)
  ultimately show ?thesis by (simp add: TxPvtRwSet_FromProtoBytes_def TxPvtRwSetFromProtoMsg_def)
qed


section \<open>A reference codec\<close>

definition ref_num :: "nat \<Rightarrow> bytes" where
  "ref_num n = replicate n 1"

definition ref_bool :: "bool \<Rightarrow> bytes" where
  "ref_bool b = (if b then [1] else [])"

definition ref_Version :: "ProtoVersion \<Rightarrow> bytes" where
  "ref_Version v = pack [ref_num (unat (pv_BlockNum v)), ref_num (unat (pv_TxNum v))]"

definition ref_unVersion :: "bytes \<Rightarrow> ProtoVersion option" where
  "ref_unVersion = unpack2 (\<lambda>b t. Some \<lparr>pv_BlockNum = word_of_nat (length b), pv_TxNum = word_of_nat (length t)\<rparr>)"

lemma ref_Version [simp]: "ref_unVersion (ref_Version v) = Some v"
  by (simp add: ref_Version_def ref_unVersion_def ref_num_def)

definition ref_Read :: "KVRead \<Rightarrow> bytes" where
  "ref_Read r = pack [to_bytes (kr_Key r), pack_option ref_Version (kr_Version r)]"

definition ref_unRead :: "bytes \<Rightarrow> KVRead option" where
  "ref_unRead = unpack2 (\<lambda>k v. map_option (\<lambda>v. \<lparr>kr_Key = to_string k, kr_Version = v\<rparr>) (unpack_option ref_unVersion v))"

lemma ref_Read [simp]: "ref_unRead (ref_Read r) = Some r"
  by (simp add: ref_Read_def ref_unRead_def)

definition ref_Write :: "RwKVWrite \<Rightarrow> bytes" where
  "ref_Write w = pack [to_bytes (rw_Key w), ref_bool (rw_IsDelete w), pack_option id (rw_Value w)]"

definition ref_unWrite :: "bytes \<Rightarrow> RwKVWrite option" where
  "ref_unWrite = unpack3 (\<lambda>k d v. map_option (\<lambda>v. \<lparr>rw_Key = to_string k, rw_IsDelete = (d \<noteq> []), rw_Value = v\<rparr>) (unpack_option Some v))"

lemma ref_Write [simp]: "ref_unWrite (ref_Write w) = Some w"
  by (simp add: ref_Write_def ref_unWrite_def ref_bool_def)

definition ref_Entry :: "KVMetadataEntry \<Rightarrow> bytes" where
  "ref_Entry e = pack [to_bytes (me_Name e), me_Value e]"

definition ref_unEntry :: "bytes \<Rightarrow> KVMetadataEntry option" where
  "ref_unEntry = unpack2 (\<lambda>n v. Some \<lparr>me_Name = to_string n, me_Value = v\<rparr>)"

lemma ref_Entry [simp]: "ref_unEntry (ref_Entry e) = Some e"
  by (simp add: ref_Entry_def ref_unEntry_def)

definition ref_Entries :: "KVMetadataEntry list \<Rightarrow> bytes" where
  "ref_Entries es = pack (map ref_Entry es)"

lemma ref_Entries [simp]: "unpack_list ref_unEntry (ref_Entries es) = Some es"
  by (simp add: ref_Entries_def)

definition ref_MetadataWrite :: "KVMetadataWrite \<Rightarrow> bytes" where
  "ref_MetadataWrite w = pack [to_bytes (mw_Key w), pack_option ref_Entries (mw_Entries w)]"

definition ref_unMetadataWrite :: "bytes \<Rightarrow> KVMetadataWrite option" where
  "ref_unMetadataWrite = unpack2 (\<lambda>k e. map_option (\<lambda>e. \<lparr>mw_Key = to_string k, mw_Entries = e\<rparr>) (unpack_option (unpack_list ref_unEntry) e))"

lemma ref_MetadataWrite [simp]: "ref_unMetadataWrite (ref_MetadataWrite w) = Some w"
  by (simp add: ref_MetadataWrite_def ref_unMetadataWrite_def)

definition ref_ReadsInfo :: "ReadsInfo \<Rightarrow> bytes" where
  "ref_ReadsInfo i = (case i of
     RawReads rs \<Rightarrow> pack [[], pack (map ref_Read rs), []]
   | ReadsMerkleHashes s \<Rightarrow> pack [ref_num (Suc (unat (ms_MaxDegree s))), pack (ms_MaxLevelHashes s), ref_num (ms_MaxLevel s)])"

definition ref_unReadsInfo :: "bytes \<Rightarrow> ReadsInfo option" where
  "ref_unReadsInfo = unpack3 (\<lambda>d hs l.
     if d = [] then map_option RawReads (unpack_list ref_unRead hs)
     else map_option (\<lambda>hs. ReadsMerkleHashes \<lparr>ms_MaxDegree = word_of_nat (length d - 1), ms_MaxLevel = length l, ms_MaxLevelHashes = hs\<rparr>) (unpack hs))"

lemma ref_ReadsInfo [simp]: "ref_unReadsInfo (ref_ReadsInfo i) = Some i"
  by (cases i) (simp_all add: ref_ReadsInfo_def ref_unReadsInfo_def ref_num_def)

definition ref_RangeQuery :: "RangeQueryInfo \<Rightarrow> bytes" where
  "ref_RangeQuery q = pack [pack [to_bytes (rq_StartKey q), to_bytes (rq_EndKey q)],
     ref_bool (rq_ItrExhausted q), pack_option ref_ReadsInfo (rq_ReadsInfo q)]"

definition ref_unRangeQuery :: "bytes \<Rightarrow> RangeQueryInfo option" where
  "ref_unRangeQuery = unpack3 (\<lambda>ks e i. unpack2 (\<lambda>s t. map_option (\<lambda>i. \<lparr>rq_StartKey = to_string s, rq_EndKey = to_string t,
     rq_ItrExhausted = (e \<noteq> []), rq_ReadsInfo = i\<rparr>) (unpack_option ref_unReadsInfo i)) ks)"

lemma ref_RangeQuery [simp]: "ref_unRangeQuery (ref_RangeQuery q) = Some q"
  by (simp add: ref_RangeQuery_def ref_unRangeQuery_def ref_bool_def)

definition ref_ReadHash :: "KVReadHash \<Rightarrow> bytes" where
  "ref_ReadHash r = pack [rh_KeyHash r, pack_option ref_Version (rh_Version r)]"

definition ref_unReadHash :: "bytes \<Rightarrow> KVReadHash option" where
  "ref_unReadHash = unpack2 (\<lambda>k v. map_option (\<lambda>v. \<lparr>rh_KeyHash = k, rh_Version = v\<rparr>) (unpack_option ref_unVersion v))"

lemma ref_ReadHash [simp]: "ref_unReadHash (ref_ReadHash r) = Some r"
  by (simp add: ref_ReadHash_def ref_unReadHash_def)

definition ref_WriteHash :: "KVWriteHash \<Rightarrow> bytes" where
  "ref_WriteHash w = pack [wh_KeyHash w, ref_bool (wh_IsDelete w), pack_option id (wh_ValueHash w)]"

definition ref_unWriteHash :: "bytes \<Rightarrow> KVWriteHash option" where
  "ref_unWriteHash = unpack3 (\<lambda>k d v. map_option (\<lambda>v. \<lparr>wh_KeyHash = k, wh_IsDelete = (d \<noteq> []), wh_ValueHash = v\<rparr>) (unpack_option Some v))"

lemma ref_WriteHash [simp]: "ref_unWriteHash (ref_WriteHash w) = Some w"
  by (simp add: ref_WriteHash_def ref_unWriteHash_def ref_bool_def)

definition ref_MetadataWriteHash :: "KVMetadataWriteHash \<Rightarrow> bytes" where
  "ref_MetadataWriteHash w = pack [mh_KeyHash w, pack_option ref_Entries (mh_Entries w)]"

definition ref_unMetadataWriteHash :: "bytes \<Rightarrow> KVMetadataWriteHash option" where
  "ref_unMetadataWriteHash = unpack2 (\<lambda>k e. map_option (\<lambda>e. \<lparr>mh_KeyHash = k, mh_Entries = e\<rparr>) (unpack_option (unpack_list ref_unEntry) e))"

lemma ref_MetadataWriteHash [simp]: "ref_unMetadataWriteHash (ref_MetadataWriteHash w) = Some w"
  by (simp add: ref_MetadataWriteHash_def ref_unMetadataWriteHash_def)


definition ref_KV :: "RwKVRWSet \<Rightarrow> bytes" where
  "ref_KV m = pack [pack [pack (map ref_Read (Reads m)), pack (map ref_RangeQuery (RangeQueriesInfo m))],
     pack (map ref_Write (Writes m)), pack (map ref_MetadataWrite (MetadataWrites m))]"

definition ref_unKV :: "bytes \<Rightarrow> RwKVRWSet option" where
  "ref_unKV = unpack3 (\<lambda>rq w m. unpack2 (\<lambda>r q.
     case (unpack_list ref_unRead r, unpack_list ref_unRangeQuery q, unpack_list ref_unWrite w, unpack_list ref_unMetadataWrite m) of
       (Some r, Some q, Some w, Some m) \<Rightarrow> Some \<lparr>Reads = r, RangeQueriesInfo = q, Writes = w, MetadataWrites = m\<rparr>
     | _ \<Rightarrow> None) rq)"

definition ref_Hashed :: "HashedRWSet \<Rightarrow> bytes" where
  "ref_Hashed m = pack [pack (map ref_ReadHash (HashedReads m)), pack (map ref_WriteHash (HashedWrites m)),
     pack (map ref_MetadataWriteHash (HashedMetadataWrites m))]"

definition ref_unHashed :: "bytes \<Rightarrow> HashedRWSet option" where
  "ref_unHashed = unpack3 (\<lambda>r w m.
     case (unpack_list ref_unReadHash r, unpack_list ref_unWriteHash w, unpack_list ref_unMetadataWriteHash m) of
       (Some r, Some w, Some m) \<Rightarrow> Some \<lparr>HashedReads = r, HashedWrites = w, HashedMetadataWrites = m\<rparr>
     | _ \<Rightarrow> None)"

definition ref_CollMsg :: "CollectionHashedReadWriteSet \<Rightarrow> bytes" where
  "ref_CollMsg c = pack [to_bytes (ch_CollectionName c), ch_HashedRwset c, pack_option id (ch_PvtRwsetHash c)]"

definition ref_unCollMsg :: "bytes \<Rightarrow> CollectionHashedReadWriteSet option" where
  "ref_unCollMsg = unpack3 (\<lambda>n h p. map_option (\<lambda>p. \<lparr>ch_CollectionName = to_string n, ch_HashedRwset = h, ch_PvtRwsetHash = p\<rparr>) (unpack_option Some p))"

lemma ref_CollMsg [simp]: "ref_unCollMsg (ref_CollMsg c) = Some c"
  by (simp add: ref_CollMsg_def ref_unCollMsg_def)

definition ref_NsMsg :: "RwNsReadWriteSet \<Rightarrow> bytes" where
  "ref_NsMsg n = pack [to_bytes (rn_Namespace n), rn_Rwset n, pack (map ref_CollMsg (rn_CollectionHashedRwset n))]"

definition ref_unNsMsg :: "bytes \<Rightarrow> RwNsReadWriteSet option" where
  "ref_unNsMsg = unpack3 (\<lambda>n r c. map_option (\<lambda>c. \<lparr>rn_Namespace = to_string n, rn_Rwset = r, rn_CollectionHashedRwset = c\<rparr>) (unpack_list ref_unCollMsg c))"

lemma ref_NsMsg [simp]: "ref_unNsMsg (ref_NsMsg n) = Some n"
  by (simp add: ref_NsMsg_def ref_unNsMsg_def)

definition ref_PvtCollMsg :: "CollectionPvtReadWriteSet \<Rightarrow> bytes" where
  "ref_PvtCollMsg c = pack [to_bytes (cq_CollectionName c), cq_Rwset c]"

definition ref_unPvtCollMsg :: "bytes \<Rightarrow> CollectionPvtReadWriteSet option" where
  "ref_unPvtCollMsg = unpack2 (\<lambda>n r. Some \<lparr>cq_CollectionName = to_string n, cq_Rwset = r\<rparr>)"

lemma ref_PvtCollMsg [simp]: "ref_unPvtCollMsg (ref_PvtCollMsg c) = Some c"
  by (simp add: ref_PvtCollMsg_def ref_unPvtCollMsg_def)

definition ref_PvtNsMsg :: "NsPvtReadWriteSet \<Rightarrow> bytes" where
  "ref_PvtNsMsg n = pack [to_bytes (nq_Namespace n), pack (map ref_PvtCollMsg (nq_CollectionPvtRwset n))]"

definition ref_unPvtNsMsg :: "bytes \<Rightarrow> NsPvtReadWriteSet option" where
  "ref_unPvtNsMsg = unpack2 (\<lambda>n c. map_option (\<lambda>c. \<lparr>nq_Namespace = to_string n, nq_CollectionPvtRwset = c\<rparr>) (unpack_list ref_unPvtCollMsg c))"

lemma ref_PvtNsMsg [simp]: "ref_unPvtNsMsg (ref_PvtNsMsg n) = Some n"
  by (simp add: ref_PvtNsMsg_def ref_unPvtNsMsg_def)

definition ref_rwset_codec :: rwset_codec where
  "ref_rwset_codec =
    \<lparr>marshal_Tx = (\<lambda>m. Ok (pack [to_bytes (Itoa (rt_DataModel m)), pack (map ref_NsMsg (rt_NsRwset m))])),
     unmarshal_Tx = unpack2 (\<lambda>d n. map_option (\<lambda>n. \<lparr>rt_DataModel = ref_int (to_string d), rt_NsRwset = n\<rparr>) (unpack_list ref_unNsMsg n)),
     marshal_PvtTx = (\<lambda>m. Ok (pack [to_bytes (Itoa (tq_DataModel m)), pack (map ref_PvtNsMsg (tq_NsPvtRwset m))])),
     unmarshal_PvtTx = unpack2 (\<lambda>d n. map_option (\<lambda>n. \<lparr>tq_DataModel = ref_int (to_string d), tq_NsPvtRwset = n\<rparr>) (unpack_list ref_unPvtNsMsg n)),
     marshal_KV = (\<lambda>m. Ok (ref_KV m)), unmarshal_KV = ref_unKV,
     marshal_Hashed = (\<lambda>m. Ok (ref_Hashed m)), unmarshal_Hashed = ref_unHashed\<rparr>"

lemma ref_rwset_codec_laws: "rwset_codec_laws ref_rwset_codec"
  by (simp add: rwset_codec_laws_def ref_rwset_codec_def ref_KV_def ref_unKV_def ref_Hashed_def ref_unHashed_def)

section \<open>Properties\<close>

text \<open>C35. Read-write sets survive their protobuf form: whenever the bytes of a public or a private
  read-write set can be made, reading them back gives the same set, with all namespaces, collections and
  hashes in order, unless it contains a value that is empty but not absent.\<close>

theorem rwset_round_trip:
  assumes "rwset_codec_laws RC"
  shows "(\<forall>t b. TxRwSet_ToProtoBytes RC t = Ok b \<and> rwset_normal t \<longrightarrow> TxRwSet_FromProtoBytes RC b = Ok t) \<and>
    (\<forall>t b. TxPvtRwSet_ToProtoBytes RC t = Ok b \<and> pvt_normal t \<longrightarrow> TxPvtRwSet_FromProtoBytes RC b = Ok t)"
  using TxRwSet_round_trip [OF assms] TxPvtRwSet_round_trip [OF assms] by simp

definition sample_rws :: TxRwSet where
  "sample_rws = \<lparr>NsRwSets = [\<lparr>NameSpace = ''cc'', KvRwSet = \<lparr>Reads = [NewKVRead ''a'' (Some (NewHeight 1 2))], RangeQueriesInfo = [],
     Writes = [newKVWrite ''a'' (Some [1]), newKVWrite ''b'' None], MetadataWrites = []\<rparr>, CollHashedRwSets = [\<lparr>CollectionName = ''c'',
     HashedRwSet = \<lparr>HashedReads = [], HashedWrites = [], HashedMetadataWrites = []\<rparr>, PvtRwSetHash = Some [7]\<rparr>]\<rparr>]\<rparr>"

theorem rwset_round_trip_witness:
  "\<exists>b. TxRwSet_ToProtoBytes ref_rwset_codec sample_rws = Ok b \<and> TxRwSet_FromProtoBytes ref_rwset_codec b = Ok sample_rws"
proof -
  have "\<exists>b. TxRwSet_ToProtoBytes ref_rwset_codec sample_rws = Ok b"
    by (simp add: TxRwSet_ToProtoBytes_def tx_toProtoMsg_def ns_toProtoMsg_def coll_toProtoMsg_def ref_rwset_codec_def sample_rws_def)
  moreover have "rwset_normal sample_rws"
    by (simp add: rwset_normal_def sample_rws_def kv_normal_def hashed_normal_def newKVWrite_def)
  ultimately show ?thesis using rwset_round_trip [OF ref_rwset_codec_laws] by blast
qed

end
