(* ===== verification/BatchPreparer.thy ===== *)
theory BatchPreparer
  imports Serializability RwsetProto BlockIndex
begin

text \<open>
  From a block as it comes from the orderer to the batch that is committed
  (\<open>core/ledger/kvledger/txmgmt/validation/batch_preparer.go\<close>): the transactions are taken out of the envelopes,
  validated, the private data that came with the block are checked against the hashes in the
  transactions, and the validation codes are written to the metadata of the block
  (\<open>internal/pkg/txflags\<close>).  A block is never nil and has metadata; the chaincode id among the statistics of a
  transaction is left out.
\<close>

section \<open>Validation flags\<close>

definition TxValidationCode_NIL_TXACTION :: int where "TxValidationCode_NIL_TXACTION = 16"
definition TxValidationCode_INVALID_WRITESET :: int where "TxValidationCode_INVALID_WRITESET = 24"
definition TxValidationCode_NOT_VALIDATED :: int where "TxValidationCode_NOT_VALIDATED = 254"
definition TxValidationCode_INVALID_OTHER_REASON :: int where "TxValidationCode_INVALID_OTHER_REASON = 255"

definition newWithValues :: "nat \<Rightarrow> int \<Rightarrow> bytes" where
  "newWithValues size' value' = replicate size' (word_of_int value')"

definition NewWithValues :: "nat \<Rightarrow> int \<Rightarrow> bytes" where
  "NewWithValues size' value' = newWithValues size' value'"

definition flags_New :: "nat \<Rightarrow> bytes" where
  "flags_New size' = newWithValues size' TxValidationCode_NOT_VALIDATED"

definition SetFlag :: "nat \<Rightarrow> int \<Rightarrow> bytes \<Rightarrow> bytes result" where
  "SetFlag txIndex flag flags =
     (if txIndex < length flags then Ok (flags[txIndex := word_of_int flag]) else Panic ''index out of range'')"

definition IsSetTo :: "bytes \<Rightarrow> nat \<Rightarrow> int \<Rightarrow> bool result" where
  "IsSetTo flags txIndex flag = rbind (ValidationFlags_Flag flags txIndex) (\<lambda>f. Ok (f = flag))"

definition IsValid :: "bytes \<Rightarrow> nat \<Rightarrow> bool result" where
  "IsValid flags txIndex = IsSetTo flags txIndex TxValidationCode_VALID"

definition IsInvalid :: "bytes \<Rightarrow> nat \<Rightarrow> bool result" where
  "IsInvalid flags txIndex = rbind (IsValid flags txIndex) (\<lambda>v. Ok (\<not> v))"

section \<open>Parsing the block\<close>

definition HeaderType_ENDORSER_TRANSACTION :: int where "HeaderType_ENDORSER_TRANSACTION = 3"

text \<open>An empty byte string field is left out of a message, and is nil in the message that is read.\<close>

definition GetPayloads :: "codec \<Rightarrow> TransactionAction \<Rightarrow> (ChaincodeActionPayload \<times> ChaincodeAction) result" where
  "GetPayloads C txActions =
     rbind (UnmarshalChaincodeActionPayload C (ta_Payload txActions)) (\<lambda>ccPayload.
     case cap_Action ccPayload of
       None \<Rightarrow> Err (ErrMsg ''no payload in ChaincodeActionPayload'')
     | Some action \<Rightarrow>
         if cea_ProposalResponsePayload action = [] then Err (ErrMsg ''no payload in ChaincodeActionPayload'')
         else rbind (UnmarshalProposalResponsePayload C (cea_ProposalResponsePayload action)) (\<lambda>pRespPayload.
           if prp_Extension pRespPayload = [] then Err (ErrMsg ''response payload is missing extension'')
           else rbind (UnmarshalChaincodeAction C (prp_Extension pRespPayload)) (\<lambda>respPayload. Ok (ccPayload, respPayload))))"

definition GetActionFromEnvelopeMsg :: "codec \<Rightarrow> Envelope \<Rightarrow> ChaincodeAction result" where
  "GetActionFromEnvelopeMsg C env =
     rbind (UnmarshalPayload C (env_Payload env)) (\<lambda>payl.
     rbind (UnmarshalTransaction C (pl_Data payl)) (\<lambda>tx.
     case tx_Actions tx of
       [] \<Rightarrow> Err (ErrMsg ''at least one TransactionAction required'')
     | a # _ \<Rightarrow> rbind (GetPayloads C a) (\<lambda>(_, respPayload). Ok respPayload)))"

definition GetActionFromEnvelope :: "codec \<Rightarrow> bytes \<Rightarrow> ChaincodeAction result" where
  "GetActionFromEnvelope C envBytes = rbind (GetEnvelopeFromBlock C envBytes) (GetActionFromEnvelopeMsg C)"

text \<open>
  The simulator of transactions that are not endorsed, and the processors registered for the types of
  such transactions; a simulator is a value of type \<open>'sim\<close>.
\<close>

record 'sim post_order =
  NewTxSimulator :: "string \<Rightarrow> 'sim result"
  customTxProcessors :: "int \<Rightarrow> (Envelope \<Rightarrow> 'sim \<Rightarrow> bool \<Rightarrow> 'sim result) option"
  GetTxSimulationResults :: "'sim \<Rightarrow> RwTxReadWriteSet option result"

definition processNonEndorserTx :: "'sim post_order \<Rightarrow> Envelope \<Rightarrow> string \<Rightarrow> int \<Rightarrow> bool \<Rightarrow> RwTxReadWriteSet option result" where
  "processNonEndorserTx PO txEnv txid txType synchingState =
     (case customTxProcessors PO txType of
        None \<Rightarrow> Ok None
      | Some processor \<Rightarrow>
          rbind (NewTxSimulator PO txid) (\<lambda>sim.
          rbind (processor txEnv sim synchingState) (\<lambda>sim'.
          GetTxSimulationResults PO sim')))"

definition leveldb_ValidateKeyValue :: "string \<Rightarrow> bytes option \<Rightarrow> unit result" where
  "leveldb_ValidateKeyValue key value = Ok ()"

definition validateWriteset :: "TxRwSet \<Rightarrow> (string \<Rightarrow> bytes option \<Rightarrow> unit result) \<Rightarrow> unit result" where
  "validateWriteset txRWSet validateKVFunc =
     rfold (\<lambda>nsRwSet. rfold (\<lambda>kvwrite _. validateKVFunc (rw_Key kvwrite) (rw_Value kvwrite)) (Writes (KvRwSet nsRwSet)))
       (NsRwSets txRWSet) ()"

record TxStatInfo =
  ts_ValidationCode :: int
  ts_TxType :: int
  ts_NumCollections :: nat

text \<open>The parameters of the preparation, and the state of its first loop: the flags, the transactions, the statistics.\<close>

record 'sim preparer =
  pr_codec :: codec
  pr_rwsets :: rwset_codec
  pr_postOrder :: "'sim post_order"
  pr_params :: validation_params

type_synonym parse_state = "bytes \<times> transaction list \<times> TxStatInfo list"

definition flag_tx :: "nat \<Rightarrow> int \<Rightarrow> TxStatInfo \<Rightarrow> parse_state \<Rightarrow> parse_state result" where
  "flag_tx txIndex code stat s =
     (case s of (flags, txs, stats) \<Rightarrow> rbind (SetFlag txIndex code flags) (\<lambda>flags'. Ok (flags', txs, stats @ [stat])))"

definition add_tx :: "nat \<Rightarrow> ChannelHeader \<Rightarrow> TxRwSet \<Rightarrow> bool \<Rightarrow> TxStatInfo \<Rightarrow> parse_state \<Rightarrow> parse_state result" where
  "add_tx txIndex chdr txRWSet containsPostOrderWrites stat s =
     (let stat' = stat\<lparr>ts_NumCollections := NumCollections (Some txRWSet)\<rparr> in
      case validateWriteset txRWSet leveldb_ValidateKeyValue of
        Panic p \<Rightarrow> Panic p
      | Err _ \<Rightarrow> flag_tx txIndex TxValidationCode_INVALID_WRITESET stat' s
      | Ok _ \<Rightarrow>
          (case s of (flags, txs, stats) \<Rightarrow>
             Ok (flags, txs @ [\<lparr>tx_indexInBlock = txIndex, tx_id = ch_TxId chdr, tx_rwset = txRWSet, tx_validationCode = 0,
                    tx_containsPostOrderWrites = containsPostOrderWrites\<rparr>], stats @ [stat'])))"

text \<open>The header is taken out of the envelope before the flag is looked at; the header of the payload may be nil.\<close>

definition unpack_header :: "codec \<Rightarrow> bytes \<Rightarrow> (Envelope \<times> ChannelHeader) result" where
  "unpack_header C envBytes =
     rbind (GetEnvelopeFromBlock C envBytes) (\<lambda>env.
     rbind (UnmarshalPayload C (env_Payload env)) (\<lambda>payload.
     case pl_Header payload of
       None \<Rightarrow> Panic ''nil pointer dereference''
     | Some header \<Rightarrow> rbind (UnmarshalChannelHeader C (hdr_ChannelHeader header)) (\<lambda>chdr. Ok (env, chdr))))"

definition parse_endorser :: "'sim preparer \<Rightarrow> nat \<Rightarrow> bytes \<Rightarrow> ChannelHeader \<Rightarrow> TxStatInfo \<Rightarrow> parse_state \<Rightarrow> parse_state result" where
  "parse_endorser PR txIndex envBytes chdr stat s =
     (case GetActionFromEnvelope (pr_codec PR) envBytes of
        Panic p \<Rightarrow> Panic p
      | Err _ \<Rightarrow> flag_tx txIndex TxValidationCode_NIL_TXACTION stat s
      | Ok respPayload \<Rightarrow>
          (case TxRwSet_FromProtoBytes (pr_rwsets PR) (ca_Results respPayload) of
             Panic p \<Rightarrow> Panic p
           | Err _ \<Rightarrow> flag_tx txIndex TxValidationCode_INVALID_OTHER_REASON stat s
           | Ok txRWSet \<Rightarrow> add_tx txIndex chdr txRWSet False stat s))"

definition parse_other :: "'sim preparer \<Rightarrow> bool \<Rightarrow> nat \<Rightarrow> Envelope \<Rightarrow> ChannelHeader \<Rightarrow> TxStatInfo \<Rightarrow> parse_state \<Rightarrow> parse_state result" where
  "parse_other PR doMVCCValidation txIndex env chdr stat s =
     (case processNonEndorserTx (pr_postOrder PR) env (ch_TxId chdr) (ch_Type chdr) (\<not> doMVCCValidation) of
        Panic p \<Rightarrow> Panic p
      | Err (InvalidTxError _) \<Rightarrow> flag_tx txIndex TxValidationCode_INVALID_OTHER_REASON stat s
      | Err e \<Rightarrow> Err e
      | Ok None \<Rightarrow> (case s of (flags, txs, stats) \<Rightarrow> Ok (flags, txs, stats @ [stat]))
      | Ok (Some rwsetProto) \<Rightarrow>
          rbind (TxRwSetFromProtoMsg (pr_rwsets PR) rwsetProto) (\<lambda>txRWSet. add_tx txIndex chdr txRWSet True stat s))"

definition preprocess_tx :: "'sim preparer \<Rightarrow> bool \<Rightarrow> nat \<Rightarrow> bytes \<Rightarrow> parse_state \<Rightarrow> parse_state result" where
  "preprocess_tx PR doMVCCValidation txIndex envBytes s =
     (case s of (flags, txs, stats) \<Rightarrow>
      let hdr = unpack_header (pr_codec PR) envBytes;
          stat = \<lparr>ts_ValidationCode = 0, ts_TxType = - 1, ts_NumCollections = 0\<rparr>
      in case hdr of Panic p \<Rightarrow> Panic p | _ \<Rightarrow>
         rbind (IsInvalid flags txIndex) (\<lambda>invalid.
         if invalid then Ok (flags, txs, stats @ [stat])
         else rbind hdr (\<lambda>(env, chdr).
           if ch_Type chdr = HeaderType_ENDORSER_TRANSACTION
           then parse_endorser PR txIndex envBytes chdr (stat\<lparr>ts_TxType := ch_Type chdr\<rparr>) s
           else parse_other PR doMVCCValidation txIndex env chdr (stat\<lparr>ts_TxType := ch_Type chdr\<rparr>) s)))"

fun preprocess_loop :: "'sim preparer \<Rightarrow> bool \<Rightarrow> nat \<Rightarrow> bytes list \<Rightarrow> parse_state \<Rightarrow> parse_state result" where
  "preprocess_loop PR doMVCCValidation i [] s = Ok s"
| "preprocess_loop PR doMVCCValidation i (envBytes # rest) s =
     rbind (preprocess_tx PR doMVCCValidation i envBytes s) (preprocess_loop PR doMVCCValidation (i + 1) rest)"

definition block_flags :: "Block \<Rightarrow> bytes result" where
  "block_flags blk =
     (case BMetadata blk of
        None \<Rightarrow> Panic ''nil pointer dereference''
      | Some md \<Rightarrow> if BlockMetadataIndex_TRANSACTIONS_FILTER < length md then Ok (md ! BlockMetadataIndex_TRANSACTIONS_FILTER)
                   else Panic ''index out of range'')"

definition set_block_flags :: "bytes \<Rightarrow> Block \<Rightarrow> Block" where
  "set_block_flags flags blk = blk\<lparr>BMetadata := map_option (\<lambda>md. md[BlockMetadataIndex_TRANSACTIONS_FILTER := flags]) (BMetadata blk)\<rparr>"

text \<open>The flags share their memory with the metadata, so setting one changes the block.\<close>

definition preprocessProtoBlock :: "'sim preparer \<Rightarrow> bool \<Rightarrow> Block \<Rightarrow> (mvcc_block \<times> TxStatInfo list \<times> Block) result" where
  "preprocessProtoBlock PR doMVCCValidation blk =
     rbind (block_flags blk) (\<lambda>txsFilter.
     rbind (preprocess_loop PR doMVCCValidation 0 (BData blk) (txsFilter, [], [])) (\<lambda>(flags, txs, stats).
     Ok (\<lparr>mb_num = Number (BHeader blk), mb_txs = txs\<rparr>, stats, set_block_flags flags blk)))"

definition postprocessProtoBlock :: "mvcc_block \<Rightarrow> Block \<Rightarrow> Block result" where
  "postprocessProtoBlock validatedBlock blk =
     rbind (block_flags blk) (\<lambda>txsFilter.
     rbind (rfold (\<lambda>tx. SetFlag (tx_indexInBlock tx) (tx_validationCode tx)) (mb_txs validatedBlock) txsFilter) (\<lambda>flags.
     Ok (set_block_flags flags blk)))"

section \<open>Private data\<close>

record TxPvtData =
  SeqInBlock :: uint64
  WriteSet :: "TxPvtReadWriteSet option"

record collKey =
  ck_ns :: string
  ck_coll :: string
  ck_key :: string

definition requiresPvtdataValidation :: "TxPvtData \<Rightarrow> bool" where
  "requiresPvtdataValidation tx = True"

definition bytes_of :: "bytes option \<Rightarrow> bytes" where
  "bytes_of b = (case b of None \<Rightarrow> [] | Some x \<Rightarrow> x)"

definition validatePvtdata :: "transaction \<Rightarrow> TxPvtData \<Rightarrow> unit result" where
  "validatePvtdata tx pvtdata =
     (case WriteSet pvtdata of
        None \<Rightarrow> Ok ()
      | Some ws \<Rightarrow>
          rfold (\<lambda>nsPvtdata. rfold (\<lambda>collPvtdata _.
            if ComputeHash (cq_Rwset collPvtdata) \<noteq> bytes_of (retrieveHash tx (nq_Namespace nsPvtdata) (cq_CollectionName collPvtdata))
            then Err (ErrMsg ''hash of pvt data for collection [%s:%s] does not match with the corresponding hash in the public data'')
            else Ok ()) (nq_CollectionPvtRwset nsPvtdata)) (tq_NsPvtRwset ws) ())"

definition put_pvt_write :: "Height \<Rightarrow> string \<Rightarrow> string \<Rightarrow> RwKVWrite \<Rightarrow> UpdateMap \<Rightarrow> UpdateMap result" where
  "put_pvt_write ver ns coll kvwrite pvtUpdateBatch =
     (if \<not> rw_IsDelete kvwrite then um_Put ns coll (rw_Key kvwrite) (rw_Value kvwrite) ver pvtUpdateBatch
      else Ok (um_Delete ns coll (rw_Key kvwrite) ver pvtUpdateBatch))"

definition addPvtRWSetToPvtUpdateBatch :: "TxPvtRwSet \<Rightarrow> Height \<Rightarrow> UpdateMap \<Rightarrow> UpdateMap result" where
  "addPvtRWSetToPvtUpdateBatch pvtRWSet ver pvtUpdateBatch =
     rfold (\<lambda>ns. rfold (\<lambda>coll. rfold (put_pvt_write ver (npr_NameSpace ns) (cpr_CollectionName coll)) (Writes (cpr_KvRwSet coll)))
       (CollPvtRwSets ns)) (NsPvtRwSets pvtRWSet) pvtUpdateBatch"

text \<open>The keys of the map, without repetition.\<close>

definition addEntriesToMetadataUpdates :: "TxPvtRwSet \<Rightarrow> collKey list \<Rightarrow> collKey list" where
  "addEntriesToMetadataUpdates pvtRWSet metadataUpdates =
     fold (\<lambda>ns. fold (\<lambda>coll. fold (\<lambda>m. List.insert \<lparr>ck_ns = npr_NameSpace ns, ck_coll = cpr_CollectionName coll, ck_key = mw_Key m\<rparr>)
       (MetadataWrites (cpr_KvRwSet coll))) (CollPvtRwSets ns)) (NsPvtRwSets pvtRWSet) metadataUpdates"

definition retrieveLatestVal :: "value_codec \<Rightarrow> PrivDB \<Rightarrow> string \<Rightarrow> string \<Rightarrow> string \<Rightarrow> UpdateMap \<Rightarrow> VersionedValue option result" where
  "retrieveLatestVal V db ns coll key pvtUpdateBatch =
     (case um_Get ns coll key pvtUpdateBatch of Some val \<Rightarrow> Ok (Some val) | None \<Rightarrow> GetPrivateData V ns coll key db)"

text \<open>The versions in a batch of updates are never nil.\<close>

definition increment_version :: "value_codec \<Rightarrow> PrivDB \<Rightarrow> UpdateMap \<Rightarrow> collKey \<Rightarrow> UpdateMap \<Rightarrow> UpdateMap result" where
  "increment_version V db hashed ck pvtUpdateBatch =
     (let ns = ck_ns ck; coll = ck_coll ck; key = ck_key ck; keyHash = ComputeStringHash key in
      case um_Get ns coll (to_string keyHash) hashed of
        None \<Rightarrow> Ok pvtUpdateBatch
      | Some hashedVal \<Rightarrow>
          rbind (retrieveLatestVal V db ns coll key pvtUpdateBatch) (\<lambda>latestVal.
          case latestVal of
            None \<Rightarrow> Ok pvtUpdateBatch
          | Some latest' \<Rightarrow>
              if AreSame (vv_Version latest') (vv_Version hashedVal) then Ok pvtUpdateBatch
              else if ComputeHash (bytes_of (vv_Value latest')) = bytes_of (vv_Value hashedVal)
              then (case vv_Version hashedVal of
                      None \<Rightarrow> Panic ''nil pointer dereference''
                    | Some ver \<Rightarrow> um_Put ns coll key (vv_Value latest') ver pvtUpdateBatch)
              else Ok pvtUpdateBatch))"

definition incrementPvtdataVersionIfNeeded :: "value_codec \<Rightarrow> PrivDB \<Rightarrow> UpdateMap \<Rightarrow> collKey list \<Rightarrow> UpdateMap \<Rightarrow> UpdateMap result" where
  "incrementPvtdataVersionIfNeeded V db hashed metadataUpdates pvtUpdateBatch =
     rfold (increment_version V db hashed) metadataUpdates pvtUpdateBatch"

text \<open>A transaction with private data; a nil write set is dereferenced by the conversion.\<close>

definition add_pvtdata ::
  "rwset_codec \<Rightarrow> uint64 \<Rightarrow> (uint64 \<Rightarrow> TxPvtData option) \<Rightarrow> transaction \<Rightarrow> UpdateMap \<times> collKey list \<Rightarrow> (UpdateMap \<times> collKey list) result" where
  "add_pvtdata RC num pvtdata tx s =
     (if tx_validationCode tx \<noteq> TxValidationCode_VALID then Ok s
      else if \<not> containsPvtWrites tx then Ok s
      else case pvtdata (word_of_nat (tx_indexInBlock tx)) of
        None \<Rightarrow> Ok s
      | Some txPvtdata \<Rightarrow>
          rbind (if requiresPvtdataValidation txPvtdata then validatePvtdata tx txPvtdata else Ok ()) (\<lambda>_.
          rbind (case WriteSet txPvtdata of None \<Rightarrow> Panic ''nil pointer dereference'' | Some ws \<Rightarrow> TxPvtRwSetFromProtoMsg RC ws) (\<lambda>pvtRWSet.
          case s of (pvtUpdates, metadataUpdates) \<Rightarrow>
            rbind (addPvtRWSetToPvtUpdateBatch pvtRWSet (NewHeight num (word_of_nat (tx_indexInBlock tx))) pvtUpdates) (\<lambda>pvtUpdates'.
            Ok (pvtUpdates', addEntriesToMetadataUpdates pvtRWSet metadataUpdates)))))"

definition validateAndPreparePvtBatch ::
  "rwset_codec \<Rightarrow> value_codec \<Rightarrow> mvcc_block \<Rightarrow> PrivDB \<Rightarrow> publicAndHashUpdates \<Rightarrow> (uint64 \<Rightarrow> TxPvtData option) \<Rightarrow> UpdateMap result" where
  "validateAndPreparePvtBatch RC V blk db pubAndHashUpdates pvtdata =
     rbind (rfold (add_pvtdata RC (mb_num blk) pvtdata) (mb_txs blk) (NewPvtUpdateBatch, [])) (\<lambda>(pvtUpdates, metadataUpdates).
     incrementPvtdataVersionIfNeeded V db (hashUpdates pubAndHashUpdates) metadataUpdates pvtUpdates)"

section \<open>The preparation of a batch\<close>

definition set_stat :: "bytes \<Rightarrow> nat \<Rightarrow> TxStatInfo list \<Rightarrow> TxStatInfo list result" where
  "set_stat flags i stats =
     rbind (ValidationFlags_Flag flags i) (\<lambda>code.
     if i < length stats then Ok (stats[i := (stats ! i)\<lparr>ts_ValidationCode := code\<rparr>]) else Panic ''index out of range'')"

definition ValidateAndPrepareBatch ::
  "'sim preparer \<Rightarrow> PrivDB \<Rightarrow> (uint64 \<Rightarrow> TxPvtData option) \<Rightarrow> bool \<Rightarrow> Block \<Rightarrow> (PrivUpdateBatch \<times> TxStatInfo list \<times> Block) result option" where
  "ValidateAndPrepareBatch PR db pvtdata doMVCCValidation blk =
     obind (Some (preprocessProtoBlock PR doMVCCValidation blk)) (\<lambda>(internalBlock, txsStatInfo, blk1).
     obind (validateAndPrepareBatch (pr_params PR) db internalBlock doMVCCValidation) (\<lambda>(pubAndHashUpdates, internalBlock').
     Some (
       rbind (validateAndPreparePvtBatch (pr_rwsets PR) (vp_values (pr_params PR)) internalBlock' db pubAndHashUpdates pvtdata) (\<lambda>pvtUpdates.
       rbind (postprocessProtoBlock internalBlock' blk1) (\<lambda>blk2.
       rbind (block_flags blk2) (\<lambda>txsFilter.
       rbind (rfold (set_stat txsFilter) [0..<length txsFilter] txsStatInfo) (\<lambda>stats.
       Ok (\<lparr>PubUpdates = publicUpdates pubAndHashUpdates, HashUpdates = hashUpdates pubAndHashUpdates, PvtUpdates = pvtUpdates\<rparr>, stats, blk2))))))))"

section \<open>Which transactions are prepared\<close>

text \<open>A transaction as the parser makes it from an envelope, and an envelope without a read-write set.\<close>

definition decoded :: "'sim preparer \<Rightarrow> bool \<Rightarrow> bytes \<Rightarrow> transaction \<Rightarrow> bool" where
  "decoded PR mvcc envBytes tx \<longleftrightarrow> (\<exists>env chdr. unpack_header (pr_codec PR) envBytes = Ok (env, chdr) \<and> tx_id tx = ch_TxId chdr \<and>
     (if ch_Type chdr = HeaderType_ENDORSER_TRANSACTION
      then \<exists>a. GetActionFromEnvelope (pr_codec PR) envBytes = Ok a \<and> TxRwSet_FromProtoBytes (pr_rwsets PR) (ca_Results a) = Ok (tx_rwset tx)
      else \<exists>m. processNonEndorserTx (pr_postOrder PR) env (ch_TxId chdr) (ch_Type chdr) (\<not> mvcc) = Ok (Some m) \<and>
        TxRwSetFromProtoMsg (pr_rwsets PR) m = Ok (tx_rwset tx)))"

definition without_rwset :: "'sim preparer \<Rightarrow> bool \<Rightarrow> bytes \<Rightarrow> bool" where
  "without_rwset PR mvcc envBytes \<longleftrightarrow> (\<exists>env chdr. unpack_header (pr_codec PR) envBytes = Ok (env, chdr) \<and>
     ch_Type chdr \<noteq> HeaderType_ENDORSER_TRANSACTION \<and>
     processNonEndorserTx (pr_postOrder PR) env (ch_TxId chdr) (ch_Type chdr) (\<not> mvcc) = Ok None)"

lemma validateWriteset_leveldb [simp]: "validateWriteset rws leveldb_ValidateKeyValue = Ok ()"
proof -
  have all: "(\<And>x. f x () = Ok ()) \<Longrightarrow> rfold f xs () = Ok ()" for f :: "NsRwSet \<Rightarrow> unit \<Rightarrow> unit result" and xs
    by (induction xs) simp_all
  have writes: "rfold (\<lambda>w _. leveldb_ValidateKeyValue (rw_Key w) (rw_Value w)) ws () = Ok ()" for ws :: "RwKVWrite list"
    by (induction ws) (simp_all add: leveldb_ValidateKeyValue_def)
  show ?thesis unfolding validateWriteset_def by (rule all, rule writes)
qed

lemma flag_tx_Ok: "flag_tx i c stat (flags, txs, stats) = Ok (flags', txs', stats') \<longleftrightarrow>
   i < length flags \<and> flags' = flags[i := word_of_int c] \<and> txs' = txs \<and> stats' = stats @ [stat]"
  by (auto simp: flag_tx_def SetFlag_def)

lemma IsInvalid_Ok: "IsInvalid flags i = Ok b \<longleftrightarrow> i < length flags \<and> (b \<longleftrightarrow> flags ! i \<noteq> 0)"
  by (auto simp: IsInvalid_def IsValid_def IsSetTo_def ValidationFlags_Flag_def TxValidationCode_VALID_def uint_0_iff)

text \<open>The outcomes for one envelope.\<close>

inductive parsed :: "'sim preparer \<Rightarrow> bool \<Rightarrow> nat \<Rightarrow> bytes \<Rightarrow> bytes \<Rightarrow> transaction list \<Rightarrow> bytes \<Rightarrow> transaction list \<Rightarrow> bool"
  for PR mvcc i e flags txs where
  already: "flags ! i \<noteq> 0 \<Longrightarrow> parsed PR mvcc i e flags txs flags txs"
| refused: "flags ! i = 0 \<Longrightarrow> c \<noteq> 0 \<Longrightarrow> parsed PR mvcc i e flags txs (flags[i := c]) txs"
| prepared: "flags ! i = 0 \<Longrightarrow> tx_indexInBlock tx = i \<Longrightarrow> decoded PR mvcc e tx \<Longrightarrow> parsed PR mvcc i e flags txs flags (txs @ [tx])"
| ignored: "flags ! i = 0 \<Longrightarrow> without_rwset PR mvcc e \<Longrightarrow> parsed PR mvcc i e flags txs flags txs"

lemma preprocess_tx_parsed:
  assumes "preprocess_tx PR mvcc i e (flags, txs, stats) = Ok (flags', txs', stats')"
  shows "i < length flags \<and> length stats' = Suc (length stats) \<and> parsed PR mvcc i e flags txs flags' txs'"
proof (cases "unpack_header (pr_codec PR) e")
  case (Panic p)
  then show ?thesis using assms by (simp add: preprocess_tx_def Let_def)
next
  case (Err x)
  then show ?thesis using assms
    by (auto simp: preprocess_tx_def Let_def rbind_eq_Ok IsInvalid_Ok split: if_splits intro: parsed.already)
next
  case (Ok h)
  obtain env chdr where h: "unpack_header (pr_codec PR) e = Ok (env, chdr)" using Ok by (cases h) simp
  let ?stat = "\<lparr>ts_ValidationCode = 0, ts_TxType = ch_Type chdr, ts_NumCollections = 0\<rparr>"
  obtain b where b: "IsInvalid flags i = Ok b"
    using assms h by (cases "IsInvalid flags i") (auto simp: preprocess_tx_def Let_def)
  then have i: "i < length flags" "b \<longleftrightarrow> flags ! i \<noteq> 0" by (simp_all add: IsInvalid_Ok)
  consider "b" | "\<not> b" "ch_Type chdr = HeaderType_ENDORSER_TRANSACTION" "parse_endorser PR i e chdr ?stat (flags, txs, stats) = Ok (flags', txs', stats')"
    | "\<not> b" "ch_Type chdr \<noteq> HeaderType_ENDORSER_TRANSACTION" "parse_other PR mvcc i env chdr ?stat (flags, txs, stats) = Ok (flags', txs', stats')"
    using assms h b by (cases b; cases "ch_Type chdr = HeaderType_ENDORSER_TRANSACTION") (auto simp: preprocess_tx_def Let_def)
  then show ?thesis
  proof cases
    case 1
    then show ?thesis using assms h b i by (auto simp: preprocess_tx_def Let_def intro: parsed.already)
  next
    case 2
    show ?thesis using 2(3) i 2(1)
      by (auto simp: parse_endorser_def flag_tx_Ok add_tx_def Let_def TxValidationCode_NIL_TXACTION_def TxValidationCode_INVALID_OTHER_REASON_def
          decoded_def h 2(2) split: result.splits intro!: parsed.refused parsed.prepared)
  next
    case 3
    show ?thesis using 3(3) i 3(1)
      by (auto simp: parse_other_def flag_tx_Ok add_tx_def Let_def TxValidationCode_INVALID_OTHER_REASON_def
          decoded_def without_rwset_def h 3(2) rbind_eq_Ok split: result.splits goerr.splits option.splits intro!: parsed.refused parsed.prepared parsed.ignored)
  qed
qed

definition selected :: "'sim preparer \<Rightarrow> bool \<Rightarrow> nat \<Rightarrow> bytes list \<Rightarrow> bytes \<Rightarrow> bytes \<Rightarrow> transaction list \<Rightarrow> bool" where
  "selected PR mvcc i es flags flags' txs \<longleftrightarrow>
     length flags' = length flags \<and> sorted_wrt (<) (map tx_indexInBlock txs) \<and>
     (\<forall>tx \<in> set txs. i \<le> tx_indexInBlock tx \<and> tx_indexInBlock tx < i + length es \<and> tx_indexInBlock tx < length flags \<and>
        flags ! tx_indexInBlock tx = 0 \<and> flags' ! tx_indexInBlock tx = 0 \<and> decoded PR mvcc (es ! (tx_indexInBlock tx - i)) tx) \<and>
     (\<forall>j < length flags. flags ! j \<noteq> 0 \<or> j < i \<longrightarrow> flags' ! j = flags ! j) \<and>
     (\<forall>j < length es. flags' ! (i + j) = 0 \<longrightarrow> i + j \<in> tx_indexInBlock ` set txs \<or> without_rwset PR mvcc (es ! j))"

lemma nth_shift: "Suc i \<le> n \<Longrightarrow> (e # es) ! (n - i) = es ! (n - Suc i)"
  using Suc_diff_Suc [of i n] by (simp add: nth_Cons')

lemma selected_skip:
  assumes s: "selected PR mvcc (Suc i) es flags1 flags' txs" and i: "i < length flags" "length flags1 = length flags"
    and f: "\<forall>j < length flags. j \<noteq> i \<longrightarrow> flags1 ! j = flags ! j" "flags ! i \<noteq> 0 \<longrightarrow> flags1 ! i = flags ! i"
    and e: "flags1 ! i = 0 \<longrightarrow> without_rwset PR mvcc e"
  shows "selected PR mvcc i (e # es) flags flags' txs"
proof -
  have S: "length flags' = length flags1" "sorted_wrt (<) (map tx_indexInBlock txs)"
    "\<And>tx. tx \<in> set txs \<Longrightarrow> Suc i \<le> tx_indexInBlock tx \<and> tx_indexInBlock tx < Suc i + length es \<and> tx_indexInBlock tx < length flags1 \<and>
        flags1 ! tx_indexInBlock tx = 0 \<and> flags' ! tx_indexInBlock tx = 0 \<and> decoded PR mvcc (es ! (tx_indexInBlock tx - Suc i)) tx"
    "\<And>j. j < length flags1 \<Longrightarrow> flags1 ! j \<noteq> 0 \<or> j < Suc i \<Longrightarrow> flags' ! j = flags1 ! j"
    "\<And>j. j < length es \<Longrightarrow> flags' ! (Suc i + j) = 0 \<Longrightarrow> Suc i + j \<in> tx_indexInBlock ` set txs \<or> without_rwset PR mvcc (es ! j)"
    using s by (auto simp: selected_def)
  have i': "flags' ! i = flags1 ! i" using S(4) i by simp
  have 1: "i \<le> tx_indexInBlock tx \<and> tx_indexInBlock tx < i + length (e # es) \<and> tx_indexInBlock tx < length flags \<and>
      flags ! tx_indexInBlock tx = 0 \<and> flags' ! tx_indexInBlock tx = 0 \<and> decoded PR mvcc ((e # es) ! (tx_indexInBlock tx - i)) tx" if "tx \<in> set txs" for tx
    using S(3) [OF that] f(1) i by (auto simp: nth_shift)
  have 2: "flags' ! j = flags ! j" if "j < length flags" "flags ! j \<noteq> 0 \<or> j < i" for j
    using that S(4) [of j] f i i' by (cases "j = i") auto
  have 3: "i + j \<in> tx_indexInBlock ` set txs \<or> without_rwset PR mvcc ((e # es) ! j)" if "j < length (e # es)" "flags' ! (i + j) = 0" for j
    using that S(5) [of "j - 1"] i' e by (cases j) auto
  show ?thesis unfolding selected_def using S(1,2) i(2) 1 2 3 by auto
qed

lemma selected_add:
  assumes s: "selected PR mvcc (Suc i) es flags flags' txs" and i: "i < length flags" "flags ! i = 0"
    and tx: "tx_indexInBlock tx = i" "decoded PR mvcc e tx"
  shows "selected PR mvcc i (e # es) flags flags' (tx # txs)"
proof -
  have S: "length flags' = length flags" "sorted_wrt (<) (map tx_indexInBlock txs)"
    "\<And>tx. tx \<in> set txs \<Longrightarrow> Suc i \<le> tx_indexInBlock tx \<and> tx_indexInBlock tx < Suc i + length es \<and> tx_indexInBlock tx < length flags \<and>
        flags ! tx_indexInBlock tx = 0 \<and> flags' ! tx_indexInBlock tx = 0 \<and> decoded PR mvcc (es ! (tx_indexInBlock tx - Suc i)) tx"
    "\<And>j. j < length flags \<Longrightarrow> flags ! j \<noteq> 0 \<or> j < Suc i \<Longrightarrow> flags' ! j = flags ! j"
    "\<And>j. j < length es \<Longrightarrow> flags' ! (Suc i + j) = 0 \<Longrightarrow> Suc i + j \<in> tx_indexInBlock ` set txs \<or> without_rwset PR mvcc (es ! j)"
    using s by (auto simp: selected_def)
  have 1: "i \<le> tx_indexInBlock t \<and> tx_indexInBlock t < i + length (e # es) \<and> tx_indexInBlock t < length flags \<and>
      flags ! tx_indexInBlock t = 0 \<and> flags' ! tx_indexInBlock t = 0 \<and> decoded PR mvcc ((e # es) ! (tx_indexInBlock t - i)) t" if "t \<in> set (tx # txs)" for t
    using that S(3) [of t] S(4) [of i] tx i by (auto simp: nth_shift)
  have "\<forall>t \<in> set txs. tx_indexInBlock tx < tx_indexInBlock t" using S(3) tx(1) Suc_le_lessD by blast
  then have 2: "sorted_wrt (<) (map tx_indexInBlock (tx # txs))" using S(2) by simp
  have 3: "i + j \<in> tx_indexInBlock ` set (tx # txs) \<or> without_rwset PR mvcc ((e # es) ! j)" if "j < length (e # es)" "flags' ! (i + j) = 0" for j
    using that S(5) [of "j - 1"] tx(1) by (cases j) auto
  show ?thesis unfolding selected_def using S(1,4) 1 2 3 by auto
qed

lemma preprocess_loop_selected:
  assumes "preprocess_loop PR mvcc i es (flags, txs, stats) = Ok (flags', txs', stats')"
  shows "\<exists>new. txs' = txs @ new \<and> length stats' = length stats + length es \<and> (es \<noteq> [] \<longrightarrow> i + length es \<le> length flags) \<and> selected PR mvcc i es flags flags' new"
  using assms
proof (induction es arbitrary: i flags txs stats)
  case Nil
  then show ?case by (simp add: selected_def)
next
  case (Cons e es)
  obtain f1 t1 s1 where 1: "preprocess_tx PR mvcc i e (flags, txs, stats) = Ok (f1, t1, s1)"
    "preprocess_loop PR mvcc (Suc i) es (f1, t1, s1) = Ok (flags', txs', stats')"
    using Cons.prems by (auto simp: rbind_eq_Ok)
  have p: "i < length flags" "length s1 = Suc (length stats)" "parsed PR mvcc i e flags txs f1 t1" using preprocess_tx_parsed [OF 1(1)] by simp_all
  obtain new where new: "txs' = t1 @ new" "length stats' = length s1 + length es" "es \<noteq> [] \<longrightarrow> Suc i + length es \<le> length f1" "selected PR mvcc (Suc i) es f1 flags' new"
    using Cons.IH [OF 1(2)] by blast
  from p(3) show ?case
  proof cases
    case already
    then have "selected PR mvcc i (e # es) flags flags' new" using selected_skip [OF new(4) p(1)] by simp
    then show ?thesis using new p(1,2) already by (intro exI [of _ new]) (cases es; simp)
  next
    case (refused c)
    then have "selected PR mvcc i (e # es) flags flags' new" using selected_skip [OF new(4) p(1)] p(1) by simp
    then show ?thesis using new p(1,2) refused by (intro exI [of _ new]) (cases es; simp)
  next
    case (prepared tx)
    then have "selected PR mvcc i (e # es) flags flags' (tx # new)" using selected_add [OF _ p(1), of PR mvcc es flags' new tx e] new(4) by simp
    then show ?thesis using new p(1,2) prepared by (intro exI [of _ "tx # new"]) (cases es; simp)
  next
    case ignored
    then have "selected PR mvcc i (e # es) flags flags' new" using selected_skip [OF new(4) p(1)] by simp
    then show ?thesis using new p(1,2) ignored by (intro exI [of _ new]) (cases es; simp)
  qed
qed

section \<open>The codes written to the block\<close>

lemma SetFlag_run:
  assumes "\<forall>tx \<in> set txs. tx_indexInBlock tx < length flags" "distinct (map tx_indexInBlock txs)"
  shows "\<exists>flags'. rfold (\<lambda>tx. SetFlag (tx_indexInBlock tx) (tx_validationCode tx)) txs flags = Ok flags' \<and> length flags' = length flags \<and>
    (\<forall>tx \<in> set txs. flags' ! tx_indexInBlock tx = word_of_int (tx_validationCode tx)) \<and>
    (\<forall>j < length flags. j \<notin> tx_indexInBlock ` set txs \<longrightarrow> flags' ! j = flags ! j)"
  using assms
proof (induction txs arbitrary: flags)
  case (Cons tx txs)
  let ?f = "flags[tx_indexInBlock tx := word_of_int (tx_validationCode tx)]"
  obtain flags' where f: "rfold (\<lambda>tx. SetFlag (tx_indexInBlock tx) (tx_validationCode tx)) txs ?f = Ok flags'" "length flags' = length flags"
    "\<forall>tx \<in> set txs. flags' ! tx_indexInBlock tx = word_of_int (tx_validationCode tx)"
    "\<forall>j < length flags. j \<notin> tx_indexInBlock ` set txs \<longrightarrow> flags' ! j = ?f ! j"
    using Cons.IH [of ?f] Cons.prems by auto
  have "flags' ! tx_indexInBlock tx = word_of_int (tx_validationCode tx)" using f(4) Cons.prems by auto
  moreover have "SetFlag (tx_indexInBlock tx) (tx_validationCode tx) flags = Ok ?f" using Cons.prems(1) by (simp add: SetFlag_def)
  ultimately show ?case using f Cons.prems(1) by (intro exI [of _ flags']) simp
qed simp

lemma block_flags_set: "block_flags blk = Ok f \<Longrightarrow> block_flags (set_block_flags flags blk) = Ok flags"
  by (auto simp: block_flags_def set_block_flags_def split: option.splits if_splits)

lemma set_stat_run:
  assumes "rfold (set_stat flags) [i..<length flags] stats = Ok stats'"
  shows "length stats' = length stats \<and> (\<forall>j < i. stats' ! j = stats ! j) \<and>
    (\<forall>j < length flags. i \<le> j \<longrightarrow> ts_ValidationCode (stats' ! j) = uint (flags ! j))"
  using assms
proof (induction "length flags - i" arbitrary: i stats)
  case (Suc n)
  then have i: "i < length flags" "[i..<length flags] = i # [Suc i..<length flags]" by (simp_all add: upt_conv_Cons)
  obtain stats1 where 1: "set_stat flags i stats = Ok stats1" "rfold (set_stat flags) [Suc i..<length flags] stats1 = Ok stats'"
    using Suc.prems i(2) by (auto simp: rbind_eq_Ok)
  have IH: "length stats' = length stats1" "\<forall>j < Suc i. stats' ! j = stats1 ! j"
    "\<forall>j < length flags. Suc i \<le> j \<longrightarrow> ts_ValidationCode (stats' ! j) = uint (flags ! j)"
    using Suc.hyps(1) [OF _ 1(2)] Suc.hyps(2) by auto
  have "stats1 = stats[i := (stats ! i)\<lparr>ts_ValidationCode := uint (flags ! i)\<rparr>]" "i < length stats"
    using 1(1) i(1) by (auto simp: set_stat_def ValidationFlags_Flag_def split: if_splits)
  then show ?case using IH by (auto simp: le_eq_less_or_eq)
qed simp

lemma tx_code_range: "tx_code P \<sigma> T nss \<in> {0, 11, 12}"
  by (induction nss) (simp_all add: Let_def TxValidationCode_VALID_def TxValidationCode_MVCC_READ_CONFLICT_def TxValidationCode_PHANTOM_READ_CONFLICT_def)

lemma serial_codes:
  "length (fst (serial P num mvcc txs \<sigma> T)) = length txs \<and> set (fst (serial P num mvcc txs \<sigma> T)) \<subseteq> {0, 11, 12}"
proof (induction txs arbitrary: \<sigma> T)
  case (Cons tx txs)
  let ?c = "if mvcc then tx_code P \<sigma> T (NsRwSets (tx_rwset tx)) else TxValidationCode_VALID"
  let ?h = "NewHeight num (word_of_nat (tx_indexInBlock tx))"
  obtain \<sigma>1 T1 where "fst (serial P num mvcc (tx # txs) \<sigma> T) = ?c # fst (serial P num mvcc txs \<sigma>1 T1)"
  proof (cases "?c = TxValidationCode_VALID")
    case True
    then have "fst (serial P num mvcc (tx # txs) \<sigma> T) =
        ?c # fst (serial P num mvcc txs (tx_apply P ?h (tx_rwset tx) \<sigma>) (tx_touch (tx_rwset tx) \<sigma> T))" by (simp add: Let_def case_prod_beta)
    then show ?thesis by (rule that)
  next
    case False
    then have "fst (serial P num mvcc (tx # txs) \<sigma> T) = ?c # fst (serial P num mvcc txs \<sigma> T)" by (simp add: Let_def case_prod_beta)
    then show ?thesis by (rule that)
  qed
  moreover have "?c \<in> {0, 11, 12}" using tx_code_range by (simp add: TxValidationCode_VALID_def)
  ultimately show ?case using Cons.IH [of \<sigma>1 T1] by simp
qed simp

text \<open>What a prepared block is, in terms of a serial execution of the transactions taken from it.\<close>

definition prepared_serially ::
  "'sim preparer \<Rightarrow> bool \<Rightarrow> state \<Rightarrow> Block \<Rightarrow> transaction list \<Rightarrow> PrivUpdateBatch \<Rightarrow> TxStatInfo list \<Rightarrow> Block \<Rightarrow> bool" where
  "prepared_serially PR mvcc S blk txs batch stats blk' \<longleftrightarrow>
     (case (block_flags blk, block_flags blk', serial (pr_params PR) (Number (BHeader blk)) mvcc txs (committed S) {}) of
        (Ok flags, Ok flags', cs, \<sigma>, T) \<Rightarrow>
          blk' = set_block_flags flags' blk \<and> length flags' = length flags \<and> length (BData blk) \<le> length flags \<and>
          sorted_wrt (<) (map tx_indexInBlock txs) \<and>
          (\<forall>k < length txs. let j = tx_indexInBlock (txs ! k) in
             j < length (BData blk) \<and> flags ! j = 0 \<and> decoded PR mvcc (BData blk ! j) (txs ! k) \<and> uint (flags' ! j) = cs ! k) \<and>
          (\<forall>j < length flags. flags ! j \<noteq> 0 \<longrightarrow> flags' ! j = flags ! j) \<and>
          (\<forall>j < length (BData blk). flags' ! j = 0 \<longrightarrow>
             j \<in> tx_indexInBlock ` set txs \<or> without_rwset PR mvcc (BData blk ! j)) \<and>
          (\<forall>j < length flags. ts_ValidationCode (stats ! j) = uint (flags' ! j)) \<and>
          (\<exists>u. PubUpdates batch = publicUpdates u \<and> HashUpdates batch = hashUpdates u \<and> updates_inv u \<and> view S u = \<sigma>)
      | _ \<Rightarrow> False)"

lemma postprocess_run:
  assumes "postprocessProtoBlock (ib\<lparr>mb_txs := ts\<rparr>) blk1 = Ok blk2" "block_flags blk1 = Ok flags1"
    "\<forall>tx \<in> set ts. tx_indexInBlock tx < length flags1" "distinct (map tx_indexInBlock ts)"
  shows "\<exists>flags2. blk2 = set_block_flags flags2 blk1 \<and> length flags2 = length flags1 \<and>
    (\<forall>tx \<in> set ts. flags2 ! tx_indexInBlock tx = word_of_int (tx_validationCode tx)) \<and>
    (\<forall>j < length flags1. j \<notin> tx_indexInBlock ` set ts \<longrightarrow> flags2 ! j = flags1 ! j)"
  using SetFlag_run [OF assms(3,4)] assms(1,2) by (auto simp: postprocessProtoBlock_def)

lemma set_block_flags_twice [simp]: "set_block_flags f (set_block_flags g blk) = set_block_flags f blk"
  by (cases "BMetadata blk") (simp_all add: set_block_flags_def)

lemma set_block_flags_select [simp]: "BData (set_block_flags f blk) = BData blk" "BHeader (set_block_flags f blk) = BHeader blk"
  by (simp_all add: set_block_flags_def)

lemma preprocess_run:
  assumes "preprocessProtoBlock PR mvcc blk = Ok (ib, stats, blk1)"
  obtains flags flags1 where "block_flags blk = Ok flags" "blk1 = set_block_flags flags1 blk" "mb_num ib = Number (BHeader blk)"
    "length stats = length (BData blk)" "length (BData blk) \<le> length flags" "selected PR mvcc 0 (BData blk) flags flags1 (mb_txs ib)"
proof -
  obtain flags flags1 txs where 1: "block_flags blk = Ok flags" "preprocess_loop PR mvcc 0 (BData blk) (flags, [], []) = Ok (flags1, txs, stats)"
    "ib = \<lparr>mb_num = Number (BHeader blk), mb_txs = txs\<rparr>" "blk1 = set_block_flags flags1 blk"
    using assms by (auto simp: preprocessProtoBlock_def rbind_eq_Ok)
  show ?thesis using preprocess_loop_selected [OF 1(2)] 1 by (intro that [OF 1(1) 1(4)]) (cases "BData blk"; auto)+
qed

lemma preprocess_rwsets:
  assumes "preprocessProtoBlock PR mvcc blk = Ok (ib, stats, blk1)"
    "\<forall>e \<in> set (BData blk). \<forall>tx. decoded PR mvcc e tx \<longrightarrow> rwset_ok (pr_params PR) (tx_rwset tx)"
  shows "\<forall>tx \<in> set (mb_txs ib). rwset_ok (pr_params PR) (tx_rwset tx)"
proof
  fix tx assume tx: "tx \<in> set (mb_txs ib)"
  obtain flags flags1 where "selected PR mvcc 0 (BData blk) flags flags1 (mb_txs ib)" using preprocess_run [OF assms(1)] .
  then have "tx_indexInBlock tx < length (BData blk)" "decoded PR mvcc (BData blk ! tx_indexInBlock tx) tx" using tx by (simp_all add: selected_def)
  then show "rwset_ok (pr_params PR) (tx_rwset tx)" using assms(2) nth_mem by blast
qed

lemma map2_code:
  assumes "length cs = length txs"
  shows "map tx_indexInBlock (map2 (\<lambda>tx c. tx\<lparr>tx_validationCode := c\<rparr>) txs cs) = map tx_indexInBlock txs"
    "k < length txs \<Longrightarrow> map2 (\<lambda>tx c. tx\<lparr>tx_validationCode := c\<rparr>) txs cs ! k = (txs ! k)\<lparr>tx_validationCode := cs ! k\<rparr>"
  using assms by (simp_all add: list_eq_iff_nth_eq)

lemma prepared_seriallyI:
  assumes pre: "block_flags blk = Ok flags" "selected PR mvcc 0 (BData blk) flags flags1 txs" "length (BData blk) \<le> length flags"
    and ser: "serial (pr_params PR) (Number (BHeader blk)) mvcc txs (committed S) {} = (cs, \<sigma>, T)"
    and post: "blk' = set_block_flags flags2 blk" "length flags2 = length flags1"
      "\<forall>k < length txs. flags2 ! tx_indexInBlock (txs ! k) = word_of_int (cs ! k)"
      "\<forall>j < length flags1. j \<notin> tx_indexInBlock ` set txs \<longrightarrow> flags2 ! j = flags1 ! j"
    and stats: "\<forall>j < length flags2. ts_ValidationCode (stats ! j) = uint (flags2 ! j)"
    and u: "PubUpdates batch = publicUpdates u" "HashUpdates batch = hashUpdates u" "updates_inv u" "view S u = \<sigma>"
  shows "prepared_serially PR mvcc S blk txs batch stats blk'"
proof -
  have cs: "length cs = length txs" "set cs \<subseteq> {0, 11, 12}" using serial_codes [of "pr_params PR" "Number (BHeader blk)" mvcc txs "committed S" "{}"] ser by simp_all
  have f: "block_flags blk' = Ok flags2" unfolding post(1) by (rule block_flags_set [OF pre(1)])
  have len: "length flags1 = length flags" using pre(2) by (simp add: selected_def)
  have idx: "tx_indexInBlock tx < length (BData blk) \<and> tx_indexInBlock tx < length flags \<and> flags ! tx_indexInBlock tx = 0 \<and>
      decoded PR mvcc (BData blk ! tx_indexInBlock tx) tx" if "tx \<in> set txs" for tx using pre(2) that by (simp add: selected_def)
  have 1: "tx_indexInBlock (txs ! k) < length (BData blk) \<and> flags ! tx_indexInBlock (txs ! k) = 0 \<and>
      decoded PR mvcc (BData blk ! tx_indexInBlock (txs ! k)) (txs ! k) \<and> uint (flags2 ! tx_indexInBlock (txs ! k)) = cs ! k" if k: "k < length txs" for k
  proof -
    have "cs ! k \<in> set cs" using cs(1) k by simp
    then have "cs ! k \<in> {0, 11, 12}" using cs(2) by (rule rev_subsetD)
    then have "uint (word_of_int (cs ! k) :: 8 word) = cs ! k" by (auto simp: uint_word_of_int)
    then show ?thesis using idx [of "txs ! k"] post(3) k by simp
  qed
  have 2: "flags2 ! j = flags ! j" if j: "j < length flags" "flags ! j \<noteq> 0" for j
  proof -
    have "j \<notin> tx_indexInBlock ` set txs" using idx j(2) by auto
    then show ?thesis using post(4) pre(2) j len by (simp add: selected_def)
  qed
  have 3: "j \<in> tx_indexInBlock ` set txs \<or> without_rwset PR mvcc (BData blk ! j)" if j: "j < length (BData blk)" "flags2 ! j = 0" for j
  proof (cases "j \<in> tx_indexInBlock ` set txs")
    case False
    then have "flags1 ! j = 0" using post(4) pre(3) j len by simp
    then show ?thesis using pre(2) j(1) by (simp add: selected_def)
  qed simp
  show ?thesis
    unfolding prepared_serially_def pre(1) f ser using post(1,2) len pre(2,3) 1 2 3 stats u
    by (auto simp: selected_def Let_def)
qed

lemma prepared_after_validation:
  assumes pre: "block_flags blk = Ok flags" "length (BData blk) \<le> length flags" "selected PR mvcc 0 (BData blk) flags flags1 (mb_txs ib)"
    and ser: "serial (pr_params PR) (Number (BHeader blk)) mvcc (mb_txs ib) (committed S) {} = (cs, \<sigma>, T)"
    and ts: "ts = map2 (\<lambda>tx c. tx\<lparr>tx_validationCode := c\<rparr>) (mb_txs ib) cs" and u: "updates_inv u" "view S u = \<sigma>"
    and post: "postprocessProtoBlock (ib\<lparr>mb_txs := ts\<rparr>) (set_block_flags flags1 blk) = Ok blk'" "block_flags blk' = Ok flags2"
      "rfold (set_stat flags2) [0..<length flags2] stats0 = Ok stats"
  shows "prepared_serially PR mvcc S blk (mb_txs ib) \<lparr>PubUpdates = publicUpdates u, HashUpdates = hashUpdates u, PvtUpdates = pvt\<rparr> stats blk'"
proof -
  have f1: "block_flags (set_block_flags flags1 blk) = Ok flags1" by (rule block_flags_set [OF pre(1)])
  have cs: "length cs = length (mb_txs ib)" using serial_codes [of "pr_params PR" "Number (BHeader blk)" mvcc "mb_txs ib" "committed S" "{}"] ser by simp
  have idx: "map tx_indexInBlock ts = map tx_indexInBlock (mb_txs ib)" unfolding ts by (rule map2_code(1) [OF cs])
  then have idx': "tx_indexInBlock ` set ts = tx_indexInBlock ` set (mb_txs ib)" by (metis list.set_map)
  have "distinct (map tx_indexInBlock ts)" "\<forall>i \<in> tx_indexInBlock ` set ts. i < length flags1"
    unfolding idx idx' using pre(3) strict_sorted_iff by (auto simp: selected_def)
  then obtain flags3 where 3: "blk' = set_block_flags flags3 (set_block_flags flags1 blk)" "length flags3 = length flags1"
    "\<forall>tx \<in> set ts. flags3 ! tx_indexInBlock tx = word_of_int (tx_validationCode tx)"
    "\<forall>j < length flags1. j \<notin> tx_indexInBlock ` set ts \<longrightarrow> flags3 ! j = flags1 ! j"
    using postprocess_run [OF post(1) f1] by auto
  have "flags3 = flags2" using post(2) block_flags_set [OF f1] by (simp add: 3(1))
  moreover have "flags3 ! tx_indexInBlock (mb_txs ib ! k) = word_of_int (cs ! k)" if "k < length (mb_txs ib)" for k
  proof -
    have "k < length ts" using that cs by (simp add: ts)
    then have "ts ! k \<in> set ts" by (rule nth_mem)
    then have "flags3 ! tx_indexInBlock (ts ! k) = word_of_int (tx_validationCode (ts ! k))" using 3(3) by blast
    then show ?thesis unfolding ts map2_code(2) [OF cs that] by simp
  qed
  ultimately show ?thesis
    using 3(1,2,4) set_stat_run [OF post(3)] u by (intro prepared_seriallyI [OF pre(1,3,2) ser]) (auto simp: idx')
qed

lemma ValidateAndPrepareBatch_serial:
  assumes db: "db_ok (pr_params PR) S db" and ok: "\<forall>e \<in> set (BData blk). \<forall>tx. decoded PR mvcc e tx \<longrightarrow> rwset_ok (pr_params PR) (tx_rwset tx)"
  shows "\<exists>r. ValidateAndPrepareBatch PR db pvtdata mvcc blk = Some r \<and>
    (\<forall>batch stats blk'. r = Ok (batch, stats, blk') \<longrightarrow> (\<exists>txs. prepared_serially PR mvcc S blk txs batch stats blk'))"
proof (cases "preprocessProtoBlock PR mvcc blk")
  case (Ok x)
  obtain ib stats0 blk1 where pre: "preprocessProtoBlock PR mvcc blk = Ok (ib, stats0, blk1)" using Ok by (cases x) auto
  obtain flags flags1 where 1: "block_flags blk = Ok flags" "blk1 = set_block_flags flags1 blk" "mb_num ib = Number (BHeader blk)"
    "length (BData blk) \<le> length flags" "selected PR mvcc 0 (BData blk) flags flags1 (mb_txs ib)" using preprocess_run [OF pre] .
  from validateAndPrepareBatch_run [OF db preprocess_rwsets [OF pre ok], of mvcc]
  obtain r where r: "validateAndPrepareBatch (pr_params PR) db ib mvcc = Some (rbind r (\<lambda>(u, ts). Ok (u, ib\<lparr>mb_txs := ts\<rparr>)))"
    "run_ok (pr_params PR) S (mb_num ib) mvcc (mb_txs ib) [] newPubAndHashUpdates r" by blast
  show ?thesis
  proof (cases r)
    case (Ok y)
    obtain u ts where y: "r = Ok (u, ts)" using Ok by (cases y) auto
    obtain cs \<sigma> T where ser: "serial (pr_params PR) (Number (BHeader blk)) mvcc (mb_txs ib) (committed S) {} = (cs, \<sigma>, T)" by (metis prod_cases3)
    have u: "updates_inv u" "ts = map2 (\<lambda>tx c. tx\<lparr>tx_validationCode := c\<rparr>) (mb_txs ib) cs" "view S u = \<sigma>"
      using r(2) ser 1(3) by (auto simp: y run_ok_def)
    let ?pvt = "validateAndPreparePvtBatch (pr_rwsets PR) (vp_values (pr_params PR)) (ib\<lparr>mb_txs := ts\<rparr>) db u pvtdata"
    let ?r = "rbind ?pvt (\<lambda>pvtUpdates. rbind (postprocessProtoBlock (ib\<lparr>mb_txs := ts\<rparr>) blk1) (\<lambda>blk2.
        rbind (block_flags blk2) (\<lambda>txsFilter. rbind (rfold (set_stat txsFilter) [0..<length txsFilter] stats0) (\<lambda>stats.
        Ok (\<lparr>PubUpdates = publicUpdates u, HashUpdates = hashUpdates u, PvtUpdates = pvtUpdates\<rparr>, stats, blk2)))))"
    have run: "ValidateAndPrepareBatch PR db pvtdata mvcc blk = Some ?r" using pre r(1) by (simp add: ValidateAndPrepareBatch_def obind_def y)
    have "prepared_serially PR mvcc S blk (mb_txs ib) batch stats blk'" if Ok: "?r = Ok (batch, stats, blk')" for batch stats blk'
    proof -
      obtain pvt flags2 where 2: "postprocessProtoBlock (ib\<lparr>mb_txs := ts\<rparr>) blk1 = Ok blk'" "block_flags blk' = Ok flags2"
        "rfold (set_stat flags2) [0..<length flags2] stats0 = Ok stats" "batch = \<lparr>PubUpdates = publicUpdates u, HashUpdates = hashUpdates u, PvtUpdates = pvt\<rparr>"
        using Ok by (auto simp: rbind_eq_Ok)
      show ?thesis unfolding 2(4) using prepared_after_validation [OF 1(1,4,5) ser u(2,1,3) 2(1) [unfolded 1(2)] 2(2,3)] .
    qed
    then show ?thesis using run by blast
  qed (use pre r(1) in \<open>auto simp: ValidateAndPrepareBatch_def obind_def\<close>)
qed (auto simp: ValidateAndPrepareBatch_def obind_def)

section \<open>Where private values come from\<close>

text \<open>
  A private update that a valid transaction brings along: its collection is in a private write set
  whose hash is the one in the transaction.
\<close>

definition endorsed_write :: "rwset_codec \<Rightarrow> (uint64 \<Rightarrow> TxPvtData option) \<Rightarrow> transaction list \<Rightarrow> string \<Rightarrow> string \<Rightarrow> string \<Rightarrow> bytes option \<Rightarrow> bool" where
  "endorsed_write RC pvtdata txs ns coll key v \<longleftrightarrow>
     (\<exists>tx \<in> set txs. \<exists>d ws n c kv w. tx_validationCode tx = TxValidationCode_VALID \<and> pvtdata (word_of_nat (tx_indexInBlock tx)) = Some d \<and>
        WriteSet d = Some ws \<and> n \<in> set (tq_NsPvtRwset ws) \<and> nq_Namespace n = ns \<and> c \<in> set (nq_CollectionPvtRwset n) \<and> cq_CollectionName c = coll \<and>
        retrieveHash tx ns coll = Some (ComputeHash (cq_Rwset c)) \<and> unmarshal_KV RC (cq_Rwset c) = Some kv \<and>
        w \<in> set (Writes kv) \<and> rw_Key w = key \<and> v = (if rw_IsDelete w then None else rw_Value w))"

text \<open>A value whose hash the block makes the current one of the key.\<close>

definition rehashed_value :: "UpdateMap \<Rightarrow> string \<Rightarrow> string \<Rightarrow> string \<Rightarrow> VersionedValue \<Rightarrow> bool" where
  "rehashed_value hashed ns coll key vv \<longleftrightarrow> (\<exists>hv. um_Get ns coll (to_string (ComputeStringHash key)) hashed = Some hv \<and>
     vv_Version vv = vv_Version hv \<and> ComputeHash (bytes_of (vv_Value vv)) = bytes_of (vv_Value hv))"

lemma ball_subset: "\<forall>x \<in> B. P x \<Longrightarrow> A \<subseteq> B \<Longrightarrow> \<forall>x \<in> A. P x"
  by blast

lemma rfold_invariant:
  assumes "rfold f xs s = Ok s'" "I s" "\<forall>x \<in> set xs. \<forall>s s'. I s \<longrightarrow> f x s = Ok s' \<longrightarrow> I s'"
  shows "I s'"
  using assms
proof (induction xs arbitrary: s)
  case (Cons x xs)
  obtain t where t: "f x s = Ok t" "rfold f xs t = Ok s'" using Cons.prems(1) by (auto simp: rbind_eq_Ok)
  have "\<forall>s s'. I s \<longrightarrow> f x s = Ok s' \<longrightarrow> I s'" using Cons.prems(3) by (rule bspec) (rule list.set_intros)
  then have "I t" using Cons.prems(2) t(1) by blast
  moreover have "\<forall>x \<in> set xs. \<forall>s s'. I s \<longrightarrow> f x s = Ok s' \<longrightarrow> I s'"
    using Cons.prems(3) by (rule ball_subset) (rule set_subset_Cons)
  ultimately show ?case by (rule Cons.IH [OF t(2)])
next
  case Nil
  then show ?case by (simp only: rfold.simps result.inject)
qed

lemma rfold_unit:
  fixes f :: "'a \<Rightarrow> unit \<Rightarrow> unit result"
  assumes "rfold f xs () = Ok ()" "x \<in> set xs"
  shows "f x () = Ok ()"
  using assms by (induction xs) (auto simp: rbind_eq_Ok)

lemma sha256_not_Nil: "ComputeHash b \<noteq> []"
proof
  assume "ComputeHash b = []"
  then have "length (sha256 b) = 0" by (simp add: ComputeHash_def)
  then show False by simp
qed

definition pvt_hash_check :: "transaction \<Rightarrow> string \<Rightarrow> CollectionPvtReadWriteSet \<Rightarrow> unit result" where
  "pvt_hash_check tx ns collPvtdata =
     (if ComputeHash (cq_Rwset collPvtdata) \<noteq> bytes_of (retrieveHash tx ns (cq_CollectionName collPvtdata))
      then Err (ErrMsg ''hash of pvt data for collection [%s:%s] does not match with the corresponding hash in the public data'')
      else Ok ())"

lemma validatePvtdata_checks:
  "validatePvtdata tx d = (case WriteSet d of None \<Rightarrow> Ok ()
     | Some ws \<Rightarrow> rfold (\<lambda>n. rfold (\<lambda>c _. pvt_hash_check tx (nq_Namespace n) c) (nq_CollectionPvtRwset n)) (tq_NsPvtRwset ws) ())"
  unfolding validatePvtdata_def pvt_hash_check_def ..

lemma validatePvtdata_hash:
  assumes "validatePvtdata tx d = Ok ()" "WriteSet d = Some ws" "n \<in> set (tq_NsPvtRwset ws)" "c \<in> set (nq_CollectionPvtRwset n)"
  shows "retrieveHash tx (nq_Namespace n) (cq_CollectionName c) = Some (ComputeHash (cq_Rwset c))"
proof -
  have "rfold (\<lambda>n. rfold (\<lambda>c _. pvt_hash_check tx (nq_Namespace n) c) (nq_CollectionPvtRwset n)) (tq_NsPvtRwset ws) () = Ok ()"
    using assms(1,2) by (simp add: validatePvtdata_checks)
  from rfold_unit [OF this assms(3)]
  have "rfold (\<lambda>c _. pvt_hash_check tx (nq_Namespace n) c) (nq_CollectionPvtRwset n) () = Ok ()" .
  from rfold_unit [OF this assms(4)] have "pvt_hash_check tx (nq_Namespace n) c = Ok ()" .
  then have "ComputeHash (cq_Rwset c) = bytes_of (retrieveHash tx (nq_Namespace n) (cq_CollectionName c))"
    by (simp add: pvt_hash_check_def split: if_splits)
  then show ?thesis using sha256_not_Nil [of "cq_Rwset c"] by (cases "retrieveHash tx (nq_Namespace n) (cq_CollectionName c)") (simp_all add: bytes_of_def)
qed

lemma rmap_in: "rmap f xs = Ok ys \<Longrightarrow> y \<in> set ys \<Longrightarrow> \<exists>x \<in> set xs. f x = Ok y"
  by (induction xs arbitrary: ys) (auto simp: rbind_eq_Ok)

lemma put_pvt_write_Ok:
  assumes "put_pvt_write ver ns coll w b = Ok b'"
  shows "b' = um_Update ns coll (rw_Key w) \<lparr>vv_Value = (if rw_IsDelete w then None else rw_Value w), vv_Metadata = None, vv_Version = Some ver\<rparr> b"
  using assms by (cases "rw_Value w") (auto simp: put_pvt_write_def um_Put_def um_Delete_Update split: if_splits)

definition pvt_origin :: "(string \<Rightarrow> string \<Rightarrow> string \<Rightarrow> VersionedValue \<Rightarrow> bool) \<Rightarrow> UpdateMap \<Rightarrow> bool" where
  "pvt_origin Q b \<longleftrightarrow> (\<forall>ns coll key vv. um_Get ns coll key b = Some vv \<longrightarrow> Q ns coll key vv)"

lemma pvt_origin_Update: "pvt_origin Q b \<Longrightarrow> Q ns coll key vv \<Longrightarrow> pvt_origin Q (um_Update ns coll key vv b)"
  by (auto simp: pvt_origin_def)

lemma addPvtRWSet_origin:
  assumes "addPvtRWSetToPvtUpdateBatch t ver b = Ok b'" "pvt_origin Q b"
    "\<forall>n \<in> set (NsPvtRwSets t). \<forall>c \<in> set (CollPvtRwSets n). \<forall>w \<in> set (Writes (cpr_KvRwSet c)).
       Q (npr_NameSpace n) (cpr_CollectionName c) (rw_Key w)
         \<lparr>vv_Value = (if rw_IsDelete w then None else rw_Value w), vv_Metadata = None, vv_Version = Some ver\<rparr>"
  shows "pvt_origin Q b'"
proof -
  have w: "\<forall>s s'. pvt_origin Q s \<longrightarrow> put_pvt_write ver (npr_NameSpace n) (cpr_CollectionName c) w s = Ok s' \<longrightarrow> pvt_origin Q s'"
    if "n \<in> set (NsPvtRwSets t)" "c \<in> set (CollPvtRwSets n)" "w \<in> set (Writes (cpr_KvRwSet c))" for n c w
    using that assms(3) by (auto dest!: put_pvt_write_Ok intro: pvt_origin_Update)
  have c: "\<forall>s s'. pvt_origin Q s \<longrightarrow> rfold (put_pvt_write ver (npr_NameSpace n) (cpr_CollectionName c)) (Writes (cpr_KvRwSet c)) s = Ok s' \<longrightarrow> pvt_origin Q s'"
    if "n \<in> set (NsPvtRwSets t)" "c \<in> set (CollPvtRwSets n)" for n c
  proof (intro allI impI)
    fix s s' assume s: "pvt_origin Q s" "rfold (put_pvt_write ver (npr_NameSpace n) (cpr_CollectionName c)) (Writes (cpr_KvRwSet c)) s = Ok s'"
    show "pvt_origin Q s'" by (rule rfold_invariant [where I = "pvt_origin Q", OF s(2,1)]) (use w [OF that] in simp)
  qed
  have n: "\<forall>s s'. pvt_origin Q s \<longrightarrow> rfold (\<lambda>c. rfold (put_pvt_write ver (npr_NameSpace n) (cpr_CollectionName c)) (Writes (cpr_KvRwSet c))) (CollPvtRwSets n) s = Ok s' \<longrightarrow> pvt_origin Q s'"
    if "n \<in> set (NsPvtRwSets t)" for n
  proof (intro allI impI)
    fix s s' assume s: "pvt_origin Q s"
      "rfold (\<lambda>c. rfold (put_pvt_write ver (npr_NameSpace n) (cpr_CollectionName c)) (Writes (cpr_KvRwSet c))) (CollPvtRwSets n) s = Ok s'"
    show "pvt_origin Q s'" by (rule rfold_invariant [where I = "pvt_origin Q", OF s(2,1)]) (use c [OF that] in simp)
  qed
  show ?thesis
    by (rule rfold_invariant [where I = "pvt_origin Q", OF assms(1) [unfolded addPvtRWSetToPvtUpdateBatch_def] assms(2)]) (use n in simp)
qed

definition allowed_update ::
  "rwset_codec \<Rightarrow> (uint64 \<Rightarrow> TxPvtData option) \<Rightarrow> transaction list \<Rightarrow> UpdateMap \<Rightarrow> string \<Rightarrow> string \<Rightarrow> string \<Rightarrow> VersionedValue \<Rightarrow> bool" where
  "allowed_update RC pvtdata txs hashed ns coll key vv \<longleftrightarrow>
     endorsed_write RC pvtdata txs ns coll key (vv_Value vv) \<or> rehashed_value hashed ns coll key vv"

lemma TxPvtRwSetFromProtoMsg_write:
  assumes "TxPvtRwSetFromProtoMsg RC ws = Ok t" "n \<in> set (NsPvtRwSets t)" "c \<in> set (CollPvtRwSets n)"
  shows "\<exists>n' \<in> set (tq_NsPvtRwset ws). \<exists>c' \<in> set (nq_CollectionPvtRwset n'). nq_Namespace n' = npr_NameSpace n \<and>
    cq_CollectionName c' = cpr_CollectionName c \<and> unmarshal_KV RC (cq_Rwset c') = Some (cpr_KvRwSet c)"
proof -
  have "rmap (nsPvtRwSetFromProtoMsg RC) (tq_NsPvtRwset ws) = Ok (NsPvtRwSets t)"
    using assms(1) by (auto simp: TxPvtRwSetFromProtoMsg_def rbind_eq_Ok)
  from rmap_in [OF this assms(2)] obtain n' where n': "n' \<in> set (tq_NsPvtRwset ws)" "nsPvtRwSetFromProtoMsg RC n' = Ok n" by blast
  then have "rmap (collPvtRwSetFromProtoMsg RC) (nq_CollectionPvtRwset n') = Ok (CollPvtRwSets n)" "nq_Namespace n' = npr_NameSpace n"
    by (auto simp: nsPvtRwSetFromProtoMsg_def rbind_eq_Ok)
  note ns = this
  obtain c' where c': "c' \<in> set (nq_CollectionPvtRwset n')" "collPvtRwSetFromProtoMsg RC c' = Ok c" using rmap_in [OF ns(1) assms(3)] by blast
  then have "cq_CollectionName c' = cpr_CollectionName c \<and> unmarshal_KV RC (cq_Rwset c') = Some (cpr_KvRwSet c)"
    by (cases "unmarshal_KV RC (cq_Rwset c')") (auto simp: collPvtRwSetFromProtoMsg_def rw_Unmarshal_def)
  then show ?thesis using ns(2) by (intro bexI [OF _ n'(1)] bexI [OF _ c'(1)]) simp
qed

lemma add_pvtdata_origin:
  assumes tx: "tx \<in> set txs" and run: "add_pvtdata RC num pvtdata tx (b, ks) = Ok (b', ks')"
    and b: "pvt_origin (allowed_update RC pvtdata txs hashed) b"
  shows "pvt_origin (allowed_update RC pvtdata txs hashed) b'"
proof (cases "tx_validationCode tx = TxValidationCode_VALID \<and> containsPvtWrites tx \<and> pvtdata (word_of_nat (tx_indexInBlock tx)) \<noteq> None")
  case True
  then obtain d where d: "pvtdata (word_of_nat (tx_indexInBlock tx)) = Some d" by blast
  obtain ws t where v: "validatePvtdata tx d = Ok ()" and ws: "WriteSet d = Some ws" and t: "TxPvtRwSetFromProtoMsg RC ws = Ok t"
    and b': "addPvtRWSetToPvtUpdateBatch t (NewHeight num (word_of_nat (tx_indexInBlock tx))) b = Ok b'"
    using run True d by (auto simp: add_pvtdata_def requiresPvtdataValidation_def rbind_eq_Ok split: option.splits)
  have "endorsed_write RC pvtdata txs (npr_NameSpace n) (cpr_CollectionName c) (rw_Key w) (if rw_IsDelete w then None else rw_Value w)"
    if n: "n \<in> set (NsPvtRwSets t)" and c: "c \<in> set (CollPvtRwSets n)" and w: "w \<in> set (Writes (cpr_KvRwSet c))" for n c w
  proof -
    obtain n' c' where m: "n' \<in> set (tq_NsPvtRwset ws)" "c' \<in> set (nq_CollectionPvtRwset n')" "nq_Namespace n' = npr_NameSpace n"
      "cq_CollectionName c' = cpr_CollectionName c" "unmarshal_KV RC (cq_Rwset c') = Some (cpr_KvRwSet c)"
      using TxPvtRwSetFromProtoMsg_write [OF t n c] by blast
    have h: "retrieveHash tx (npr_NameSpace n) (cpr_CollectionName c) = Some (ComputeHash (cq_Rwset c'))"
      using validatePvtdata_hash [OF v ws m(1,2)] m(3,4) by simp
    show ?thesis unfolding endorsed_write_def
      by (intro bexI [OF _ tx] exI [of _ d] exI [of _ ws] exI [of _ n'] exI [of _ c'] exI [of _ "cpr_KvRwSet c"] exI [of _ w] conjI)
        (use True d ws m h w in simp_all)
  qed
  then show ?thesis using addPvtRWSet_origin [OF b' b] by (simp add: allowed_update_def)
next
  case False
  then have "b' = b" using run by (auto simp: add_pvtdata_def split: if_splits option.splits)
  then show ?thesis using b by simp
qed

lemma increment_version_origin:
  assumes "increment_version V db hashed ck b = Ok b'" "pvt_origin (allowed_update RC pvtdata txs hashed) b"
  shows "pvt_origin (allowed_update RC pvtdata txs hashed) b'"
proof (cases "b' = b")
  case False
  obtain hv where hv: "um_Get (ck_ns ck) (ck_coll ck) (to_string (ComputeStringHash (ck_key ck))) hashed = Some hv"
    using assms(1) False by (auto simp: increment_version_def Let_def split: option.splits)
  obtain lv where lv: "retrieveLatestVal V db (ck_ns ck) (ck_coll ck) (ck_key ck) b = Ok (Some lv)"
    using assms(1) False hv by (auto simp: increment_version_def Let_def rbind_eq_Ok split: option.splits)
  have eq: "ComputeHash (bytes_of (vv_Value lv)) = bytes_of (vv_Value hv)"
    using assms(1) False hv lv by (simp add: increment_version_def Let_def split: if_splits)
  obtain ver where ver: "vv_Version hv = Some ver" "um_Put (ck_ns ck) (ck_coll ck) (ck_key ck) (vv_Value lv) ver b = Ok b'"
    using assms(1) False hv lv eq by (simp add: increment_version_def Let_def split: if_splits option.splits)
  obtain v where v: "vv_Value lv = Some v" using ver(2) by (cases "vv_Value lv") (simp_all add: um_Put_def)
  have h: "um_Get (ck_ns ck) (ck_coll ck) (to_string (ComputeStringHash (ck_key ck))) hashed = Some hv"
    "ComputeHash (bytes_of (vv_Value lv)) = bytes_of (vv_Value hv)" "vv_Version hv = Some ver" "vv_Value lv = Some v"
    "b' = um_Update (ck_ns ck) (ck_coll ck) (ck_key ck) \<lparr>vv_Value = Some v, vv_Metadata = None, vv_Version = Some ver\<rparr> b"
    using hv eq ver v by (simp_all add: um_Put_def)
  have "rehashed_value hashed (ck_ns ck) (ck_coll ck) (ck_key ck) \<lparr>vv_Value = Some v, vv_Metadata = None, vv_Version = Some ver\<rparr>"
    using h by (auto simp: rehashed_value_def)
  then show ?thesis unfolding h(5) by (intro pvt_origin_Update [OF assms(2)]) (simp add: allowed_update_def)
qed (use assms in simp)

lemma pvt_origin_Nil [simp]: "pvt_origin Q NewPvtUpdateBatch"
  by (simp add: pvt_origin_def NewPvtUpdateBatch_def)

lemma validateAndPreparePvtBatch_origin:
  assumes "validateAndPreparePvtBatch RC V blk db u pvtdata = Ok pvt"
  shows "pvt_origin (allowed_update RC pvtdata (mb_txs blk) (hashUpdates u)) pvt"
proof -
  let ?Q = "allowed_update RC pvtdata (mb_txs blk) (hashUpdates u)"
  obtain b ks where 1: "rfold (add_pvtdata RC (mb_num blk) pvtdata) (mb_txs blk) (NewPvtUpdateBatch, []) = Ok (b, ks)"
    and 2: "rfold (increment_version V db (hashUpdates u)) ks b = Ok pvt"
    using assms by (auto simp: validateAndPreparePvtBatch_def incrementPvtdataVersionIfNeeded_def rbind_eq_Ok)
  have "pvt_origin ?Q (fst (b, ks))"
    by (rule rfold_invariant [where I = "\<lambda>s. pvt_origin ?Q (fst s)", OF 1])
      (auto intro: add_pvtdata_origin)
  then have b: "pvt_origin ?Q b" by simp
  show ?thesis by (rule rfold_invariant [where I = "pvt_origin ?Q", OF 2 b]) (auto intro: increment_version_origin)
qed

section \<open>Success\<close>

lemma set_stat_Ok:
  "set xs \<subseteq> {..<length flags} \<Longrightarrow> length stats = length flags \<Longrightarrow> \<exists>stats'. rfold (set_stat flags) xs stats = Ok stats'"
  by (induction xs arbitrary: stats) (simp_all add: set_stat_def ValidationFlags_Flag_def)

lemma no_pvtdata:
  assumes "\<forall>i. pvtdata i = None"
  shows "validateAndPreparePvtBatch RC V blk db u pvtdata = Ok NewPvtUpdateBatch"
proof -
  have "rfold (add_pvtdata RC (mb_num blk) pvtdata) txs s = Ok s" for txs s
    by (induction txs) (simp_all add: add_pvtdata_def assms)
  then show ?thesis by (simp add: validateAndPreparePvtBatch_def incrementPvtdataVersionIfNeeded_def)
qed

lemma ValidateAndPrepareBatch_Ok:
  assumes db: "db_ok (pr_params PR) S db" and ok: "\<forall>tx \<in> set (mb_txs ib). rwset_ok (pr_params PR) (tx_rwset tx)"
    and pre: "preprocessProtoBlock PR mvcc blk = Ok (ib, stats0, blk1)" and pvt: "\<forall>i. pvtdata i = None"
    and q: "\<forall>tx \<in> set (mb_txs ib). raw_queries (NsRwSets (tx_rwset tx))" "no_orphans (mb_txs ib) []"
    and len: "block_flags blk = Ok flags" "length flags = length (BData blk)"
  shows "\<exists>x. ValidateAndPrepareBatch PR db pvtdata mvcc blk = Some (Ok x)"
proof -
  obtain flags' flags1 where f: "block_flags blk = Ok flags'" "blk1 = set_block_flags flags1 blk" "mb_num ib = Number (BHeader blk)"
    "length stats0 = length (BData blk)" "length (BData blk) \<le> length flags'" "selected PR mvcc 0 (BData blk) flags' flags1 (mb_txs ib)"
    using preprocess_run [OF pre] .
  then have 1: "blk1 = set_block_flags flags1 blk" "mb_num ib = Number (BHeader blk)"
    "length stats0 = length (BData blk)" "selected PR mvcc 0 (BData blk) flags flags1 (mb_txs ib)" using len(1) by simp_all
  obtain r where r: "validateAndPrepareBatch (pr_params PR) db ib mvcc = Some (rbind r (\<lambda>(u, ts). Ok (u, ib\<lparr>mb_txs := ts\<rparr>)))"
    "run_ok (pr_params PR) S (mb_num ib) mvcc (mb_txs ib) [] newPubAndHashUpdates r"
    using validateAndPrepareBatch_run [OF db ok, of mvcc] by blast
  obtain u ts where y: "r = Ok (u, ts)" using r(2) q by (auto simp: run_ok_def)
  obtain cs \<sigma> T where ser: "serial (pr_params PR) (mb_num ib) mvcc (mb_txs ib) (committed S) {} = (cs, \<sigma>, T)" by (metis prod_cases3)
  have ts: "ts = map2 (\<lambda>tx c. tx\<lparr>tx_validationCode := c\<rparr>) (mb_txs ib) cs" using r(2) ser by (auto simp: y run_ok_def)
  have cs: "length cs = length (mb_txs ib)" using serial_codes [of "pr_params PR" "mb_num ib" mvcc "mb_txs ib" "committed S" "{}"] ser by simp
  have idx: "map tx_indexInBlock ts = map tx_indexInBlock (mb_txs ib)" unfolding ts by (rule map2_code(1) [OF cs])
  then have "tx_indexInBlock ` set ts = tx_indexInBlock ` set (mb_txs ib)" by (metis list.set_map)
  then have "\<forall>i \<in> tx_indexInBlock ` set ts. i < length flags1" "distinct (map tx_indexInBlock ts)"
    unfolding idx using 1(4) strict_sorted_iff by (auto simp: selected_def)
  then obtain flags2 where 2: "rfold (\<lambda>tx. SetFlag (tx_indexInBlock tx) (tx_validationCode tx)) ts flags1 = Ok flags2" "length flags2 = length flags1"
    using SetFlag_run [of ts flags1] by auto
  have f1: "block_flags blk1 = Ok flags1" unfolding 1(1) by (rule block_flags_set [OF len(1)])
  have post: "postprocessProtoBlock (ib\<lparr>mb_txs := ts\<rparr>) blk1 = Ok (set_block_flags flags2 blk1)" using f1 2(1) by (simp add: postprocessProtoBlock_def)
  have "length flags1 = length flags" using 1(4) by (simp add: selected_def)
  then obtain stats where "rfold (set_stat flags2) [0..<length flags2] stats0 = Ok stats"
    using set_stat_Ok [of "[0..<length flags2]" flags2 stats0] 2(2) 1(3) len(2) by (auto simp: atLeast0LessThan)
  then show ?thesis
    using pre r(1) post block_flags_set [OF f1] by (simp add: ValidateAndPrepareBatch_def obind_def y no_pvtdata [OF pvt])
qed

text \<open>
  Two nil pointers: the header of an envelope is looked into even when the transaction is already known to be
  invalid, and private data without a write set pass the check of the hashes.
\<close>

lemma invalid_tx_without_header_panics:
  assumes "GetEnvelopeFromBlock (pr_codec PR) e = Ok env" "UnmarshalPayload (pr_codec PR) (env_Payload env) = Ok pl" "pl_Header pl = None"
  shows "\<exists>p. preprocess_tx PR mvcc i e s = Panic p"
  using assms by (cases s) (simp add: preprocess_tx_def unpack_header_def)

lemma pvtdata_without_writeset_panics:
  assumes "tx_validationCode tx = TxValidationCode_VALID" "containsPvtWrites tx" "pvtdata (word_of_nat (tx_indexInBlock tx)) = Some d" "WriteSet d = None"
  shows "\<exists>p. add_pvtdata RC num pvtdata tx s = Panic p"
  using assms by (simp add: add_pvtdata_def validatePvtdata_def requiresPvtdataValidation_def)

section \<open>Properties\<close>


text \<open>A block with one transaction that writes a key.\<close>

definition prep_rws :: TxRwSet where
  "prep_rws = \<lparr>NsRwSets = [\<lparr>NameSpace = ''cc'', KvRwSet = \<lparr>Reads = [], RangeQueriesInfo = [], Writes = [newKVWrite ''a'' (Some [1])], MetadataWrites = []\<rparr>,
     CollHashedRwSets = []\<rparr>]\<rparr>"

definition prep_bytes :: bytes where
  "prep_bytes = pack [to_bytes (Itoa TxReadWriteSet_KV), pack [ref_NsMsg \<lparr>rn_Namespace = ''cc'', rn_Rwset = ref_KV (KvRwSet (hd (NsRwSets prep_rws))),
     rn_CollectionHashedRwset = []\<rparr>]]"

definition prep_env :: bytes where
  "prep_env = marshal_Envelope ref_codec \<lparr>env_Payload = marshal_Payload ref_codec
     \<lparr>pl_Header = Some \<lparr>hdr_ChannelHeader = pack [[1], [2], [3]], hdr_SignatureHeader = []\<rparr>,
      pl_Data = marshal_Transaction ref_codec \<lparr>tx_Actions = [\<lparr>ta_Header = [], ta_Payload = marshal_ChaincodeActionPayload ref_codec
        \<lparr>cap_ChaincodeProposalPayload = [], cap_Action = Some \<lparr>cea_ProposalResponsePayload = marshal_ProposalResponsePayload ref_codec
           \<lparr>prp_ProposalHash = [], prp_Extension = marshal_ChaincodeAction ref_codec \<lparr>ca_Results = prep_bytes, ca_rest = []\<rparr>\<rparr>,
           cea_rest = []\<rparr>\<rparr>\<rparr>]\<rparr>\<rparr>, env_Signature = [9]\<rparr>"

definition prep_preparer :: "unit preparer" where
  "prep_preparer = \<lparr>pr_codec = ref_codec, pr_rwsets = ref_rwset_codec, pr_postOrder = \<lparr>NewTxSimulator = (\<lambda>_. Ok ()), customTxProcessors = (\<lambda>_. None),
     GetTxSimulationResults = (\<lambda>_. Ok None)\<rparr>, pr_params = ref_params\<rparr>"

definition prep_block :: Block where
  "prep_block = \<lparr>BHeader = \<lparr>Number = 7, PreviousHash = [], DataHash = []\<rparr>, BData = [prep_env], BMetadata = Some [[], [], [0], [], []]\<rparr>"

lemma prep_rws_bytes: "TxRwSet_FromProtoBytes ref_rwset_codec prep_bytes = Ok prep_rws"
proof (rule TxRwSet_round_trip [OF ref_rwset_codec_laws])
  show "TxRwSet_ToProtoBytes ref_rwset_codec prep_rws = Ok prep_bytes"
    by (simp add: TxRwSet_ToProtoBytes_def tx_toProtoMsg_def ns_toProtoMsg_def ref_rwset_codec_def prep_rws_def prep_bytes_def)
  show "rwset_normal prep_rws" by (simp add: rwset_normal_def prep_rws_def kv_normal_def newKVWrite_def)
qed

lemma prep_header: "\<exists>env chdr. unpack_header ref_codec prep_env = Ok (env, chdr) \<and> ch_Type chdr = HeaderType_ENDORSER_TRANSACTION"
  using codec_laws_simps [OF codec_laws_ref]
  by (simp add: unpack_header_def prep_env_def GetEnvelopeFromBlock_def UnmarshalPayload_def UnmarshalChannelHeader_def)
    (simp add: proto_Unmarshal_def ref_codec_def HeaderType_ENDORSER_TRANSACTION_def)

lemma ref_marshal_not_Nil: "marshal_ProposalResponsePayload ref_codec p \<noteq> []" "marshal_ChaincodeAction ref_codec a \<noteq> []"
  by (simp_all add: ref_codec_def)

lemma prep_action: "\<exists>a. GetActionFromEnvelope ref_codec prep_env = Ok a \<and> ca_Results a = prep_bytes"
  using codec_laws_simps [OF codec_laws_ref]
  by (simp add: GetActionFromEnvelope_def GetActionFromEnvelopeMsg_def GetPayloads_def prep_env_def GetEnvelopeFromBlock_def UnmarshalPayload_def
      UnmarshalTransaction_def UnmarshalChaincodeActionPayload_def UnmarshalProposalResponsePayload_def UnmarshalChaincodeAction_def ref_marshal_not_Nil)

lemma prep_decoded: "decoded prep_preparer mvcc prep_env tx \<Longrightarrow> tx_rwset tx = prep_rws"
  using prep_header prep_action prep_rws_bytes by (auto simp: decoded_def prep_preparer_def)

lemma prep_preprocess:
  "\<exists>tx stat blk1. preprocessProtoBlock prep_preparer mvcc prep_block = Ok (\<lparr>mb_num = 7, mb_txs = [tx]\<rparr>, [stat], blk1) \<and> tx_rwset tx = prep_rws"
proof -
  obtain env chdr where h: "unpack_header ref_codec prep_env = Ok (env, chdr)" "ch_Type chdr = HeaderType_ENDORSER_TRANSACTION" using prep_header by blast
  obtain a where a: "GetActionFromEnvelope ref_codec prep_env = Ok a" "ca_Results a = prep_bytes" using prep_action by blast
  have inv: "IsInvalid [0] 0 = Ok False" by (simp add: IsInvalid_Ok)
  have f: "block_flags prep_block = Ok [0]" by (simp add: block_flags_def prep_block_def BlockMetadataIndex_TRANSACTIONS_FILTER_def)
  obtain tx stat where "preprocess_tx prep_preparer mvcc 0 prep_env ([0], [], []) = Ok ([0], [tx], [stat])" "tx_rwset tx = prep_rws"
    using h a inv prep_rws_bytes by (simp add: preprocess_tx_def parse_endorser_def add_tx_def prep_preparer_def Let_def)
  then show ?thesis using f by (auto simp: preprocessProtoBlock_def) (simp add: prep_block_def)
qed


text \<open>C9. Private data are committed only as endorsed.  Every update of the private state that the preparation of
  a block makes is a write of a valid transaction of the block, from a collection whose bytes have the hash
  that is in the public read-write set of this transaction, or the current value of a key under a new
  version, where the version and the hash of the value are those the block gives the key in the hashed
  state.\<close>

theorem private_updates_are_endorsed:
  assumes "validateAndPreparePvtBatch RC V blk db u pvtdata = Ok pvt" "um_Get ns coll key pvt = Some vv"
  shows "endorsed_write RC pvtdata (mb_txs blk) ns coll key (vv_Value vv) \<or> rehashed_value (hashUpdates u) ns coll key vv"
  using validateAndPreparePvtBatch_origin [OF assms(1)] assms(2) by (auto simp: pvt_origin_def allowed_update_def)

text \<open>A transaction with one private write, and the data that come with it.\<close>

definition prep_pvt_kv :: RwKVRWSet where
  "prep_pvt_kv = \<lparr>Reads = [], RangeQueriesInfo = [], Writes = [newKVWrite ''k'' (Some [5])], MetadataWrites = []\<rparr>"

definition prep_pvt_tx :: transaction where
  "prep_pvt_tx = \<lparr>tx_indexInBlock = 0, tx_id = ''t'', tx_rwset = \<lparr>NsRwSets = [\<lparr>NameSpace = ''cc'',
     KvRwSet = \<lparr>Reads = [], RangeQueriesInfo = [], Writes = [], MetadataWrites = []\<rparr>,
     CollHashedRwSets = [\<lparr>CollectionName = ''c'', HashedRwSet = \<lparr>HashedReads = [], HashedWrites = [], HashedMetadataWrites = []\<rparr>,
       PvtRwSetHash = Some (ComputeHash (ref_KV prep_pvt_kv))\<rparr>]\<rparr>]\<rparr>, tx_validationCode = 0, tx_containsPostOrderWrites = False\<rparr>"

definition prep_pvtdata :: "uint64 \<Rightarrow> TxPvtData option" where
  "prep_pvtdata = [0 \<mapsto> \<lparr>SeqInBlock = 0, WriteSet = Some \<lparr>tq_DataModel = 0, tq_NsPvtRwset = [\<lparr>nq_Namespace = ''cc'',
     nq_CollectionPvtRwset = [\<lparr>cq_CollectionName = ''c'', cq_Rwset = ref_KV prep_pvt_kv\<rparr>]\<rparr>]\<rparr>\<rparr>]"

theorem private_updates_are_endorsed_witness:
  "\<exists>pvt vv. validateAndPreparePvtBatch ref_rwset_codec ref_values \<lparr>mb_num = 7, mb_txs = [prep_pvt_tx]\<rparr> empty_privdb newPubAndHashUpdates prep_pvtdata = Ok pvt \<and>
     um_Get ''cc'' ''c'' ''k'' pvt = Some vv \<and> vv_Value vv = Some [5] \<and>
     (endorsed_write ref_rwset_codec prep_pvtdata [prep_pvt_tx] ''cc'' ''c'' ''k'' (vv_Value vv) \<or>
      rehashed_value (hashUpdates newPubAndHashUpdates) ''cc'' ''c'' ''k'' vv)"
proof -
  let ?blk = "\<lparr>mb_num = 7, mb_txs = [prep_pvt_tx]\<rparr>"
  have kv: "unmarshal_KV ref_rwset_codec (ref_KV prep_pvt_kv) = Some prep_pvt_kv"
    using ref_rwset_codec_laws by (auto simp: rwset_codec_laws_def ref_rwset_codec_def prep_pvt_kv_def kv_normal_def newKVWrite_def)
  have h: "validatePvtdata prep_pvt_tx (the (prep_pvtdata 0)) = Ok ()" "containsPvtWrites prep_pvt_tx"
    by (simp_all add: validatePvtdata_def prep_pvtdata_def retrieveHash_def prep_pvt_tx_def bytes_of_def containsPvtWrites_def)
  have p: "TxPvtRwSetFromProtoMsg ref_rwset_codec (the (WriteSet (the (prep_pvtdata 0)))) =
      Ok \<lparr>NsPvtRwSets = [\<lparr>npr_NameSpace = ''cc'', CollPvtRwSets = [\<lparr>cpr_CollectionName = ''c'', cpr_KvRwSet = prep_pvt_kv\<rparr>]\<rparr>]\<rparr>"
    using kv by (simp add: TxPvtRwSetFromProtoMsg_def nsPvtRwSetFromProtoMsg_def collPvtRwSetFromProtoMsg_def rw_Unmarshal_def prep_pvtdata_def)
  obtain pvt where u: "um_Put ''cc'' ''c'' ''k'' (Some [5]) (NewHeight 7 0) NewPvtUpdateBatch = Ok pvt"
    "um_Get ''cc'' ''c'' ''k'' pvt = Some \<lparr>vv_Value = Some [5], vv_Metadata = None, vv_Version = Some (NewHeight 7 0)\<rparr>"
    by (simp add: um_Put_def)
  have "add_pvtdata ref_rwset_codec 7 prep_pvtdata prep_pvt_tx (NewPvtUpdateBatch, []) = Ok (pvt, [])"
    using h p u(1) by (simp add: add_pvtdata_def prep_pvtdata_def requiresPvtdataValidation_def addPvtRWSetToPvtUpdateBatch_def put_pvt_write_def
        addEntriesToMetadataUpdates_def prep_pvt_kv_def newKVWrite_def TxValidationCode_VALID_def prep_pvt_tx_def)
  then have r: "validateAndPreparePvtBatch ref_rwset_codec ref_values ?blk empty_privdb newPubAndHashUpdates prep_pvtdata = Ok pvt"
    by (simp add: validateAndPreparePvtBatch_def incrementPvtdataVersionIfNeeded_def)
  show ?thesis using private_updates_are_endorsed [OF r u(2)] r u(2) by simp
qed

end
