(* ===== verification/Spec2Isabelle.thy ===== *)
theory Spec2Isabelle
  imports DeployedParams Sha256Vectors Rollback BlockCreator BatchPreparer
begin

text \<open>
  HiCertChain is a fork of Hyperledger Fabric in which the data hash of a block is a chameleon hash,
  so that a certificate stored in a block can be replaced later without changing the chain of block
  headers.  This library models the ledger of a peer (the block store with the changes of the fork, and
  the state database with the validation of blocks), and the parts of the orderer that cut,
  create and queue blocks.  Names of definitions are those of the source; a suffix or prefix
  separates functions of the same name, and the fields of a record carry the initials of their type.

  \<^bold>\<open>Conventions.\<close>  A Go call ends in \<open>Ok\<close>, in the error it returns, or in a panic (type \<open>result\<close>, theory
  \<open>Prelude\<close>); code that changes files or databases is a function of the state that returns the new one
  (type \<open>io\<close>).  Fixed-width integers are words, except where the source only counts with them.  A nil
  slice or pointer is \<open>None\<close> where the code distinguishes it.  A Go map is an association list without
  repeated keys; the order in which Go visits it is not specified, and the modelled loops over maps do
  not depend on it.  The wire formats of protobuf messages are parameters with their round-trip laws
  (records \<open>codec\<close>, \<open>value_codec\<close>), as are the hash function and the marshalling of range query results
  (\<open>results_hashing\<close>), of metadata entries, and the simulator of transactions without endorsement (\<open>post_order\<close>); reference instances show that the laws can hold.  File and
  database writes can fail at any point: the model carries a list of faults that decides which.

  \<^bold>\<open>Foundations.\<close>
  \<^item> \<open>Prelude\<close>, \<open>GoStd\<close>: results, byte strings, and the functions of the Go standard library that the sources
    use (\<open>strconv\<close>, \<open>strings\<close>, \<open>bufio.ReadLine\<close>, \<open>encoding/binary\<close>, \<open>math/big\<close>).
  \<^item> \<open>Varint\<close>: the varint and raw-bytes codec of the protobuf buffer (\<open>vendor/github.com/golang/protobuf/proto\<close>) and
    the position-tracking reader of \<open>common/ledger/blkstorage/protobuf_util.go\<close>; the unrolled and the looping
    decoder agree and invert the encoder.
  \<^item> \<open>KeyEncoding\<close>, \<open>Version\<close>: the order preserving integers of \<open>common/ledger/util/util.go\<close> and the heights of
    \<open>core/ledger/internal/version/version.go\<close>: round trip, length, order.
  \<^item> \<open>Stores\<close>, \<open>FileSystem\<close>, \<open>FileUtil\<close>, \<open>LevelDB\<close>: files with the block file writer and reader
    (\<open>blockfile_rw.go\<close>), directories (\<open>internal/fileutil\<close>), and leveldb with its named databases
    (\<open>common/ledger/util/leveldbhelper\<close>).  The locale \<open>key_store\<close> is what both stores have in common.
  \<^item> \<open>Proto\<close>: the messages the ledger looks into and the helpers of \<open>protoutil\<close> that unmarshal them.
  \<^item> \<open>Sha256\<close>, \<open>Sha256Vectors\<close>: the hash function, tested on published vectors.

  \<^bold>\<open>The chameleon hash and the redaction.\<close>
  \<^item> \<open>Chameleon\<close>, \<open>DeployedParams\<close>: the four copies of the hash (\<open>protoutil/blockutils.go\<close>, \<open>blockfile_mgr.go\<close>,
    \<open>orderer/consensus/etcdraft/blockcreator.go\<close>), the collision in the locale \<open>trapdoor_group\<close>, and the
    certificate that the compiled-in parameters are such a group.
  \<^item> \<open>BlockUtils\<close>, \<open>CertArgs\<close>, \<open>Redaction\<close>: blocks and their hashes, the arguments and values inside a block,
    and what \<open>addBlock\<close> of the fork does with certificates, offsets and locks.  The theorems say what a
    redaction replaces, and that it destroys the frame of the block and that the locks are not enforced.

  \<^bold>\<open>The block store\<close> (\<open>common/ledger/blkstorage\<close>).
  \<^item> \<open>Serialization\<close>, \<open>BlockStream\<close>, \<open>BlockIndex\<close>, \<open>BlockfileHelper\<close>: the layout of a block, reading block files,
    the index, and what can be learnt from the files alone.
  \<^item> \<open>BlockfileMgr\<close>: the manager with all its operations and the iterators.
  \<^item> \<open>ChainIndex\<close>, \<open>ChainStore\<close>, \<open>AddBlock\<close>, \<open>Recovery\<close>, \<open>BlockLedger\<close>: the manager, its files and its
    database represent a chain of blocks.  Adding a block appends to the chain, a failed write is undone,
    starting after a crash recovers the chain in the files, and the lookups and iterators are those
    of the chain.
  \<^item> \<open>Reset\<close>, \<open>Rollback\<close>: \<open>reset.go\<close> and \<open>rollback.go\<close> leave the genesis block, and the blocks up to the target.

  \<^bold>\<open>The orderer.\<close>
  \<^item> \<open>BlockCutter\<close>: \<open>orderer/common/blockcutter/blockcutter.go\<close>; the batches are the messages in order and
    respect the limits.
  \<^item> \<open>BlockCreator\<close>: \<open>createNextBlock\<close> of \<open>orderer/consensus/etcdraft/blockcreator.go\<close> with the certificate requests
    of the fork, and what the leader does with a request and when its timer expires (\<open>chain.go\<close>).  The runs of the
    leader are the relation \<open>leads\<close>; in every run the created blocks form one chain with exactly the admitted
    messages, and a request that asks for no redaction is served.

  \<^bold>\<open>The state database and the validation of blocks\<close> (\<open>core/ledger/kvledger/txmgmt\<close>).
  \<^item> \<open>StateDB\<close>, \<open>StateLevelDB\<close>: the batch of updates and its iterator (\<open>statedb/statedb.go\<close>), and the state of
    a channel in leveldb (\<open>statedb/stateleveldb\<close>).  The database represents a map; lookups, range scans and
    \<open>ApplyUpdates\<close> are those of the map.  The locale \<open>results_iterator\<close> is the interface of iterators; it is
    interpreted for the batch, the database and the combined iterator.
  \<^item> \<open>Rwset\<close>, \<open>RangeQuery\<close>: read-write sets and Merkle summaries of range queries (\<open>rwsetutil\<close>), the iterator
    over database and batch, and the validators of recorded range queries (\<open>validation\<close>).
  \<^item> \<open>RwsetProto\<close>: read-write sets from and to protobuf messages (\<open>rwsetutil/rwset_proto_util.go\<close>), a round trip.
  \<^item> \<open>PrivacyState\<close>: private and hashed state in derived namespaces, and the metadata hint
    (\<open>privacyenabledstate\<close>).
  \<^item> \<open>Mvcc\<close>, \<open>Serializability\<close>: the validation of a block (\<open>validation/validator.go\<close>, \<open>tx_ops.go\<close>, \<open>types.go\<close>) gives
    the codes and the final state of a serial execution, and committing its updates makes the
    database represent that state.
  \<^item> \<open>BatchPreparer\<close>: from the envelopes of a block to the batch that is committed (\<open>validation/batch_preparer.go\<close>)
    with the validation flags of the block (\<open>internal/pkg/txflags\<close>).  The flags and the updates are those of the
    serial execution of the decoded transactions, and private updates come from data with an endorsed hash.

  \<^bold>\<open>Loops.\<close>  There is no fuel.  Loops over data are structural recursions or functions with a termination
  proof.  Three loops may run forever on some inputs and are partial functions whose value \<open>None\<close> is a
  call that does not return: \<open>rollback_loop\<close>, \<open>update_loop\<close> of the Merkle tree (with \<open>hash_loop\<close> above it) and
  \<open>fullDBScanner_Next\<close>.  The theorems on rollback and on the validation of blocks include that they
  return.  The wait of a block iterator for the next block is a value of its own.

  \<^bold>\<open>Not modelled.\<close>  Locks, goroutines and condition variables: an operation runs without interference.
  Logging and metrics.  Couchdb, gossip, raft consensus and elections, endorsement and chaincode execution, the
  membership service and the command line tools, which are remote services, cryptographic
  libraries or configuration.  In the modelled packages: opening and closing of databases,
  snapshots of the state, the version cache for couchdb, and the private data store.
\<close>

end
